(* ===== verification/Prelude.thy ===== *)
theory Prelude
  imports Main "HOL-Library.Word"
begin

text \<open>
  What the component theories share: the integer types of \<open>Common/include/Types.h\<close>, the
  exceptions of \<open>J1939/include/J1939Common.h\<close> with the two result types of the model, raw
  buffers with bounds-checked accesses, \<open>std::map\<close> as a strictly sorted association list,
  and the bit lemmas the codecs need. Nothing here is about one component.
\<close>

unbundle bit_operations_syntax

section \<open>Integer types\<close>

type_synonym u8 = "8 word"
type_synonym u16 = "16 word"
type_synonym u32 = "32 word"
type_synonym u64 = "64 word"
type_synonym bytes = "u8 list"

section \<open>Exceptions and results\<close>

text \<open>
  The ways control leaves a method other than by returning. The two exception classes carry the
  constant part of the message. \<open>AssertExit\<close> is the \<open>exit(-1)\<close> of the \<open>ASSERT\<close>
  macro, \<open>StdOutOfRange\<close> is what \<open>std::map::at\<close> throws, and \<open>UndefinedBehaviour\<close>
  is an access outside a buffer or an object used as a class it is not.
\<close>

datatype exc =
    J1939DecodeException string
  | J1939EncodeException string
  | AssertExit
  | StdOutOfRange
  | UndefinedBehaviour

text \<open>
  A \<open>const\<close> method returns a value or throws. A mutating method that throws leaves its object
  in the state reached so far, so its outcome carries the object on both sides.
\<close>

type_synonym 'a res = "exc + 'a"
type_synonym 's outcome = "(exc \<times> 's) + 's"

fun res_bind :: "'a res \<Rightarrow> ('a \<Rightarrow> 'b res) \<Rightarrow> 'b res" where
  "res_bind (Inl e) f = Inl e"
| "res_bind (Inr a) f = f a"

fun out_bind :: "'s outcome \<Rightarrow> ('s \<Rightarrow> 't outcome) \<Rightarrow> ('s \<Rightarrow> 't) \<Rightarrow> 't outcome" where
  "out_bind (Inl (e, s)) f g = Inl (e, g s)"
| "out_bind (Inr s) f g = f s"

fun out_map :: "('s \<Rightarrow> 't) \<Rightarrow> 's outcome \<Rightarrow> 't outcome" where
  "out_map g (Inl (e, s)) = Inl (e, g s)"
| "out_map g (Inr s) = Inr (g s)"

fun out_state :: "'s outcome \<Rightarrow> 's" where
  "out_state (Inl (e, s)) = s"
| "out_state (Inr s) = s"

fun is_ok :: "'e + 'a \<Rightarrow> bool" where
  "is_ok (Inl e) = False"
| "is_ok (Inr a) = True"

lemma res_bind_Inr_iff: "res_bind m f = Inr b \<longleftrightarrow> (\<exists>a. m = Inr a \<and> f a = Inr b)"
  by (cases m) auto

lemma res_bind_Inl_iff:
  "res_bind m f = Inl e \<longleftrightarrow> m = Inl e \<or> (\<exists>a. m = Inr a \<and> f a = Inl e)"
  by (cases m) auto

lemma out_map_Inr_iff: "out_map g m = Inr t \<longleftrightarrow> (\<exists>s. m = Inr s \<and> t = g s)"
  by (cases m rule: out_state.cases) auto

lemma is_ok_iff: "is_ok m \<longleftrightarrow> (\<exists>a. m = Inr a)"
  by (cases m) auto

section \<open>Buffers\<close>

text \<open>
  \<open>poke off bs buf\<close> stores the bytes \<open>bs\<close> at offset \<open>off\<close> of a raw buffer
  (\<open>memcpy\<close>, \<open>memset\<close>, a run of indexed assignments), \<open>peek off n buf\<close> reads
  \<open>n\<close> bytes from there. Both are undefined behaviour outside the buffer.
\<close>

definition poke :: "nat \<Rightarrow> bytes \<Rightarrow> bytes \<Rightarrow> bytes res" where
  "poke off bs buf =
     (if off + length bs \<le> length buf
      then Inr (take off buf @ bs @ drop (off + length bs) buf)
      else Inl UndefinedBehaviour)"

definition peek :: "nat \<Rightarrow> nat \<Rightarrow> bytes \<Rightarrow> bytes res" where
  "peek off n buf =
     (if off + n \<le> length buf then Inr (take n (drop off buf)) else Inl UndefinedBehaviour)"

lemma poke_ok: "off + length bs \<le> length buf \<Longrightarrow>
    poke off bs buf = Inr (take off buf @ bs @ drop (off + length bs) buf)"
  by (simp add: poke_def)

lemma poke_length: "poke off bs buf = Inr buf' \<Longrightarrow> length buf' = length buf"
  by (auto simp: poke_def split: if_splits)

lemma poke_Inr_iff: "poke off bs buf = Inr buf' \<longleftrightarrow>
    off + length bs \<le> length buf \<and> buf' = take off buf @ bs @ drop (off + length bs) buf"
  by (auto simp: poke_def)

lemma poke_nth:
  assumes "poke off bs buf = Inr buf'" and "i < length buf"
  shows "buf' ! i = (if off \<le> i \<and> i < off + length bs then bs ! (i - off) else buf ! i)"
  using assms by (auto simp: poke_Inr_iff nth_append min_def)

lemma poke_all: "length bs = length buf \<Longrightarrow> poke 0 bs buf = Inr bs"
  by (simp add: poke_def)

lemma peek_ok: "off + n \<le> length buf \<Longrightarrow> peek off n buf = Inr (take n (drop off buf))"
  by (simp add: peek_def)

lemma peek_Inr_iff: "peek off n buf = Inr bs \<longleftrightarrow>
    off + n \<le> length buf \<and> bs = take n (drop off buf)"
  by (auto simp: peek_def)

lemma peek_poke: "poke off bs buf = Inr buf' \<Longrightarrow> peek off (length bs) buf' = Inr bs"
  by (auto simp: poke_Inr_iff peek_def)

lemma take_poke: "poke off bs buf = Inr buf' \<Longrightarrow> n \<le> off \<Longrightarrow> take n buf' = take n buf"
  by (auto simp: poke_Inr_iff min_def)

text \<open>Lists of known length, element by element.\<close>

lemma length_Suc_conv_nth: "length xs = Suc n \<longleftrightarrow> (\<exists>y ys. xs = y # ys \<and> length ys = n)"
  by (simp add: length_Suc_conv)

lemma length_8_conv:
  "length xs = 8 \<longleftrightarrow> (\<exists>a b c d e f g h. xs = [a, b, c, d, e, f, g, h])"
  by (auto simp: eval_nat_numeral length_Suc_conv)

lemma length_7_conv: "length xs = 7 \<longleftrightarrow> (\<exists>a b c d e f g. xs = [a, b, c, d, e, f, g])"
  by (auto simp: eval_nat_numeral length_Suc_conv)

lemma length_4_conv: "length xs = 4 \<longleftrightarrow> (\<exists>a b c d. xs = [a, b, c, d])"
  by (auto simp: eval_nat_numeral length_Suc_conv)

lemma length_3_conv: "length xs = 3 \<longleftrightarrow> (\<exists>a b c. xs = [a, b, c])"
  by (auto simp: eval_nat_numeral length_Suc_conv)

section \<open>Bits\<close>

text \<open>
  The codecs pick bit fields out of integers with shifts and masks. Written as
  \<^const>\<open>mask\<close>, a contiguous mask has a bit for a known range of indices, and two words
  are equal when their bits are (\<open>bit_word_eqI\<close> with \<open>bit_simps\<close>).
\<close>

named_theorems mask_eqs

lemma mask_eqs_low [mask_eqs]:
  "(3 :: 'a::len word) = mask 2"
  "(7 :: 'a word) = mask 3"
  "(15 :: 'a word) = mask 4"
  "(31 :: 'a word) = mask 5"
  "(127 :: 'a word) = mask 7"
  "(255 :: 'a word) = mask 8"
  "(2047 :: 'a word) = mask 11"
  "(262143 :: 'a word) = mask 18"
  "(2097151 :: 'a word) = mask 21"
  by (simp_all add: mask_eq_exp_minus_1)

lemma word_bit_bound:
  fixes w :: "'a::len word"
  assumes "w < 2 ^ k" and "bit w n"
  shows "n < k"
proof -
  from assms(1) have "w AND mask k = w" by (rule less_mask_eq)
  with assms(2) have "bit (w AND mask k) n" by simp
  then show ?thesis by (simp add: bit_simps)
qed

lemma word_bit_width: "bit (w :: 'a::len word) n \<Longrightarrow> n < LENGTH('a)"
  by (rule bit_imp_le_length)

lemma word_AND_mask_less:
  fixes w :: "'a::len word"
  shows "k < LENGTH('a) \<Longrightarrow> w AND mask k < 2 ^ k"
  by (rule and_mask_less')

text \<open>
  Index arithmetic left by nested shifts, in a form that \<open>simp\<close> can decide by splitting.
\<close>

named_theorems bit_arith

lemma bit_arith_diff [bit_arith]:
  "0 < j \<Longrightarrow> (n - k < j) = (n < j + k)" for n k j :: nat
  by arith

lemma bit_arith_add [bit_arith]: "k + (n - k) = (if k \<le> n then n else k)" for n k :: nat
  by simp

lemma ucast_byte_mask: "(ucast (w AND 255) :: u8) = ucast (w :: 'a::len word)"
  by (rule bit_word_eqI) (auto simp: bit_simps mask_eqs dest: word_bit_width)

text \<open>The little-endian readings of two and three bytes.\<close>

definition le16 :: "u8 \<Rightarrow> u8 \<Rightarrow> u16" where
  "le16 b0 b1 = ucast b0 OR push_bit 8 (ucast b1)"

definition le24 :: "u8 \<Rightarrow> u8 \<Rightarrow> u8 \<Rightarrow> u32" where
  "le24 b0 b1 b2 = ucast b0 OR push_bit 8 (ucast b1) OR push_bit 16 (ucast b2)"

lemma le16_bytes: "le16 (ucast (w :: u16)) (ucast (drop_bit 8 w)) = w"
  by (rule bit_word_eqI) (auto simp: le16_def bit_simps)

lemma le24_bytes:
  assumes "(w :: u32) < 2 ^ 24"
  shows "le24 (ucast w) (ucast (drop_bit 8 w)) (ucast (drop_bit 16 w)) = w"
  by (rule bit_word_eqI)
     (use word_bit_bound [OF assms] in
       \<open>auto simp: le24_def bit_simps bit_arith split: if_splits\<close>)

lemma le24_less: "le24 a b c < 2 ^ 24"
proof -
  have "le24 a b c AND mask 24 = le24 a b c"
    by (rule bit_word_eqI) (auto simp: le24_def bit_simps dest: word_bit_width)
  then show ?thesis
    using and_mask_less' [of 24 "le24 a b c"] by simp
qed

end
