(* ===== verification/TimeUtils.thy ===== *)
theory TimeUtils
  imports Prelude "HOL-Library.Signed_Division"
begin

text \<open>
  \<open>Common/include/Utils.h\<close> and \<open>Common/Utils.cpp\<close>: the \<open>TimeStamp\<close> class (two
  unsigned 32-bit fields, seconds and microseconds) with its arithmetic and comparisons, and the
  two helpers on \<open>timespec\<close> that drive the periodic sender. The fields of a \<open>timespec\<close>
  are 64-bit signed; clock readings stay far from their limits, so they are \<^typ>\<open>int\<close>.
\<close>

section \<open>TimeStamp\<close>

datatype TimeStamp = TimeStamp (mSeconds: u32) (mMicroSec: u32)

definition ts_zero :: TimeStamp where
  "ts_zero = TimeStamp 0 0"

definition ts_minus :: "TimeStamp \<Rightarrow> TimeStamp \<Rightarrow> TimeStamp" where
  "ts_minus this other =
     (if mMicroSec other > mMicroSec this \<and> mSeconds other \<ge> mSeconds this then ts_zero
      else
        let ret = (if mMicroSec other > mMicroSec this
                   then TimeStamp (mSeconds this - 1) (mMicroSec this + 1000000)
                   else this)
        in if mSeconds other > mSeconds ret then ts_zero
           else TimeStamp (mSeconds ret - mSeconds other) (mMicroSec ret - mMicroSec other))"

definition ts_plus :: "TimeStamp \<Rightarrow> TimeStamp \<Rightarrow> TimeStamp" where
  "ts_plus this other =
     (let s = mSeconds this + mSeconds other; u = mMicroSec this + mMicroSec other
      in if u > 1000000 then TimeStamp (s + 1) (u - 1000000) else TimeStamp s u)"

definition ts_gt :: "TimeStamp \<Rightarrow> TimeStamp \<Rightarrow> bool" where
  "ts_gt this other =
     (mSeconds this > mSeconds other \<or>
      mSeconds this = mSeconds other \<and> mMicroSec this > mMicroSec other)"

definition ts_lt :: "TimeStamp \<Rightarrow> TimeStamp \<Rightarrow> bool" where
  "ts_lt this other =
     (mSeconds this < mSeconds other \<or>
      mSeconds this = mSeconds other \<and> mMicroSec this < mMicroSec other)"

definition ts_le :: "TimeStamp \<Rightarrow> TimeStamp \<Rightarrow> bool" where
  "ts_le this other = (\<not> ts_gt this other)"

definition ts_ge :: "TimeStamp \<Rightarrow> TimeStamp \<Rightarrow> bool" where
  "ts_ge this other = (\<not> ts_lt this other)"

definition ts_of_millis :: "u32 \<Rightarrow> TimeStamp" where
  "ts_of_millis millis = TimeStamp (millis div 1000) ((millis mod 1000) * 1000)"

definition ts_minus_millis :: "TimeStamp \<Rightarrow> u32 \<Rightarrow> TimeStamp" where
  "ts_minus_millis this millis = ts_minus this (ts_of_millis millis)"

definition ts_plus_millis :: "TimeStamp \<Rightarrow> u32 \<Rightarrow> TimeStamp" where
  "ts_plus_millis this millis = ts_plus this (ts_of_millis millis)"

text \<open>\<open>now()\<close>, given the reading of the steady clock in microseconds.\<close>

definition ts_now :: "nat \<Rightarrow> TimeStamp" where
  "ts_now micro = TimeStamp (of_nat (micro div 1000000)) (of_nat (micro mod 1000000))"

text \<open>
  The comparisons are a linear order, which \<open>std::upper_bound\<close> and the window loop of the
  history rely on.
\<close>

instantiation TimeStamp :: linorder
begin

definition less_eq_TimeStamp :: "TimeStamp \<Rightarrow> TimeStamp \<Rightarrow> bool" where
  "less_eq_TimeStamp = ts_le"

definition less_TimeStamp :: "TimeStamp \<Rightarrow> TimeStamp \<Rightarrow> bool" where
  "less_TimeStamp = ts_lt"

instance
proof
  fix a b c :: TimeStamp
  show "a < b \<longleftrightarrow> a \<le> b \<and> \<not> b \<le> a"
    by (auto simp: less_eq_TimeStamp_def less_TimeStamp_def ts_le_def ts_lt_def ts_gt_def)
  show "a \<le> a"
    by (simp add: less_eq_TimeStamp_def ts_le_def ts_gt_def)
  show "a \<le> b \<Longrightarrow> b \<le> c \<Longrightarrow> a \<le> c"
    by (auto simp: less_eq_TimeStamp_def ts_le_def ts_gt_def)
  show "a \<le> b \<Longrightarrow> b \<le> a \<Longrightarrow> a = b"
    by (cases a; cases b) (auto simp: less_eq_TimeStamp_def ts_le_def ts_gt_def)
  show "a \<le> b \<or> b \<le> a"
    by (auto simp: less_eq_TimeStamp_def ts_le_def ts_gt_def)
qed

end

lemmas ts_order_defs =
  less_eq_TimeStamp_def less_TimeStamp_def ts_le_def ts_ge_def ts_lt_def ts_gt_def

section \<open>What a time stamp stands for\<close>

definition ts_micros :: "TimeStamp \<Rightarrow> nat" where
  "ts_micros t = unat (mSeconds t) * 1000000 + unat (mMicroSec t)"

definition ts_normal :: "TimeStamp \<Rightarrow> bool" where
  "ts_normal t \<longleftrightarrow> mMicroSec t < 1000000"

lemma ts_normal_unat: "ts_normal t \<longleftrightarrow> unat (mMicroSec t) < 1000000"
  by (simp add: ts_normal_def word_less_nat_alt)

lemma ts_micros_zero [simp]: "ts_micros ts_zero = 0" and ts_normal_zero [simp]: "ts_normal ts_zero"
  by (simp_all add: ts_micros_def ts_zero_def ts_normal_def)

lemma ts_lt_micros:
  "ts_normal a \<Longrightarrow> ts_normal b \<Longrightarrow> ts_lt a b \<longleftrightarrow> ts_micros a < ts_micros b"
  by (auto simp: ts_lt_def ts_micros_def ts_normal_unat word_less_nat_alt word_unat_eq_iff)

lemma unat_minus_le: "b \<le> a \<Longrightarrow> unat (a - b) = unat a - unat b" for a b :: "'a::len word"
  by (rule unat_sub)

lemma unat_plus_no_overflow:
  "unat a + unat b < 2 ^ LENGTH('a) \<Longrightarrow> unat (a + b) = unat a + unat b" for a b :: "'a::len word"
  by (simp add: unat_plus_if')

text \<open>Subtraction borrows and saturates at zero.\<close>

lemma ts_minus_micros:
  assumes "ts_normal a" and "ts_normal b"
  shows "ts_micros (ts_minus a b) = ts_micros a - ts_micros b" and "ts_normal (ts_minus a b)"
proof -
  obtain s u where a: "a = TimeStamp s u" by (cases a)
  obtain s' u' where b: "b = TimeStamp s' u'" by (cases b)
  have u: "unat u < 1000000" and u': "unat u' < 1000000"
    using assms by (simp_all add: a b ts_normal_unat)
  have carry: "unat (u + 1000000) = unat u + 1000000"
    using u by (subst unat_plus_no_overflow) auto
  have "ts_micros (ts_minus a b) = ts_micros a - ts_micros b \<and> ts_normal (ts_minus a b)"
  proof (cases "u' > u")
    case True
    show ?thesis
    proof (cases "s' \<ge> s")
      case True
      with \<open>u' > u\<close> u u' show ?thesis
        by (simp add: a b ts_minus_def ts_micros_def ts_zero_def ts_normal_def word_le_nat_alt
              word_less_nat_alt)
    next
      case False
      then have s: "s' < s" and pos: "1 \<le> s"
        by (auto simp: word_less_nat_alt word_le_nat_alt)
      then have s1: "unat (s - 1) = unat s - 1" by (simp add: unat_minus_le)
      then have le: "s' \<le> s - 1" and "\<not> s' > s - 1"
        using s by (auto simp: word_le_nat_alt word_less_nat_alt)
      moreover have "u' \<le> u + 1000000"
        using carry u' by (simp add: word_le_nat_alt)
      moreover obtain k where "unat s = unat s' + Suc k"
        using s by (auto simp: word_less_nat_alt dest: less_imp_Suc_add)
      ultimately show ?thesis
        using True s u u' carry s1
        by (simp add: a b ts_minus_def ts_micros_def ts_normal_unat unat_minus_le
              word_less_nat_alt not_le [symmetric] word_le_nat_alt) arith
    qed
  next
    case False
    then have uu: "unat u' \<le> unat u" by (simp add: not_less word_le_nat_alt)
    show ?thesis
    proof (cases "s' > s")
      case True
      then have "unat s * 1000000 + 1000000 \<le> unat s' * 1000000"
        by (simp add: word_less_nat_alt)
      with True False u show ?thesis
        by (simp add: a b ts_minus_def Let_def)
           (simp add: ts_micros_def)
    next
      case False
      then obtain k where "unat s = unat s' + k"
        by (auto simp: not_less word_le_nat_alt dest: le_Suc_ex)
      moreover have "unat (s - s') = unat s - unat s'" and "unat (u - u') = unat u - unat u'"
        using False \<open>\<not> u' > u\<close> by (simp_all add: unat_minus_le)
      ultimately show ?thesis
        using False \<open>\<not> u' > u\<close> uu u
        by (simp add: a b ts_minus_def ts_micros_def ts_normal_unat Let_def)
    qed
  qed
  then show "ts_micros (ts_minus a b) = ts_micros a - ts_micros b" and "ts_normal (ts_minus a b)"
    by simp_all
qed

lemma ts_plus_micros:
  assumes "ts_normal a" and "ts_normal b"
    and "unat (mSeconds a) + unat (mSeconds b) + 1 < 2 ^ 32"
  shows "ts_micros (ts_plus a b) = ts_micros a + ts_micros b"
    and "mMicroSec (ts_plus a b) \<le> 1000000"
proof -
  have u: "unat (mMicroSec a) < 1000000" "unat (mMicroSec b) < 1000000"
    using assms(1,2) by (simp_all add: ts_normal_unat)
  have uu: "unat (mMicroSec a + mMicroSec b) = unat (mMicroSec a) + unat (mMicroSec b)"
    using u by (subst unat_plus_no_overflow) auto
  have ss: "unat (mSeconds a + mSeconds b) = unat (mSeconds a) + unat (mSeconds b)"
    using assms(3) by (subst unat_plus_no_overflow) auto
  have s1: "unat (mSeconds a + mSeconds b + 1) = unat (mSeconds a) + unat (mSeconds b) + 1"
    using assms(3) ss by (subst unat_plus_no_overflow) auto
  show "ts_micros (ts_plus a b) = ts_micros a + ts_micros b"
    using uu ss s1
    by (auto simp: ts_plus_def ts_micros_def Let_def word_less_nat_alt unat_minus_le
          word_le_nat_alt)
  show "mMicroSec (ts_plus a b) \<le> 1000000"
    using uu u
    by (auto simp: ts_plus_def Let_def word_less_nat_alt unat_minus_le word_le_nat_alt)
qed

lemma millis_split: "n div 1000 * 1000000 + n mod 1000 * 1000 = n * 1000" for n :: nat
proof -
  have "n = n div 1000 * 1000 + n mod 1000" by simp
  then show ?thesis by linarith
qed

lemma ts_of_millis_micros: "ts_micros (ts_of_millis m) = unat m * 1000"
  and ts_of_millis_normal: "ts_normal (ts_of_millis m)"
proof -
  have r: "unat (m mod 1000) < 1000" by (simp add: unat_mod)
  then have p: "unat (m mod 1000 * 1000) = unat (m mod 1000) * 1000"
    by (simp add: unat_word_ariths)
  show "ts_micros (ts_of_millis m) = unat m * 1000"
    using p millis_split [of "unat m"]
    by (simp add: ts_of_millis_def ts_micros_def unat_div unat_mod)
  show "ts_normal (ts_of_millis m)"
    using p r by (simp add: ts_of_millis_def ts_normal_unat)
qed

section \<open>timespec helpers\<close>

record timespec =
  tv_sec :: int
  tv_nsec :: int

definition getElapsedMillis :: "timespec \<Rightarrow> timespec \<Rightarrow> u32" where
  "getElapsedMillis start stop =
     word_of_int ((tv_sec stop - tv_sec start) * 1000
                  + (tv_nsec stop - tv_nsec start) sdiv 1000000)"

definition addMillis :: "timespec \<Rightarrow> u32 \<Rightarrow> timespec" where
  "addMillis time millis =
     \<lparr>tv_sec = tv_sec time + uint (millis div 1000),
      tv_nsec = tv_nsec time + uint ((millis mod 1000) * 1000000)\<rparr>"

definition timespec_nanos :: "timespec \<Rightarrow> int" where
  "timespec_nanos t = tv_sec t * 1000000000 + tv_nsec t"

lemma uint_millis_rest: "uint ((m mod 1000) * 1000000 :: u32) = (uint m mod 1000) * 1000000"
proof -
  have "uint (m mod 1000) < 1000" by (simp add: uint_mod)
  then show ?thesis by (simp add: uint_word_ariths uint_mod)
qed

lemma uint_millis_secs: "uint (m div 1000 :: u32) = uint m div 1000"
proof -
  have "int (unat (m div 1000)) = int (unat m div 1000)" by (simp add: unat_div)
  then show ?thesis by (simp add: zdiv_int)
qed

lemma addMillis_nanos: "timespec_nanos (addMillis t m) = timespec_nanos t + uint m * 1000000"
  by (simp add: timespec_nanos_def addMillis_def uint_millis_rest uint_millis_secs) presburger

lemma sdiv_millis: "(uint m mod 1000) * 1000000 sdiv 1000000 = uint m mod 1000"
proof -
  have "0 \<le> uint m mod 1000" by simp
  then show ?thesis by (auto simp: signed_divide_int_def sgn_if)
qed

lemma elapsed_addMillis: "getElapsedMillis t (addMillis t m) = m"
proof -
  have "uint (m div 1000) * 1000 + uint ((m mod 1000) * 1000000) sdiv 1000000 = uint m"
    by (simp add: uint_millis_rest uint_millis_secs sdiv_millis)
  then show ?thesis
    by (simp add: getElapsedMillis_def addMillis_def)
qed

section \<open>Properties\<close>

text \<open>On normalised time stamps \<open>operator-\<close> is subtraction of microseconds that saturates at zero,
  the comparison is that of the microseconds, and the result is normalised.\<close>

theorem time_difference:
  assumes "ts_normal a" and "ts_normal b"
  shows "ts_micros (ts_minus a b) = ts_micros a - ts_micros b \<and> ts_normal (ts_minus a b)
    \<and> (ts_lt a b \<longleftrightarrow> ts_micros a < ts_micros b)"
  using ts_minus_micros [OF assms] ts_lt_micros [OF assms] by simp

theorem time_difference_witness:
  "ts_micros (ts_minus (TimeStamp 7 20) (TimeStamp 5 500000)) = 1500020
   \<and> ts_normal (ts_minus (TimeStamp 7 20) (TimeStamp 5 500000))"
  using time_difference [of "TimeStamp 7 20" "TimeStamp 5 500000"]
  by (simp add: ts_normal_def ts_micros_def)

text \<open>\<open>operator+\<close> adds the microseconds of two normalised time stamps whose seconds do not overflow,
  but it carries only above one million: the microseconds of the sum may be exactly a million, so
  that it is not normalised and compares as smaller than an equal instant.\<close>

theorem time_sum:
  assumes "ts_normal a" and "ts_normal b"
    and "unat (mSeconds a) + unat (mSeconds b) + 1 < 2 ^ 32"
  shows "ts_micros (ts_plus a b) = ts_micros a + ts_micros b \<and> mMicroSec (ts_plus a b) \<le> 1000000
    \<and> (ts_normal (ts_plus a b)
         \<longleftrightarrow> unat (mMicroSec a) + unat (mMicroSec b) \<noteq> 1000000)"
proof -
  have u: "unat (mMicroSec a) < 1000000" "unat (mMicroSec b) < 1000000"
    using assms(1,2) by (simp_all add: ts_normal_unat)
  have uu: "unat (mMicroSec a + mMicroSec b) = unat (mMicroSec a) + unat (mMicroSec b)"
    using u by (subst unat_plus_no_overflow) auto
  have "ts_normal (ts_plus a b) \<longleftrightarrow> unat (mMicroSec a) + unat (mMicroSec b) \<noteq> 1000000"
    using uu u
    by (auto simp: ts_plus_def Let_def ts_normal_unat word_less_nat_alt unat_minus_le
        word_le_nat_alt)
  with ts_plus_micros [OF assms] show ?thesis by simp
qed

theorem time_sum_witness:
  "ts_micros (ts_plus (TimeStamp 1 500000) (TimeStamp 2 500000)) = 4000000
   \<and> \<not> ts_normal (ts_plus (TimeStamp 1 500000) (TimeStamp 2 500000))"
  using time_sum [of "TimeStamp 1 500000" "TimeStamp 2 500000"]
  by (simp add: ts_normal_def ts_micros_def)

text \<open>\<open>addMillis\<close> moves a \<open>timespec\<close> by exactly that many milliseconds, and \<open>getElapsedMillis\<close>
  measures them again, for every 32-bit interval.\<close>

theorem elapsed_after_addMillis:
  "getElapsedMillis t (addMillis t m) = m
   \<and> timespec_nanos (addMillis t m) = timespec_nanos t + uint m * 1000000"
  by (simp add: elapsed_addMillis addMillis_nanos)

end
