(* ===== verification/J1939Frame.thy ===== *)
theory J1939Frame
  imports Prelude
begin

text \<open>
  \<open>J1939/include/J1939Frame.h\<close> and \<open>J1939/J1939Frame.cpp\<close>: the base class of every frame.
  The record \<open>frame\<close> has the class's fields and, as \<open>mBody\<close>, the fields of the derived
  class; the virtual methods \<open>decodeData\<close>, \<open>encodeData\<close> and \<open>getDataLength\<close> are
  arguments of the template methods \<open>decode\<close>, \<open>encode\<close> and \<open>copy\<close>, exactly where the
  C++ dispatches to the derived class. The locale \<open>frame_codec\<close> is the contract a derived
  class owes the base class; every frame type of the library interprets it, and the round trip of a
  whole frame is proved once, inside it.
\<close>

record 'p frame =
  mPriority :: u8
  mSrcAddr :: u8
  mPgn :: u32
  mDstAddr :: u8
  mName :: string
  mBody :: 'p

datatype EJ1939PduFormat = PDU_FORMAT_1 | PDU_FORMAT_2

section \<open>Fields of a PGN\<close>

definition getExtDataPage :: "u32 \<Rightarrow> u8" where
  "getExtDataPage pgn = ucast (drop_bit 17 pgn AND 1)"

definition getDataPage :: "u32 \<Rightarrow> u8" where
  "getDataPage pgn = ucast (drop_bit 16 pgn AND 1)"

definition getPDUFormat :: "u32 \<Rightarrow> u8" where
  "getPDUFormat pgn = ucast (drop_bit 8 pgn AND 0xFF)"

definition getPDUSpecific :: "u32 \<Rightarrow> u8" where
  "getPDUSpecific pgn = ucast (pgn AND 0xFF)"

definition getPDUFormatGroup :: "u32 \<Rightarrow> EJ1939PduFormat" where
  "getPDUFormatGroup pgn = (if getPDUFormat pgn < 0xF0 then PDU_FORMAT_1 else PDU_FORMAT_2)"

section \<open>Construction and setters\<close>

text \<open>
  The constructor asserts that a PGN of the first group has no destination bits; \<open>b\<close> holds the
  derived class's initial fields.
\<close>

definition frame_ctor :: "u32 \<Rightarrow> 'p \<Rightarrow> 'p frame res" where
  "frame_ctor pgn b =
     (if getPDUFormatGroup pgn = PDU_FORMAT_2 \<or> pgn AND 0xFF = 0
      then Inr \<lparr>mPriority = 0, mSrcAddr = 0xFE, mPgn = pgn, mDstAddr = 0xFE,
                mName = ''Unknown'', mBody = b\<rparr>
      else Inl AssertExit)"

definition setPriority :: "u8 \<Rightarrow> 'p frame \<Rightarrow> bool \<times> 'p frame" where
  "setPriority priority f = (priority AND 7 = priority, f\<lparr>mPriority := priority AND 7\<rparr>)"

definition setDstAddr :: "u8 \<Rightarrow> 'p frame \<Rightarrow> bool \<times> 'p frame" where
  "setDstAddr dst f =
     (if getPDUFormatGroup (mPgn f) = PDU_FORMAT_1 then (True, f\<lparr>mDstAddr := dst\<rparr>)
      else (False, f))"

definition setSrcAddr :: "u8 \<Rightarrow> 'p frame \<Rightarrow> 'p frame" where
  "setSrcAddr src f = f\<lparr>mSrcAddr := src\<rparr>"

section \<open>Decoding and encoding\<close>

text \<open>
  The PGN bits of an identifier, whether they are in the first group, and the PGN compared with
  \<open>mPgn\<close>: the same lines open \<open>J1939Frame::decode\<close> and \<open>J1939Factory::getJ1939Frame\<close>.
\<close>

definition id_pgn_bits :: "u32 \<Rightarrow> u32" where
  "id_pgn_bits identifier = drop_bit 8 identifier AND 0x3FFFF"

definition id_group1 :: "u32 \<Rightarrow> bool" where
  "id_group1 identifier \<longleftrightarrow> (drop_bit 8 (id_pgn_bits identifier) AND 0xFF) < 0xF0"

definition id_pgn :: "u32 \<Rightarrow> u32" where
  "id_pgn identifier =
     (if id_group1 identifier then id_pgn_bits identifier AND push_bit 8 0xFF
      else id_pgn_bits identifier)"

definition frame_decode ::
  "('p \<Rightarrow> bytes \<Rightarrow> 'p outcome) \<Rightarrow> 'p frame \<Rightarrow> u32 \<Rightarrow> bytes \<Rightarrow> 'p frame outcome" where
  "frame_decode decodeData f identifier buffer =
     (let f1 = (if id_group1 identifier
                then f\<lparr>mDstAddr := ucast (id_pgn_bits identifier AND 0xFF)\<rparr> else f)
      in if id_pgn identifier \<noteq> mPgn f1
         then Inl (J1939DecodeException ''[J1939Frame::decode] Pgn does not match'', f1)
         else
           let f2 = f1\<lparr>mSrcAddr := ucast (identifier AND 0xFF),
                       mPriority := ucast (drop_bit 26 identifier AND 7)\<rparr>
           in out_map (\<lambda>b. f2\<lparr>mBody := b\<rparr>) (decodeData (mBody f2) buffer))"

definition wire_pgn :: "'p frame \<Rightarrow> u32" where
  "wire_pgn f =
     (if getPDUFormatGroup (mPgn f) = PDU_FORMAT_1
      then mPgn f OR (ucast (mDstAddr f) AND 0xFF) else mPgn f)"

definition frame_encode ::
  "('p \<Rightarrow> nat) \<Rightarrow> ('p \<Rightarrow> bytes \<Rightarrow> bytes res) \<Rightarrow> 'p frame \<Rightarrow> nat \<Rightarrow> (u32 \<times> bytes \<times> nat) res" where
  "frame_encode getDataLength encodeData f len =
     (let prio = mPriority f AND 7
      in if prio \<noteq> mPriority f
         then Inl (J1939EncodeException ''[J1939Frame::encode] Priority exceeded its range'')
         else if len < getDataLength (mBody f)
         then Inl (J1939EncodeException ''[J1939Frame::encode] Length smaller than expected'')
         else
           let identifier = ucast (mSrcAddr f) OR push_bit 8 (wire_pgn f AND 0x3FFFF)
                            OR push_bit 26 (ucast prio)
           in res_bind (encodeData (mBody f) (replicate len 0xFF))
                (\<lambda>buffer. Inr (identifier, buffer, getDataLength (mBody f))))"

definition getIdentifier :: "'p frame \<Rightarrow> u32" where
  "getIdentifier f =
     ucast (mSrcAddr f) OR push_bit 8 (wire_pgn f AND 0x3FFFF) OR push_bit 26 (ucast (mPriority f))"

text \<open>\<open>copy\<close> encodes the other frame and decodes the result into this one.\<close>

definition frame_copy ::
  "('p \<Rightarrow> nat) \<Rightarrow> ('p \<Rightarrow> bytes \<Rightarrow> bytes res) \<Rightarrow> ('p \<Rightarrow> bytes \<Rightarrow> 'p outcome)
   \<Rightarrow> 'p frame \<Rightarrow> 'p frame \<Rightarrow> 'p frame outcome" where
  "frame_copy getDataLength encodeData decodeData this other =
     (case frame_encode getDataLength encodeData other (getDataLength (mBody other)) of
        Inl e \<Rightarrow> Inl (e, this)
      | Inr (identifier, buffer, len) \<Rightarrow>
          frame_decode decodeData this identifier (take len buffer))"

section \<open>Well-formed headers\<close>

text \<open>
  \<open>pgn_valid\<close> is what the constructor asserts plus the range of a PGN (18 bits);
  \<open>pgn_decodable\<close> adds what \<open>decode\<close> needs: it masks the PGN of a first-group frame with
  \<open>0xFF00\<close>, so that a data page bit there can never match.
\<close>

definition pgn_valid :: "u32 \<Rightarrow> bool" where
  "pgn_valid pgn \<longleftrightarrow> pgn < 2 ^ 18 \<and> (getPDUFormatGroup pgn = PDU_FORMAT_1 \<longrightarrow> pgn AND 0xFF = 0)"

definition pgn_decodable :: "u32 \<Rightarrow> bool" where
  "pgn_decodable pgn \<longleftrightarrow>
     pgn < 2 ^ 18 \<and> (getPDUFormatGroup pgn = PDU_FORMAT_1 \<longrightarrow> pgn AND push_bit 8 0xFF = pgn)"

definition hdr_ok :: "'p frame \<Rightarrow> bool" where
  "hdr_ok f \<longleftrightarrow> mPriority f AND 7 = mPriority f \<and> pgn_decodable (mPgn f)"

lemma prio_bit: "mPriority f AND 7 = mPriority f \<Longrightarrow> bit (mPriority f) n \<Longrightarrow> n < 3"
  by (metis and.commute bit_and_iff bit_mask_iff mask_eqs_low(2))

lemma wire_pgn_bits:
  "bit (wire_pgn f) n \<longleftrightarrow>
     bit (mPgn f) n \<or> getPDUFormatGroup (mPgn f) = PDU_FORMAT_1 \<and> bit (mDstAddr f) n"
  by (auto simp: wire_pgn_def bit_simps mask_eqs dest: word_bit_width)

lemma getIdentifier_bits:
  "bit (getIdentifier f) n \<longleftrightarrow>
     n < 32 \<and> (bit (mSrcAddr f) n
       \<or> 8 \<le> n \<and> n < 26 \<and> bit (wire_pgn f) (n - 8) \<or> 26 \<le> n \<and> bit (mPriority f) (n - 26))"
  by (auto simp: getIdentifier_def bit_simps bit_arith mask_eqs dest: word_bit_width)

lemma getIdentifier_pgn_bits: "id_pgn_bits (getIdentifier f) = wire_pgn f AND 0x3FFFF"
  by (rule bit_word_eqI)
     (auto simp: id_pgn_bits_def bit_simps mask_eqs getIdentifier_bits dest: word_bit_width)

lemma getIdentifier_src: "ucast (getIdentifier f AND 0xFF) = mSrcAddr f"
  by (rule bit_word_eqI) (auto simp: bit_simps mask_eqs getIdentifier_bits)

lemma getIdentifier_prio:
  assumes "mPriority f AND 7 = mPriority f"
  shows "ucast (drop_bit 26 (getIdentifier f) AND 7) = mPriority f"
  by (rule bit_word_eqI)
     (auto simp: bit_simps mask_eqs getIdentifier_bits bit_arith split: if_splits
        dest: word_bit_width prio_bit [OF assms])

lemma wire_pgn_format:
  assumes "pgn_decodable (mPgn f)"
  shows "drop_bit 8 (wire_pgn f AND 0x3FFFF) AND 0xFF = drop_bit 8 (mPgn f) AND 0xFF"
  by (rule bit_word_eqI)
     (auto simp: bit_simps mask_eqs wire_pgn_bits dest: word_bit_width)

lemma group1_iff:
  "getPDUFormatGroup pgn = PDU_FORMAT_1 \<longleftrightarrow> (drop_bit 8 pgn AND 0xFF) < (0xF0 :: u32)"
proof -
  have "drop_bit 8 pgn AND 0xFF = ucast (getPDUFormat pgn)"
    by (rule bit_word_eqI) (auto simp: getPDUFormat_def bit_simps mask_eqs)
  moreover have "unat (getPDUFormat pgn) < 2 ^ LENGTH(8)" by (rule unsigned_less)
  ultimately have "unat (drop_bit 8 pgn AND 0xFF) = unat (getPDUFormat pgn)"
    by (simp add: unsigned_ucast_eq take_bit_nat_eq_self)
  then show ?thesis
    by (simp add: getPDUFormatGroup_def word_less_nat_alt)
qed

text \<open>
  The frame that decoding \<open>f\<close>'s identifier and a body \<open>b\<close> makes of \<open>f0\<close>: source and
  priority always, the destination only for a PGN of the first group.
\<close>

definition received :: "'p frame \<Rightarrow> 'q frame \<Rightarrow> 'p \<Rightarrow> 'p frame" where
  "received f0 f b =
     f0\<lparr>mPriority := mPriority f, mSrcAddr := mSrcAddr f,
        mDstAddr := (if getPDUFormatGroup (mPgn f) = PDU_FORMAT_1 then mDstAddr f
                     else mDstAddr f0),
        mBody := b\<rparr>"

lemma received_simps [simp]:
  "mPriority (received f0 f b) = mPriority f"
  "mSrcAddr (received f0 f b) = mSrcAddr f"
  "mPgn (received f0 f b) = mPgn f0"
  "mName (received f0 f b) = mName f0"
  "mBody (received f0 f b) = b"
  by (simp_all add: received_def)

lemma getIdentifier_group1:
  assumes "pgn_decodable (mPgn f)"
  shows "id_group1 (getIdentifier f) \<longleftrightarrow> getPDUFormatGroup (mPgn f) = PDU_FORMAT_1"
  by (simp only: id_group1_def getIdentifier_pgn_bits wire_pgn_format [OF assms] group1_iff)

text \<open>A decodable PGN of the first group has bits 8 to 15 only.\<close>

lemma group1_pgn_bit:
  assumes "pgn_decodable pgn" and "getPDUFormatGroup pgn = PDU_FORMAT_1" and "bit pgn n"
  shows "8 \<le> n \<and> n < 16"
proof -
  have "pgn AND push_bit 8 (mask 8) = pgn"
    using assms(1,2) by (simp only: pgn_decodable_def mask_eqs [symmetric])
  with assms(3) have "bit (pgn AND push_bit 8 (mask 8)) n" by simp
  then show ?thesis by (auto simp: bit_simps bit_arith)
qed

lemma getIdentifier_dst:
  assumes "pgn_decodable (mPgn f)" and "getPDUFormatGroup (mPgn f) = PDU_FORMAT_1"
  shows "ucast (id_pgn_bits (getIdentifier f) AND 0xFF) = mDstAddr f"
  by (rule bit_word_eqI)
     (use group1_pgn_bit [OF assms] assms(2) in
       \<open>force simp: getIdentifier_pgn_bits bit_simps mask_eqs wire_pgn_bits\<close>)

lemma getIdentifier_pgn:
  assumes "pgn_decodable (mPgn f)"
  shows "id_pgn (getIdentifier f) = mPgn f"
proof (cases "getPDUFormatGroup (mPgn f) = PDU_FORMAT_1")
  case True
  have "(wire_pgn f AND mask 18) AND push_bit 8 (mask 8) = mPgn f"
    by (rule bit_word_eqI)
       (auto simp: bit_simps wire_pgn_bits bit_arith
          dest: word_bit_width group1_pgn_bit [OF assms True])
  with True show ?thesis
    by (simp only: id_pgn_def getIdentifier_group1 [OF assms] getIdentifier_pgn_bits mask_eqs
        if_True simp_thms)
next
  case False
  have "mPgn f < 2 ^ 18" using assms by (simp add: pgn_decodable_def)
  then have "mPgn f AND mask 18 = mPgn f" by (rule less_mask_eq)
  with False show ?thesis
    by (simp only: id_pgn_def getIdentifier_group1 [OF assms] getIdentifier_pgn_bits mask_eqs
        wire_pgn_def if_False simp_thms)
qed

lemma frame_decode_identifier:
  assumes "hdr_ok f" and "mPgn f0 = mPgn f"
  shows "frame_decode dec f0 (getIdentifier f) buf =
           out_map (received f0 f) (dec (mBody f0) buf)"
proof -
  have d: "pgn_decodable (mPgn f)" and p: "mPriority f AND 7 = mPriority f"
    using assms(1) by (simp_all add: hdr_ok_def)
  have "received f0 f =
      (\<lambda>b. (if getPDUFormatGroup (mPgn f) = PDU_FORMAT_1
            then f0\<lparr>mDstAddr := mDstAddr f\<rparr> else f0)
           \<lparr>mSrcAddr := mSrcAddr f, mPriority := mPriority f, mBody := b\<rparr>)"
    by (auto simp: received_def fun_eq_iff)
  with getIdentifier_dst [OF d] assms(2) show ?thesis
    by (cases "getPDUFormatGroup (mPgn f) = PDU_FORMAT_1")
       (simp_all add: frame_decode_def Let_def getIdentifier_pgn [OF d] getIdentifier_src
          getIdentifier_group1 [OF d] getIdentifier_prio [OF p])
qed

lemma frame_encode_Inr:
  "frame_encode len enc f n = Inr (ident, buf, m) \<longleftrightarrow>
     mPriority f AND 7 = mPriority f \<and> len (mBody f) \<le> n \<and> ident = getIdentifier f
     \<and> m = len (mBody f) \<and> enc (mBody f) (replicate n 0xFF) = Inr buf"
  by (auto simp: frame_encode_def getIdentifier_def Let_def res_bind_Inr_iff)

section \<open>The contract of a derived class\<close>

text \<open>
  \<open>valid p\<close> says the derived class can encode \<open>p\<close>, \<open>takes p0 p\<close> that an object holding
  \<open>p0\<close> (the prototype in the factory, say) is of the right make to decode what \<open>p\<close> encodes to.
\<close>

locale frame_codec =
  fixes getDataLength :: "'p \<Rightarrow> nat"
    and encodeData :: "'p \<Rightarrow> bytes \<Rightarrow> bytes res"
    and decodeData :: "'p \<Rightarrow> bytes \<Rightarrow> 'p outcome"
    and valid :: "'p \<Rightarrow> bool"
    and takes :: "'p \<Rightarrow> 'p \<Rightarrow> bool"
  assumes encode_ok: "valid p \<Longrightarrow>
      \<exists>bs. encodeData p (replicate (getDataLength p) 0xFF) = Inr bs
           \<and> length bs = getDataLength p"
    and decode_ok: "valid p \<Longrightarrow> takes p0 p \<Longrightarrow>
      encodeData p (replicate (getDataLength p) 0xFF) = Inr bs \<Longrightarrow> decodeData p0 bs = Inr p"
begin

lemma frame_encode_ok:
  assumes "hdr_ok f" and "valid (mBody f)"
  shows "\<exists>bs. frame_encode getDataLength encodeData f (getDataLength (mBody f))
               = Inr (getIdentifier f, bs, getDataLength (mBody f))
             \<and> length bs = getDataLength (mBody f)"
  using encode_ok [OF assms(2)] assms(1) by (auto simp: frame_encode_Inr hdr_ok_def)

lemma frame_roundtrip:
  assumes "hdr_ok f" and "valid (mBody f)" and "takes (mBody f0) (mBody f)"
    and "mPgn f0 = mPgn f"
    and "frame_encode getDataLength encodeData f (getDataLength (mBody f)) = Inr (ident, bs, n)"
  shows "frame_decode decodeData f0 ident (take n bs) = Inr (received f0 f (mBody f))"
proof -
  from assms(5) have ident: "ident = getIdentifier f"
    and n: "n = getDataLength (mBody f)"
    and enc: "encodeData (mBody f) (replicate (getDataLength (mBody f)) 0xFF) = Inr bs"
    by (simp_all add: frame_encode_Inr)
  from encode_ok [OF assms(2)] enc have "take n bs = bs" by (simp add: n)
  moreover from assms(2,3) enc have "decodeData (mBody f0) bs = Inr (mBody f)"
    by (rule decode_ok)
  ultimately show ?thesis
    by (simp add: ident frame_decode_identifier [OF assms(1,4)])
qed

lemma frame_copy_ok:
  assumes "hdr_ok other" and "valid (mBody other)" and "takes (mBody this) (mBody other)"
    and "mPgn this = mPgn other"
  shows "frame_copy getDataLength encodeData decodeData this other
           = Inr (received this other (mBody other))"
proof -
  from frame_encode_ok [OF assms(1,2)] obtain bs where
    enc: "frame_encode getDataLength encodeData other (getDataLength (mBody other))
            = Inr (getIdentifier other, bs, getDataLength (mBody other))"
    by blast
  from frame_roundtrip [OF assms enc] show ?thesis
    by (simp add: frame_copy_def enc)
qed

end

section \<open>Properties\<close>

lemma getIdentifier_less:
  assumes "mPriority f AND 7 = mPriority f"
  shows "getIdentifier f < 2 ^ 29"
proof -
  have "getIdentifier f AND mask 29 = getIdentifier f"
    by (rule bit_word_eqI)
       (auto simp: bit_simps getIdentifier_bits dest: word_bit_width prio_bit [OF assms])
  then show ?thesis using and_mask_less' [of 29 "getIdentifier f"] by simp
qed

text \<open>The identifier of a frame with a valid header is a 29-bit identifier, and decoding it into
  a frame of the same PGN restores priority, source address and (for a PGN of the first group)
  destination, then hands the data to the derived class.\<close>

theorem identifier_roundtrip:
  assumes "hdr_ok f" and "mPgn f0 = mPgn f"
  shows "frame_decode dec f0 (getIdentifier f) buf = out_map (received f0 f) (dec (mBody f0) buf)
    \<and> getIdentifier f < 2 ^ 29"
  using frame_decode_identifier [OF assms] getIdentifier_less [of f] assms(1)
  by (simp add: hdr_ok_def)

definition sample_frame :: "u32 \<Rightarrow> unit frame" where
  "sample_frame pgn = \<lparr>mPriority = 6, mSrcAddr = 0x21, mPgn = pgn, mDstAddr = 0x55,
     mName = ''sample'', mBody = ()\<rparr>"

theorem identifier_roundtrip_witness:
  "frame_decode (\<lambda>b buf. Inr b) (sample_frame 0xEA00) (getIdentifier (sample_frame 0xEA00)) [1]
     = out_map (received (sample_frame 0xEA00) (sample_frame 0xEA00)) (Inr ())
   \<and> getIdentifier (sample_frame 0xEA00) < 2 ^ 29"
proof -
  have "hdr_ok (sample_frame 0xEA00)"
    by (simp add: hdr_ok_def sample_frame_def pgn_decodable_def push_bit_eq_mult)
  from identifier_roundtrip [OF this refl, of "\<lambda>b buf. Inr b" "[1]"] show ?thesis by simp
qed

lemma id_pgn_group1_low:
  "id_group1 ident \<Longrightarrow> bit (id_pgn ident) n \<Longrightarrow> n < 16"
proof -
  assume "id_group1 ident" and b: "bit (id_pgn ident) n"
  then have "id_pgn ident = id_pgn_bits ident AND push_bit 8 (mask 8)"
    by (simp only: id_pgn_def if_True mask_eqs)
  with b show "n < 16" by (auto simp: bit_simps)
qed

text \<open>A PGN of the first group with a data page bit set is lost: the constructor accepts it, but no
  identifier at all decodes into such a frame, because \<open>decode\<close> clears the page bits.\<close>

theorem data_page_never_decodes:
  assumes "getPDUFormatGroup (mPgn f) = PDU_FORMAT_1" and "bit (mPgn f) 16 \<or> bit (mPgn f) 17"
  shows "\<exists>f1. frame_decode dec f ident buf
    = Inl (J1939DecodeException ''[J1939Frame::decode] Pgn does not match'', f1)"
proof -
  have "id_pgn ident \<noteq> mPgn f"
  proof (cases "id_group1 ident")
    case True
    then show ?thesis using assms(2) id_pgn_group1_low [of ident 16] id_pgn_group1_low [of ident 17] by auto
  next
    case False
    then have "\<not> (drop_bit 8 (id_pgn ident) AND 0xFF) < 0xF0"
      by (simp add: id_pgn_def id_group1_def)
    then show ?thesis using assms(1) by (auto simp: group1_iff)
  qed
  then show ?thesis by (simp add: frame_decode_def Let_def)
qed

theorem data_page_never_decodes_witness:
  "\<exists>f1. frame_decode (\<lambda>b buf. Inr b) (sample_frame 0x1EA00) (getIdentifier (sample_frame 0x1EA00)) []
    = Inl (J1939DecodeException ''[J1939Frame::decode] Pgn does not match'', f1)"
proof -
  have "getPDUFormatGroup (mPgn (sample_frame 0x1EA00)) = PDU_FORMAT_1"
    by (simp add: sample_frame_def getPDUFormatGroup_def getPDUFormat_def)
  moreover have "bit (mPgn (sample_frame 0x1EA00)) 16 \<or> bit (mPgn (sample_frame 0x1EA00)) 17"
    by (simp add: sample_frame_def)
  ultimately show ?thesis by (rule data_page_never_decodes)
qed

end
