(* ===== verification/TransportFrames.thy ===== *)
theory TransportFrames
  imports J1939Frame
begin

text \<open>
  The two frames of the transport protocol: \<open>TPCMFrame\<close> (connection management,
  \<open>J1939/Transport/TPCMFrame.cpp\<close>) and \<open>TPDTFrame\<close> (data transfer,
  \<open>J1939/Transport/TPDTFrame.cpp\<close>), with the codec contract of \<open>frame_codec\<close> for both.
\<close>

section \<open>TPCMFrame\<close>

record tpcm =
  mCtrlType :: u8
  mTotalMsgSize :: u16
  mTotalPackets :: u8
  mMaxPackets :: u8
  mPacketsToTx :: u8
  mNextPacket :: u8
  mAbortReason :: u8
  mDataPgn :: u32

abbreviation (input) TP_CM_PGN :: u32 where "TP_CM_PGN \<equiv> 0x00EC00"
abbreviation (input) TP_CM_SIZE :: nat where "TP_CM_SIZE \<equiv> 8"
abbreviation (input) CTRL_TPCM_RTS :: u8 where "CTRL_TPCM_RTS \<equiv> 16"
abbreviation (input) CTRL_TPCM_CTS :: u8 where "CTRL_TPCM_CTS \<equiv> 17"
abbreviation (input) CTRL_TPCM_ACK :: u8 where "CTRL_TPCM_ACK \<equiv> 19"
abbreviation (input) CTRL_TPCM_BAM :: u8 where "CTRL_TPCM_BAM \<equiv> 32"
abbreviation (input) CTRL_TPCM_ABORT :: u8 where "CTRL_TPCM_ABORT \<equiv> 255"

definition tpcm_init :: tpcm where
  "tpcm_init = \<lparr>mCtrlType = 0, mTotalMsgSize = 0, mTotalPackets = 0, mMaxPackets = 0,
     mPacketsToTx = 0, mNextPacket = 0, mAbortReason = 0, mDataPgn = 0\<rparr>"

definition TPCMFrame :: "tpcm frame" where
  "TPCMFrame = \<lparr>mPriority = 0, mSrcAddr = 0xFE, mPgn = TP_CM_PGN, mDstAddr = 0xFE,
     mName = ''Transport Connection Management'', mBody = tpcm_init\<rparr>"

lemma TPCMFrame_ctor:
  "frame_ctor TP_CM_PGN tpcm_init = Inr (TPCMFrame\<lparr>mName := ''Unknown''\<rparr>)"
  by (simp add: frame_ctor_def TPCMFrame_def)

definition tpcm_clear :: "tpcm frame \<Rightarrow> tpcm frame" where
  "tpcm_clear f =
     (let f1 = f\<lparr>mBody := tpcm_init\<rparr>; f2 = snd (setPriority 0 f1)
      in snd (setDstAddr 0xFF (setSrcAddr 0 f2)))"

definition decodeRTS :: "tpcm \<Rightarrow> bytes \<Rightarrow> tpcm" where
  "decodeRTS m buffer =
     m\<lparr>mTotalMsgSize := ucast (buffer ! 0) OR push_bit 8 (ucast (buffer ! 1)),
       mTotalPackets := buffer ! 2, mMaxPackets := buffer ! 3\<rparr>"

definition decodeCTS :: "tpcm \<Rightarrow> bytes \<Rightarrow> tpcm" where
  "decodeCTS m buffer = m\<lparr>mPacketsToTx := buffer ! 0, mNextPacket := buffer ! 1\<rparr>"

definition decodeEndOfMsgACK :: "tpcm \<Rightarrow> bytes \<Rightarrow> tpcm" where
  "decodeEndOfMsgACK m buffer =
     m\<lparr>mTotalMsgSize := ucast (buffer ! 0) OR push_bit 8 (ucast (buffer ! 1)),
       mTotalPackets := buffer ! 2\<rparr>"

definition decodeConnAbort :: "tpcm \<Rightarrow> bytes \<Rightarrow> tpcm" where
  "decodeConnAbort m buffer = m\<lparr>mAbortReason := buffer ! 0\<rparr>"

definition decodeBAM :: "tpcm \<Rightarrow> bytes \<Rightarrow> tpcm" where
  "decodeBAM m buffer =
     m\<lparr>mTotalMsgSize := ucast (buffer ! 0) OR push_bit 8 (ucast (buffer ! 1)),
       mTotalPackets := buffer ! 2\<rparr>"

definition tpcm_decodeData :: "tpcm \<Rightarrow> bytes \<Rightarrow> tpcm outcome" where
  "tpcm_decodeData m buffer =
     (if length buffer \<noteq> TP_CM_SIZE
      then Inl (J1939DecodeException ''[TPCMFrame::decodeData] Buffer length does not match'', m)
      else
        let m1 = m\<lparr>mCtrlType := buffer ! 0\<rparr>;
            rest = drop 1 buffer;
            finish = (\<lambda>m2. Inr (m2\<lparr>mDataPgn :=
              ucast (buffer ! 5) OR push_bit 8 (ucast (buffer ! 6))
              OR push_bit 16 (ucast (buffer ! 7))\<rparr>))
        in if mCtrlType m1 = CTRL_TPCM_RTS then finish (decodeRTS m1 rest)
           else if mCtrlType m1 = CTRL_TPCM_CTS then finish (decodeCTS m1 rest)
           else if mCtrlType m1 = CTRL_TPCM_ACK then finish (decodeEndOfMsgACK m1 rest)
           else if mCtrlType m1 = CTRL_TPCM_ABORT then finish (decodeConnAbort m1 rest)
           else if mCtrlType m1 = CTRL_TPCM_BAM then finish (decodeBAM m1 rest)
           else Inl (J1939DecodeException ''[TPCMFrame::decodeData] Unknown Ctrl type'', m1))"

text \<open>The encoders of the variable part, as the bytes stored from \<open>buffer + 1\<close> on.\<close>

definition encodeRTS :: "tpcm \<Rightarrow> bytes" where
  "encodeRTS m = [ucast (mTotalMsgSize m AND 0xFF), ucast (drop_bit 8 (mTotalMsgSize m) AND 0xFF),
                  mTotalPackets m, mMaxPackets m]"

definition encodeCTS :: "tpcm \<Rightarrow> bytes" where
  "encodeCTS m = [mPacketsToTx m, mNextPacket m]"

definition encodeEndOfMsgACK :: "tpcm \<Rightarrow> bytes" where
  "encodeEndOfMsgACK m =
     [ucast (mTotalMsgSize m AND 0xFF), ucast (drop_bit 8 (mTotalMsgSize m) AND 0xFF),
      mTotalPackets m]"

definition encodeConnAbort :: "tpcm \<Rightarrow> bytes" where
  "encodeConnAbort m = [mAbortReason m]"

definition encodeBAM :: "tpcm \<Rightarrow> bytes" where
  "encodeBAM m =
     [ucast (mTotalMsgSize m AND 0xFF), ucast (drop_bit 8 (mTotalMsgSize m) AND 0xFF),
      mTotalPackets m]"

text \<open>
  The source throws its \<open>J1939DecodeException\<close> here, not the encode one, for a control byte
  it does not know.
\<close>

definition tpcm_encodeData :: "tpcm \<Rightarrow> bytes \<Rightarrow> bytes res" where
  "tpcm_encodeData m buffer =
     res_bind (poke 0 (replicate TP_CM_SIZE 0xFF) buffer) (\<lambda>b0.
     res_bind (poke 0 [mCtrlType m] b0) (\<lambda>b1.
     res_bind
       (if mCtrlType m = CTRL_TPCM_RTS then poke 1 (encodeRTS m) b1
        else if mCtrlType m = CTRL_TPCM_CTS then poke 1 (encodeCTS m) b1
        else if mCtrlType m = CTRL_TPCM_ACK then poke 1 (encodeEndOfMsgACK m) b1
        else if mCtrlType m = CTRL_TPCM_ABORT then poke 1 (encodeConnAbort m) b1
        else if mCtrlType m = CTRL_TPCM_BAM then poke 1 (encodeBAM m) b1
        else Inl (J1939DecodeException ''[TPCMFrame::encodeData] Unknown Ctrl Type''))
       (poke 5 [ucast (mDataPgn m AND 0xFF), ucast (drop_bit 8 (mDataPgn m) AND 0xFF),
                ucast (drop_bit 16 (mDataPgn m) AND 0xFF)])))"

definition tpcm_getDataLength :: "tpcm \<Rightarrow> nat" where
  "tpcm_getDataLength m = TP_CM_SIZE"

subsection \<open>Codec\<close>

definition tpcm_valid :: "tpcm \<Rightarrow> bool" where
  "tpcm_valid m \<longleftrightarrow>
     mCtrlType m \<in> {CTRL_TPCM_RTS, CTRL_TPCM_CTS, CTRL_TPCM_ACK, CTRL_TPCM_ABORT, CTRL_TPCM_BAM}
     \<and> mDataPgn m < 2 ^ 24"

text \<open>
  \<open>tpcm_takes m0 m\<close>: the fields that \<open>m\<close>'s control type does not transmit agree already.
\<close>

definition tpcm_takes :: "tpcm \<Rightarrow> tpcm \<Rightarrow> bool" where
  "tpcm_takes m0 m \<longleftrightarrow>
     (mCtrlType m \<in> {CTRL_TPCM_CTS, CTRL_TPCM_ABORT} \<longrightarrow>
        mTotalMsgSize m0 = mTotalMsgSize m \<and> mTotalPackets m0 = mTotalPackets m)
     \<and> (mCtrlType m \<noteq> CTRL_TPCM_RTS \<longrightarrow> mMaxPackets m0 = mMaxPackets m)
     \<and> (mCtrlType m \<noteq> CTRL_TPCM_CTS \<longrightarrow>
          mPacketsToTx m0 = mPacketsToTx m \<and> mNextPacket m0 = mNextPacket m)
     \<and> (mCtrlType m \<noteq> CTRL_TPCM_ABORT \<longrightarrow> mAbortReason m0 = mAbortReason m)"

lemmas tpcm_encode_defs =
  encodeRTS_def encodeCTS_def encodeEndOfMsgACK_def encodeConnAbort_def encodeBAM_def

lemmas tpcm_decode_defs =
  decodeRTS_def decodeCTS_def decodeEndOfMsgACK_def decodeConnAbort_def decodeBAM_def

lemma tpcm_size_bytes:
  "ucast (ucast (w AND 255) :: u8) OR push_bit 8 (ucast (ucast (drop_bit 8 w AND 255) :: u8))
     = (w :: u16)"
  using le16_bytes [of w] by (simp add: le16_def ucast_byte_mask)

lemma tpcm_pgn_bytes:
  assumes "(w :: u32) < 2 ^ 24"
  shows "ucast (ucast (w AND 255) :: u8) OR push_bit 8 (ucast (ucast (drop_bit 8 w AND 255) :: u8))
     OR push_bit 16 (ucast (ucast (drop_bit 16 w AND 255) :: u8)) = w"
  using le24_bytes [OF assms] by (simp add: le24_def ucast_byte_mask)

lemma tpcm_encodeData_eq:
  assumes "length buf = 8" and "tpcm_valid m"
  shows "tpcm_encodeData m buf = Inr (mCtrlType m #
     (if mCtrlType m = CTRL_TPCM_RTS then encodeRTS m
      else if mCtrlType m = CTRL_TPCM_CTS then encodeCTS m @ [0xFF, 0xFF]
      else if mCtrlType m = CTRL_TPCM_ACK then encodeEndOfMsgACK m @ [0xFF]
      else if mCtrlType m = CTRL_TPCM_ABORT then encodeConnAbort m @ [0xFF, 0xFF, 0xFF]
      else encodeBAM m @ [0xFF]) @
     [ucast (mDataPgn m AND 0xFF), ucast (drop_bit 8 (mDataPgn m) AND 0xFF),
      ucast (drop_bit 16 (mDataPgn m) AND 0xFF)])"
  using assms
  by (auto simp: tpcm_encodeData_def poke_def tpcm_encode_defs tpcm_valid_def eval_nat_numeral)

interpretation tpcm_codec: frame_codec tpcm_getDataLength tpcm_encodeData tpcm_decodeData
  tpcm_valid tpcm_takes
proof unfold_locales
  fix p assume "tpcm_valid p"
  then show "\<exists>bs. tpcm_encodeData p (replicate (tpcm_getDataLength p) 0xFF) = Inr bs
      \<and> length bs = tpcm_getDataLength p"
    by (simp add: tpcm_encodeData_eq tpcm_getDataLength_def tpcm_encode_defs)
next
  fix p p0 bs
  assume v: "tpcm_valid p" and t: "tpcm_takes p0 p"
    and e: "tpcm_encodeData p (replicate (tpcm_getDataLength p) 0xFF) = Inr bs"
  have pgn: "mDataPgn p < 2 ^ 24" using v by (simp add: tpcm_valid_def)
  have "mCtrlType p \<in> {16, 17, 19, 255, 32}" using v by (simp add: tpcm_valid_def)
  then consider "mCtrlType p = 16" | "mCtrlType p = 17" | "mCtrlType p = 19"
    | "mCtrlType p = 255" | "mCtrlType p = 32"
    by auto
  moreover note bs = e [unfolded tpcm_getDataLength_def
      tpcm_encodeData_eq [OF length_replicate v] sum.inject, symmetric]
  ultimately show "tpcm_decodeData p0 bs = Inr p"
    by cases
       (insert bs t pgn, cases p0, cases p,
        simp add: tpcm_encode_defs tpcm_decode_defs tpcm_decodeData_def tpcm_takes_def
          tpcm_size_bytes tpcm_pgn_bytes)+
qed

section \<open>TPDTFrame\<close>

record tpdt =
  mSQ :: u8
  mData :: bytes

abbreviation (input) TP_DT_PGN :: u32 where "TP_DT_PGN \<equiv> 0x00EB00"
abbreviation (input) TP_DT_PACKET_SIZE :: nat where "TP_DT_PACKET_SIZE \<equiv> 7"
abbreviation (input) BAM_DT_SIZE :: nat where "BAM_DT_SIZE \<equiv> 8"

definition tpdt_init :: tpdt where
  "tpdt_init = \<lparr>mSQ = 0, mData = replicate TP_DT_PACKET_SIZE 0xFF\<rparr>"

definition TPDTFrame :: "tpdt frame" where
  "TPDTFrame = \<lparr>mPriority = 0, mSrcAddr = 0xFE, mPgn = TP_DT_PGN, mDstAddr = 0xFE,
     mName = ''Transport Data'', mBody = tpdt_init\<rparr>"

text \<open>\<open>TPDTFrame(sq, data, length)\<close>, where \<open>data\<close> is the run of \<open>length\<close> bytes passed.\<close>

definition TPDTFrame_of :: "u8 \<Rightarrow> bytes \<Rightarrow> tpdt frame" where
  "TPDTFrame_of sq data =
     TPDTFrame\<lparr>mBody := \<lparr>mSQ = sq,
       mData = take TP_DT_PACKET_SIZE data
               @ drop (length (take TP_DT_PACKET_SIZE data)) (mData tpdt_init)\<rparr>\<rparr>"

definition tpdt_decodeData :: "tpdt \<Rightarrow> bytes \<Rightarrow> tpdt outcome" where
  "tpdt_decodeData m buffer =
     (if length buffer \<noteq> BAM_DT_SIZE
      then Inl (J1939DecodeException ''[TPDTFrame::decodeData] Buffer length does not match'', m)
      else Inr (m\<lparr>mSQ := buffer ! 0, mData := take TP_DT_PACKET_SIZE (drop 1 buffer)\<rparr>))"

definition tpdt_encodeData :: "tpdt \<Rightarrow> bytes \<Rightarrow> bytes res" where
  "tpdt_encodeData m buffer = poke 0 (mSQ m # mData m) buffer"

definition tpdt_getDataLength :: "tpdt \<Rightarrow> nat" where
  "tpdt_getDataLength m = BAM_DT_SIZE"

definition tpdt_valid :: "tpdt \<Rightarrow> bool" where
  "tpdt_valid m \<longleftrightarrow> length (mData m) = TP_DT_PACKET_SIZE"

lemma tpdt_valid_of [simp]: "tpdt_valid (mBody (TPDTFrame_of sq data))"
  by (simp add: tpdt_valid_def TPDTFrame_of_def tpdt_init_def min_def)

interpretation tpdt_codec: frame_codec tpdt_getDataLength tpdt_encodeData tpdt_decodeData
  tpdt_valid "\<lambda>m0 m. True"
  by unfold_locales
     (auto simp: tpdt_encodeData_def tpdt_decodeData_def tpdt_getDataLength_def tpdt_valid_def
        poke_def)

end
