(* ===== verification/AddressClaim.thy ===== *)
theory AddressClaim
  imports J1939Frame
begin

text \<open>
  \<open>EcuName\<close> (the 64-bit NAME of a controller) and \<open>AddressClaimFrame\<close>:
  \<open>J1939/include/Addressing/AddressClaimFrame.h\<close>,
  \<open>J1939/Addressing/AddressClaimFrame.cpp\<close>. \<open>getValue\<close> and the frame's codec place the same
  fields independently; \<open>ecu_value_of_bytes\<close> shows that they agree, so that comparing NAMEs is
  comparing what travels on the bus.
\<close>

record EcuName =
  mIdNumber :: u32
  mManufacturerCode :: u16
  mEcuInstance :: u8
  mFunctionInstance :: u8
  mFunction :: u8
  mVehicleSystem :: u8
  mVehicleSystemInstance :: u8
  mIndustryGroup :: u8
  mArbitraryAddressCapable :: bool

definition EcuName_init :: EcuName where
  "EcuName_init = \<lparr>mIdNumber = 0, mManufacturerCode = 0, mEcuInstance = 0, mFunctionInstance = 0,
     mFunction = 0, mVehicleSystem = 0, mVehicleSystemInstance = 0, mIndustryGroup = 0,
     mArbitraryAddressCapable = False\<rparr>"

definition ecu_getValue :: "EcuName \<Rightarrow> u64" where
  "ecu_getValue n =
     push_bit 63 (if mArbitraryAddressCapable n then 1 else 0)
     OR push_bit 60 (ucast (mIndustryGroup n) AND 0x7)
     OR push_bit 56 (ucast (mVehicleSystemInstance n) AND 0xF)
     OR push_bit 49 (ucast (mVehicleSystem n) AND 0x7F)
     OR push_bit 40 (ucast (mFunction n) AND 0xFF)
     OR push_bit 35 (ucast (mFunctionInstance n) AND 0x1F)
     OR push_bit 32 (ucast (mEcuInstance n) AND 0x7)
     OR push_bit 21 (ucast (mManufacturerCode n) AND 0x7FF)
     OR (ucast (mIdNumber n) AND 0x1FFFFF)"

definition ecu_less :: "EcuName \<Rightarrow> EcuName \<Rightarrow> bool" where
  "ecu_less this other \<longleftrightarrow> ecu_getValue this < ecu_getValue other"

definition ecu_greater :: "EcuName \<Rightarrow> EcuName \<Rightarrow> bool" where
  "ecu_greater this other \<longleftrightarrow> ecu_getValue this > ecu_getValue other"

section \<open>AddressClaimFrame\<close>

abbreviation (input) ADDRESS_CLAIM_PGN :: u32 where "ADDRESS_CLAIM_PGN \<equiv> 0x00EE00"
abbreviation (input) ADDRESS_FRAME_LENGTH :: nat where "ADDRESS_FRAME_LENGTH \<equiv> 8"

definition AddressClaimFrame :: "EcuName \<Rightarrow> EcuName frame" where
  "AddressClaimFrame name = \<lparr>mPriority = 0, mSrcAddr = 0xFE, mPgn = ADDRESS_CLAIM_PGN,
     mDstAddr = 0xFE, mName = ''Address Claim'', mBody = name\<rparr>"

definition addrclaim_decodeData :: "EcuName \<Rightarrow> bytes \<Rightarrow> EcuName outcome" where
  "addrclaim_decodeData n buffer =
     (if length buffer \<noteq> ADDRESS_FRAME_LENGTH
      then Inl (J1939DecodeException
                  ''[AdressClaimFrame::decodeData] Buffer length does not match'', n)
      else Inr
        \<lparr>mIdNumber = ucast (buffer ! 0) OR push_bit 8 (ucast (buffer ! 1))
                     OR push_bit 16 (ucast (buffer ! 2 AND 0x1F)),
         mManufacturerCode = drop_bit 5 (ucast (buffer ! 2 AND 0xE0))
                             OR push_bit 3 (ucast (buffer ! 3)),
         mEcuInstance = buffer ! 4 AND 0x07,
         mFunctionInstance = drop_bit 3 (buffer ! 4 AND 0xF8),
         mFunction = buffer ! 5,
         mVehicleSystem = drop_bit 1 (buffer ! 6),
         mVehicleSystemInstance = buffer ! 7 AND 0x0F,
         mIndustryGroup = drop_bit 4 (buffer ! 7) AND 0x07,
         mArbitraryAddressCapable = (drop_bit 7 (buffer ! 7) \<noteq> 0)\<rparr>)"

definition ecu_bytes :: "EcuName \<Rightarrow> bytes" where
  "ecu_bytes n =
     [ucast (mIdNumber n AND 0xFF),
      ucast (drop_bit 8 (mIdNumber n) AND 0xFF),
      ucast (drop_bit 16 (mIdNumber n) AND 0x1F) OR ucast (push_bit 5 (mManufacturerCode n) AND 0xFF),
      ucast (drop_bit 3 (mManufacturerCode n) AND 0xFF),
      (mEcuInstance n AND 0x7) OR (push_bit 3 (mFunctionInstance n) AND 0xFF),
      mFunction n,
      push_bit 1 (mVehicleSystem n),
      (mVehicleSystemInstance n AND 0xF) OR push_bit 4 (mIndustryGroup n AND 0x7)
        OR push_bit 7 (if mArbitraryAddressCapable n then 1 else 0)]"

definition addrclaim_encodeData :: "EcuName \<Rightarrow> bytes \<Rightarrow> bytes res" where
  "addrclaim_encodeData n buffer = poke 0 (ecu_bytes n) buffer"

definition addrclaim_getDataLength :: "EcuName \<Rightarrow> nat" where
  "addrclaim_getDataLength n = ADDRESS_FRAME_LENGTH"

section \<open>What survives the wire\<close>

text \<open>Every field reduced to its width in the NAME.\<close>

definition ecu_trunc :: "EcuName \<Rightarrow> EcuName" where
  "ecu_trunc n = n\<lparr>
     mIdNumber := mIdNumber n AND 0x1FFFFF,
     mManufacturerCode := mManufacturerCode n AND 0x7FF,
     mEcuInstance := mEcuInstance n AND 0x7,
     mFunctionInstance := mFunctionInstance n AND 0x1F,
     mVehicleSystem := mVehicleSystem n AND 0x7F,
     mVehicleSystemInstance := mVehicleSystemInstance n AND 0xF,
     mIndustryGroup := mIndustryGroup n AND 0x7\<rparr>"

definition ecu_valid :: "EcuName \<Rightarrow> bool" where
  "ecu_valid n \<longleftrightarrow>
     mIdNumber n < 2 ^ 21 \<and> mManufacturerCode n < 2 ^ 11 \<and> mEcuInstance n < 2 ^ 3
     \<and> mFunctionInstance n < 2 ^ 5 \<and> mVehicleSystem n < 2 ^ 7
     \<and> mVehicleSystemInstance n < 2 ^ 4 \<and> mIndustryGroup n < 2 ^ 3"

lemma ecu_trunc_valid: "ecu_valid n \<Longrightarrow> ecu_trunc n = n"
  by (cases n)
     (simp add: ecu_valid_def ecu_trunc_def mask_eqs less_mask_eq
        [where n = 21, simplified] less_mask_eq [where n = 11, simplified]
        less_mask_eq [where n = 3, simplified] less_mask_eq [where n = 5, simplified]
        less_mask_eq [where n = 7, simplified] less_mask_eq [where n = 4, simplified])

lemma mask_eqs_high [mask_eqs]:
  "(0xE0 :: u8) = push_bit 5 (mask 3)"
  "(0xF8 :: u8) = push_bit 3 (mask 5)"
  by (simp_all add: mask_eq_exp_minus_1 push_bit_eq_mult)

lemma bit_ifte: "bit (if P then a else b) n \<longleftrightarrow> (if P then bit a n else bit b n)"
  by simp

lemma drop_bit_7_u8: "drop_bit 7 (w :: u8) \<noteq> 0 \<longleftrightarrow> bit w 7"
proof
  assume "drop_bit 7 w \<noteq> 0"
  then obtain n where "bit w (7 + n)" by (auto simp: bit_eq_iff bit_simps)
  then show "bit w 7" using word_bit_width [of w "7 + n"] by simp
next
  assume "bit w 7"
  then have "bit (drop_bit 7 w) 0" by (simp add: bit_simps)
  then show "drop_bit 7 w \<noteq> 0" by auto
qed

lemma bit_flag: "bit (if P then 1 else 0 :: 'a::len word) n \<longleftrightarrow> P \<and> n = 0"
  by (auto simp: bit_1_iff)

lemma ecu_bytes_nth:
  "ecu_bytes n ! 0 = ucast (mIdNumber n AND 0xFF)"
  "ecu_bytes n ! 1 = ucast (drop_bit 8 (mIdNumber n) AND 0xFF)"
  "ecu_bytes n ! 2 = ucast (drop_bit 16 (mIdNumber n) AND 0x1F)
                       OR ucast (push_bit 5 (mManufacturerCode n) AND 0xFF)"
  "ecu_bytes n ! 3 = ucast (drop_bit 3 (mManufacturerCode n) AND 0xFF)"
  "ecu_bytes n ! 4 = (mEcuInstance n AND 0x7) OR (push_bit 3 (mFunctionInstance n) AND 0xFF)"
  "ecu_bytes n ! 5 = mFunction n"
  "ecu_bytes n ! 6 = push_bit 1 (mVehicleSystem n)"
  "ecu_bytes n ! 7 = (mVehicleSystemInstance n AND 0xF) OR push_bit 4 (mIndustryGroup n AND 0x7)
                       OR push_bit 7 (if mArbitraryAddressCapable n then 1 else 0)"
  by (simp_all add: ecu_bytes_def)

lemma ecu_bytes_length [simp]: "length (ecu_bytes n) = 8"
  by (simp add: ecu_bytes_def)

text \<open>The bits of every byte, by field.\<close>

lemma ecu_bytes_bits:
  "bit (ecu_bytes n ! 0) k \<longleftrightarrow> k < 8 \<and> bit (mIdNumber n) k"
  "bit (ecu_bytes n ! 1) k \<longleftrightarrow> k < 8 \<and> bit (mIdNumber n) (8 + k)"
  "bit (ecu_bytes n ! 2) k \<longleftrightarrow> k < 5 \<and> bit (mIdNumber n) (16 + k)
     \<or> 5 \<le> k \<and> k < 8 \<and> bit (mManufacturerCode n) (k - 5)"
  "bit (ecu_bytes n ! 3) k \<longleftrightarrow> k < 8 \<and> bit (mManufacturerCode n) (3 + k)"
  "bit (ecu_bytes n ! 4) k \<longleftrightarrow> k < 3 \<and> bit (mEcuInstance n) k
     \<or> 3 \<le> k \<and> k < 8 \<and> bit (mFunctionInstance n) (k - 3)"
  "bit (ecu_bytes n ! 5) k \<longleftrightarrow> bit (mFunction n) k"
  "bit (ecu_bytes n ! 6) k \<longleftrightarrow> 1 \<le> k \<and> k < 8 \<and> bit (mVehicleSystem n) (k - 1)"
  "bit (ecu_bytes n ! 7) k \<longleftrightarrow> k < 4 \<and> bit (mVehicleSystemInstance n) k
     \<or> 4 \<le> k \<and> k < 7 \<and> bit (mIndustryGroup n) (k - 4)
     \<or> k = 7 \<and> mArbitraryAddressCapable n"
  unfolding ecu_bytes_nth mask_eqs
  by (simp_all only: bit_simps bit_flag) (auto dest: word_bit_width)

lemma ecu_fields:
  "ucast (ecu_bytes n ! 0) OR push_bit 8 (ucast (ecu_bytes n ! 1))
     OR push_bit 16 (ucast (ecu_bytes n ! 2 AND 0x1F)) = mIdNumber n AND 0x1FFFFF"
  "drop_bit 5 (ucast (ecu_bytes n ! 2 AND 0xE0)) OR push_bit 3 (ucast (ecu_bytes n ! 3))
     = mManufacturerCode n AND 0x7FF"
  "ecu_bytes n ! 4 AND 0x07 = mEcuInstance n AND 0x7"
  "drop_bit 3 (ecu_bytes n ! 4 AND 0xF8) = mFunctionInstance n AND 0x1F"
  "drop_bit 1 (ecu_bytes n ! 6) = mVehicleSystem n AND 0x7F"
  "ecu_bytes n ! 7 AND 0x0F = mVehicleSystemInstance n AND 0xF"
  "drop_bit 4 (ecu_bytes n ! 7) AND 0x07 = mIndustryGroup n AND 0x7"
  "drop_bit 7 (ecu_bytes n ! 7) \<noteq> 0 \<longleftrightarrow> mArbitraryAddressCapable n"
  unfolding mask_eqs drop_bit_7_u8
  by ((rule bit_word_eqI)?, simp only: bit_simps ecu_bytes_bits,
      auto simp: bit_arith split: if_splits dest: word_bit_width)+

lemma addrclaim_decode_encode: "addrclaim_decodeData n0 (ecu_bytes n) = Inr (ecu_trunc n)"
proof -
  have "addrclaim_decodeData n0 (ecu_bytes n) =
     Inr \<lparr>mIdNumber = mIdNumber n AND 0x1FFFFF,
         mManufacturerCode = mManufacturerCode n AND 0x7FF,
         mEcuInstance = mEcuInstance n AND 0x7,
         mFunctionInstance = mFunctionInstance n AND 0x1F,
         mFunction = mFunction n,
         mVehicleSystem = mVehicleSystem n AND 0x7F,
         mVehicleSystemInstance = mVehicleSystemInstance n AND 0xF,
         mIndustryGroup = mIndustryGroup n AND 0x7,
         mArbitraryAddressCapable = mArbitraryAddressCapable n\<rparr>"
    by (simp only: addrclaim_decodeData_def ecu_bytes_length ecu_fields ecu_bytes_nth(6)
        not_True_eq_False if_False simp_thms)
  then show ?thesis by (cases n) (simp add: ecu_trunc_def)
qed

interpretation addrclaim_codec: frame_codec addrclaim_getDataLength addrclaim_encodeData
  addrclaim_decodeData ecu_valid "\<lambda>n0 n. True"
  by unfold_locales
     (auto simp: addrclaim_encodeData_def addrclaim_getDataLength_def poke_def
        addrclaim_decode_encode ecu_trunc_valid)

section \<open>The value is the little-endian reading of the bytes\<close>

fun le_value :: "bytes \<Rightarrow> u64" where
  "le_value [] = 0"
| "le_value (b # bs) = ucast b OR push_bit 8 (le_value bs)"

lemma bit_le_value:
  "n < 64 \<Longrightarrow> bit (le_value bs) n \<longleftrightarrow> n div 8 < length bs \<and> bit (bs ! (n div 8)) (n mod 8)"
proof (induction bs arbitrary: n)
  case (Cons b bs)
  show ?case
  proof (cases "n < 8")
    case True
    with Cons.prems show ?thesis by (simp add: bit_simps)
  next
    case False
    then have "n div 8 = Suc ((n - 8) div 8)" and "n mod 8 = (n - 8) mod 8"
      by (simp_all add: le_div_geq le_mod_geq not_less)
    with False Cons.prems Cons.IH [of "n - 8"] show ?thesis
      by (auto simp: bit_simps dest: word_bit_width)
  qed
qed simp

lemma bit_field:
  "j + m \<le> 64 \<Longrightarrow> bit (push_bit j (ucast w AND mask m) :: u64) k \<longleftrightarrow>
     j \<le> k \<and> k < j + m \<and> bit w (k - j)"
  by (auto simp: bit_simps)

lemma bit_flag_63: "bit (push_bit 63 (if P then 1 else 0) :: u64) k \<longleftrightarrow> k = 63 \<and> P"
  by (simp only: bit_push_bit_iff bit_flag) (auto simp: bit_simps)

lemma ecu_getValue_bits:
  "bit (ecu_getValue n) k \<longleftrightarrow>
     k = 63 \<and> mArbitraryAddressCapable n
     \<or> 60 \<le> k \<and> k < 63 \<and> bit (mIndustryGroup n) (k - 60)
     \<or> 56 \<le> k \<and> k < 60 \<and> bit (mVehicleSystemInstance n) (k - 56)
     \<or> 49 \<le> k \<and> k < 56 \<and> bit (mVehicleSystem n) (k - 49)
     \<or> 40 \<le> k \<and> k < 48 \<and> bit (mFunction n) (k - 40)
     \<or> 35 \<le> k \<and> k < 40 \<and> bit (mFunctionInstance n) (k - 35)
     \<or> 32 \<le> k \<and> k < 35 \<and> bit (mEcuInstance n) (k - 32)
     \<or> 21 \<le> k \<and> k < 32 \<and> bit (mManufacturerCode n) (k - 21)
     \<or> k < 21 \<and> bit (mIdNumber n) k"
  using bit_field [of 0 21 "mIdNumber n" k]
  unfolding ecu_getValue_def mask_eqs bit_or_iff bit_flag_63
  by (simp add: bit_field del: push_bit_and)

text \<open>A bit index below 64 is a byte index and a bit index in that byte.\<close>

lemma byte_bit_cases:
  fixes k :: nat
  assumes "k < 64"
  obtains r q where "r < 8" and "q < 8" and "k = 8 * q + r"
proof
  show "k mod 8 < 8" and "k div 8 < 8" and "k = 8 * (k div 8) + k mod 8"
    using assms by simp_all
qed

lemma bit_le_value_ecu:
  assumes "r < 8" and "q < 8"
  shows "bit (le_value (ecu_bytes n)) (8 * q + r) \<longleftrightarrow> bit (ecu_bytes n ! q) r"
  using assms by (subst bit_le_value) (simp_all add: div_add1_eq)

lemma nat_below_8: "q < 8 \<longleftrightarrow> q \<in> {0, 1, 2, 3, 4, 5, 6, 7}" for q :: nat
  by auto

lemma ecu_value_of_bytes: "le_value (ecu_bytes n) = ecu_getValue n"
proof (rule bit_word_eqI)
  fix k :: nat assume "k < LENGTH(64)"
  then have "k < 64" by simp
  then obtain r q where r: "r < 8" and q: "q < 8" and k: "k = 8 * q + r"
    by (rule byte_bit_cases)
  have "bit (ecu_bytes n ! q) r = bit (ecu_getValue n) (8 * q + r)"
    using q unfolding nat_below_8
    using r
    by (elim insertE emptyE)
       (simp_all add: ecu_getValue_bits ecu_bytes_bits del: One_nat_def, auto dest: word_bit_width)
  then show "bit (le_value (ecu_bytes n)) k = bit (ecu_getValue n) k"
    by (simp only: k bit_le_value_ecu [OF r q])
qed

lemma ecu_trunc_value: "ecu_getValue (ecu_trunc n) = ecu_getValue n"
  by (rule bit_word_eqI)
     (simp add: ecu_getValue_bits ecu_trunc_def mask_eqs bit_and_iff bit_mask_iff
        less_diff_conv2 cong: conj_cong)

section \<open>Properties\<close>

text \<open>The value by which NAMEs are compared is the little-endian reading of the eight bytes that
  travel, so that every node orders two NAMEs alike; a NAME survives encoding and decoding reduced
  to the widths of its fields, which changes neither its value nor its place in the order.\<close>

theorem ecu_name_on_the_wire:
  "le_value (ecu_bytes n) = ecu_getValue n
   \<and> addrclaim_decodeData n0 (ecu_bytes n) = Inr (ecu_trunc n)
   \<and> ecu_getValue (ecu_trunc n) = ecu_getValue n
   \<and> (ecu_less n m \<longleftrightarrow> le_value (ecu_bytes n) < le_value (ecu_bytes m))"
  by (simp add: ecu_value_of_bytes addrclaim_decode_encode ecu_trunc_value ecu_less_def)

end
