(* ===== verification/RequestFrame.thy ===== *)
theory RequestFrame
  imports J1939Frame
begin

text \<open>
  \<open>RequestFrame\<close> (\<open>J1939/Frames/RequestFrame.cpp\<close>, \<open>J1939/include/Frames/RequestFrame.h\<close>):
  three bytes that name the PGN another controller is asked to send.
\<close>

abbreviation (input) REQUEST_PGN :: u32 where "REQUEST_PGN \<equiv> 0xEA00"
abbreviation (input) REQUEST_FRAME_LENGTH :: nat where "REQUEST_FRAME_LENGTH \<equiv> 3"

record request =
  mRequestPGN :: u32

definition RequestFrame :: "request frame" where
  "RequestFrame = \<lparr>mPriority = 0, mSrcAddr = 0xFE, mPgn = REQUEST_PGN, mDstAddr = 0xFE,
     mName = ''Request'', mBody = \<lparr>mRequestPGN = 0\<rparr>\<rparr>"

definition RequestFrame_of :: "u32 \<Rightarrow> request frame" where
  "RequestFrame_of requestPGN = RequestFrame\<lparr>mBody := \<lparr>mRequestPGN = requestPGN\<rparr>\<rparr>"

definition request_decodeData :: "request \<Rightarrow> bytes \<Rightarrow> request outcome" where
  "request_decodeData m buffer =
     (if length buffer \<noteq> REQUEST_FRAME_LENGTH
      then Inl (J1939DecodeException ''[RequestFrame::decodeData] Buffer length does not match'', m)
      else
        let v0 = ucast (buffer ! 0);
            v1 = v0 OR push_bit 8 (ucast (buffer ! 1));
            v2 = v1 OR push_bit 16 (ucast (buffer ! 2))
        in Inr (m\<lparr>mRequestPGN := v2 AND 0x3FFFF\<rparr>))"

definition request_encodeData :: "request \<Rightarrow> bytes \<Rightarrow> bytes res" where
  "request_encodeData m buffer =
     poke 0 [ucast (mRequestPGN m AND 0xFF), ucast (drop_bit 8 (mRequestPGN m) AND 0xFF),
             ucast (drop_bit 16 (mRequestPGN m) AND drop_bit 16 0x3FFFF)] buffer"

definition request_getDataLength :: "request \<Rightarrow> nat" where
  "request_getDataLength m = REQUEST_FRAME_LENGTH"

definition request_valid :: "request \<Rightarrow> bool" where
  "request_valid m \<longleftrightarrow> mRequestPGN m < 2 ^ 18"

text \<open>Only the 18 bits of a PGN travel, whatever the field holds.\<close>

lemma request_bytes:
  "(ucast (ucast (w AND 0xFF) :: u8) OR push_bit 8 (ucast (ucast (drop_bit 8 w AND 0xFF) :: u8))
     OR push_bit 16 (ucast (ucast (drop_bit 16 w AND drop_bit 16 0x3FFFF) :: u8))) AND 0x3FFFF
     = (w AND 0x3FFFF :: u32)"
proof -
  have "drop_bit 16 0x3FFFF = (mask 2 :: u32)"
    by (simp add: mask_eq_exp_minus_1)
  then show ?thesis
    unfolding mask_eqs
    by - (rule bit_word_eqI, auto simp: bit_simps bit_arith split: if_splits dest: word_bit_width)
qed

lemma request_decode_encode:
  assumes "request_encodeData m (replicate 3 0xFF) = Inr bs"
  shows "request_decodeData m0 bs = Inr (m0\<lparr>mRequestPGN := mRequestPGN m AND 0x3FFFF\<rparr>)"
proof -
  have bs: "bs = [ucast (mRequestPGN m AND 0xFF), ucast (drop_bit 8 (mRequestPGN m) AND 0xFF),
             ucast (drop_bit 16 (mRequestPGN m) AND drop_bit 16 0x3FFFF)]"
    using assms by (simp add: request_encodeData_def poke_def)
  show ?thesis
    unfolding bs request_decodeData_def Let_def
    using request_bytes [of "mRequestPGN m"]
    by (simp add: or.assoc)
qed

interpretation request_codec: frame_codec request_getDataLength request_encodeData
  request_decodeData request_valid "\<lambda>m0 m. True"
proof unfold_locales
  fix p
  show "\<exists>bs. request_encodeData p (replicate (request_getDataLength p) 0xFF) = Inr bs
      \<and> length bs = request_getDataLength p"
    by (simp add: request_encodeData_def request_getDataLength_def poke_def)
next
  fix p p0 bs
  assume v: "request_valid p"
    and e: "request_encodeData p (replicate (request_getDataLength p) 0xFF) = Inr bs"
  have "mRequestPGN p AND mask 18 = mRequestPGN p"
    using v less_mask_eq [of "mRequestPGN p" 18] by (simp add: request_valid_def)
  with request_decode_encode [OF e [unfolded request_getDataLength_def], of p0]
  show "request_decodeData p0 bs = Inr p"
    by (cases p, cases p0) (simp add: mask_eqs)
qed

end
