(* ===== verification/OrderedMap.thy ===== *)
theory OrderedMap
  imports Prelude
begin

text \<open>
  \<open>std::map\<close>, which the factory, the generic frames, the FMS1 block, the BAM reassembler and
  the address claimer all iterate in key order. It is modelled as an association list strictly
  sorted by key (\<open>smap_ok\<close>), so that \<open>begin()\<close> is the head, \<open>rbegin()\<close> the last
  element and a range-for a recursion over the list. The locale \<open>ordered_map\<close> states the
  contract the components rely on; its interpretation \<open>smap\<close> discharges it.
\<close>

type_synonym ('k, 'v) smap = "('k \<times> 'v) list"

definition smap_find :: "('k, 'v) smap \<Rightarrow> 'k \<Rightarrow> 'v option" where
  "smap_find m k = map_of m k"

fun smap_put :: "'k::linorder \<Rightarrow> 'v \<Rightarrow> ('k, 'v) smap \<Rightarrow> ('k, 'v) smap" where
  "smap_put k v [] = [(k, v)]"
| "smap_put k v ((k', v') # m) =
     (if k < k' then (k, v) # (k', v') # m
      else if k = k' then (k, v) # m
      else (k', v') # smap_put k v m)"

fun smap_erase :: "'k \<Rightarrow> ('k, 'v) smap \<Rightarrow> ('k, 'v) smap" where
  "smap_erase k [] = []"
| "smap_erase k ((k', v') # m) = (if k = k' then m else (k', v') # smap_erase k m)"

definition smap_keys :: "('k, 'v) smap \<Rightarrow> 'k list" where
  "smap_keys m = map fst m"

definition smap_ok :: "('k::linorder, 'v) smap \<Rightarrow> bool" where
  "smap_ok m = sorted_wrt (<) (map fst m)"

section \<open>The contract\<close>

locale ordered_map =
  fixes find :: "'m \<Rightarrow> 'k::linorder \<Rightarrow> 'v option"
    and put :: "'k \<Rightarrow> 'v \<Rightarrow> 'm \<Rightarrow> 'm"
    and erase :: "'k \<Rightarrow> 'm \<Rightarrow> 'm"
    and empty :: "'m"
    and keys :: "'m \<Rightarrow> 'k list"
    and ok :: "'m \<Rightarrow> bool"
  assumes find_empty: "find empty k = None"
    and find_put: "ok m \<Longrightarrow> find (put k v m) k' = (if k' = k then Some v else find m k')"
    and find_erase: "ok m \<Longrightarrow> find (erase k m) k' = (if k' = k then None else find m k')"
    and ok_empty: "ok empty"
    and ok_put: "ok m \<Longrightarrow> ok (put k v m)"
    and ok_erase: "ok m \<Longrightarrow> ok (erase k m)"
    and keys_sorted: "ok m \<Longrightarrow> sorted_wrt (<) (keys m)"
    and keys_find: "ok m \<Longrightarrow> set (keys m) = {k. find m k \<noteq> None}"
begin

lemma find_put_same: "ok m \<Longrightarrow> find (put k v m) k = Some v"
  by (simp add: find_put)

lemma find_put_other: "ok m \<Longrightarrow> k' \<noteq> k \<Longrightarrow> find (put k v m) k' = find m k'"
  by (simp add: find_put)

lemma find_erase_same: "ok m \<Longrightarrow> find (erase k m) k = None"
  by (simp add: find_erase)

lemma find_erase_other: "ok m \<Longrightarrow> k' \<noteq> k \<Longrightarrow> find (erase k m) k' = find m k'"
  by (simp add: find_erase)

lemma keys_put: "ok m \<Longrightarrow> set (keys (put k v m)) = insert k (set (keys m))"
  by (auto simp: keys_find ok_put find_put split: if_splits)

lemma keys_erase: "ok m \<Longrightarrow> set (keys (erase k m)) = set (keys m) - {k}"
  by (auto simp: keys_find ok_erase find_erase split: if_splits)

text \<open>Two maps with the same lookups are iterated over the same keys in the same order.\<close>

lemma keys_cong:
  assumes "ok m" and "ok m'" and "\<And>k. find m k = None \<longleftrightarrow> find m' k = None"
  shows "keys m = keys m'"
proof -
  have "set (keys m) = set (keys m')"
    using assms by (simp add: keys_find)
  with keys_sorted[OF assms(1)] keys_sorted[OF assms(2)] show ?thesis
    by (metis strict_sorted_equal)
qed

lemma keys_put_present: "ok m \<Longrightarrow> find m k \<noteq> None \<Longrightarrow> keys (put k v m) = keys m"
  by (rule keys_cong) (auto simp: ok_put find_put)

end

section \<open>The sorted list provides it\<close>

lemma smap_ok_Nil [simp]: "smap_ok []"
  by (simp add: smap_ok_def)

lemma smap_ok_Cons: "smap_ok ((k, v) # m) \<longleftrightarrow> (\<forall>k' \<in> fst ` set m. k < k') \<and> smap_ok m"
  by (auto simp: smap_ok_def)

lemma smap_ok_tl: "smap_ok (e # m) \<Longrightarrow> smap_ok m"
  by (simp add: smap_ok_def)

lemma smap_find_Nil [simp]: "smap_find [] k = None"
  by (simp add: smap_find_def)

lemma smap_find_Cons [simp]:
  "smap_find ((k, v) # m) k' = (if k' = k then Some v else smap_find m k')"
  by (simp add: smap_find_def)

lemma smap_find_None_iff: "smap_find m k = None \<longleftrightarrow> k \<notin> fst ` set m"
  by (simp add: smap_find_def map_of_eq_None_iff)

lemma set_smap_put_keys: "fst ` set (smap_put k v m) = insert k (fst ` set m)"
  by (induction k v m rule: smap_put.induct) auto

lemma set_smap_erase_keys: "fst ` set (smap_erase k m) \<subseteq> fst ` set m"
  by (induction k m rule: smap_erase.induct) auto

lemma smap_ok_put: "smap_ok m \<Longrightarrow> smap_ok (smap_put k v m)"
  by (induction k v m rule: smap_put.induct)
     (auto simp: smap_ok_Cons set_smap_put_keys intro: order.strict_trans)

lemma smap_ok_erase: "smap_ok m \<Longrightarrow> smap_ok (smap_erase k m)"
  by (induction k m rule: smap_erase.induct)
     (use set_smap_erase_keys in \<open>fastforce simp: smap_ok_Cons\<close>)+

lemma smap_find_put: "smap_find (smap_put k v m) k' = (if k' = k then Some v else smap_find m k')"
  by (induction k v m rule: smap_put.induct) auto

lemma smap_find_erase:
  "smap_ok m \<Longrightarrow> smap_find (smap_erase k m) k' = (if k' = k then None else smap_find m k')"
proof (induction k m rule: smap_erase.induct)
  case (2 k k1 v m)
  then have "smap_find m k1 = None" and "smap_ok m"
    by (auto simp: smap_ok_Cons smap_find_None_iff)
  with 2 show ?case by auto
qed simp

interpretation smap: ordered_map smap_find smap_put smap_erase "[]" smap_keys smap_ok
  by unfold_locales
     (auto simp: smap_find_put smap_find_erase smap_ok_put smap_ok_erase smap_keys_def
        smap_ok_def [symmetric] smap_find_None_iff)

declare smap.ok_put [simp] smap.ok_erase [simp]

section \<open>Lists of entries\<close>

lemma smap_find_Some_iff: "smap_ok m \<Longrightarrow> smap_find m k = Some v \<longleftrightarrow> (k, v) \<in> set m"
proof (induction m)
  case (Cons e m)
  obtain k1 v1 where e: "e = (k1, v1)" by force
  show ?case
    using Cons by (cases "k = k1") (force simp: e smap_ok_Cons)+
qed simp

lemma smap_put_present_length:
  "smap_ok m \<Longrightarrow> smap_find m k \<noteq> None \<Longrightarrow> length (smap_put k v m) = length m"
  by (metis length_map smap.keys_put_present smap_keys_def)

text \<open>Storing at a key larger than every other appends.\<close>

lemma smap_put_append: "(\<forall>k' \<in> fst ` set m. k' < k) \<Longrightarrow> smap_put k v m = m @ [(k, v)]"
  by (induction m) (auto split: if_splits)

text \<open>Replacing the value of every entry keeps the keys.\<close>

definition smap_map :: "('v \<Rightarrow> 'w) \<Rightarrow> ('k, 'v) smap \<Rightarrow> ('k, 'w) smap" where
  "smap_map f m = map (\<lambda>(k, v). (k, f v)) m"

lemma smap_map_keys [simp]: "map fst (smap_map f m) = map fst m"
  by (simp add: smap_map_def case_prod_beta o_def)

lemma smap_map_Nil [simp]: "smap_map f [] = []"
  by (simp add: smap_map_def)

lemma smap_map_put: "smap_map f (smap_put k v m) = smap_put k (f v) (smap_map f m)"
  by (induction k v m rule: smap_put.induct) (auto simp: smap_map_def)

lemma smap_map_ok [simp]: "smap_ok (smap_map f m) \<longleftrightarrow> smap_ok m"
  by (simp add: smap_ok_def)

lemma smap_find_map: "smap_find (smap_map f m) k = map_option f (smap_find m k)"
  by (induction m) (auto simp: smap_map_def)

lemma set_smap_put_new:
  "smap_ok m \<Longrightarrow> i \<notin> fst ` set m \<Longrightarrow> set (smap_put i h m) = insert (i, h) (set m)"
  by (induction i h m rule: smap_put.induct) (auto simp: smap_ok_Cons)

text \<open>Equal lookups, equal maps.\<close>

lemma smap_as_keys:
  "smap_ok m \<Longrightarrow> map (\<lambda>k. (k, the (smap_find m k))) (smap_keys m) = m"
proof -
  assume ok: "smap_ok m"
  have "the (smap_find m (fst e)) = snd e" if "e \<in> set m" for e
    using smap_find_Some_iff [OF ok, of "fst e" "snd e"] that by simp
  then show ?thesis by (simp add: smap_keys_def o_def map_idI)
qed

lemma smap_ext:
  assumes "smap_ok m" and "smap_ok m'" and "\<And>k. smap_find m k = smap_find m' k"
  shows "m = m'"
proof -
  have keys: "smap_keys m = smap_keys m'"
    by (rule smap.keys_cong [OF assms(1,2)]) (simp only: assms(3))
  have "m = map (\<lambda>k. (k, the (smap_find m k))) (smap_keys m)"
    by (rule smap_as_keys [OF assms(1), symmetric])
  also have "\<dots> = map (\<lambda>k. (k, the (smap_find m' k))) (smap_keys m')"
    by (simp only: assms(3) keys)
  also have "\<dots> = m'" by (rule smap_as_keys [OF assms(2)])
  finally show ?thesis .
qed

text \<open>An entry in the middle of the map.\<close>

lemma smap_find_mid: "smap_ok (xs @ (k, v) # ys) \<Longrightarrow> smap_find (xs @ (k, v) # ys) k = Some v"
  by (simp add: smap_find_Some_iff)

lemma smap_put_mid:
  "smap_ok (xs @ (k, v) # ys) \<Longrightarrow> smap_put k v' (xs @ (k, v) # ys) = xs @ (k, v') # ys"
  by (induction xs) (force simp: smap_ok_Cons)+

end
