(* ===== verification/FMS1.thy ===== *)
theory FMS1
  imports J1939Frame OrderedMap
begin

text \<open>
  The FMS1 frame of tell-tale status bits: \<open>J1939/FMS/TellTale/TellTale.cpp\<close>,
  \<open>J1939/FMS/TellTale/FMS1Frame.cpp\<close> and their headers. A frame carries one block of 15 tell
  tales, kept in a \<open>std::map\<close> from the tell tale's number.
\<close>

section \<open>TellTale\<close>

record TellTale =
  tt_mNumber :: u8
  tt_mStatus :: u8

abbreviation (input) TTS_STATUS_OFF :: u8 where "TTS_STATUS_OFF \<equiv> 0"
abbreviation (input) TTS_STATUS_RED :: u8 where "TTS_STATUS_RED \<equiv> 1"
abbreviation (input) TTS_STATUS_YELLOW :: u8 where "TTS_STATUS_YELLOW \<equiv> 2"
abbreviation (input) TTS_STATUS_INFO :: u8 where "TTS_STATUS_INFO \<equiv> 3"
abbreviation (input) TTS_STATUS_NOT_AVAILABLE :: u8 where "TTS_STATUS_NOT_AVAILABLE \<equiv> 7"

definition TellTale_of :: "u8 \<Rightarrow> u8 \<Rightarrow> TellTale" where
  "TellTale_of number status = \<lparr>tt_mNumber = number, tt_mStatus = status\<rparr>"

definition initializeNTNMap :: "(u8, string) smap" where
  "initializeNTNMap =
    [(1, ''Cooling Air Conditioning''),
     (2, ''High beam, main beam''),
     (3, ''Low beam, dipped beam''),
     (4, ''Turn Signals''),
     (5, ''Hazard Warning''),
     (6, ''Provision for the disabled or handicapped persons''),
     (7, ''Parking Brake''),
     (8, ''Brake failure/brake system malfunction''),
     (9, ''Hatch open''),
     (10, ''Fuel level''),
     (11, ''Engine coolant temperature''),
     (12, ''Battery charging condition''),
     (13, ''Engine oil''),
     (14, ''Position lights,side lights''),
     (15, ''Front fog light''),
     (16, ''Rear fog light''),
     (17, ''Park Heating''),
     (18, ''Engine / Mil indicator''),
     (19, ''Service, call for maintenance''),
     (20, ''Transmission fluid temperature''),
     (21, ''Transmission failure/malfunction''),
     (22, ''Anti-lock brake system failure''),
     (23, ''Worn brake linings''),
     (24, ''Windscreen washer fluid/windshield''),
     (25, ''Tire failure/malfunction''),
     (26, ''Malfunction/general failure''),
     (27, ''Engine oil temperature''),
     (28, ''Engine oil level''),
     (29, ''Engine coolant level''),
     (30, ''Steering fluid level''),
     (31, ''Steering failure''),
     (32, ''Height Control (Levelling)''),
     (33, ''Retarder''),
     (34, ''Engine Emission system failure (Mil indicator)''),
     (35, ''ESC indication''),
     (36, ''Brake lights''),
     (37, ''Articulation''),
     (38, ''Stop Request''),
     (39, ''Pram request''),
     (40, ''Bus stop brake''),
     (41, ''AdBlue level''),
     (42, ''Raising''),
     (43, ''Lowering''),
     (44, ''Kneeling''),
     (45, ''Engine compartment temperature''),
     (46, ''Auxillary air pressure''),
     (47, ''Air filter clogged''),
     (48, ''Fuel filter differential pressure''),
     (49, ''Seat belt''),
     (50, ''EBS''),
     (51, ''Lane departure indication''),
     (52, ''Advanced emergency braking system''),
     (53, ''ACC''),
     (54, ''Trailer connected  washer fluid''),
     (55, ''ABS Trailer''),
     (56, ''Airbag''),
     (57, ''EBS Trailer''),
     (58, ''Tachograph indication''),
     (59, ''ESC switched off''),
     (60, ''Lane departure warning switched off'')]"

definition initializeSNMap :: "(u8, string) smap" where
  "initializeSNMap =
    [(TTS_STATUS_OFF, ''OFF''), (TTS_STATUS_RED, ''RED''), (TTS_STATUS_YELLOW, ''YELLOW''),
     (TTS_STATUS_INFO, ''INFO''), (TTS_STATUS_NOT_AVAILABLE, ''NOT AVAILABLE'')]"

definition getNameForTTSNumber :: "u8 \<Rightarrow> string" where
  "getNameForTTSNumber number =
     (case smap_find initializeNTNMap number of Some n \<Rightarrow> n | None \<Rightarrow> [])"

definition getSatusname :: "u8 \<Rightarrow> string" where
  "getSatusname status =
     (case smap_find initializeSNMap status of Some n \<Rightarrow> n | None \<Rightarrow> ''RESERVED'')"

section \<open>FMS1Frame\<close>

record fms1 =
  mBlockID :: u8
  mTTSs :: "(u8, TellTale) smap"

abbreviation (input) FMS1_PGN :: u32 where "FMS1_PGN \<equiv> 0xFD7D"
abbreviation (input) FMS1_FRAME_LENGTH :: nat where "FMS1_FRAME_LENGTH \<equiv> 8"
abbreviation (input) TTSS_PER_BLOCK :: nat where "TTSS_PER_BLOCK \<equiv> 15"
abbreviation (input) NUMBER_OF_BLOCKS :: nat where "NUMBER_OF_BLOCKS \<equiv> 4"

definition FMS1Frame :: "fms1 frame" where
  "FMS1Frame = \<lparr>mPriority = 0, mSrcAddr = 0xFE, mPgn = FMS1_PGN, mDstAddr = 0xFE, mName = ''FMS1'',
     mBody = \<lparr>mBlockID = of_nat NUMBER_OF_BLOCKS, mTTSs = []\<rparr>\<rparr>"

text \<open>
  \<open>FMS1Frame(blockID)\<close>: the assertion keeps the loop's \<open>u8\<close> counter below 62. The loops
  over tell-tale numbers are folds over the numbers they visit.
\<close>

definition FMS1Frame_of :: "u8 \<Rightarrow> fms1 frame res" where
  "FMS1Frame_of blockID =
     (if unat blockID < NUMBER_OF_BLOCKS
      then Inr (FMS1Frame\<lparr>mBody :=
        \<lparr>mBlockID = blockID,
         mTTSs = fold (\<lambda>i. smap_put (of_nat i) (TellTale_of (of_nat i) TTS_STATUS_NOT_AVAILABLE))
                   [unat blockID * TTSS_PER_BLOCK + 1 ..< (unat blockID + 1) * TTSS_PER_BLOCK + 1]
                   []\<rparr>\<rparr>)
      else Inl AssertExit)"

text \<open>The numbers of the two tell tales of byte \<open>i\<close>, and of the one of byte 0, as \<open>u8\<close>.\<close>

definition tts1Number :: "u8 \<Rightarrow> u8" where
  "tts1Number block = of_nat (TTSS_PER_BLOCK * unat block + 1)"

definition ttsLowPartNumber :: "u8 \<Rightarrow> nat \<Rightarrow> u8" where
  "ttsLowPartNumber block i = of_nat (TTSS_PER_BLOCK * unat block + 2 * i)"

definition ttsHighPartNumber :: "u8 \<Rightarrow> nat \<Rightarrow> u8" where
  "ttsHighPartNumber block i = of_nat (TTSS_PER_BLOCK * unat block + 2 * i + 1)"

definition fms1_decode_byte :: "bytes \<Rightarrow> u8 \<Rightarrow> nat \<Rightarrow> (u8, TellTale) smap \<Rightarrow> (u8, TellTale) smap" where
  "fms1_decode_byte buffer block i m =
     (let lo = ttsLowPartNumber block i; hi = ttsHighPartNumber block i;
          loStatus = buffer ! i AND 0x7; hiStatus = drop_bit 4 (buffer ! i) AND 0x7
      in smap_put hi (TellTale_of hi hiStatus) (smap_put lo (TellTale_of lo loStatus) m))"

definition fms1_decodeData :: "fms1 \<Rightarrow> bytes \<Rightarrow> fms1 outcome" where
  "fms1_decodeData f buffer =
     (if length buffer \<noteq> FMS1_FRAME_LENGTH
      then Inl (J1939DecodeException ''[FMS1Frame::decodeData] Buffer length does not match'', f)
      else
        let blockID = buffer ! 0 AND 0xF
        in if unat blockID \<ge> NUMBER_OF_BLOCKS
           then Inl (J1939DecodeException
                       ''[FMS1Frame::decodeData] Block ID higher than the maximum permitted'', f)
           else
             let m0 = (if mBlockID f \<noteq> blockID then [] else mTTSs f);
                 n1 = tts1Number blockID;
                 m1 = smap_put n1 (TellTale_of n1 (drop_bit 4 (buffer ! 0) AND 0x7)) m0
             in Inr \<lparr>mBlockID = blockID,
                     mTTSs = fold (fms1_decode_byte buffer blockID) [1 ..< FMS1_FRAME_LENGTH] m1\<rparr>)"

text \<open>\<open>mTTSs.at(number).getStatus()\<close>.\<close>

definition fms1_at :: "fms1 \<Rightarrow> u8 \<Rightarrow> u8 res" where
  "fms1_at f number =
     (case smap_find (mTTSs f) number of
        Some t \<Rightarrow> Inr (tt_mStatus t)
      | None \<Rightarrow> Inl StdOutOfRange)"

definition fms1_encode_byte :: "fms1 \<Rightarrow> nat \<Rightarrow> bytes res \<Rightarrow> bytes res" where
  "fms1_encode_byte f i acc =
     res_bind acc (\<lambda>buffer.
     res_bind (fms1_at f (ttsLowPartNumber (mBlockID f) i)) (\<lambda>lo.
     res_bind (fms1_at f (ttsHighPartNumber (mBlockID f) i)) (\<lambda>hi.
       poke i [(lo OR 0x8) OR push_bit 4 (hi OR 0x8)] buffer)))"

definition fms1_encodeData :: "fms1 \<Rightarrow> bytes \<Rightarrow> bytes res" where
  "fms1_encodeData f buffer =
     (if length (mTTSs f) \<noteq> TTSS_PER_BLOCK
      then Inl (J1939EncodeException ''[FMS1Frame::encodeData] There are not 15 defined'')
      else if unat (fst (hd (mTTSs f))) \<le> unat (mBlockID f) * TTSS_PER_BLOCK
            \<or> unat (fst (last (mTTSs f))) > (unat (mBlockID f) + 1) * TTSS_PER_BLOCK
      then Inl (J1939EncodeException
                  ''[FMS1Frame::encodeData] TTS numbers are not the proper ones for this block'')
      else
        fold (fms1_encode_byte f) [1 ..< FMS1_FRAME_LENGTH]
          (res_bind (fms1_at f (tts1Number (mBlockID f))) (\<lambda>s.
             poke 0 [(mBlockID f AND 0xF) OR push_bit 4 (s OR 0x8)] buffer)))"

definition fms1_getDataLength :: "fms1 \<Rightarrow> nat" where
  "fms1_getDataLength f = FMS1_FRAME_LENGTH"

definition hasTTS :: "fms1 \<Rightarrow> u8 \<Rightarrow> bool" where
  "hasTTS f number \<longleftrightarrow> smap_find (mTTSs f) number \<noteq> None"

definition getTTS :: "fms1 \<Rightarrow> u8 \<Rightarrow> TellTale" where
  "getTTS f number =
     (case smap_find (mTTSs f) number of
        Some t \<Rightarrow> t
      | None \<Rightarrow> TellTale_of number TTS_STATUS_NOT_AVAILABLE)"

definition setTTS :: "fms1 \<Rightarrow> u8 \<Rightarrow> u8 \<Rightarrow> bool \<times> fms1" where
  "setTTS f number status =
     (if smap_find (mTTSs f) number \<noteq> None
      then (True, f\<lparr>mTTSs := smap_put number (TellTale_of number status) (mTTSs f)\<rparr>)
      else (False, f))"

section \<open>The tell tales of a block\<close>

definition fms1_numbers :: "u8 \<Rightarrow> u8 list" where
  "fms1_numbers block = map of_nat [15 * unat block + 1 ..< 15 * unat block + 16]"

text \<open>
  \<open>fms1_complete\<close> holds of a frame that is a whole block; \<open>fms1_wf\<close> also of the empty frame the
  default constructor makes.
\<close>

definition fms1_complete :: "fms1 \<Rightarrow> bool" where
  "fms1_complete f \<longleftrightarrow> unat (mBlockID f) < 4 \<and> smap_ok (mTTSs f)
     \<and> smap_keys (mTTSs f) = fms1_numbers (mBlockID f)
     \<and> (\<forall>(k, t) \<in> set (mTTSs f). tt_mNumber t = k)"

definition fms1_wf :: "fms1 \<Rightarrow> bool" where
  "fms1_wf f \<longleftrightarrow> mBlockID f = 4 \<and> mTTSs f = [] \<or> fms1_complete f"

definition fms1_valid :: "fms1 \<Rightarrow> bool" where
  "fms1_valid f \<longleftrightarrow> fms1_complete f \<and> (\<forall>(k, t) \<in> set (mTTSs f). tt_mStatus t < 8)"

lemma block_cases:
  assumes "unat (b :: u8) < 4"
  shows "b \<in> {0, 1, 2, 3}"
proof -
  have b: "b = of_nat (unat b)" by simp
  have "unat b = 0 \<or> unat b = 1 \<or> unat b = 2 \<or> unat b = 3" using assms by arith
  then show ?thesis by (elim disjE) (use b in simp_all)
qed

text \<open>
  Fifteen numbers above \<open>15 b\<close> and up to \<open>15 b + 15\<close> in increasing order are all of them: the
  two checks of \<open>encodeData\<close> on the first and the last key are enough.
\<close>

lemma sorted_block:
  fixes ns :: "nat list"
  assumes "sorted_wrt (<) ns" and "length ns = n" and "ns \<noteq> []"
    and "lo < hd ns" and "last ns \<le> lo + n"
  shows "ns = [lo + 1 ..< lo + n + 1]"
proof -
  have "set ns \<subseteq> {lo + 1 ..< lo + n + 1}"
  proof
    fix x assume "x \<in> set ns"
    then obtain i where i: "i < length ns" "x = ns ! i" by (auto simp: in_set_conv_nth)
    have "hd ns \<le> x"
      using i assms(1,3) sorted_wrt_nth_less [OF assms(1), of 0 i]
      by (cases "i = 0") (auto simp: hd_conv_nth)
    moreover have "x \<le> last ns"
      using i assms(1,3) sorted_wrt_nth_less [OF assms(1), of i "length ns - 1"]
      by (cases "i = length ns - 1") (simp_all add: last_conv_nth less_imp_le)
    ultimately show "x \<in> {lo + 1 ..< lo + n + 1}" using assms(4,5) by auto
  qed
  moreover have "card (set ns) = n"
    using assms(1,2) by (simp add: distinct_card strict_sorted_iff)
  ultimately have "set ns = {lo + 1 ..< lo + n + 1}"
    by (intro card_subset_eq) auto
  then show ?thesis
    by (intro strict_sorted_equal [OF _ assms(1)]) (simp_all add: sorted_wrt_upt del: upt_Suc)
qed

lemma fms1_checks_keys:
  assumes "smap_ok (mTTSs f)" and "length (mTTSs f) = 15"
    and "\<not> unat (fst (hd (mTTSs f))) \<le> unat (mBlockID f) * 15"
    and "\<not> unat (fst (last (mTTSs f))) > (unat (mBlockID f) + 1) * 15"
  shows "smap_keys (mTTSs f) = fms1_numbers (mBlockID f)"
proof -
  let ?ns = "map unat (smap_keys (mTTSs f))"
  have ne: "mTTSs f \<noteq> []" using assms(2) by auto
  have "sorted_wrt (<) ?ns"
    using assms(1) by (simp add: smap_ok_def smap_keys_def sorted_wrt_map word_less_nat_alt)
  then have "?ns = [15 * unat (mBlockID f) + 1 ..< 15 * unat (mBlockID f) + 15 + 1]"
    by (rule sorted_block)
       (use assms ne in \<open>simp_all add: smap_keys_def hd_map last_map\<close>)
  then have "map of_nat ?ns = fms1_numbers (mBlockID f)"
    by (simp add: fms1_numbers_def add.commute)
  moreover have "map of_nat ?ns = smap_keys (mTTSs f)"
    by (simp add: map_idI)
  ultimately show ?thesis by simp
qed

lemma fms1_numbers_nth:
  "i < 15 \<Longrightarrow> of_nat (15 * unat b + 1 + i) \<in> set (fms1_numbers b)"
  unfolding fms1_numbers_def set_map by (rule imageI) simp

lemma fms1_at_ok:
  assumes "smap_keys (mTTSs f) = fms1_numbers (mBlockID f)"
    and "n \<in> set (fms1_numbers (mBlockID f))"
  shows "\<exists>s. fms1_at f n = Inr s"
proof -
  have "smap_find (mTTSs f) n \<noteq> None"
    using assms by (simp add: smap_find_None_iff smap_keys_def flip: set_map)
  then show ?thesis by (auto simp: fms1_at_def)
qed

lemma fms1_names_in_block:
  "tts1Number b \<in> set (fms1_numbers b)"
  "1 \<le> i \<Longrightarrow> i < 8 \<Longrightarrow> ttsLowPartNumber b i \<in> set (fms1_numbers b)"
  "1 \<le> i \<Longrightarrow> i < 8 \<Longrightarrow> ttsHighPartNumber b i \<in> set (fms1_numbers b)"
  using fms1_numbers_nth [of 0 b] fms1_numbers_nth [of "2 * i - 1" b]
    fms1_numbers_nth [of "2 * i" b]
  by (simp_all add: tts1Number_def ttsLowPartNumber_def ttsHighPartNumber_def algebra_simps
      nat_diff_split del: of_nat_add)

section \<open>Codec\<close>

lemma fms1_bytes:
  fixes lo hi :: u8
  assumes "lo < 8" and "hi < 8"
  shows "((lo OR 0x8) OR push_bit 4 (hi OR 0x8)) AND 0x7 = lo"
    and "drop_bit 4 ((lo OR 0x8) OR push_bit 4 (hi OR 0x8)) AND 0x7 = hi"
proof -
  have 8: "(0x8 :: u8) = push_bit 3 1" by simp
  have b: "\<And>n. bit lo n \<Longrightarrow> n < 3" "\<And>n. bit hi n \<Longrightarrow> n < 3"
    using assms word_bit_bound [of _ 3] by simp_all
  show "((lo OR 0x8) OR push_bit 4 (hi OR 0x8)) AND 0x7 = lo"
    unfolding mask_eqs 8
    by (rule bit_word_eqI) (use b in \<open>force simp: bit_simps simp del: push_bit_of_1\<close>)
  show "drop_bit 4 ((lo OR 0x8) OR push_bit 4 (hi OR 0x8)) AND 0x7 = hi"
    unfolding mask_eqs 8
    by (rule bit_word_eqI) (auto simp: bit_simps simp del: push_bit_of_1 dest: b)
qed

lemma fms1_byte0:
  fixes b s :: u8
  assumes "unat b < 4" and "s < 8"
  shows "((b AND 0xF) OR push_bit 4 (s OR 0x8)) AND 0xF = b"
    and "drop_bit 4 ((b AND 0xF) OR push_bit 4 (s OR 0x8)) AND 0x7 = s"
proof -
  have 8: "(0x8 :: u8) = push_bit 3 1" by simp
  have "b < 2 ^ 2" using assms(1) by (simp add: word_less_nat_alt)
  then have bb: "\<And>n. bit b n \<Longrightarrow> n < 2" by (rule word_bit_bound)
  have bs: "\<And>n. bit s n \<Longrightarrow> n < 3" using assms(2) word_bit_bound [of s 3] by simp
  show "((b AND 0xF) OR push_bit 4 (s OR 0x8)) AND 0xF = b"
    unfolding mask_eqs 8
    by (rule bit_word_eqI) (use bb bs in \<open>force simp: bit_simps simp del: push_bit_of_1\<close>)
  show "drop_bit 4 ((b AND 0xF) OR push_bit 4 (s OR 0x8)) AND 0x7 = s"
    unfolding mask_eqs 8
    by (rule bit_word_eqI) (use bb bs in \<open>force simp: bit_simps simp del: push_bit_of_1\<close>)
qed

text \<open>\<open>fms1_status f n\<close>: the status stored for \<open>n\<close>, for the numbers that are present.\<close>

definition fms1_status :: "fms1 \<Rightarrow> u8 \<Rightarrow> u8" where
  "fms1_status f n = tt_mStatus (getTTS f n)"

lemma fms1_at_status:
  assumes "fms1_complete f" and "n \<in> set (fms1_numbers (mBlockID f))"
  shows "fms1_at f n = Inr (fms1_status f n)"
  using assms fms1_at_ok [of f n]
  by (auto simp: fms1_complete_def fms1_at_def fms1_status_def getTTS_def split: option.splits)

lemma fms1_find_complete:
  assumes "fms1_complete f"
  shows "smap_find (mTTSs f) n =
    (if n \<in> set (fms1_numbers (mBlockID f)) then Some (TellTale_of n (fms1_status f n)) else None)"
proof (cases "smap_find (mTTSs f) n")
  case None
  then have "n \<notin> set (fms1_numbers (mBlockID f))"
    using assms by (simp add: smap_find_None_iff fms1_complete_def smap_keys_def flip: set_map)
  with None show ?thesis by simp
next
  case (Some t)
  then have t: "(n, t) \<in> set (mTTSs f)"
    using assms by (simp add: fms1_complete_def smap_find_Some_iff)
  then have "n \<in> set (smap_keys (mTTSs f))" by (force simp: smap_keys_def)
  with Some t assms show ?thesis
    by (auto simp: fms1_complete_def fms1_status_def getTTS_def TellTale_of_def)
qed

definition fms1_byte :: "fms1 \<Rightarrow> nat \<Rightarrow> u8" where
  "fms1_byte f i = (fms1_status f (ttsLowPartNumber (mBlockID f) i) OR 0x8)
     OR push_bit 4 (fms1_status f (ttsHighPartNumber (mBlockID f) i) OR 0x8)"

definition fms1_first_byte :: "fms1 \<Rightarrow> u8" where
  "fms1_first_byte f =
     (mBlockID f AND 0xF) OR push_bit 4 (fms1_status f (tts1Number (mBlockID f)) OR 0x8)"

lemma fms1_complete_checks:
  assumes "fms1_complete f"
  shows "length (mTTSs f) = 15"
    and "unat (fst (hd (mTTSs f))) = unat (mBlockID f) * 15 + 1"
    and "unat (fst (last (mTTSs f))) = unat (mBlockID f) * 15 + 15"
proof -
  have keys: "map fst (mTTSs f) = fms1_numbers (mBlockID f)" and b: "unat (mBlockID f) < 4"
    using assms by (simp_all add: fms1_complete_def smap_keys_def)
  have len: "length (fms1_numbers (mBlockID f)) = 15" by (simp add: fms1_numbers_def)
  show l: "length (mTTSs f) = 15" using arg_cong [OF keys, of length] len by simp
  then have ne: "mTTSs f \<noteq> []" by auto
  have un: "unat (of_nat m :: u8) = m" if "m < 256" for m
    using that by (simp add: unat_of_nat)
  show "unat (fst (hd (mTTSs f))) = unat (mBlockID f) * 15 + 1"
    and "unat (fst (last (mTTSs f))) = unat (mBlockID f) * 15 + 15"
    using arg_cong [OF keys, of hd] arg_cong [OF keys, of last] ne b
    by (simp_all add: hd_map last_map fms1_numbers_def mult.commute un del: of_nat_add of_nat_mult
          of_nat_Suc upt_Suc)
qed

lemma fms1_encodeData_eq:
  assumes "fms1_complete f" and "length buffer = 8"
  shows "fms1_encodeData f buffer = Inr (fms1_first_byte f # map (fms1_byte f) [1 ..< 8])"
proof -
  note at = fms1_at_status [OF assms(1)] fms1_names_in_block
  have step: "fms1_encode_byte f i (Inr bs) = poke i [fms1_byte f i] bs"
    if "1 \<le> i" and "i < 8" for i bs
    using that by (simp add: fms1_encode_byte_def at fms1_byte_def)
  have upt: "[1 ..< 8] = [1, 2, 3, 4, 5, 6, 7 :: nat]" by (simp add: upt_rec)
  have "fms1_encodeData f buffer =
      fold (fms1_encode_byte f) [1 ..< 8] (poke 0 [fms1_first_byte f] buffer)"
    using fms1_complete_checks [OF assms(1)]
    by (simp add: fms1_encodeData_def at fms1_first_byte_def)
  also have "\<dots> = Inr (fms1_first_byte f # map (fms1_byte f) [1 ..< 8])"
    using assms(2) unfolding length_8_conv upt
    by (elim exE) (simp add: poke_def step)
  finally show ?thesis .
qed

lemma fms1_numbers_iff:
  "n \<in> set (fms1_numbers b) \<longleftrightarrow>
     n = tts1Number b \<or> (\<exists>i \<in> {1 ..< 8}. n = ttsLowPartNumber b i \<or> n = ttsHighPartNumber b i)"
proof
  assume "n \<in> set (fms1_numbers b)"
  then obtain k where k: "15 * unat b + 1 \<le> k" "k < 15 * unat b + 16" and n: "n = of_nat k"
    by (auto simp: fms1_numbers_def)
  define d where "d = k - 15 * unat b"
  have d: "k = 15 * unat b + d" "1 \<le> d" "d < 16" using k by (auto simp: d_def)
  have "d = 1 \<or> (\<exists>i \<in> {1 ..< 8}. d = 2 * i \<or> d = 2 * i + 1)"
  proof (cases "d = 1")
    case False
    then have "d div 2 \<in> {1 ..< 8}" and "d = 2 * (d div 2) \<or> d = 2 * (d div 2) + 1"
      using d by auto
    then show ?thesis by blast
  qed simp
  then show "n = tts1Number b
      \<or> (\<exists>i \<in> {1 ..< 8}. n = ttsLowPartNumber b i \<or> n = ttsHighPartNumber b i)"
    unfolding n d(1) tts1Number_def ttsLowPartNumber_def ttsHighPartNumber_def
    by (metis add.assoc)
qed (auto simp: fms1_names_in_block)

text \<open>What the loop over the bytes leaves in the map, when byte \<open>i\<close> carries the statuses \<open>st\<close>.\<close>

lemma fms1_decode_fold:
  assumes "\<And>i. i \<in> set is \<Longrightarrow> buffer ! i AND 0x7 = st (ttsLowPartNumber b i)
                \<and> drop_bit 4 (buffer ! i) AND 0x7 = st (ttsHighPartNumber b i)"
    and "smap_ok m"
  shows "smap_ok (fold (fms1_decode_byte buffer b) is m)
    \<and> smap_find (fold (fms1_decode_byte buffer b) is m) n =
      (if \<exists>i \<in> set is. n = ttsLowPartNumber b i \<or> n = ttsHighPartNumber b i
       then Some (TellTale_of n (st n)) else smap_find m n)"
  using assms
proof (induction "is" arbitrary: m)
  case (Cons i "is")
  have st: "buffer ! i AND 0x7 = st (ttsLowPartNumber b i)"
    "drop_bit 4 (buffer ! i) AND 0x7 = st (ttsHighPartNumber b i)"
    using Cons.prems(1) by simp_all
  have "smap_ok (fms1_decode_byte buffer b i m)"
    using Cons.prems(2) by (simp add: fms1_decode_byte_def Let_def)
  from Cons.IH [OF Cons.prems(1) this] show ?case
    by (auto simp: fms1_decode_byte_def Let_def st smap_find_put)
qed simp

lemma fms1_byte_status:
  assumes "fms1_valid f"
  shows "fms1_status f n < 8"
  using assms
  by (auto simp: fms1_valid_def fms1_complete_def fms1_status_def getTTS_def TellTale_of_def
      smap_find_Some_iff split: option.splits)

lemma fms1_decode_encode:
  assumes "fms1_valid f" and "fms1_wf f0"
  shows "fms1_decodeData f0 (fms1_first_byte f # map (fms1_byte f) [1 ..< 8]) = Inr f"
proof -
  let ?buf = "fms1_first_byte f # map (fms1_byte f) [1 ..< 8]"
  let ?b = "mBlockID f"
  define m0 where "m0 = (if mBlockID f0 \<noteq> ?b then [] else mTTSs f0)"
  define m1 where "m1 = smap_put (tts1Number ?b)
    (TellTale_of (tts1Number ?b) (fms1_status f (tts1Number ?b))) m0"
  have c: "fms1_complete f" and b4: "unat ?b < 4"
    using assms(1) by (simp_all add: fms1_valid_def fms1_complete_def)
  note st = fms1_byte_status [OF assms(1)]
  have dec: "fms1_decodeData f0 ?buf
    = Inr \<lparr>mBlockID = ?b, mTTSs = fold (fms1_decode_byte ?buf ?b) [1 ..< 8] m1\<rparr>"
    using fms1_byte0 [OF b4 st] b4
    by (simp add: fms1_decodeData_def fms1_first_byte_def m0_def m1_def Let_def del: upt_Suc)
  have m0: "smap_ok m0" "\<And>n. n \<notin> set (fms1_numbers ?b) \<Longrightarrow> smap_find m0 n = None"
    using assms(2) b4
    by (auto simp: m0_def fms1_wf_def fms1_complete_def smap_find_None_iff smap_keys_def
        simp flip: set_map)
  have nth: "?buf ! i = fms1_byte f i" if i: "i \<in> set [1 ..< 8]" for i
  proof -
    obtain j where "i = Suc j" "j < 7" using i by (cases i rule: nat.exhaust) auto
    then show ?thesis by (simp del: upt_Suc)
  qed
  have "?buf ! i AND 0x7 = fms1_status f (ttsLowPartNumber ?b i)
      \<and> drop_bit 4 (?buf ! i) AND 0x7 = fms1_status f (ttsHighPartNumber ?b i)"
    if "i \<in> set [1 ..< 8]" for i
    unfolding nth [OF that] fms1_byte_def using fms1_bytes [OF st st] by blast
  note fold = fms1_decode_fold [of "[1 ..< 8]", OF this, of m1]
  have "fold (fms1_decode_byte ?buf ?b) [1 ..< 8] m1 = mTTSs f"
  proof (rule smap_ext)
    show "smap_ok (fold (fms1_decode_byte ?buf ?b) [1 ..< 8] m1)"
      using fold m0(1) by (simp add: m1_def del: upt_Suc)
    show "smap_ok (mTTSs f)" using c by (simp add: fms1_complete_def)
    fix n
    show "smap_find (fold (fms1_decode_byte ?buf ?b) [1 ..< 8] m1) n = smap_find (mTTSs f) n"
      using fold [of n] m0 fms1_numbers_iff [of n ?b]
      by (auto simp: fms1_find_complete [OF c] m1_def smap_find_put simp del: upt_Suc)
  qed
  then show ?thesis by (simp only: dec) simp
qed

interpretation fms1_codec: frame_codec fms1_getDataLength fms1_encodeData fms1_decodeData
  fms1_valid "\<lambda>f0 f. fms1_wf f0"
proof unfold_locales
  fix p assume "fms1_valid p"
  then have "fms1_complete p" by (simp add: fms1_valid_def)
  then show "\<exists>bs. fms1_encodeData p (replicate (fms1_getDataLength p) 0xFF) = Inr bs
      \<and> length bs = fms1_getDataLength p"
    by (simp add: fms1_encodeData_eq fms1_getDataLength_def)
next
  fix p p0 bs
  assume v: "fms1_valid p" and w: "fms1_wf p0"
    and e: "fms1_encodeData p (replicate (fms1_getDataLength p) 0xFF) = Inr bs"
  have "fms1_complete p" using v by (simp add: fms1_valid_def)
  from e fms1_encodeData_eq [OF this, of "replicate 8 0xFF"]
  have "bs = fms1_first_byte p # map (fms1_byte p) [1 ..< 8]"
    by (simp add: fms1_getDataLength_def)
  with fms1_decode_encode [OF v w] show "fms1_decodeData p0 bs = Inr p" by simp
qed

section \<open>Properties\<close>

lemma fms1_at_Inr:
  assumes "smap_keys (mTTSs f) = fms1_numbers (mBlockID f)"
    and "n \<in> set (fms1_numbers (mBlockID f))"
  obtains s where "fms1_at f n = Inr s"
  using fms1_at_ok [OF assms] by blast

lemma fms1_encode_fold:
  assumes "smap_keys (mTTSs f) = fms1_numbers (mBlockID f)"
  shows "\<forall>i \<in> set is. 1 \<le> i \<and> i < 8 \<Longrightarrow> length b = 8 \<Longrightarrow>
    \<exists>b'. fold (fms1_encode_byte f) is (Inr b) = Inr b' \<and> length b' = 8"
proof (induction "is" arbitrary: b)
  case (Cons i "is")
  then have i: "1 \<le> i" "i < 8" by simp_all
  obtain lo where "fms1_at f (ttsLowPartNumber (mBlockID f) i) = Inr lo"
    by (rule fms1_at_Inr [OF assms fms1_names_in_block(2) [OF i]])
  moreover obtain hi where "fms1_at f (ttsHighPartNumber (mBlockID f) i) = Inr hi"
    by (rule fms1_at_Inr [OF assms fms1_names_in_block(3) [OF i]])
  ultimately have "\<exists>b'. fms1_encode_byte f i (Inr b) = Inr b' \<and> length b' = 8"
    using Cons.prems(2) i by (simp add: fms1_encode_byte_def poke_def)
  then show ?case using Cons by auto
qed simp

text \<open>Encoding an FMS1 frame never fails inside \<open>std::map::at\<close>, whatever block and tell tales it
  holds: the two checks at the start (fifteen entries, first and last number inside the block) are
  enough for all fifteen lookups, and otherwise the encode exception is raised.\<close>

theorem fms1_encode_no_out_of_range:
  assumes "smap_ok (mTTSs f)" and "length buffer = 8"
  shows "case fms1_encodeData f buffer of
      Inl e \<Rightarrow> (\<exists>msg. e = J1939EncodeException msg)
    | Inr bytes \<Rightarrow> length bytes = 8 \<and> smap_keys (mTTSs f) = fms1_numbers (mBlockID f)"
proof (cases "length (mTTSs f) = 15 \<and> \<not> unat (fst (hd (mTTSs f))) \<le> unat (mBlockID f) * 15
    \<and> \<not> unat (fst (last (mTTSs f))) > (unat (mBlockID f) + 1) * 15")
  case True
  then have keys: "smap_keys (mTTSs f) = fms1_numbers (mBlockID f)"
    using fms1_checks_keys [OF assms(1)] by blast
  obtain s where s: "fms1_at f (tts1Number (mBlockID f)) = Inr s"
    by (rule fms1_at_Inr [OF keys fms1_names_in_block(1)])
  define b where "b = ((mBlockID f AND 0xF) OR push_bit 4 (s OR 0x8)) # drop 1 buffer"
  have "poke 0 [(mBlockID f AND 0xF) OR push_bit 4 (s OR 0x8)] buffer = Inr b"
    and "length b = 8"
    using assms(2) by (simp_all add: poke_def b_def)
  moreover from this fms1_encode_fold [OF keys, of "[1 ..< 8]" b]
  obtain b' where "fold (fms1_encode_byte f) [1 ..< 8] (Inr b) = Inr b'" "length b' = 8"
    by auto
  ultimately show ?thesis
    using True keys by (simp add: fms1_encodeData_def s del: upt_Suc)
next
  case False
  then show ?thesis unfolding fms1_encodeData_def by auto
qed

definition fms1_sample :: fms1 where
  "fms1_sample = \<lparr>mBlockID = 2,
     mTTSs = map (\<lambda>i. (of_nat i, TellTale_of (of_nat i) 1)) [31 ..< 46]\<rparr>"

theorem fms1_encode_no_out_of_range_witness:
  "case fms1_encodeData fms1_sample (replicate 8 0xFF) of
      Inl e \<Rightarrow> (\<exists>msg. e = J1939EncodeException msg)
    | Inr bytes \<Rightarrow> length bytes = 8 \<and> smap_keys (mTTSs fms1_sample) = fms1_numbers (mBlockID fms1_sample)"
proof (rule fms1_encode_no_out_of_range)
  show "smap_ok (mTTSs fms1_sample)" by code_simp
qed simp

end
