(* ===== verification/Double.thy ===== *)
theory Double
  imports Complex_Main
begin

text \<open>
  The C++ type \<open>double\<close> (IEEE 754 binary64, round to nearest even), as far as the numeric SPNs
  use it: addition, subtraction, multiplication, division, comparison and conversion from and to
  integers. A finite value is its exact rational; the negative zero is a value of its own because
  the sign of a division by zero depends on it. Everything is executable.
\<close>

datatype double =
    Fin rat
  | NZero
  | Inf bool  \<comment> \<open>True: negative\<close>
  | NaN

section \<open>Rounding\<close>

fun nbits :: "nat \<Rightarrow> nat" where
  "nbits n = (if n = 0 then 0 else Suc (nbits (n div 2)))"

declare nbits.simps [simp del]

text \<open>The exponent \<open>e\<close> with \<open>2\<^sup>e \<le> |x| < 2\<^sup>e\<^sup>+\<^sup>1\<close>.\<close>

definition dexp :: "rat \<Rightarrow> int" where
  "dexp x =
     (let (n, d) = quotient_of \<bar>x\<bar>; k = int (nbits (nat n)) - int (nbits (nat d))
      in if 2 powi k \<le> \<bar>x\<bar> then k else k - 1)"

definition rint_even :: "rat \<Rightarrow> int" where
  "rint_even x =
     (let f = \<lfloor>x\<rfloor>; r = x - of_int f
      in if r < 1 / 2 \<or> r = 1 / 2 \<and> even f then f else f + 1)"

definition d_round :: "rat \<Rightarrow> double" where
  "d_round x =
     (if x = 0 then Fin 0
      else
        let q = max (dexp x - 52) (-1074); y = of_int (rint_even (x / 2 powi q)) * 2 powi q
        in if \<bar>y\<bar> \<ge> 2 ^ 1024 then Inf (x < 0)
           else if y = 0 then (if x < 0 then NZero else Fin 0)
           else Fin y)"

section \<open>Operations\<close>

fun d_val :: "double \<Rightarrow> rat" where
  "d_val (Fin x) = x"
| "d_val _ = 0"

fun d_negative :: "double \<Rightarrow> bool" where
  "d_negative (Fin x) = (x < 0)"
| "d_negative NZero = True"
| "d_negative (Inf b) = b"
| "d_negative NaN = False"

fun d_neg :: "double \<Rightarrow> double" where
  "d_neg (Fin x) = (if x = 0 then NZero else Fin (- x))"
| "d_neg NZero = Fin 0"
| "d_neg (Inf b) = Inf (\<not> b)"
| "d_neg NaN = NaN"

definition d_zero :: "bool \<Rightarrow> double" where
  "d_zero s = (if s then NZero else Fin 0)"

fun d_add :: "double \<Rightarrow> double \<Rightarrow> double" where
  "d_add NaN b = NaN"
| "d_add a NaN = NaN"
| "d_add (Inf s) (Inf s') = (if s = s' then Inf s else NaN)"
| "d_add (Inf s) b = Inf s"
| "d_add a (Inf s) = Inf s"
| "d_add NZero NZero = NZero"
| "d_add a b = d_round (d_val a + d_val b)"

definition d_sub :: "double \<Rightarrow> double \<Rightarrow> double" where
  "d_sub a b = d_add a (d_neg b)"

definition d_signed :: "bool \<Rightarrow> double \<Rightarrow> double" where
  "d_signed s x = (if x = Fin 0 then d_zero s else x)"

definition d_is_zero :: "double \<Rightarrow> bool" where
  "d_is_zero a \<longleftrightarrow> a = Fin 0 \<or> a = NZero"

definition d_is_inf :: "double \<Rightarrow> bool" where
  "d_is_inf a \<longleftrightarrow> a = Inf True \<or> a = Inf False"

definition d_mul :: "double \<Rightarrow> double \<Rightarrow> double" where
  "d_mul a b =
     (let s = (d_negative a \<noteq> d_negative b)
      in if a = NaN \<or> b = NaN then NaN
         else if d_is_inf a \<or> d_is_inf b
         then (if d_is_zero a \<or> d_is_zero b then NaN else Inf s)
         else d_signed s (d_round (d_val a * d_val b)))"

definition d_div :: "double \<Rightarrow> double \<Rightarrow> double" where
  "d_div a b =
     (let s = (d_negative a \<noteq> d_negative b)
      in if a = NaN \<or> b = NaN then NaN
         else if d_is_inf a then (if d_is_inf b then NaN else Inf s)
         else if d_is_inf b then d_zero s
         else if d_is_zero b then (if d_is_zero a then NaN else Inf s)
         else d_signed s (d_round (d_val a / d_val b)))"

fun d_lt :: "double \<Rightarrow> double \<Rightarrow> bool" where
  "d_lt NaN b = False"
| "d_lt a NaN = False"
| "d_lt (Inf s) b = (s \<and> b \<noteq> Inf True)"
| "d_lt a (Inf s) = (\<not> s)"
| "d_lt a b = (d_val a < d_val b)"

definition d_eq :: "double \<Rightarrow> double \<Rightarrow> bool" where
  "d_eq a b \<longleftrightarrow> a \<noteq> NaN \<and> (a = b \<or> d_is_zero a \<and> d_is_zero b)"

definition d_le :: "double \<Rightarrow> double \<Rightarrow> bool" where
  "d_le a b \<longleftrightarrow> d_lt a b \<or> d_eq a b"

text \<open>Conversion of an unsigned integer, and the truncation of a value known to be in range.\<close>

definition d_of_nat :: "nat \<Rightarrow> double" where
  "d_of_nat n = d_round (of_nat n)"

definition d_trunc :: "double \<Rightarrow> int" where
  "d_trunc a = (if d_val a < 0 then - \<lfloor>- d_val a\<rfloor> else \<lfloor>d_val a\<rfloor>)"

section \<open>Integers below \<open>2\<^sup>5\<^sup>3\<close> are exact\<close>

lemma nbits_upper: "n < 2 ^ nbits n"
proof (induction n rule: nbits.induct)
  case (1 n)
  then show ?case by (subst nbits.simps) (cases "n = 0", auto)
qed

lemma nbits_lower: "0 < n \<Longrightarrow> 2 ^ (nbits n - 1) \<le> n"
proof (induction n rule: nbits.induct)
  case (1 n)
  show ?case
  proof (cases "n div 2 = 0")
    case True
    with 1 have "n = 1" by auto
    then show ?thesis by (simp add: nbits.simps)
  next
    case False
    then have "nbits (n div 2) = Suc (nbits (n div 2) - 1)"
      by (subst nbits.simps) (simp add: nbits.simps [of "n div 2"])
    then have "(2::nat) ^ nbits (n div 2) = 2 * 2 ^ (nbits (n div 2) - 1)"
      by (metis power_Suc)
    also have "\<dots> \<le> 2 * (n div 2)" using 1 False by simp
    finally show ?thesis using 1 by (subst nbits.simps) simp
  qed
qed

lemma nbits_pos: "0 < n \<Longrightarrow> 0 < nbits n"
  by (simp add: nbits.simps)

text \<open>A number below a power of two has no more bits than its exponent.\<close>

lemma nbits_le: "n < 2 ^ k \<Longrightarrow> nbits n \<le> k"
proof (rule ccontr)
  assume n: "n < 2 ^ k" and "\<not> nbits n \<le> k"
  then have k: "k \<le> nbits n - 1" and "0 < n"
    by (auto simp: nbits.simps split: if_splits)
  then have "(2::nat) ^ k \<le> n"
    using nbits_lower [of n] power_increasing [OF k, of "2::nat"] by (metis order_trans one_le_numeral)
  with n show False by simp
qed

lemma quotient_of_int: "quotient_of (of_int n) = (n, 1)"
  by (simp add: Rat.of_int_def quotient_of_Fract normalize_def)

lemma dexp_int: "n \<noteq> 0 \<Longrightarrow> \<bar>n\<bar> < 2 ^ 53 \<Longrightarrow> dexp (of_int n) \<le> 52"
proof -
  assume n: "n \<noteq> 0" "\<bar>n\<bar> < 2 ^ 53"
  have "nat \<bar>n\<bar> < 2 ^ 53" using n(2) by simp
  then have "nbits (nat \<bar>n\<bar>) \<le> 53" by (rule nbits_le)
  moreover have "quotient_of \<bar>of_int n\<bar> = (\<bar>n\<bar>, 1)"
    using quotient_of_int [of "\<bar>n\<bar>"] by simp
  moreover have "nbits 1 = 1" by (simp add: nbits.simps)
  ultimately have "dexp (of_int n) \<le> int (nbits (nat \<bar>n\<bar>)) - 1 + 0 \<or> dexp (of_int n) \<le> 52"
    unfolding dexp_def Let_def by (auto split: prod.splits if_splits)
  with \<open>nbits (nat \<bar>n\<bar>) \<le> 53\<close> show ?thesis by linarith
qed

lemma rint_even_int: "rint_even (of_int n) = n"
  by (simp add: rint_even_def)

lemma powi_nat: "i \<le> 0 \<Longrightarrow> of_int n / (2 powi i :: rat) = of_int (n * 2 ^ nat (- i))"
proof -
  assume "i \<le> 0"
  then have "(2 powi i :: rat) = 1 / 2 ^ nat (- i)"
    by (cases "i = 0") (simp_all add: power_int_def power_one_over inverse_eq_divide)
  then show ?thesis by simp
qed

lemma d_round_int:
  assumes "\<bar>n\<bar> < 2 ^ 53"
  shows "d_round (of_int n) = Fin (of_int n)"
proof (cases "n = 0")
  case False
  define q where "q = max (dexp (of_int n) - 52) (-1074)"
  have q: "q \<le> 0" using dexp_int [OF False assms] by (simp add: q_def)
  have y: "of_int (rint_even (of_int n / 2 powi q)) * 2 powi q = (of_int n :: rat)"
    by (simp only: powi_nat [OF q] rint_even_int) (simp only: powi_nat [OF q, symmetric], simp)
  have "\<bar>of_int n\<bar> < (2 ^ 53 :: rat)"
    using assms by (metis of_int_abs of_int_less_iff of_int_numeral of_int_power)
  also have "(2 ^ 53 :: rat) \<le> 2 ^ 1024" by (rule power_increasing) simp_all
  finally have "\<not> \<bar>of_int n\<bar> \<ge> (2 ^ 1024 :: rat)" by (simp only: not_le)
  then show ?thesis
    using False by (simp only: d_round_def Let_def q_def [symmetric] y) simp
qed (simp add: d_round_def)

lemma d_of_nat_exact: "n < 2 ^ 53 \<Longrightarrow> d_of_nat n = Fin (of_nat n)"
  using d_round_int [of "int n"] by (simp add: d_of_nat_def)

lemma d_round_nonzero: "\<bar>n\<bar> < 2 ^ 53 \<Longrightarrow> x = of_int n \<Longrightarrow> d_round x = Fin x"
  by (simp add: d_round_int)

text \<open>What the operations do on integers when the exact result has fewer than 54 bits.\<close>

lemma d_add_int:
  "\<bar>m + n\<bar> < 2 ^ 53 \<Longrightarrow> d_add (Fin (of_int m)) (Fin (of_int n)) = Fin (of_int (m + n))"
  using d_round_int [of "m + n"] by simp

lemma d_mul_int:
  "\<bar>m * n\<bar> < 2 ^ 53 \<Longrightarrow>
     d_mul (Fin (of_int m)) (Fin (of_int n))
       = d_signed ((m < 0) \<noteq> (n < 0)) (Fin (of_int (m * n)))"
  using d_round_int [of "m * n"]
  by (simp add: d_mul_def d_is_inf_def)

lemma d_trunc_int [simp]: "d_trunc (Fin (of_int n)) = n"
  by (simp add: d_trunc_def del: of_int_minus flip: of_int_minus)

end
