(* ===== verification/Spn.thy ===== *)
theory Spn
  imports Prelude OrderedMap Double
begin

text \<open>
  Suspect parameters: \<open>J1939/SPN/{SPN,SPNNumeric,SPNStatus,SPNString}.cpp\<close>, their
  specifications under \<open>J1939/SPN/SPNSpec/\<close> and the headers. An SPN is its shared immutable
  specification plus its value; \<open>mSpecId\<close> is the identity of the \<open>shared_ptr\<close> returned by
  \<open>getSpec()\<close>, which clones share and \<open>copy\<close> and the history compare. The bytes of a
  \<open>std::string\<close> value are a \<^typ>\<open>bytes\<close>. What a string SPN tells its owner belongs to
  \<open>GenericFrame\<close>.
\<close>

section \<open>Specifications\<close>

record SPNSpec =
  mSPNNumber :: u32
  mSpecName :: string
  mSpecOffset :: nat

record SPNNumericSpec =
  mFormatGain :: double
  mFormatOffset :: double
  mByteSize :: u8
  mUnits :: string

record SPNStatusSpec =
  mBitOffset :: u8
  mBitSize :: u8
  mValueToDesc :: "(u8, string) smap"

definition SPNSpec_ctor :: "u32 \<Rightarrow> string \<Rightarrow> nat \<Rightarrow> SPNSpec res" where
  "SPNSpec_ctor number name offset =
     (if number < push_bit 19 1
      then Inr \<lparr>mSPNNumber = number, mSpecName = name, mSpecOffset = offset\<rparr>
      else Inl AssertExit)"

definition SPNNumericSpec_ctor ::
  "double \<Rightarrow> double \<Rightarrow> u8 \<Rightarrow> string \<Rightarrow> SPNNumericSpec res" where
  "SPNNumericSpec_ctor formatGain formatOffset byteSize units =
     (if byteSize > 0 \<and> byteSize \<le> 4
      then Inr \<lparr>mFormatGain = formatGain, mFormatOffset = formatOffset, mByteSize = byteSize,
                mUnits = units\<rparr>
      else Inl AssertExit)"

definition SPNStatusSpec_ctor :: "u8 \<Rightarrow> u8 \<Rightarrow> (u8, string) smap \<Rightarrow> SPNStatusSpec res" where
  "SPNStatusSpec_ctor bitOffset bitSize valueToDesc =
     (if bitSize > 0 \<and> unat bitOffset + unat bitSize \<le> 8
      then Inr \<lparr>mBitOffset = bitOffset, mBitSize = bitSize, mValueToDesc = valueToDesc\<rparr>
      else Inl AssertExit)"

definition getMaxValue :: "SPNNumericSpec \<Rightarrow> u32" where
  "getMaxValue spec = drop_bit ((4 - unat (mByteSize spec)) * 8) 0xFAFFFFFF"

definition formatValue :: "SPNNumericSpec \<Rightarrow> u32 \<Rightarrow> double" where
  "formatValue spec value =
     d_add (d_mul (d_of_nat (unat value)) (mFormatGain spec)) (mFormatOffset spec)"

definition getBitMask :: "SPNStatusSpec \<Rightarrow> u8" where
  "getBitMask spec = push_bit (unat (mBitOffset spec)) (drop_bit (8 - unat (mBitSize spec)) 0xFF)"

definition setValueDescription :: "u8 \<Rightarrow> string \<Rightarrow> SPNStatusSpec \<Rightarrow> SPNStatusSpec" where
  "setValueDescription value desc spec =
     spec\<lparr>mValueToDesc := smap_put value desc (mValueToDesc spec)\<rparr>"

definition getValueDescription :: "SPNStatusSpec \<Rightarrow> u8 \<Rightarrow> string" where
  "getValueDescription spec value =
     (case smap_find (mValueToDesc spec) value of Some d \<Rightarrow> d | None \<Rightarrow> [])"

definition clearValueDescriptions :: "SPNStatusSpec \<Rightarrow> SPNStatusSpec" where
  "clearValueDescriptions spec = spec\<lparr>mValueToDesc := []\<rparr>"

section \<open>SPNs\<close>

datatype EType = SPN_NUMERIC | SPN_STATUS | SPN_STRING

datatype spn_data =
    SpnNumeric (num_spec: SPNNumericSpec) (num_mValue: u32)
  | SpnStatus (stat_spec: SPNStatusSpec) (stat_mValue: u8)
  | SpnString (str_mOffset: nat) (str_mValue: bytes)

record SPN =
  mSpecId :: nat
  mSpec :: SPNSpec
  mSpnData :: spn_data

definition SPNNumeric ::
  "nat \<Rightarrow> u32 \<Rightarrow> string \<Rightarrow> nat \<Rightarrow> double \<Rightarrow> double \<Rightarrow> u8 \<Rightarrow> string \<Rightarrow> SPN res" where
  "SPNNumeric ref number name offset formatGain formatOffset byteSize units =
     res_bind (SPNSpec_ctor number name offset) (\<lambda>spec.
     res_bind (SPNNumericSpec_ctor formatGain formatOffset byteSize units) (\<lambda>nspec.
       Inr \<lparr>mSpecId = ref, mSpec = spec, mSpnData = SpnNumeric nspec 0xFFFFFFFF\<rparr>))"

definition SPNStatus ::
  "nat \<Rightarrow> u32 \<Rightarrow> string \<Rightarrow> nat \<Rightarrow> u8 \<Rightarrow> u8 \<Rightarrow> (u8, string) smap \<Rightarrow> SPN res" where
  "SPNStatus ref number name offset bitOffset bitSize valueToDesc =
     res_bind (SPNSpec_ctor number name offset) (\<lambda>spec.
     res_bind (SPNStatusSpec_ctor bitOffset bitSize valueToDesc) (\<lambda>sspec.
       Inr \<lparr>mSpecId = ref, mSpec = spec,
            mSpnData = SpnStatus sspec (drop_bit (8 - unat (mBitSize sspec)) 0xFF)\<rparr>))"

definition SPNString :: "nat \<Rightarrow> u32 \<Rightarrow> string \<Rightarrow> SPN res" where
  "SPNString ref number name =
     res_bind (SPNSpec_ctor number name 0) (\<lambda>spec.
       Inr \<lparr>mSpecId = ref, mSpec = spec, mSpnData = SpnString 0 []\<rparr>)"

fun data_type :: "spn_data \<Rightarrow> EType" where
  "data_type (SpnNumeric _ _) = SPN_NUMERIC"
| "data_type (SpnStatus _ _) = SPN_STATUS"
| "data_type (SpnString _ _) = SPN_STRING"

definition getType :: "SPN \<Rightarrow> EType" where
  "getType s = data_type (mSpnData s)"

definition getSpnNumber :: "SPN \<Rightarrow> u32" where
  "getSpnNumber s = mSPNNumber (mSpec s)"

definition getOffset :: "SPN \<Rightarrow> nat" where
  "getOffset s = (case mSpnData s of SpnString off v \<Rightarrow> off | _ \<Rightarrow> mSpecOffset (mSpec s))"

definition setOffset :: "nat \<Rightarrow> SPN \<Rightarrow> SPN" where
  "setOffset offset s =
     (case mSpnData s of SpnString off v \<Rightarrow> s\<lparr>mSpnData := SpnString offset v\<rparr> | _ \<Rightarrow> s)"

definition getByteSize :: "SPN \<Rightarrow> u8" where
  "getByteSize s =
     (case mSpnData s of
        SpnNumeric spec v \<Rightarrow> mByteSize spec
      | SpnStatus spec v \<Rightarrow> 1
      | SpnString off v \<Rightarrow> of_nat (length v + 1))"

section \<open>Numeric\<close>

definition num_decode :: "SPNNumericSpec \<Rightarrow> u32 \<Rightarrow> bytes \<Rightarrow> u32 outcome" where
  "num_decode spec v buffer =
     (if unat (mByteSize spec) > length buffer \<or> mByteSize spec > 4
      then Inl (J1939DecodeException ''[SPNNumeric::decode] Spn length is bigger than expected'', v)
      else Inr (fold (\<lambda>i v. v OR push_bit (i * 8) (ucast (buffer ! i)))
                  [0 ..< unat (mByteSize spec)] 0))"

definition num_encode :: "SPNNumericSpec \<Rightarrow> u32 \<Rightarrow> bytes \<Rightarrow> bytes res" where
  "num_encode spec v buffer =
     (if unat (mByteSize spec) > length buffer \<or> mByteSize spec > 4
      then Inl (J1939EncodeException ''[SPNNumeric::encode] Spn length is bigger than expected'')
      else poke 0 (map (\<lambda>i. ucast (drop_bit (i * 8) v AND 0xFF)) [0 ..< unat (mByteSize spec)])
             buffer)"

definition getFormattedValue :: "SPNNumericSpec \<Rightarrow> u32 \<Rightarrow> double" where
  "getFormattedValue spec v =
     d_add (d_mul (d_of_nat (unat v)) (mFormatGain spec)) (mFormatOffset spec)"

definition setFormattedValue :: "SPNNumericSpec \<Rightarrow> u32 \<Rightarrow> double \<Rightarrow> bool \<times> u32" where
  "setFormattedValue spec v value =
     (let aux = d_div (d_sub value (mFormatOffset spec)) (mFormatGain spec);
          threshold = push_bit (unat (mByteSize spec) * 8) 1 :: u64
      in if d_le (Fin 0) aux \<and> d_lt aux (d_of_nat (unat threshold))
         then (True, word_of_int (d_trunc aux))
         else (False, v))"

section \<open>Status\<close>

definition status_format_bad :: "SPNStatusSpec \<Rightarrow> bool" where
  "status_format_bad spec \<longleftrightarrow>
     mBitOffset spec > 7 \<or> mBitSize spec > 8
     \<or> unat (mBitOffset spec) + unat (mBitSize spec) > 8"

definition status_decode :: "SPNStatusSpec \<Rightarrow> u8 \<Rightarrow> bytes \<Rightarrow> u8 outcome" where
  "status_decode spec v buffer =
     (if status_format_bad spec
      then Inl (J1939DecodeException
                  ''[SPNStatus::decode] Format incorrect to decode properly this spn'', v)
      else if buffer = [] then Inl (UndefinedBehaviour, v)
      else Inr (drop_bit (unat (mBitOffset spec)) (buffer ! 0)
                AND drop_bit (8 - unat (mBitSize spec)) 0xFF))"

definition status_encode :: "SPNStatusSpec \<Rightarrow> u8 \<Rightarrow> bytes \<Rightarrow> bytes res" where
  "status_encode spec v buffer =
     (if status_format_bad spec
      then Inl (J1939EncodeException
                  ''[SPNStatus::encode] Format incorrect to encode properly this spn'')
      else
        let mask = push_bit (unat (mBitOffset spec)) (drop_bit (8 - unat (mBitSize spec)) 0xFF);
            value = push_bit (unat (mBitOffset spec)) v
        in if value AND mask \<noteq> value
           then Inl (J1939EncodeException
                       ''[SPNStatus::encode] Value to encode is bigger than expected'')
           else if buffer = [] then Inl UndefinedBehaviour
           else poke 0 [(buffer ! 0 AND NOT mask) OR value] buffer)"

definition status_setValue :: "SPNStatusSpec \<Rightarrow> u8 \<Rightarrow> u8 \<Rightarrow> bool \<times> u8" where
  "status_setValue spec v value =
     (if unat value < 2 ^ unat (mBitSize spec) then (True, value) else (False, v))"

section \<open>String\<close>

abbreviation (input) STR_TERMINATOR :: u8 where "STR_TERMINATOR \<equiv> 0x2A"

definition is_ascii :: "u8 \<Rightarrow> bool" where
  "is_ascii c \<longleftrightarrow> c AND 0x80 = 0"

definition string_setValue :: "bytes \<Rightarrow> bytes \<Rightarrow> bytes" where
  "string_setValue v value = (if list_all is_ascii value then value else v)"

definition string_decode :: "bytes \<Rightarrow> bytes \<Rightarrow> bytes outcome" where
  "string_decode v buffer =
     (if STR_TERMINATOR \<notin> set buffer
      then Inl (J1939DecodeException ''[SPNString::decode] * terminator not found'', [])
      else
        let str = takeWhile (\<lambda>c. c \<noteq> STR_TERMINATOR) buffer
        in if \<not> list_all is_ascii str
           then Inl (J1939DecodeException ''[SPNString::decode] String is not ASCII'', [])
           else Inr str)"

text \<open>\<open>strcpy\<close> copies up to the first NUL and writes one; the terminator goes at the full size.\<close>

definition string_encode :: "bytes \<Rightarrow> bytes \<Rightarrow> bytes res" where
  "string_encode v buffer =
     (if length v \<ge> length buffer
      then Inl (J1939EncodeException
                  ''[SPNString::encode] Not enough length to encode the string'')
      else res_bind (poke 0 (takeWhile (\<lambda>c. c \<noteq> 0) v @ [0]) buffer)
             (poke (length v) [STR_TERMINATOR]))"

section \<open>Virtual calls\<close>

text \<open>\<open>buffer\<close> starts at the SPN and has the length passed with it.\<close>

definition spn_decode :: "SPN \<Rightarrow> bytes \<Rightarrow> SPN outcome" where
  "spn_decode s buffer =
     (case mSpnData s of
        SpnNumeric spec v \<Rightarrow>
          out_map (\<lambda>v'. s\<lparr>mSpnData := SpnNumeric spec v'\<rparr>) (num_decode spec v buffer)
      | SpnStatus spec v \<Rightarrow>
          out_map (\<lambda>v'. s\<lparr>mSpnData := SpnStatus spec v'\<rparr>) (status_decode spec v buffer)
      | SpnString off v \<Rightarrow>
          out_map (\<lambda>v'. s\<lparr>mSpnData := SpnString off v'\<rparr>) (string_decode v buffer))"

definition spn_encode :: "SPN \<Rightarrow> bytes \<Rightarrow> bytes res" where
  "spn_encode s buffer =
     (case mSpnData s of
        SpnNumeric spec v \<Rightarrow> num_encode spec v buffer
      | SpnStatus spec v \<Rightarrow> status_encode spec v buffer
      | SpnString off v \<Rightarrow> string_encode v buffer)"

text \<open>\<open>copy\<close> casts the other SPN to its own class without a check.\<close>

definition spn_copy :: "SPN \<Rightarrow> SPN \<Rightarrow> SPN outcome" where
  "spn_copy s other =
     (case (mSpnData s, mSpnData other) of
        (SpnNumeric spec v, SpnNumeric spec' v') \<Rightarrow> Inr (s\<lparr>mSpnData := SpnNumeric spec v'\<rparr>)
      | (SpnStatus spec v, SpnStatus spec' v') \<Rightarrow> Inr (s\<lparr>mSpnData := SpnStatus spec v'\<rparr>)
      | (SpnString off v, SpnString off' v') \<Rightarrow> Inr (s\<lparr>mSpnData := SpnString off v'\<rparr>)
      | _ \<Rightarrow> Inl (UndefinedBehaviour, s))"

section \<open>What the constructors establish\<close>

definition spn_wf :: "SPN \<Rightarrow> bool" where
  "spn_wf s \<longleftrightarrow> mSPNNumber (mSpec s) < 2 ^ 19 \<and>
     (case mSpnData s of
        SpnNumeric spec v \<Rightarrow> 0 < mByteSize spec \<and> mByteSize spec \<le> 4
      | SpnStatus spec v \<Rightarrow> 0 < mBitSize spec \<and> unat (mBitOffset spec) + unat (mBitSize spec) \<le> 8
      | SpnString off v \<Rightarrow> True)"

lemma SPNSpec_ctor_Inr: "SPNSpec_ctor number name off = Inr spec \<longleftrightarrow>
    number < 2 ^ 19 \<and> spec = \<lparr>mSPNNumber = number, mSpecName = name, mSpecOffset = off\<rparr>"
  by (auto simp: SPNSpec_ctor_def push_bit_eq_mult)

lemma SPNNumeric_wf: "SPNNumeric ref number name off gain foff n units = Inr s \<Longrightarrow> spn_wf s"
  by (auto simp: SPNNumeric_def res_bind_Inr_iff SPNSpec_ctor_Inr SPNNumericSpec_ctor_def spn_wf_def
      split: if_splits)

lemma SPNStatus_wf: "SPNStatus ref number name off boff bsize descs = Inr s \<Longrightarrow> spn_wf s"
  by (auto simp: SPNStatus_def res_bind_Inr_iff SPNSpec_ctor_Inr SPNStatusSpec_ctor_def spn_wf_def
      split: if_splits)

lemma SPNString_wf: "SPNString ref number name = Inr s \<Longrightarrow> spn_wf s"
  by (auto simp: SPNString_def res_bind_Inr_iff SPNSpec_ctor_Inr spn_wf_def)

text \<open>\<open>spn_valid\<close>: a value that fits its specification. A string is ASCII, holds neither the
  terminator nor a NUL, and is short enough for its \<open>u8\<close> size.\<close>

definition spn_valid :: "SPN \<Rightarrow> bool" where
  "spn_valid s \<longleftrightarrow> spn_wf s \<and>
     (case mSpnData s of
        SpnNumeric spec v \<Rightarrow> unat v < 2 ^ (8 * unat (mByteSize spec))
      | SpnStatus spec v \<Rightarrow> unat v < 2 ^ unat (mBitSize spec)
      | SpnString off v \<Rightarrow> list_all is_ascii v \<and> 0 \<notin> set v \<and> STR_TERMINATOR \<notin> set v
                           \<and> length v < 255)"

text \<open>\<open>same_spn s0 s\<close>: the two SPNs are made alike and may differ in value only.\<close>

fun same_data :: "spn_data \<Rightarrow> spn_data \<Rightarrow> bool" where
  "same_data (SpnNumeric spec v) (SpnNumeric spec' v') = (spec = spec')"
| "same_data (SpnStatus spec v) (SpnStatus spec' v') = (spec = spec')"
| "same_data (SpnString off v) (SpnString off' v') = True"
| "same_data _ _ = False"

definition same_spn :: "SPN \<Rightarrow> SPN \<Rightarrow> bool" where
  "same_spn s0 s \<longleftrightarrow> mSpecId s0 = mSpecId s \<and> mSpec s0 = mSpec s
     \<and> same_data (mSpnData s0) (mSpnData s)"

section \<open>Numeric values\<close>

lemma bit_or_fold:
  "bit (fold (\<lambda>i v. v OR push_bit (i * 8) (ucast (f i :: u8))) [0 ..< n] (0 :: u32)) k \<longleftrightarrow>
     k < 32 \<and> k < 8 * n \<and> bit (f (k div 8)) (k mod 8)"
proof (induction n)
  case (Suc n)
  show ?case
  proof (cases "k < 8 * n")
    case True
    then have "bit (push_bit (n * 8) (ucast (f n)) :: u32) k = False"
      by (simp add: bit_simps)
    with True Suc.IH show ?thesis by (simp add: bit_or_iff)
  next
    case False
    define d where "d = k - 8 * n"
    have k: "k = 8 * n + d" using False by (simp add: d_def)
    have "bit (push_bit (n * 8) (ucast (f n)) :: u32) k \<longleftrightarrow> k < 32 \<and> d < 8 \<and> bit (f n) d"
      by (auto simp: bit_simps k mult.commute dest: word_bit_width)
    moreover have "d < 8 \<Longrightarrow> k div 8 = n \<and> k mod 8 = d" by (simp add: k)
    ultimately show ?thesis
      using False Suc.IH by (auto simp: bit_or_iff k)
  qed
qed simp

lemma bit_num_byte:
  "bit (ucast (drop_bit (i * 8) (v :: u32) AND 0xFF) :: u8) k \<longleftrightarrow> k < 8 \<and> bit v (i * 8 + k)"
  by (auto simp: bit_simps mask_eqs dest: word_bit_width)

text \<open>Decoding the bytes of a value gives its low bytes.\<close>

lemma num_decode_bytes:
  assumes "\<And>i. i < n \<Longrightarrow> buffer ! i = ucast (drop_bit (i * 8) v AND 0xFF)"
  shows "fold (\<lambda>i v. v OR push_bit (i * 8) (ucast (buffer ! i :: u8))) [0 ..< n] 0
           = (v :: u32) AND mask (8 * n)"
proof (rule bit_word_eqI)
  fix k :: nat assume "k < LENGTH(32)"
  have "k < 8 * n \<Longrightarrow> bit (buffer ! (k div 8)) (k mod 8) = bit v k"
    using assms [of "k div 8"]
    by (simp only: bit_num_byte less_mult_imp_div_less mult.commute [of 8 n])
       (simp add: mult.commute [of _ 8])
  then show "bit (fold (\<lambda>i v. v OR push_bit (i * 8) (ucast (buffer ! i :: u8))) [0 ..< n] (0 :: u32)) k
      = bit (v AND mask (8 * n)) k"
    using \<open>k < LENGTH(32)\<close> unfolding bit_or_fold [of "\<lambda>i. buffer ! i"] by (auto simp: bit_simps)
qed

lemma unat_AND_mask: "unat (v :: 'a::len word) < 2 ^ k \<Longrightarrow> v AND mask k = v"
  by (simp add: word_unat_eq_iff take_bit_nat_eq_self unsigned_take_bit_eq flip: take_bit_eq_mask)

section \<open>Status values\<close>

lemma bit_status_mask: "bit (drop_bit (8 - n) (0xFF :: u8)) k \<longleftrightarrow> k < min n 8"
proof -
  have m: "(0xFF :: u8) = mask 8" by (simp add: mask_eq_exp_minus_1)
  show ?thesis unfolding m bit_drop_bit_eq o_def bit_mask_iff by auto
qed

lemma bit_below: "unat (v :: u8) < 2 ^ n \<Longrightarrow> bit v k \<Longrightarrow> k < n"
  using unat_AND_mask [of v n] by (metis bit_and_iff bit_mask_iff)

section \<open>Bytes that carry an SPN\<close>

text \<open>
  \<open>carries s buffer\<close>: the bytes (from the SPN's offset on) hold the value of \<open>s\<close>. Encoding
  establishes it, decoding an SPN made like \<open>s\<close> reads the value back, and writes elsewhere
  leave it alone.
\<close>

definition carries :: "SPN \<Rightarrow> bytes \<Rightarrow> bool" where
  "carries s buffer \<longleftrightarrow>
     (case mSpnData s of
        SpnNumeric spec v \<Rightarrow> unat (mByteSize spec) \<le> length buffer \<and>
          (\<forall>i < unat (mByteSize spec). buffer ! i = ucast (drop_bit (i * 8) v AND 0xFF))
      | SpnStatus spec v \<Rightarrow> buffer \<noteq> [] \<and>
          (\<forall>k < unat (mBitSize spec). bit (buffer ! 0) (unat (mBitOffset spec) + k) = bit v k)
      | SpnString off v \<Rightarrow> take (length v + 1) buffer = v @ [STR_TERMINATOR])"

lemma status_format_ok:
  assumes "0 < mBitSize spec" and "unat (mBitOffset spec) + unat (mBitSize spec) \<le> 8"
  shows "\<not> status_format_bad spec"
proof -
  have "0 < unat (mBitSize spec)" using assms(1) by (simp add: unat_gt_0)
  then show ?thesis
    using assms(2) by (auto simp: status_format_bad_def word_less_nat_alt)
qed

lemma status_value_mask:
  assumes "unat (v :: u8) < 2 ^ n"
  shows "push_bit o' v AND push_bit o' (drop_bit (8 - n) 0xFF) = push_bit o' v"
  using bit_below [OF assms]
  by (intro bit_word_eqI)
     (auto simp: bit_and_iff bit_push_bit_iff bit_status_mask dest: word_bit_width)

lemma spn_encode_numeric:
  assumes "spn_wf s" and "mSpnData s = SpnNumeric spec v" and "unat (mByteSize spec) \<le> length buf"
  shows "spn_encode s buf =
    Inr (map (\<lambda>i. ucast (drop_bit (i * 8) v AND 0xFF)) [0 ..< unat (mByteSize spec)]
         @ drop (unat (mByteSize spec)) buf)"
proof -
  have "\<not> mByteSize spec > 4" using assms(1,2) by (simp add: spn_wf_def not_less)
  with assms show ?thesis by (simp add: spn_encode_def num_encode_def poke_def)
qed

lemma spn_encode_status:
  assumes "spn_valid s" and "mSpnData s = SpnStatus spec v" and "buf \<noteq> []"
  shows "spn_encode s buf =
    Inr (((hd buf AND NOT (push_bit (unat (mBitOffset spec)) (drop_bit (8 - unat (mBitSize spec)) 0xFF)))
          OR push_bit (unat (mBitOffset spec)) v) # tl buf)"
proof -
  have "unat v < 2 ^ unat (mBitSize spec)" and "\<not> status_format_bad spec"
    using assms(1,2) status_format_ok [of spec] by (simp_all add: spn_valid_def spn_wf_def)
  with assms(2,3) status_value_mask [of v] show ?thesis
    by (cases buf) (simp_all add: spn_encode_def status_encode_def Let_def poke_def)
qed

lemma takeWhile_no_nul: "0 \<notin> set v \<Longrightarrow> takeWhile (\<lambda>c. c \<noteq> 0) v = v" for v :: bytes
  by (induction v) auto

lemma spn_encode_string:
  assumes "spn_valid s" and "mSpnData s = SpnString off v" and "length v < length buf"
  shows "spn_encode s buf = Inr (v @ [STR_TERMINATOR] @ drop (length v + 1) buf)"
  using assms
  by (simp add: spn_encode_def string_encode_def spn_valid_def takeWhile_no_nul poke_def)

text \<open>How many bytes of room the SPN needs.\<close>

definition spn_size :: "SPN \<Rightarrow> nat" where
  "spn_size s =
     (case mSpnData s of
        SpnNumeric spec v \<Rightarrow> unat (mByteSize spec)
      | SpnStatus spec v \<Rightarrow> 1
      | SpnString off v \<Rightarrow> length v + 1)"

lemma getByteSize_size: "spn_valid s \<Longrightarrow> unat (getByteSize s) = spn_size s"
  by (auto simp: getByteSize_def spn_size_def spn_valid_def unat_of_nat simp flip: of_nat_Suc
      split: spn_data.splits)

lemma spn_encode_ok:
  assumes "spn_valid s" and "spn_size s \<le> length buf"
  shows "\<exists>bs. spn_encode s buf = Inr bs \<and> length bs = length buf"
proof (cases "mSpnData s")
  case (SpnNumeric spec v)
  with assms have "spn_wf s" and "unat (mByteSize spec) \<le> length buf"
    by (simp_all add: spn_valid_def spn_size_def)
  with spn_encode_numeric [OF _ SpnNumeric] show ?thesis by simp
next
  case (SpnStatus spec v)
  with assms have "buf \<noteq> []" by (auto simp: spn_size_def)
  then show ?thesis
    using spn_encode_status [OF assms(1) SpnStatus] by (cases buf) auto
next
  case (SpnString off v)
  with assms have "length v < length buf" by (simp add: spn_size_def)
  then show ?thesis using spn_encode_string [OF assms(1) SpnString] by simp
qed

lemma spn_encode_carries:
  assumes "spn_valid s" and "spn_size s \<le> length buf" and "spn_encode s buf = Inr bs"
  shows "carries s bs"
proof (cases "mSpnData s")
  case (SpnNumeric spec v)
  with assms(1,2) have "spn_wf s" and "unat (mByteSize spec) \<le> length buf"
    by (simp_all add: spn_valid_def spn_size_def)
  with spn_encode_numeric [OF _ SpnNumeric] assms(3) show ?thesis
    by (auto simp: carries_def SpnNumeric nth_append)
next
  case (SpnStatus spec v)
  with assms(2) obtain b bf where buf: "buf = b # bf" by (cases buf) (auto simp: spn_size_def)
  have lt: "unat (mBitOffset spec) + unat (mBitSize spec) \<le> 8"
    and v: "unat v < 2 ^ unat (mBitSize spec)"
    using assms(1) SpnStatus by (auto simp: spn_valid_def spn_wf_def)
  show ?thesis
    using assms(3) spn_encode_status [OF assms(1) SpnStatus, of buf] lt
    by (auto simp: carries_def SpnStatus buf bit_or_iff bit_and_iff bit_not_iff bit_push_bit_iff
        bit_status_mask)
next
  case (SpnString off v)
  with assms(2) have "length v < length buf" by (simp add: spn_size_def)
  with spn_encode_string [OF assms(1) SpnString] assms(3) show ?thesis
    by (auto simp: carries_def SpnString)
qed

lemma SPN_eqI:
  "mSpecId s = mSpecId t \<Longrightarrow> mSpec s = mSpec t \<Longrightarrow> mSpnData s = mSpnData t \<Longrightarrow> s = (t :: SPN)"
  by simp

lemma same_spn_update:
  "same_spn s0 s \<Longrightarrow> s0\<lparr>mSpnData := mSpnData s\<rparr> = s"
  by (simp add: same_spn_def)

lemma num_decode_carries:
  assumes "spn_valid s" and "mSpnData s = SpnNumeric spec v" and "carries s buf"
  shows "num_decode spec v0 buf = Inr v"
proof -
  have le: "unat (mByteSize spec) \<le> length buf" "\<not> mByteSize spec > 4"
    and v: "unat v < 2 ^ (8 * unat (mByteSize spec))"
    and bytes: "\<And>i. i < unat (mByteSize spec) \<Longrightarrow> buf ! i = ucast (drop_bit (i * 8) v AND 0xFF)"
    using assms by (auto simp: carries_def spn_valid_def spn_wf_def not_less)
  show ?thesis
    using le num_decode_bytes [OF bytes] unat_AND_mask [OF v]
    by (simp add: num_decode_def not_less)
qed

lemma status_decode_carries:
  assumes "spn_valid s" and "mSpnData s = SpnStatus spec v" and "carries s buf"
  shows "status_decode spec v0 buf = Inr v"
proof -
  let ?o = "unat (mBitOffset spec)" and ?n = "unat (mBitSize spec)"
  have fmt: "\<not> status_format_bad spec" and v: "unat v < 2 ^ ?n" and ne: "buf \<noteq> []" and n8: "?n \<le> 8"
    and bits: "\<And>k. k < ?n \<Longrightarrow> bit (buf ! 0) (?o + k) = bit v k"
    using assms status_format_ok [of spec] by (auto simp: carries_def spn_valid_def spn_wf_def)
  have "drop_bit ?o (buf ! 0) AND drop_bit (8 - ?n) 0xFF = v"
  proof (rule bit_word_eqI)
    fix k
    show "bit (drop_bit ?o (buf ! 0) AND drop_bit (8 - ?n) 0xFF) k = bit v k"
      unfolding bit_and_iff bit_status_mask
      using bits [of k] bit_below [OF v] n8 by (auto simp: bit_drop_bit_eq)
  qed
  with fmt ne show ?thesis by (simp add: status_decode_def)
qed

lemma takeWhile_until: "t \<notin> set v \<Longrightarrow> takeWhile (\<lambda>c. c \<noteq> t) (v @ t # r) = v"
  by (induction v) auto

lemma takeWhile_terminated:
  assumes "take (length v + 1) buf = v @ [t]" and "t \<notin> set v"
  shows "takeWhile (\<lambda>c. c \<noteq> t) buf = v" and "t \<in> set buf"
proof -
  have buf: "buf = (v @ [t]) @ drop (length v + 1) buf"
    using append_take_drop_id [of "length v + 1" buf] by (simp only: assms(1))
  show "takeWhile (\<lambda>c. c \<noteq> t) buf = v"
    by (subst buf) (use assms(2) in \<open>simp add: takeWhile_until\<close>)
  show "t \<in> set buf" by (subst buf) simp
qed

lemma string_decode_carries:
  assumes "spn_valid s" and "mSpnData s = SpnString off v" and "carries s buf"
  shows "string_decode v0 buf = Inr v"
proof -
  have c: "take (length v + 1) buf = v @ [STR_TERMINATOR]" and t: "STR_TERMINATOR \<notin> set v"
    and a: "list_all is_ascii v"
    using assms by (simp_all add: carries_def spn_valid_def)
  show ?thesis
    using takeWhile_terminated [OF c t] a by (simp add: string_decode_def Let_def)
qed

lemma spn_decode_carries:
  assumes "spn_valid s" and "same_spn s0 s" and "carries s buf"
  shows "spn_decode s0 buf = Inr (setOffset (getOffset s0) s)"
proof (cases "mSpnData s")
  case (SpnNumeric spec v)
  moreover from this assms(2) obtain v0 where "mSpnData s0 = SpnNumeric spec v0"
    by (cases "mSpnData s0") (auto simp: same_spn_def)
  ultimately show ?thesis
    using num_decode_carries [OF assms(1) SpnNumeric assms(3)] same_spn_update [OF assms(2)]
    by (simp add: spn_decode_def setOffset_def)
next
  case (SpnStatus spec v)
  moreover from this assms(2) obtain v0 where "mSpnData s0 = SpnStatus spec v0"
    by (cases "mSpnData s0") (auto simp: same_spn_def)
  ultimately show ?thesis
    using status_decode_carries [OF assms(1) SpnStatus assms(3)] same_spn_update [OF assms(2)]
    by (simp add: spn_decode_def setOffset_def)
next
  case (SpnString off v)
  moreover from this assms(2) obtain off0 v0 where "mSpnData s0 = SpnString off0 v0"
    by (cases "mSpnData s0") (auto simp: same_spn_def)
  ultimately show ?thesis
    using string_decode_carries [OF assms(1) SpnString assms(3)] assms(2)
    by (simp add: spn_decode_def setOffset_def getOffset_def same_spn_def)
qed

text \<open>An encoding writes only the bytes of the SPN, a status only its bits of the byte.\<close>

lemma spn_encode_other_byte:
  assumes "spn_valid s" and "spn_size s \<le> length buf" and "spn_encode s buf = Inr bs"
    and "spn_size s \<le> i" and "i < length buf"
  shows "bs ! i = buf ! i"
proof (cases "mSpnData s")
  case (SpnNumeric spec v)
  with assms(1,2) have "spn_wf s" and "unat (mByteSize spec) \<le> length buf"
    by (simp_all add: spn_valid_def spn_size_def)
  with spn_encode_numeric [OF _ SpnNumeric] assms(3,4,5) SpnNumeric show ?thesis
    by (auto simp: nth_append spn_size_def)
next
  case (SpnStatus spec v)
  with assms(2) obtain b bf where buf: "buf = b # bf" by (cases buf) (auto simp: spn_size_def)
  show ?thesis
    using assms(3,4) spn_encode_status [OF assms(1) SpnStatus, of buf] SpnStatus
    by (cases i) (auto simp: buf spn_size_def)
next
  case (SpnString off v)
  with assms(2) have "length v < length buf" by (simp add: spn_size_def)
  with spn_encode_string [OF assms(1) SpnString] assms(3,4,5) SpnString show ?thesis
    by (auto simp: nth_append spn_size_def not_less)
qed

lemma status_encode_other_bit:
  assumes "spn_valid s" and "mSpnData s = SpnStatus spec v" and "buf \<noteq> []"
    and "spn_encode s buf = Inr bs"
    and "k < unat (mBitOffset spec) \<or> unat (mBitOffset spec) + unat (mBitSize spec) \<le> k" and "k < 8"
  shows "bit (bs ! 0) k = bit (buf ! 0) k"
proof -
  have v: "unat v < 2 ^ unat (mBitSize spec)"
    using assms(1,2) by (simp add: spn_valid_def)
  show ?thesis
    using assms(3-6) spn_encode_status [OF assms(1,2,3)] bit_below [OF v, of "k - unat (mBitOffset spec)"]
    by (cases buf)
       (auto simp: bit_or_iff bit_and_iff bit_not_iff bit_push_bit_iff bit_status_mask)
qed

section \<open>Formatted values\<close>

lemma d_threshold:
  assumes "n \<le> 4"
  shows "d_of_nat (unat (push_bit (n * 8) 1 :: u64)) = Fin (2 ^ (8 * n))"
proof -
  have "n \<in> {0, 1, 2, 3, 4}" using assms by auto
  then have "unat (push_bit (n * 8) 1 :: u64) = 2 ^ (8 * n)"
    by (elim insertE) (simp_all add: push_bit_eq_mult)
  moreover have "(2::nat) ^ (8 * n) < 2 ^ 53"
    using assms by (intro power_strict_increasing) auto
  ultimately show ?thesis using d_of_nat_exact by simp
qed

lemma set_value_range:
  assumes "d_le (Fin 0) aux" and "d_lt aux (Fin (2 ^ k))"
  shows "0 \<le> d_trunc aux" and "d_trunc aux < 2 ^ k"
proof -
  have x: "0 \<le> d_val aux \<and> d_val aux < 2 ^ k"
    using assms by (cases aux) (auto simp: d_le_def d_eq_def d_is_zero_def)
  then show "0 \<le> d_trunc aux" by (simp add: d_trunc_def)
  have "of_int \<lfloor>d_val aux\<rfloor> \<le> d_val aux" by simp
  also have "d_val aux < of_int (2 ^ k)" using x by simp
  finally have "\<lfloor>d_val aux\<rfloor> < 2 ^ k" by (simp only: of_int_less_iff)
  then show "d_trunc aux < 2 ^ k" using x by (simp add: d_trunc_def)
qed

lemma d_sub_int:
  "\<bar>m - n\<bar> < 2 ^ 53 \<Longrightarrow> d_sub (Fin (of_int m)) (Fin (of_int n)) = Fin (of_int (m - n))"
  using d_round_int [of "m - n"] by (cases "n = 0") (simp_all add: d_sub_def)

lemma d_add_signed:
  "\<bar>m + n\<bar> < 2 ^ 53 \<Longrightarrow>
     d_add (d_signed s (Fin (of_int m))) (Fin (of_int n)) = Fin (of_int (m + n))"
  using d_round_int [of "m + n"] by (auto simp: d_signed_def d_zero_def)

text \<open>An integral gain and offset and a value below \<open>2\<^sup>5\<^sup>3\<close>: the formatting is exact.\<close>

lemma getFormattedValue_int:
  assumes "mFormatGain spec = Fin (of_int g)" and "mFormatOffset spec = Fin (of_int b)"
    and "\<bar>int (unat v) * g\<bar> < 2 ^ 53" and "\<bar>int (unat v) * g + b\<bar> < 2 ^ 53"
  shows "getFormattedValue spec v = Fin (of_int (int (unat v) * g + b))"
proof -
  have "unat v < 2 ^ 32" using unsigned_less [of v] by simp
  then have "unat v < 2 ^ 53" by simp
  then have "d_of_nat (unat v) = Fin (of_int (int (unat v)))"
    by (simp only: d_of_nat_exact of_int_of_nat_eq)
  then show ?thesis
    by (simp only: getFormattedValue_def assms(1,2) d_mul_int [OF assms(3)]
        d_add_signed [OF assms(4)])
qed

lemma d_div_int:
  assumes "g \<noteq> 0" and "\<bar>n\<bar> < 2 ^ 53"
  shows "d_div (Fin (of_int (n * g))) (Fin (of_int g))
           = d_signed ((n * g < 0) \<noteq> (g < 0)) (Fin (of_int n))"
proof -
  have neg: "d_negative (Fin (of_int m)) = (m < 0)" for m by simp
  have q: "d_val (Fin (of_int (n * g))) / d_val (Fin (of_int g)) = of_int n"
    using assms(1) by simp
  have "\<not> d_is_zero (Fin (of_int g))" using assms(1) by (simp add: d_is_zero_def)
  then show ?thesis
    unfolding d_div_def Let_def neg q d_round_int [OF assms(2)]
    by (simp only: d_is_inf_def double.distinct double.simps if_False simp_thms)
qed

lemma set_formatted_quotient:
  assumes "0 \<le> n" and "n < 2 ^ k" and "s \<longrightarrow> n = 0"
  shows "d_le (Fin 0) (d_signed s (Fin (of_int n))) \<and> d_lt (d_signed s (Fin (of_int n))) (Fin (2 ^ k))
    \<and> d_trunc (d_signed s (Fin (of_int n))) = n"
proof -
  have "of_int n < (of_int (2 ^ k) :: rat)" using assms(2) by (simp only: of_int_less_iff)
  with assms(1,3) show ?thesis
    by (auto simp: d_le_def d_eq_def d_is_zero_def d_trunc_def d_signed_def d_zero_def)
qed

lemma setFormattedValue_int:
  assumes "mFormatGain spec = Fin (of_int g)" and "mFormatOffset spec = Fin (of_int b)"
    and "g \<noteq> 0" and "\<bar>int (unat v) * g\<bar> < 2 ^ 53" and "unat v < 2 ^ (8 * unat (mByteSize spec))"
    and "mByteSize spec \<le> 4"
  shows "setFormattedValue spec v0 (Fin (of_int (int (unat v) * g + b))) = (True, v)"
proof -
  define n where "n = int (unat v)"
  have n4: "unat (mByteSize spec) \<le> 4" using assms(6) by (simp add: word_le_nat_alt)
  have n0: "0 \<le> n" and n32: "\<bar>n\<bar> < 2 ^ 53" and w: "word_of_int n = v"
    using uint_lt2p [of v] by (simp_all add: n_def)
  have nk: "n < 2 ^ (8 * unat (mByteSize spec))"
    using assms(5) by (metis n_def of_nat_less_iff of_nat_numeral of_nat_power)
  have "(n * g < 0) \<noteq> (g < 0) \<longrightarrow> n = 0"
    using n0 assms(3) by (auto simp: mult_less_0_iff)
  note quot = set_formatted_quotient [OF n0 nk this]
  have sub: "d_sub (Fin (of_int (n * g + b))) (Fin (of_int b)) = Fin (of_int (n * g))"
    using d_sub_int [of "n * g + b" b] assms(4) by (simp add: n_def)
  show ?thesis
    unfolding setFormattedValue_def Let_def assms(1,2) n_def [symmetric] sub
      d_div_int [OF assms(3) n32] d_threshold [OF n4]
    using quot w by simp
qed

section \<open>Properties\<close>

text \<open>\<open>setFormattedValue\<close> accepts a value only when the stored integer fits the SPN's bytes, so that
  encoding and decoding it loses nothing; otherwise the value stays as it was. This holds for every
  gain and offset, infinities and NaN included.\<close>

theorem setFormattedValue_fits:
  assumes "mByteSize spec \<le> 4" and "setFormattedValue spec v x = (ok, v')"
  shows "if ok then unat v' < 2 ^ (8 * unat (mByteSize spec)) else v' = v"
proof (cases ok)
  case True
  let ?aux = "d_div (d_sub x (mFormatOffset spec)) (mFormatGain spec)"
  have n4: "unat (mByteSize spec) \<le> 4" using assms(1) by (simp add: word_le_nat_alt)
  have le: "d_le (Fin 0) ?aux" and lt: "d_lt ?aux (Fin (2 ^ (8 * unat (mByteSize spec))))"
    and v': "v' = word_of_int (d_trunc ?aux)"
    using assms(2) True d_threshold [OF n4]
    by (auto simp: setFormattedValue_def Let_def split: if_splits)
  from set_value_range [OF le lt] have r: "0 \<le> d_trunc ?aux"
    "d_trunc ?aux < 2 ^ (8 * unat (mByteSize spec))" by simp_all
  have "(2::int) ^ (8 * unat (mByteSize spec)) \<le> 2 ^ 32"
    using n4 by (intro power_increasing) auto
  then have "uint v' = d_trunc ?aux" using r by (simp add: v' uint_word_of_int)
  then have "int (unat v') < int (2 ^ (8 * unat (mByteSize spec)))" using r(2) by simp
  with True show ?thesis by (simp only: of_nat_less_iff if_True)
next
  case False
  with assms(2) show ?thesis by (auto simp: setFormattedValue_def Let_def split: if_splits)
qed

definition engine_temperature :: SPNNumericSpec where
  "engine_temperature = \<lparr>mFormatGain = Fin (of_int 1), mFormatOffset = Fin (of_int (- 40)),
     mByteSize = 1, mUnits = ''deg C''\<rparr>"

lemma engine_temperature_set:
  "setFormattedValue engine_temperature 0 (Fin (of_int (int (unat (130 :: u32)) * 1 + - 40))) = (True, 130)"
  by (rule setFormattedValue_int) (simp_all add: engine_temperature_def)

theorem setFormattedValue_fits_witness:
  "if True then unat (130 :: u32) < 2 ^ (8 * unat (mByteSize engine_temperature)) else 130 = (0 :: u32)"
  by (rule setFormattedValue_fits [OF _ engine_temperature_set]) (simp add: engine_temperature_def)

text \<open>With an integral gain (not zero) and offset, formatting a raw value and setting the result
  again gives the raw value back: the conversions through \<open>double\<close> are exact as long as the
  intermediate results stay below \<open>2\<^sup>5\<^sup>3\<close>.\<close>

theorem formatted_value_roundtrip:
  assumes "mFormatGain spec = Fin (of_int g)" and "mFormatOffset spec = Fin (of_int b)"
    and "g \<noteq> 0" and "\<bar>int (unat v) * g\<bar> < 2 ^ 53" and "\<bar>int (unat v) * g + b\<bar> < 2 ^ 53"
    and "unat v < 2 ^ (8 * unat (mByteSize spec))" and "mByteSize spec \<le> 4"
  shows "setFormattedValue spec v0 (getFormattedValue spec v) = (True, v)"
  by (simp only: getFormattedValue_int [OF assms(1,2,4,5)]
      setFormattedValue_int [OF assms(1-4,6,7)])

theorem formatted_value_roundtrip_witness:
  "setFormattedValue engine_temperature 0 (getFormattedValue engine_temperature 130) = (True, 130)"
  by (rule formatted_value_roundtrip [of _ 1 "- 40"]) (simp_all add: engine_temperature_def)

text \<open>C7: An SPN whose value fits its specification is encoded into any buffer with room for it, only
  its own bytes change (of a status byte, only its own bits), and decoding an SPN made alike from
  there gives the value back.\<close>

theorem spn_codec:
  assumes "spn_valid s" and "spn_size s \<le> length buf" and "same_spn s0 s"
  shows "\<exists>bs. spn_encode s buf = Inr bs \<and> length bs = length buf
    \<and> spn_decode s0 bs = Inr (setOffset (getOffset s0) s)
    \<and> (\<forall>i. spn_size s \<le> i \<and> i < length buf \<longrightarrow> bs ! i = buf ! i)
    \<and> (\<forall>spec v k. mSpnData s = SpnStatus spec v \<and> k < 8
        \<and> (k < unat (mBitOffset spec) \<or> unat (mBitOffset spec) + unat (mBitSize spec) \<le> k)
        \<longrightarrow> bit (bs ! 0) k = bit (buf ! 0) k)"
proof -
  obtain bs where e: "spn_encode s buf = Inr bs" and l: "length bs = length buf"
    using spn_encode_ok [OF assms(1,2)] by blast
  have "spn_decode s0 bs = Inr (setOffset (getOffset s0) s)"
    by (rule spn_decode_carries [OF assms(1,3) spn_encode_carries [OF assms(1,2) e]])
  moreover have "bit (bs ! 0) k = bit (buf ! 0) k"
    if "mSpnData s = SpnStatus spec v" "k < 8"
      "k < unat (mBitOffset spec) \<or> unat (mBitOffset spec) + unat (mBitSize spec) \<le> k" for spec v k
  proof -
    have "buf \<noteq> []" using assms(2) that(1) by (auto simp: spn_size_def)
    from status_encode_other_bit [OF assms(1) that(1) this e that(3,2)] show ?thesis .
  qed
  ultimately show ?thesis
    using e l spn_encode_other_byte [OF assms(1,2) e] by blast
qed

definition sample_status :: "u8 \<Rightarrow> SPN" where
  "sample_status v = \<lparr>mSpecId = 1,
     mSpec = \<lparr>mSPNNumber = 624, mSpecName = ''Amber Warning Lamp Status'', mSpecOffset = 0\<rparr>,
     mSpnData = SpnStatus \<lparr>mBitOffset = 2, mBitSize = 2, mValueToDesc = []\<rparr> v\<rparr>"

theorem spn_codec_witness:
  "\<exists>bs. spn_encode (sample_status 1) [0xF0, 0x0F] = Inr bs
    \<and> spn_decode (sample_status 3) bs = Inr (setOffset (getOffset (sample_status 3)) (sample_status 1))"
proof -
  have "spn_valid (sample_status 1)" and "spn_size (sample_status 1) \<le> length [0xF0, 0x0F :: u8]"
    and "same_spn (sample_status 3) (sample_status 1)"
    by (simp_all add: spn_valid_def spn_wf_def sample_status_def spn_size_def same_spn_def)
  from spn_codec [OF this] show ?thesis by blast
qed

end
