(* ===== verification/GenericFrame.thy ===== *)
theory GenericFrame
  imports J1939Frame Spn
begin

text \<open>
  \<open>GenericFrame\<close> (\<open>J1939/GenericFrame.cpp\<close>, \<open>J1939/include/GenericFrame.h\<close>): a frame made of
  SPNs kept in a \<open>std::map\<close> from the SPN number. The map's pointers are owned by the frame and
  never shared, so the map holds the SPNs themselves; what an SPN string asks of its owner
  (\<open>recalculateStringOffsets\<close>) is done here by the operation that changes the string.
\<close>

record generic =
  mLength :: nat
  mSPNs :: "(u32, SPN) smap"

definition GenericFrame :: "u32 \<Rightarrow> generic frame res" where
  "GenericFrame pgn = frame_ctor pgn \<lparr>mLength = 0, mSPNs = []\<rparr>"

section \<open>Operations\<close>

text \<open>Each SPN starts where the previous one ends; SPNs that are not strings ignore it.\<close>

fun recalculateStringOffsets :: "(u32, SPN) smap \<Rightarrow> (u32, SPN) smap" where
  "recalculateStringOffsets [] = []"
| "recalculateStringOffsets [e] = [e]"
| "recalculateStringOffsets ((k, s) # (k', s') # m) =
     (k, s) # recalculateStringOffsets
       ((k', setOffset (getOffset s + unat (getByteSize s)) s') # m)"

fun generic_decode_spns :: "u32 list \<Rightarrow> bytes \<Rightarrow> generic \<Rightarrow> generic outcome" where
  "generic_decode_spns [] buffer g = Inr g"
| "generic_decode_spns (k # ks) buffer g =
     (case smap_find (mSPNs g) k of
        None \<Rightarrow> Inl (UndefinedBehaviour, g)
      | Some s \<Rightarrow>
          let offset = getOffset s
          in if offset \<ge> length buffer
             then Inl (J1939DecodeException
               ''[GenericFrame::decodeData] Offset of spn is higher than frame length'', g)
             else
               (case spn_decode s (drop offset buffer) of
                  Inl (e, s') \<Rightarrow> Inl (e, g\<lparr>mSPNs := smap_put k s' (mSPNs g)\<rparr>)
                | Inr s' \<Rightarrow>
                    let m = smap_put k s' (mSPNs g)
                    in generic_decode_spns ks buffer
                         (g\<lparr>mSPNs := (if getType s' = SPN_STRING
                                      then recalculateStringOffsets m else m)\<rparr>)))"

definition generic_decodeData :: "generic \<Rightarrow> bytes \<Rightarrow> generic outcome" where
  "generic_decodeData g buffer = generic_decode_spns (smap_keys (mSPNs g)) buffer g"

fun generic_encode_spns :: "SPN list \<Rightarrow> bytes \<Rightarrow> bytes res" where
  "generic_encode_spns [] buffer = Inr buffer"
| "generic_encode_spns (s # ss) buffer =
     (let offset = getOffset s
      in if offset \<ge> length buffer
         then Inl (J1939EncodeException
           ''[GenericFrame::encodeData] Offset of spn is higher than frame length'')
         else res_bind (spn_encode s (drop offset buffer))
                (\<lambda>bs. generic_encode_spns ss (take offset buffer @ bs)))"

definition generic_encodeData :: "generic \<Rightarrow> bytes \<Rightarrow> bytes res" where
  "generic_encodeData g buffer = generic_encode_spns (map snd (mSPNs g)) buffer"

text \<open>The loop runs over the map backwards, on the pair of \<open>maxOffset\<close> and \<open>sizeLastSpn\<close>.\<close>

definition last_spn :: "SPN list \<Rightarrow> nat \<times> nat" where
  "last_spn ss =
     foldr (\<lambda>s (maxOffset, sizeLastSpn).
              if maxOffset > getOffset s then (maxOffset, sizeLastSpn)
              else (getOffset s, unat (getByteSize s)))
       ss (0, 1)"

definition generic_getDataLength :: "generic \<Rightarrow> nat" where
  "generic_getDataLength g =
     (let (maxOffset, sizeLastSpn) = last_spn (map snd (mSPNs g))
      in if mLength g > maxOffset + sizeLastSpn then mLength g else maxOffset + sizeLastSpn)"

definition registerSPN :: "SPN \<Rightarrow> generic \<Rightarrow> generic res" where
  "registerSPN spn g =
     (if mSPNs g = []
         \<or> (getType (snd (hd (mSPNs g))) = SPN_STRING) = (getType spn = SPN_STRING)
      then
        let m = (if smap_find (mSPNs g) (getSpnNumber spn) = None
                 then smap_put (getSpnNumber spn) spn (mSPNs g) else mSPNs g)
        in Inr (g\<lparr>mSPNs := (if getType spn = SPN_STRING
                           then recalculateStringOffsets m else m)\<rparr>)
      else Inl AssertExit)"

definition getSPN :: "generic \<Rightarrow> u32 \<Rightarrow> SPN option" where
  "getSPN g number = smap_find (mSPNs g) number"

definition hasSPN :: "generic \<Rightarrow> u32 \<Rightarrow> bool" where
  "hasSPN g number \<longleftrightarrow> smap_find (mSPNs g) number \<noteq> None"

definition getSPNNumbers :: "generic \<Rightarrow> u32 list" where
  "getSPNNumbers g = smap_keys (mSPNs g)"

definition deleteSPN :: "u32 \<Rightarrow> generic \<Rightarrow> bool \<times> generic" where
  "deleteSPN number g =
     (if smap_find (mSPNs g) number \<noteq> None
      then (True, g\<lparr>mSPNs := smap_erase number (mSPNs g)\<rparr>) else (False, g))"

definition generic_setLength :: "nat \<Rightarrow> generic \<Rightarrow> generic" where
  "generic_setLength len g = g\<lparr>mLength := len\<rparr>"

text \<open>\<open>SPNString::setValue\<close> on an SPN of the frame.\<close>

definition generic_setString :: "u32 \<Rightarrow> bytes \<Rightarrow> generic \<Rightarrow> generic" where
  "generic_setString number value g =
     (case smap_find (mSPNs g) number of
        None \<Rightarrow> g
      | Some s \<Rightarrow>
          (case mSpnData s of
             SpnString off v \<Rightarrow>
               if list_all is_ascii value
               then g\<lparr>mSPNs := recalculateStringOffsets (smap_put number
                       (s\<lparr>mSpnData := SpnString off (string_setValue v value)\<rparr>) (mSPNs g))\<rparr>
               else g
           | _ \<Rightarrow> g))"

text \<open>
  \<open>compare\<close>: \<open>memcmp\<close> reads from the \<open>c_str()\<close> of both strings, which have one byte after
  their end (the NUL).
\<close>

definition c_str_range :: "bytes \<Rightarrow> nat \<Rightarrow> nat \<Rightarrow> bytes res" where
  "c_str_range str off n = peek off n (str @ [0])"

fun generic_compare :: "(u32, SPN) smap \<Rightarrow> bytes \<Rightarrow> bytes \<Rightarrow> u32 list res" where
  "generic_compare [] newData oldData = Inr []"
| "generic_compare ((k, s) # m) newData oldData =
     (let off = getOffset s; size = unat (getByteSize s); maxLength = off + size
      in res_bind
           (if length newData \<ge> maxLength \<or> length oldData \<ge> maxLength
            then res_bind (c_str_range newData off size) (\<lambda>a.
                 res_bind (c_str_range oldData off size) (\<lambda>b. Inr (a \<noteq> b)))
            else Inr True) (\<lambda>differs.
         res_bind (generic_compare m newData oldData) (\<lambda>rest.
           Inr (if differs then k # rest else rest))))"

text \<open>\<open>copy\<close> of another generic frame: in step, until the specifications differ.\<close>

fun generic_copy_spns :: "(u32, SPN) smap \<Rightarrow> (u32, SPN) smap \<Rightarrow> (u32, SPN) smap outcome" where
  "generic_copy_spns [] other = Inr []"
| "generic_copy_spns m [] = Inr m"
| "generic_copy_spns ((k, s) # m) ((k', t) # other) =
     (if mSpecId t \<noteq> mSpecId s then Inr ((k, s) # m)
      else
        (case spn_copy s t of
           Inl (e, s') \<Rightarrow> Inl (e, (k, s') # m)
         | Inr s' \<Rightarrow> out_map (\<lambda>r. (k, s') # r) (generic_copy_spns m other)))"

definition generic_copy :: "generic \<Rightarrow> generic \<Rightarrow> generic outcome" where
  "generic_copy this other =
     out_map (\<lambda>m. this\<lparr>mSPNs := m\<rparr>) (generic_copy_spns (mSPNs this) (mSPNs other))"

section \<open>Shape of the map\<close>

text \<open>
  \<open>spns_alike m0 m\<close>: the same numbers with SPNs made alike. Everything that happens to the SPNs
  of a frame after registration keeps it.
\<close>

definition spns_alike :: "(u32, SPN) smap \<Rightarrow> (u32, SPN) smap \<Rightarrow> bool" where
  "spns_alike = list_all2 (\<lambda>(k0, s0) (k, s). k0 = k \<and> same_spn s0 s)"

lemma same_data_refl [simp]: "same_data d d"
  by (cases d) simp_all

lemma same_spn_refl [simp]: "same_spn s s"
  by (simp add: same_spn_def)

lemma same_data_trans: "same_data a b \<Longrightarrow> same_data b c \<Longrightarrow> same_data a c"
  by (cases a; cases b; cases c) simp_all

lemma same_data_sym: "same_data a b \<Longrightarrow> same_data b a"
  by (cases a; cases b) simp_all

lemma same_spn_trans: "same_spn a b \<Longrightarrow> same_spn b c \<Longrightarrow> same_spn a c"
  by (auto simp: same_spn_def intro: same_data_trans)

lemma same_spn_sym: "same_spn a b \<Longrightarrow> same_spn b a"
  by (simp add: same_spn_def same_data_sym)

lemma same_spn_type: "same_spn a b \<Longrightarrow> getType a = getType b"
  by (cases "mSpnData a"; cases "mSpnData b") (simp_all add: same_spn_def getType_def)

lemma same_spn_wf: "same_spn a b \<Longrightarrow> spn_wf a = spn_wf b"
  by (cases "mSpnData a"; cases "mSpnData b") (simp_all add: same_spn_def spn_wf_def)

lemma same_spn_number: "same_spn a b \<Longrightarrow> getSpnNumber a = getSpnNumber b"
  by (simp add: same_spn_def getSpnNumber_def)

lemma same_spn_offset: "same_spn a b \<Longrightarrow> getType a \<noteq> SPN_STRING \<Longrightarrow> getOffset a = getOffset b"
  by (cases "mSpnData a"; cases "mSpnData b")
     (simp_all add: same_spn_def getType_def getOffset_def)

lemma setOffset_same [simp]: "same_spn (setOffset off s) s"
  by (cases "mSpnData s") (simp_all add: setOffset_def same_spn_def)

lemma setOffset_offset: "getType s = SPN_STRING \<Longrightarrow> getOffset (setOffset off s) = off"
  by (cases "mSpnData s") (simp_all add: setOffset_def getType_def getOffset_def)

lemma setOffset_getOffset [simp]: "setOffset (getOffset s) s = s"
  by (cases "mSpnData s") (simp_all add: setOffset_def getOffset_def)

lemma setOffset_not_string [simp]: "getType s \<noteq> SPN_STRING \<Longrightarrow> setOffset off s = s"
  by (cases "mSpnData s") (simp_all add: setOffset_def getType_def)

lemma setOffset_size [simp]: "getByteSize (setOffset off s) = getByteSize s"
  by (cases "mSpnData s") (simp_all add: setOffset_def getByteSize_def)

lemma spn_decode_same: "same_spn (out_state (spn_decode s buf)) s"
  by (cases "mSpnData s")
     (auto simp: spn_decode_def num_decode_def status_decode_def string_decode_def same_spn_def
        Let_def)

lemma spns_alike_refl [simp]: "spns_alike m m"
  by (simp add: spns_alike_def list_all2_conv_all_nth split_beta)

lemma spns_alike_trans: "spns_alike a b \<Longrightarrow> spns_alike b c \<Longrightarrow> spns_alike a c"
  unfolding spns_alike_def
  by (erule (1) list_all2_trans [rotated 1]) (auto intro: same_spn_trans)

lemma spns_alike_Cons [simp]:
  "spns_alike ((k0, s0) # m0) ((k, s) # m) \<longleftrightarrow> k0 = k \<and> same_spn s0 s \<and> spns_alike m0 m"
  by (simp add: spns_alike_def)

lemma spns_alike_Nil [simp]: "spns_alike [] m \<longleftrightarrow> m = []" "spns_alike m [] \<longleftrightarrow> m = []"
  by (simp_all add: spns_alike_def)

lemma spns_alike_keys: "spns_alike m0 m \<Longrightarrow> map fst m0 = map fst m"
  by (induction m0 m rule: list_induct2') (auto simp: spns_alike_def)

lemma spns_alike_put:
  "smap_ok m \<Longrightarrow> smap_find m k = Some s0 \<Longrightarrow> same_spn s s0 \<Longrightarrow> spns_alike (smap_put k s m) m"
proof (induction m)
  case (Cons e m)
  obtain k1 s1 where e: "e = (k1, s1)" by force
  show ?case
  proof (cases "k = k1")
    case True
    with Cons.prems show ?thesis by (simp add: e)
  next
    case False
    with Cons.prems have f: "smap_find m k = Some s0" and ok: "smap_ok m"
      by (simp_all add: e smap_ok_tl)
    then have "k1 < k"
      using Cons.prems(1) by (force simp: e smap_ok_Cons smap_find_Some_iff)
    with False Cons.IH [OF ok f Cons.prems(3)] show ?thesis by (auto simp: e)
  qed
qed simp

lemma recalc_alike: "spns_alike (recalculateStringOffsets m) m"
proof (induction m rule: recalculateStringOffsets.induct)
  case (3 k s k' s' m)
  then have "spns_alike (recalculateStringOffsets
      ((k', setOffset (getOffset s + unat (getByteSize s)) s') # m)) ((k', s') # m)"
    by (rule spns_alike_trans) simp
  then show ?case by simp
qed simp_all

section \<open>Invariant\<close>

text \<open>
  Keys are the SPN numbers, every SPN is one its constructor accepts, and the frame holds either
  strings only or no string at all: what the assertion of \<open>registerSPN\<close> is there for.
\<close>

definition generic_wf :: "generic \<Rightarrow> bool" where
  "generic_wf g \<longleftrightarrow> smap_ok (mSPNs g)
     \<and> (\<forall>(k, s) \<in> set (mSPNs g). getSpnNumber s = k \<and> spn_wf s)
     \<and> ((\<forall>(k, s) \<in> set (mSPNs g). getType s = SPN_STRING)
        \<or> (\<forall>(k, s) \<in> set (mSPNs g). getType s \<noteq> SPN_STRING))"

lemma spns_alike_mem:
  "spns_alike m0 m \<Longrightarrow> (k, s0) \<in> set m0 \<Longrightarrow> \<exists>s. (k, s) \<in> set m \<and> same_spn s0 s"
  by (induction m0 m rule: list_induct2') (auto simp: spns_alike_def)

lemma generic_wf_alike:
  assumes "generic_wf g" and "spns_alike (mSPNs g') (mSPNs g)"
  shows "generic_wf g'"
proof -
  have keys: "map fst (mSPNs g') = map fst (mSPNs g)" by (rule spns_alike_keys [OF assms(2)])
  have mem: "\<exists>s. (k, s) \<in> set (mSPNs g) \<and> same_spn s0 s" if "(k, s0) \<in> set (mSPNs g')" for k s0
    by (rule spns_alike_mem [OF assms(2) that])
  show ?thesis
    using assms(1) mem unfolding generic_wf_def
    by (auto simp: smap_ok_def keys same_spn_number same_spn_wf same_spn_type split_beta
        dest!: mem)
qed

lemma mSPNs_update: "mSPNs (g\<lparr>mSPNs := m\<rparr>) = m"
  by simp

lemma decode_step_alike:
  assumes "smap_ok (mSPNs g)" and "smap_find (mSPNs g) k = Some s" and "same_spn s' s"
  shows "spns_alike (mSPNs (g\<lparr>mSPNs := (if b then recalculateStringOffsets
           (smap_put k s' (mSPNs g)) else smap_put k s' (mSPNs g))\<rparr>)) (mSPNs g)"
  using spns_alike_trans [OF recalc_alike spns_alike_put [OF assms]] spns_alike_put [OF assms]
  by simp

lemma spns_alike_ok: "spns_alike m0 m \<Longrightarrow> smap_ok m0 = smap_ok m"
  by (simp add: smap_ok_def spns_alike_keys)

lemma generic_decode_alike:
  "smap_ok (mSPNs g) \<Longrightarrow>
     spns_alike (mSPNs (out_state (generic_decode_spns ks buffer g))) (mSPNs g)
     \<and> mLength (out_state (generic_decode_spns ks buffer g)) = mLength g"
proof (induction ks buffer g rule: generic_decode_spns.induct)
  case (2 k ks buffer g)
  show ?case
  proof (cases "smap_find (mSPNs g) k")
    case (Some s)
    show ?thesis
    proof (cases "getOffset s \<ge> length buffer")
      case False
      note same = spn_decode_same [of s "drop (getOffset s) buffer"]
      show ?thesis
      proof (cases "spn_decode s (drop (getOffset s) buffer)" rule: out_state.cases)
        case (1 e s')
        with same have "same_spn s' s" by simp
        with 1 Some False 2 show ?thesis
          by (simp add: Let_def spns_alike_put [OF 2(2) Some])
      next
        case s': (2 s')
        with same have "same_spn s' s" by simp
        note step = decode_step_alike [OF 2(2) Some this, of "getType s' = SPN_STRING"]
        define g1 where "g1 = g\<lparr>mSPNs := (if getType s' = SPN_STRING
          then recalculateStringOffsets (smap_put k s' (mSPNs g)) else smap_put k s' (mSPNs g))\<rparr>"
        have "smap_ok (mSPNs g1)" using spns_alike_ok [OF step] 2(2) by (simp add: g1_def)
        with 2(1) [OF Some refl False s' refl]
        have ih: "spns_alike (mSPNs (out_state (generic_decode_spns ks buffer g1))) (mSPNs g1)"
          and len: "mLength (out_state (generic_decode_spns ks buffer g1)) = mLength g1"
          by (simp_all only: g1_def)
        have "generic_decode_spns (k # ks) buffer g = generic_decode_spns ks buffer g1"
          using False by (simp add: Some s' Let_def g1_def)
        moreover have "mLength g1 = mLength g" by (simp add: g1_def)
        ultimately show ?thesis
          using spns_alike_trans [OF ih step [folded g1_def]] len by simp
      qed
    qed (simp add: Some Let_def)
  qed simp
qed simp

section \<open>String offsets\<close>

fun consecutive :: "(u32, SPN) smap \<Rightarrow> bool" where
  "consecutive [] = True"
| "consecutive [e] = True"
| "consecutive ((k, s) # (k', s') # m) \<longleftrightarrow>
     getOffset s' = getOffset s + unat (getByteSize s) \<and> consecutive ((k', s') # m)"

definition all_strings :: "(u32, SPN) smap \<Rightarrow> bool" where
  "all_strings m \<longleftrightarrow> (\<forall>(k, s) \<in> set m. getType s = SPN_STRING)"

definition no_strings :: "(u32, SPN) smap \<Rightarrow> bool" where
  "no_strings m \<longleftrightarrow> (\<forall>(k, s) \<in> set m. getType s \<noteq> SPN_STRING)"

lemma all_strings_Cons [simp]:
  "all_strings ((k, s) # m) \<longleftrightarrow> getType s = SPN_STRING \<and> all_strings m"
  "no_strings ((k, s) # m) \<longleftrightarrow> getType s \<noteq> SPN_STRING \<and> no_strings m"
  by (auto simp: all_strings_def no_strings_def)

lemma all_strings_Nil [simp]: "all_strings []" "no_strings []"
  by (simp_all add: all_strings_def no_strings_def)

definition head_offset :: "(u32, SPN) smap \<Rightarrow> nat" where
  "head_offset m = (case m of [] \<Rightarrow> 0 | (k, s) # r \<Rightarrow> getOffset s)"

lemma recalc_head: "head_offset (recalculateStringOffsets m) = head_offset m"
  by (cases m rule: recalculateStringOffsets.cases) (simp_all add: head_offset_def)

lemma recalc_Cons:
  "recalculateStringOffsets ((k, s) # m) = (k, s) #
     (case m of [] \<Rightarrow> [] | (k', s') # r \<Rightarrow>
        recalculateStringOffsets ((k', setOffset (getOffset s + unat (getByteSize s)) s') # r))"
  by (cases m) auto

lemma consecutive_Cons:
  "consecutive ((k, s) # m) \<longleftrightarrow>
     (m \<noteq> [] \<longrightarrow> head_offset m = getOffset s + unat (getByteSize s)) \<and> consecutive m"
  by (cases m) (auto simp: head_offset_def)

lemma recalc_consecutive: "all_strings m \<Longrightarrow> consecutive (recalculateStringOffsets m)"
proof (induction m rule: recalculateStringOffsets.induct)
  case (3 k s k' s' m)
  have "getType (setOffset (getOffset s + unat (getByteSize s)) s') = SPN_STRING"
    using 3(2) same_spn_type [OF setOffset_same] by simp
  with 3 show ?case
    by (simp add: consecutive_Cons recalc_head)
       (simp add: head_offset_def setOffset_offset)
qed simp_all

text \<open>Recalculation leaves a prefix with consecutive offsets alone.\<close>

lemma recalc_prefix:
  "consecutive (xs @ [(k, s)]) \<Longrightarrow>
     recalculateStringOffsets (xs @ (k, s) # ys) = xs @ recalculateStringOffsets ((k, s) # ys)"
proof (induction xs)
  case (Cons e xs)
  obtain k1 s1 where e: "e = (k1, s1)" by force
  obtain k2 s2 zs where zs: "xs @ (k, s) # ys = (k2, s2) # zs" by (cases xs) auto
  have "head_offset (xs @ [(k, s)]) = getOffset s2"
    using zs by (cases xs) (auto simp: head_offset_def)
  then have off: "getOffset s2 = getOffset s1 + unat (getByteSize s1)"
    and c: "consecutive (xs @ [(k, s)])"
    using Cons.prems by (simp_all add: e consecutive_Cons)
  have "recalculateStringOffsets ((k1, s1) # xs @ (k, s) # ys)
      = (k1, s1) # recalculateStringOffsets (xs @ (k, s) # ys)"
    by (simp add: zs flip: off)
  then show ?case using Cons.IH [OF c] by (simp add: e)
qed simp

section \<open>Layout\<close>

text \<open>
  Two SPNs do not overlap: their byte ranges are disjoint, or they are statuses of one byte with
  disjoint bit ranges.
\<close>

definition spn_disjoint :: "SPN \<Rightarrow> SPN \<Rightarrow> bool" where
  "spn_disjoint s t \<longleftrightarrow>
     getOffset s + spn_size s \<le> getOffset t \<or> getOffset t + spn_size t \<le> getOffset s
     \<or> (case (mSpnData s, mSpnData t) of
          (SpnStatus a v, SpnStatus b w) \<Rightarrow> getOffset s = getOffset t \<and>
             (unat (mBitOffset a) + unat (mBitSize a) \<le> unat (mBitOffset b)
              \<or> unat (mBitOffset b) + unat (mBitSize b) \<le> unat (mBitOffset a))
        | _ \<Rightarrow> False)"

definition layout_ok :: "generic \<Rightarrow> bool" where
  "layout_ok g \<longleftrightarrow> sorted_wrt spn_disjoint (map snd (mSPNs g))"

lemma spn_disjoint_sym: "spn_disjoint s t \<Longrightarrow> spn_disjoint t s"
  by (cases "mSpnData s"; cases "mSpnData t") (auto simp: spn_disjoint_def)

lemma spn_size_pos: "spn_wf s \<Longrightarrow> 0 < spn_size s"
  by (cases "mSpnData s") (auto simp: spn_wf_def spn_size_def unat_gt_0)

lemma spn_size_byte: "spn_wf s \<Longrightarrow> getType s \<noteq> SPN_STRING \<Longrightarrow> unat (getByteSize s) = spn_size s"
  by (cases "mSpnData s") (simp_all add: getByteSize_def spn_size_def getType_def)

lemma last_spn_bounds:
  assumes "last_spn ss = (mo, sz)"
  shows "s \<in> set ss \<Longrightarrow> getOffset s \<le> mo"
    and "ss \<noteq> [] \<Longrightarrow> \<exists>s \<in> set ss. getOffset s = mo \<and> unat (getByteSize s) = sz"
  using assms
  by (induction ss arbitrary: mo sz) (fastforce simp: last_spn_def split: if_splits prod.splits)+

text \<open>The frame is long enough for every SPN of a layout without overlaps.\<close>

lemma getDataLength_covers:
  assumes "layout_ok g" and "\<And>t. t \<in> set (map snd (mSPNs g)) \<Longrightarrow> spn_valid t"
    and "s \<in> set (map snd (mSPNs g))"
  shows "getOffset s + spn_size s \<le> generic_getDataLength g"
proof -
  let ?ss = "map snd (mSPNs g)"
  obtain mo sz where l: "last_spn ?ss = (mo, sz)" by force
  have ne: "?ss \<noteq> []" using assms(3) by auto
  obtain t where t: "t \<in> set ?ss" "getOffset t = mo" "unat (getByteSize t) = sz"
    using last_spn_bounds(2) [OF l ne] by blast
  have tz: "spn_size t = sz" using getByteSize_size [OF assms(2) [OF t(1)]] t(3) by simp
  have tp: "0 < spn_size t" using assms(2) [OF t(1)] by (simp add: spn_valid_def spn_size_pos)
  have so: "getOffset s \<le> mo" using last_spn_bounds(1) [OF l assms(3)] .
  have "s = t \<or> spn_disjoint s t"
  proof -
    obtain i j where "i < length ?ss" "s = ?ss ! i" "j < length ?ss" "t = ?ss ! j"
      using assms(3) t(1) by (auto simp: in_set_conv_nth)
    then show ?thesis
      using assms(1) sorted_wrt_nth_less [of spn_disjoint ?ss i j]
        sorted_wrt_nth_less [of spn_disjoint ?ss j i] spn_disjoint_sym
      by (cases i j rule: linorder_cases) (auto simp: layout_ok_def)
  qed
  then have "getOffset s + spn_size s \<le> mo + sz"
    using so t(2) tz tp
    by (auto simp: spn_disjoint_def spn_size_def split: spn_data.splits)
  then show ?thesis by (auto simp: generic_getDataLength_def l)
qed

section \<open>Encoding\<close>

lemma carries_cong:
  assumes "length b = length b'" and "\<And>i. i < spn_size t \<Longrightarrow> i < length b \<Longrightarrow> b ! i = b' ! i"
    and "spn_size t \<le> length b" and "spn_wf t"
  shows "carries t b = carries t b'"
proof (cases "mSpnData t")
  case (SpnNumeric spec v)
  with assms show ?thesis by (auto simp: carries_def spn_size_def)
next
  case (SpnStatus spec v)
  with assms(1,3) have ne: "0 < length b" "b' \<noteq> []" by (auto simp: spn_size_def)
  then have "b ! 0 = b' ! 0" using assms(2) [of 0] SpnStatus by (simp add: spn_size_def)
  with ne have "b ! 0 = b' ! 0" and "b \<noteq> []" and "b' \<noteq> []" by auto
  with SpnStatus show ?thesis by (simp add: carries_def)
next
  case (SpnString off v)
  have "take (spn_size t) b = take (spn_size t) b'"
    using assms(1,2,3) by (intro nth_equalityI) auto
  with SpnString show ?thesis by (simp add: carries_def spn_size_def)
qed

text \<open>Writing \<open>s\<close> at its offset keeps what an SPN that does not overlap it reads.\<close>

lemma encode_keeps_carries:
  assumes s: "spn_valid s" "getOffset s + spn_size s \<le> length buf"
    and e: "spn_encode s (drop (getOffset s) buf) = Inr bs"
    and t: "spn_valid t" "getOffset t + spn_size t \<le> length buf"
    and d: "spn_disjoint s t" and c: "carries t (drop (getOffset t) buf)"
  shows "carries t (drop (getOffset t) (take (getOffset s) buf @ bs))"
proof -
  let ?os = "getOffset s" and ?ot = "getOffset t"
  let ?buf = "take ?os buf @ bs"
  have room: "spn_size s \<le> length (drop ?os buf)" using s(2) by simp
  have len: "length bs = length buf - ?os"
    using spn_encode_ok [OF s(1) room] e by auto
  have blen: "length ?buf = length buf" using len s(2) by simp
  have wf: "spn_wf t" using t(1) by (simp add: spn_valid_def)
  have out: "?buf ! i = buf ! i" if "i < length buf" and "i < ?os \<or> ?os + spn_size s \<le> i" for i
  proof (cases "i < ?os")
    case False
    with that have "bs ! (i - ?os) = drop ?os buf ! (i - ?os)"
      by (intro spn_encode_other_byte [OF s(1) room e]) auto
    with False that(1) show ?thesis by (simp add: nth_append)
  qed (use that in \<open>simp add: nth_append\<close>)
  show ?thesis
  proof (cases "?os + spn_size s \<le> ?ot \<or> ?ot + spn_size t \<le> ?os")
    case True
    have "carries t (drop ?ot ?buf) = carries t (drop ?ot buf)"
    proof (rule carries_cong)
      show "drop ?ot ?buf ! i = drop ?ot buf ! i"
        if "i < spn_size t" and "i < length (drop ?ot ?buf)" for i
      proof -
        have "?ot + i < length buf" and "?ot + i < ?os \<or> ?os + spn_size s \<le> ?ot + i"
          using that True blen by auto
        then have "?buf ! (?ot + i) = buf ! (?ot + i)" by (rule out)
        then show ?thesis using t(2) blen by (simp only: nth_drop)
      qed
    qed (use blen t(2) wf in simp_all)
    with c show ?thesis by simp
  next
    case False
    with d obtain a v b w where st: "mSpnData s = SpnStatus a v" "mSpnData t = SpnStatus b w"
      and off: "?os = ?ot"
      and bits: "unat (mBitOffset a) + unat (mBitSize a) \<le> unat (mBitOffset b)
        \<or> unat (mBitOffset b) + unat (mBitSize b) \<le> unat (mBitOffset a)"
      by (auto simp: spn_disjoint_def split: spn_data.splits)
    have ne: "drop ?os buf \<noteq> []" using room st by (auto simp: spn_size_def)
    have eq: "bit (bs ! 0) k = bit (drop ?os buf ! 0) k"
      if "unat (mBitOffset b) \<le> k" and "k < unat (mBitOffset b) + unat (mBitSize b)" for k
    proof (rule status_encode_other_bit [OF s(1) st(1) ne e])
      show "k < unat (mBitOffset a) \<or> unat (mBitOffset a) + unat (mBitSize a) \<le> k"
        using bits that by linarith
      show "k < 8" using that wf st(2) by (simp add: spn_wf_def)
    qed
    have "drop ?ot ?buf = bs" using off s(2) by simp
    moreover have "bs \<noteq> []" using ne len by auto
    ultimately show ?thesis
      using c eq off ne st(2) by (auto simp: carries_def)
  qed
qed

lemma generic_encode_spns_ok:
  assumes "sorted_wrt spn_disjoint ss"
    and "\<And>s. s \<in> set ss \<Longrightarrow> spn_valid s \<and> getOffset s + spn_size s \<le> length buf"
  shows "\<exists>bs. generic_encode_spns ss buf = Inr bs \<and> length bs = length buf
    \<and> (\<forall>s \<in> set ss. carries s (drop (getOffset s) bs))
    \<and> (\<forall>t. spn_valid t \<and> getOffset t + spn_size t \<le> length buf \<and> (\<forall>s \<in> set ss. spn_disjoint s t)
           \<and> carries t (drop (getOffset t) buf) \<longrightarrow> carries t (drop (getOffset t) bs))"
  using assms
proof (induction ss arbitrary: buf)
  case (Cons s ss)
  have s: "spn_valid s" "getOffset s + spn_size s \<le> length buf" using Cons.prems(2) by auto
  then have room: "spn_size s \<le> length (drop (getOffset s) buf)" by simp
  obtain b where b: "spn_encode s (drop (getOffset s) buf) = Inr b"
    "length b = length buf - getOffset s"
    using spn_encode_ok [OF s(1) room] by auto
  define buf1 where "buf1 = take (getOffset s) buf @ b"
  have len1: "length buf1 = length buf" using b(2) s(2) by (simp add: buf1_def)
  have "0 < spn_size s" using s(1) by (simp add: spn_valid_def spn_size_pos)
  then have eq: "generic_encode_spns (s # ss) buf = generic_encode_spns ss buf1"
    using s(2) b(1) by (simp add: Let_def buf1_def)
  from Cons.IH [of buf1] Cons.prems obtain bs where
    bs: "generic_encode_spns ss buf1 = Inr bs" "length bs = length buf1"
      "\<forall>s \<in> set ss. carries s (drop (getOffset s) bs)"
    and keep: "\<And>t. spn_valid t \<Longrightarrow> getOffset t + spn_size t \<le> length buf1 \<Longrightarrow>
      (\<forall>s \<in> set ss. spn_disjoint s t) \<Longrightarrow> carries t (drop (getOffset t) buf1) \<Longrightarrow>
      carries t (drop (getOffset t) bs)"
    using len1 by fastforce
  have "carries s (drop (getOffset s) buf1)"
    using spn_encode_carries [OF s(1) room b(1)] s(2) by (simp add: buf1_def)
  then have "carries s (drop (getOffset s) bs)"
    using keep [of s] s Cons.prems(1) len1 spn_disjoint_sym by auto
  moreover have "carries t (drop (getOffset t) bs)"
    if "spn_valid t" "getOffset t + spn_size t \<le> length buf" "\<forall>u \<in> set (s # ss). spn_disjoint u t"
      "carries t (drop (getOffset t) buf)" for t
    using keep [of t] encode_keeps_carries [OF s b(1) that(1,2) _ that(4)] that(1,2,3) len1
    by (simp add: buf1_def)
  ultimately show ?case using bs eq len1 by auto
qed simp

section \<open>Decoding\<close>

lemma head_offset_Cons [simp]: "head_offset ((k, s) # m) = getOffset s"
  by (simp add: head_offset_def)

text \<open>
  The loop, with the entries already decoded in front (\<open>pre\<close>) and those to come made like the
  ones that were encoded (\<open>T\<close>).
\<close>

lemma generic_decode_spns_ok:
  assumes "smap_ok (pre @ T)" and "all_strings (pre @ T) \<and> consecutive (pre @ T) \<or> no_strings (pre @ T)"
    and "spns_alike rest T" and "head_offset rest = head_offset T"
    and "\<And>k s. (k, s) \<in> set T \<Longrightarrow> spn_valid s \<and> carries s (drop (getOffset s) buf)
           \<and> getOffset s < length buf"
  shows "generic_decode_spns (map fst T) buf \<lparr>mLength = l, mSPNs = pre @ rest\<rparr>
           = Inr \<lparr>mLength = l, mSPNs = pre @ T\<rparr>"
  using assms
proof (induction T arbitrary: pre rest)
  case Nil
  then show ?case by simp
next
  case (Cons e T)
  obtain k s where e: "e = (k, s)" by force
  from Cons.prems(3) obtain s0 rest1 where rest: "rest = (k, s0) # rest1"
    and same: "same_spn s0 s" and alike: "spns_alike rest1 T"
    by (cases rest) (auto simp: e spns_alike_def list_all2_Cons2)
  have off: "getOffset s0 = getOffset s" using Cons.prems(4) by (simp add: rest e)
  have v: "spn_valid s" and c: "carries s (drop (getOffset s) buf)" and lt: "getOffset s < length buf"
    using Cons.prems(5) [of k s] by (simp_all add: e)
  have "map fst (pre @ rest) = map fst (pre @ e # T)"
    using spns_alike_keys [OF Cons.prems(3)] by simp
  then have ok: "smap_ok (pre @ (k, s0) # rest1)"
    using Cons.prems(1) unfolding smap_ok_def rest by simp
  have dec: "spn_decode s0 (drop (getOffset s0) buf) = Inr s"
    using spn_decode_carries [OF v same] c off by simp
  define m where "m = (if getType s = SPN_STRING
    then recalculateStringOffsets (pre @ (k, s) # rest1) else pre @ (k, s) # rest1)"
  have step: "generic_decode_spns (map fst (e # T)) buf \<lparr>mLength = l, mSPNs = pre @ rest\<rparr>
      = generic_decode_spns (map fst T) buf \<lparr>mLength = l, mSPNs = m\<rparr>"
    using lt off
    by (simp add: e rest smap_find_mid [OF ok] smap_put_mid [OF ok] dec [unfolded off] m_def Let_def)
  have "\<exists>rest2. m = (pre @ [e]) @ rest2 \<and> spns_alike rest2 T \<and> head_offset rest2 = head_offset T"
  proof (cases "getType s = SPN_STRING")
    case True
    with Cons.prems(2) have cons: "consecutive (pre @ (k, s) # T)" and "all_strings T"
      by (auto simp: e all_strings_def no_strings_def)
    have "consecutive (xs @ ys) \<Longrightarrow> consecutive xs \<and> consecutive ys" for xs ys
      by (induction xs) (auto simp: consecutive_Cons head_offset_def split: list.splits)
    from this [of "pre @ [(k, s)]" T] this [of pre "(k, s) # T"] cons
    have c1: "consecutive (pre @ [(k, s)])" and c2: "consecutive ((k, s) # T)" by simp_all
    obtain rest2 where r2: "recalculateStringOffsets ((k, s) # rest1) = (k, s) # rest2"
      by (simp add: recalc_Cons)
    have m: "m = (pre @ [e]) @ rest2"
      using True by (simp add: m_def recalc_prefix [OF c1] r2 e)
    have a: "spns_alike rest2 rest1"
      using recalc_alike [of "(k, s) # rest1"] by (simp add: r2)
    have "head_offset rest2 = head_offset T"
    proof (cases T)
      case Nil
      with alike a show ?thesis by (simp add: head_offset_def)
    next
      case (Cons e2 T2)
      with alike a obtain k2 u r where u: "rest2 = (k2, u) # r"
        by (cases rest2) (auto simp: spns_alike_def)
      have "spns_alike rest2 T" by (rule spns_alike_trans [OF a alike])
      with Cons u \<open>all_strings T\<close> have "all_strings rest1"
        using spns_alike_mem [OF alike] same_spn_type
        by (fastforce simp: all_strings_def)
      then have "consecutive ((k, s) # rest2)"
        using recalc_consecutive [of "(k, s) # rest1"] True by (simp add: r2)
      then show ?thesis
        using c2 Cons u by (simp add: consecutive_Cons)
    qed
    with m spns_alike_trans [OF a alike] show ?thesis by blast
  next
    case False
    then have ns: "no_strings T" using Cons.prems(2)
      by (auto simp: e all_strings_def no_strings_def)
    have "head_offset rest1 = head_offset T"
    proof (cases T)
      case Nil
      with alike show ?thesis by (simp add: head_offset_def)
    next
      case (Cons e2 T2)
      with alike ns show ?thesis
        by (cases rest1; cases e2)
           (auto simp: spns_alike_def head_offset_def no_strings_def intro!: same_spn_offset
              dest: same_spn_type)
    qed
    with False alike show ?thesis by (auto simp: m_def e)
  qed
  then obtain rest2 where m: "m = (pre @ [e]) @ rest2" and a2: "spns_alike rest2 T"
    and h2: "head_offset rest2 = head_offset T"
    by blast
  have "generic_decode_spns (map fst T) buf \<lparr>mLength = l, mSPNs = (pre @ [e]) @ rest2\<rparr>
      = Inr \<lparr>mLength = l, mSPNs = (pre @ [e]) @ T\<rparr>"
    by (rule Cons.IH [OF _ _ a2 h2]) (use Cons.prems(1,2,5) in auto)
  then show ?case unfolding step m by simp
qed

section \<open>Codec\<close>

definition generic_valid :: "generic \<Rightarrow> bool" where
  "generic_valid g \<longleftrightarrow> generic_wf g \<and> (\<forall>(k, s) \<in> set (mSPNs g). spn_valid s) \<and> layout_ok g
     \<and> (all_strings (mSPNs g) \<longrightarrow> consecutive (mSPNs g))"

definition generic_takes :: "generic \<Rightarrow> generic \<Rightarrow> bool" where
  "generic_takes g0 g \<longleftrightarrow> mLength g0 = mLength g \<and> spns_alike (mSPNs g0) (mSPNs g)
     \<and> head_offset (mSPNs g0) = head_offset (mSPNs g)"

lemma generic_encode_valid:
  assumes "generic_valid g" and "generic_getDataLength g \<le> n"
  shows "\<exists>bs. generic_encodeData g (replicate n 0xFF) = Inr bs \<and> length bs = n
    \<and> (\<forall>(k, s) \<in> set (mSPNs g). carries s (drop (getOffset s) bs) \<and> getOffset s + spn_size s \<le> n)"
proof -
  have v: "spn_valid s" if "s \<in> set (map snd (mSPNs g))" for s
    using assms(1) that by (auto simp: generic_valid_def)
  have l: "layout_ok g" using assms(1) by (simp add: generic_valid_def)
  have fits: "getOffset s + spn_size s \<le> n" if "s \<in> set (map snd (mSPNs g))" for s
    using getDataLength_covers [OF l v that] assms(2) by simp
  from generic_encode_spns_ok [of "map snd (mSPNs g)" "replicate n 0xFF"] l v fits
  obtain bs where "generic_encodeData g (replicate n 0xFF) = Inr bs" "length bs = n"
    "\<forall>s \<in> set (map snd (mSPNs g)). carries s (drop (getOffset s) bs)"
    by (auto simp: layout_ok_def generic_encodeData_def)
  with fits show ?thesis by fastforce
qed

lemma generic_decode_carried:
  assumes "generic_valid g" and "generic_takes g0 g"
    and "\<forall>(k, s) \<in> set (mSPNs g). carries s (drop (getOffset s) bs)
           \<and> getOffset s + spn_size s \<le> length bs"
  shows "generic_decodeData g0 bs = Inr g"
proof -
  have wf: "generic_wf g" using assms(1) by (simp add: generic_valid_def)
  have strs: "all_strings (mSPNs g) \<and> consecutive (mSPNs g) \<or> no_strings (mSPNs g)"
    using assms(1) by (auto simp: generic_valid_def generic_wf_def all_strings_def no_strings_def)
  have ents: "spn_valid s \<and> carries s (drop (getOffset s) bs) \<and> getOffset s < length bs"
    if "(k, s) \<in> set (mSPNs g)" for k s
  proof -
    have "spn_valid s" using assms(1) that by (auto simp: generic_valid_def)
    moreover from this have "0 < spn_size s" by (simp add: spn_valid_def spn_size_pos)
    ultimately show ?thesis using assms(3) that by fastforce
  qed
  have alike: "spns_alike (mSPNs g0) (mSPNs g)" and len: "mLength g0 = mLength g"
    and head: "head_offset (mSPNs g0) = head_offset (mSPNs g)"
    using assms(2) by (simp_all add: generic_takes_def)
  have "generic_decode_spns (map fst (mSPNs g)) bs \<lparr>mLength = mLength g, mSPNs = [] @ mSPNs g0\<rparr>
      = Inr \<lparr>mLength = mLength g, mSPNs = [] @ mSPNs g\<rparr>"
    by (rule generic_decode_spns_ok) (use wf strs ents alike head in \<open>auto simp: generic_wf_def\<close>)
  moreover have "g0 = \<lparr>mLength = mLength g, mSPNs = mSPNs g0\<rparr>" using len by simp
  ultimately show ?thesis
    by (simp add: generic_decodeData_def smap_keys_def spns_alike_keys [OF alike])
qed

interpretation generic_codec: frame_codec generic_getDataLength generic_encodeData
  generic_decodeData generic_valid generic_takes
proof unfold_locales
  fix p assume "generic_valid p"
  from generic_encode_valid [OF this order_refl]
  show "\<exists>bs. generic_encodeData p (replicate (generic_getDataLength p) 0xFF) = Inr bs
      \<and> length bs = generic_getDataLength p"
    by blast
next
  fix p p0 bs
  assume v: "generic_valid p" and t: "generic_takes p0 p"
    and "generic_encodeData p (replicate (generic_getDataLength p) 0xFF) = Inr bs"
  with generic_encode_valid [OF v order_refl] show "generic_decodeData p0 bs = Inr p"
    by (intro generic_decode_carried [OF v t]) auto
qed

section \<open>The operations keep the invariant\<close>

text \<open>For a frame of strings: the first starts at 0 and each one where the previous one ends.\<close>

definition offsets_ok :: "generic \<Rightarrow> bool" where
  "offsets_ok g \<longleftrightarrow> (all_strings (mSPNs g) \<longrightarrow> consecutive (mSPNs g) \<and> head_offset (mSPNs g) = 0)"

lemma generic_wf_kinds:
  "generic_wf g \<Longrightarrow> all_strings (mSPNs g) \<or> no_strings (mSPNs g)"
  by (auto simp: generic_wf_def all_strings_def no_strings_def)

lemma set_smap_put: "smap_ok m \<Longrightarrow> set (smap_put k v m) = {(k', v') \<in> set m. k' \<noteq> k} \<union> {(k, v)}"
proof -
  assume ok: "smap_ok m"
  have "(a, b) \<in> set (smap_put k v m) \<longleftrightarrow> (a, b) \<in> {(k', v') \<in> set m. k' \<noteq> k} \<union> {(k, v)}" for a b
    using smap_find_Some_iff [OF smap_ok_put [OF ok, of k v], of a b]
      smap_find_Some_iff [OF ok, of a b]
    by (auto simp: smap_find_put split: if_splits)
  then show ?thesis by auto
qed

lemma set_smap_erase: "smap_ok m \<Longrightarrow> set (smap_erase k m) = {(k', v') \<in> set m. k' \<noteq> k}"
proof -
  assume ok: "smap_ok m"
  have "(a, b) \<in> set (smap_erase k m) \<longleftrightarrow> (a, b) \<in> {(k', v') \<in> set m. k' \<noteq> k}" for a b
    using smap_find_Some_iff [OF smap_ok_erase [OF ok, of k], of a b]
      smap_find_Some_iff [OF ok, of a b]
    by (auto simp: smap_find_erase [OF ok] split: if_splits)
  then show ?thesis by auto
qed

lemma generic_wf_hd:
  assumes "generic_wf g" and "mSPNs g \<noteq> []"
  shows "(getType (snd (hd (mSPNs g))) = SPN_STRING) = all_strings (mSPNs g)"
    and "all_strings (mSPNs g) = (\<not> no_strings (mSPNs g))"
proof -
  have "hd (mSPNs g) \<in> set (mSPNs g)" using assms(2) by simp
  then show "(getType (snd (hd (mSPNs g))) = SPN_STRING) = all_strings (mSPNs g)"
    and "all_strings (mSPNs g) = (\<not> no_strings (mSPNs g))"
    using generic_wf_kinds [OF assms(1)]
    by (cases "hd (mSPNs g)"; force simp: all_strings_def no_strings_def)+
qed

lemma registerSPN_keeps:
  assumes "generic_wf g" and "spn_wf spn" and "registerSPN spn g = Inr g'"
  shows "generic_wf g'"
proof -
  let ?n = "getSpnNumber spn"
  define m where "m = (if smap_find (mSPNs g) ?n = None then smap_put ?n spn (mSPNs g) else mSPNs g)"
  have ok: "smap_ok (mSPNs g)" using assms(1) by (simp add: generic_wf_def)
  have cond: "mSPNs g = [] \<or> (getType spn = SPN_STRING) = all_strings (mSPNs g)"
    using assms(3) generic_wf_hd(1) [OF assms(1)]
    by (auto simp: registerSPN_def split: if_splits)
  have "all_strings (mSPNs g) \<or> no_strings (mSPNs g)" by (rule generic_wf_kinds [OF assms(1)])
  then have "generic_wf (g\<lparr>mSPNs := m\<rparr>)"
    using assms(1,2) cond generic_wf_hd(2) [OF assms(1)]
    by (auto simp: m_def generic_wf_def set_smap_put [OF ok] all_strings_def no_strings_def)
  moreover have "spns_alike (mSPNs g') (mSPNs (g\<lparr>mSPNs := m\<rparr>))"
    using assms(3) recalc_alike by (auto simp: registerSPN_def m_def Let_def split: if_splits)
  ultimately show ?thesis by (rule generic_wf_alike)
qed

lemma head_offset_put:
  "smap_ok m \<Longrightarrow> head_offset m = 0 \<Longrightarrow> getOffset s = 0 \<Longrightarrow> smap_find m k = None \<Longrightarrow>
     head_offset (smap_put k s m) = 0"
  by (cases m) (auto simp: head_offset_def split: if_splits)

lemma registerSPN_offsets:
  assumes "generic_wf g" and "offsets_ok g" and "spn_wf spn"
    and "getType spn = SPN_STRING \<longrightarrow> getOffset spn = 0" and "registerSPN spn g = Inr g'"
  shows "offsets_ok g'"
proof (cases "getType spn = SPN_STRING")
  case True
  define m where "m = (if smap_find (mSPNs g) (getSpnNumber spn) = None
    then smap_put (getSpnNumber spn) spn (mSPNs g) else mSPNs g)"
  have g': "mSPNs g' = recalculateStringOffsets m"
    using assms(5) True by (auto simp: registerSPN_def m_def Let_def split: if_splits)
  have ok: "smap_ok (mSPNs g)" using assms(1) by (simp add: generic_wf_def)
  have "mSPNs g = [] \<or> all_strings (mSPNs g)"
    using assms(5) True generic_wf_hd(1) [OF assms(1)]
    by (auto simp: registerSPN_def split: if_splits)
  then have "all_strings m" and "head_offset m = 0"
    using assms(2,4) True head_offset_put [OF ok, of spn]
    by (auto simp: m_def set_smap_put [OF ok] offsets_ok_def all_strings_def head_offset_def)
  then show ?thesis by (simp add: offsets_ok_def g' recalc_head recalc_consecutive)
next
  case False
  have g': "mSPNs g' = (if smap_find (mSPNs g) (getSpnNumber spn) = None
      then smap_put (getSpnNumber spn) spn (mSPNs g) else mSPNs g)"
    using assms(5) False by (auto simp: registerSPN_def Let_def split: if_splits)
  have ok: "smap_ok (mSPNs g)" using assms(1) by (simp add: generic_wf_def)
  show ?thesis
    using assms(2) False by (auto simp: offsets_ok_def g' all_strings_def set_smap_put [OF ok])
qed

lemma deleteSPN_keeps:
  assumes "generic_wf g"
  shows "generic_wf (snd (deleteSPN number g))"
proof -
  have ok: "smap_ok (mSPNs g)" using assms by (simp add: generic_wf_def)
  show ?thesis
    using assms by (auto simp: deleteSPN_def generic_wf_def set_smap_erase [OF ok])
qed

lemma generic_setString_alike:
  assumes "smap_ok (mSPNs g)"
  shows "spns_alike (mSPNs (generic_setString number value g)) (mSPNs g)"
proof (cases "smap_find (mSPNs g) number")
  case (Some s)
  show ?thesis
  proof (cases "mSpnData s")
    case (SpnString off v)
    have "same_spn (s\<lparr>mSpnData := SpnString off (string_setValue v value)\<rparr>) s"
      by (simp add: same_spn_def SpnString)
    from spns_alike_trans [OF recalc_alike spns_alike_put [OF assms Some this]]
    show ?thesis by (simp add: generic_setString_def Some SpnString)
  qed (simp_all add: generic_setString_def Some)
qed (simp add: generic_setString_def)

lemma all_strings_alike: "spns_alike m0 m \<Longrightarrow> all_strings m0 = all_strings m"
  by (induction m0 m rule: list_induct2') (auto simp: spns_alike_def dest: same_spn_type)

lemma head_offset_update:
  assumes "smap_ok m" and "smap_find m k = Some s" and "getOffset s' = getOffset s"
  shows "head_offset (smap_put k s' m) = head_offset m"
proof (cases m)
  case (Cons e r)
  obtain k1 s1 where e: "e = (k1, s1)" by force
  show ?thesis
  proof (cases "k = k1")
    case False
    then have "(k, s) \<in> set r"
      using assms(2) smap_find_Some_iff [OF assms(1), of k s] by (auto simp: Cons e)
    then have "k1 < k" using assms(1) by (force simp: Cons e smap_ok_Cons)
    then show ?thesis by (auto simp: Cons e)
  qed (use assms in \<open>auto simp: Cons e\<close>)
qed (use assms in simp)

lemma generic_setString_offsets:
  assumes "generic_wf g" and "offsets_ok g"
  shows "offsets_ok (generic_setString number value g)"
proof (cases "smap_find (mSPNs g) number")
  case (Some s)
  show ?thesis
  proof (cases "mSpnData s")
    case (SpnString off v)
    let ?s = "s\<lparr>mSpnData := SpnString off (string_setValue v value)\<rparr>"
    have ok: "smap_ok (mSPNs g)" using assms(1) by (simp add: generic_wf_def)
    have st: "getType s = SPN_STRING" by (simp add: getType_def SpnString)
    have mem: "(number, s) \<in> set (mSPNs g)" using Some ok by (simp add: smap_find_Some_iff)
    then have all: "all_strings (mSPNs g)"
      using generic_wf_kinds [OF assms(1)] st by (auto simp: no_strings_def)
    have "same_spn ?s s" by (simp add: same_spn_def SpnString)
    then have "all_strings (smap_put number ?s (mSPNs g))"
      using all_strings_alike [OF spns_alike_put [OF ok Some]] all by blast
    moreover have "getOffset ?s = getOffset s" by (simp add: getOffset_def SpnString)
    ultimately show ?thesis
      using assms(2) all head_offset_update [OF ok Some, of ?s]
      by (auto simp: offsets_ok_def generic_setString_def Some SpnString recalc_head
          recalc_consecutive)
  qed (use assms(2) in \<open>simp_all add: generic_setString_def Some\<close>)
qed (use assms(2) in \<open>simp add: generic_setString_def\<close>)

section \<open>Frames without strings have a fixed layout\<close>

lemma same_spn_bytes: "same_spn a b \<Longrightarrow> getType b \<noteq> SPN_STRING \<Longrightarrow> getByteSize a = getByteSize b"
  by (cases "mSpnData a"; cases "mSpnData b")
     (simp_all add: same_spn_def getByteSize_def getType_def)

lemma alike_no_strings_Cons:
  assumes "spns_alike (e0 # m0) (e # m)" and "no_strings (e # m)"
  shows "getOffset (snd e0) = getOffset (snd e)" and "getByteSize (snd e0) = getByteSize (snd e)"
    and "spns_alike m0 m" and "no_strings m"
proof -
  obtain k0 s0 k s where e: "e0 = (k0, s0)" "e = (k, s)" by (cases e0, cases e) auto
  have same: "same_spn s0 s" and t: "getType s \<noteq> SPN_STRING"
    using assms by (simp_all add: e)
  then show "getOffset (snd e0) = getOffset (snd e)"
    and "getByteSize (snd e0) = getByteSize (snd e)"
    using same_spn_offset [OF same] same_spn_bytes [OF same t] same_spn_type [OF same]
    by (simp_all add: e)
  show "spns_alike m0 m" and "no_strings m" using assms by (simp_all add: e)
qed

lemma alike_last_spn:
  "spns_alike m0 m \<Longrightarrow> no_strings m \<Longrightarrow> last_spn (map snd m0) = last_spn (map snd m)"
proof (induction m0 m rule: list_induct2')
  case (4 e0 m0 e m)
  from alike_no_strings_Cons [OF 4(2,3)] 4(1) show ?case by (simp add: last_spn_def split: prod.splits)
qed simp_all

lemma alike_getDataLength:
  "spns_alike (mSPNs g0) (mSPNs g) \<Longrightarrow> mLength g0 = mLength g \<Longrightarrow> no_strings (mSPNs g) \<Longrightarrow>
     generic_getDataLength g0 = generic_getDataLength g"
  by (simp add: generic_getDataLength_def alike_last_spn split: prod.splits)

lemma alike_head_offset:
  assumes "spns_alike m0 m" and "no_strings m"
  shows "head_offset m0 = head_offset m"
proof (cases m)
  case (Cons e r)
  then obtain e0 r0 where "m0 = e0 # r0" using assms(1) by (cases m0) auto
  with Cons alike_no_strings_Cons(1) [of e0 r0 e r] assms show ?thesis
    by (cases e, cases e0) simp
qed (use assms in simp)

section \<open>Properties\<close>

text \<open>C5: Registering an SPN (where the assertion lets it), deleting one, setting a string and decoding,
  whether it succeeds or throws, keep a generic frame well formed: keys are SPN numbers in order,
  every SPN obeys its constructor's assertions, and strings are never mixed with other SPNs.\<close>

theorem generic_frame_invariant:
  assumes "generic_wf g" and "spn_wf spn"
  shows "(case registerSPN spn g of Inl e \<Rightarrow> e = AssertExit | Inr g' \<Rightarrow> generic_wf g')
    \<and> generic_wf (snd (deleteSPN number g))
    \<and> generic_wf (generic_setString number value g)
    \<and> generic_wf (out_state (generic_decodeData g buffer))"
proof (intro conjI)
  have ok: "smap_ok (mSPNs g)" using assms(1) by (simp add: generic_wf_def)
  show "case registerSPN spn g of Inl e \<Rightarrow> e = AssertExit | Inr g' \<Rightarrow> generic_wf g'"
    using registerSPN_keeps [OF assms] by (auto simp: registerSPN_def Let_def split: sum.split)
  show "generic_wf (snd (deleteSPN number g))" by (rule deleteSPN_keeps [OF assms(1)])
  show "generic_wf (generic_setString number value g)"
    by (rule generic_wf_alike [OF assms(1) generic_setString_alike [OF ok]])
  show "generic_wf (out_state (generic_decodeData g buffer))"
    using generic_decode_alike [OF ok] generic_wf_alike [OF assms(1)]
    by (simp add: generic_decodeData_def)
qed

definition sample_string :: "u32 \<Rightarrow> nat \<Rightarrow> bytes \<Rightarrow> SPN" where
  "sample_string number off v = \<lparr>mSpecId = unat number,
     mSpec = \<lparr>mSPNNumber = number, mSpecName = ''name'', mSpecOffset = 0\<rparr>,
     mSpnData = SpnString off v\<rparr>"

definition sample_strings :: "bytes \<Rightarrow> bytes \<Rightarrow> generic" where
  "sample_strings a b = \<lparr>mLength = 0,
     mSPNs = [(586, sample_string 586 0 a), (587, sample_string 587 (length a + 1) b)]\<rparr>"

lemmas sample_string_simps = sample_strings_def sample_string_def generic_wf_def smap_ok_Cons
  getSpnNumber_def spn_wf_def getType_def

theorem generic_frame_invariant_witness:
  "generic_wf (snd (deleteSPN 586 (sample_strings [0x41] [])))
   \<and> generic_wf (generic_setString 586 [0x41, 0x42] (sample_strings [] []))"
proof -
  have wf: "generic_wf (sample_strings a b)" for a b by (simp add: sample_string_simps)
  have s: "spn_wf (sample_string 588 0 [])" by (simp add: sample_string_simps)
  from generic_frame_invariant [OF wf s] show ?thesis by blast
qed

lemma generic_decode_offsets:
  "generic_wf g \<Longrightarrow> offsets_ok g \<Longrightarrow> generic_decode_spns ks buffer g = Inr g' \<Longrightarrow> offsets_ok g'"
proof (induction ks buffer g rule: generic_decode_spns.induct)
  case (2 k ks buffer g)
  from 2(4) obtain s where s: "smap_find (mSPNs g) k = Some s" and lt: "\<not> getOffset s \<ge> length buffer"
    by (auto simp: Let_def split: option.splits if_splits)
  from 2(4) obtain s' where s': "spn_decode s (drop (getOffset s) buffer) = Inr s'"
    using s lt by (auto simp: Let_def split: sum.splits)
  define m where "m = smap_put k s' (mSPNs g)"
  define g1 where "g1 = g\<lparr>mSPNs := (if getType s' = SPN_STRING
    then recalculateStringOffsets m else m)\<rparr>"
  have ok: "smap_ok (mSPNs g)" using 2(2) by (simp add: generic_wf_def)
  have same: "same_spn s' s" using spn_decode_same [of s "drop (getOffset s) buffer"] s' by simp
  have a1: "spns_alike (mSPNs g1) (mSPNs g)"
    using decode_step_alike [OF ok s same] by (simp only: g1_def m_def)
  have am: "spns_alike m (mSPNs g)" unfolding m_def by (rule spns_alike_put [OF ok s same])
  have off: "getOffset s' = getOffset s"
    using s' by (cases "mSpnData s") (auto simp: spn_decode_def out_map_Inr_iff getOffset_def)
  have "offsets_ok g1"
  proof (cases "getType s' = SPN_STRING")
    case True
    then show ?thesis
      using 2(3) all_strings_alike [OF a1] all_strings_alike [OF am]
        head_offset_update [OF ok s off]
      by (auto simp: offsets_ok_def g1_def recalc_head recalc_consecutive m_def)
  next
    case False
    moreover have "(k, s) \<in> set (mSPNs g)" using s ok by (simp add: smap_find_Some_iff)
    ultimately have "\<not> all_strings (mSPNs g)"
      using same_spn_type [OF same] by (auto simp: all_strings_def)
    then show ?thesis using all_strings_alike [OF a1] by (simp add: offsets_ok_def)
  qed
  moreover have "generic_wf g1" by (rule generic_wf_alike [OF 2(2) a1])
  moreover have "generic_decode_spns ks buffer g1 = Inr g'"
    using 2(4) lt by (auto simp: s s' Let_def g1_def m_def split: if_splits)
  ultimately show ?case
    using 2(1) [OF s refl lt s' refl] unfolding g1_def m_def by blast
qed simp

text \<open>In a frame of strings the first SPN starts at 0 and each one where the previous one ends:
  registering a new string SPN and setting a string keep this, and a decoding that succeeds does,
  although every string decoded moves the ones behind it.\<close>

theorem string_offsets_follow:
  assumes "generic_wf g" and "offsets_ok g" and "spn_wf spn"
    and "getType spn = SPN_STRING \<longrightarrow> getOffset spn = 0"
  shows "(\<forall>g'. registerSPN spn g = Inr g' \<longrightarrow> offsets_ok g')
    \<and> offsets_ok (generic_setString number value g)
    \<and> (\<forall>g'. generic_decodeData g buffer = Inr g' \<longrightarrow> offsets_ok g')"
  using registerSPN_offsets [OF assms] generic_setString_offsets [OF assms(1,2)]
    generic_decode_offsets [OF assms(1,2)]
  by (simp add: generic_decodeData_def)

theorem string_offsets_follow_witness:
  "offsets_ok (generic_setString 586 [0x41, 0x42] (sample_strings [] []))"
proof -
  have "generic_wf (sample_strings [] [])" and "spn_wf (sample_string 588 0 [])"
    by (simp_all add: sample_string_simps)
  moreover have "offsets_ok (sample_strings [] [])"
    by (simp add: offsets_ok_def sample_strings_def sample_string_def head_offset_def getOffset_def
        getByteSize_def)
  moreover have "getType (sample_string 588 0 []) = SPN_STRING \<longrightarrow> getOffset (sample_string 588 0 []) = 0"
    by (simp add: sample_string_def getOffset_def)
  ultimately show ?thesis using string_offsets_follow by blast
qed

text \<open>\<open>getDataLength\<close> is long enough for every SPN when no two of them overlap, and encoding a frame
  of fitting values into that length succeeds and leaves each SPN's value at its offset.\<close>

theorem data_length_covers_spns:
  assumes "generic_valid g" and "(k, s) \<in> set (mSPNs g)"
  shows "getOffset s + spn_size s \<le> generic_getDataLength g
    \<and> (\<exists>bs. generic_encodeData g (replicate (generic_getDataLength g) 0xFF) = Inr bs
          \<and> length bs = generic_getDataLength g
          \<and> spn_decode s (drop (getOffset s) bs) = Inr s)"
proof -
  obtain bs where bs: "generic_encodeData g (replicate (generic_getDataLength g) 0xFF) = Inr bs"
    "length bs = generic_getDataLength g"
    and c: "\<forall>(k, s) \<in> set (mSPNs g). carries s (drop (getOffset s) bs)
        \<and> getOffset s + spn_size s \<le> generic_getDataLength g"
    using generic_encode_valid [OF assms(1) order_refl] by auto
  have v: "spn_valid s" using assms by (auto simp: generic_valid_def)
  have "carries s (drop (getOffset s) bs)" and "getOffset s + spn_size s \<le> generic_getDataLength g"
    using c assms(2) by auto
  with spn_decode_carries [OF v same_spn_refl] bs show ?thesis by auto
qed

lemma sample_strings_valid: "generic_valid (sample_strings [0x41, 0x42] [0x43])"
  by (simp add: generic_valid_def sample_string_simps spn_valid_def is_ascii_def layout_ok_def
      spn_disjoint_def getOffset_def spn_size_def getByteSize_def)

theorem data_length_covers_spns_witness:
  "getOffset (sample_string 587 3 [0x43]) + spn_size (sample_string 587 3 [0x43])
     \<le> generic_getDataLength (sample_strings [0x41, 0x42] [0x43])"
proof -
  have "(587, sample_string 587 3 [0x43]) \<in> set (mSPNs (sample_strings [0x41, 0x42] [0x43]))"
    by (simp add: sample_strings_def numeral_3_eq_3)
  from data_length_covers_spns [OF sample_strings_valid this] show ?thesis by (rule conjunct1)
qed

text \<open>Copying a frame of strings does not copy what it would encode to: the values are taken over but
  the offsets are not recalculated, so that the second string overwrites the end of the first.\<close>

theorem copy_keeps_stale_offsets:
  "\<exists>g. generic_copy (sample_strings [] []) (sample_strings [0x41, 0x42] [0x43]) = Inr g
     \<and> map (\<lambda>(k, s). mSpnData s) (mSPNs g) = [SpnString 0 [0x41, 0x42], SpnString 1 [0x43]]
     \<and> generic_encodeData (sample_strings [0x41, 0x42] [0x43]) (replicate 5 0xFF)
         = Inr [0x41, 0x42, 0x2A, 0x43, 0x2A]
     \<and> generic_encodeData g (replicate 5 0xFF) = Inr [0x41, 0x43, 0x2A, 0xFF, 0xFF]"
  by (rule exI [of _ "\<lparr>mLength = 0, mSPNs = [(586, sample_string 586 0 [0x41, 0x42]),
        (587, sample_string 587 1 [0x43])]\<rparr>"])
     code_simp

text \<open>\<open>compare\<close> lets an SPN be compared when only one of the two messages is long enough for it; the
  other one is then read past its end.\<close>

theorem compare_reads_past_the_end:
  assumes "0 < getByteSize s" and "getOffset s + unat (getByteSize s) \<le> length newData"
    and "length oldData + 1 < getOffset s + unat (getByteSize s)"
  shows "generic_compare ((k, s) # m) newData oldData = Inl UndefinedBehaviour"
  using assms by (simp add: Let_def c_str_range_def peek_def)

theorem compare_reads_past_the_end_witness:
  "generic_compare [(586, sample_string 586 0 [0x41, 0x42])] [0x41, 0x42, 0x2A] [0x41]
     = Inl UndefinedBehaviour"
  by (rule compare_reads_past_the_end)
     (simp_all add: sample_string_def getByteSize_def getOffset_def)

end
