(* ===== verification/Diagnosis.thy ===== *)
theory Diagnosis
  imports GenericFrame
begin

text \<open>
  Diagnostic trouble codes and the DM1 frame: \<open>J1939/Diagnosis/DTC.cpp\<close>,
  \<open>J1939/Diagnosis/Frames/DM1.cpp\<close> and their headers. DM1 is a generic frame of eight lamp
  statuses followed by a list of trouble codes.
\<close>

section \<open>DTC\<close>

record DTC =
  mSPN :: u32
  mFMI :: u8
  mOC :: u8

abbreviation (input) DTC_SIZE :: nat where "DTC_SIZE \<equiv> 4"

definition DTC_init :: DTC where
  "DTC_init = \<lparr>mSPN = 0, mFMI = 0, mOC = 0\<rparr>"

definition dtc_decode :: "DTC \<Rightarrow> bytes \<Rightarrow> DTC outcome" where
  "dtc_decode d buffer =
     (if length buffer < DTC_SIZE then Inl (UndefinedBehaviour, d)
      else if buffer ! 3 AND 0x80 \<noteq> 0
      then Inl (J1939DecodeException ''DTC: Unknown conversion method'', d)
      else Inr \<lparr>mSPN = ucast (buffer ! 0) OR push_bit 8 (ucast (buffer ! 1))
                      OR push_bit 11 (ucast (buffer ! 2 AND NOT 0x1F)),
                mFMI = buffer ! 2 AND 0x1F,
                mOC = buffer ! 3 AND 0x7F\<rparr>)"

definition dtc_bytes :: "DTC \<Rightarrow> bytes" where
  "dtc_bytes d =
     [ucast (mSPN d AND 0xFF),
      ucast (drop_bit 8 (mSPN d) AND 0xFF),
      ucast (drop_bit 11 (mSPN d) AND NOT 0x1F) OR (mFMI d AND 0x1F),
      (mOC d AND 0x7F) AND NOT 0x80]"

definition dtc_encode :: "DTC \<Rightarrow> nat \<Rightarrow> bytes \<Rightarrow> bytes res" where
  "dtc_encode d offset buffer = poke offset (dtc_bytes d) buffer"

definition dtc_valid :: "DTC \<Rightarrow> bool" where
  "dtc_valid d \<longleftrightarrow> mSPN d < 2 ^ 19 \<and> mFMI d < 2 ^ 5 \<and> mOC d < 2 ^ 7"

lemma dtc_bytes_length [simp]: "length (dtc_bytes d) = 4"
  by (simp add: dtc_bytes_def)

text \<open>Each field as the decoder rebuilds it, reduced to its width.\<close>

lemma dtc_fields:
  "ucast (ucast (w AND 0xFF) :: u8) OR push_bit 8 (ucast (ucast (drop_bit 8 w AND 0xFF) :: u8))
     OR push_bit 11 (ucast ((ucast (drop_bit 11 w AND NOT 0x1F) OR (f AND 0x1F)) AND NOT 0x1F :: u8))
     = (w AND mask 19 :: u32)"
  "((ucast (drop_bit 11 w AND NOT 0x1F) OR (f AND 0x1F)) AND 0x1F :: u8) = f AND mask 5"
  "(((c AND 0x7F) AND NOT 0x80) AND 0x7F :: u8) = c AND mask 7"
  "((c AND 0x7F) AND NOT 0x80) AND 0x80 = (0 :: u8)"
proof -
  have h: "(0x80 :: u8) = push_bit 7 (mask 1)" by (simp add: mask_eq_exp_minus_1 push_bit_eq_mult)
  show "ucast (ucast (w AND 0xFF) :: u8) OR push_bit 8 (ucast (ucast (drop_bit 8 w AND 0xFF) :: u8))
     OR push_bit 11 (ucast ((ucast (drop_bit 11 w AND NOT 0x1F) OR (f AND 0x1F)) AND NOT 0x1F :: u8))
     = (w AND mask 19 :: u32)"
    unfolding mask_eqs
    by (rule bit_word_eqI) (simp only: bit_simps, auto simp: bit_arith split: if_splits)
  show "((ucast (drop_bit 11 w AND NOT 0x1F) OR (f AND 0x1F)) AND 0x1F :: u8) = f AND mask 5"
    unfolding mask_eqs by (rule bit_word_eqI) (simp only: bit_simps, auto)
  show "(((c AND 0x7F) AND NOT 0x80) AND 0x7F :: u8) = c AND mask 7"
    unfolding mask_eqs h by (rule bit_word_eqI) (simp only: bit_simps, auto)
  show "((c AND 0x7F) AND NOT 0x80) AND 0x80 = (0 :: u8)"
    unfolding mask_eqs h by (rule bit_word_eqI) (simp only: bit_simps, auto)
qed

lemma dtc_decode_bytes:
  "dtc_decode d0 (dtc_bytes d) =
     Inr \<lparr>mSPN = mSPN d AND mask 19, mFMI = mFMI d AND mask 5, mOC = mOC d AND mask 7\<rparr>"
proof -
  have n: "dtc_bytes d ! 0 = ucast (mSPN d AND 0xFF)"
    "dtc_bytes d ! 1 = ucast (drop_bit 8 (mSPN d) AND 0xFF)"
    "dtc_bytes d ! 2 = ucast (drop_bit 11 (mSPN d) AND NOT 0x1F) OR (mFMI d AND 0x1F)"
    "dtc_bytes d ! 3 = (mOC d AND 0x7F) AND NOT 0x80"
    by (simp_all add: dtc_bytes_def)
  show ?thesis
    by (simp only: dtc_decode_def dtc_bytes_length n dtc_fields less_irrefl if_False simp_thms)
qed

lemma dtc_roundtrip: "dtc_valid d \<Longrightarrow> dtc_decode d0 (dtc_bytes d) = Inr d"
  using less_mask_eq [of "mSPN d" 19] less_mask_eq [of "mFMI d" 5] less_mask_eq [of "mOC d" 7]
  by (simp only: dtc_decode_bytes dtc_valid_def) simp

section \<open>DM1\<close>

record dm1 =
  mGeneric :: generic
  mDtcs :: "DTC list"

abbreviation (input) DM1_PGN :: u32 where "DM1_PGN \<equiv> 0x00FECA"
abbreviation (input) DM1_MINIMUM_LENGTH :: nat where "DM1_MINIMUM_LENGTH \<equiv> 8"

text \<open>
  \<open>registerSPN\<close> of a status lamp, in a constructor; \<open>ref\<close> is the identity its specification
  gets.
\<close>

definition register_lamp ::
  "nat \<Rightarrow> u32 \<Rightarrow> string \<Rightarrow> nat \<Rightarrow> u8 \<Rightarrow> generic \<Rightarrow> generic res" where
  "register_lamp ref number name offset bitOffset g =
     res_bind (SPNStatus ref number name offset bitOffset 2 []) (\<lambda>spn. registerSPN spn g)"

definition dm1_lamps :: "nat \<Rightarrow> generic \<Rightarrow> generic res" where
  "dm1_lamps ref g =
     res_bind (register_lamp ref 1213 ''Malfunction indicator Lamp Status'' 0 6 g) (\<lambda>g.
     res_bind (register_lamp (ref + 1) 623 ''Red Stop Lamp Status'' 0 4 g) (\<lambda>g.
     res_bind (register_lamp (ref + 2) 624 ''Amber Warning Lamp Status'' 0 2 g) (\<lambda>g.
     res_bind (register_lamp (ref + 3) 987 ''Protect Lamp Status'' 0 0 g) (\<lambda>g.
     res_bind (register_lamp (ref + 4) 3038 ''Flash Malfunction indicator Lamp Status'' 1 6 g) (\<lambda>g.
     res_bind (register_lamp (ref + 5) 3039 ''Flash Red Stop Lamp Status'' 1 4 g) (\<lambda>g.
     res_bind (register_lamp (ref + 6) 3040 ''Flash Amber Warning Lamp Status'' 1 2 g) (\<lambda>g.
       register_lamp (ref + 7) 3041 ''Flash Protect Lamp Status'' 1 0 g)))))))"

definition DM1 :: "nat \<Rightarrow> dm1 frame res" where
  "DM1 ref =
     res_bind (frame_ctor DM1_PGN \<lparr>mGeneric = \<lparr>mLength = 0, mSPNs = []\<rparr>, mDtcs = []\<rparr>) (\<lambda>f.
     res_bind (dm1_lamps ref (mGeneric (mBody f))) (\<lambda>g.
       Inr (f\<lparr>mBody := (mBody f)\<lparr>mGeneric := g\<rparr>, mName := ''DM1''\<rparr>)))"

fun decode_dtcs :: "bytes \<Rightarrow> DTC list \<Rightarrow> DTC list outcome" where
  "decode_dtcs buffer dtcs =
     (if length buffer < DTC_SIZE then Inr dtcs
      else (case dtc_decode DTC_init (take DTC_SIZE buffer) of
              Inl (e, d) \<Rightarrow> Inl (e, dtcs)
            | Inr d \<Rightarrow> decode_dtcs (drop DTC_SIZE buffer)
                        (if mSPN d \<noteq> 0 then dtcs @ [d] else dtcs)))"

declare decode_dtcs.simps [simp del]

text \<open>
  The lamps are decoded with their own length, whatever the length received: an SPN that lies
  behind the end of the buffer is read from foreign memory.
\<close>

definition dm1_decodeData :: "dm1 \<Rightarrow> bytes \<Rightarrow> dm1 outcome" where
  "dm1_decodeData f buffer =
     (let g = mGeneric f; lampStatLength = generic_getDataLength g
      in if list_ex (\<lambda>(k, s). getOffset s + unat (getByteSize s) > length buffer) (mSPNs g)
         then Inl (UndefinedBehaviour, f)
         else out_bind (out_map (\<lambda>g'. f\<lparr>mGeneric := g'\<rparr>)
                (generic_decodeData g
                  (take lampStatLength buffer @ replicate (lampStatLength - length buffer) 0)))
           (\<lambda>f1. out_map (\<lambda>ds. f1\<lparr>mDtcs := ds\<rparr>)
                   (decode_dtcs (drop lampStatLength buffer) (mDtcs f1)))
           id)"

fun encode_dtcs :: "DTC list \<Rightarrow> nat \<Rightarrow> bytes \<Rightarrow> bytes res" where
  "encode_dtcs [] offset buffer = Inr buffer"
| "encode_dtcs (d # ds) offset buffer =
     res_bind (dtc_encode d offset buffer) (encode_dtcs ds (offset + DTC_SIZE))"

definition dm1_encodeData :: "dm1 \<Rightarrow> bytes \<Rightarrow> bytes res" where
  "dm1_encodeData f buffer =
     (let lampStatLength = generic_getDataLength (mGeneric f)
      in if length buffer < lampStatLength then Inl UndefinedBehaviour
         else
           res_bind (generic_encodeData (mGeneric f) (take lampStatLength buffer)) (\<lambda>b.
             let buffer1 = b @ drop lampStatLength buffer
             in if lampStatLength \<noteq> 2
                then Inl (J1939EncodeException
                  ''[DM1::encodeData] SPNs are not expected to fit within more than 2 bytes'')
                else
                  res_bind (encode_dtcs (mDtcs f) lampStatLength buffer1) (\<lambda>buffer2.
                    if mDtcs f = []
                    then res_bind (poke lampStatLength (replicate 4 0) buffer2)
                           (poke (lampStatLength + 4) (replicate 2 0xFF))
                    else Inr buffer2)))"

definition dm1_getDataLength :: "dm1 \<Rightarrow> nat" where
  "dm1_getDataLength f =
     (let n = generic_getDataLength (mGeneric f) + DTC_SIZE * length (mDtcs f)
      in if n > DM1_MINIMUM_LENGTH then n else DM1_MINIMUM_LENGTH)"

definition addDTC :: "DTC \<Rightarrow> dm1 \<Rightarrow> dm1" where
  "addDTC dtc f = f\<lparr>mDtcs := mDtcs f @ [dtc]\<rparr>"

definition deleteDTC :: "nat \<Rightarrow> dm1 \<Rightarrow> bool \<times> dm1" where
  "deleteDTC pos f =
     (if pos \<ge> length (mDtcs f) then (False, f)
      else (True, f\<lparr>mDtcs := take pos (mDtcs f) @ drop (pos + 1) (mDtcs f)\<rparr>))"

definition setDTC :: "nat \<Rightarrow> DTC \<Rightarrow> dm1 \<Rightarrow> bool \<times> dm1" where
  "setDTC pos dtc f =
     (if pos \<ge> length (mDtcs f) then (False, f)
      else (True, f\<lparr>mDtcs := (mDtcs f)[pos := dtc]\<rparr>))"

text \<open>\<open>copy\<close> from another DM1 (the class the cast assumes when the PGNs agree).\<close>

definition dm1_copy :: "dm1 \<Rightarrow> dm1 \<Rightarrow> dm1 outcome" where
  "dm1_copy this other =
     out_bind (out_map (\<lambda>g. this\<lparr>mGeneric := g\<rparr>) (generic_copy (mGeneric this) (mGeneric other)))
       (\<lambda>f. Inr (f\<lparr>mDtcs := mDtcs other\<rparr>)) id"

section \<open>Codec\<close>

definition dm1_valid :: "dm1 \<Rightarrow> bool" where
  "dm1_valid f \<longleftrightarrow> generic_valid (mGeneric f) \<and> generic_getDataLength (mGeneric f) = 2
     \<and> no_strings (mSPNs (mGeneric f)) \<and> (\<forall>d \<in> set (mDtcs f). dtc_valid d \<and> mSPN d \<noteq> 0)"

text \<open>
  Decoding appends to the codes the object already has, so the receiving object has to be fresh.
\<close>

definition dm1_takes :: "dm1 \<Rightarrow> dm1 \<Rightarrow> bool" where
  "dm1_takes f0 f \<longleftrightarrow> generic_takes (mGeneric f0) (mGeneric f) \<and> mDtcs f0 = []"

lemma encode_dtcs_eq:
  "length b = offset \<Longrightarrow> length rest \<ge> 4 * length ds \<Longrightarrow>
     encode_dtcs ds offset (b @ rest)
       = Inr (b @ concat (map dtc_bytes ds) @ drop (4 * length ds) rest)"
proof (induction ds arbitrary: offset b rest)
  case (Cons d ds)
  have "dtc_encode d offset (b @ rest) = Inr ((b @ dtc_bytes d) @ drop 4 rest)"
    using Cons.prems by (simp add: dtc_encode_def poke_def)
  then show ?case
    using Cons.IH [of "b @ dtc_bytes d" "offset + 4" "drop 4 rest"] Cons.prems
    by (simp add: add.commute)
qed simp

lemma decode_dtcs_eq:
  "\<forall>d \<in> set ds. dtc_valid d \<and> mSPN d \<noteq> 0 \<Longrightarrow> length rest < 4 \<Longrightarrow>
     decode_dtcs (concat (map dtc_bytes ds) @ rest) acc = Inr (acc @ ds)"
proof (induction ds arbitrary: acc)
  case Nil
  then show ?case by (simp add: decode_dtcs.simps [of rest])
next
  case (Cons d ds)
  then show ?case
    by (subst decode_dtcs.simps) (simp add: dtc_roundtrip)
qed

lemma dm1_length: "dm1_valid f \<Longrightarrow> dm1_getDataLength f = max 8 (2 + 4 * length (mDtcs f))"
  by (auto simp: dm1_getDataLength_def dm1_valid_def)

text \<open>The bytes after the lamps.\<close>

definition dm1_tail :: "dm1 \<Rightarrow> bytes" where
  "dm1_tail f =
     (if mDtcs f = [] then replicate 4 0 @ replicate 2 0xFF
      else concat (map dtc_bytes (mDtcs f)) @ (if length (mDtcs f) = 1 then replicate 2 0xFF else []))"

lemma dm1_tail_length: "dm1_valid f \<Longrightarrow> 2 + length (dm1_tail f) = dm1_getDataLength f"
  by (cases "mDtcs f" rule: remdups_adj.cases)
     (simp_all add: dm1_length dm1_tail_def length_concat o_def sum_list_triv eval_nat_numeral)

lemma dm1_encode_eq:
  assumes "dm1_valid f"
  shows "\<exists>b. dm1_encodeData f (replicate (dm1_getDataLength f) 0xFF) = Inr (b @ dm1_tail f)
    \<and> length b = 2 \<and> (\<forall>(k, s) \<in> set (mSPNs (mGeneric f)).
          carries s (drop (getOffset s) b) \<and> getOffset s + spn_size s \<le> 2)"
proof -
  have gv: "generic_valid (mGeneric f)" and gl: "generic_getDataLength (mGeneric f) = 2"
    using assms by (simp_all add: dm1_valid_def)
  obtain b where b: "generic_encodeData (mGeneric f) (replicate 2 0xFF) = Inr b" "length b = 2"
    and c: "\<forall>(k, s) \<in> set (mSPNs (mGeneric f)).
      carries s (drop (getOffset s) b) \<and> getOffset s + spn_size s \<le> 2"
    using generic_encode_valid [OF gv, of 2] by (auto simp only: gl order_refl simp_thms)
  define n where "n = dm1_getDataLength f"
  have n: "n = max 8 (2 + 4 * length (mDtcs f))" using dm1_length [OF assms] by (simp add: n_def)
  have enc: "encode_dtcs (mDtcs f) 2 (b @ replicate (n - 2) 0xFF)
      = Inr (b @ concat (map dtc_bytes (mDtcs f)) @ replicate (n - 2 - 4 * length (mDtcs f)) 0xFF)"
    using encode_dtcs_eq [OF b(2), of "mDtcs f" "replicate (n - 2) 0xFF"] n by simp
  have "dm1_encodeData f (replicate n 0xFF) = Inr (b @ dm1_tail f)"
  proof (cases "mDtcs f")
    case Nil
    then have "n - 2 = 6" using n by simp
    with enc Nil b show ?thesis
      by (simp add: dm1_encodeData_def gl n dm1_tail_def poke_def min_def)
  next
    case (Cons d ds)
    have "n - 2 - 4 * length (mDtcs f) = (if length (mDtcs f) = 1 then 2 else 0)"
      using Cons n by (cases ds) auto
    moreover have "2 \<le> n" using n by simp
    ultimately show ?thesis
      using enc Cons b by (simp add: dm1_encodeData_def gl dm1_tail_def min_def)
  qed
  with b(2) c show ?thesis by (auto simp: n_def)
qed

lemma zero_dtc: "dtc_bytes DTC_init = replicate 4 0"
  by (simp add: dtc_bytes_def DTC_init_def eval_nat_numeral)

lemma decode_dtcs_tail:
  assumes "dm1_valid f"
  shows "decode_dtcs (dm1_tail f) [] = Inr (mDtcs f)"
proof (cases "mDtcs f")
  case Nil
  have "dtc_decode DTC_init (replicate 4 0) = Inr DTC_init"
    using dtc_roundtrip [of DTC_init DTC_init]
    by (simp add: zero_dtc [symmetric]) (simp add: dtc_valid_def DTC_init_def)
  moreover have "dm1_tail f = replicate 4 0 @ replicate 2 0xFF" by (simp add: dm1_tail_def Nil)
  ultimately show ?thesis
    by (simp add: Nil decode_dtcs.simps [of "replicate 4 0 @ replicate 2 0xFF"] DTC_init_def
        decode_dtcs.simps [of "replicate 2 0xFF"])
next
  case (Cons d ds)
  have "\<forall>d \<in> set (mDtcs f). dtc_valid d \<and> mSPN d \<noteq> 0" using assms by (simp add: dm1_valid_def)
  from decode_dtcs_eq [OF this, of "if length (mDtcs f) = 1 then replicate 2 0xFF else []" "[]"]
  show ?thesis by (simp add: dm1_tail_def Cons)
qed

lemma dm1_decode_encoded:
  assumes v: "dm1_valid f" and t: "dm1_takes f0 f" and b: "length b = 2"
    and c: "\<forall>(k, s) \<in> set (mSPNs (mGeneric f)).
      carries s (drop (getOffset s) b) \<and> getOffset s + spn_size s \<le> 2"
  shows "dm1_decodeData f0 (b @ dm1_tail f) = Inr f"
proof -
  have gv: "generic_valid (mGeneric f)" and gl: "generic_getDataLength (mGeneric f) = 2"
    and ns: "no_strings (mSPNs (mGeneric f))"
    using v by (simp_all add: dm1_valid_def)
  have gt: "generic_takes (mGeneric f0) (mGeneric f)" and d0: "mDtcs f0 = []"
    using t by (simp_all add: dm1_takes_def)
  then have alike: "spns_alike (mSPNs (mGeneric f0)) (mSPNs (mGeneric f))"
    and "mLength (mGeneric f0) = mLength (mGeneric f)"
    by (simp_all add: generic_takes_def)
  with ns gl have gl0: "generic_getDataLength (mGeneric f0) = 2"
    by (simp add: alike_getDataLength)
  have "getOffset s0 + unat (getByteSize s0) \<le> 2" if "(k, s0) \<in> set (mSPNs (mGeneric f0))" for k s0
  proof -
    obtain s where s: "(k, s) \<in> set (mSPNs (mGeneric f))" "same_spn s0 s"
      using spns_alike_mem [OF alike \<open>(k, s0) \<in> set _\<close>] by blast
    have st: "getType s \<noteq> SPN_STRING" using s(1) ns by (auto simp: no_strings_def)
    have "spn_valid s" using gv s(1) by (auto simp: generic_valid_def)
    then have "getOffset s + unat (getByteSize s) \<le> 2" using c s(1) by (auto simp: getByteSize_size)
    then show ?thesis
      using same_spn_offset [OF s(2)] same_spn_bytes [OF s(2) st] same_spn_type [OF s(2)] st by simp
  qed
  then have inb: "\<not> list_ex (\<lambda>(k, s). getOffset s + unat (getByteSize s) > length (b @ dm1_tail f))
      (mSPNs (mGeneric f0))"
    using b by (fastforce simp: list_ex_iff)
  have "generic_decodeData (mGeneric f0) b = Inr (mGeneric f)"
    by (rule generic_decode_carried [OF gv gt]) (use c b in simp)
  then show ?thesis
    using inb b decode_dtcs_tail [OF v]
    by (simp add: dm1_decodeData_def gl0 d0 Let_def)
qed

interpretation dm1_codec: frame_codec dm1_getDataLength dm1_encodeData dm1_decodeData
  dm1_valid dm1_takes
proof unfold_locales
  fix p assume v: "dm1_valid p"
  from dm1_encode_eq [OF v] dm1_tail_length [OF v]
  show "\<exists>bs. dm1_encodeData p (replicate (dm1_getDataLength p) 0xFF) = Inr bs
      \<and> length bs = dm1_getDataLength p"
    by fastforce
next
  fix p p0 bs
  assume v: "dm1_valid p" and t: "dm1_takes p0 p"
    and e: "dm1_encodeData p (replicate (dm1_getDataLength p) 0xFF) = Inr bs"
  from dm1_encode_eq [OF v] e obtain b where "bs = b @ dm1_tail p" "length b = 2"
    "\<forall>(k, s) \<in> set (mSPNs (mGeneric p)).
      carries s (drop (getOffset s) b) \<and> getOffset s + spn_size s \<le> 2"
    by auto
  with dm1_decode_encoded [OF v t] show "dm1_decodeData p0 bs = Inr p" by simp
qed

section \<open>Properties\<close>

text \<open>A trouble code survives its four bytes: what the decoder rebuilds is the code reduced to 19 bits
  of SPN, 5 of failure mode and 7 of occurrence count, and the conversion-method bit that would make
  the decoder throw is never set.\<close>

theorem dtc_on_the_wire:
  "dtc_decode d0 (dtc_bytes d) =
     Inr \<lparr>mSPN = mSPN d AND mask 19, mFMI = mFMI d AND mask 5, mOC = mOC d AND mask 7\<rparr>"
  by (rule dtc_decode_bytes)

lemma decode_dtcs_append:
  "decode_dtcs buf (xs @ ys) = out_map ((@) xs) (decode_dtcs buf ys)"
proof (induction buf ys rule: decode_dtcs.induct)
  case (1 buf ys)
  show ?case
  proof (cases "length buf < 4")
    case True
    then show ?thesis by (simp add: decode_dtcs.simps [of buf])
  next
    case False
    with 1 show ?thesis
      by (cases "dtc_decode DTC_init (take 4 buf)" rule: out_state.cases)
         (auto simp: decode_dtcs.simps [of buf])
  qed
qed

lemma dm1_decode_Inr:
  "dm1_decodeData f bs = Inr f' \<longleftrightarrow>
     \<not> list_ex (\<lambda>(k, s). getOffset s + unat (getByteSize s) > length bs) (mSPNs (mGeneric f))
     \<and> (\<exists>g ds. generic_decodeData (mGeneric f)
            (take (generic_getDataLength (mGeneric f)) bs
             @ replicate (generic_getDataLength (mGeneric f) - length bs) 0) = Inr g
          \<and> decode_dtcs (drop (generic_getDataLength (mGeneric f)) bs) (mDtcs f) = Inr ds
          \<and> f' = \<lparr>mGeneric = g, mDtcs = ds\<rparr>)"
proof -
  have bind: "out_bind (out_map (\<lambda>g'. f\<lparr>mGeneric := g'\<rparr>) x)
      (\<lambda>f1. out_map (\<lambda>ds. f1\<lparr>mDtcs := ds\<rparr>) (h (mDtcs f1))) id = Inr f'
    \<longleftrightarrow> (\<exists>g ds. x = Inr g \<and> h (mDtcs f) = Inr ds \<and> f' = \<lparr>mGeneric = g, mDtcs = ds\<rparr>)" for x h
    by (cases x rule: out_state.cases) (auto simp: out_map_Inr_iff)
  show ?thesis by (auto simp: dm1_decodeData_def Let_def bind)
qed

text \<open>Trouble codes accumulate: decoding a DM1 into an object that already holds codes appends the
  new ones to the old ones, while the lamps are replaced.\<close>

theorem dm1_decode_accumulates:
  assumes "dm1_valid f" and "generic_takes (mGeneric f0) (mGeneric f)"
    and "dm1_encodeData f (replicate (dm1_getDataLength f) 0xFF) = Inr bs"
  shows "dm1_decodeData f0 bs = Inr \<lparr>mGeneric = mGeneric f, mDtcs = mDtcs f0 @ mDtcs f\<rparr>"
proof -
  have "dm1_takes (f0\<lparr>mDtcs := []\<rparr>) f" using assms(2) by (simp add: dm1_takes_def)
  from dm1_codec.decode_ok [OF assms(1) this assms(3)]
  have "dm1_decodeData (f0\<lparr>mDtcs := []\<rparr>) bs = Inr f" .
  then show ?thesis
    using decode_dtcs_append [of _ "mDtcs f0" "[]"] by (auto simp: dm1_decode_Inr)
qed

definition sample_lamps :: generic where
  "sample_lamps = \<lparr>mLength = 0, mSPNs = map (\<lambda>(n, off, bit). (n, \<lparr>mSpecId = unat n,
       mSpec = \<lparr>mSPNNumber = n, mSpecName = ''lamp'', mSpecOffset = off\<rparr>,
       mSpnData = SpnStatus \<lparr>mBitOffset = bit, mBitSize = 2, mValueToDesc = []\<rparr> 1\<rparr>))
     [(623, 0, 4), (624, 0, 2), (3038, 1, 6), (3041, 1, 0)]\<rparr>"

lemma sample_lamps_valid: "generic_valid sample_lamps" "generic_getDataLength sample_lamps = 2"
  "no_strings (mSPNs sample_lamps)"
  by (simp_all add: sample_lamps_def generic_valid_def sample_string_simps spn_valid_def layout_ok_def
      spn_disjoint_def getOffset_def spn_size_def getByteSize_def all_strings_def no_strings_def
      generic_getDataLength_def last_spn_def)

definition sample_dm1 :: "DTC list \<Rightarrow> dm1" where
  "sample_dm1 ds = \<lparr>mGeneric = sample_lamps, mDtcs = ds\<rparr>"

theorem dm1_decode_accumulates_witness:
  "\<exists>bs. dm1_encodeData (sample_dm1 [\<lparr>mSPN = 100, mFMI = 1, mOC = 2\<rparr>]) (replicate 8 0xFF) = Inr bs
     \<and> dm1_decodeData (sample_dm1 [\<lparr>mSPN = 7, mFMI = 3, mOC = 1\<rparr>]) bs
         = Inr (sample_dm1 [\<lparr>mSPN = 7, mFMI = 3, mOC = 1\<rparr>, \<lparr>mSPN = 100, mFMI = 1, mOC = 2\<rparr>])"
proof -
  let ?f = "sample_dm1 [\<lparr>mSPN = 100, mFMI = 1, mOC = 2\<rparr>]"
  have v: "dm1_valid ?f"
    using sample_lamps_valid by (simp add: dm1_valid_def sample_dm1_def dtc_valid_def)
  have "dm1_getDataLength ?f = 8" using dm1_length [OF v] by (simp add: sample_dm1_def)
  then obtain bs where bs: "dm1_encodeData ?f (replicate 8 0xFF) = Inr bs"
    using dm1_encode_eq [OF v] by auto
  have "generic_takes (mGeneric (sample_dm1 [\<lparr>mSPN = 7, mFMI = 3, mOC = 1\<rparr>])) (mGeneric ?f)"
    by (simp add: generic_takes_def sample_dm1_def)
  from dm1_decode_accumulates [OF v this] bs \<open>dm1_getDataLength ?f = 8\<close>
  show ?thesis by (simp add: sample_dm1_def)
qed

end
