(* ===== verification/Frames.thy ===== *)
theory Frames
  imports TransportFrames AddressClaim RequestFrame FMS1 Diagnosis
begin

text \<open>
  The class hierarchy below \<open>J1939Frame\<close> as a sum of the derived classes' parts, with the
  virtual methods (\<open>J1939/include/J1939Frame.h\<close>) as dispatch on it. A
  \<open>payload frame\<close> is a frame whose dynamic class is the payload's constructor;
  \<open>clone\<close> copies it. The contract of \<open>frame_codec\<close> for the sum gives the round trip of every
  frame the library can make.
\<close>

datatype payload =
    TPCM tpcm
  | TPDT tpdt
  | FMS1P fms1
  | DM1P dm1
  | AddrClaim EcuName
  | Request request
  | Generic generic

type_synonym jframe = "payload frame"

definition as_frame :: "('p \<Rightarrow> payload) \<Rightarrow> 'p frame \<Rightarrow> jframe" where
  "as_frame c f = \<lparr>mPriority = mPriority f, mSrcAddr = mSrcAddr f, mPgn = mPgn f,
     mDstAddr = mDstAddr f, mName = mName f, mBody = c (mBody f)\<rparr>"

fun payload_decodeData :: "payload \<Rightarrow> bytes \<Rightarrow> payload outcome" where
  "payload_decodeData (TPCM m) b = out_map TPCM (tpcm_decodeData m b)"
| "payload_decodeData (TPDT m) b = out_map TPDT (tpdt_decodeData m b)"
| "payload_decodeData (FMS1P m) b = out_map FMS1P (fms1_decodeData m b)"
| "payload_decodeData (DM1P m) b = out_map DM1P (dm1_decodeData m b)"
| "payload_decodeData (AddrClaim m) b = out_map AddrClaim (addrclaim_decodeData m b)"
| "payload_decodeData (Request m) b = out_map Request (request_decodeData m b)"
| "payload_decodeData (Generic m) b = out_map Generic (generic_decodeData m b)"

fun payload_encodeData :: "payload \<Rightarrow> bytes \<Rightarrow> bytes res" where
  "payload_encodeData (TPCM m) b = tpcm_encodeData m b"
| "payload_encodeData (TPDT m) b = tpdt_encodeData m b"
| "payload_encodeData (FMS1P m) b = fms1_encodeData m b"
| "payload_encodeData (DM1P m) b = dm1_encodeData m b"
| "payload_encodeData (AddrClaim m) b = addrclaim_encodeData m b"
| "payload_encodeData (Request m) b = request_encodeData m b"
| "payload_encodeData (Generic m) b = generic_encodeData m b"

fun payload_getDataLength :: "payload \<Rightarrow> nat" where
  "payload_getDataLength (TPCM m) = tpcm_getDataLength m"
| "payload_getDataLength (TPDT m) = tpdt_getDataLength m"
| "payload_getDataLength (FMS1P m) = fms1_getDataLength m"
| "payload_getDataLength (DM1P m) = dm1_getDataLength m"
| "payload_getDataLength (AddrClaim m) = addrclaim_getDataLength m"
| "payload_getDataLength (Request m) = request_getDataLength m"
| "payload_getDataLength (Generic m) = generic_getDataLength m"

fun payload_isGenericFrame :: "payload \<Rightarrow> bool" where
  "payload_isGenericFrame (DM1P m) = True"
| "payload_isGenericFrame (Generic m) = True"
| "payload_isGenericFrame _ = False"

definition jframe_decode :: "jframe \<Rightarrow> u32 \<Rightarrow> bytes \<Rightarrow> jframe outcome" where
  "jframe_decode = frame_decode payload_decodeData"

definition jframe_encode :: "jframe \<Rightarrow> nat \<Rightarrow> (u32 \<times> bytes \<times> nat) res" where
  "jframe_encode = frame_encode payload_getDataLength payload_encodeData"

definition jframe_getDataLength :: "jframe \<Rightarrow> nat" where
  "jframe_getDataLength f = payload_getDataLength (mBody f)"

text \<open>
  \<open>copy\<close>: the base class copies through the wire, a generic frame SPN by SPN (a DM1 is one), and
  DM1 its trouble codes when the PGNs agree, whatever the class of the other frame is.
\<close>

fun payload_generic :: "payload \<Rightarrow> generic option" where
  "payload_generic (Generic g) = Some g"
| "payload_generic (DM1P m) = Some (mGeneric m)"
| "payload_generic _ = None"

definition jframe_copy :: "jframe \<Rightarrow> jframe \<Rightarrow> jframe outcome" where
  "jframe_copy this other =
     (case mBody this of
        Generic g \<Rightarrow>
          (case payload_generic (mBody other) of
             None \<Rightarrow> Inr this
           | Some og \<Rightarrow> out_map (\<lambda>g'. this\<lparr>mBody := Generic g'\<rparr>) (generic_copy g og))
      | DM1P m \<Rightarrow>
          out_bind
            (case payload_generic (mBody other) of
               None \<Rightarrow> Inr m
             | Some og \<Rightarrow> out_map (\<lambda>g'. m\<lparr>mGeneric := g'\<rparr>) (generic_copy (mGeneric m) og))
            (\<lambda>m1. if mPgn other = mPgn this
                   then (case mBody other of
                           DM1P om \<Rightarrow> Inr (this\<lparr>mBody := DM1P (m1\<lparr>mDtcs := mDtcs om\<rparr>)\<rparr>)
                         | _ \<Rightarrow> Inl (UndefinedBehaviour, this\<lparr>mBody := DM1P m1\<rparr>))
                   else Inr (this\<lparr>mBody := DM1P m1\<rparr>))
            (\<lambda>m1. this\<lparr>mBody := DM1P m1\<rparr>)
      | _ \<Rightarrow> frame_copy payload_getDataLength payload_encodeData payload_decodeData this other)"

section \<open>Codec of the sum\<close>

fun payload_valid :: "payload \<Rightarrow> bool" where
  "payload_valid (TPCM m) = tpcm_valid m"
| "payload_valid (TPDT m) = tpdt_valid m"
| "payload_valid (FMS1P m) = fms1_valid m"
| "payload_valid (DM1P m) = dm1_valid m"
| "payload_valid (AddrClaim m) = ecu_valid m"
| "payload_valid (Request m) = request_valid m"
| "payload_valid (Generic m) = generic_valid m"

fun payload_takes :: "payload \<Rightarrow> payload \<Rightarrow> bool" where
  "payload_takes (TPCM m0) (TPCM m) = tpcm_takes m0 m"
| "payload_takes (TPDT m0) (TPDT m) = True"
| "payload_takes (FMS1P m0) (FMS1P m) = fms1_wf m0"
| "payload_takes (DM1P m0) (DM1P m) = dm1_takes m0 m"
| "payload_takes (AddrClaim m0) (AddrClaim m) = True"
| "payload_takes (Request m0) (Request m) = True"
| "payload_takes (Generic m0) (Generic m) = generic_takes m0 m"
| "payload_takes _ _ = False"

interpretation payload_codec: frame_codec payload_getDataLength payload_encodeData
  payload_decodeData payload_valid payload_takes
proof unfold_locales
  fix p assume "payload_valid p"
  then show "\<exists>bs. payload_encodeData p (replicate (payload_getDataLength p) 0xFF) = Inr bs
      \<and> length bs = payload_getDataLength p"
    by (cases p)
       (simp_all add: tpcm_codec.encode_ok tpdt_codec.encode_ok fms1_codec.encode_ok
          dm1_codec.encode_ok addrclaim_codec.encode_ok request_codec.encode_ok
          generic_codec.encode_ok)
next
  fix p p0 bs
  assume "payload_valid p" and "payload_takes p0 p"
    and "payload_encodeData p (replicate (payload_getDataLength p) 0xFF) = Inr bs"
  then show "payload_decodeData p0 bs = Inr p"
    by (cases "(p0, p)" rule: payload_takes.cases)
       (simp_all add: tpcm_codec.decode_ok tpdt_codec.decode_ok fms1_codec.decode_ok
          dm1_codec.decode_ok addrclaim_codec.decode_ok request_codec.decode_ok
          generic_codec.decode_ok)
qed

lemma as_frame_simps [simp]:
  "mPriority (as_frame c f) = mPriority f" "mSrcAddr (as_frame c f) = mSrcAddr f"
  "mPgn (as_frame c f) = mPgn f" "mDstAddr (as_frame c f) = mDstAddr f"
  "mName (as_frame c f) = mName f" "mBody (as_frame c f) = c (mBody f)"
  by (simp_all add: as_frame_def)

section \<open>Properties\<close>

text \<open>C6: Whatever its class, a frame with a valid header and body encodes into exactly
  \<open>getDataLength\<close> bytes under the identifier \<open>getIdentifier\<close>, and a frame of the same class and
  PGN that decodes them takes over the header and the body.\<close>

theorem frame_wire_roundtrip:
  assumes "hdr_ok f" and "payload_valid (mBody f)" and "payload_takes (mBody f0) (mBody f)"
    and "mPgn f0 = mPgn f"
  shows "\<exists>bs. jframe_encode f (jframe_getDataLength f) = Inr (getIdentifier f, bs, jframe_getDataLength f)
    \<and> length bs = jframe_getDataLength f
    \<and> jframe_decode f0 (getIdentifier f) bs = Inr (received f0 f (mBody f))"
proof -
  obtain bs where e: "frame_encode payload_getDataLength payload_encodeData f
      (payload_getDataLength (mBody f)) = Inr (getIdentifier f, bs, payload_getDataLength (mBody f))"
    and l: "length bs = payload_getDataLength (mBody f)"
    using payload_codec.frame_encode_ok [OF assms(1,2)] by blast
  from payload_codec.frame_roundtrip [OF assms e] e l show ?thesis
    by (simp add: jframe_encode_def jframe_decode_def jframe_getDataLength_def)
qed

definition dm1_message :: "DTC list \<Rightarrow> jframe" where
  "dm1_message ds = \<lparr>mPriority = 6, mSrcAddr = 0x21, mPgn = DM1_PGN, mDstAddr = 0xFF,
     mName = ''DM1'', mBody = DM1P (sample_dm1 ds)\<rparr>"

definition three_codes :: "DTC list" where
  "three_codes = [\<lparr>mSPN = 100, mFMI = 1, mOC = 2\<rparr>, \<lparr>mSPN = 0x7FFFF, mFMI = 31, mOC = 127\<rparr>,
     \<lparr>mSPN = 7, mFMI = 3, mOC = 1\<rparr>]"

lemma dm1_message_hdr: "hdr_ok (dm1_message ds)"
  by (simp add: hdr_ok_def dm1_message_def pgn_decodable_def getPDUFormatGroup_def getPDUFormat_def)

lemma three_codes_valid: "dm1_valid (sample_dm1 three_codes)"
  using sample_lamps_valid by (simp add: dm1_valid_def sample_dm1_def dtc_valid_def three_codes_def)

lemma dm1_message_takes:
  "payload_takes (mBody (dm1_message [])) (mBody (dm1_message three_codes))"
  by (simp add: dm1_message_def dm1_takes_def generic_takes_def sample_dm1_def)

theorem frame_wire_roundtrip_witness:
  "\<exists>bs. jframe_encode (dm1_message three_codes) (jframe_getDataLength (dm1_message three_codes))
       = Inr (getIdentifier (dm1_message three_codes), bs, jframe_getDataLength (dm1_message three_codes))
     \<and> jframe_decode (dm1_message []) (getIdentifier (dm1_message three_codes)) bs
       = Inr (received (dm1_message []) (dm1_message three_codes) (mBody (dm1_message three_codes)))"
proof -
  have "payload_valid (mBody (dm1_message three_codes))"
    using three_codes_valid by (simp add: dm1_message_def)
  moreover have "mPgn (dm1_message []) = mPgn (dm1_message three_codes)" by (simp add: dm1_message_def)
  ultimately show ?thesis
    using frame_wire_roundtrip [OF dm1_message_hdr _ dm1_message_takes] by blast
qed

text \<open>\<open>copy\<close> between two frames of the same class and PGN that are not generic frames goes through
  the wire and takes over priority, source, body and, for a PGN of the first group, destination.\<close>

theorem copy_through_the_wire:
  assumes "payload_generic (mBody this) = None" and "hdr_ok other" and "payload_valid (mBody other)"
    and "payload_takes (mBody this) (mBody other)" and "mPgn this = mPgn other"
  shows "jframe_copy this other = Inr (received this other (mBody other))"
  using payload_codec.frame_copy_ok [OF assms(2-5)] assms(1)
  by (cases "mBody this") (simp_all add: jframe_copy_def)

theorem copy_through_the_wire_witness:
  "jframe_copy (as_frame Request RequestFrame) (as_frame Request (RequestFrame_of 0xFECA))
     = Inr (received (as_frame Request RequestFrame) (as_frame Request (RequestFrame_of 0xFECA))
              (Request \<lparr>mRequestPGN = 0xFECA\<rparr>))"
proof -
  have "hdr_ok (as_frame Request (RequestFrame_of 0xFECA))"
    by (simp add: hdr_ok_def RequestFrame_of_def RequestFrame_def pgn_decodable_def push_bit_eq_mult)
  moreover have "payload_valid (mBody (as_frame Request (RequestFrame_of 0xFECA)))"
    by (simp add: RequestFrame_of_def request_valid_def)
  ultimately show ?thesis
    using copy_through_the_wire [of "as_frame Request RequestFrame"
        "as_frame Request (RequestFrame_of 0xFECA)"]
    by (simp add: RequestFrame_of_def RequestFrame_def)
qed

end
