(* ===== verification/Factory.thy ===== *)
theory Factory
  imports Frames
begin

text \<open>
  \<open>J1939Factory\<close> (\<open>J1939/J1939Factory.cpp\<close>): the registry of prototype frames by PGN, that
  turns an identifier and its data into a decoded frame. Its one field \<open>mFrames\<close> is the state;
  the pointers in it are never null and owned by it, so that it maps to the frames themselves. The
  locale \<open>frame_provider\<close> is what the transport protocol relies on.
\<close>

type_synonym factory = "(u32, jframe) smap"

section \<open>Operations\<close>

definition registerFrame :: "jframe \<Rightarrow> factory \<Rightarrow> bool \<times> factory" where
  "registerFrame frame m =
     (if smap_find m (mPgn frame) = None then (True, smap_put (mPgn frame) frame m) else (False, m))"

definition unRegisterFrame :: "u32 \<Rightarrow> factory \<Rightarrow> factory" where
  "unRegisterFrame pgn m = (if smap_find m pgn \<noteq> None then smap_erase pgn m else m)"

definition unregisterAllFrames :: "factory \<Rightarrow> factory" where
  "unregisterAllFrames m = []"

text \<open>\<open>ref\<close> numbers the SPN specifications that the DM1 constructor allocates.\<close>

definition registerPredefinedFrames :: "nat \<Rightarrow> factory \<Rightarrow> factory res" where
  "registerPredefinedFrames ref m =
     (let m1 = snd (registerFrame (as_frame TPCM TPCMFrame) m);
          m2 = snd (registerFrame (as_frame TPDT TPDTFrame) m1);
          m3 = snd (registerFrame (as_frame FMS1P FMS1Frame) m2)
      in res_bind (DM1 ref) (\<lambda>dm1.
           let m4 = snd (registerFrame (as_frame DM1P dm1) m3);
               m5 = snd (registerFrame (as_frame AddrClaim (AddressClaimFrame EcuName_init)) m4)
           in Inr (snd (registerFrame (as_frame Request RequestFrame) m5))))"

definition J1939Factory :: "nat \<Rightarrow> factory res" where
  "J1939Factory ref = registerPredefinedFrames ref []"

definition getJ1939Frame :: "factory \<Rightarrow> u32 \<Rightarrow> bytes \<Rightarrow> jframe option res" where
  "getJ1939Frame m identifier data =
     (case smap_find m (id_pgn identifier) of
        None \<Rightarrow> Inr None
      | Some frame \<Rightarrow>
          (case jframe_decode frame identifier data of
             Inl (e, f) \<Rightarrow> Inl e
           | Inr retFrame \<Rightarrow> Inr (Some retFrame)))"

definition getJ1939Frame_pgn :: "factory \<Rightarrow> u32 \<Rightarrow> jframe option" where
  "getJ1939Frame_pgn m pgn = smap_find m pgn"

fun getJ1939Frame_name :: "factory \<Rightarrow> string \<Rightarrow> jframe option" where
  "getJ1939Frame_name [] name = None"
| "getJ1939Frame_name ((pgn, frame) # m) name =
     (if mName frame = name then Some frame else getJ1939Frame_name m name)"

definition getAllRegisteredPGNs :: "factory \<Rightarrow> u32 list" where
  "getAllRegisteredPGNs m = smap_keys m"

text \<open>The frames a database file yields (nothing when it does not parse), registered in order.\<close>

definition registerDatabaseFrames :: "generic frame list option \<Rightarrow> factory \<Rightarrow> bool \<times> factory" where
  "registerDatabaseFrames parsed m =
     (case parsed of
        None \<Rightarrow> (False, m)
      | Some frames \<Rightarrow>
          (True, fold (\<lambda>f m. snd (registerFrame (as_frame Generic f) m)) frames m))"

section \<open>Invariant\<close>

text \<open>
  Every prototype is stored under its own PGN, and under the PGNs of the predefined frames there
  is nothing but that frame's class: the transport protocol and the address claimer cast what
  arrives with those PGNs without a check.
\<close>

fun class_pgn :: "payload \<Rightarrow> u32 option" where
  "class_pgn (TPCM m) = Some TP_CM_PGN"
| "class_pgn (TPDT m) = Some TP_DT_PGN"
| "class_pgn (FMS1P m) = Some FMS1_PGN"
| "class_pgn (DM1P m) = Some DM1_PGN"
| "class_pgn (AddrClaim m) = Some ADDRESS_CLAIM_PGN"
| "class_pgn (Request m) = Some REQUEST_PGN"
| "class_pgn (Generic m) = None"

definition reserved_pgns :: "u32 list" where
  "reserved_pgns = [TP_CM_PGN, TP_DT_PGN, FMS1_PGN, DM1_PGN, ADDRESS_CLAIM_PGN, REQUEST_PGN]"

definition class_ok :: "jframe \<Rightarrow> bool" where
  "class_ok f \<longleftrightarrow>
     (case class_pgn (mBody f) of
        Some pgn \<Rightarrow> mPgn f = pgn
      | None \<Rightarrow> mPgn f \<notin> set reserved_pgns)"

definition factory_ok :: "factory \<Rightarrow> bool" where
  "factory_ok m \<longleftrightarrow> smap_ok m \<and> (\<forall>(pgn, f) \<in> set m. mPgn f = pgn \<and> class_ok f)"

lemma factory_ok_find:
  "factory_ok m \<Longrightarrow> smap_find m pgn = Some f \<Longrightarrow> mPgn f = pgn \<and> class_ok f"
  by (auto simp: factory_ok_def smap_find_Some_iff)

lemma registerFrame_ok:
  "factory_ok m \<Longrightarrow> class_ok f \<Longrightarrow> factory_ok (snd (registerFrame f m))"
  by (auto simp: registerFrame_def factory_ok_def set_smap_put)

lemma unRegisterFrame_ok: "factory_ok m \<Longrightarrow> factory_ok (unRegisterFrame pgn m)"
  by (auto simp: unRegisterFrame_def factory_ok_def set_smap_erase)

lemma registerDatabaseFrames_ok:
  "factory_ok m \<Longrightarrow> (\<And>f. f \<in> set fs \<Longrightarrow> mPgn f \<notin> set reserved_pgns) \<Longrightarrow>
     factory_ok (snd (registerDatabaseFrames (Some fs) m))"
  by (induction fs arbitrary: m)
     (simp_all add: registerDatabaseFrames_def registerFrame_ok class_ok_def)

text \<open>Decoding keeps the class and the PGN of the prototype, on success and on failure.\<close>

lemma out_state_map [simp]: "out_state (out_map g m) = g (out_state m)"
  by (cases m rule: out_state.cases) simp_all

lemma payload_decode_class: "class_pgn (out_state (payload_decodeData p b)) = class_pgn p"
  by (cases p) simp_all

lemma frame_decode_pgn: "mPgn (out_state (frame_decode dec f ident b)) = mPgn f"
  by (simp add: frame_decode_def Let_def)

lemma frame_decode_body:
  "frame_decode dec f ident b = Inr f' \<Longrightarrow> dec (mBody f) b = Inr (mBody f')"
  by (auto simp: frame_decode_def Let_def out_map_Inr_iff split: if_splits)

lemma jframe_decode_class_ok:
  assumes "jframe_decode f ident b = Inr f'" and "class_ok f"
  shows "class_ok f' \<and> mPgn f' = mPgn f"
proof -
  have "mPgn f' = mPgn f"
    using frame_decode_pgn [of payload_decodeData f ident b] assms(1) by (simp add: jframe_decode_def)
  moreover have "class_pgn (mBody f') = class_pgn (mBody f)"
    using payload_decode_class [of "mBody f" b] assms(1)
      frame_decode_body [of payload_decodeData f ident b f']
    by (simp add: jframe_decode_def)
  ultimately show ?thesis using assms(2) by (auto simp: class_ok_def split: option.splits)
qed

lemma getJ1939Frame_Some:
  "getJ1939Frame m ident b = Inr (Some f) \<longleftrightarrow>
     (\<exists>f0. smap_find m (id_pgn ident) = Some f0 \<and> jframe_decode f0 ident b = Inr f)"
  by (auto simp: getJ1939Frame_def split: option.splits sum.splits)

lemma getJ1939Frame_class_ok:
  "factory_ok m \<Longrightarrow> getJ1939Frame m ident b = Inr (Some f) \<Longrightarrow>
     class_ok f \<and> mPgn f = id_pgn ident"
  by (auto simp: getJ1939Frame_Some dest!: factory_ok_find jframe_decode_class_ok)

section \<open>What the transport protocol asks of the factory\<close>

text \<open>\<open>delivers f f'\<close>: the encoding of \<open>f\<close> comes out as \<open>f'\<close>.\<close>

locale frame_provider =
  fixes get :: "u32 \<Rightarrow> bytes \<Rightarrow> jframe option res"
    and delivers :: "jframe \<Rightarrow> jframe \<Rightarrow> bool"
  assumes get_encoded: "delivers f f' \<Longrightarrow>
      jframe_encode f (jframe_getDataLength f) = Inr (ident, bs, n) \<Longrightarrow>
      get ident (take n bs) = Inr (Some f')"
    and delivered_encodes: "delivers f f' \<Longrightarrow>
      \<exists>bs. jframe_encode f (jframe_getDataLength f)
             = Inr (getIdentifier f, bs, jframe_getDataLength f)
           \<and> length bs = jframe_getDataLength f"

definition factory_delivers :: "factory \<Rightarrow> jframe \<Rightarrow> jframe \<Rightarrow> bool" where
  "factory_delivers m f f' \<longleftrightarrow> hdr_ok f \<and> payload_valid (mBody f) \<and>
     (case smap_find m (mPgn f) of
        None \<Rightarrow> False
      | Some f0 \<Rightarrow> mPgn f0 = mPgn f \<and> payload_takes (mBody f0) (mBody f)
                    \<and> f' = received f0 f (mBody f))"

interpretation registry: frame_provider "getJ1939Frame m" "factory_delivers m" for m
proof unfold_locales
  fix f f' ident bs n
  assume d: "factory_delivers m f f'"
    and e: "jframe_encode f (jframe_getDataLength f) = Inr (ident, bs, n)"
  from d obtain f0 where f0: "smap_find m (mPgn f) = Some f0" "mPgn f0 = mPgn f"
    "payload_takes (mBody f0) (mBody f)" "f' = received f0 f (mBody f)"
    and v: "hdr_ok f" "payload_valid (mBody f)"
    by (auto simp: factory_delivers_def split: option.splits)
  have "ident = getIdentifier f"
    using e by (simp add: jframe_encode_def frame_encode_Inr)
  then have "id_pgn ident = mPgn f"
    using v(1) getIdentifier_pgn [of f] by (simp add: hdr_ok_def)
  moreover have "frame_decode payload_decodeData f0 ident (take n bs) = Inr f'"
    using payload_codec.frame_roundtrip [OF v f0(3,2)] e f0(4)
    by (simp add: jframe_encode_def jframe_getDataLength_def)
  ultimately show "getJ1939Frame m ident (take n bs) = Inr (Some f')"
    by (simp add: getJ1939Frame_Some f0(1) jframe_decode_def)
next
  fix f f'
  assume "factory_delivers m f f'"
  then have "hdr_ok f" "payload_valid (mBody f)" by (simp_all add: factory_delivers_def)
  from payload_codec.frame_encode_ok [OF this]
  show "\<exists>bs. jframe_encode f (jframe_getDataLength f)
        = Inr (getIdentifier f, bs, jframe_getDataLength f)
      \<and> length bs = jframe_getDataLength f"
    by (simp add: jframe_encode_def jframe_getDataLength_def)
qed

section \<open>The factory as constructed\<close>

lemma DM1_Inr: "\<exists>f. DM1 ref = Inr f \<and> mPgn f = DM1_PGN"
  by (simp add: DM1_def frame_ctor_def dm1_lamps_def register_lamp_def SPNStatus_def
      SPNSpec_ctor_def SPNStatusSpec_ctor_def registerSPN_def getType_def getSpnNumber_def
      getPDUFormatGroup_def getPDUFormat_def push_bit_eq_mult)

lemma class_ok_as_frame:
  "mPgn f = TP_CM_PGN \<Longrightarrow> class_ok (as_frame TPCM f)"
  "mPgn g = TP_DT_PGN \<Longrightarrow> class_ok (as_frame TPDT g)"
  "mPgn h = FMS1_PGN \<Longrightarrow> class_ok (as_frame FMS1P h)"
  "mPgn i = DM1_PGN \<Longrightarrow> class_ok (as_frame DM1P i)"
  "mPgn j = ADDRESS_CLAIM_PGN \<Longrightarrow> class_ok (as_frame AddrClaim j)"
  "mPgn k = REQUEST_PGN \<Longrightarrow> class_ok (as_frame Request k)"
  by (simp_all add: class_ok_def)

lemma J1939Factory_ok: "\<exists>m. J1939Factory ref = Inr m \<and> factory_ok m"
proof -
  obtain f where f: "DM1 ref = Inr f" "mPgn f = DM1_PGN" using DM1_Inr by blast
  have "factory_ok []" by (simp add: factory_ok_def)
  then show ?thesis
    by (simp add: J1939Factory_def registerPredefinedFrames_def f(1) Let_def)
       (intro registerFrame_ok class_ok_as_frame,
        simp_all add: f(2) TPCMFrame_def TPDTFrame_def FMS1Frame_def AddressClaimFrame_def
          RequestFrame_def)
qed

section \<open>Properties\<close>

text \<open>The factory's constructor succeeds, and the registry it builds holds every predefined frame under
  its own PGN and nothing else.\<close>

theorem factory_constructed:
  "\<exists>m. J1939Factory ref = Inr m \<and> factory_ok m
     \<and> getAllRegisteredPGNs m = [0xEA00, 0xEB00, 0xEC00, 0xEE00, 0xFD7D, 0xFECA]"
proof -
  obtain f where f: "DM1 ref = Inr f" "mPgn f = DM1_PGN" using DM1_Inr by blast
  obtain m where m: "J1939Factory ref = Inr m" "factory_ok m" using J1939Factory_ok by blast
  have "getAllRegisteredPGNs m = [0xEA00, 0xEB00, 0xEC00, 0xEE00, 0xFD7D, 0xFECA]"
    using m(1) f
    by (auto simp: J1939Factory_def registerPredefinedFrames_def Let_def registerFrame_def
        getAllRegisteredPGNs_def smap_keys_def TPCMFrame_def TPDTFrame_def FMS1Frame_def
        AddressClaimFrame_def RequestFrame_def smap_find_put)
  with m show ?thesis by blast
qed

text \<open>C4: The registry invariant (each prototype under its own PGN, the predefined PGNs with their own
  class only) is kept by registering a frame, by unregistering and by loading a database that
  leaves the predefined PGNs alone; a frame once registered is never replaced; and what the factory
  decodes has the class that belongs to its PGN, which the unchecked casts of its callers need.\<close>

theorem factory_invariant:
  assumes "factory_ok m" and "class_ok f" and "\<And>g. g \<in> set gs \<Longrightarrow> mPgn g \<notin> set reserved_pgns"
    and "getJ1939Frame m ident data = Inr (Some h)"
  shows "factory_ok (snd (registerFrame f m)) \<and> factory_ok (unRegisterFrame pgn m)
    \<and> factory_ok (snd (registerDatabaseFrames (Some gs) m))
    \<and> (smap_find m pgn = None \<or> smap_find (snd (registerFrame f m)) pgn = smap_find m pgn)
    \<and> class_ok h \<and> mPgn h = id_pgn ident"
  using registerFrame_ok [OF assms(1,2)] unRegisterFrame_ok [OF assms(1)]
    registerDatabaseFrames_ok [OF assms(1,3)] getJ1939Frame_class_ok [OF assms(1,4)]
  by (auto simp: registerFrame_def smap_find_put)

definition request_factory :: factory where
  "request_factory = [(REQUEST_PGN, as_frame Request RequestFrame)]"

lemma request_factory_decodes:
  "getJ1939Frame request_factory 0x18EAFF21 [0xCA, 0xFE, 0x00] = Inr (Some
     \<lparr>mPriority = 6, mSrcAddr = 0x21, mPgn = REQUEST_PGN, mDstAddr = 0xFF, mName = ''Request'',
      mBody = Request \<lparr>mRequestPGN = 0xFECA\<rparr>\<rparr>)"
  by code_simp

theorem factory_invariant_witness:
  "factory_ok (unRegisterFrame REQUEST_PGN request_factory)
   \<and> id_pgn 0x18EAFF21 = REQUEST_PGN"
proof -
  have ok: "factory_ok request_factory"
    by (simp add: factory_ok_def request_factory_def class_ok_def RequestFrame_def smap_ok_Cons)
  have c: "class_ok (as_frame TPCM TPCMFrame)" by (simp add: class_ok_def TPCMFrame_def)
  from factory_invariant [OF ok c _ request_factory_decodes, of "[]" REQUEST_PGN] show ?thesis
    by simp
qed

text \<open>C3: End to end through the factory: a valid frame whose PGN is registered with a prototype made for it
  comes back from its own encoding, with its header and body.\<close>

theorem factory_decodes_encoded:
  assumes "factory_delivers m f f'"
  shows "\<exists>bs. jframe_encode f (jframe_getDataLength f) = Inr (getIdentifier f, bs, jframe_getDataLength f)
    \<and> getJ1939Frame m (getIdentifier f) bs = Inr (Some f')"
proof -
  obtain bs where e: "jframe_encode f (jframe_getDataLength f)
      = Inr (getIdentifier f, bs, jframe_getDataLength f)" and l: "length bs = jframe_getDataLength f"
    using registry.delivered_encodes [OF assms] by blast
  from registry.get_encoded [OF assms e] e l show ?thesis by simp
qed

definition dm1_factory :: factory where
  "dm1_factory = [(DM1_PGN, dm1_message [])]"

lemma dm1_factory_delivers:
  "factory_delivers dm1_factory (dm1_message three_codes)
     (received (dm1_message []) (dm1_message three_codes) (mBody (dm1_message three_codes)))"
  using dm1_message_hdr dm1_message_takes three_codes_valid
  by (simp add: factory_delivers_def dm1_factory_def) (simp add: dm1_message_def)

theorem factory_decodes_encoded_witness:
  "\<exists>bs. getJ1939Frame dm1_factory (getIdentifier (dm1_message three_codes)) bs
     = Inr (Some (received (dm1_message []) (dm1_message three_codes) (mBody (dm1_message three_codes))))"
  using factory_decodes_encoded [OF dm1_factory_delivers] by blast

end
