(* ===== verification/Bam.thy ===== *)
theory Bam
  imports Factory
begin

text \<open>
  The broadcast transport protocol: \<open>J1939/Transport/BAM/BamFragmenter.cpp\<close>,
  \<open>J1939/Transport/BAM/BamReassembler.cpp\<close> and their headers. A message longer than eight bytes
  is announced by a \<open>TPCMFrame\<close> and carried seven bytes at a time by \<open>TPDTFrame\<close>s; the
  receiver keeps the fragments of each source address apart and asks the factory to decode what it
  has put together.
\<close>

section \<open>BamFragmenter\<close>

abbreviation (input) J1939_MAX_SIZE :: nat where "J1939_MAX_SIZE \<equiv> 8"
abbreviation (input) BROADCAST :: u8 where "BROADCAST \<equiv> 0xFF"

record fragmenter =
  mCMFrame :: "tpcm frame"
  mDTFrames :: "(u8, tpdt frame) smap"

definition BamFragmenter :: fragmenter where
  "BamFragmenter = \<lparr>mCMFrame = TPCMFrame, mDTFrames = []\<rparr>"

definition fragmenter_clear :: "fragmenter \<Rightarrow> fragmenter" where
  "fragmenter_clear b = \<lparr>mCMFrame = tpcm_clear (mCMFrame b), mDTFrames = []\<rparr>"

text \<open>The data frame number \<open>i\<close> (from 0); its sequence number is a \<open>u8\<close>.\<close>

definition data_frame :: "jframe \<Rightarrow> bytes \<Rightarrow> nat \<Rightarrow> tpdt frame" where
  "data_frame f data i =
     (let offset = i * TP_DT_PACKET_SIZE;
          d = TPDTFrame_of (of_nat (i + 1)) (take TP_DT_PACKET_SIZE (drop offset data))
      in snd (setDstAddr BROADCAST (setSrcAddr (mSrcAddr f) (snd (setPriority (mPriority f) d)))))"

definition fragment :: "jframe \<Rightarrow> fragmenter \<Rightarrow> (exc \<times> fragmenter) + (bool \<times> fragmenter)" where
  "fragment f b =
     (let len = jframe_getDataLength f
      in if len \<le> J1939_MAX_SIZE then Inr (False, b)
         else
           let b0 = fragmenter_clear b;
               c0 = (mCMFrame b0)\<lparr>mBody := (mBody (mCMFrame b0))\<lparr>mCtrlType := CTRL_TPCM_BAM\<rparr>\<rparr>;
               c1 = setSrcAddr (mSrcAddr f) (snd (setPriority (mPriority f) c0));
               c2 = c1\<lparr>mBody := (mBody c1)\<lparr>mDataPgn := mPgn f\<rparr>\<rparr>;
               c3 = snd (setDstAddr BROADCAST c2)
           in (case jframe_encode f len of
                 Inl e \<Rightarrow> Inl (e, b0\<lparr>mCMFrame := c3\<rparr>)
               | Inr (unused, data, len') \<Rightarrow>
                   let dts = fold (\<lambda>i. smap_put (of_nat (i + 1)) (data_frame f data i))
                               [0 ..< (len' + 6) div TP_DT_PACKET_SIZE] [];
                       c4 = c3\<lparr>mBody := (mBody c3)\<lparr>mTotalPackets := of_nat (length dts),
                                                   mTotalMsgSize := of_nat len'\<rparr>\<rparr>
                   in Inr (True, \<lparr>mCMFrame = c4, mDTFrames = dts\<rparr>)))"

definition getDataFrames :: "fragmenter \<Rightarrow> tpdt frame list" where
  "getDataFrames b = map snd (mDTFrames b)"

section \<open>BamReassembler\<close>

datatype EBamError =
    BAM_ERROR_INCOMPLETE_FRAME
  | BAM_ERROR_UNEXPECTED_FRAME
  | BAM_ERROR_NOT_BCAST_ADDR
  | BAM_ERROR_DECODING
  | BAM_ERROR_OK

record fragments =
  fr_mCMFrame :: "tpcm frame"
  fr_mDTFrames :: "tpdt frame list"

record reassembler =
  mFragments :: "(u8, fragments) smap"
  mLastError :: EBamError
  mReassembledFrames :: "jframe list"

definition BamReassembler :: reassembler where
  "BamReassembler = \<lparr>mFragments = [], mLastError = BAM_ERROR_OK, mReassembledFrames = []\<rparr>"

definition getLastSQ :: "fragments \<Rightarrow> u8" where
  "getLastSQ fr =
     (if fr_mDTFrames fr = [] then 0 else mSQ (mBody (last (fr_mDTFrames fr))))"

definition setError :: "EBamError \<Rightarrow> reassembler \<Rightarrow> reassembler" where
  "setError status r = r\<lparr>mLastError := status\<rparr>"

text \<open>
  The bytes are copied into a buffer from \<open>new u8[length]\<close>, whose content is not initialised:
  \<open>junk\<close> is what the memory held.
\<close>

fun copy_packets :: "bytes list \<Rightarrow> nat \<Rightarrow> bytes \<Rightarrow> bytes res" where
  "copy_packets [] offset data = Inr data"
| "copy_packets (d # ds) offset data =
     res_bind (poke offset (take (min (length data - offset) TP_DT_PACKET_SIZE) d) data) (\<lambda>data'.
       if offset + TP_DT_PACKET_SIZE \<ge> length data then Inr data'
       else copy_packets ds (offset + TP_DT_PACKET_SIZE) data')"

definition reassemble :: "(nat \<Rightarrow> u8) \<Rightarrow> fragments \<Rightarrow> bytes res" where
  "reassemble junk fr =
     copy_packets (map (\<lambda>f. mData (mBody f)) (fr_mDTFrames fr)) 0
       (map junk [0 ..< unat (mTotalMsgSize (mBody (fr_mCMFrame fr)))])"

text \<open>The class a frame is cast to; the cast is not checked.\<close>

fun cast_tpcm :: "jframe \<Rightarrow> tpcm frame option" where
  "cast_tpcm f = (case mBody f of TPCM m \<Rightarrow>
     Some \<lparr>mPriority = mPriority f, mSrcAddr = mSrcAddr f, mPgn = mPgn f, mDstAddr = mDstAddr f,
           mName = mName f, mBody = m\<rparr> | _ \<Rightarrow> None)"

fun cast_tpdt :: "jframe \<Rightarrow> tpdt frame option" where
  "cast_tpdt f = (case mBody f of TPDT m \<Rightarrow>
     Some \<lparr>mPriority = mPriority f, mSrcAddr = mSrcAddr f, mPgn = mPgn f, mDstAddr = mDstAddr f,
           mName = mName f, mBody = m\<rparr> | _ \<Rightarrow> None)"

definition toBeHandled :: "jframe \<Rightarrow> bool res" where
  "toBeHandled f =
     (if mDstAddr f \<noteq> BROADCAST then Inr False
      else if mPgn f = TP_CM_PGN
      then (case cast_tpcm f of None \<Rightarrow> Inl UndefinedBehaviour
            | Some conn \<Rightarrow> Inr (mCtrlType (mBody conn) = CTRL_TPCM_BAM))
      else Inr (mPgn f = TP_DT_PGN))"

definition new_id :: "tpcm frame \<Rightarrow> u32" where
  "new_id conn =
     push_bit 26 (ucast (mPriority conn AND 7)) OR push_bit 8 (mDataPgn (mBody conn))
     OR ucast (mSrcAddr conn AND 0xFF)"

definition handle_cm :: "tpcm frame \<Rightarrow> reassembler \<Rightarrow> nat \<times> reassembler" where
  "handle_cm conn r =
     (let src = mSrcAddr conn
      in if mCtrlType (mBody conn) \<noteq> CTRL_TPCM_BAM then (0, setError BAM_ERROR_UNEXPECTED_FRAME r)
         else
           let r1 = (if smap_find (mFragments r) src \<noteq> None
                     then setError BAM_ERROR_INCOMPLETE_FRAME
                            (r\<lparr>mFragments := smap_erase src (mFragments r)\<rparr>)
                     else setError BAM_ERROR_OK r)
           in (unat (mTotalMsgSize (mBody conn)),
               r1\<lparr>mFragments := smap_put src \<lparr>fr_mCMFrame = conn, fr_mDTFrames = []\<rparr>
                                 (mFragments r1)\<rparr>))"

definition handle_dt ::
  "(u32 \<Rightarrow> bytes \<Rightarrow> jframe option res) \<Rightarrow> (nat \<Rightarrow> u8) \<Rightarrow> tpdt frame \<Rightarrow> reassembler
   \<Rightarrow> (exc \<times> reassembler) + (nat \<times> reassembler)" where
  "handle_dt get junk data r =
     (let src = mSrcAddr data
      in case smap_find (mFragments r) src of
           None \<Rightarrow> Inr (0, setError BAM_ERROR_UNEXPECTED_FRAME r)
         | Some fr \<Rightarrow>
             let sq = mSQ (mBody data); conn = fr_mCMFrame fr;
                 expectedSize = unat (mTotalMsgSize (mBody conn))
             in if mTotalPackets (mBody conn) \<ge> sq \<and> unat (getLastSQ fr) + 1 = unat sq
                then
                  let fr1 = fr\<lparr>fr_mDTFrames := fr_mDTFrames fr @ [data]\<rparr>;
                      r1 = r\<lparr>mFragments := smap_put src fr1 (mFragments r)\<rparr>
                  in if sq = mTotalPackets (mBody conn)
                     then
                       (case reassemble junk fr1 of
                          Inl e \<Rightarrow> Inl (e, r1)
                        | Inr fullData \<Rightarrow>
                            (case get (new_id conn) fullData of
                               Inl e \<Rightarrow> Inl (e, r1)
                             | Inr decoded \<Rightarrow>
                                 let r2 = r1\<lparr>mFragments := smap_erase src (mFragments r1)\<rparr>
                                 in (case decoded of
                                       None \<Rightarrow> Inr (0, setError BAM_ERROR_DECODING r2)
                                     | Some f \<Rightarrow>
                                         Inr (expectedSize, setError BAM_ERROR_OK
                                           (r2\<lparr>mReassembledFrames := mReassembledFrames r2 @ [f]\<rparr>)))))
                     else Inr (expectedSize, r1)
                else Inr (expectedSize, setError BAM_ERROR_UNEXPECTED_FRAME r))"

definition handleFrame ::
  "(u32 \<Rightarrow> bytes \<Rightarrow> jframe option res) \<Rightarrow> (nat \<Rightarrow> u8) \<Rightarrow> jframe \<Rightarrow> reassembler
   \<Rightarrow> (exc \<times> reassembler) + (nat \<times> reassembler)" where
  "handleFrame get junk f r =
     (if mDstAddr f \<noteq> BROADCAST then Inr (0, setError BAM_ERROR_NOT_BCAST_ADDR r)
      else if mPgn f = TP_CM_PGN
      then (case cast_tpcm f of None \<Rightarrow> Inl (UndefinedBehaviour, r) | Some conn \<Rightarrow> Inr (handle_cm conn r))
      else if mPgn f = TP_DT_PGN
      then (case cast_tpdt f of None \<Rightarrow> Inl (UndefinedBehaviour, r)
            | Some data \<Rightarrow> handle_dt get junk data r)
      else Inr (0, setError BAM_ERROR_UNEXPECTED_FRAME r))"

definition dequeueReassembledFrame :: "reassembler \<Rightarrow> (exc \<times> reassembler) + (jframe \<times> reassembler)" where
  "dequeueReassembledFrame r =
     (case mReassembledFrames r of
        [] \<Rightarrow> Inl (UndefinedBehaviour, r)
      | f # fs \<Rightarrow> Inr (f, r\<lparr>mReassembledFrames := fs\<rparr>))"

definition reassembledFramesPending :: "reassembler \<Rightarrow> bool" where
  "reassembledFramesPending r \<longleftrightarrow> mReassembledFrames r \<noteq> []"

definition reassembler_clear :: "reassembler \<Rightarrow> reassembler" where
  "reassembler_clear r = \<lparr>mFragments = [], mLastError = BAM_ERROR_OK, mReassembledFrames = []\<rparr>"

section \<open>What the fragmenter produces\<close>

lemma number_packets:
  "n \<le> 255 \<Longrightarrow>
     fold (\<lambda>i. smap_put (of_nat (i + 1) :: u8) (g i)) [0 ..< n] []
       = map (\<lambda>i. (of_nat (i + 1), g i)) [0 ..< n]"
proof (induction n)
  case (Suc n)
  have "of_nat (i + 1) < (of_nat (n + 1) :: u8)" if "i < n" for i
    using that Suc.prems by (simp add: word_less_nat_alt unat_of_nat del: of_nat_add of_nat_Suc)
  then have "\<forall>k' \<in> fst ` set (map (\<lambda>i. (of_nat (i + 1) :: u8, g i)) [0 ..< n]). k' < of_nat (n + 1)"
    by auto
  from smap_put_append [OF this] Suc show ?case by simp
qed simp

definition bam_announce :: "tpcm frame \<Rightarrow> jframe \<Rightarrow> nat \<Rightarrow> tpcm frame" where
  "bam_announce c f len = c\<lparr>mPriority := mPriority f AND 7, mSrcAddr := mSrcAddr f,
     mDstAddr := BROADCAST,
     mBody := tpcm_init\<lparr>mCtrlType := CTRL_TPCM_BAM, mDataPgn := mPgn f,
       mTotalPackets := of_nat ((len + 6) div 7), mTotalMsgSize := of_nat len\<rparr>\<rparr>"

lemma group1_transport [simp]:
  "getPDUFormatGroup TP_CM_PGN = PDU_FORMAT_1" "getPDUFormatGroup TP_DT_PGN = PDU_FORMAT_1"
  by (simp_all add: getPDUFormatGroup_def getPDUFormat_def)

lemma tpcm_clear_eq:
  "mPgn c = TP_CM_PGN \<Longrightarrow>
     tpcm_clear c = c\<lparr>mPriority := 0, mSrcAddr := 0, mDstAddr := BROADCAST, mBody := tpcm_init\<rparr>"
  by (simp add: tpcm_clear_def setPriority_def setSrcAddr_def setDstAddr_def)

lemma data_frame_simps [simp]:
  "mPgn (data_frame f data i) = TP_DT_PGN" "mSrcAddr (data_frame f data i) = mSrcAddr f"
  "mDstAddr (data_frame f data i) = BROADCAST"
  "mPriority (data_frame f data i) = mPriority f AND 7"
  "mSQ (mBody (data_frame f data i)) = of_nat (i + 1)"
  by (simp_all add: data_frame_def Let_def setDstAddr_def setSrcAddr_def setPriority_def
      TPDTFrame_of_def TPDTFrame_def)

lemma data_frame_data:
  "take (min (length data - 7 * i) 7) (mData (mBody (data_frame f data i)))
     = take 7 (drop (7 * i) data)"
  by (simp add: data_frame_def Let_def setDstAddr_def setSrcAddr_def setPriority_def
      TPDTFrame_of_def TPDTFrame_def mult.commute min_def)

lemma fragment_eq:
  assumes "mPgn (mCMFrame b) = TP_CM_PGN"
    and "jframe_encode f (jframe_getDataLength f) = Inr (ident, data, jframe_getDataLength f)"
    and "8 < jframe_getDataLength f" and "jframe_getDataLength f \<le> 1785"
  shows "\<exists>b'. fragment f b = Inr (True, b')
    \<and> mCMFrame b' = bam_announce (mCMFrame b) f (jframe_getDataLength f)
    \<and> getDataFrames b' = map (data_frame f data) [0 ..< (jframe_getDataLength f + 6) div 7]"
proof -
  define n where "n = (jframe_getDataLength f + 6) div 7"
  have n: "n \<le> 255" using assms(4) by (simp add: n_def)
  have "fragment f b = Inr (True, \<lparr>mCMFrame = bam_announce (mCMFrame b) f (jframe_getDataLength f),
      mDTFrames = map (\<lambda>i. (of_nat (i + 1), data_frame f data i)) [0 ..< n]\<rparr>)"
    using assms(1,3)
    by (simp add: fragment_def assms(2) fragmenter_clear_def tpcm_clear_eq setPriority_def
        setSrcAddr_def setDstAddr_def number_packets [OF n, simplified] bam_announce_def Let_def tpcm_init_def
        flip: n_def)
  then show ?thesis by (simp add: getDataFrames_def o_def n_def)
qed

section \<open>What the reassembler puts together\<close>

text \<open>The packets of a message, copied one after the other, are the message.\<close>

lemma copy_packets_ok:
  assumes "\<And>i. i < n \<Longrightarrow> take (min (length data - 7 * i) 7) (d i) = take 7 (drop (7 * i) data)"
    and "n = (length data + 6) div 7" and "k < n" and "length rest = length data - 7 * k"
  shows "copy_packets (map d [k ..< n]) (7 * k) (take (7 * k) data @ rest) = Inr data"
  using assms(3,4)
proof (induction "n - k" arbitrary: k rest)
  case (Suc m)
  have k: "7 * k < length data" using Suc.prems(1) assms(2) by linarith
  have ds: "map d [k ..< n] = d k # map d [Suc k ..< n]" using Suc.prems(1) by (simp add: upt_conv_Cons)
  define buf where "buf = take (7 * k) data @ rest"
  have len: "length buf = length data" using Suc.prems(2) k by (simp add: buf_def)
  let ?c = "take 7 (drop (7 * k) data)"
  have poke: "poke (7 * k) ?c buf = Inr (take (7 * k + length ?c) data @ drop (length ?c) rest)"
    using k len Suc.prems(2) by (auto simp: poke_def buf_def take_add min_def)
  have step: "copy_packets (map d [k ..< n]) (7 * k) buf =
      (if 7 * k + 7 \<ge> length data
       then Inr (take (7 * k + length ?c) data @ drop (length ?c) rest)
       else copy_packets (map d [Suc k ..< n]) (7 * k + 7)
              (take (7 * k + length ?c) data @ drop (length ?c) rest))"
    by (simp only: ds copy_packets.simps len assms(1) [OF Suc.prems(1)] poke res_bind.simps)
  show ?case
  proof (cases "7 * k + 7 \<ge> length data")
    case True
    then have "take (7 * k + length ?c) data @ drop (length ?c) rest = data"
      using Suc.prems(2) k by simp
    with True show ?thesis unfolding buf_def [symmetric] step by simp
  next
    case False
    then have c: "length ?c = 7" by simp
    have "Suc k < n" using False assms(2) by linarith
    then have "copy_packets (map d [Suc k ..< n]) (7 * Suc k) (take (7 * Suc k) data @ drop 7 rest)
        = Inr data"
      by (rule Suc.hyps(1) [rotated 1]) (use Suc.hyps(2) Suc.prems(2) in simp_all)
    with False c show ?thesis unfolding buf_def [symmetric] step by (simp add: add.commute)
  qed
qed simp

lemma reassemble_ok:
  assumes "0 < length data" and "length data < 2 ^ 16"
    and "mTotalMsgSize (mBody (fr_mCMFrame fr)) = of_nat (length data)"
    and "fr_mDTFrames fr = map (data_frame f data) [0 ..< (length data + 6) div 7]"
  shows "reassemble junk fr = Inr data"
proof -
  have len: "unat (of_nat (length data) :: u16) = length data"
    using assms(2) by (simp add: unat_of_nat)
  have pos: "0 < (length data + 6) div 7" using assms(1) by (cases data) (simp_all add: div_greater_zero_iff)
  have "copy_packets (map (\<lambda>i. mData (mBody (data_frame f data i))) [0 ..< (length data + 6) div 7])
      (7 * 0) (take (7 * 0) data @ map junk [0 ..< length data]) = Inr data"
    by (rule copy_packets_ok [OF data_frame_data refl]) (use pos in simp_all)
  then show ?thesis by (simp add: reassemble_def assms(3,4) len o_def)
qed

text \<open>The identifier under which the message is decoded: the sender's, with destination 0.\<close>

lemma new_id_eq:
  assumes "hdr_ok f" and "mPriority c = mPriority f" and "mSrcAddr c = mSrcAddr f"
    and "mDataPgn (mBody c) = mPgn f"
  shows "new_id c = getIdentifier (f\<lparr>mDstAddr := 0\<rparr>)"
proof -
  have p: "mPriority f AND 7 = mPriority f" and "mPgn f < 2 ^ 18"
    using assms(1) by (simp_all add: hdr_ok_def pgn_decodable_def)
  then have "mPgn f AND 0x3FFFF = mPgn f"
    using less_mask_eq [of "mPgn f" 18] by (simp add: mask_eqs)
  moreover have "mSrcAddr f AND 0xFF = mSrcAddr f"
    by (rule bit_word_eqI) (auto simp: mask_eqs bit_simps)
  ultimately show ?thesis
    by (simp add: new_id_def getIdentifier_def wire_pgn_def assms(2-4) p or.commute or.left_commute
        del: push_bit_and)
qed

section \<open>A bus of several senders\<close>

text \<open>
  Frames arrive one at a time; an exception leaves the reassembler in the state it had reached and
  the caller goes on with the next frame.
\<close>

fun outcome_state :: "(exc \<times> 's) + ('a \<times> 's) \<Rightarrow> 's" where
  "outcome_state (Inl (e, s)) = s"
| "outcome_state (Inr (a, s)) = s"

definition feed ::
  "(u32 \<Rightarrow> bytes \<Rightarrow> jframe option res) \<Rightarrow> (nat \<Rightarrow> u8) \<Rightarrow> jframe list \<Rightarrow> reassembler \<Rightarrow> reassembler" where
  "feed get junk fs r = fold (\<lambda>f r. outcome_state (handleFrame get junk f r)) fs r"

lemma feed_Nil [simp]: "feed get junk [] r = r"
  and feed_Cons [simp]:
    "feed get junk (f # fs) r = feed get junk fs (outcome_state (handleFrame get junk f r))"
  by (simp_all add: feed_def)

text \<open>
  One frame touches the fragments of its own source only, and reassembled frames only ever go to
  the end of the queue.
\<close>

definition local_step :: "u8 \<Rightarrow> reassembler \<Rightarrow> reassembler \<Rightarrow> bool" where
  "local_step src r r' \<longleftrightarrow> smap_ok (mFragments r')
     \<and> (\<exists>qs. mReassembledFrames r' = mReassembledFrames r @ qs)
     \<and> (\<forall>s. s \<noteq> src \<longrightarrow> smap_find (mFragments r') s = smap_find (mFragments r) s)"

lemma local_step_setError [simp]:
  "local_step src r (setError e r') = local_step src r r'"
  by (simp add: local_step_def setError_def)

lemma local_step_refl: "smap_ok (mFragments r) \<Longrightarrow> local_step src r r"
  by (simp add: local_step_def)

lemma local_step_fragments:
  "smap_ok (mFragments r) \<Longrightarrow> local_step src r (r\<lparr>mFragments := smap_put src x (mFragments r)\<rparr>)"
  by (simp add: local_step_def smap_find_put)

lemma handle_cm_local:
  "smap_ok (mFragments r) \<Longrightarrow> local_step (mSrcAddr c) r (snd (handle_cm c r))"
  by (auto simp: handle_cm_def Let_def local_step_def setError_def smap_find_put smap_find_erase)

lemma handle_dt_local:
  "smap_ok (mFragments r) \<Longrightarrow> local_step (mSrcAddr d) r (outcome_state (handle_dt get junk d r))"
  by (simp add: handle_dt_def Let_def local_step_def setError_def smap_find_put smap_find_erase
        split: sum.split option.split)

lemma handleFrame_local:
  assumes "smap_ok (mFragments r)"
  shows "local_step (mSrcAddr f) r (outcome_state (handleFrame get junk f r))"
proof -
  have "local_step (mSrcAddr f) r (outcome_state (Inr (handle_cm c r)))"
    if "cast_tpcm f = Some c" for c
    using that handle_cm_local [OF assms, of c]
    by (cases "handle_cm c r") (auto split: payload.splits)
  moreover have "local_step (mSrcAddr f) r (outcome_state (handle_dt get junk d r))"
    if "cast_tpdt f = Some d" for d
    using that handle_dt_local [OF assms, of d] by (auto split: payload.splits)
  ultimately show ?thesis
    using local_step_refl [OF assms]
    by (auto simp: handleFrame_def simp del: cast_tpcm.simps cast_tpdt.simps split: option.split)
qed

lemma feed_local:
  "smap_ok (mFragments r) \<Longrightarrow> (\<And>f. f \<in> set fs \<Longrightarrow> mSrcAddr f \<noteq> src) \<Longrightarrow>
     smap_find (mFragments (feed get junk fs r)) src = smap_find (mFragments r) src"
proof (induction fs arbitrary: r)
  case (Cons f fs)
  have "local_step (mSrcAddr f) r (outcome_state (handleFrame get junk f r))"
    by (rule handleFrame_local [OF Cons.prems(1)])
  moreover have "src \<noteq> mSrcAddr f" using Cons.prems(2) [of f] by auto
  ultimately show ?case using Cons by (simp add: local_step_def)
qed simp

lemma feed_appends:
  "smap_ok (mFragments r) \<Longrightarrow>
     smap_ok (mFragments (feed get junk fs r))
     \<and> (\<exists>qs. mReassembledFrames (feed get junk fs r) = mReassembledFrames r @ qs)"
proof (induction fs arbitrary: r)
  case (Cons f fs)
  have s: "local_step (mSrcAddr f) r (outcome_state (handleFrame get junk f r))"
    by (rule handleFrame_local [OF Cons.prems])
  then obtain qs where "mReassembledFrames (outcome_state (handleFrame get junk f r))
      = mReassembledFrames r @ qs"
    by (auto simp: local_step_def)
  with Cons.IH [of "outcome_state (handleFrame get junk f r)"] s show ?case
    by (auto simp: local_step_def)
qed simp

section \<open>One message\<close>

lemma cast_as_frame [simp]:
  "cast_tpcm (as_frame TPCM c) = Some c" "cast_tpdt (as_frame TPDT d) = Some d"
  by simp_all

declare cast_tpcm.simps [simp del] cast_tpdt.simps [simp del]

lemma handle_announce:
  assumes "smap_ok (mFragments r)" and "mPgn c = TP_CM_PGN" and "mDstAddr c = BROADCAST"
    and "mCtrlType (mBody c) = CTRL_TPCM_BAM"
  shows "smap_find (mFragments (outcome_state (handleFrame get junk (as_frame TPCM c) r))) (mSrcAddr c)
    = Some \<lparr>fr_mCMFrame = c, fr_mDTFrames = []\<rparr>"
  using assms by (simp add: handleFrame_def handle_cm_def Let_def smap_find_put)

text \<open>The state of the reassembler after \<open>k\<close> of the packets of a message have arrived.\<close>

definition received_packets :: "tpcm frame \<Rightarrow> jframe \<Rightarrow> bytes \<Rightarrow> nat \<Rightarrow> reassembler \<Rightarrow> bool" where
  "received_packets c f data k r \<longleftrightarrow> smap_ok (mFragments r)
     \<and> smap_find (mFragments r) (mSrcAddr f)
         = Some \<lparr>fr_mCMFrame = c, fr_mDTFrames = map (data_frame f data) [0 ..< k]\<rparr>"

lemma getLastSQ_map:
  "getLastSQ \<lparr>fr_mCMFrame = c, fr_mDTFrames = map (data_frame f data) [0 ..< k]\<rparr> = of_nat k"
  by (cases k) (simp_all add: getLastSQ_def last_map)

lemma handle_packet:
  assumes "received_packets c f data k r" and "k < n" and "n \<le> 255"
    and "mTotalPackets (mBody c) = of_nat n"
  shows "k + 1 < n \<Longrightarrow> received_packets c f data (k + 1)
           (outcome_state (handleFrame get junk (as_frame TPDT (data_frame f data k)) r))"
    and "k + 1 = n \<Longrightarrow>
      reassemble junk \<lparr>fr_mCMFrame = c, fr_mDTFrames = map (data_frame f data) [0 ..< n]\<rparr> = Inr data \<Longrightarrow>
      get (new_id c) data = Inr (Some f') \<Longrightarrow>
      mReassembledFrames (outcome_state (handleFrame get junk (as_frame TPDT (data_frame f data k)) r))
        = mReassembledFrames r @ [f']"
proof -
  have fr: "smap_find (mFragments r) (mSrcAddr f)
      = Some \<lparr>fr_mCMFrame = c, fr_mDTFrames = map (data_frame f data) [0 ..< k]\<rparr>"
    and ok: "smap_ok (mFragments r)"
    using assms(1) by (simp_all add: received_packets_def)
  have u: "unat (of_nat m :: u8) = m" if "m \<le> n" for m
    using that assms(3) by (simp add: unat_of_nat)
  have le: "(of_nat (Suc k) :: u8) \<le> of_nat n"
    using u [of "Suc k"] u [of n] assms(2) by (simp add: word_le_nat_alt del: of_nat_Suc)
  have sq: "unat (of_nat (Suc k) :: u8) = Suc (unat (of_nat k :: u8))"
    using u [of k] u [of "Suc k"] assms(2) by simp
  have eq: "(of_nat (Suc k) :: u8) = of_nat n \<longleftrightarrow> Suc k = n"
    using u [of "Suc k"] u [of n] assms(2) by (metis Suc_leI order_refl)
  note defs = handleFrame_def handle_dt_def Let_def fr getLastSQ_map assms(4) le sq eq
  show "k + 1 < n \<Longrightarrow> received_packets c f data (k + 1)
      (outcome_state (handleFrame get junk (as_frame TPDT (data_frame f data k)) r))"
    using ok by (simp add: defs received_packets_def smap_find_put del: of_nat_add of_nat_Suc)
  show "mReassembledFrames (outcome_state (handleFrame get junk
      (as_frame TPDT (data_frame f data k)) r)) = mReassembledFrames r @ [f']"
    if "k + 1 = n" "reassemble junk \<lparr>fr_mCMFrame = c, fr_mDTFrames = map (data_frame f data) [0 ..< n]\<rparr>
        = Inr data" "get (new_id c) data = Inr (Some f')"
  proof -
    have n: "n = Suc k" using that(1) by simp
    show ?thesis using that(2,3) by (simp add: defs setError_def n del: of_nat_add of_nat_Suc)
  qed
qed

text \<open>
  The frames of one source, in order, among any traffic of the others: what is reassembled from
  packet \<open>k\<close> on.
\<close>

lemma feed_packets:
  assumes "received_packets c f data k r" and "k < n" and n: "n \<le> 255"
    and c: "mTotalPackets (mBody c) = of_nat n"
    and re: "reassemble junk \<lparr>fr_mCMFrame = c, fr_mDTFrames = map (data_frame f data) [0 ..< n]\<rparr> = Inr data"
    and get: "get (new_id c) data = Inr (Some f')"
    and "filter (\<lambda>g. mSrcAddr g = mSrcAddr f) fs
           = map (\<lambda>i. as_frame TPDT (data_frame f data i)) [k ..< n]"
  shows "\<exists>qs. mReassembledFrames (feed get junk fs r) = mReassembledFrames r @ qs \<and> f' \<in> set qs"
  using assms(1,2,7)
proof (induction fs arbitrary: k r)
  case Nil
  then show ?case by (simp add: upt_conv_Cons)
next
  case (Cons g fs)
  have ok: "smap_ok (mFragments r)" using Cons.prems(1) by (simp add: received_packets_def)
  define r1 where "r1 = outcome_state (handleFrame get junk g r)"
  have loc: "local_step (mSrcAddr g) r r1" unfolding r1_def by (rule handleFrame_local [OF ok])
  then obtain q where q: "mReassembledFrames r1 = mReassembledFrames r @ q"
    and ok1: "smap_ok (mFragments r1)"
    by (auto simp: local_step_def)
  show ?case
  proof (cases "mSrcAddr g = mSrcAddr f")
    case False
    then have "mSrcAddr f \<noteq> mSrcAddr g" by simp
    then have "received_packets c f data k r1"
      using Cons.prems(1) loc by (simp add: received_packets_def local_step_def)
    from Cons.IH [OF this Cons.prems(2)] Cons.prems(3) False q show ?thesis
      by (auto simp flip: r1_def)
  next
    case True
    then have g: "g = as_frame TPDT (data_frame f data k)"
      and rest: "filter (\<lambda>g. mSrcAddr g = mSrcAddr f) fs
          = map (\<lambda>i. as_frame TPDT (data_frame f data i)) [Suc k ..< n]"
      using Cons.prems(2,3) by (simp_all add: upt_conv_Cons)
    show ?thesis
    proof (cases "k + 1 < n")
      case True
      then have "received_packets c f data (Suc k) r1"
        using handle_packet(1) [OF Cons.prems(1,2) n c] by (simp add: r1_def g)
      from Cons.IH [OF this _ rest] True q show ?thesis by (auto simp flip: r1_def)
    next
      case False
      then have "k + 1 = n" using Cons.prems(2) by simp
      have "mReassembledFrames r1 = mReassembledFrames r @ [f']"
        unfolding r1_def g
        by (rule handle_packet(2) [OF Cons.prems(1,2) n c \<open>k + 1 = n\<close>]) (rule re, rule get)
      with feed_appends [OF ok1, of get junk fs] show ?thesis by (auto simp flip: r1_def)
    qed
  qed
qed

section \<open>From fragmenter to reassembler\<close>

text \<open>The frames a fragmented message is sent as.\<close>

definition bam_frames :: "fragmenter \<Rightarrow> jframe list" where
  "bam_frames b = as_frame TPCM (mCMFrame b) # map (as_frame TPDT) (getDataFrames b)"

context frame_provider
begin

text \<open>
  Whoever decodes frames for the reassembler: a message of at most 255 packets goes through,
  whatever the other sources send in between.
\<close>

lemma transfer:
  assumes len: "8 < jframe_getDataLength f" "jframe_getDataLength f \<le> 1785"
    and hdr: "hdr_ok f" and del: "delivers (f\<lparr>mDstAddr := 0\<rparr>) f'"
    and frag: "mPgn (mCMFrame b) = TP_CM_PGN" "fragment f b = Inr (ok, b')"
    and r: "smap_ok (mFragments r)"
    and fs: "filter (\<lambda>g. mSrcAddr g = mSrcAddr f) fs = bam_frames b'"
  shows "ok \<and> (\<exists>qs. mReassembledFrames (feed get junk fs r) = mReassembledFrames r @ qs \<and> f' \<in> set qs)"
proof -
  let ?f0 = "f\<lparr>mDstAddr := 0\<rparr>" and ?n = "(jframe_getDataLength f + 6) div 7"
  have l0: "jframe_getDataLength ?f0 = jframe_getDataLength f"
    by (simp add: jframe_getDataLength_def)
  obtain data where enc0: "jframe_encode ?f0 (jframe_getDataLength f)
      = Inr (getIdentifier ?f0, data, jframe_getDataLength f)"
    and dl: "length data = jframe_getDataLength f"
    using delivered_encodes [OF del] by (auto simp: l0)
  then have enc: "jframe_encode f (jframe_getDataLength f)
      = Inr (getIdentifier f, data, jframe_getDataLength f)"
    by (simp add: jframe_encode_def frame_encode_Inr jframe_getDataLength_def)
  define c where "c = bam_announce (mCMFrame b) f (jframe_getDataLength f)"
  from fragment_eq [OF frag(1) enc len] frag(2)
  have ok: "ok" and cm: "mCMFrame b' = c"
    and dts: "getDataFrames b' = map (data_frame f data) [0 ..< ?n]"
    by (auto simp: c_def)
  have c: "mPgn c = TP_CM_PGN" "mDstAddr c = BROADCAST" "mSrcAddr c = mSrcAddr f"
      "mPriority c = mPriority f" "mDataPgn (mBody c) = mPgn f"
      "mCtrlType (mBody c) = CTRL_TPCM_BAM" "mTotalPackets (mBody c) = of_nat ?n"
      "mTotalMsgSize (mBody c) = of_nat (length data)"
    using frag(1) hdr by (simp_all add: c_def bam_announce_def tpcm_init_def hdr_ok_def dl)
  have n: "?n \<le> 255" and pos: "0 < ?n" using len by (auto simp: div_greater_zero_iff)
  have "reassemble junk \<lparr>fr_mCMFrame = c, fr_mDTFrames = map (data_frame f data) [0 ..< ?n]\<rparr> = Inr data"
    by (rule reassemble_ok) (use c(8) len dl in auto)
  moreover have "get (new_id c) data = Inr (Some f')"
    using get_encoded [OF del, of "getIdentifier ?f0" data "jframe_getDataLength f"] enc0 dl
      new_id_eq [OF hdr c(4,3,5)] by (simp add: l0)
  moreover obtain pre post where "fs = pre @ as_frame TPCM c # post"
    and pre: "\<forall>g \<in> set pre. mSrcAddr g \<noteq> mSrcAddr f"
    and post: "filter (\<lambda>g. mSrcAddr g = mSrcAddr f) post
        = map (\<lambda>i. as_frame TPDT (data_frame f data i)) [0 ..< ?n]"
    using fs cm dts
    by (auto simp: bam_frames_def filter_eq_Cons_iff o_def)
  moreover define r1 where "r1 = feed get junk pre r"
  moreover have r1: "smap_ok (mFragments r1)"
      "\<exists>qs. mReassembledFrames r1 = mReassembledFrames r @ qs"
    using feed_appends [OF r] by (simp_all add: r1_def)
  moreover define r2 where "r2 = outcome_state (handleFrame get junk (as_frame TPCM c) r1)"
  moreover have "local_step (mSrcAddr c) r1 r2"
    unfolding r2_def using handleFrame_local [OF r1(1), of "as_frame TPCM c"] by simp
  moreover from this have "received_packets c f data 0 r2"
    using handle_announce [OF r1(1) c(1,2,6)] c(3)
    by (simp add: received_packets_def r2_def local_step_def)
  ultimately obtain qs where "mReassembledFrames (feed get junk post r2) = mReassembledFrames r2 @ qs"
    and "f' \<in> set qs"
    using feed_packets [of c f data 0 r2 ?n junk get f' post] pos n c(7) by blast
  moreover have "feed get junk fs r = feed get junk post r2"
    by (simp add: \<open>fs = pre @ as_frame TPCM c # post\<close> feed_def r1_def r2_def)
  moreover obtain q2 where "mReassembledFrames r2 = mReassembledFrames r1 @ q2"
    using \<open>local_step (mSrcAddr c) r1 r2\<close> by (auto simp: local_step_def)
  ultimately show ?thesis using ok r1(2) by auto
qed

end

section \<open>Properties\<close>

text \<open>C1: End to end over the broadcast protocol: a message of 9 to 1785 bytes that the fragmenter accepted,
  sent in order among any frames of other sources, is reassembled and decoded by the factory into
  the frame that was sent (a destination-specific PGN with destination 0), whatever the
  uninitialised buffer held and whatever state the reassembler was in.\<close>

theorem bam_end_to_end:
  assumes "8 < jframe_getDataLength f" and "jframe_getDataLength f \<le> 1785" and "hdr_ok f"
    and "factory_delivers m (f\<lparr>mDstAddr := 0\<rparr>) f'"
    and "mPgn (mCMFrame b) = TP_CM_PGN" and "fragment f b = Inr (ok, b')"
    and "smap_ok (mFragments r)"
    and "filter (\<lambda>g. mSrcAddr g = mSrcAddr f) fs = bam_frames b'"
  shows "ok \<and> (\<exists>qs. mReassembledFrames (feed (getJ1939Frame m) junk fs r)
                       = mReassembledFrames r @ qs \<and> f' \<in> set qs)"
  by (rule registry.transfer [OF assms])

lemma dm1_message_length: "jframe_getDataLength (dm1_message three_codes) = 14"
  using dm1_length [OF three_codes_valid]
  by (simp add: jframe_getDataLength_def dm1_message_def) (simp add: sample_dm1_def three_codes_def)

lemma dm1_message_delivers:
  "factory_delivers dm1_factory ((dm1_message three_codes)\<lparr>mDstAddr := 0\<rparr>)
     (received (dm1_message []) (dm1_message three_codes) (mBody (dm1_message three_codes)))"
  using dm1_factory_delivers
  by (simp add: factory_delivers_def hdr_ok_def dm1_factory_def received_def dm1_message_def
      getPDUFormatGroup_def getPDUFormat_def)

theorem bam_end_to_end_witness:
  "\<exists>b'. fragment (dm1_message three_codes) BamFragmenter = Inr (True, b')
     \<and> received (dm1_message []) (dm1_message three_codes) (mBody (dm1_message three_codes))
         \<in> set (mReassembledFrames (feed (getJ1939Frame dm1_factory) (\<lambda>i. 0) (bam_frames b') BamReassembler))"
proof -
  let ?f = "dm1_message three_codes"
  have cm: "mPgn (mCMFrame BamFragmenter) = TP_CM_PGN" by (simp add: BamFragmenter_def TPCMFrame_def)
  have len: "8 < jframe_getDataLength ?f" "jframe_getDataLength ?f \<le> 1785"
    by (simp_all add: dm1_message_length)
  obtain data where "jframe_encode ?f (jframe_getDataLength ?f)
      = Inr (getIdentifier ?f, data, jframe_getDataLength ?f)"
    using registry.delivered_encodes [OF dm1_factory_delivers] by blast
  from fragment_eq [OF cm this len] obtain b' where
    b': "fragment ?f BamFragmenter = Inr (True, b')"
    and own: "\<forall>g \<in> set (bam_frames b'). mSrcAddr g = mSrcAddr ?f"
    by (auto simp: bam_frames_def bam_announce_def)
  have "filter (\<lambda>g. mSrcAddr g = mSrcAddr ?f) (bam_frames b') = bam_frames b'"
    using own by simp
  from bam_end_to_end [OF len dm1_message_hdr dm1_message_delivers cm b' _ this, of BamReassembler]
  have "\<exists>qs. mReassembledFrames (feed (getJ1939Frame dm1_factory) (\<lambda>i. 0) (bam_frames b') BamReassembler)
      = mReassembledFrames BamReassembler @ qs
    \<and> received (dm1_message []) ?f (mBody ?f) \<in> set qs"
    by (simp add: BamReassembler_def)
  with b' show ?thesis by auto
qed

text \<open>Senders do not disturb each other: frames of other sources, however malformed, leave the fragments
  of a source as they are and only ever append to the queue of reassembled frames.\<close>

theorem bam_sources_isolated:
  assumes "smap_ok (mFragments r)" and "\<And>g. g \<in> set fs \<Longrightarrow> mSrcAddr g \<noteq> src"
  shows "smap_find (mFragments (feed get junk fs r)) src = smap_find (mFragments r) src
    \<and> smap_ok (mFragments (feed get junk fs r))
    \<and> (\<exists>qs. mReassembledFrames (feed get junk fs r) = mReassembledFrames r @ qs)"
  using feed_local [OF assms] feed_appends [OF assms(1)] by blast

theorem bam_sources_isolated_witness:
  "smap_find (mFragments (feed (getJ1939Frame []) (\<lambda>i. 0)
      [as_frame TPDT (setSrcAddr 0x33 TPDTFrame), as_frame Request (setSrcAddr 0x34 RequestFrame)]
      BamReassembler)) 0x21 = None"
proof -
  let ?fs = "[as_frame TPDT (setSrcAddr 0x33 TPDTFrame), as_frame Request (setSrcAddr 0x34 RequestFrame)]"
  have ok: "smap_ok (mFragments BamReassembler)" by (simp add: BamReassembler_def)
  have other: "\<And>g. g \<in> set ?fs \<Longrightarrow> mSrcAddr g \<noteq> 0x21" by (auto simp: setSrcAddr_def)
  from bam_sources_isolated [OF ok other, THEN conjunct1]
  have "smap_find (mFragments (feed (getJ1939Frame []) (\<lambda>i. 0) ?fs BamReassembler)) 0x21
      = smap_find (mFragments BamReassembler) 0x21" .
  also have "\<dots> = None" by (simp add: BamReassembler_def)
  finally show ?thesis .
qed

text \<open>With more than 255 packets every \<open>u8\<close> is the number of some packet.\<close>

lemma fold_put_keys:
  "smap_ok m \<Longrightarrow> smap_ok (fold (\<lambda>i. smap_put (k i) (g i)) is m)
     \<and> fst ` set (fold (\<lambda>i. smap_put (k i) (g i)) is m) = fst ` set m \<union> k ` set is"
  by (induction "is" arbitrary: m) (auto simp: set_smap_put_keys)

lemma all_numbers:
  assumes "256 \<le> n"
  shows "(\<lambda>i. of_nat (i + 1) :: u8) ` {0 ..< n} = UNIV"
proof -
  have "w \<in> (\<lambda>i. of_nat (i + 1) :: u8) ` {0 ..< n}" for w :: u8
  proof (rule image_eqI)
    show "w = of_nat (unat (w - 1) + 1)" by simp
    have "unat (w - 1) < 2 ^ LENGTH(8)" by (rule unsigned_less)
    then show "unat (w - 1) \<in> {0 ..< n}" using assms by simp
  qed
  then show ?thesis by auto
qed

text \<open>A message longer than 1785 bytes is not refused: the fragmenter reports success, but the \<open>u8\<close>
  packet numbers wrap, at most 256 of the packets are kept, and the announced number of packets
  is 0, so that no receiver accepts any of them.\<close>

theorem bam_too_long:
  assumes "jframe_encode f (jframe_getDataLength f) = Inr (ident, data, jframe_getDataLength f)"
    and "1785 < jframe_getDataLength f"
  shows "\<exists>b'. fragment f b = Inr (True, b') \<and> mTotalPackets (mBody (mCMFrame b')) = 0
    \<and> length (mDTFrames b') = 256"
proof -
  let ?n = "(jframe_getDataLength f + 6) div 7"
  let ?dts = "fold (\<lambda>i. smap_put (of_nat (i + 1) :: u8) (data_frame f data i)) [0 ..< ?n] []"
  have n: "256 \<le> ?n" using assms(2) by linarith
  have "smap_ok ?dts" and "fst ` set ?dts = UNIV"
    using fold_put_keys [of "[]" "\<lambda>i. of_nat (i + 1) :: u8" "data_frame f data" "[0 ..< ?n]"]
      all_numbers [OF n] by simp_all
  then have "distinct (map fst ?dts)" and "set (map fst ?dts) = UNIV"
    by (simp_all add: smap_ok_def strict_sorted_iff)
  then have len: "length ?dts = 256"
    using distinct_card [of "map fst ?dts"] by (simp add: card_word)
  have "(of_nat 256 :: u8) = 0" by simp
  with len assms(1,2) show ?thesis by (simp add: fragment_def Let_def)
qed

definition long_message :: jframe where
  "long_message = \<lparr>mPriority = 6, mSrcAddr = 0x21, mPgn = 0xFEEC, mDstAddr = 0xFF,
     mName = ''long'', mBody = Generic \<lparr>mLength = 2000, mSPNs = []\<rparr>\<rparr>"

theorem bam_too_long_witness:
  "\<exists>b'. fragment long_message BamFragmenter = Inr (True, b') \<and> mTotalPackets (mBody (mCMFrame b')) = 0"
proof -
  have len: "jframe_getDataLength long_message = 2000"
    by (simp add: jframe_getDataLength_def long_message_def generic_getDataLength_def last_spn_def)
  have "jframe_encode long_message (jframe_getDataLength long_message)
      = Inr (getIdentifier long_message, replicate 2000 0xFF, jframe_getDataLength long_message)"
    unfolding jframe_encode_def frame_encode_Inr len
    by (simp add: long_message_def generic_getDataLength_def last_spn_def generic_encodeData_def)
  from bam_too_long [OF this] len show ?thesis by auto
qed

end
