(* ===== verification/History.thy ===== *)
theory History
  imports TimeUtils Spn
begin

text \<open>
  \<open>SPNHistory\<close> (\<open>J1939/SPN/SPNHistory.cpp\<close>): the changes of one SPN over time, and windows of
  evenly spaced samples computed from them. The loop of \<open>getWindow\<close> does not end for some arguments,
  so it is a partial function: \<open>None\<close> is a call that never returns.
\<close>

section \<open>Samples\<close>

text \<open>The member of the union \<open>mValue\<close> that was written last.\<close>

datatype sample_value = Numeric double | Status u8

datatype Sample = Sample (getTimeStamp: TimeStamp) (mValue: sample_value)

definition setTimeStamp :: "TimeStamp \<Rightarrow> Sample \<Rightarrow> Sample" where
  "setTimeStamp timestamp s = Sample timestamp (mValue s)"

text \<open>Reading the other member is undefined.\<close>

definition getNumeric :: "Sample \<Rightarrow> double res" where
  "getNumeric s = (case mValue s of Numeric d \<Rightarrow> Inr d | Status v \<Rightarrow> Inl UndefinedBehaviour)"

definition getStatus :: "Sample \<Rightarrow> u8 res" where
  "getStatus s = (case mValue s of Status v \<Rightarrow> Inr v | Numeric d \<Rightarrow> Inl UndefinedBehaviour)"

definition sample_less :: "Sample \<Rightarrow> Sample \<Rightarrow> bool" where
  "sample_less this other \<longleftrightarrow> ts_lt (getTimeStamp this) (getTimeStamp other)"

section \<open>Recording\<close>

abbreviation (input) MAX_NUMBER_OF_SAMPLES :: nat where "MAX_NUMBER_OF_SAMPLES \<equiv> 50000"

text \<open>A shared specification is known by its number; the capacity stays what was reserved.\<close>

record history =
  mGeneralSpec :: "nat option"
  mNumericSpec :: "SPNNumericSpec option"
  mStatusSpec :: "SPNStatusSpec option"
  mSamples :: "Sample list"

definition SPNHistory :: history where
  "SPNHistory = \<lparr>mGeneralSpec = None, mNumericSpec = None, mStatusSpec = None, mSamples = []\<rparr>"

definition adopt_spec :: "SPN \<Rightarrow> history \<Rightarrow> history" where
  "adopt_spec s h =
     (if mGeneralSpec h \<noteq> None then h
      else
        let h1 = h\<lparr>mGeneralSpec := Some (mSpecId s)\<rparr>
        in (case mSpnData s of
              SpnNumeric spec v \<Rightarrow> h1\<lparr>mNumericSpec := Some spec\<rparr>
            | SpnStatus spec v \<Rightarrow> h1\<lparr>mStatusSpec := Some spec\<rparr>
            | SpnString off v \<Rightarrow> h1))"

text \<open>Whether the value differs from the last one stored.\<close>

definition numeric_changed :: "history \<Rightarrow> double \<Rightarrow> bool res" where
  "numeric_changed h x =
     (if mSamples h = [] then Inr True
      else res_bind (getNumeric (last (mSamples h))) (\<lambda>y. Inr (\<not> d_eq y x)))"

definition status_changed :: "history \<Rightarrow> u8 \<Rightarrow> bool res" where
  "status_changed h x =
     (if mSamples h = [] then Inr True
      else res_bind (getStatus (last (mSamples h))) (\<lambda>y. Inr (y \<noteq> x)))"

definition addSample :: "TimeStamp \<Rightarrow> SPN \<Rightarrow> history \<Rightarrow> history res" where
  "addSample timeStamp s h =
     (if length (mSamples h) = MAX_NUMBER_OF_SAMPLES then Inr h
      else
        let h1 = adopt_spec s h
        in if mGeneralSpec h1 \<noteq> Some (mSpecId s) then Inr h1
           else
             (case mSpnData s of
                SpnNumeric spec v \<Rightarrow>
                  let x = getFormattedValue spec v
                  in res_bind (numeric_changed h1 x) (\<lambda>changed.
                       Inr (if changed then h1\<lparr>mSamples := mSamples h1 @ [Sample timeStamp (Numeric x)]\<rparr>
                            else h1))
              | SpnStatus spec v \<Rightarrow>
                  res_bind (status_changed h1 v) (\<lambda>changed.
                    Inr (if changed then h1\<lparr>mSamples := mSamples h1 @ [Sample timeStamp (Status v)]\<rparr>
                         else h1))
              | SpnString off v \<Rightarrow> Inr h1))"

section \<open>Windows\<close>

text \<open>\<open>std::upper_bound\<close> on a sorted vector.\<close>

definition upper_bound :: "Sample list \<Rightarrow> Sample \<Rightarrow> nat" where
  "upper_bound ss x = length (takeWhile (\<lambda>s. \<not> sample_less x s) ss)"

text \<open>The inner loop: on to the last sample not later than \<open>current\<close>.\<close>

function advance :: "Sample list \<Rightarrow> TimeStamp \<Rightarrow> nat \<Rightarrow> nat" where
  "advance ss current pos =
     (if pos + 1 < length ss \<and> ts_ge current (getTimeStamp (ss ! (pos + 1)))
      then advance ss current (pos + 1) else pos)"
  by pat_completeness auto
termination by (relation "measure (\<lambda>(ss, current, pos). length ss - pos)") auto

declare advance.simps [simp del]

partial_function (option) window_loop ::
  "Sample list \<Rightarrow> TimeStamp \<Rightarrow> u32 \<Rightarrow> TimeStamp \<Rightarrow> nat \<Rightarrow> Sample list option" where
  "window_loop ss timeStamp period current pos =
     (if ts_le current timeStamp
      then let current' = ts_plus_millis current period
           in Option.bind (window_loop ss timeStamp period current' (advance ss current' pos))
                (\<lambda>window. Some (setTimeStamp current (ss ! pos) # window))
      else Some [])"

definition getWindow :: "history \<Rightarrow> TimeStamp \<Rightarrow> u32 \<Rightarrow> u32 \<Rightarrow> Sample list option res" where
  "getWindow h timeStamp milliseconds samples =
     (let ss = mSamples h
      in if length ss < 2 then Inr (Some [])
         else if samples = 0 then Inl UndefinedBehaviour
         else
           let period = milliseconds div samples;
               current = ts_minus_millis timeStamp milliseconds;
               pos = upper_bound ss (Sample current (Status 0))
           in Inr (window_loop ss timeStamp period current (if pos \<noteq> 0 then pos - 1 else pos)))"

section \<open>Invariant\<close>

text \<open>
  All samples are of the kind of the SPN first recorded, no two neighbours have the same value, and
  the capacity is never exceeded. \<open>kinds\<close> says which SPN specifications are numeric: objects that
  share a specification are of one class.
\<close>

definition sample_kind :: "Sample \<Rightarrow> EType" where
  "sample_kind s = (case mValue s of Numeric d \<Rightarrow> SPN_NUMERIC | Status v \<Rightarrow> SPN_STATUS)"

fun value_eq :: "sample_value \<Rightarrow> sample_value \<Rightarrow> bool" where
  "value_eq (Numeric x) (Numeric y) = d_eq x y"
| "value_eq (Status x) (Status y) = (x = y)"
| "value_eq _ _ = False"

definition history_ok :: "(nat \<Rightarrow> EType) \<Rightarrow> history \<Rightarrow> bool" where
  "history_ok kinds h \<longleftrightarrow>
     length (mSamples h) \<le> MAX_NUMBER_OF_SAMPLES
     \<and> (mSamples h \<noteq> [] \<longrightarrow> mGeneralSpec h \<noteq> None)
     \<and> (\<forall>k. mGeneralSpec h = Some k \<longrightarrow> (\<forall>s \<in> set (mSamples h). sample_kind s = kinds k))
     \<and> successively (\<lambda>s s'. \<not> value_eq (mValue s) (mValue s')) (mSamples h)"

lemma adopt_spec_fields:
  "mSamples (adopt_spec s h) = mSamples h"
  "mGeneralSpec (adopt_spec s h) = Some (case mGeneralSpec h of None \<Rightarrow> mSpecId s | Some k \<Rightarrow> k)"
  by (auto simp: adopt_spec_def Let_def split: spn_data.split option.split)

lemma changed_ok:
  assumes "\<And>s. s \<in> set (mSamples h) \<Longrightarrow> sample_kind s = SPN_NUMERIC"
  shows "\<exists>b. numeric_changed h x = Inr b
     \<and> (b \<longleftrightarrow> mSamples h = [] \<or> \<not> value_eq (mValue (last (mSamples h))) (Numeric x))"
  using assms [of "last (mSamples h)"]
  by (cases "mSamples h = []")
     (auto simp: numeric_changed_def getNumeric_def sample_kind_def split: sample_value.splits)

lemma status_changed_ok:
  assumes "\<And>s. s \<in> set (mSamples h) \<Longrightarrow> sample_kind s = SPN_STATUS"
  shows "\<exists>b. status_changed h x = Inr b
     \<and> (b \<longleftrightarrow> mSamples h = [] \<or> \<not> value_eq (mValue (last (mSamples h))) (Status x))"
  using assms [of "last (mSamples h)"]
  by (cases "mSamples h = []")
     (auto simp: status_changed_def getStatus_def sample_kind_def split: sample_value.splits)

lemma addSample_ok:
  assumes h: "history_ok kinds h" and k: "getType s = kinds (mSpecId s)"
  shows "\<exists>h'. addSample t s h = Inr h' \<and> history_ok kinds h'
    \<and> (mSamples h' = mSamples h \<or> (\<exists>v. mSamples h' = mSamples h @ [Sample t v]))"
proof (cases "length (mSamples h) = MAX_NUMBER_OF_SAMPLES \<or> mGeneralSpec (adopt_spec s h) \<noteq> Some (mSpecId s)")
  case True
  then show ?thesis
    using h by (auto simp: addSample_def Let_def history_ok_def adopt_spec_fields split: option.splits)
next
  case False
  let ?h = "adopt_spec s h"
  have spec: "mGeneralSpec ?h = Some (mSpecId s)" and len: "length (mSamples h) < MAX_NUMBER_OF_SAMPLES"
    using False h by (auto simp: history_ok_def)
  have kind: "sample_kind x = kinds (mSpecId s)" if "x \<in> set (mSamples ?h)" for x
    using that h spec by (cases "mGeneralSpec h") (auto simp: history_ok_def adopt_spec_fields)
  have ok: "history_ok kinds ?h"
    using h kind spec by (auto simp: history_ok_def adopt_spec_fields)
  have push: "history_ok kinds (?h\<lparr>mSamples := mSamples ?h @ [Sample t v]\<rparr>)"
    if "sample_kind (Sample t v) = kinds (mSpecId s)"
      and "mSamples ?h = [] \<or> \<not> value_eq (mValue (last (mSamples ?h))) v" for v
    using that ok kind spec len
    by (auto simp: history_ok_def adopt_spec_fields successively_append_iff)
  show ?thesis
  proof (cases "mSpnData s")
    case (SpnNumeric spec v)
    then have "kinds (mSpecId s) = SPN_NUMERIC" using k by (simp add: getType_def)
    with changed_ok [of ?h "getFormattedValue spec v"] kind push [of "Numeric (getFormattedValue spec v)"]
      ok SpnNumeric False
    show ?thesis by (auto simp: addSample_def Let_def sample_kind_def adopt_spec_fields)
  next
    case (SpnStatus spec v)
    then have "kinds (mSpecId s) = SPN_STATUS" using k by (simp add: getType_def)
    with status_changed_ok [of ?h v] kind push [of "Status v"] ok SpnStatus False
    show ?thesis by (auto simp: addSample_def Let_def sample_kind_def adopt_spec_fields)
  next
    case (SpnString off v)
    then show ?thesis using ok False by (auto simp: addSample_def Let_def adopt_spec_fields)
  qed
qed

section \<open>Sample and hold\<close>

text \<open>The reference: the sample that holds at an instant is the last one not later, or the first.\<close>

definition hold_index :: "Sample list \<Rightarrow> nat \<Rightarrow> nat" where
  "hold_index ss m = length (takeWhile (\<lambda>s. ts_micros (getTimeStamp s) \<le> m) ss) - 1"

definition samples_ok :: "Sample list \<Rightarrow> bool" where
  "samples_ok ss \<longleftrightarrow> (\<forall>s \<in> set ss. ts_normal (getTimeStamp s))
     \<and> sorted (map (\<lambda>s. ts_micros (getTimeStamp s)) ss)"

lemma ts_le_micros: "ts_normal a \<Longrightarrow> ts_normal b \<Longrightarrow> ts_le a b \<longleftrightarrow> ts_micros a \<le> ts_micros b"
  using ts_lt_micros [of b a] by (auto simp: ts_le_def ts_gt_def ts_lt_def)

lemma ts_ge_micros: "ts_normal a \<Longrightarrow> ts_normal b \<Longrightarrow> ts_ge a b \<longleftrightarrow> ts_micros b \<le> ts_micros a"
  using ts_lt_micros [of a b] by (auto simp: ts_ge_def)

lemma takeWhile_sorted_nth:
  "sorted (map f ss) \<Longrightarrow> i < length ss \<Longrightarrow>
     i < length (takeWhile (\<lambda>s. f s \<le> m) ss) \<longleftrightarrow> f (ss ! i) \<le> m" for m :: nat
proof (induction ss arbitrary: i)
  case (Cons s ss)
  show ?case
  proof (cases i)
    case (Suc j)
    then have "f s \<le> f (ss ! j)" using Cons.prems by simp
    then have "\<not> f s \<le> m \<Longrightarrow> \<not> f (ss ! j) \<le> m" by simp
    with Suc Cons show ?thesis by auto
  qed simp
qed simp

lemma hold_index_less: "ss \<noteq> [] \<Longrightarrow> hold_index ss m < length ss"
  using length_takeWhile_le [of "\<lambda>s. ts_micros (getTimeStamp s) \<le> m" ss]
  by (cases ss) (auto simp: hold_index_def)

lemma hold_index_mono: "m \<le> m' \<Longrightarrow> hold_index ss m \<le> hold_index ss m'"
proof -
  assume "m \<le> m'"
  then have "length (takeWhile (\<lambda>s. ts_micros (getTimeStamp s) \<le> m) ss)
      \<le> length (takeWhile (\<lambda>s. ts_micros (getTimeStamp s) \<le> m') ss)"
    by (induction ss) auto
  then show ?thesis by (simp add: hold_index_def)
qed

lemma advance_eq:
  assumes "samples_ok ss" and "ts_normal t" and "pos < length ss"
  shows "advance ss t pos = max pos (hold_index ss (ts_micros t))"
  using assms
proof (induction ss t pos rule: advance.induct)
  case (1 ss t pos)
  let ?c = "length (takeWhile (\<lambda>s. ts_micros (getTimeStamp s) \<le> ts_micros t) ss)"
  show ?case
  proof (cases "pos + 1 < length ss")
    case True
    have n: "ts_normal (getTimeStamp (ss ! (pos + 1)))"
      using 1(2) nth_mem [OF True] by (simp add: samples_ok_def)
    have c: "pos + 1 < ?c \<longleftrightarrow> ts_micros (getTimeStamp (ss ! (pos + 1))) \<le> ts_micros t"
      using 1(2) True takeWhile_sorted_nth [of "\<lambda>s. ts_micros (getTimeStamp s)" ss "pos + 1"]
      by (simp add: samples_ok_def)
    show ?thesis
      using 1 True c ts_ge_micros [OF 1(3) n]
      by (subst advance.simps) (auto simp: hold_index_def)
  next
    case False
    then have "?c \<le> pos + 1" using length_takeWhile_le [of _ ss] by (meson le_trans not_less)
    with False show ?thesis by (subst advance.simps) (auto simp: hold_index_def)
  qed
qed

text \<open>One turn moves a normalised stamp on exactly, away from the instants where \<open>operator+\<close> forgets
  the carry.\<close>

lemma next_stamp:
  assumes "ts_normal t" and "ts_micros t mod 1000 \<noteq> 0"
    and "unat (mSeconds t) + unat (mSeconds (ts_of_millis p)) + 1 < 2 ^ 32"
  shows "ts_micros (ts_plus_millis t p) = ts_micros t + unat p * 1000"
    and "ts_normal (ts_plus_millis t p)"
proof -
  show m: "ts_micros (ts_plus_millis t p) = ts_micros t + unat p * 1000"
    using ts_plus_micros(1) [OF assms(1) ts_of_millis_normal assms(3)]
    by (simp add: ts_plus_millis_def ts_of_millis_micros)
  have "mMicroSec (ts_plus_millis t p) \<noteq> 1000000"
  proof
    assume "mMicroSec (ts_plus_millis t p) = 1000000"
    then have e: "unat (mMicroSec (ts_plus_millis t p)) = 1000000" by simp
    have "ts_micros (ts_plus_millis t p) = (unat (mSeconds (ts_plus_millis t p)) * 1000 + 1000) * 1000"
      by (simp add: ts_micros_def e algebra_simps)
    then have "ts_micros (ts_plus_millis t p) mod 1000 = 0" by simp
    then have "(ts_micros t + unat p * 1000) mod 1000 = 0" by (simp only: m)
    then have "ts_micros t mod 1000 = 0" by simp
    with assms(2) show False by simp
  qed
  moreover have "mMicroSec (ts_plus_millis t p) \<le> 1000000"
    using ts_plus_micros(2) [OF assms(1) ts_of_millis_normal assms(3)] by (simp add: ts_plus_millis_def)
  ultimately show "ts_normal (ts_plus_millis t p)" by (auto simp: ts_normal_def)
qed

lemma ts_seconds: "ts_normal t \<Longrightarrow> unat (mSeconds t) = ts_micros t div 1000000"
  by (simp add: ts_micros_def ts_normal_unat)

lemma window_loop_ok:
  assumes ss: "samples_ok ss" "ss \<noteq> []" and p: "0 < p" and stop: "ts_normal stop"
    and over: "unat (mSeconds stop) + unat (mSeconds (ts_of_millis p)) + 1 < 2 ^ 32"
  shows "ts_normal t \<Longrightarrow> ts_micros t mod 1000 \<noteq> 0 \<Longrightarrow>
    \<exists>w. window_loop ss stop p t (hold_index ss (ts_micros t)) = Some w
      \<and> length w = (if ts_micros t \<le> ts_micros stop
                     then (ts_micros stop - ts_micros t) div (unat p * 1000) + 1 else 0)
      \<and> (\<forall>k < length w. ts_micros (getTimeStamp (w ! k)) = ts_micros t + k * (unat p * 1000)
           \<and> mValue (w ! k) = mValue (ss ! hold_index ss (ts_micros t + k * (unat p * 1000))))"
proof (induction "ts_micros stop + unat p * 1000 - ts_micros t" arbitrary: t rule: less_induct)
  case less
  let ?d = "unat p * 1000" and ?t = "ts_plus_millis t p" and ?pos = "hold_index ss (ts_micros t)"
  have d: "0 < ?d" using p by (simp add: word_less_nat_alt)
  show ?case
  proof (cases "ts_micros t \<le> ts_micros stop")
    case False
    then show ?thesis
      using ts_le_micros [OF less(2) stop] by (subst window_loop.simps) simp
  next
    case True
    then have "unat (mSeconds t) \<le> unat (mSeconds stop)"
      by (simp add: ts_seconds less(2) stop div_le_mono)
    then have o: "unat (mSeconds t) + unat (mSeconds (ts_of_millis p)) + 1 < 2 ^ 32" using over by simp
    note nx = next_stamp [OF less(2,3) o]
    have "ts_micros ?t mod 1000 \<noteq> 0" using less(3) by (simp add: nx(1))
    moreover have "ts_micros stop + ?d - ts_micros ?t < ts_micros stop + ?d - ts_micros t"
      using True d by (simp add: nx(1))
    ultimately obtain w where w: "window_loop ss stop p ?t (hold_index ss (ts_micros ?t)) = Some w"
      "length w = (if ts_micros ?t \<le> ts_micros stop
         then (ts_micros stop - ts_micros ?t) div ?d + 1 else 0)"
      "\<forall>k < length w. ts_micros (getTimeStamp (w ! k)) = ts_micros ?t + k * ?d
         \<and> mValue (w ! k) = mValue (ss ! hold_index ss (ts_micros ?t + k * ?d))"
      using less(1) nx(2) by blast
    have "advance ss ?t ?pos = hold_index ss (ts_micros ?t)"
      using advance_eq [OF ss(1) nx(2) hold_index_less [OF ss(2)]] hold_index_mono [of "ts_micros t" "ts_micros ?t"]
      by (simp add: nx(1))
    then have "window_loop ss stop p t ?pos = Some (setTimeStamp t (ss ! ?pos) # w)"
      using True ts_le_micros [OF less(2) stop] w(1) by (subst window_loop.simps) (simp add: Let_def)
    moreover have "length (setTimeStamp t (ss ! ?pos) # w) = (ts_micros stop - ts_micros t) div ?d + 1"
    proof (cases "ts_micros ?t \<le> ts_micros stop")
      case True
      then have "ts_micros stop - ts_micros t = (ts_micros stop - ts_micros ?t) + ?d"
        by (simp add: nx(1))
      then have "(ts_micros stop - ts_micros t) div ?d = (ts_micros stop - ts_micros ?t) div ?d + 1"
        using d div_add_self2 [of ?d "ts_micros stop - ts_micros ?t"] by simp
      then show ?thesis using True w(2) by simp
    qed (use w(2) True nx(1) in simp)
    moreover have "ts_micros (getTimeStamp ((setTimeStamp t (ss ! ?pos) # w) ! k)) = ts_micros t + k * ?d
        \<and> mValue ((setTimeStamp t (ss ! ?pos) # w) ! k) = mValue (ss ! hold_index ss (ts_micros t + k * ?d))"
      if "k < length (setTimeStamp t (ss ! ?pos) # w)" for k
    proof (cases k)
      case (Suc j)
      then show ?thesis using that w(3) by (simp add: nx(1) algebra_simps)
    qed (simp add: setTimeStamp_def)
    ultimately show ?thesis using True by simp
  qed
qed

section \<open>Properties\<close>

text \<open>Recording an SPN never reads the wrong member of the sample's union and keeps the history's
  invariant, and time stamps that never go back keep the samples sorted.\<close>

theorem history_invariant:
  assumes "history_ok kinds h" and "getType s = kinds (mSpecId s)"
  shows "\<exists>h'. addSample t s h = Inr h' \<and> history_ok kinds h'
    \<and> (samples_ok (mSamples h) \<and> ts_normal t
          \<and> (mSamples h = [] \<or> ts_micros (getTimeStamp (last (mSamples h))) \<le> ts_micros t)
        \<longrightarrow> samples_ok (mSamples h'))"
proof -
  obtain h' where h': "addSample t s h = Inr h'" "history_ok kinds h'"
    "mSamples h' = mSamples h \<or> (\<exists>v. mSamples h' = mSamples h @ [Sample t v])"
    using addSample_ok [OF assms, of t] by blast
  have "samples_ok (mSamples h @ [Sample t v])"
    if "samples_ok (mSamples h)" "ts_normal t"
      "mSamples h = [] \<or> ts_micros (getTimeStamp (last (mSamples h))) \<le> ts_micros t" for v
  proof -
    have "ts_micros (getTimeStamp x) \<le> ts_micros t" if "x \<in> set (mSamples h)" for x
    proof -
      have "ts_micros (getTimeStamp x) \<le> ts_micros (getTimeStamp (last (mSamples h)))"
        using \<open>samples_ok (mSamples h)\<close> that
        by (cases "mSamples h" rule: rev_cases) (auto simp: samples_ok_def sorted_append)
      with \<open>mSamples h = [] \<or> _\<close> that show ?thesis by force
    qed
    with that show ?thesis by (auto simp: samples_ok_def sorted_append)
  qed
  with h' show ?thesis by auto
qed

definition lamp_spn :: "u8 \<Rightarrow> SPN" where
  "lamp_spn v = \<lparr>mSpecId = 3, mSpec = \<lparr>mSPNNumber = 1213, mSpecName = ''lamp'', mSpecOffset = 0\<rparr>,
     mSpnData = SpnStatus \<lparr>mBitOffset = 0, mBitSize = 2, mValueToDesc = []\<rparr> v\<rparr>"

theorem history_invariant_witness:
  "\<exists>h'. addSample (TimeStamp 5 10) (lamp_spn 1) SPNHistory = Inr h'
     \<and> history_ok (\<lambda>k. SPN_STATUS) h' \<and> samples_ok (mSamples h')"
proof -
  have "history_ok (\<lambda>k. SPN_STATUS) SPNHistory" by (simp add: history_ok_def SPNHistory_def)
  moreover have "getType (lamp_spn 1) = SPN_STATUS" by (simp add: getType_def lamp_spn_def)
  ultimately show ?thesis
    using history_invariant [of "\<lambda>k. SPN_STATUS" SPNHistory "lamp_spn 1" "TimeStamp 5 10"]
    by (simp add: SPNHistory_def samples_ok_def ts_normal_def)
qed

text \<open>A window is computed in finitely many steps: it has one sample every \<open>milliseconds / samples\<close>
  milliseconds from the beginning to the end of the window, both included, and each carries the
  value that held at its instant. (The instants must not be whole milliseconds, where \<open>operator+\<close> may
  forget a carry.)\<close>

theorem window_is_sample_and_hold:
  assumes "samples_ok (mSamples h)" and "2 \<le> length (mSamples h)"
    and "0 < samples" and "samples \<le> milliseconds"
    and "ts_normal stop" and "mSeconds stop < 2 ^ 31" and "ts_micros stop mod 1000 \<noteq> 0"
    and "unat milliseconds * 1000 \<le> ts_micros stop"
  defines "period \<equiv> unat milliseconds div unat samples"
    and "start \<equiv> ts_micros stop - unat milliseconds * 1000"
  shows "\<exists>w. getWindow h stop milliseconds samples = Inr (Some w)
    \<and> length w = unat milliseconds div period + 1
    \<and> (\<forall>k < length w. ts_micros (getTimeStamp (w ! k)) = start + k * (period * 1000)
         \<and> mValue (w ! k) = mValue (mSamples h ! hold_index (mSamples h) (start + k * (period * 1000))))"
proof -
  let ?ss = "mSamples h" and ?p = "milliseconds div samples" and ?t = "ts_minus_millis stop milliseconds"
  have p: "unat ?p = period" by (simp add: period_def unat_div)
  have "0 < period"
    using assms(3,4) by (simp add: period_def word_less_nat_alt word_le_nat_alt div_greater_zero_iff)
  then have p0: "0 < ?p" using p by (simp add: word_less_nat_alt)
  have t: "ts_normal ?t" "ts_micros ?t = start"
    using ts_minus_micros [OF assms(5) ts_of_millis_normal, of milliseconds]
    by (simp_all add: ts_minus_millis_def start_def ts_of_millis_micros)
  have "start + unat milliseconds * 1000 = ts_micros stop" using assms(8) by (simp add: start_def)
  then have m: "ts_micros ?t mod 1000 \<noteq> 0" using assms(7) t(2) by (metis mod_mult_self2 mult.commute)
  have "unat (mSeconds (ts_of_millis ?p)) \<le> unat ?p div 1000"
    by (simp add: ts_of_millis_def unat_div)
  moreover have "unat ?p < 2 ^ 32" using unsigned_less [of ?p] by simp
  moreover have "unat (mSeconds stop) < 2 ^ 31" using assms(6) by (simp add: word_less_nat_alt)
  ultimately have over: "unat (mSeconds stop) + unat (mSeconds (ts_of_millis ?p)) + 1 < 2 ^ 32" by simp
  have ne: "?ss \<noteq> []" using assms(2) by auto
  obtain w where w: "window_loop ?ss stop ?p ?t (hold_index ?ss start) = Some w"
    "length w = (if start \<le> ts_micros stop then (ts_micros stop - start) div (period * 1000) + 1 else 0)"
    "\<forall>k < length w. ts_micros (getTimeStamp (w ! k)) = start + k * (period * 1000)
       \<and> mValue (w ! k) = mValue (?ss ! hold_index ?ss (start + k * (period * 1000)))"
    using window_loop_ok [OF assms(1) ne p0 assms(5) over t(1) m] unfolding t(2) p by blast
  have "takeWhile (\<lambda>s. \<not> sample_less (Sample ?t (Status 0)) s) ?ss
      = takeWhile (\<lambda>s. ts_micros (getTimeStamp s) \<le> start) ?ss"
    using assms(1) t ts_lt_micros by (intro takeWhile_cong) (auto simp: sample_less_def samples_ok_def)
  then have "(if upper_bound ?ss (Sample ?t (Status 0)) \<noteq> 0 then upper_bound ?ss (Sample ?t (Status 0)) - 1
      else upper_bound ?ss (Sample ?t (Status 0))) = hold_index ?ss start"
    by (simp add: upper_bound_def hold_index_def)
  then have "getWindow h stop milliseconds samples = Inr (Some w)"
    using w(1) assms(2,3) by (auto simp: getWindow_def Let_def)
  moreover have "length w = unat milliseconds div period + 1"
  proof -
    have "start \<le> ts_micros stop" "ts_micros stop - start = unat milliseconds * 1000"
      using assms(8) by (simp_all add: start_def)
    then show ?thesis using w(2) by simp
  qed
  ultimately show ?thesis using w(3) by blast
qed

definition two_samples :: history where
  "two_samples = \<lparr>mGeneralSpec = Some 3, mNumericSpec = None, mStatusSpec = None,
     mSamples = [Sample (TimeStamp 10 0) (Status 1), Sample (TimeStamp 11 0) (Status 0)]\<rparr>"

theorem window_is_sample_and_hold_witness:
  "\<exists>w. getWindow two_samples (TimeStamp 12 500) 2000 4 = Inr (Some w) \<and> length w = 5"
proof -
  have "samples_ok (mSamples two_samples)" by (simp add: two_samples_def samples_ok_def ts_normal_def ts_micros_def)
  moreover have "ts_micros (TimeStamp 12 500) = 12000500" by (simp add: ts_micros_def)
  ultimately show ?thesis
    using window_is_sample_and_hold [of two_samples 4 2000 "TimeStamp 12 500"]
    by (auto simp: two_samples_def ts_normal_def)
qed

lemma window_loop_stuck:
  assumes "ts_normal t"
  shows "window_loop ss stop 0 t pos = Some w \<Longrightarrow> \<not> ts_le t stop"
proof (induction w arbitrary: pos)
  case (Cons s w)
  have "ts_plus_millis t 0 = t"
    using assms by (cases t) (auto simp: ts_plus_millis_def ts_plus_def ts_of_millis_def ts_normal_def)
  with Cons show ?case
    by (subst (asm) (2) window_loop.simps) (auto simp: Let_def bind_eq_Some_conv split: if_splits)
qed (subst (asm) window_loop.simps, auto simp: Let_def bind_eq_Some_conv split: if_splits)

text \<open>Asked for more samples than there are milliseconds in the window, \<open>getWindow\<close> never returns: its
  step rounds to zero.\<close>

theorem window_too_fine_diverges:
  assumes "2 \<le> length (mSamples h)" and "milliseconds < samples" and "ts_normal stop"
  shows "getWindow h stop milliseconds samples = Inr None"
proof -
  have "milliseconds div samples = 0" using assms(2) by (simp add: div_word_less)
  moreover have "samples \<noteq> 0" using assms(2) by auto
  moreover have n: "ts_normal (ts_minus_millis stop milliseconds)"
    and "ts_micros (ts_minus_millis stop milliseconds) \<le> ts_micros stop"
    using ts_minus_micros [OF assms(3) ts_of_millis_normal] by (simp_all add: ts_minus_millis_def)
  then have "ts_le (ts_minus_millis stop milliseconds) stop" by (simp add: ts_le_micros assms(3))
  moreover have "window_loop ss stop 0 (ts_minus_millis stop milliseconds) pos = None" for ss pos
    using window_loop_stuck [OF n, of ss stop pos] calculation
    by (cases "window_loop ss stop 0 (ts_minus_millis stop milliseconds) pos") auto
  ultimately show ?thesis using assms(1) by (simp add: getWindow_def Let_def)
qed

theorem window_too_fine_diverges_witness:
  "getWindow two_samples (TimeStamp 12 500) 10 20 = Inr None"
  by (rule window_too_fine_diverges) (simp_all add: two_samples_def ts_normal_def)

end
