(* ===== verification/AddressClaimer.thy ===== *)
theory AddressClaimer
  imports Factory
begin

text \<open>
  \<open>AddressClaimer\<close> (\<open>j1939AddressClaimer/AddressClaimer.cpp\<close>): the thread that obtains a source
  address for a controller and defends it. Another thread hands received frames over with
  \<open>receive\<close>; the claimer's own thread is always either about to start claiming or blocked in
  \<open>read\<close>, at one of two places. \<open>location\<close> is that place with the local variables that are alive
  there, \<open>exec_step\<close> runs the thread from one such place to the next, and \<open>claimer_step\<close> lets
  \<open>receive\<close> happen in between. How long a \<open>read\<close> took is an argument, and so a \<open>read\<close> may return
  early with no frame, as the condition variable's wait without a predicate may.
\<close>

abbreviation (input) J1939_INVALID_ADDRESS :: u8 where "J1939_INVALID_ADDRESS \<equiv> 0xFE"
abbreviation (input) J1939_BROADCAST_ADDRESS :: u8 where "J1939_BROADCAST_ADDRESS \<equiv> 0xFF"

section \<open>State\<close>

datatype ClaimResult = CLAIM_ADDRESS_OBTAINED | CLAIM_RETRY | CLAIM_FAILED

text \<open>
  \<open>Trying pos address timeToWait\<close>: in the loop of \<open>tryObtainAddress\<close>, called from
  \<open>claimAddressStep\<close> whose \<open>pos\<close> counts the addresses begun; \<open>timeToWait\<close> is an \<open>s32\<close>.
\<close>

datatype location =
    ClaimStart
  | Trying nat u8 u32
  | Serving

record claimer =
  mFrames :: "(u32, jframe) smap"
  mPreferred :: "u8 list"
  mEcuName :: EcuName
  mCurrentSrc :: u8
  mLocation :: location

text \<open>The two virtual methods the thread calls.\<close>

datatype effect = sendFrame jframe | onSrcAddrChanged u8

type_synonym effects = "claimer \<times> effect list"

definition AddressClaimer :: "EcuName \<Rightarrow> u8 list \<Rightarrow> claimer res" where
  "AddressClaimer name preferred =
     (if preferred = [] then Inl AssertExit
      else Inr \<lparr>mFrames = [], mPreferred = preferred, mEcuName = name,
                mCurrentSrc = J1939_INVALID_ADDRESS, mLocation = ClaimStart\<rparr>)"

section \<open>Frames in\<close>

text \<open>What a frame is cast to by its PGN; the casts are not checked.\<close>

definition as_claim :: "jframe \<Rightarrow> EcuName res" where
  "as_claim f = (case mBody f of AddrClaim n \<Rightarrow> Inr n | _ \<Rightarrow> Inl UndefinedBehaviour)"

definition as_request :: "jframe \<Rightarrow> u32 res" where
  "as_request f = (case mBody f of Request r \<Rightarrow> Inr (mRequestPGN r) | _ \<Rightarrow> Inl UndefinedBehaviour)"

definition claimer_toBeHandled :: "jframe \<Rightarrow> bool res" where
  "claimer_toBeHandled f =
     (if mPgn f = REQUEST_PGN
      then res_bind (as_request f) (\<lambda>pgn. Inr (pgn = ADDRESS_CLAIM_PGN))
      else Inr (mPgn f = ADDRESS_CLAIM_PGN))"

definition flush :: "claimer \<Rightarrow> claimer" where
  "flush c = c\<lparr>mFrames := []\<rparr>"

definition receive :: "jframe \<Rightarrow> claimer \<Rightarrow> claimer" where
  "receive f c = c\<lparr>mFrames := smap_put (getIdentifier f) f (mFrames c)\<rparr>"

text \<open>\<open>read\<close> at the moment it returns.\<close>

fun read :: "claimer \<Rightarrow> jframe option \<times> claimer" where
  "read c = (case mFrames c of [] \<Rightarrow> (None, c) | (i, f) # m \<Rightarrow> (Some f, c\<lparr>mFrames := m\<rparr>))"

declare read.simps [simp del]

section \<open>Claiming\<close>

definition claim_frame :: "EcuName \<Rightarrow> u8 \<Rightarrow> jframe" where
  "claim_frame name src =
     as_frame AddrClaim (snd (setDstAddr J1939_BROADCAST_ADDRESS
       (setSrcAddr src (AddressClaimFrame name))))"

text \<open>\<open>tryObtainAddress\<close> up to its first \<open>read\<close>.\<close>

definition try_address :: "nat \<Rightarrow> u8 \<Rightarrow> claimer \<Rightarrow> effects" where
  "try_address pos address c =
     (c\<lparr>mLocation := Trying pos address 250\<rparr>, [sendFrame (claim_frame (mEcuName c) address)])"

text \<open>One turn of its loop, after \<open>read\<close>: the result, or the time left to wait.\<close>

definition try_read :: "EcuName \<Rightarrow> u8 \<Rightarrow> u32 \<Rightarrow> jframe option \<Rightarrow> int \<Rightarrow> (ClaimResult + u32) res" where
  "try_read name address timeToWait frame elapsed =
     (let left = word_of_int (sint timeToWait - elapsed);
          tail = Inr (if 0 < sint left \<and> frame \<noteq> None then Inr left else Inl CLAIM_ADDRESS_OBTAINED)
      in (case frame of
            None \<Rightarrow> tail
          | Some f \<Rightarrow>
              if mPgn f = ADDRESS_CLAIM_PGN
              then res_bind (as_claim f) (\<lambda>other.
                     if mSrcAddr f = address
                     then Inr (Inl (if ecu_less name other then CLAIM_RETRY else CLAIM_FAILED))
                     else Inr (Inr 250))
              else tail))"

text \<open>The head of the loop in \<open>claimAddressStep\<close>, and what follows it when no address is left.\<close>

definition next_address :: "nat \<Rightarrow> claimer \<Rightarrow> effects" where
  "next_address pos c =
     (if pos < length (mPreferred c)
      then let address = hd (mPreferred c)
           in try_address (pos + 1) address (c\<lparr>mPreferred := tl (mPreferred c) @ [address]\<rparr>)
      else (c\<lparr>mLocation := Serving\<rparr>,
            [sendFrame (claim_frame (mEcuName c) J1939_INVALID_ADDRESS)]))"

definition claimAddressStep :: "claimer \<Rightarrow> effects" where
  "claimAddressStep c =
     (let (c', outs) = next_address 0 (flush (c\<lparr>mCurrentSrc := J1939_INVALID_ADDRESS\<rparr>))
      in (c', onSrcAddrChanged J1939_INVALID_ADDRESS # outs))"

definition address_obtained :: "u8 \<Rightarrow> claimer \<Rightarrow> effects" where
  "address_obtained address c =
     (c\<lparr>mCurrentSrc := address, mLocation := Serving\<rparr>, [onSrcAddrChanged address])"

declare address_obtained_def [simp]

text \<open>What \<open>claimAddressStep\<close> does with the result.\<close>

fun after_try :: "nat \<Rightarrow> u8 \<Rightarrow> ClaimResult \<Rightarrow> claimer \<Rightarrow> effects" where
  "after_try pos address CLAIM_ADDRESS_OBTAINED c = address_obtained address c"
| "after_try pos address CLAIM_RETRY c = try_address pos address c"
| "after_try pos address CLAIM_FAILED c = next_address pos c"

section \<open>Serving\<close>

text \<open>\<open>processAddressClaim\<close>: whether the address is still ours, and the frames sent.\<close>

definition processAddressClaim :: "claimer \<Rightarrow> jframe \<Rightarrow> (bool \<times> effect list) res" where
  "processAddressClaim c f =
     res_bind (as_claim f) (\<lambda>other.
       if mSrcAddr f \<noteq> J1939_INVALID_ADDRESS \<and> mSrcAddr f = mCurrentSrc c
       then if ecu_less (mEcuName c) other
            then Inr (True, [sendFrame (claim_frame (mEcuName c) (mCurrentSrc c))])
            else Inr (False, [])
       else Inr (True, []))"

definition serve :: "jframe option \<Rightarrow> claimer \<Rightarrow> effects res" where
  "serve frame c =
     (case frame of
        None \<Rightarrow> Inr (c, [])
      | Some f \<Rightarrow>
          if mPgn f = REQUEST_PGN
          then res_bind (as_request f) (\<lambda>pgn.
                 if pgn = ADDRESS_CLAIM_PGN
                    \<and> (mDstAddr f = J1939_BROADCAST_ADDRESS \<or> mDstAddr f = mCurrentSrc c)
                 then Inr (c, [sendFrame (claim_frame (mEcuName c) (mCurrentSrc c))])
                 else Inr (c, []))
          else if mPgn f = ADDRESS_CLAIM_PGN
          then res_bind (processAddressClaim c f) (\<lambda>(keep, outs).
                 Inr (if keep then c else c\<lparr>mLocation := ClaimStart\<rparr>, outs))
          else Inr (c, []))"

text \<open>\<open>exec\<close> from one place where the thread waits to the next; the \<open>read\<close> took \<open>elapsed\<close>.\<close>

definition exec_step :: "int \<Rightarrow> claimer \<Rightarrow> effects res" where
  "exec_step elapsed c =
     (case mLocation c of
        ClaimStart \<Rightarrow> Inr (claimAddressStep c)
      | Trying pos address timeToWait \<Rightarrow>
          (case read c of (frame, c1) \<Rightarrow>
             res_bind (try_read (mEcuName c1) address timeToWait frame elapsed) (\<lambda>r.
               Inr (case r of
                      Inl result \<Rightarrow> after_try pos address result c1
                    | Inr left \<Rightarrow> (c1\<lparr>mLocation := Trying pos address left\<rparr>, []))))
      | Serving \<Rightarrow> (case read c of (frame, c1) \<Rightarrow> serve frame c1))"

inductive claimer_step :: "claimer \<Rightarrow> effect list \<Rightarrow> claimer \<Rightarrow> bool" where
  receive: "class_ok f \<Longrightarrow> claimer_step c [] (receive f c)"
| wake: "0 \<le> elapsed \<Longrightarrow> exec_step elapsed c = Inr (c', outs) \<Longrightarrow> claimer_step c outs c'"

inductive claimer_run :: "claimer \<Rightarrow> effect list \<Rightarrow> claimer \<Rightarrow> bool" for c0 where
  start: "claimer_run c0 [] c0"
| step: "claimer_run c0 outs c \<Longrightarrow> claimer_step c outs' c' \<Longrightarrow> claimer_run c0 (outs @ outs') c'"

inductive_cases claimer_stepE: "claimer_step c outs c'"

section \<open>What one step does\<close>

text \<open>A frame that claims \<open>address\<close>, and the queue of received frames.\<close>

definition claims :: "u8 \<Rightarrow> jframe \<Rightarrow> bool" where
  "claims address f \<longleftrightarrow> mPgn f = ADDRESS_CLAIM_PGN \<and> mSrcAddr f = address"

definition queue_ok :: "(u32, jframe) smap \<Rightarrow> bool" where
  "queue_ok m \<longleftrightarrow> smap_ok m \<and> (\<forall>(i, f) \<in> set m. i = getIdentifier f \<and> class_ok f)"

definition taken :: "(u32, jframe) smap \<Rightarrow> jframe option \<Rightarrow> (u32, jframe) smap \<Rightarrow> bool" where
  "taken q frame m \<longleftrightarrow>
     (case frame of
        None \<Rightarrow> q = [] \<and> m = []
      | Some f \<Rightarrow> q = (getIdentifier f, f) # m \<and> class_ok f)"

named_theorems claimer_simps

lemma claim_frame_fields [claimer_simps]:
  "mPgn (claim_frame n a) = ADDRESS_CLAIM_PGN" "mSrcAddr (claim_frame n a) = a"
  "mDstAddr (claim_frame n a) = 0xFF" "mBody (claim_frame n a) = AddrClaim n"
  "mPriority (claim_frame n a) = 0"
  by (simp_all add: claim_frame_def setDstAddr_def setSrcAddr_def AddressClaimFrame_def
      getPDUFormatGroup_def getPDUFormat_def)

lemma claims_own [simp]: "claims b (claim_frame n a) \<longleftrightarrow> b = a"
  by (auto simp: claims_def claimer_simps)

lemma next_address_eq [claimer_simps]:
  "next_address pos c =
     (if pos < length (mPreferred c)
      then (c\<lparr>mPreferred := rotate1 (mPreferred c),
              mLocation := Trying (pos + 1) (hd (mPreferred c)) 250\<rparr>,
            [sendFrame (claim_frame (mEcuName c) (hd (mPreferred c)))])
      else (c\<lparr>mLocation := Serving\<rparr>,
            [sendFrame (claim_frame (mEcuName c) J1939_INVALID_ADDRESS)]))"
  by (cases "mPreferred c") (auto simp: next_address_def try_address_def Let_def)

lemma queue_ok_Nil [simp]: "queue_ok []"
  by (simp add: queue_ok_def)

lemma queue_ok_Cons: "queue_ok ((i, f) # m) \<Longrightarrow> i = getIdentifier f \<and> class_ok f \<and> queue_ok m"
  by (auto simp: queue_ok_def smap_ok_Cons)

lemma queue_ok_put: "queue_ok m \<Longrightarrow> class_ok f \<Longrightarrow> queue_ok (smap_put (getIdentifier f) f m)"
  by (auto simp: queue_ok_def set_smap_put)

lemma queue_ok_taken: "queue_ok q \<Longrightarrow> taken q frame m \<Longrightarrow> queue_ok m"
  by (auto simp: taken_def dest: queue_ok_Cons split: option.splits)

lemma read_taken:
  assumes "queue_ok (mFrames c)"
  shows "\<exists>frame m. read c = (frame, c\<lparr>mFrames := m\<rparr>) \<and> taken (mFrames c) frame m"
proof (cases "mFrames c")
  case (Cons e m)
  obtain i f where e: "e = (i, f)" by force
  show ?thesis
    using assms by (auto simp: read.simps taken_def Cons e dest: queue_ok_Cons)
qed (simp add: read.simps taken_def)

lemma as_claim_ok: "class_ok f \<Longrightarrow> mPgn f = ADDRESS_CLAIM_PGN \<Longrightarrow> \<exists>n. as_claim f = Inr n"
  by (cases "mBody f") (simp_all add: class_ok_def as_claim_def reserved_pgns_def)

lemma as_request_ok: "class_ok f \<Longrightarrow> mPgn f = REQUEST_PGN \<Longrightarrow> \<exists>pgn. as_request f = Inr pgn"
  by (cases "mBody f") (simp_all add: class_ok_def as_request_def reserved_pgns_def)

text \<open>
  The six things a step of the thread can do; the casts never fail, because the queue holds frames
  of the class of their PGN.
\<close>

lemma exec_step_cases:
  assumes q: "queue_ok (mFrames c)"
  obtains (claim) "mLocation c = ClaimStart" and "exec_step e c = Inr (claimAddressStep c)"
  | (wait) pos a t f m left where "mLocation c = Trying pos a t" and "taken (mFrames c) (Some f) m"
      and "\<not> claims a f" and "0 < sint left"
      and "left = (if mPgn f = ADDRESS_CLAIM_PGN then 250 else word_of_int (sint t - e))"
      and "exec_step e c = Inr (c\<lparr>mFrames := m, mLocation := Trying pos a left\<rparr>, [])"
  | (obtained) pos a t frame m where "mLocation c = Trying pos a t" and "taken (mFrames c) frame m"
      and "\<And>f. frame = Some f \<Longrightarrow> \<not> claims a f"
      and "exec_step e c = Inr (c\<lparr>mFrames := m, mCurrentSrc := a, mLocation := Serving\<rparr>,
                                [onSrcAddrChanged a])"
  | (contend) pos a t f m other where "mLocation c = Trying pos a t"
      and "taken (mFrames c) (Some f) m" and "claims a f" and "as_claim f = Inr other"
      and "exec_step e c = Inr (if ecu_less (mEcuName c) other
             then try_address pos a (c\<lparr>mFrames := m\<rparr>) else next_address pos (c\<lparr>mFrames := m\<rparr>))"
  | (idle) frame m outs where "mLocation c = Serving" and "taken (mFrames c) frame m"
      and "\<And>f. frame = Some f \<Longrightarrow> claims (mCurrentSrc c) f \<Longrightarrow> mCurrentSrc c = J1939_INVALID_ADDRESS"
      and "set outs \<subseteq> {sendFrame (claim_frame (mEcuName c) (mCurrentSrc c))}"
      and "exec_step e c = Inr (c\<lparr>mFrames := m\<rparr>, outs)"
  | (defend) f m other where "mLocation c = Serving" and "taken (mFrames c) (Some f) m"
      and "claims (mCurrentSrc c) f" and "mCurrentSrc c \<noteq> J1939_INVALID_ADDRESS"
      and "as_claim f = Inr other"
      and "exec_step e c = Inr (if ecu_less (mEcuName c) other
             then (c\<lparr>mFrames := m\<rparr>, [sendFrame (claim_frame (mEcuName c) (mCurrentSrc c))])
             else (c\<lparr>mFrames := m, mLocation := ClaimStart\<rparr>, []))"
proof -
  obtain frame m where r: "read c = (frame, c\<lparr>mFrames := m\<rparr>)" and t: "taken (mFrames c) frame m"
    using read_taken [OF q] by blast
  show thesis
  proof (cases "mLocation c")
    case ClaimStart
    then show ?thesis by (rule claim) (simp add: exec_step_def ClaimStart)
  next
    case (Trying pos a w)
    show ?thesis
    proof (cases "\<exists>f. frame = Some f \<and> mPgn f = ADDRESS_CLAIM_PGN")
      case True
      then obtain f where f0: "frame = Some f" "mPgn f = ADDRESS_CLAIM_PGN" by blast
      then obtain n where f: "frame = Some f" "mPgn f = ADDRESS_CLAIM_PGN" "as_claim f = Inr n"
        using t as_claim_ok [of f] by (auto simp: taken_def)
      show ?thesis
      proof (cases "mSrcAddr f = a")
        case True
        show ?thesis
          by (rule contend [OF Trying _ _ f(3), of m])
             (use t f True in \<open>simp_all add: claims_def exec_step_def Trying r try_read_def\<close>)
      next
        case False
        show ?thesis
          by (rule wait [OF Trying, of f m 250])
             (use t f False in \<open>simp_all add: claims_def exec_step_def Trying r try_read_def\<close>)
      qed
    next
      case False
      then have nc: "\<not> claims a f" if "frame = Some f" for f using that by (simp add: claims_def)
      let ?left = "word_of_int (sint w - e) :: u32"
      have ex: "exec_step e c = Inr (if 0 < sint ?left \<and> frame \<noteq> None
          then (c\<lparr>mFrames := m, mLocation := Trying pos a ?left\<rparr>, [])
          else (c\<lparr>mFrames := m, mCurrentSrc := a, mLocation := Serving\<rparr>, [onSrcAddrChanged a]))"
        using False by (cases frame) (auto simp: exec_step_def Trying r try_read_def Let_def)
      show ?thesis
      proof (cases "0 < sint ?left \<and> frame \<noteq> None")
        case True
        then obtain f where f: "frame = Some f" by auto
        show ?thesis
          by (rule wait [OF Trying _ nc, of f m ?left]) (use t f True ex \<open>\<nexists>f. _ f\<close> in simp_all)
      next
        case False
        show ?thesis
          by (rule obtained [OF Trying t nc]) (use False ex in \<open>simp_all only: if_False\<close>)
      qed
    qed
  next
    case Serving
    show ?thesis
    proof (cases "\<exists>f. frame = Some f \<and> claims (mCurrentSrc c) f \<and> mCurrentSrc c \<noteq> J1939_INVALID_ADDRESS")
      case True
      then obtain f where f0: "frame = Some f" "claims (mCurrentSrc c) f"
        "mCurrentSrc c \<noteq> J1939_INVALID_ADDRESS" by blast
      then obtain n where f: "frame = Some f" "claims (mCurrentSrc c) f"
        "mCurrentSrc c \<noteq> J1939_INVALID_ADDRESS" "as_claim f = Inr n"
        using t as_claim_ok [of f] by (auto simp: taken_def claims_def)
      show ?thesis
        by (rule defend [OF Serving _ f(2,3,4), of m])
           (use t f in \<open>auto simp: claims_def exec_step_def Serving r serve_def processAddressClaim_def\<close>)
    next
      case False
      have "\<exists>outs. set outs \<subseteq> {sendFrame (claim_frame (mEcuName c) (mCurrentSrc c))}
        \<and> exec_step e c = Inr (c\<lparr>mFrames := m\<rparr>, outs)"
        using False t as_claim_ok as_request_ok
        by (cases frame)
           (fastforce simp: claims_def exec_step_def Serving r serve_def processAddressClaim_def
              taken_def)+
      then show ?thesis
        using False by (elim exE conjE, intro idle [OF Serving t]) auto
    qed
  qed
qed

section \<open>Invariant of the claimer\<close>

text \<open>
  While it tries an address the claimer has none, the address tried is the one last moved to the
  end of the queue, and there is time left; the address it serves is one of its own or the null
  address. The preferred addresses only ever rotate, and the NAME never changes.
\<close>

definition claimer_ok :: "EcuName \<Rightarrow> u8 list \<Rightarrow> claimer \<Rightarrow> bool" where
  "claimer_ok name pref c \<longleftrightarrow>
     queue_ok (mFrames c) \<and> mEcuName c = name \<and> pref \<noteq> [] \<and> (\<exists>k. mPreferred c = rotate k pref)
     \<and> (case mLocation c of
          ClaimStart \<Rightarrow> True
        | Trying pos address timeToWait \<Rightarrow>
            1 \<le> pos \<and> pos \<le> length pref \<and> mCurrentSrc c = J1939_INVALID_ADDRESS
            \<and> last (mPreferred c) = address \<and> 0 < sint timeToWait
        | Serving \<Rightarrow> mCurrentSrc c = J1939_INVALID_ADDRESS \<or> mCurrentSrc c \<in> set pref)"

lemma AddressClaimer_ok: "AddressClaimer name pref = Inr c \<Longrightarrow> claimer_ok name pref c"
  by (auto simp: AddressClaimer_def claimer_ok_def intro: exI [of _ 0] split: if_splits)

lemma hd_rotate_mem: "pref \<noteq> [] \<Longrightarrow> hd (rotate k pref) \<in> set pref"
  by (metis hd_in_set rotate_is_Nil_conv set_rotate)

lemma last_rotate1: "xs \<noteq> [] \<Longrightarrow> last (rotate1 xs) = hd xs"
  by (cases xs) simp_all

lemma next_address_ok:
  assumes "queue_ok (mFrames c)" and "mEcuName c = name" and "pref \<noteq> []"
    and "mPreferred c = rotate k pref" and "mCurrentSrc c = J1939_INVALID_ADDRESS"
  shows "claimer_ok name pref (fst (next_address pos c))"
proof -
  have r: "\<exists>j. rotate1 (rotate k pref) = rotate j pref" by (rule exI [of _ "Suc k"]) simp
  show ?thesis
    using assms by (auto simp: claimer_ok_def next_address_eq last_rotate1 r)
qed

lemma exec_step_ok:
  assumes ok: "claimer_ok name pref c"
  shows "\<exists>c' outs. exec_step e c = Inr (c', outs) \<and> claimer_ok name pref c'"
proof -
  from ok obtain k where q: "queue_ok (mFrames c)" and n: "mEcuName c = name" "pref \<noteq> []"
    and k: "mPreferred c = rotate k pref" by (auto simp: claimer_ok_def)
  show ?thesis
    using q
  proof (cases rule: exec_step_cases [where e = e])
    case claim
    have "claimer_ok name pref (fst (claimAddressStep c))"
      using next_address_ok [of "flush (c\<lparr>mCurrentSrc := 0xFE\<rparr>)" name pref k 0] n k
      by (auto simp: claimAddressStep_def flush_def split: prod.split)
    with claim show ?thesis by (cases "claimAddressStep c") simp
  next
    case (wait pos a t f m left)
    then show ?thesis using ok queue_ok_taken [OF q wait(2)] by (auto simp: claimer_ok_def)
  next
    case (obtained pos a t frame m)
    have "a \<in> set pref"
      using ok obtained(1) by (auto simp: claimer_ok_def) (metis last_in_set rotate_is_Nil_conv set_rotate)
    then show ?thesis
      using obtained ok queue_ok_taken [OF q obtained(2)] by (auto simp: claimer_ok_def)
  next
    case (contend pos a t f m other)
    have "claimer_ok name pref (fst (next_address pos (c\<lparr>mFrames := m\<rparr>)))"
      using next_address_ok [of "c\<lparr>mFrames := m\<rparr>" name pref k pos] n k contend(1) ok
        queue_ok_taken [OF q contend(2)] by (simp add: claimer_ok_def)
    moreover have "claimer_ok name pref (fst (try_address pos a (c\<lparr>mFrames := m\<rparr>)))"
      using ok contend(1) queue_ok_taken [OF q contend(2)]
      by (auto simp: claimer_ok_def try_address_def)
    ultimately show ?thesis
      using contend(5) by (cases "next_address pos (c\<lparr>mFrames := m\<rparr>)")
        (simp add: try_address_def split: if_splits)
  next
    case (idle frame m outs)
    then show ?thesis using ok queue_ok_taken [OF q idle(2)] by (auto simp: claimer_ok_def)
  next
    case (defend f m other)
    then show ?thesis using ok queue_ok_taken [OF q defend(2)] by (auto simp: claimer_ok_def)
  qed
qed

lemma claimer_step_ok:
  assumes "claimer_step c outs c'" and "claimer_ok name pref c"
  shows "claimer_ok name pref c'"
  using assms(1)
proof (cases rule: claimer_step.cases)
  case (receive f)
  then show ?thesis
    using assms(2) by (cases "mLocation c") (auto simp: claimer_ok_def receive_def queue_ok_put)
next
  case (wake elapsed)
  then show ?thesis using exec_step_ok [OF assms(2), of elapsed] by auto
qed

lemma claimer_run_ok:
  "claimer_run c0 outs c \<Longrightarrow> claimer_ok name pref c0 \<Longrightarrow> claimer_ok name pref c"
  by (induction rule: claimer_run.induct) (auto intro: claimer_step_ok)

section \<open>What the outside sees\<close>

text \<open>
  The calls of the two virtual methods up to a moment when \<open>src\<close> is in service: it was announced
  right after a claim for it was sent (or, after the last address was lost, the null address was
  claimed), and nothing but repetitions of that claim came after.
\<close>

inductive announced :: "EcuName \<Rightarrow> u8 \<Rightarrow> effect list \<Rightarrow> bool" for name src where
  obtained: "announced name src (xs @ [sendFrame (claim_frame name src), onSrcAddrChanged src])"
| cannot_claim: "src = J1939_INVALID_ADDRESS \<Longrightarrow>
    announced name src (xs @ [sendFrame (claim_frame name src)])"
| reply: "announced name src outs \<Longrightarrow>
    announced name src (outs @ [sendFrame (claim_frame name src)])"

definition trace_ok :: "claimer \<Rightarrow> effect list \<Rightarrow> bool" where
  "trace_ok c outs \<longleftrightarrow>
     (case mLocation c of
        ClaimStart \<Rightarrow> True
      | Trying pos address t \<Rightarrow> \<exists>xs. outs = xs @ [sendFrame (claim_frame (mEcuName c) address)]
      | Serving \<Rightarrow> announced (mEcuName c) (mCurrentSrc c) outs)"

lemma announced_replies:
  "announced name src outs \<Longrightarrow> set outs' \<subseteq> {sendFrame (claim_frame name src)} \<Longrightarrow>
     announced name src (outs @ outs')"
proof (induction outs' rule: rev_induct)
  case (snoc x xs)
  then show ?case using announced.reply [of name src "outs @ xs"] by simp
qed simp

lemma next_address_trace:
  "mCurrentSrc c = J1939_INVALID_ADDRESS \<Longrightarrow>
     trace_ok (fst (next_address pos c)) (outs @ snd (next_address pos c))"
  by (simp add: trace_ok_def next_address_eq announced.cannot_claim)

lemma exec_step_trace:
  assumes ok: "claimer_ok name pref c" and tr: "trace_ok c outs"
    and ex: "exec_step e c = Inr (c', outs')"
  shows "trace_ok c' (outs @ outs')"
proof -
  have q: "queue_ok (mFrames c)" using ok by (simp add: claimer_ok_def)
  show ?thesis
    using q
  proof (cases rule: exec_step_cases [where e = e])
    case claim
    let ?c = "flush (c\<lparr>mCurrentSrc := J1939_INVALID_ADDRESS\<rparr>)"
    have "trace_ok (fst (next_address 0 ?c))
        ((outs @ [onSrcAddrChanged J1939_INVALID_ADDRESS]) @ snd (next_address 0 ?c))"
      by (rule next_address_trace) (simp add: flush_def)
    with claim(2) ex show ?thesis by (auto simp: claimAddressStep_def split: prod.splits)
  next
    case (wait pos a t f m left)
    then show ?thesis using tr ex by (auto simp: trace_ok_def)
  next
    case (obtained pos a t frame m)
    then obtain xs where "outs = xs @ [sendFrame (claim_frame (mEcuName c) a)]"
      using tr by (auto simp: trace_ok_def)
    then show ?thesis
      using obtained(4) ex announced.obtained [of "mEcuName c" a xs] by (simp add: trace_ok_def)
  next
    case (contend pos a t f m other)
    have "trace_ok (fst (next_address pos (c\<lparr>mFrames := m\<rparr>)))
        (outs @ snd (next_address pos (c\<lparr>mFrames := m\<rparr>)))"
      by (rule next_address_trace) (use ok contend(1) in \<open>simp add: claimer_ok_def\<close>)
    then show ?thesis
      using contend(5) ex by (cases "next_address pos (c\<lparr>mFrames := m\<rparr>)")
        (auto simp: trace_ok_def try_address_def split: if_splits)
  next
    case (idle frame m outs1)
    then show ?thesis using announced_replies tr ex by (simp add: trace_ok_def)
  next
    case (defend f m other)
    then show ?thesis
      using announced.reply tr ex by (simp add: trace_ok_def split: if_splits)
  qed
qed

lemma trace_ok_start: "mLocation c = ClaimStart \<Longrightarrow> trace_ok c outs"
  by (simp add: trace_ok_def)

lemma claimer_run_trace:
  "claimer_run c0 outs c \<Longrightarrow> claimer_ok name pref c0 \<Longrightarrow> mLocation c0 = ClaimStart \<Longrightarrow> trace_ok c outs"
proof (induction rule: claimer_run.induct)
  case (step outs c outs' c')
  have ok: "claimer_ok name pref c" using step.hyps(1) step.prems(1) by (rule claimer_run_ok)
  have tr: "trace_ok c outs" using step by simp
  from step.hyps(2) show ?case
  proof (cases rule: claimer_step.cases)
    case (receive f)
    then show ?thesis using tr by (cases "mLocation c") (simp_all add: trace_ok_def receive_def)
  next
    case (wake elapsed)
    then show ?thesis using exec_step_trace [OF ok tr] by simp
  qed
qed (rule trace_ok_start)

section \<open>Losing everywhere\<close>

text \<open>
  The claimer starts, and each time it has claimed an address a frame of \<open>rival\<close> claiming the same
  address is all there is to read, \<open>n\<close> times.
\<close>

definition claimed_address :: "claimer \<Rightarrow> u8" where
  "claimed_address c = (case mLocation c of Trying pos a t \<Rightarrow> a | _ \<Rightarrow> mCurrentSrc c)"

fun contest :: "EcuName \<Rightarrow> nat \<Rightarrow> claimer \<Rightarrow> effects res" where
  "contest rival 0 c = exec_step 0 c"
| "contest rival (Suc n) c =
     res_bind (contest rival n c) (\<lambda>(c1, outs).
       res_bind (exec_step 0 (receive (claim_frame rival (claimed_address c1)) c1)) (\<lambda>(c2, outs').
         Inr (c2, outs @ outs')))"

lemma as_claim_claim_frame [simp]: "as_claim (claim_frame n a) = Inr n"
  by (simp add: as_claim_def claimer_simps)

lemma contest_eq:
  assumes "c = \<lparr>mFrames = q, mPreferred = pref, mEcuName = name, mCurrentSrc = src,
      mLocation = ClaimStart\<rparr>" and "\<not> ecu_less name rival" and "n < length pref"
  shows "contest rival n c = Inr
    (\<lparr>mFrames = [], mPreferred = rotate (Suc n) pref, mEcuName = name,
      mCurrentSrc = J1939_INVALID_ADDRESS, mLocation = Trying (Suc n) (pref ! n) 250\<rparr>,
     onSrcAddrChanged J1939_INVALID_ADDRESS
       # map (\<lambda>a. sendFrame (claim_frame name a)) (take (Suc n) pref))"
  using assms(3)
proof (induction n)
  case 0
  then show ?case
    by (simp add: assms(1) exec_step_def claimAddressStep_def flush_def next_address_eq hd_conv_nth
        take_Suc rotate_def)
next
  case (Suc n)
  have h: "hd (rotate (Suc n) pref) = pref ! Suc n"
    using Suc.prems hd_rotate_conv_nth [of pref "Suc n"] by (cases pref) simp_all
  have t: "take (Suc (Suc n)) pref = take (Suc n) pref @ [pref ! Suc n]"
    using Suc.prems by (simp add: take_Suc_conv_app_nth)
  have r: "rotate1 (rotate (Suc n) pref) = rotate (Suc (Suc n)) pref" by simp
  from Suc show ?case
    by (simp add: r claimed_address_def receive_def exec_step_def read.simps try_read_def
        claimer_simps assms(2) h t del: rotate_Suc take_Suc)
qed

section \<open>Winning\<close>

text \<open>
  The thread for a while: before each of its waits ends the frames of the list have arrived, in their
  order, and the wait took so long.
\<close>

type_synonym waits = "(jframe list \<times> int) list"

definition arrive :: "jframe list \<Rightarrow> claimer \<Rightarrow> claimer" where
  "arrive fs c = fold receive fs c"

fun waits_run :: "waits \<Rightarrow> claimer \<Rightarrow> effects res" where
  "waits_run [] c = Inr (c, [])"
| "waits_run ((fs, e) # ws) c =
     res_bind (exec_step e (arrive fs c)) (\<lambda>(c1, outs).
       res_bind (waits_run ws c1) (\<lambda>(c2, outs'). Inr (c2, outs @ outs')))"

definition queued :: "claimer \<Rightarrow> jframe set" where
  "queued c = snd ` set (mFrames c)"

definition traffic :: "waits \<Rightarrow> jframe set" where
  "traffic ws = (\<Union>(fs, e) \<in> set ws. set fs)"

definition traffic_count :: "waits \<Rightarrow> nat" where
  "traffic_count ws = sum_list (map (length \<circ> fst) ws)"

definition waited :: "waits \<Rightarrow> int" where
  "waited ws = sum_list (map snd ws)"

lemma length_smap_put_le: "length (smap_put k v m) \<le> Suc (length m)"
  by (induction k v m rule: smap_put.induct) auto

lemma arrive_frames:
  "\<forall>f \<in> set fs. class_ok f \<Longrightarrow> queue_ok (mFrames c) \<Longrightarrow>
     queue_ok (mFrames (arrive fs c)) \<and> mLocation (arrive fs c) = mLocation c
     \<and> queued (arrive fs c) \<subseteq> queued c \<union> set fs
     \<and> length (mFrames (arrive fs c)) \<le> length (mFrames c) + length fs"
proof (induction fs arbitrary: c)
  case (Cons f fs)
  have put: "queue_ok (mFrames (receive f c))" "mLocation (receive f c) = mLocation c"
    "queued (receive f c) \<subseteq> insert f (queued c)" "length (mFrames (receive f c)) \<le> Suc (length (mFrames c))"
    using Cons.prems set_smap_put [of "mFrames c" "getIdentifier f" f] length_smap_put_le
    by (auto simp: receive_def queue_ok_put queued_def queue_ok_def)
  from Cons.IH [of "receive f c"] Cons.prems(1) put show ?case by (fastforce simp: arrive_def)
qed (simp add: arrive_def)

lemma sint_left:
  "0 < sint t \<Longrightarrow> 0 \<le> e \<Longrightarrow> e < 2 ^ 31 \<Longrightarrow> sint (word_of_int (sint t - e) :: u32) = sint (t :: u32) - e"
  using sint_lt [of t] unfolding sint_sbintrunc' by (intro signed_take_bit_int_eq_self) simp_all

text \<open>
  One wait of a claimer whose address nobody claims: it announces the address, or a frame has been
  read and it waits on, for 250 milliseconds again when the frame claims another address.
\<close>

lemma uncontested_wait:
  assumes "queue_ok (mFrames c)" and "mLocation c = Trying pos a t" and "\<forall>f \<in> queued c. \<not> claims a f"
  obtains (got) c' where "exec_step e c = Inr (c', [onSrcAddrChanged a])" and "mLocation c' = Serving"
      and "mCurrentSrc c' = a"
  | (more) c' f left where "exec_step e c = Inr (c', [])" and "mLocation c' = Trying pos a left"
      and "queue_ok (mFrames c')" and "queued c = insert f (queued c')"
      and "length (mFrames c) = Suc (length (mFrames c'))" and "0 < sint left"
      and "left = (if mPgn f = ADDRESS_CLAIM_PGN then 250 else word_of_int (sint t - e))"
  using assms(1)
proof (cases rule: exec_step_cases [where e = e])
  case (wait pos' b t' f m left)
  then have q: "mFrames c = (getIdentifier f, f) # m" "queue_ok m"
    using queue_ok_taken [OF assms(1) wait(2)] by (simp_all add: taken_def)
  show thesis
    by (rule more [OF wait(6), of left f]) (use wait assms(2) q in \<open>simp_all add: queued_def\<close>)
next
  case (obtained pos' b t' frame m)
  show thesis by (rule got [of "c\<lparr>mFrames := m, mCurrentSrc := b, mLocation := Serving\<rparr>"])
    (use obtained(1,4) assms(2) in simp_all)
next
  case (contend pos' b t' f m other)
  then show thesis using assms(2,3) by (auto simp: taken_def queued_def)
qed (use assms(2) in auto)

lemma waits_run_uncontested:
  assumes "queue_ok (mFrames c)" and "mLocation c = Trying pos a t" and "0 < sint t"
    and "\<forall>f \<in> queued c \<union> traffic ws. \<not> claims a f" and "\<forall>f \<in> traffic ws. class_ok f"
  shows "(\<exists>n c'. n \<le> length ws \<and> waits_run (take n ws) c = Inr (c', [onSrcAddrChanged a])
            \<and> mLocation c' = Serving \<and> mCurrentSrc c' = a)
    \<or> (\<exists>c' left. waits_run ws c = Inr (c', []) \<and> mLocation c' = Trying pos a left \<and> 0 < sint left
        \<and> length (mFrames c') + length ws \<le> length (mFrames c) + traffic_count ws
        \<and> ((\<forall>f \<in> queued c \<union> traffic ws. mPgn f \<noteq> ADDRESS_CLAIM_PGN) \<longrightarrow>
            (\<forall>(fs, e) \<in> set ws. 0 \<le> e \<and> e < 2 ^ 31) \<longrightarrow> sint left + waited ws = sint t))"
  using assms
proof (induction ws arbitrary: c t)
  case (Cons w ws)
  obtain fs e where w: "w = (fs, e)" by fastforce
  let ?c = "arrive fs c"
  have tr: "traffic (w # ws) = set fs \<union> traffic ws" by (simp add: traffic_def w)
  have ar: "queue_ok (mFrames ?c)" "mLocation ?c = Trying pos a t" "queued ?c \<subseteq> queued c \<union> set fs"
    "length (mFrames ?c) \<le> length (mFrames c) + length fs"
    using arrive_frames [of fs c] Cons.prems by (simp_all add: tr)
  have free: "\<forall>f \<in> queued ?c. \<not> claims a f" using ar(3) Cons.prems(4) tr by blast
  from ar(1,2) free show ?case
  proof (cases rule: uncontested_wait [where e = e])
    case (got c')
    then show ?thesis by (intro disjI1 exI [of _ "Suc 0"] exI [of _ c']) (simp add: w)
  next
    case (more c1 f left)
    from Cons.IH [OF more(3,2,6)] consider
        (now) n c' where "n \<le> length ws" "waits_run (take n ws) c1 = Inr (c', [onSrcAddrChanged a])"
          "mLocation c' = Serving" "mCurrentSrc c' = a"
      | (later) c' left' where "waits_run ws c1 = Inr (c', [])" "mLocation c' = Trying pos a left'" "0 < sint left'"
          "length (mFrames c') + length ws \<le> length (mFrames c1) + traffic_count ws"
          "(\<forall>f \<in> queued c1 \<union> traffic ws. mPgn f \<noteq> ADDRESS_CLAIM_PGN) \<longrightarrow>
            (\<forall>(fs, e) \<in> set ws. 0 \<le> e \<and> e < 2 ^ 31) \<longrightarrow> sint left' + waited ws = sint left"
      using Cons.prems(4,5) ar(3) more(4) tr by blast
    then show ?thesis
    proof cases
      case now
      then show ?thesis
        by (intro disjI1 exI [of _ "Suc n"] exI [of _ c']) (simp add: w more(1))
    next
      case later
      have "sint left' + waited (w # ws) = sint t"
        if pgn: "\<forall>f \<in> queued c \<union> traffic (w # ws). mPgn f \<noteq> ADDRESS_CLAIM_PGN"
          and e: "\<forall>(fs, e) \<in> set (w # ws). 0 \<le> e \<and> e < 2 ^ 31"
      proof -
        have "sint left = sint t - e"
          using more(4,7) pgn e ar(3) tr sint_left [OF Cons.prems(3)] by (auto simp: w)
        moreover have "sint left' + waited ws = sint left"
          using later(5) pgn e more(4) ar(3) tr by (fastforce simp: w)
        ultimately show ?thesis by (simp add: waited_def w)
      qed
      then show ?thesis
        using later ar(4) more(1,5)
        by (intro disjI2 exI [of _ c'] exI [of _ left']) (simp add: w traffic_count_def)
    qed
  qed
qed (auto simp: traffic_count_def waited_def)

text \<open>
  A claim of any other address starts the wait anew: a claimer that reads one in every wait never
  announces the address it tries, although nobody wants it.
\<close>

lemma other_claims_postpone:
  "mFrames c = [] \<Longrightarrow> mLocation c = Trying pos a t \<Longrightarrow>
     \<forall>(fs, e) \<in> set ws. \<exists>n b. fs = [claim_frame n b] \<and> b \<noteq> a \<Longrightarrow>
     \<exists>c' left. waits_run ws c = Inr (c', []) \<and> mFrames c' = [] \<and> mLocation c' = Trying pos a left"
proof (induction ws arbitrary: c t)
  case (Cons w ws)
  obtain n b e where w: "w = ([claim_frame n b], e)" "b \<noteq> a" using Cons.prems(3) by (cases w) auto
  let ?c = "c\<lparr>mFrames := [], mLocation := Trying pos a 250\<rparr>"
  have "exec_step e (arrive [claim_frame n b] c) = Inr (?c, [])"
    using Cons.prems(1,2) w(2)
    by (simp add: arrive_def receive_def exec_step_def read.simps try_read_def claimer_simps as_claim_def)
  moreover obtain c' left where "waits_run ws ?c = Inr (c', [])" "mFrames c' = []"
    "mLocation c' = Trying pos a left"
    using Cons.IH [of ?c 250] Cons.prems(3) by auto
  ultimately show ?case by (intro exI [of _ c'] exI [of _ left]) (simp add: w(1))
qed simp

section \<open>Properties\<close>

text \<open>C17: Whatever frames arrive and however long the waits are, the claimer keeps its invariant, and its
  thread always gets to its next wait: the unchecked casts in it never meet a frame of another
  class.\<close>

theorem claimer_invariant:
  assumes "AddressClaimer name preferred = Inr c0" and "claimer_run c0 outs c"
  shows "claimer_ok name preferred c \<and> is_ok (exec_step elapsed c)"
proof -
  have "claimer_ok name preferred c"
    using assms(2) AddressClaimer_ok [OF assms(1)] by (rule claimer_run_ok)
  with exec_step_ok [OF this, of elapsed] show ?thesis by (auto simp: is_ok_iff)
qed

definition plain_name :: "u32 \<Rightarrow> EcuName" where
  "plain_name i = EcuName_init\<lparr>mIdNumber := i\<rparr>"

definition fresh_claimer :: "u32 \<Rightarrow> u8 list \<Rightarrow> claimer" where
  "fresh_claimer i preferred = \<lparr>mFrames = [], mPreferred = preferred, mEcuName = plain_name i,
     mCurrentSrc = J1939_INVALID_ADDRESS, mLocation = ClaimStart\<rparr>"

text \<open>A claimer that meets no other one: it claims its first address and has it after the wait.\<close>

definition unopposed :: claimer where
  "unopposed = \<lparr>mFrames = [], mPreferred = [0x81, 0x80], mEcuName = plain_name 7,
     mCurrentSrc = 0x80, mLocation = Serving\<rparr>"

lemma unopposed_run:
  "claimer_run (fresh_claimer 7 [0x80, 0x81])
     [onSrcAddrChanged 0xFE, sendFrame (claim_frame (plain_name 7) 0x80), onSrcAddrChanged 0x80]
     unopposed"
proof -
  let ?c = "fresh_claimer 7 [0x80, 0x81]" and ?s = "sendFrame (claim_frame (plain_name 7) 0x80)"
  let ?t = "\<lparr>mFrames = [], mPreferred = [0x81, 0x80], mEcuName = plain_name 7, mCurrentSrc = 0xFE,
     mLocation = Trying 1 0x80 250\<rparr>"
  have "exec_step 0 ?c = Inr (?t, [onSrcAddrChanged 0xFE, ?s])"
    by (simp add: exec_step_def claimAddressStep_def flush_def next_address_eq fresh_claimer_def)
  from claimer_run.step [OF claimer_run.start claimer_step.wake [OF _ this]]
  have "claimer_run ?c [onSrcAddrChanged 0xFE, ?s] ?t" by simp
  moreover have "exec_step 250 ?t = Inr (unopposed, [onSrcAddrChanged 0x80])"
    by (simp add: exec_step_def read.simps try_read_def unopposed_def)
  ultimately show ?thesis
    using claimer_run.step [OF _ claimer_step.wake, of ?c _ ?t 250 unopposed] by fastforce
qed

theorem claimer_invariant_witness:
  "claimer_ok (plain_name 7) [0x80, 0x81] unopposed \<and> is_ok (exec_step 5000 unopposed)"
  by (rule claimer_invariant [OF _ unopposed_run])
     (simp add: AddressClaimer_def fresh_claimer_def)

text \<open>C16: An address in service was announced to the application right after a claim for it was sent, and
  since then the claimer has only repeated that claim; or it is the null address, claimed after the
  last preferred address was lost.\<close>

theorem address_announced_after_claim:
  assumes "AddressClaimer name preferred = Inr c0" and "claimer_run c0 outs c"
    and "mLocation c = Serving"
  shows "announced name (mCurrentSrc c) outs"
proof -
  have "mLocation c0 = ClaimStart" using assms(1) by (auto simp: AddressClaimer_def split: if_splits)
  then have "trace_ok c outs"
    using assms(2) AddressClaimer_ok [OF assms(1)] by (blast intro: claimer_run_trace)
  moreover have "mEcuName c = name"
    using claimer_run_ok [OF assms(2) AddressClaimer_ok [OF assms(1)]] by (simp add: claimer_ok_def)
  ultimately show ?thesis using assms(3) by (simp add: trace_ok_def)
qed

theorem address_announced_after_claim_witness:
  "announced (plain_name 7) 0x80
     [onSrcAddrChanged 0xFE, sendFrame (claim_frame (plain_name 7) 0x80), onSrcAddrChanged 0x80]"
  using address_announced_after_claim [OF _ unopposed_run, of "plain_name 7" "[0x80, 0x81]"]
  by (simp add: AddressClaimer_def fresh_claimer_def unopposed_def)

text \<open>Trying or serving the address \<open>a\<close>.\<close>

definition holds :: "u8 \<Rightarrow> claimer \<Rightarrow> bool" where
  "holds a c \<longleftrightarrow>
     (case mLocation c of
        ClaimStart \<Rightarrow> False
      | Trying pos address t \<Rightarrow> address = a
      | Serving \<Rightarrow> mCurrentSrc c = a) \<and> a \<noteq> J1939_INVALID_ADDRESS"

lemma distinct_hd_last: "distinct xs \<Longrightarrow> 2 \<le> length xs \<Longrightarrow> hd xs \<noteq> last xs"
  by (cases xs) auto

lemma next_address_leaves:
  assumes "distinct (mPreferred c)" and "1 \<le> pos" and "last (mPreferred c) = a"
    and "mCurrentSrc c = J1939_INVALID_ADDRESS"
  shows "\<not> holds a (fst (next_address pos c))"
  using assms distinct_hd_last [of "mPreferred c"] by (auto simp: next_address_eq holds_def)

text \<open>C15: Arbitration: a claimer that tries or serves an address and reads a claim for it keeps the address
  and repeats its own claim when its NAME has the lower value; otherwise it leaves the address
  (unless its list has that address twice).\<close>

theorem arbitration:
  assumes "claimer_ok name preferred c" and "distinct preferred" and "holds a c"
    and "mFrames c = (i, f) # m" and "claims a f" and "mBody f = AddrClaim other"
  shows "\<exists>c' outs. exec_step elapsed c = Inr (c', outs) \<and> mFrames c' = m
    \<and> (if ecu_getValue name < ecu_getValue other
       then holds a c' \<and> outs = [sendFrame (claim_frame name a)]
       else \<not> holds a c')"
proof -
  have q: "queue_ok (mFrames c)" and n: "mEcuName c = name" and d: "distinct (mPreferred c)"
    using assms(1,2) by (auto simp: claimer_ok_def)
  have tk: "frame = Some f \<and> m' = m" if "taken (mFrames c) frame m'" for frame m'
    using that assms(4) by (auto simp: taken_def split: option.splits)
  show ?thesis
    using q
  proof (cases rule: exec_step_cases [where e = elapsed])
    case (contend pos b t g m' other')
    then have "b = a" using assms(3) by (simp add: holds_def)
    moreover have "\<not> holds a (fst (next_address pos (c\<lparr>mFrames := m\<rparr>)))"
      by (rule next_address_leaves)
         (use assms(1) contend(1) d \<open>b = a\<close> in \<open>auto simp: claimer_ok_def\<close>)
    moreover have "mFrames (fst (next_address pos (c\<lparr>mFrames := m\<rparr>))) = m"
      by (simp add: next_address_eq)
    moreover have "holds a (fst (try_address pos a (c\<lparr>mFrames := m\<rparr>)))"
      using assms(3) by (simp add: holds_def try_address_def)
    ultimately show ?thesis
      using contend(2,4,5) tk [OF contend(2)] assms(6) n
      by (cases "next_address pos (c\<lparr>mFrames := m\<rparr>)")
         (auto simp: as_claim_def ecu_less_def try_address_def)
  next
    case (defend g m' other')
    then show ?thesis
      using tk [OF defend(2)] assms(3,6) n by (auto simp: as_claim_def ecu_less_def holds_def)
  next
    case claim
    then show ?thesis using assms(3) by (simp add: holds_def)
  next
    case (wait pos b t g m' left)
    then show ?thesis using tk [OF wait(2)] assms(3,5) by (simp add: holds_def)
  next
    case (obtained pos b t frame m')
    then show ?thesis using tk [OF obtained(2)] assms(3,5) by (simp add: holds_def)
  next
    case (idle frame m' outs)
    then show ?thesis using tk [OF idle(2)] assms(3,5) by (simp add: holds_def)
  qed
qed

definition contested :: claimer where
  "contested = receive (claim_frame (plain_name 9) 0x80) unopposed"

theorem arbitration_witness:
  "\<exists>c' outs. exec_step 10 contested = Inr (c', outs) \<and> mFrames c' = []
     \<and> holds 0x80 c' \<and> outs = [sendFrame (claim_frame (plain_name 7) 0x80)]"
proof -
  have "claimer_ok (plain_name 7) [0x81, 0x80] contested"
    by (simp add: claimer_ok_def contested_def receive_def unopposed_def queue_ok_def class_ok_def
        claimer_simps smap_ok_Cons) (rule exI [of _ 0], simp)
  moreover have "holds 0x80 contested" by (simp add: holds_def contested_def receive_def unopposed_def)
  moreover have "mFrames contested = [(getIdentifier (claim_frame (plain_name 9) 0x80),
      claim_frame (plain_name 9) 0x80)]"
    by (simp add: contested_def receive_def unopposed_def)
  moreover have "ecu_getValue (plain_name 7) < ecu_getValue (plain_name 9)" by code_simp
  ultimately show ?thesis
    using arbitration [where name = "plain_name 7" and preferred = "[0x81, 0x80]" and c = contested
        and a = "0x80" and m = "[]" and other = "plain_name 9" and elapsed = "10"]
    by (simp add: claimer_simps)
qed

text \<open>C18: A claimer that loses every address has claimed each preferred one exactly once, in order, and
  then announces that it cannot claim one; its list is back in its order.\<close>

theorem defeat_walks_the_preferred:
  assumes "AddressClaimer name preferred = Inr c" and "\<not> ecu_less name rival"
  shows "contest rival (length preferred) c = Inr
    (\<lparr>mFrames = [], mPreferred = preferred, mEcuName = name, mCurrentSrc = J1939_INVALID_ADDRESS,
      mLocation = Serving\<rparr>,
     onSrcAddrChanged J1939_INVALID_ADDRESS
       # map (\<lambda>a. sendFrame (claim_frame name a)) (preferred @ [J1939_INVALID_ADDRESS]))"
proof -
  obtain k where k: "length preferred = Suc k"
    using assms(1) by (cases preferred) (auto simp: AddressClaimer_def)
  have c: "c = \<lparr>mFrames = [], mPreferred = preferred, mEcuName = name,
      mCurrentSrc = J1939_INVALID_ADDRESS, mLocation = ClaimStart\<rparr>"
    using assms(1) by (simp add: AddressClaimer_def split: if_splits)
  have "rotate (Suc k) preferred = preferred" using rotate_id [of "Suc k" preferred] k by simp
  then show ?thesis
    using contest_eq [OF c assms(2), of k] k
    by (simp add: claimed_address_def receive_def exec_step_def read.simps try_read_def
        claimer_simps assms(2) del: rotate_Suc)
qed

theorem defeat_walks_the_preferred_witness:
  "contest (plain_name 3) 2 (fresh_claimer 7 [0x80, 0x81]) = Inr
    (\<lparr>mFrames = [], mPreferred = [0x80, 0x81], mEcuName = plain_name 7, mCurrentSrc = 0xFE,
      mLocation = Serving\<rparr>,
     [onSrcAddrChanged 0xFE, sendFrame (claim_frame (plain_name 7) 0x80),
      sendFrame (claim_frame (plain_name 7) 0x81), sendFrame (claim_frame (plain_name 7) 0xFE)])"
proof -
  have "\<not> ecu_less (plain_name 7) (plain_name 3)" by code_simp
  then show ?thesis
    using defeat_walks_the_preferred [of "plain_name 7" "[0x80, 0x81]"
        "fresh_claimer 7 [0x80, 0x81]" "plain_name 3"]
    by (simp add: AddressClaimer_def fresh_claimer_def numeral_2_eq_2 del: contest.simps)
qed

text \<open>Once it has the null address the claimer never tries again: it stays in service with that address,
  whatever it receives, and all it ever sends is that it cannot claim an address.\<close>

theorem cannot_claim_is_final:
  assumes "claimer_run c outs c'" and "queue_ok (mFrames c)" and "mLocation c = Serving"
    and "mCurrentSrc c = J1939_INVALID_ADDRESS"
  shows "mLocation c' = Serving \<and> mCurrentSrc c' = J1939_INVALID_ADDRESS
    \<and> mPreferred c' = mPreferred c
    \<and> set outs \<subseteq> {sendFrame (claim_frame (mEcuName c) J1939_INVALID_ADDRESS)}"
proof -
  have "queue_ok (mFrames c') \<and> mEcuName c' = mEcuName c \<and> mLocation c' = Serving
    \<and> mCurrentSrc c' = J1939_INVALID_ADDRESS \<and> mPreferred c' = mPreferred c
    \<and> set outs \<subseteq> {sendFrame (claim_frame (mEcuName c) J1939_INVALID_ADDRESS)}"
    using assms
  proof (induction rule: claimer_run.induct)
    case (step outs c1 outs' c2)
    then have q: "queue_ok (mFrames c1)" and l: "mLocation c1 = Serving" "mCurrentSrc c1 = 0xFE"
      by simp_all
    from step.hyps(2) show ?case
    proof (cases rule: claimer_step.cases)
      case (receive f)
      then show ?thesis using step by (simp add: receive_def queue_ok_put)
    next
      case (wake elapsed)
      from q show ?thesis
        using step wake(2) l
        by (cases rule: exec_step_cases [where e = elapsed]) (auto dest: queue_ok_taken)
    qed
  qed simp
  then show ?thesis by simp
qed

theorem cannot_claim_is_final_witness:
  "mLocation (unopposed\<lparr>mCurrentSrc := 0xFE\<rparr>) = Serving"
  using cannot_claim_is_final [OF claimer_run.start, of "unopposed\<lparr>mCurrentSrc := 0xFE\<rparr>"]
  by (simp add: unopposed_def)

text \<open>C19: A claimer whose address nobody claims gets it, while frames keep arriving: it has announced the
  address it was trying after one wait more than there are frames to read, queued or arriving during the
  waits; and it has announced it once it has waited the time it had left, 250 milliseconds after its claim,
  when none of the frames is a claim. A claim for another address is covered by the first part only: it
  starts the 250 milliseconds anew (\<open>other_claims_postpone\<close>). Each wait is shorter than 24 days.\<close>

theorem uncontested_claim_succeeds:
  assumes "claimer_ok name preferred c" and "mLocation c = Trying pos a t"
    and "\<forall>f \<in> queued c \<union> traffic ws. \<not> claims a f" and "\<forall>f \<in> traffic ws. class_ok f"
    and "length (mFrames c) + traffic_count ws < length ws
       \<or> (\<forall>f \<in> queued c \<union> traffic ws. mPgn f \<noteq> ADDRESS_CLAIM_PGN)
         \<and> (\<forall>(fs, e) \<in> set ws. 0 \<le> e \<and> e < 2 ^ 31) \<and> sint t \<le> waited ws"
  shows "\<exists>n c'. n \<le> length ws \<and> waits_run (take n ws) c = Inr (c', [onSrcAddrChanged a])
    \<and> mLocation c' = Serving \<and> mCurrentSrc c' = a"
proof -
  have "queue_ok (mFrames c)" "0 < sint t" using assms(1,2) by (simp_all add: claimer_ok_def)
  from waits_run_uncontested [OF this(1) assms(2) this(2) assms(3,4)] assms(5) show ?thesis by force
qed

definition trying :: claimer where
  "trying = \<lparr>mFrames = [], mPreferred = [0x81, 0x80], mEcuName = plain_name 7, mCurrentSrc = 0xFE,
     mLocation = Trying 1 0x80 250\<rparr>"

text \<open>Two requests arrive while it waits, and the third wait times out; or the second takes too long.\<close>

definition busy_waits :: "int \<Rightarrow> waits" where
  "busy_waits e = [([as_frame Request (RequestFrame_of 0xFECA)], 100), ([as_frame Request (RequestFrame_of 0xFEDA)], e)]"

theorem uncontested_claim_succeeds_witness:
  "(\<exists>n c'. n \<le> 3 \<and> waits_run (take n (busy_waits 100 @ [([], 50)])) trying = Inr (c', [onSrcAddrChanged 0x80])
     \<and> mLocation c' = Serving \<and> mCurrentSrc c' = 0x80)
   \<and> (\<exists>n c'. n \<le> 2 \<and> waits_run (take n (busy_waits 150)) trying = Inr (c', [onSrcAddrChanged 0x80])
     \<and> mLocation c' = Serving \<and> mCurrentSrc c' = 0x80)"
proof -
  have ok: "claimer_ok (plain_name 7) [0x81, 0x80] trying"
    by (simp add: claimer_ok_def trying_def) (rule exI [of _ 0], simp)
  have at: "mLocation trying = Trying 1 0x80 250" by (simp add: trying_def)
  have f: "mPgn f = REQUEST_PGN \<and> class_ok f" if "f \<in> traffic (busy_waits e @ ws)" "traffic ws = {}" for f e ws
    using that by (auto simp: traffic_def busy_waits_def as_frame_def RequestFrame_of_def RequestFrame_def class_ok_def)
  have "length (busy_waits 100 @ [([], 50)]) = 3" "length (busy_waits 150) = 2" by (simp_all add: busy_waits_def)
  moreover have "\<exists>n c'. n \<le> length (busy_waits 100 @ [([], 50)])
     \<and> waits_run (take n (busy_waits 100 @ [([], 50)])) trying = Inr (c', [onSrcAddrChanged 0x80])
     \<and> mLocation c' = Serving \<and> mCurrentSrc c' = 0x80"
    by (rule uncontested_claim_succeeds [OF ok at])
       (use f [of _ 100 "[([], 50)]"] in \<open>auto simp: trying_def queued_def claims_def traffic_count_def traffic_def
          busy_waits_def\<close>)
  moreover have "\<exists>n c'. n \<le> length (busy_waits 150)
     \<and> waits_run (take n (busy_waits 150)) trying = Inr (c', [onSrcAddrChanged 0x80])
     \<and> mLocation c' = Serving \<and> mCurrentSrc c' = 0x80"
    by (rule uncontested_claim_succeeds [OF ok at])
       (use f [of _ 150 "[]"] in \<open>auto simp: trying_def queued_def claims_def traffic_count_def traffic_def
          busy_waits_def waited_def\<close>)
  ultimately show ?thesis by auto
qed

end
