(* ===== verification/Can.thy ===== *)
theory Can
  imports TimeUtils OrderedMap
begin

text \<open>
  The CAN layer: frames (\<open>CAN/CanFrame.cpp\<close>), filters (\<open>CAN/include/CanFilter.h\<close>), the receivers'
  filtering in user space (\<open>CAN/CommonCanReceiver.cpp\<close>) and its translation into socket filters
  (\<open>CAN/Backends/Sockets/SocketCanReceiver.cpp\<close>). The sockets themselves are the operating
  system's.
\<close>

section \<open>Frames\<close>

abbreviation (input) MAX_CAN_DATA_SIZE :: nat where "MAX_CAN_DATA_SIZE \<equiv> 8"

record CanFrame =
  cf_mExtendedFormat :: bool
  cf_mId :: u32
  cf_mData :: bytes

definition cf_setData :: "bytes \<Rightarrow> CanFrame \<Rightarrow> bool \<times> CanFrame" where
  "cf_setData data f =
     (if length data > MAX_CAN_DATA_SIZE then (False, f) else (True, f\<lparr>cf_mData := data\<rparr>))"

text \<open>The format is left uninitialised by the default constructor; \<open>ext\<close> is what it happens to be.\<close>

definition CanFrame_default :: "bool \<Rightarrow> CanFrame" where
  "CanFrame_default ext = \<lparr>cf_mExtendedFormat = ext, cf_mId = 0, cf_mData = []\<rparr>"

definition CanFrame_of :: "bool \<Rightarrow> u32 \<Rightarrow> bytes \<Rightarrow> CanFrame" where
  "CanFrame_of extFormat i data =
     snd (cf_setData data \<lparr>cf_mExtendedFormat = extFormat, cf_mId = i, cf_mData = []\<rparr>)"

definition cf_clear :: "CanFrame \<Rightarrow> CanFrame" where
  "cf_clear f = f\<lparr>cf_mId := 0, cf_mData := []\<rparr>"

definition hex_digit :: "nat \<Rightarrow> char" where
  "hex_digit n = ''0123456789abcdef'' ! n"

definition hexDump :: "CanFrame \<Rightarrow> string" where
  "hexDump f =
     concat (map (\<lambda>c. [hex_digit (unat c div 16), hex_digit (unat c mod 16), CHR '' '']) (cf_mData f))"

section \<open>Filters\<close>

datatype CanFilter =
  CanFilter (getId: u32) (getMask: u32) (filterExtFrame: bool) (filterStdFrame: bool)

definition filter_less :: "CanFilter \<Rightarrow> CanFilter \<Rightarrow> bool" where
  "filter_less this other =
     (if getId this < getId other then True
      else if getId this > getId other then False
      else if getMask this < getMask other then True
      else if getMask this > getMask other then False
      else if \<not> filterStdFrame this \<and> filterStdFrame other then True
      else if filterStdFrame this \<and> \<not> filterStdFrame other then False
      else \<not> filterExtFrame this \<and> filterExtFrame other)"

text \<open>\<open>std::set<CanFilter>\<close> orders its elements by this, which is a linear order.\<close>

instantiation CanFilter :: linorder
begin

definition less_CanFilter :: "CanFilter \<Rightarrow> CanFilter \<Rightarrow> bool" where
  "less_CanFilter = filter_less"

definition less_eq_CanFilter :: "CanFilter \<Rightarrow> CanFilter \<Rightarrow> bool" where
  "less_eq_CanFilter a b = (filter_less a b \<or> a = b)"

instance
proof
  fix a b c :: CanFilter
  show "a < b \<longleftrightarrow> a \<le> b \<and> \<not> b \<le> a"
    by (cases a; cases b)
       (auto simp: less_CanFilter_def less_eq_CanFilter_def filter_less_def split: if_splits)
  show "a \<le> a" by (simp add: less_eq_CanFilter_def)
  show "a \<le> b \<Longrightarrow> b \<le> c \<Longrightarrow> a \<le> c"
    by (cases a; cases b; cases c)
       (auto simp: less_eq_CanFilter_def filter_less_def split: if_splits)
  show "a \<le> b \<Longrightarrow> b \<le> a \<Longrightarrow> a = b"
    by (cases a; cases b) (auto simp: less_eq_CanFilter_def filter_less_def split: if_splits)
  show "a \<le> b \<or> b \<le> a"
    by (cases a; cases b) (auto simp: less_eq_CanFilter_def filter_less_def split: if_splits)
qed

end

section \<open>CommonCanReceiver\<close>

text \<open>The set of filters as the list of its elements in order.\<close>

record can_receiver =
  rc_mFilters :: "CanFilter list"
  rc_mInterface :: string

definition rc_setInterface :: "string \<Rightarrow> can_receiver \<Rightarrow> bool \<times> can_receiver" where
  "rc_setInterface interface r = (True, r\<lparr>rc_mInterface := interface\<rparr>)"

definition rc_setFilters :: "CanFilter list \<Rightarrow> can_receiver \<Rightarrow> bool \<times> can_receiver" where
  "rc_setFilters filters r = (True, r\<lparr>rc_mFilters := filters\<rparr>)"

fun any_filter :: "CanFilter list \<Rightarrow> u32 \<Rightarrow> bool" where
  "any_filter [] i = False"
| "any_filter (f # fs) i =
     (if getId f AND getMask f = i AND getMask f then True else any_filter fs i)"

definition rc_filter :: "can_receiver \<Rightarrow> u32 \<Rightarrow> bool" where
  "rc_filter r i = (if rc_mFilters r = [] then True else any_filter (rc_mFilters r) i)"

section \<open>SocketCanReceiver\<close>

text \<open>The flags and masks of \<open>linux/can.h\<close>.\<close>

abbreviation (input) CAN_EFF_FLAG :: u32 where "CAN_EFF_FLAG \<equiv> 0x80000000"
abbreviation (input) CAN_EFF_MASK :: u32 where "CAN_EFF_MASK \<equiv> 0x1FFFFFFF"
abbreviation (input) CAN_SFF_MASK :: u32 where "CAN_SFF_MASK \<equiv> 0x7FF"

definition socket_filter :: "CanFilter \<Rightarrow> u32 \<times> u32" where
  "socket_filter f =
     (let can_id = getId f AND CAN_EFF_MASK;
          can_mask = getMask f AND CAN_EFF_MASK
      in if filterStdFrame f = filterExtFrame f then (can_id, can_mask AND NOT CAN_EFF_FLAG)
         else
           let can_mask' = can_mask OR CAN_EFF_FLAG
           in if filterExtFrame f then (can_id OR CAN_EFF_FLAG, can_mask')
              else (can_id, can_mask' AND CAN_SFF_MASK))"

text \<open>
  \<open>setFilters\<close>: what is handed to \<open>setsockopt\<close>, if anything, and the result, given whether the
  socket is open and whether the call succeeds.
\<close>

definition socket_setFilters :: "bool \<Rightarrow> bool \<Rightarrow> CanFilter list \<Rightarrow> bool \<times> (u32 \<times> u32) list option" where
  "socket_setFilters isOpen accepted filters =
     (if \<not> isOpen then (False, None)
      else if filters = [] then (False, None)
      else (accepted, Some (map socket_filter filters)))"

text \<open>The identifier by which the kernel knows a received frame.\<close>

definition raw_id :: "CanFrame \<Rightarrow> u32" where
  "raw_id f = cf_mId f OR (if cf_mExtendedFormat f then CAN_EFF_FLAG else 0)"

text \<open>
  The kernel's frame: identifier with flags, length and eight data bytes. \<open>_sendFrame\<close> fills it from
  a frame, \<open>receive\<close> reads it back; a length beyond the array is undefined.
\<close>

record can_frame =
  can_id :: u32
  can_dlc :: nat
  can_data :: bytes

definition socket_sendFrame :: "CanFrame \<Rightarrow> can_frame res" where
  "socket_sendFrame f =
     res_bind (poke 0 (cf_mData f) (replicate 8 0)) (\<lambda>bytes.
       Inr \<lparr>can_id = cf_mId f OR (if cf_mExtendedFormat f then CAN_EFF_FLAG else 0),
            can_dlc = length (cf_mData f), can_data = bytes\<rparr>)"

definition socket_receive :: "can_frame \<Rightarrow> CanFrame \<Rightarrow> CanFrame res" where
  "socket_receive raw f =
     res_bind (peek 0 (can_dlc raw) (can_data raw)) (\<lambda>data.
       Inr (snd (cf_setData data (f\<lparr>cf_mExtendedFormat := (can_id raw AND CAN_EFF_FLAG \<noteq> 0),
                                   cf_mId := can_id raw AND NOT CAN_EFF_FLAG\<rparr>))))"

section \<open>What a filter accepts\<close>

lemma any_filter_iff: "any_filter fs i \<longleftrightarrow> (\<exists>f \<in> set fs. getId f AND getMask f = i AND getMask f)"
  by (induction fs) auto

lemma flag_masks:
  "CAN_EFF_FLAG = push_bit 31 1" "CAN_EFF_MASK = mask 29" "CAN_SFF_MASK = mask 11"
  by (simp_all add: mask_eq_exp_minus_1)

text \<open>The pair handed to the kernel, bit by bit, for identifiers of 29 bits.\<close>

lemma masked_flag:
  fixes i m :: u32
  assumes "i < 2 ^ 29"
  shows "(i OR CAN_EFF_FLAG) AND (m AND CAN_EFF_MASK OR CAN_EFF_FLAG) = i AND m OR CAN_EFF_FLAG"
    and "(i OR CAN_EFF_FLAG) AND (m AND CAN_EFF_MASK AND NOT CAN_EFF_FLAG) = i AND m"
    and "(i AND CAN_EFF_MASK OR CAN_EFF_FLAG) AND (m AND CAN_EFF_MASK OR CAN_EFF_FLAG)
           = i AND m OR CAN_EFF_FLAG"
    and "(i AND CAN_EFF_MASK) AND (m AND CAN_EFF_MASK AND NOT CAN_EFF_FLAG) = i AND m"
    and "(i AND m OR CAN_EFF_FLAG) AND CAN_EFF_MASK = i AND m"
  unfolding flag_masks
  by (rule bit_word_eqI,
      auto simp: bit_simps simp del: push_bit_of_1 dest: word_bit_bound [OF assms])+

lemma flag_cancel:
  fixes i j m :: u32
  assumes "i < 2 ^ 29" and "j < 2 ^ 29"
  shows "i AND m OR CAN_EFF_FLAG = j AND m OR CAN_EFF_FLAG \<longleftrightarrow> i AND m = j AND m"
proof
  assume e: "i AND m OR CAN_EFF_FLAG = j AND m OR CAN_EFF_FLAG"
  have "i AND m = (i AND m OR CAN_EFF_FLAG) AND CAN_EFF_MASK"
    by (rule masked_flag(5) [OF assms(1), symmetric])
  also have "\<dots> = j AND m" by (simp only: e masked_flag(5) [OF assms(2)])
  finally show "i AND m = j AND m" .
qed (simp only:)

text \<open>A filter without a format accepts by the masked identifier alone, and so does one for extended
  frames on an extended frame.\<close>

lemma socket_filter_extended:
  assumes "getId f < 2 ^ 29" and "i < 2 ^ 29" and "filterExtFrame f \<or> \<not> filterStdFrame f"
  shows "(i OR CAN_EFF_FLAG) AND snd (socket_filter f) = fst (socket_filter f) AND snd (socket_filter f)
     \<longleftrightarrow> getId f AND getMask f = i AND getMask f"
proof (cases "filterStdFrame f = filterExtFrame f")
  case True
  then have sf: "socket_filter f
      = (getId f AND CAN_EFF_MASK, getMask f AND CAN_EFF_MASK AND NOT CAN_EFF_FLAG)"
    by (simp only: socket_filter_def Let_def refl if_True and.assoc)
  show ?thesis
    by (simp only: sf fst_conv snd_conv masked_flag(2) [OF assms(2)] masked_flag(4) [OF assms(1)])
       (rule eq_commute)
next
  case False
  then have e: "filterExtFrame f" using assms(3) by auto
  have sf: "socket_filter f
      = (getId f AND CAN_EFF_MASK OR CAN_EFF_FLAG, getMask f AND CAN_EFF_MASK OR CAN_EFF_FLAG)"
    using False by (simp only: socket_filter_def Let_def if_False if_True e)
  show ?thesis
    by (simp only: sf fst_conv snd_conv masked_flag(1) [OF assms(2)] masked_flag(3) [OF assms(1)]
        flag_cancel [OF assms(2,1)])
       (rule eq_commute)
qed

text \<open>A filter for standard frames loses the format flag with the mask of eleven bits.\<close>

lemma socket_filter_standard:
  assumes "filterStdFrame f" and "\<not> filterExtFrame f"
  shows "(i OR CAN_EFF_FLAG) AND snd (socket_filter f) = i AND snd (socket_filter f)"
proof -
  have "(i OR CAN_EFF_FLAG) AND ((m AND CAN_EFF_MASK OR CAN_EFF_FLAG) AND CAN_SFF_MASK)
    = i AND ((m AND CAN_EFF_MASK OR CAN_EFF_FLAG) AND CAN_SFF_MASK)" for m :: u32
    unfolding flag_masks by (rule bit_word_eqI) (auto simp: bit_simps simp del: push_bit_of_1)
  with assms show ?thesis by (simp add: socket_filter_def Let_def)
qed

text \<open>A frame with a 29-bit identifier comes through the socket unchanged.\<close>

lemma raw_flag:
  fixes i :: u32
  assumes "i < 2 ^ 29"
  shows "(i OR CAN_EFF_FLAG) AND CAN_EFF_FLAG = CAN_EFF_FLAG" and "i AND CAN_EFF_FLAG = 0"
    and "(i OR CAN_EFF_FLAG) AND NOT CAN_EFF_FLAG = i" and "i AND NOT CAN_EFF_FLAG = i"
  unfolding flag_masks
  by (rule bit_word_eqI,
      auto simp: bit_simps simp del: push_bit_of_1 dest: word_bit_bound [OF assms])+

lemma socket_roundtrip:
  assumes "cf_mId f < 2 ^ 29" and "length (cf_mData f) \<le> MAX_CAN_DATA_SIZE"
  shows "\<exists>raw. socket_sendFrame f = Inr raw \<and> raw_id f = can_id raw \<and> socket_receive raw f0 = Inr f"
proof -
  have p: "poke 0 (cf_mData f) (replicate 8 0)
      = Inr (cf_mData f @ drop (length (cf_mData f)) (replicate 8 0))"
    using assms(2) by (simp add: poke_def)
  show ?thesis
    using assms(2) raw_flag [OF assms(1)]
    by (cases "cf_mExtendedFormat f")
       (simp_all add: socket_sendFrame_def p socket_receive_def peek_def raw_id_def cf_setData_def)
qed

section \<open>Properties\<close>

text \<open>C29: On extended frames with identifiers of 29 bits the filters handed to the kernel let through exactly what
  filtering in user space lets through, when there are filters, their identifiers have 29 bits and none asks for
  standard frames only; a filter that does lets extended frames through the kernel as well
  (\<open>standard_filter_lets_extended_through\<close>). \<open>kernel\<close> is the socket's documented rule: a frame passes when some
  filter agrees with it under the filter's mask.\<close>

theorem socket_filters_equal_user_filters:
  fixes kernel :: "(u32 \<times> u32) list \<Rightarrow> u32 \<Rightarrow> bool"
  assumes kernel: "\<And>fs i. kernel fs i \<longleftrightarrow> (\<exists>(can_id, can_mask) \<in> set fs. i AND can_mask = can_id AND can_mask)"
    and "rc_mFilters r \<noteq> []" and "cf_mExtendedFormat fr" and "cf_mId fr < 2 ^ 29"
    and "\<And>f. f \<in> set (rc_mFilters r) \<Longrightarrow> getId f < 2 ^ 29 \<and> (filterExtFrame f \<or> \<not> filterStdFrame f)"
  shows "\<exists>fs. socket_setFilters True True (rc_mFilters r) = (True, Some fs)
    \<and> kernel fs (raw_id fr) = rc_filter r (cf_mId fr)"
proof -
  have "(\<exists>f \<in> set (rc_mFilters r). raw_id fr AND snd (socket_filter f)
      = fst (socket_filter f) AND snd (socket_filter f)) = rc_filter r (cf_mId fr)"
    using socket_filter_extended assms(2-5)
    by (simp add: rc_filter_def any_filter_iff raw_id_def cong: bex_cong_simp)
  then show ?thesis
    using assms(2) by (auto simp: socket_setFilters_def kernel split_beta)
qed

definition documented_kernel :: "(u32 \<times> u32) list \<Rightarrow> u32 \<Rightarrow> bool" where
  "documented_kernel fs i \<longleftrightarrow> (\<exists>(can_id, can_mask) \<in> set fs. i AND can_mask = can_id AND can_mask)"

definition dm1_receiver :: can_receiver where
  "dm1_receiver = \<lparr>rc_mFilters = [CanFilter 0x00FECA00 0x00FFFF00 True False], rc_mInterface = ''can0''\<rparr>"

theorem socket_filters_equal_user_filters_witness:
  "\<exists>fs. socket_setFilters True True (rc_mFilters dm1_receiver) = (True, Some fs)
     \<and> documented_kernel fs (raw_id (CanFrame_of True 0x18FECA21 []))
       = rc_filter dm1_receiver (cf_mId (CanFrame_of True 0x18FECA21 []))"
  by (rule socket_filters_equal_user_filters [OF documented_kernel_def])
     (simp_all add: dm1_receiver_def CanFrame_of_def cf_setData_def)

text \<open>A filter for standard frames only does not keep extended frames out: the mask of eleven bits also
  clears the format flag, so the kernel treats an extended frame like the standard one with the
  same identifier.\<close>

theorem standard_filter_lets_extended_through:
  fixes kernel :: "(u32 \<times> u32) list \<Rightarrow> u32 \<Rightarrow> bool"
  assumes kernel: "\<And>fs i. kernel fs i \<longleftrightarrow> (\<exists>(can_id, can_mask) \<in> set fs. i AND can_mask = can_id AND can_mask)"
    and "filterStdFrame f" and "\<not> filterExtFrame f"
  shows "kernel [socket_filter f] (raw_id (CanFrame_of True i data))
    = kernel [socket_filter f] (raw_id (CanFrame_of False i data))"
  using socket_filter_standard [OF assms(2,3), of i]
  by (simp add: kernel raw_id_def CanFrame_of_def cf_setData_def split_beta)

theorem standard_filter_lets_extended_through_witness:
  "documented_kernel [socket_filter (CanFilter 0x123 0x7FF False True)] (raw_id (CanFrame_of True 0x18FECA21 []))
   = documented_kernel [socket_filter (CanFilter 0x123 0x7FF False True)] (raw_id (CanFrame_of False 0x18FECA21 []))"
  by (rule standard_filter_lets_extended_through [OF documented_kernel_def]) simp_all

end
