(* ===== verification/AddressNetwork.thy ===== *)
theory AddressNetwork
  imports AddressClaimer Can
begin

text \<open>
  Address claimers on one bus. \<open>BinUtils/j1939AddrClaim/j1939AddrClaim.cpp\<close> joins an address claimer
  to the CAN layer: \<open>sendFrame\<close> encodes a frame into a CAN frame and \<open>onRcv\<close> decodes what arrives,
  filters it and hands it over. Here any number of such programs share a bus that also carries
  anybody else's frames, delivers late and in any order, but does not lose frames; the socket does
  not give a program its own frames back (\<open>CAN_RAW_RECV_OWN_MSGS\<close> is off).
\<close>

section \<open>The program around a claimer\<close>

definition my_sendFrame :: "jframe \<Rightarrow> CanFrame res" where
  "my_sendFrame frame =
     (let len = jframe_getDataLength frame
      in res_bind (jframe_encode frame len) (\<lambda>(i, buff, len').
           Inr (CanFrame_of True i (take len' buff))))"

text \<open>\<open>get\<close> is the factory; the result is the frame for the claimer, if there is one.\<close>

definition onRcv :: "(u32 \<Rightarrow> bytes \<Rightarrow> jframe option res) \<Rightarrow> CanFrame \<Rightarrow> jframe option res" where
  "onRcv get frame =
     res_bind (get (cf_mId frame) (cf_mData frame)) (\<lambda>decoded.
       case decoded of
         None \<Rightarrow> Inr None
       | Some f \<Rightarrow> res_bind (claimer_toBeHandled f) (\<lambda>b. Inr (if b then Some f else None)))"

section \<open>The bus\<close>

text \<open>The claimers, and what is under way to each of them by its number.\<close>

record network =
  nt_nodes :: "claimer list"
  nt_wire :: "(nat \<times> CanFrame) list"

definition net_init :: "claimer list \<Rightarrow> network" where
  "net_init cs = \<lparr>nt_nodes = cs, nt_wire = []\<rparr>"

fun emitted :: "effect list \<Rightarrow> CanFrame list" where
  "emitted [] = []"
| "emitted (sendFrame f # es) =
     (case my_sendFrame f of Inl e \<Rightarrow> emitted es | Inr cf \<Rightarrow> cf # emitted es)"
| "emitted (onSrcAddrChanged a # es) = emitted es"

definition broadcast :: "nat \<Rightarrow> nat \<Rightarrow> CanFrame list \<Rightarrow> (nat \<times> CanFrame) list" where
  "broadcast n i cfs = concat (map (\<lambda>cf. map (\<lambda>j. (j, cf)) (filter (\<lambda>j. j \<noteq> i) [0 ..< n])) cfs)"

definition net_wake :: "nat \<Rightarrow> effects \<Rightarrow> network \<Rightarrow> network" where
  "net_wake i r s =
     \<lparr>nt_nodes = (nt_nodes s)[i := fst r],
      nt_wire = nt_wire s @ broadcast (length (nt_nodes s)) i (emitted (snd r))\<rparr>"

definition net_hand_over :: "nat \<Rightarrow> jframe option \<Rightarrow> network \<Rightarrow> network" where
  "net_hand_over j r s =
     (case r of
        None \<Rightarrow> s
      | Some f \<Rightarrow> s\<lparr>nt_nodes := (nt_nodes s)[j := receive f (nt_nodes s ! j)]\<rparr>)"

text \<open>
  A claimer's thread runs on, a frame arrives, a frame arrives that the decoder rejects, or
  somebody else sends a frame.
\<close>

inductive net_step :: "(u32 \<Rightarrow> bytes \<Rightarrow> jframe option res) \<Rightarrow> network \<Rightarrow> network \<Rightarrow> bool" for get where
  wake: "i < length (nt_nodes s) \<Longrightarrow> exec_step elapsed (nt_nodes s ! i) = Inr r \<Longrightarrow>
    net_step get s (net_wake i r s)"
| deliver: "nt_wire s = w1 @ (j, cf) # w2 \<Longrightarrow> j < length (nt_nodes s) \<Longrightarrow> onRcv get cf = Inr r \<Longrightarrow>
    net_step get s (net_hand_over j r (s\<lparr>nt_wire := w1 @ w2\<rparr>))"
| reject: "nt_wire s = w1 @ (j, cf) # w2 \<Longrightarrow> onRcv get cf = Inl e \<Longrightarrow>
    net_step get s (s\<lparr>nt_wire := w1 @ w2\<rparr>)"
| other: "net_step get s (s\<lparr>nt_wire := nt_wire s @ [(j, cf)]\<rparr>)"

inductive_cases net_stepE: "net_step get s s'"

inductive net_reach :: "(u32 \<Rightarrow> bytes \<Rightarrow> jframe option res) \<Rightarrow> network \<Rightarrow> network \<Rightarrow> bool" for get s0 where
  init: "net_reach get s0 s0"
| step: "net_reach get s0 s \<Longrightarrow> net_step get s s' \<Longrightarrow> net_reach get s0 s'"

definition quiet :: "network \<Rightarrow> bool" where
  "quiet s \<longleftrightarrow> nt_wire s = [] \<and> (\<forall>c \<in> set (nt_nodes s). mFrames c = [])"

text \<open>The same as a function of a schedule, for runs that can be computed.\<close>

datatype net_event = Wake nat int | Deliver nat

definition net_exec :: "(u32 \<Rightarrow> bytes \<Rightarrow> jframe option res) \<Rightarrow> net_event \<Rightarrow> network \<Rightarrow> network option" where
  "net_exec get ev s =
     (case ev of
        Wake i elapsed \<Rightarrow>
          if i < length (nt_nodes s)
          then (case exec_step elapsed (nt_nodes s ! i) of Inl e \<Rightarrow> None | Inr r \<Rightarrow> Some (net_wake i r s))
          else None
      | Deliver k \<Rightarrow>
          if k < length (nt_wire s) \<and> fst (nt_wire s ! k) < length (nt_nodes s)
          then (case onRcv get (snd (nt_wire s ! k)) of
                  Inl e \<Rightarrow> None
                | Inr r \<Rightarrow> Some (net_hand_over (fst (nt_wire s ! k)) r
                    (s\<lparr>nt_wire := take k (nt_wire s) @ drop (Suc k) (nt_wire s)\<rparr>)))
          else None)"

fun net_run :: "(u32 \<Rightarrow> bytes \<Rightarrow> jframe option res) \<Rightarrow> net_event list \<Rightarrow> network \<Rightarrow> network option" where
  "net_run get [] s = Some s"
| "net_run get (ev # evs) s = (case net_exec get ev s of None \<Rightarrow> None | Some s' \<Rightarrow> net_run get evs s')"

lemma net_exec_step: "net_exec get ev s = Some s' \<Longrightarrow> net_step get s s'"
proof (cases ev)
  case (Deliver k)
  assume e: "net_exec get ev s = Some s'"
  then have k: "k < length (nt_wire s)" by (auto simp: net_exec_def Deliver split: if_splits)
  have "nt_wire s = take k (nt_wire s) @ (fst (nt_wire s ! k), snd (nt_wire s ! k)) # drop (Suc k) (nt_wire s)"
    using id_take_nth_drop [OF k] by simp
  from net_step.deliver [OF this] e show ?thesis
    by (auto simp: net_exec_def Deliver split: if_splits sum.splits)
qed (auto simp: net_exec_def intro: net_step.wake split: if_splits sum.splits)

lemma net_run_reach: "net_run get evs s = Some s' \<Longrightarrow> net_reach get s0 s \<Longrightarrow> net_reach get s0 s'"
proof (induction evs arbitrary: s)
  case (Cons ev evs)
  then obtain s1 where s1: "net_exec get ev s = Some s1" "net_run get evs s1 = Some s'"
    by (auto split: option.splits)
  from net_reach.step [OF Cons.prems(2) net_exec_step [OF s1(1)]] Cons.IH s1(2) show ?case by blast
qed simp

section \<open>What a bus must provide\<close>

text \<open>
  A received frame has the class of its PGN and an identifier that tells its PGN, and a claim comes
  out as a claim for the same address.
\<close>

locale claim_bus = frame_provider get delivers
  for get :: "u32 \<Rightarrow> bytes \<Rightarrow> jframe option res" and delivers :: "jframe \<Rightarrow> jframe \<Rightarrow> bool" +
  assumes get_class: "get ident bs = Inr (Some f) \<Longrightarrow> class_ok f \<and> id_pgn (getIdentifier f) = mPgn f"
    and claim_delivered: "ecu_valid name \<Longrightarrow> \<exists>f. delivers (claim_frame name a) f \<and> claims a f"
begin

lemma toBeHandled_claims: "claims a f \<Longrightarrow> claimer_toBeHandled f = Inr True"
  by (simp add: claims_def claimer_toBeHandled_def)

lemma claim_arrives:
  assumes "ecu_valid name"
  shows "\<exists>cf f. my_sendFrame (claim_frame name a) = Inr cf \<and> onRcv get cf = Inr (Some f) \<and> claims a f"
proof -
  obtain f where f: "delivers (claim_frame name a) f" "claims a f" using claim_delivered [OF assms] by blast
  have l: "jframe_getDataLength (claim_frame name a) = 8"
    by (simp add: jframe_getDataLength_def claimer_simps addrclaim_getDataLength_def)
  obtain bs where e: "jframe_encode (claim_frame name a) 8 = Inr (getIdentifier (claim_frame name a), bs, 8)"
    and bs: "length bs = 8" using delivered_encodes [OF f(1)] l by auto
  have "get (getIdentifier (claim_frame name a)) bs = Inr (Some f)"
    using get_encoded [OF f(1), unfolded l, OF e] bs by simp
  then show ?thesis
    using e bs l f(2) toBeHandled_claims [OF f(2)]
    by (simp add: my_sendFrame_def onRcv_def CanFrame_of_def cf_setData_def)
qed

lemma onRcv_class: "onRcv get cf = Inr (Some f) \<Longrightarrow> class_ok f \<and> id_pgn (getIdentifier f) = mPgn f"
  by (auto simp: onRcv_def res_bind_Inr_iff split: option.splits if_splits dest: get_class)

end

section \<open>A step of one claimer\<close>

text \<open>After a step a claimer holds an address only if it has just claimed it on the bus, or held it
  before and has read no claim for it.\<close>

lemma exec_step_holds:
  assumes "claimer_ok name pref c" and "exec_step e c = Inr (c', outs)" and "holds a c'"
  shows "sendFrame (claim_frame (mEcuName c) a) \<in> set outs
    \<or> holds a c \<and> (\<forall>(i, f) \<in> set (mFrames c). claims a f \<longrightarrow> (i, f) \<in> set (mFrames c'))"
proof -
  have q: "queue_ok (mFrames c)" and n: "mEcuName c = name" using assms(1) by (simp_all add: claimer_ok_def)
  show ?thesis
    using q
  proof (cases rule: exec_step_cases [where e = e])
    case claim
    then show ?thesis
      using assms(2,3) by (auto simp: claimAddressStep_def flush_def next_address_eq holds_def
          split: if_splits)
  next
    case (wait pos b t f m left)
    then show ?thesis using assms(2,3) by (auto simp: holds_def taken_def)
  next
    case (obtained pos b t frame m)
    then show ?thesis using assms(2,3) by (auto simp: holds_def taken_def split: option.splits)
  next
    case (contend pos b t f m other)
    then show ?thesis
      using assms by (auto simp: holds_def try_address_def next_address_eq claimer_ok_def split: if_splits)
  next
    case (idle frame m outs')
    then show ?thesis using assms(2,3) by (auto simp: holds_def taken_def split: option.splits)
  next
    case (defend f m other)
    then show ?thesis using assms(2,3) by (auto simp: holds_def split: if_splits)
  qed
qed

section \<open>No two claimers keep an address\<close>

definition queue_ids :: "(u32, jframe) smap \<Rightarrow> bool" where
  "queue_ids m \<longleftrightarrow> (\<forall>(i, f) \<in> set m. id_pgn i = mPgn f)"

definition node_ok :: "claimer \<Rightarrow> bool" where
  "node_ok c \<longleftrightarrow> (\<exists>name pref. claimer_ok name pref c \<and> ecu_valid name) \<and> queue_ids (mFrames c)"

lemma node_ok_step:
  assumes "node_ok c" and "exec_step e c = Inr (c', outs)"
  shows "node_ok c'"
proof -
  obtain name pref where ok: "claimer_ok name pref c" "ecu_valid name"
    using assms(1) by (auto simp: node_ok_def)
  have q: "queue_ok (mFrames c)" using ok by (simp add: claimer_ok_def)
  have sub: "set m \<subseteq> set (mFrames c)" if "taken (mFrames c) frame m" for frame m
    using that by (auto simp: taken_def split: option.splits)
  have "set (mFrames c') \<subseteq> set (mFrames c)"
    using q
  proof (cases rule: exec_step_cases [where e = e])
    case claim
    then show ?thesis using assms(2) by (simp add: claimAddressStep_def flush_def next_address_eq split: if_splits)
  next
    case (wait pos a t f m left)
    then show ?thesis using assms(2) sub by auto
  next
    case (obtained pos a t frame m)
    then show ?thesis using assms(2) sub by auto
  next
    case (contend pos a t f m other)
    then show ?thesis
      using assms(2) sub by (simp add: try_address_def next_address_eq split: if_splits)
  next
    case (idle frame m outs')
    then show ?thesis using assms(2) sub by auto
  next
    case (defend f m other)
    then show ?thesis using assms(2) sub by (simp split: if_splits)
  qed
  then have "queue_ids (mFrames c')" using assms(1) by (auto simp: node_ok_def queue_ids_def)
  moreover have "claimer_ok name pref c'" using exec_step_ok [OF ok(1), of e] assms(2) by simp
  ultimately show ?thesis using ok(2) unfolding node_ok_def by blast
qed

lemma holds_receive [simp]: "holds a (receive f c) = holds a c"
  by (cases "mLocation c") (simp_all add: holds_def receive_def)

lemma node_ok_receive:
  assumes "node_ok c" and "class_ok f" and "id_pgn (getIdentifier f) = mPgn f"
  shows "node_ok (receive f c)"
proof -
  obtain name pref where ok: "claimer_ok name pref c" "ecu_valid name" and q: "queue_ids (mFrames c)"
    using assms(1) by (auto simp: node_ok_def)
  have m: "smap_ok (mFrames c)" using ok(1) by (simp add: claimer_ok_def queue_ok_def)
  have "claimer_ok name pref (receive f c)"
    by (rule claimer_step_ok [OF claimer_step.receive [OF assms(2)] ok(1)])
  moreover have "queue_ids (mFrames (receive f c))"
    using q assms(3) m by (auto simp: receive_def queue_ids_def set_smap_put)
  ultimately show ?thesis using ok(2) unfolding node_ok_def by blast
qed

text \<open>A claim waiting to be read, or under way; a later frame with the same identifier replaces it in the
  queue, but that is a claim for the same address.\<close>

definition claim_waiting :: "u8 \<Rightarrow> claimer \<Rightarrow> bool" where
  "claim_waiting a c \<longleftrightarrow> (\<exists>(i, f) \<in> set (mFrames c). claims a f)"

lemma claim_waiting_receive:
  assumes "node_ok c" and "id_pgn (getIdentifier g) = mPgn g" and "claim_waiting a c \<or> claims a g"
  shows "claim_waiting a (receive g c)"
proof (cases "claims a g")
  case True
  have "(getIdentifier g, g) \<in> set (mFrames (receive g c))"
    using assms(1) by (auto simp: receive_def set_smap_put node_ok_def claimer_ok_def queue_ok_def)
  with True show ?thesis by (auto simp: claim_waiting_def)
next
  case False
  then obtain f where f: "(getIdentifier f, f) \<in> set (mFrames c)" "claims a f"
    using assms(1,3) by (fastforce simp: claim_waiting_def node_ok_def claimer_ok_def queue_ok_def)
  have "getIdentifier f \<noteq> getIdentifier g"
  proof
    assume eq: "getIdentifier f = getIdentifier g"
    have "mPgn f = id_pgn (getIdentifier f)" using f(1) assms(1) by (auto simp: node_ok_def queue_ids_def)
    then have "mPgn g = ADDRESS_CLAIM_PGN" using f(2) assms(2) eq by (simp add: claims_def)
    moreover have "mSrcAddr g = a"
      using getIdentifier_src [of f] getIdentifier_src [of g] eq f(2) by (simp add: claims_def)
    ultimately show False using False by (simp add: claims_def)
  qed
  then have "(getIdentifier f, f) \<in> set (mFrames (receive g c))"
    using f(1) assms(1) by (auto simp: receive_def set_smap_put node_ok_def claimer_ok_def queue_ok_def)
  then show ?thesis using f(2) by (auto simp: claim_waiting_def)
qed

lemma emitted_claim:
  "sendFrame f \<in> set outs \<Longrightarrow> my_sendFrame f = Inr cf \<Longrightarrow> cf \<in> set (emitted outs)"
  by (induction outs rule: emitted.induct) (auto split: sum.splits)

lemma broadcast_mem:
  "(j, cf) \<in> set (broadcast n i cfs) \<longleftrightarrow> j < n \<and> j \<noteq> i \<and> cf \<in> set cfs"
  by (auto simp: broadcast_def)

context claim_bus
begin

definition pending :: "u8 \<Rightarrow> network \<Rightarrow> nat \<Rightarrow> bool" where
  "pending a s j \<longleftrightarrow> claim_waiting a (nt_nodes s ! j)
     \<or> (\<exists>cf f. (j, cf) \<in> set (nt_wire s) \<and> onRcv get cf = Inr (Some f) \<and> claims a f)"

definition net_ok :: "u8 \<Rightarrow> network \<Rightarrow> bool" where
  "net_ok a s \<longleftrightarrow> (\<forall>c \<in> set (nt_nodes s). node_ok c)
     \<and> (\<forall>i < length (nt_nodes s). \<forall>j < length (nt_nodes s). i \<noteq> j \<longrightarrow>
          holds a (nt_nodes s ! i) \<longrightarrow> holds a (nt_nodes s ! j) \<longrightarrow> pending a s i \<or> pending a s j)"

lemma net_ok_node: "net_ok a s \<Longrightarrow> i < length (nt_nodes s) \<Longrightarrow> node_ok (nt_nodes s ! i)"
  by (simp add: net_ok_def)

lemma pending_wake:
  "k \<noteq> i \<Longrightarrow> pending a s k \<Longrightarrow> pending a (net_wake i r s) k"
  by (auto simp: pending_def net_wake_def)

text \<open>The claimer that ran: either the others are about to hear of it, or it still has to read what it had
  to read before.\<close>

lemma wake_pending:
  assumes ok: "net_ok a s" and i: "i < length (nt_nodes s)"
    and ex: "exec_step e (nt_nodes s ! i) = Inr r" and h: "holds a (fst r)"
    and k: "k < length (nt_nodes s)" "k \<noteq> i" "holds a (nt_nodes s ! k)"
  shows "pending a (net_wake i r s) i \<or> pending a (net_wake i r s) k"
proof -
  obtain name pref where n: "claimer_ok name pref (nt_nodes s ! i)" "ecu_valid name"
    using net_ok_node [OF ok i] by (auto simp: node_ok_def)
  have name: "mEcuName (nt_nodes s ! i) = name" using n(1) by (simp add: claimer_ok_def)
  show ?thesis
  proof (cases "sendFrame (claim_frame name a) \<in> set (snd r)")
    case True
    obtain cf f where cf: "my_sendFrame (claim_frame name a) = Inr cf" "onRcv get cf = Inr (Some f)" "claims a f"
      using claim_arrives [OF n(2)] by blast
    have "(k, cf) \<in> set (nt_wire (net_wake i r s))"
      using emitted_claim [OF True cf(1)] k by (simp add: net_wake_def broadcast_mem)
    with cf show ?thesis by (auto simp: pending_def)
  next
    case False
    with exec_step_holds [OF n(1), of e "fst r" "snd r" a] ex h name
    have old: "holds a (nt_nodes s ! i)"
      and kept: "\<forall>(j, f) \<in> set (mFrames (nt_nodes s ! i)). claims a f \<longrightarrow> (j, f) \<in> set (mFrames (fst r))"
      by auto
    from ok i k old have "pending a s i \<or> pending a s k" by (auto simp: net_ok_def)
    moreover have "pending a (net_wake i r s) i" if "pending a s i"
      using that kept i by (fastforce simp: pending_def net_wake_def claim_waiting_def)
    ultimately show ?thesis using pending_wake k(2) by blast
  qed
qed

lemma net_ok_wake:
  assumes "net_ok a s" and "i < length (nt_nodes s)" and "exec_step e (nt_nodes s ! i) = Inr r"
  shows "net_ok a (net_wake i r s)"
proof -
  let ?s = "net_wake i r s"
  have nodes: "nt_nodes ?s = (nt_nodes s)[i := fst r]" by (simp add: net_wake_def)
  have "node_ok (fst r)"
    using node_ok_step [OF net_ok_node [OF assms(1,2)], of e "fst r" "snd r"] assms(3) by simp
  then have ok: "\<forall>c \<in> set (nt_nodes ?s). node_ok c"
    using assms(1) set_update_subset_insert [of "nt_nodes s" i "fst r"]
    by (auto simp: net_ok_def nodes)
  have "pending a ?s j \<or> pending a ?s k"
    if "j < length (nt_nodes s)" "k < length (nt_nodes s)" "j \<noteq> k"
      and "holds a (nt_nodes ?s ! j)" "holds a (nt_nodes ?s ! k)" for j k
  proof -
    consider "j = i" | "k = i" | "j \<noteq> i" "k \<noteq> i" by blast
    then show ?thesis
    proof cases
      case 3
      then have "pending a s j \<or> pending a s k" using that assms(1) by (simp add: net_ok_def nodes)
      with 3 show ?thesis using pending_wake by blast
    next
      case 1
      then have "holds a (fst r)" "holds a (nt_nodes s ! k)"
        using that assms(2) by (simp_all add: nodes)
      then show ?thesis using wake_pending [OF assms _ that(2)] that(3) 1 by simp
    next
      case 2
      then have "holds a (fst r)" "holds a (nt_nodes s ! j)"
        using that assms(2) by (simp_all add: nodes)
      then show ?thesis using wake_pending [OF assms _ that(1)] that(3) 2 by blast
    qed
  qed
  with ok show ?thesis by (simp add: net_ok_def nodes)
qed

lemma net_ok_deliver:
  assumes ok: "net_ok a s" and w: "nt_wire s = w1 @ (j, cf) # w2" and j: "j < length (nt_nodes s)"
    and r: "onRcv get cf = Inr r"
  shows "net_ok a (net_hand_over j r (s\<lparr>nt_wire := w1 @ w2\<rparr>))"
proof -
  let ?s = "net_hand_over j r (s\<lparr>nt_wire := w1 @ w2\<rparr>)"
  let ?c = "case r of None \<Rightarrow> nt_nodes s ! j | Some f \<Rightarrow> receive f (nt_nodes s ! j)"
  have nodes: "nt_nodes ?s = (nt_nodes s)[j := ?c]" and wire: "nt_wire ?s = w1 @ w2"
    by (simp_all add: net_hand_over_def split: option.split)
  have c: "node_ok ?c"
    using net_ok_node [OF ok j] onRcv_class r by (auto intro: node_ok_receive split: option.split)
  then have nok: "\<forall>c \<in> set (nt_nodes ?s). node_ok c"
    using ok set_update_subset_insert [of "nt_nodes s" j ?c] by (auto simp: net_ok_def nodes)
  have holds: "holds a (nt_nodes ?s ! k) \<longleftrightarrow> holds a (nt_nodes s ! k)" for k
    using j by (auto simp: nodes nth_list_update split: option.split)
  have pend: "pending a ?s k" if "pending a s k" "k < length (nt_nodes s)" for k
  proof (cases "k = j")
    case False
    then show ?thesis using that w by (auto simp: pending_def nodes wire)
  next
    case True
    have "claim_waiting a ?c \<or> (\<exists>cf f. (j, cf) \<in> set (w1 @ w2) \<and> onRcv get cf = Inr (Some f) \<and> claims a f)"
      using that(1) r claim_waiting_receive [OF net_ok_node [OF ok j]] onRcv_class
      unfolding pending_def True w by (auto split: option.splits)
    then show ?thesis using j by (auto simp: pending_def True nodes wire)
  qed
  have len: "length (nt_nodes ?s) = length (nt_nodes s)" by (simp add: nodes)
  from ok nok show ?thesis unfolding net_ok_def len holds using pend by blast
qed

lemma net_ok_step:
  assumes "net_step get s s'" and "net_ok a s"
  shows "net_ok a s'"
  using assms(1)
proof (cases rule: net_step.cases)
  case (wake i elapsed r)
  then show ?thesis using net_ok_wake [OF assms(2)] by simp
next
  case (deliver w1 j cf w2 r)
  then show ?thesis using net_ok_deliver [OF assms(2)] by simp
next
  case (reject w1 j cf w2 e)
  then have "pending a s k \<Longrightarrow> pending a s' k" for k by (auto simp: pending_def)
  with assms(2) reject(1) show ?thesis by (fastforce simp: net_ok_def)
next
  case (other j cf)
  then have "pending a s k \<Longrightarrow> pending a s' k" for k by (auto simp: pending_def)
  with assms(2) other show ?thesis by (fastforce simp: net_ok_def)
qed

lemma net_ok_init:
  "(\<And>c. c \<in> set cs \<Longrightarrow> \<exists>name pref. ecu_valid name \<and> AddressClaimer name pref = Inr c) \<Longrightarrow>
     net_ok a (net_init cs)"
proof -
  assume a: "\<And>c. c \<in> set cs \<Longrightarrow> \<exists>name pref. ecu_valid name \<and> AddressClaimer name pref = Inr c"
  have "node_ok c \<and> \<not> holds a c" if "c \<in> set cs" for c
  proof -
    obtain name pref where n: "ecu_valid name" "AddressClaimer name pref = Inr c"
      using a \<open>c \<in> set cs\<close> by blast
    have "mFrames c = []" "mLocation c = ClaimStart"
      using n(2) by (auto simp: AddressClaimer_def split: if_splits)
    with n AddressClaimer_ok [OF n(2)] show ?thesis by (auto simp: node_ok_def queue_ids_def holds_def)
  qed
  then show ?thesis by (auto simp: net_ok_def net_init_def)
qed

lemma exclusive:
  assumes "net_reach get (net_init cs) s"
    and "\<And>c. c \<in> set cs \<Longrightarrow> \<exists>name pref. ecu_valid name \<and> AddressClaimer name pref = Inr c"
    and "quiet s" and "i < length (nt_nodes s)" and "j < length (nt_nodes s)" and "i \<noteq> j"
    and "holds a (nt_nodes s ! i)"
  shows "\<not> holds a (nt_nodes s ! j)"
proof -
  have "net_ok a s" using assms(1)
    by (induction rule: net_reach.induct) (auto intro: net_ok_init assms(2) net_ok_step)
  moreover have "\<not> pending a s k" if "k < length (nt_nodes s)" for k
    using assms(3) that by (auto simp: quiet_def pending_def claim_waiting_def)
  ultimately show ?thesis using assms(4-7) by (auto simp: net_ok_def)
qed

end

section \<open>The factory is such a bus\<close>

definition default_factory :: "nat \<Rightarrow> factory" where
  "default_factory ref = (case J1939Factory ref of Inl e \<Rightarrow> [] | Inr m \<Rightarrow> m)"

lemma id_pgn_decodable: "pgn_decodable (id_pgn ident)"
proof -
  have m: "(0x3FFFF :: u32) = mask 18" by (simp add: mask_eq_exp_minus_1)
  have "id_pgn ident AND mask 18 = id_pgn ident"
    by (rule bit_word_eqI) (auto simp: id_pgn_def id_pgn_bits_def m bit_simps)
  then have "id_pgn ident < 2 ^ 18" using and_mask_less' [of 18 "id_pgn ident"] by simp
  moreover have "id_pgn ident AND push_bit 8 0xFF = id_pgn ident" if "getPDUFormatGroup (id_pgn ident) = PDU_FORMAT_1"
  proof -
    have "id_group1 ident"
      using that by (auto simp: group1_iff id_pgn_def id_group1_def split: if_splits)
    then show ?thesis by (simp only: id_pgn_def if_True and.assoc and.idem)
  qed
  ultimately show ?thesis by (simp add: pgn_decodable_def)
qed

lemma default_factory_ok: "factory_ok (default_factory ref)"
  using J1939Factory_ok [of ref] by (auto simp: default_factory_def)

lemma default_factory_claim:
  "smap_find (default_factory ref) ADDRESS_CLAIM_PGN
     = Some (as_frame AddrClaim (AddressClaimFrame EcuName_init))"
proof -
  obtain f where f: "DM1 ref = Inr f" "mPgn f = DM1_PGN" using DM1_Inr by blast
  then show ?thesis
    by (auto simp: default_factory_def J1939Factory_def registerPredefinedFrames_def Let_def
        registerFrame_def TPCMFrame_def TPDTFrame_def FMS1Frame_def AddressClaimFrame_def
        RequestFrame_def smap_find_put)
qed

interpretation default_bus: claim_bus "getJ1939Frame (default_factory ref)"
  "factory_delivers (default_factory ref)" for ref
proof unfold_locales
  fix ident bs f
  assume "getJ1939Frame (default_factory ref) ident bs = Inr (Some f)"
  from getJ1939Frame_class_ok [OF default_factory_ok this]
  show "class_ok f \<and> id_pgn (getIdentifier f) = mPgn f"
    using getIdentifier_pgn [of f] id_pgn_decodable [of ident] by simp
next
  fix name a
  assume "ecu_valid name"
  then have "factory_delivers (default_factory ref) (claim_frame name a)
      (received (as_frame AddrClaim (AddressClaimFrame EcuName_init)) (claim_frame name a)
         (AddrClaim name))"
    using default_factory_claim
    by (simp add: factory_delivers_def claimer_simps hdr_ok_def pgn_decodable_def push_bit_eq_mult
        AddressClaimFrame_def)
  moreover have "claims a (received (as_frame AddrClaim (AddressClaimFrame EcuName_init))
      (claim_frame name a) (AddrClaim name))"
    by (simp add: claims_def claimer_simps AddressClaimFrame_def)
  ultimately show "\<exists>f. factory_delivers (default_factory ref) (claim_frame name a) f \<and> claims a f"
    by blast
qed

section \<open>Properties\<close>

text \<open>C2: Any number of claimers on a bus, with any other traffic and any delays: once nothing is under way or
  waiting to be read, no two of them serve the same address (other than the null address 254). Their NAMEs need not even differ.\<close>

theorem addresses_exclusive:
  assumes "\<And>c. c \<in> set cs \<Longrightarrow> \<exists>name preferred. ecu_valid name \<and> AddressClaimer name preferred = Inr c"
    and "net_reach (getJ1939Frame (default_factory ref)) (net_init cs) s" and "quiet s"
    and "i < length (nt_nodes s)" and "j < length (nt_nodes s)" and "i \<noteq> j"
    and "mLocation (nt_nodes s ! i) = Serving" and "mLocation (nt_nodes s ! j) = Serving"
    and "mCurrentSrc (nt_nodes s ! j) \<noteq> J1939_INVALID_ADDRESS"
  shows "mCurrentSrc (nt_nodes s ! i) \<noteq> mCurrentSrc (nt_nodes s ! j)"
  using default_bus.exclusive [OF assms(2,1,3-6), of "mCurrentSrc (nt_nodes s ! j)"] assms(7-9)
  by (auto simp: holds_def)

text \<open>Two claimers want the same address; the one with the lower NAME gets it, the other its second
  choice.\<close>

definition two_claimers :: "claimer list" where
  "two_claimers = [fresh_claimer 9 [0x80, 0x81], fresh_claimer 7 [0x80, 0x81]]"

definition two_schedule :: "net_event list" where
  "two_schedule =
     [Wake 0 0, Wake 1 0, Deliver 0, Deliver 0, Wake 1 3, Wake 0 5, Deliver 0, Deliver 0,
      Wake 0 7, Wake 1 11, Wake 0 250, Wake 1 250]"

definition settled :: network where
  "settled = \<lparr>nt_nodes =
     [\<lparr>mFrames = [], mPreferred = [0x80, 0x81], mEcuName = plain_name 9, mCurrentSrc = 0x81,
       mLocation = Serving\<rparr>,
      \<lparr>mFrames = [], mPreferred = [0x81, 0x80], mEcuName = plain_name 7, mCurrentSrc = 0x80,
       mLocation = Serving\<rparr>], nt_wire = []\<rparr>"

lemma fresh_claimer_made:
  "i < 2 ^ 21 \<Longrightarrow>
     ecu_valid (plain_name i) \<and> AddressClaimer (plain_name i) (p # ps) = Inr (fresh_claimer i (p # ps))"
  by (simp add: ecu_valid_def plain_name_def EcuName_init_def AddressClaimer_def fresh_claimer_def)

lemma two_run:
  "net_run (getJ1939Frame (default_factory 0)) two_schedule (net_init two_claimers) = Some settled"
  by code_simp

theorem addresses_exclusive_witness:
  "mCurrentSrc (nt_nodes settled ! 0) \<noteq> mCurrentSrc (nt_nodes settled ! 1)"
proof (rule addresses_exclusive [of two_claimers 0 settled])
  show "net_reach (getJ1939Frame (default_factory 0)) (net_init two_claimers) settled"
    using two_run net_reach.init by (rule net_run_reach)
  fix c assume "c \<in> set two_claimers"
  then show "\<exists>name preferred. ecu_valid name \<and> AddressClaimer name preferred = Inr c"
    using fresh_claimer_made [of 9 "0x80" "[0x81]"] fresh_claimer_made [of 7 "0x80" "[0x81]"]
    by (auto simp: two_claimers_def)
qed (simp_all add: settled_def quiet_def)

end
