(* ===== verification/CanSender.thy ===== *)
theory CanSender
  imports Can
begin

text \<open>
  \<open>CommonCanSender\<close> (\<open>CAN/CommonCanSender.cpp\<close>): rings of frames, each sent cyclically so that one
  round takes its period. The registering calls and one pass of the sending thread over the rings
  exclude each other with a lock, so they are functions on the list of rings. A ring is known by the
  identifiers of its frames; the locale \<open>periodic_sender\<close> is what a client of \<open>ICanSender\<close> relies on.
\<close>

section \<open>CanFrameRing\<close>

text \<open>A callback gets the identifier and an empty string and fills in the data.\<close>

type_synonym callback = "u32 \<Rightarrow> bytes"

record ring =
  rg_mFrames :: "CanFrame list"
  rg_mTxTimestamp :: timespec
  rg_mPeriod :: u32
  rg_mCurrentpos :: nat
  rg_mCallback :: "callback option"

definition CanFrameRing :: "u32 \<Rightarrow> callback option \<Rightarrow> ring" where
  "CanFrameRing period callback =
     \<lparr>rg_mFrames = [], rg_mTxTimestamp = \<lparr>tv_sec = 0, tv_nsec = 0\<rparr>, rg_mPeriod = period,
      rg_mCurrentpos = 0, rg_mCallback = callback\<rparr>"

definition setFrames :: "CanFrame list \<Rightarrow> ring \<Rightarrow> ring" where
  "setFrames frames r = r\<lparr>rg_mFrames := frames, rg_mCurrentpos := 0\<rparr>"

definition pushFrame :: "CanFrame \<Rightarrow> ring \<Rightarrow> ring" where
  "pushFrame frame r = r\<lparr>rg_mFrames := rg_mFrames r @ [frame], rg_mCurrentpos := 0\<rparr>"

definition shift :: "ring \<Rightarrow> ring" where
  "shift r =
     (if rg_mCurrentpos r = length (rg_mFrames r) then r
      else if rg_mCurrentpos r + 1 = length (rg_mFrames r) then r\<lparr>rg_mCurrentpos := 0\<rparr>
      else r\<lparr>rg_mCurrentpos := rg_mCurrentpos r + 1\<rparr>)"

text \<open>The arithmetic is in \<open>size_t\<close>, where nothing wraps; the result is put into a \<open>u32\<close>.\<close>

definition getCurrentPeriod :: "ring \<Rightarrow> u32" where
  "getCurrentPeriod r =
     (let n = length (rg_mFrames r); p = unat (rg_mPeriod r)
      in if n = 0 then 0
         else if rg_mCurrentpos r + 1 = n then of_nat (p - (p div n) * (n - 1))
         else of_nat (p div n))"

definition getCurrentFrame :: "ring \<Rightarrow> CanFrame res" where
  "getCurrentFrame r =
     (if rg_mCurrentpos r < length (rg_mFrames r) then Inr (rg_mFrames r ! rg_mCurrentpos r)
      else Inl UndefinedBehaviour)"

section \<open>The sending thread\<close>

text \<open>\<open>abs\<close> of a \<open>u32\<close>, which is converted to \<open>int\<close> first.\<close>

definition abs_elapsed :: "timespec \<Rightarrow> timespec \<Rightarrow> u32" where
  "abs_elapsed start stop = word_of_int \<bar>sint (getElapsedMillis start stop)\<bar>"

definition ring_due :: "timespec \<Rightarrow> ring \<Rightarrow> bool" where
  "ring_due now r \<longleftrightarrow>
     (let start = rg_mTxTimestamp r
      in (tv_nsec start = 0 \<and> tv_sec start = 0) \<or> abs_elapsed start now \<ge> getCurrentPeriod r)"

text \<open>The frame as the callback leaves it in the ring.\<close>

definition frame_to_send :: "callback option \<Rightarrow> CanFrame \<Rightarrow> CanFrame" where
  "frame_to_send callback f =
     (case callback of None \<Rightarrow> f | Some cb \<Rightarrow> snd (cf_setData (cb (cf_mId f)) f))"

definition ring_send :: "timespec \<Rightarrow> ring \<Rightarrow> (CanFrame \<times> ring) res" where
  "ring_send now r =
     res_bind (getCurrentFrame r) (\<lambda>f.
       let toSend = frame_to_send (rg_mCallback r) f;
           r1 = shift (r\<lparr>rg_mFrames := (rg_mFrames r)[rg_mCurrentpos r := toSend]\<rparr>);
           current = addMillis (rg_mTxTimestamp r) (getCurrentPeriod r1);
           elapsed = abs_elapsed current now
       in Inr (toSend, r1\<lparr>rg_mTxTimestamp := (if elapsed < getCurrentPeriod r1 then current else now)\<rparr>))"

definition ring_tick :: "timespec \<Rightarrow> ring \<Rightarrow> (CanFrame list \<times> ring) res" where
  "ring_tick now r =
     (if ring_due now r then res_bind (ring_send now r) (\<lambda>(f, r'). Inr ([f], r')) else Inr ([], r))"

text \<open>One pass over the rings, with the frames it gives to the back end in order.\<close>

fun run_pass :: "timespec \<Rightarrow> ring list \<Rightarrow> (CanFrame list \<times> ring list) res" where
  "run_pass now [] = Inr ([], [])"
| "run_pass now (r # rs) =
     res_bind (ring_tick now r) (\<lambda>(fs, r').
       res_bind (run_pass now rs) (\<lambda>(fs', rs'). Inr (fs @ fs', r' # rs')))"

section \<open>Registering\<close>

text \<open>The first ring with just these identifiers, in this order.\<close>

definition ring_matches :: "u32 list \<Rightarrow> ring \<Rightarrow> bool" where
  "ring_matches ids r \<longleftrightarrow>
     length (rg_mFrames r) = length ids \<and> list_all2 (\<lambda>f i. cf_mId f = i) (rg_mFrames r) ids"

fun erase_ring :: "u32 list \<Rightarrow> ring list \<Rightarrow> ring list" where
  "erase_ring ids [] = []"
| "erase_ring ids (r # rs) = (if ring_matches ids r then rs else r # erase_ring ids rs)"

definition sendFrames :: "CanFrame list \<Rightarrow> u32 \<Rightarrow> callback option \<Rightarrow> ring list \<Rightarrow> bool \<times> ring list" where
  "sendFrames frames period callback rings =
     (if frames = [] then (False, rings)
      else (True, erase_ring (map cf_mId frames) rings
                  @ [setFrames frames (CanFrameRing period callback)]))"

definition sendFrame :: "CanFrame \<Rightarrow> u32 \<Rightarrow> callback option \<Rightarrow> ring list \<Rightarrow> bool \<times> ring list" where
  "sendFrame frame period callback rings = (True, snd (sendFrames [frame] period callback rings))"

definition unSendFrames :: "u32 list \<Rightarrow> ring list \<Rightarrow> ring list" where
  "unSendFrames ids rings = erase_ring ids rings"

definition unSendFrame :: "u32 \<Rightarrow> ring list \<Rightarrow> ring list" where
  "unSendFrame i rings = unSendFrames [i] rings"

fun isSent :: "u32 list \<Rightarrow> ring list \<Rightarrow> bool" where
  "isSent ids [] = False"
| "isSent ids (r # rs) = (if ring_matches ids r then True else isSent ids rs)"

definition isSent_id :: "u32 \<Rightarrow> ring list \<Rightarrow> bool" where
  "isSent_id i rings = isSent [i] rings"

section \<open>The contract of a sender\<close>

text \<open>
  \<open>lookup s ids\<close> is what is being sent under these identifiers; sending replaces it, and nothing else
  changes it.
\<close>

locale periodic_sender =
  fixes ok :: "'s \<Rightarrow> bool"
    and lookup :: "'s \<Rightarrow> u32 list \<Rightarrow> 'r option"
    and start :: "CanFrame list \<Rightarrow> 'c \<Rightarrow> 'r"
    and send :: "CanFrame list \<Rightarrow> 'c \<Rightarrow> 's \<Rightarrow> 's"
    and unsend :: "u32 list \<Rightarrow> 's \<Rightarrow> 's"
    and sent :: "u32 list \<Rightarrow> 's \<Rightarrow> bool"
  assumes ok_send: "ok s \<Longrightarrow> ok (send fs c s)"
    and ok_unsend: "ok s \<Longrightarrow> ok (unsend ids s)"
    and lookup_send: "ok s \<Longrightarrow> fs \<noteq> [] \<Longrightarrow>
      lookup (send fs c s) = (lookup s)(map cf_mId fs \<mapsto> start fs c)"
    and lookup_unsend: "ok s \<Longrightarrow> lookup (unsend ids s) = (lookup s)(ids := None)"
    and sent_lookup: "sent ids s \<longleftrightarrow> lookup s ids \<noteq> None"
begin

lemma sent_after_send: "ok s \<Longrightarrow> fs \<noteq> [] \<Longrightarrow>
    sent ids (send fs c s) \<longleftrightarrow> ids = map cf_mId fs \<or> sent ids s"
  by (simp add: sent_lookup lookup_send)

lemma sent_after_unsend: "ok s \<Longrightarrow> sent ids (unsend ids' s) \<longleftrightarrow> ids \<noteq> ids' \<and> sent ids s"
  by (simp add: sent_lookup lookup_unsend)

lemma send_again: "ok s \<Longrightarrow> fs \<noteq> [] \<Longrightarrow> map cf_mId gs = map cf_mId fs \<Longrightarrow>
    lookup (send fs c (send gs d s)) = lookup (send fs c s)"
  by (cases gs) (simp_all add: lookup_send ok_send)

lemma unsend_send: "ok s \<Longrightarrow> fs \<noteq> [] \<Longrightarrow> lookup s (map cf_mId fs) = None \<Longrightarrow>
    lookup (unsend (map cf_mId fs) (send fs c s)) = lookup s"
  by (simp add: lookup_send lookup_unsend ok_send fun_upd_idem)

end

text \<open>The rings provide it as long as no two have the same identifiers.\<close>

definition ring_ids :: "ring \<Rightarrow> u32 list" where
  "ring_ids r = map cf_mId (rg_mFrames r)"

definition ring_ok :: "ring \<Rightarrow> bool" where
  "ring_ok r \<longleftrightarrow> rg_mCurrentpos r < length (rg_mFrames r)"

definition sender_ok :: "ring list \<Rightarrow> bool" where
  "sender_ok rings \<longleftrightarrow> distinct (map ring_ids rings) \<and> (\<forall>r \<in> set rings. ring_ok r)"

fun sent_ring :: "ring list \<Rightarrow> u32 list \<Rightarrow> ring option" where
  "sent_ring [] ids = None"
| "sent_ring (r # rs) ids = (if ring_ids r = ids then Some r else sent_ring rs ids)"

lemma sent_ring_None_iff: "sent_ring rings ids = None \<longleftrightarrow> ids \<notin> ring_ids ` set rings"
  by (induction rings) auto

lemma ring_matches_iff: "ring_matches ids r \<longleftrightarrow> ring_ids r = ids"
  by (auto simp: ring_matches_def ring_ids_def list_all2_conv_all_nth list_eq_iff_nth_eq)

lemma set_erase_ring: "set (erase_ring ids rings) \<subseteq> set rings"
  by (induction rings) auto

lemma distinct_erase_ring: "distinct (map ring_ids rings) \<Longrightarrow> distinct (map ring_ids (erase_ring ids rings))"
  using set_erase_ring by (induction rings) fastforce+

lemma erase_ring_gone: "distinct (map ring_ids rings) \<Longrightarrow> ids \<notin> ring_ids ` set (erase_ring ids rings)"
  by (induction rings) (auto simp: ring_matches_iff)

lemma sent_ring_erase:
  "distinct (map ring_ids rings) \<Longrightarrow> sent_ring (erase_ring ids rings) = (sent_ring rings)(ids := None)"
proof (induction rings)
  case (Cons r rs)
  then have "sent_ring rs (ring_ids r) = None" by (simp add: sent_ring_None_iff)
  with Cons show ?case by (auto simp: ring_matches_iff fun_eq_iff)
qed (simp add: fun_eq_iff)

lemma new_ring:
  "ring_ids (setFrames fs (CanFrameRing p cb)) = map cf_mId fs"
  "fs \<noteq> [] \<Longrightarrow> ring_ok (setFrames fs (CanFrameRing p cb))"
  by (simp_all add: ring_ids_def ring_ok_def setFrames_def CanFrameRing_def)

lemma sent_ring_append:
  "ring_ids r \<notin> ring_ids ` set rings \<Longrightarrow> sent_ring (rings @ [r]) = (sent_ring rings)(ring_ids r \<mapsto> r)"
  by (induction rings) (auto simp: fun_eq_iff)

interpretation rings: periodic_sender sender_ok sent_ring "\<lambda>fs (p, cb). setFrames fs (CanFrameRing p cb)"
  "\<lambda>fs (p, cb) s. snd (sendFrames fs p cb s)" unSendFrames isSent
proof unfold_locales
  fix s :: "ring list" and fs :: "CanFrame list" and c :: "u32 \<times> callback option"
  assume s: "sender_ok s"
  obtain p cb where c: "c = (p, cb)" by force
  have d: "distinct (map ring_ids (erase_ring (map cf_mId fs) s))"
    and g: "map cf_mId fs \<notin> ring_ids ` set (erase_ring (map cf_mId fs) s)"
    using s by (simp_all add: sender_ok_def distinct_erase_ring erase_ring_gone)
  show "sender_ok ((\<lambda>fs (p, cb) s. snd (sendFrames fs p cb s)) fs c s)"
    using s d g set_erase_ring [of "map cf_mId fs" s]
    by (auto simp: c sendFrames_def sender_ok_def new_ring)
  show "sent_ring ((\<lambda>fs (p, cb) s. snd (sendFrames fs p cb s)) fs c s)
      = (sent_ring s)(map cf_mId fs \<mapsto> (\<lambda>fs (p, cb). setFrames fs (CanFrameRing p cb)) fs c)"
    if "fs \<noteq> []"
    using that s g by (simp add: c sendFrames_def sent_ring_append new_ring sent_ring_erase sender_ok_def)
next
  fix s ids
  assume s: "sender_ok s"
  show "sender_ok (unSendFrames ids s)"
    using s set_erase_ring [of ids s] by (auto simp: unSendFrames_def sender_ok_def distinct_erase_ring)
  show "sent_ring (unSendFrames ids s) = (sent_ring s)(ids := None)"
    using s by (simp add: unSendFrames_def sent_ring_erase sender_ok_def)
next
  fix s ids
  show "isSent ids s \<longleftrightarrow> sent_ring s ids \<noteq> None"
    by (induction s) (auto simp: ring_matches_iff)
qed

section \<open>One round of a ring\<close>

lemma shift_mod: "ring_ok r \<Longrightarrow>
    shift r = r\<lparr>rg_mCurrentpos := (rg_mCurrentpos r + 1) mod length (rg_mFrames r)\<rparr>"
  by (auto simp: shift_def ring_ok_def)

lemma period_split: "0 < n \<Longrightarrow> (p div n) * (n - 1) + (p - (p div n) * (n - 1)) = p" for p n :: nat
proof -
  have "(p div n) * (n - 1) \<le> (p div n) * n" by (rule mult_le_mono2) simp
  also have "\<dots> \<le> p" by (rule div_times_less_eq_dividend)
  finally show ?thesis by simp
qed

lemma unat_of_nat_le: "k \<le> unat (p :: u32) \<Longrightarrow> unat (of_nat k :: u32) = k"
proof -
  assume k: "k \<le> unat p"
  have "unat p < 2 ^ LENGTH(32)" by (rule unsigned_less)
  with k show ?thesis by (simp add: unat_of_nat)
qed

lemma periods_list:
  assumes "0 < length (rg_mFrames r)"
  shows "map (\<lambda>i. unat (getCurrentPeriod (r\<lparr>rg_mCurrentpos := i\<rparr>))) [0 ..< length (rg_mFrames r)]
    = replicate (length (rg_mFrames r) - 1) (unat (rg_mPeriod r) div length (rg_mFrames r))
      @ [unat (rg_mPeriod r) - (unat (rg_mPeriod r) div length (rg_mFrames r)) * (length (rg_mFrames r) - 1)]"
  using assms
  by (intro nth_equalityI)
     (auto simp: getCurrentPeriod_def Let_def nth_append unat_of_nat_le [of _ "rg_mPeriod r"]
        simp del: upt_Suc)

lemma sum_list_rotate: "sum_list (rotate n xs) = sum_list (xs :: nat list)"
proof (induction n)
  case (Suc n)
  have "sum_list (rotate1 ys) = sum_list ys" for ys :: "nat list" by (cases ys) simp_all
  with Suc show ?case by simp
qed simp

lemma rotate_map_upt:
  "map (\<lambda>i. f ((m + i) mod n)) [0 ..< n] = rotate m (map f [0 ..< n])"
  by (intro nth_equalityI) (auto simp: nth_rotate)

lemma frame_to_send_id: "cf_mId (frame_to_send cb f) = cf_mId f"
  by (simp add: frame_to_send_def cf_setData_def split: option.splits)

lemma ring_tick_ok:
  assumes "ring_ok r"
  shows "\<exists>fs r'. ring_tick now r = Inr (fs, r') \<and> ring_ids r' = ring_ids r \<and> ring_ok r'"
  using assms
  by (auto simp: ring_tick_def ring_send_def getCurrentFrame_def Let_def ring_ids_def ring_ok_def
      shift_def map_update frame_to_send_id list_update_same_conv)

lemma run_pass_ok:
  "\<forall>r \<in> set rs. ring_ok r \<Longrightarrow>
     \<exists>fs rs'. run_pass now rs = Inr (fs, rs') \<and> map ring_ids rs' = map ring_ids rs
       \<and> (\<forall>r \<in> set rs'. ring_ok r)"
proof (induction rs)
  case (Cons r rs)
  then show ?case using ring_tick_ok [of r now] by auto
qed simp

lemma sent_ring_ids: "sent_ring rings ids \<noteq> None \<longleftrightarrow> ids \<in> set (map ring_ids rings)"
  using sent_ring_None_iff [of rings ids] by auto

fun ring_ticks :: "timespec list \<Rightarrow> ring \<Rightarrow> (CanFrame list \<times> ring) res" where
  "ring_ticks [] r = Inr ([], r)"
| "ring_ticks (now # nows) r =
     res_bind (ring_tick now r) (\<lambda>(fs, r'). res_bind (ring_ticks nows r') (\<lambda>(fs', r''). Inr (fs @ fs', r'')))"

text \<open>Passes that come when the ring is due and less than a period late.\<close>

fun on_time :: "timespec list \<Rightarrow> ring \<Rightarrow> bool" where
  "on_time [] r = True"
| "on_time (now # nows) r =
     (ring_due now r \<and>
      (let r1 = shift r; current = addMillis (rg_mTxTimestamp r) (getCurrentPeriod r1)
       in abs_elapsed current now < getCurrentPeriod r1 \<and> on_time nows (r1\<lparr>rg_mTxTimestamp := current\<rparr>)))"

lemma ring_tick_on_time:
  assumes "ring_ok r" and "rg_mCallback r = None" and "on_time (now # nows) r"
  shows "ring_tick now r = Inr ([rg_mFrames r ! rg_mCurrentpos r],
    (shift r)\<lparr>rg_mTxTimestamp := addMillis (rg_mTxTimestamp r) (getCurrentPeriod (shift r))\<rparr>)"
  using assms
  by (simp add: ring_tick_def ring_send_def getCurrentFrame_def ring_ok_def frame_to_send_def Let_def)

lemma ring_ticks_on_time:
  assumes "ring_ok r" and "rg_mCallback r = None" and "on_time nows r"
  defines "n \<equiv> length (rg_mFrames r)" and "pos \<equiv> rg_mCurrentpos r"
  shows "\<exists>tx. ring_ticks nows r = Inr
      (map (\<lambda>i. rg_mFrames r ! ((pos + i) mod n)) [0 ..< length nows],
       r\<lparr>rg_mCurrentpos := (pos + length nows) mod n, rg_mTxTimestamp := tx\<rparr>)
    \<and> timespec_nanos tx = timespec_nanos (rg_mTxTimestamp r)
        + int (sum_list (map (\<lambda>i. unat (getCurrentPeriod (r\<lparr>rg_mCurrentpos := (pos + 1 + i) mod n\<rparr>)))
                 [0 ..< length nows])) * 1000000"
  using assms(1-3) unfolding n_def pos_def
proof (induction nows arbitrary: r)
  case Nil
  then show ?case by (auto simp: ring_ok_def intro!: exI [of _ "rg_mTxTimestamp r"])
next
  case (Cons now nows)
  let ?n = "length (rg_mFrames r)" and ?pos = "rg_mCurrentpos r"
  let ?r = "(shift r)\<lparr>rg_mTxTimestamp := addMillis (rg_mTxTimestamp r) (getCurrentPeriod (shift r))\<rparr>"
  have p: "getCurrentPeriod (s\<lparr>rg_mTxTimestamp := t, rg_mCurrentpos := i\<rparr>)
      = getCurrentPeriod (s\<lparr>rg_mCurrentpos := i\<rparr>)" for s t i
    by (simp add: getCurrentPeriod_def Let_def)
  have m: "Suc (Suc ?pos mod ?n + i) mod ?n = Suc (Suc (?pos + i)) mod ?n" for i
    using mod_add_left_eq [of "Suc ?pos" ?n "Suc i"] by simp
  have n: "0 < ?n" using Cons.prems(1) by (auto simp: ring_ok_def)
  have r: "?r = r\<lparr>rg_mCurrentpos := (?pos + 1) mod ?n,
      rg_mTxTimestamp := addMillis (rg_mTxTimestamp r) (getCurrentPeriod (shift r))\<rparr>"
    using Cons.prems(1) by (simp add: shift_mod)
  have "ring_ok ?r" "rg_mCallback ?r = None" "on_time nows ?r"
    using Cons.prems n by (simp_all add: r ring_ok_def Let_def)
  from Cons.IH [OF this] obtain tx where ih: "ring_ticks nows ?r = Inr
      (map (\<lambda>i. rg_mFrames r ! ((?pos + 1 + i) mod ?n)) [0 ..< length nows],
       r\<lparr>rg_mCurrentpos := (?pos + 1 + length nows) mod ?n, rg_mTxTimestamp := tx\<rparr>)"
    and tx: "timespec_nanos tx = timespec_nanos (rg_mTxTimestamp ?r)
        + int (sum_list (map (\<lambda>i. unat (getCurrentPeriod (r\<lparr>rg_mCurrentpos := (?pos + 2 + i) mod ?n\<rparr>)))
                 [0 ..< length nows])) * 1000000"
    by (auto simp: r p m mod_add_left_eq mod_Suc_eq)
  have u: "map g [0 ..< Suc k] = g 0 # map (\<lambda>i. g (Suc i)) [0 ..< k]" for g :: "nat \<Rightarrow> 'b" and k
    by (simp add: upt_conv_Cons map_Suc_upt [symmetric] del: upt_Suc)
  show ?case
    using ring_tick_on_time [OF Cons.prems] ih tx Cons.prems(1)
    by (intro exI [of _ tx])
       (simp add: u addMillis_nanos shift_mod ring_ok_def algebra_simps del: upt_Suc)
qed

section \<open>Properties\<close>

text \<open>C20: The sender implements a map from lists of identifiers to rings: registering frames replaces
  whatever was sent under their identifiers, unregistering removes it, \<open>isSent\<close> looks it up, and a
  pass of the sending thread always completes and changes nothing of this.\<close>

theorem sender_refines_map:
  assumes "sender_ok s" and "fs \<noteq> []"
  shows "sent_ring (snd (sendFrames fs period cb s))
      = (sent_ring s)(map cf_mId fs \<mapsto> setFrames fs (CanFrameRing period cb))
    \<and> sent_ring (unSendFrames ids s) = (sent_ring s)(ids := None)
    \<and> (isSent ids s \<longleftrightarrow> sent_ring s ids \<noteq> None)
    \<and> sender_ok (snd (sendFrames fs period cb s)) \<and> sender_ok (unSendFrames ids s)
    \<and> (\<exists>out s'. run_pass now s = Inr (out, s') \<and> sender_ok s' \<and> (isSent ids s' \<longleftrightarrow> isSent ids s))"
proof -
  obtain out s' where "run_pass now s = Inr (out, s')" "map ring_ids s' = map ring_ids s"
    "\<forall>r \<in> set s'. ring_ok r"
    using run_pass_ok [of s now] assms(1) by (auto simp: sender_ok_def)
  moreover have "isSent ids s' \<longleftrightarrow> isSent ids s" if "map ring_ids s' = map ring_ids s"
    by (simp only: rings.sent_lookup sent_ring_ids that)
  ultimately have "run_pass now s = Inr (out, s') \<and> sender_ok s' \<and> (isSent ids s' \<longleftrightarrow> isSent ids s)"
    using assms(1) by (simp add: sender_ok_def)
  with rings.lookup_send [OF assms, of "(period, cb)"] rings.lookup_unsend [OF assms(1), of ids]
    rings.ok_send [OF assms(1), of fs "(period, cb)"] rings.ok_unsend [OF assms(1), of ids]
  show ?thesis by (auto simp: rings.sent_lookup)
qed

definition two_frames :: "CanFrame list" where
  "two_frames = [CanFrame_of True 0x18FECA21 [1, 2], CanFrame_of True 0x18FEF121 [3]]"

theorem sender_refines_map_witness:
  "isSent [0x18FECA21, 0x18FEF121] (snd (sendFrames two_frames 100 None []))
   \<and> sender_ok (snd (sendFrames two_frames 100 None []))"
proof -
  have "sender_ok []" "two_frames \<noteq> []" by (simp_all add: sender_ok_def two_frames_def)
  from sender_refines_map [OF this, of 100 None "[]"] have
    s: "sender_ok (snd (sendFrames two_frames 100 None []))" by blast
  moreover from sender_refines_map [OF s \<open>two_frames \<noteq> []\<close>, of 100 None "[0x18FECA21, 0x18FEF121]"]
  have "isSent [0x18FECA21, 0x18FEF121] (snd (sendFrames two_frames 100 None []))
    \<longleftrightarrow> sent_ring (snd (sendFrames two_frames 100 None [])) [0x18FECA21, 0x18FEF121] \<noteq> None"
    by blast
  ultimately show ?thesis
    by (simp add: sendFrames_def two_frames_def setFrames_def CanFrameRing_def ring_ids_def
        CanFrame_of_def cf_setData_def)
qed

text \<open>The periods of a ring's frames add up to the ring's period, although each is a quotient: the last
  frame makes up for what the division loses.\<close>

theorem ring_periods_sum:
  assumes "rg_mFrames r \<noteq> []"
  shows "(\<Sum>i \<leftarrow> [0 ..< length (rg_mFrames r)]. unat (getCurrentPeriod (r\<lparr>rg_mCurrentpos := i\<rparr>)))
    = unat (rg_mPeriod r)"
  using periods_list [of r] period_split [of "length (rg_mFrames r)" "unat (rg_mPeriod r)"] assms
  by (simp add: sum_list_replicate mult.commute del: upt_Suc)

definition two_ring :: ring where
  "two_ring = (setFrames two_frames (CanFrameRing 5 None))\<lparr>rg_mTxTimestamp := \<lparr>tv_sec = 7, tv_nsec = 0\<rparr>\<rparr>"

theorem ring_periods_sum_witness:
  "(\<Sum>i \<leftarrow> [0 ..< length two_frames]. unat (getCurrentPeriod (two_ring\<lparr>rg_mCurrentpos := i\<rparr>))) = 5"
  using ring_periods_sum [of two_ring] by (simp add: two_ring_def setFrames_def CanFrameRing_def two_frames_def)

text \<open>C21: When the thread comes round less than a period late each time, a ring sends its frames in turn and
  after one round its time stamp has moved by exactly its period: lateness and rounding do not add
  up.\<close>

theorem full_round_no_drift:
  assumes "ring_ok r" and "rg_mCallback r = None" and "on_time nows r"
    and "length nows = length (rg_mFrames r)"
  shows "\<exists>tx. ring_ticks nows r = Inr (rotate (rg_mCurrentpos r) (rg_mFrames r), r\<lparr>rg_mTxTimestamp := tx\<rparr>)
    \<and> timespec_nanos tx = timespec_nanos (rg_mTxTimestamp r) + uint (rg_mPeriod r) * 1000000"
proof -
  let ?n = "length (rg_mFrames r)" and ?pos = "rg_mCurrentpos r"
  let ?p = "\<lambda>i. unat (getCurrentPeriod (r\<lparr>rg_mCurrentpos := i\<rparr>))"
  have n: "rg_mFrames r \<noteq> []" "?pos < ?n" using assms(1) by (auto simp: ring_ok_def)
  have "map (\<lambda>i. rg_mFrames r ! ((?pos + i) mod ?n)) [0 ..< ?n] = rotate ?pos (rg_mFrames r)"
    by (simp add: rotate_map_upt map_nth)
  moreover have "sum_list (map (\<lambda>i. ?p ((?pos + 1 + i) mod ?n)) [0 ..< ?n]) = unat (rg_mPeriod r)"
    unfolding rotate_map_upt [of ?p "?pos + 1" ?n] sum_list_rotate
    using periods_list [of r] period_split [of ?n "unat (rg_mPeriod r)"] n(1)
    by (simp add: sum_list_replicate mult.commute del: upt_Suc)
  ultimately show ?thesis
    using ring_ticks_on_time [OF assms(1-3)] assms(4) n(2) by auto
qed

theorem full_round_no_drift_witness:
  "\<exists>tx. ring_ticks [\<lparr>tv_sec = 7, tv_nsec = 2000000\<rparr>, \<lparr>tv_sec = 7, tv_nsec = 6000000\<rparr>] two_ring
       = Inr (two_frames, two_ring\<lparr>rg_mTxTimestamp := tx\<rparr>)
     \<and> timespec_nanos tx = 7005000000"
proof -
  have "ring_ok two_ring" "rg_mCallback two_ring = None" "rg_mFrames two_ring = two_frames"
    "rg_mCurrentpos two_ring = 0" "rg_mPeriod two_ring = 5"
    "timespec_nanos (rg_mTxTimestamp two_ring) = 7000000000"
    by (simp_all add: ring_ok_def two_ring_def setFrames_def CanFrameRing_def two_frames_def
        timespec_nanos_def)
  moreover have "on_time [\<lparr>tv_sec = 7, tv_nsec = 2000000\<rparr>, \<lparr>tv_sec = 7, tv_nsec = 6000000\<rparr>] two_ring"
    by code_simp
  moreover have "length two_frames = 2" by (simp add: two_frames_def)
  ultimately show ?thesis
    using full_round_no_drift [of two_ring
        "[\<lparr>tv_sec = 7, tv_nsec = 2000000\<rparr>, \<lparr>tv_sec = 7, tv_nsec = 6000000\<rparr>]"] by simp
qed

end
