(* ===== verification/StdString.thy ===== *)
theory StdString
  imports Prelude Double "HOL-Library.List_Lexorder" "HOL-Library.Char_ord"
begin

text \<open>
  What the programs use of \<open>std::string\<close> and of the conversions \<open>std::stoul\<close>, \<open>std::stoi\<close> and
  \<open>std::stod\<close>: the rules of \<open>strtoul\<close>, \<open>strtol\<close> and \<open>strtod\<close> in the C locale, with a 64-bit
  \<open>unsigned long\<close>. A string is a list of characters; the order of \<open>std::string\<close> keys is the
  lexicographic order of the library, on characters taken as unsigned.
\<close>

section \<open>Characters\<close>

text \<open>The bytes of a string.\<close>

definition to_bytes :: "string \<Rightarrow> bytes" where
  "to_bytes str = map (\<lambda>c. word_of_nat (of_char c)) str"

section \<open>Exceptions of the conversions\<close>

datatype std_exc = InvalidArgument | OutOfRange

section \<open>Digits\<close>

definition is_space :: "char \<Rightarrow> bool" where
  "is_space c \<longleftrightarrow> c = CHR '' '' \<or> (9 \<le> (of_char c :: nat) \<and> (of_char c :: nat) \<le> 13)"

definition digit_value :: "char \<Rightarrow> nat option" where
  "digit_value c =
     (let n = of_char c :: nat
      in if 48 \<le> n \<and> n \<le> 57 then Some (n - 48)
         else if 97 \<le> n \<and> n \<le> 122 then Some (n - 87)
         else if 65 \<le> n \<and> n \<le> 90 then Some (n - 55)
         else None)"

definition is_digit :: "nat \<Rightarrow> char \<Rightarrow> bool" where
  "is_digit base c = (case digit_value c of None \<Rightarrow> False | Some d \<Rightarrow> d < base)"

definition digits_value :: "nat \<Rightarrow> string \<Rightarrow> int" where
  "digits_value base ds =
     foldl (\<lambda>n c. n * int base + (case digit_value c of None \<Rightarrow> 0 | Some d \<Rightarrow> int d)) 0 ds"

section \<open>Integers\<close>

text \<open>White space and a sign come first; \<open>0x\<close> counts only when a digit follows it.\<close>

definition scan_sign :: "string \<Rightarrow> bool \<times> string" where
  "scan_sign s =
     (case dropWhile is_space s of
        [] \<Rightarrow> (False, [])
      | c # cs \<Rightarrow> if c = CHR ''-'' then (True, cs) else if c = CHR ''+'' then (False, cs)
                  else (False, c # cs))"

fun hex_prefixed :: "string \<Rightarrow> bool" where
  "hex_prefixed (z # x # d # s) = (z = CHR ''0'' \<and> (x = CHR ''x'' \<or> x = CHR ''X'') \<and> is_digit 16 d)"
| "hex_prefixed _ = False"

definition scan_base :: "nat \<Rightarrow> string \<Rightarrow> nat \<times> string" where
  "scan_base base s =
     (if (base = 0 \<or> base = 16) \<and> hex_prefixed s then (16, drop 2 s)
      else if base = 0 then (if s \<noteq> [] \<and> hd s = CHR ''0'' then 8 else 10, s)
      else (base, s))"

definition scan_integer :: "nat \<Rightarrow> string \<Rightarrow> (bool \<times> int) option" where
  "scan_integer base s =
     (let (negative, s1) = scan_sign s; (b, s2) = scan_base base s1; ds = takeWhile (is_digit b) s2
      in if ds = [] then None else Some (negative, digits_value b ds))"

text \<open>A minus sign negates the result in \<open>unsigned long\<close>.\<close>

definition stoul :: "nat \<Rightarrow> string \<Rightarrow> std_exc + u64" where
  "stoul base s =
     (case scan_integer base s of
        None \<Rightarrow> Inl InvalidArgument
      | Some (negative, n) \<Rightarrow>
          if n > 0xFFFFFFFFFFFFFFFF then Inl OutOfRange
          else Inr (if negative then - word_of_int n else word_of_int n))"

definition stoi :: "nat \<Rightarrow> string \<Rightarrow> std_exc + int" where
  "stoi base s =
     (case scan_integer base s of
        None \<Rightarrow> Inl InvalidArgument
      | Some (negative, n) \<Rightarrow>
          let v = (if negative then - n else n)
          in if v < - 0x80000000 \<or> v > 0x7FFFFFFF then Inl OutOfRange else Inr v)"

section \<open>Floating point\<close>

definition to_lower :: "char \<Rightarrow> char" where
  "to_lower c = (let n = of_char c :: nat in if 65 \<le> n \<and> n \<le> 90 then char_of (n + 32) else c)"

text \<open>Digits with an optional point: the mantissa's digits, how many of them are after the point, and
  the rest.\<close>

definition scan_mantissa :: "nat \<Rightarrow> string \<Rightarrow> string \<times> nat \<times> string" where
  "scan_mantissa base s =
     (let ip = takeWhile (is_digit base) s; r = dropWhile (is_digit base) s
      in if r \<noteq> [] \<and> hd r = CHR ''.''
         then (let fp = takeWhile (is_digit base) (tl r)
               in (ip @ fp, length fp, dropWhile (is_digit base) (tl r)))
         else (ip, 0, r))"

definition scan_exponent :: "char \<Rightarrow> string \<Rightarrow> int" where
  "scan_exponent mark s =
     (if s \<noteq> [] \<and> to_lower (hd s) = mark
      then (let r = tl s; negative = (r \<noteq> [] \<and> hd r = CHR ''-'');
                r' = (if r \<noteq> [] \<and> (hd r = CHR ''-'' \<or> hd r = CHR ''+'') then tl r else r);
                n = digits_value 10 (takeWhile (is_digit 10) r')
            in if negative then - n else n)
      else 0)"

text \<open>The sign, and the exact value of the digits; \<open>hex_start\<close> holds where a hexadecimal number begins.\<close>

definition hex_start :: "string \<Rightarrow> bool" where
  "hex_start s \<longleftrightarrow> map to_lower (take 2 s) = ''0x'' \<and> fst (scan_mantissa 16 (drop 2 s)) \<noteq> []"

definition scan_number :: "string \<Rightarrow> rat option" where
  "scan_number s =
     (if hex_start s
      then (let (ds, k, r) = scan_mantissa 16 (drop 2 s)
            in Some (of_int (digits_value 16 ds) / 16 ^ k * 2 powi scan_exponent (CHR ''p'') r))
      else (let (ds, k, r) = scan_mantissa 10 s
            in if ds = [] then None
               else Some (of_int (digits_value 10 ds) / 10 ^ k * 10 powi scan_exponent (CHR ''e'') r)))"

text \<open>
  \<open>ERANGE\<close>, which becomes \<open>out_of_range\<close>, is reported for an overflow and for an inexact result below
  the normal range.
\<close>

definition d_range_error :: "rat \<Rightarrow> bool" where
  "d_range_error x \<longleftrightarrow>
     d_is_inf (d_round x) \<or> (\<bar>x\<bar> < 2 powi (- 1022) - 2 powi (- 1076) \<and> d_val (d_round x) \<noteq> x)"

definition stod :: "string \<Rightarrow> std_exc + double" where
  "stod s =
     (let (negative, r) = scan_sign s; low = map to_lower r
      in if take 3 low = ''inf'' then Inr (Inf negative)
         else if take 3 low = ''nan'' then Inr NaN
         else (case scan_number r of
                 None \<Rightarrow> Inl InvalidArgument
               | Some x \<Rightarrow>
                   if d_range_error x then Inl OutOfRange
                   else Inr (if negative then d_neg (d_round x) else d_round x)))"

section \<open>Printing numbers\<close>

text \<open>\<open>operator<<\<close> of an unsigned number, in decimal or in another base with lower-case digits.\<close>

definition digit_char :: "nat \<Rightarrow> char" where
  "digit_char d = (if d < 10 then char_of (48 + d) else char_of (87 + d))"

fun show_digits :: "nat \<Rightarrow> nat \<Rightarrow> string" where
  "show_digits base n =
     (if n < base \<or> base < 2 then [digit_char (n mod base)]
      else show_digits base (n div base) @ [digit_char (n mod base)])"

declare show_digits.simps [simp del]

section \<open>Reading what was printed\<close>

lemma of_char_digit: "d < 16 \<Longrightarrow> of_char (digit_char d) = (if d < 10 then 48 + d else 87 + d)"
  by (simp add: digit_char_def of_char_of)

lemma digit_value_char: "d < 16 \<Longrightarrow> digit_value (digit_char d) = Some d"
  by (simp add: digit_value_def Let_def of_char_digit)

lemma is_digit_char: "d < 16 \<Longrightarrow> is_digit base (digit_char d) \<longleftrightarrow> d < base"
  by (simp add: is_digit_def digit_value_char)

lemma digits_value_snoc:
  "digits_value base (ds @ [c]) =
     digits_value base ds * int base + (case digit_value c of None \<Rightarrow> 0 | Some d \<Rightarrow> int d)"
  by (simp add: digits_value_def)

lemma show_digits_value:
  "2 \<le> base \<Longrightarrow> base \<le> 16 \<Longrightarrow> digits_value base (show_digits base n) = int n"
proof (induction base n rule: show_digits.induct)
  case (1 base n)
  have m: "n mod base < 16" using 1(2,3) mod_less_divisor [of base n] by linarith
  show ?case
  proof (cases "n < base")
    case True
    with m show ?thesis
      by (subst show_digits.simps) (simp add: digits_value_def digit_value_char)
  next
    case False
    moreover have "int (n div base) * int base + int (n mod base) = int n"
      by (metis div_mult_mod_eq of_nat_add of_nat_mult)
    ultimately show ?thesis
      using 1 m by (subst show_digits.simps) (simp add: digits_value_snoc digit_value_char)
  qed
qed

lemma show_digits_digits:
  "2 \<le> base \<Longrightarrow> base \<le> 16 \<Longrightarrow> c \<in> set (show_digits base n) \<Longrightarrow> is_digit base c"
proof (induction base n rule: show_digits.induct)
  case (1 base n)
  have "n mod base < base" "n mod base < 16"
    using 1(2,3) mod_less_divisor [of base n] by linarith+
  with 1 show ?case
    by (subst (asm) (2) show_digits.simps) (auto simp: is_digit_char split: if_splits)
qed

lemma show_digits_not_Nil [simp]: "show_digits base n \<noteq> []"
  by (subst show_digits.simps) simp

lemma digit_not_space: "is_digit base c \<Longrightarrow> \<not> is_space c \<and> c \<noteq> CHR ''-'' \<and> c \<noteq> CHR ''+''"
  by (auto simp: is_digit_def digit_value_def is_space_def Let_def split: if_splits)

lemma takeWhile_all: "(\<And>x. x \<in> set xs \<Longrightarrow> P x) \<Longrightarrow> takeWhile P xs = xs"
  by (simp add: takeWhile_eq_all_conv)

lemma scan_decimal:
  assumes "ds \<noteq> []" and "\<And>c. c \<in> set ds \<Longrightarrow> is_digit 10 c"
  shows "scan_integer 10 ds = Some (False, digits_value 10 ds)"
proof -
  obtain c cs where ds: "ds = c # cs" using assms(1) by (cases ds) auto
  have "\<not> is_space c \<and> c \<noteq> CHR ''-'' \<and> c \<noteq> CHR ''+''"
    using assms(2) [of c] digit_not_space by (simp add: ds)
  then have "scan_sign ds = (False, ds)" by (simp add: scan_sign_def ds)
  then show ?thesis
    using assms takeWhile_all [of ds "is_digit 10"]
    by (simp add: scan_integer_def scan_base_def Let_def del: takeWhile_eq_all_conv)
qed

lemma stoul_show: "n < 2 ^ 64 \<Longrightarrow> stoul 10 (show_digits 10 n) = Inr (of_nat n)"
  by (simp add: stoul_def scan_decimal show_digits_digits show_digits_value)

end
