(* ===== verification/CanEasy.thy ===== *)
theory CanEasy
  imports Can StdString
begin

text \<open>
  What sits above the senders and receivers: \<open>CanSniffer\<close> (\<open>CAN/CanSniffer.cpp\<close>), which waits on
  the receivers' descriptors and calls back, \<open>ICanHelper\<close> (\<open>CAN/ICanHelper.cpp\<close>), the registry of the
  interfaces of the two back ends, and \<open>CanEasy\<close> (\<open>CAN/CanEasy.cpp\<close>), the facade over them. What
  the system calls and the back ends answer is an argument.
\<close>

section \<open>CanSniffer\<close>

record sniff_receiver =
  sr_receiver :: can_receiver
  sr_fd :: int

text \<open>One call of \<open>select\<close>: interrupted, failed, or the set of descriptors that are ready.\<close>

datatype select_result = Interrupted | Failed | Selected "int list"

definition max_fd :: "sniff_receiver list \<Rightarrow> int \<Rightarrow> int" where
  "max_fd rs start = fold (\<lambda>r m. if sr_fd r > m then sr_fd r else m) rs start"

text \<open>
  \<open>wait_fd\<close>: the results of the successive calls are consumed until one is not interrupted; \<open>None\<close>
  when they have run out. The value is the result of the method and the set it leaves.
\<close>

fun wait_fd :: "sniff_receiver list \<Rightarrow> int \<Rightarrow> select_result list \<Rightarrow> (int \<times> int list) option" where
  "wait_fd rs maxFd calls =
     (let m = max_fd rs maxFd
      in if m = -1 then Some (- 22, [])
         else (case calls of
                 [] \<Rightarrow> None
               | Interrupted # calls' \<Rightarrow> wait_fd rs m calls'
               | Failed # calls' \<Rightarrow> Some (- 1, map sr_fd rs)
               | Selected fds # calls' \<Rightarrow> Some (int (length fds), fds)))"

declare wait_fd.simps [simp del]

type_synonym reception = "CanFrame \<times> TimeStamp"
type_synonym delivery = "CanFrame \<times> TimeStamp \<times> string"

definition notify_recv :: "can_receiver \<Rightarrow> reception option \<Rightarrow> delivery list" where
  "notify_recv recv received =
     (case received of
        None \<Rightarrow> []
      | Some (canFrame, timestamp) \<Rightarrow>
          if rc_filter recv (cf_mId canFrame) then [(canFrame, timestamp, rc_mInterface recv)] else [])"

text \<open>\<open>recv\<close> gives what each descriptor has to be read.\<close>

fun notify :: "sniff_receiver list \<Rightarrow> int list \<Rightarrow> (int \<Rightarrow> reception option) \<Rightarrow> delivery list" where
  "notify [] rdfs recv = []"
| "notify (r # rs) rdfs recv =
     (if sr_fd r \<in> set rdfs then notify_recv (sr_receiver r) (recv (sr_fd r)) else []) @ notify rs rdfs recv"

definition sniff_timeval :: "u32 \<Rightarrow> u32 \<times> u32" where
  "sniff_timeval timeout = (timeout div 1000, (timeout mod 1000) div 1000000)"

text \<open>One turn of \<open>sniff\<close>: whether the timeout callback is called, and the frames called back.\<close>

definition sniff_once ::
  "sniff_receiver list \<Rightarrow> select_result list \<Rightarrow> (int \<Rightarrow> reception option) \<Rightarrow> (bool \<times> delivery list) option" where
  "sniff_once rs calls recv =
     (case wait_fd rs (- 1) calls of
        None \<Rightarrow> None
      | Some (result, rdfs) \<Rightarrow>
          if result < 0 then Some (False, [])
          else if result = 0 then Some (True, [])
          else Some (False, notify rs rdfs recv))"

text \<open>
  The loop of \<open>sniff\<close>: for every turn the results of \<open>select\<close>, what is received, and whether \<open>mRunning\<close> is still set
  after the callbacks; \<open>None\<close> when it is not at its end. The callbacks are always set.
\<close>

fun sniff_turns ::
  "sniff_receiver list \<Rightarrow> (select_result list \<times> (int \<Rightarrow> reception option) \<times> bool) list
   \<Rightarrow> (bool \<times> delivery list) list option" where
  "sniff_turns rs [] = None"
| "sniff_turns rs ((calls, recv, running) # turns) =
     (case sniff_once rs calls recv of
        None \<Rightarrow> None
      | Some x \<Rightarrow> if running then map_option (Cons x) (sniff_turns rs turns) else Some [x])"

definition sniff ::
  "sniff_receiver list \<Rightarrow> (select_result list \<times> (int \<Rightarrow> reception option) \<times> bool) list
   \<Rightarrow> (bool \<times> delivery list) list option res" where
  "sniff rs turns = (if rs = [] then Inl AssertExit else Inr (sniff_turns rs turns))"

definition sniffer_setFilters :: "CanFilter list \<Rightarrow> sniff_receiver list \<Rightarrow> sniff_receiver list" where
  "sniffer_setFilters filters rs =
     map (\<lambda>r. r\<lparr>sr_receiver := snd (rc_setFilters filters (sr_receiver r))\<rparr>) rs"

definition addReceiver :: "sniff_receiver \<Rightarrow> sniff_receiver list \<Rightarrow> sniff_receiver list" where
  "addReceiver r rs = rs @ [r]"

section \<open>ICanHelper\<close>

text \<open>Interface names in the order of \<open>std::string\<close>'s \<open>operator<\<close>.\<close>

datatype iface = Iface (iface_name: "u8 list")

fun bytes_less :: "u8 list \<Rightarrow> u8 list \<Rightarrow> bool" where
  "bytes_less xs [] = False"
| "bytes_less [] (y # ys) = True"
| "bytes_less (x # xs) (y # ys) = (x < y \<or> x = y \<and> bytes_less xs ys)"

instantiation iface :: linorder
begin

definition less_iface :: "iface \<Rightarrow> iface \<Rightarrow> bool" where
  "less_iface a b = bytes_less (iface_name a) (iface_name b)"

definition less_eq_iface :: "iface \<Rightarrow> iface \<Rightarrow> bool" where
  "less_eq_iface a b = (bytes_less (iface_name a) (iface_name b) \<or> a = b)"

instance
proof -
  have irrefl: "\<not> bytes_less xs xs" for xs by (induction xs) auto
  have trans: "bytes_less xs ys \<Longrightarrow> bytes_less ys zs \<Longrightarrow> bytes_less xs zs" for xs ys zs
  proof (induction xs ys arbitrary: zs rule: bytes_less.induct)
    case (2 y ys)
    then show ?case by (cases zs) auto
  next
    case (3 x xs y ys)
    then show ?case by (cases zs) auto
  qed simp
  have total: "bytes_less xs ys \<or> xs = ys \<or> bytes_less ys xs" for xs ys
  proof (induction xs ys rule: bytes_less.induct)
    case (1 xs)
    then show ?case by (cases xs) auto
  next
    case (3 x xs y ys)
    then show ?case by (cases x y rule: linorder_cases) auto
  qed simp
  show "OFCLASS(iface, linorder_class)"
  proof
    fix a b c :: iface
    show "a < b \<longleftrightarrow> a \<le> b \<and> \<not> b \<le> a"
      using irrefl trans by (auto simp: less_iface_def less_eq_iface_def)
    show "a \<le> a" by (simp add: less_eq_iface_def)
    show "a \<le> b \<Longrightarrow> b \<le> c \<Longrightarrow> a \<le> c" using trans by (auto simp: less_eq_iface_def)
    show "a \<le> b \<Longrightarrow> b \<le> a \<Longrightarrow> a = b" using irrefl trans by (auto simp: less_eq_iface_def)
    show "a \<le> b \<or> b \<le> a"
      using total [of "iface_name a" "iface_name b"] by (auto simp: less_eq_iface_def iface.expand)
  qed
qed

end

text \<open>The name given as a string.\<close>

abbreviation to_iface :: "string \<Rightarrow> iface" where
  "to_iface str \<equiv> Iface (to_bytes str)"

datatype backend = SocketCan | PeakCan

type_synonym helpers = "(iface, backend) smap"

text \<open>
  \<open>ifaces\<close> lists the interfaces of a back end in order, \<open>init\<close> says whether its \<open>initialize\<close> succeeds.
\<close>

definition add_helpers :: "backend \<Rightarrow> iface list \<Rightarrow> (backend \<Rightarrow> iface \<Rightarrow> bool) \<Rightarrow> helpers \<Rightarrow> helpers" where
  "add_helpers b ifaces init m =
     fold (\<lambda>i m. if init b i then smap_put i b m else m) ifaces m"

definition createCanHelpers ::
  "(backend \<Rightarrow> iface list) \<Rightarrow> (backend \<Rightarrow> iface \<Rightarrow> bool) \<Rightarrow> helpers \<Rightarrow> helpers" where
  "createCanHelpers ifaces init mHelpers =
     (if mHelpers = []
      then add_helpers PeakCan (ifaces PeakCan) init (add_helpers SocketCan (ifaces SocketCan) init mHelpers)
      else mHelpers)"

definition deallocateCanHelpers :: "helpers \<Rightarrow> helpers" where
  "deallocateCanHelpers mHelpers = []"

fun set_insert :: "'a::linorder \<Rightarrow> 'a list \<Rightarrow> 'a list" where
  "set_insert x [] = [x]"
| "set_insert x (y # ys) =
     (if x < y then x # y # ys else if x = y then y # ys else y # set_insert x ys)"

definition getInterfaces :: "(backend \<Rightarrow> iface list) \<Rightarrow> iface list" where
  "getInterfaces ifaces = fold set_insert (ifaces PeakCan) (fold set_insert (ifaces SocketCan) [])"

section \<open>CanEasy\<close>

text \<open>A sender is known by the interface and back end it was allocated from.\<close>

record can_easy =
  ez_mSenders :: "(iface, backend) smap"
  ez_mReceivers :: "(iface \<times> backend) list"
  ez_mInitializedIfaces :: "iface list"
  ez_mHelpers :: helpers

definition easy_add_sender :: "iface \<times> backend \<Rightarrow> can_easy \<Rightarrow> can_easy" where
  "easy_add_sender e s =
     s\<lparr>ez_mSenders := smap_put (fst e) (snd e) (ez_mSenders s),
       ez_mInitializedIfaces := set_insert (fst e) (ez_mInitializedIfaces s)\<rparr>"

definition easy_initialize ::
  "(backend \<Rightarrow> iface list) \<Rightarrow> (backend \<Rightarrow> iface \<Rightarrow> bool) \<Rightarrow> can_easy \<Rightarrow> can_easy" where
  "easy_initialize ifaces init s =
     (let hs = createCanHelpers ifaces init (ez_mHelpers s)
      in fold easy_add_sender hs (s\<lparr>ez_mHelpers := hs\<rparr>))"

definition easy_initialize_recv ::
  "(backend \<Rightarrow> iface list) \<Rightarrow> (backend \<Rightarrow> iface \<Rightarrow> bool) \<Rightarrow> can_easy \<Rightarrow> can_easy" where
  "easy_initialize_recv ifaces init s =
     (let hs = createCanHelpers ifaces init (ez_mHelpers s)
      in fold (\<lambda>e s. easy_add_sender e (s\<lparr>ez_mReceivers := ez_mReceivers s @ [e]\<rparr>)) hs
           (s\<lparr>ez_mHelpers := hs\<rparr>))"

definition getSender :: "iface \<Rightarrow> can_easy \<Rightarrow> backend option" where
  "getSender interface s = smap_find (ez_mSenders s) interface"

definition easy_finalize :: "can_easy \<Rightarrow> can_easy" where
  "easy_finalize s = s\<lparr>ez_mSenders := [], ez_mHelpers := deallocateCanHelpers (ez_mHelpers s)\<rparr>"

section \<open>Facts\<close>

text \<open>The fraction of a second is divided by a million instead of multiplied by a thousand: a timeout
  below a second is no timeout at all, and \<open>sniff\<close> spins.\<close>

lemma sniff_timeval_whole_seconds:
  "sniff_timeval timeout = (timeout div 1000, 0)"
proof -
  have "unat (timeout mod 1000) < 1000" by (simp add: unat_mod)
  then have "timeout mod 1000 < 1000000" by (simp add: word_less_nat_alt)
  then show ?thesis by (simp add: sniff_timeval_def div_word_less)
qed

lemma wait_fd_interrupted:
  "rs \<noteq> [] \<Longrightarrow> \<forall>r \<in> set rs. 0 \<le> sr_fd r \<Longrightarrow> wait_fd rs m (Interrupted # calls) = wait_fd rs (max_fd rs m) calls"
proof -
  assume rs: "rs \<noteq> []" "\<forall>r \<in> set rs. 0 \<le> sr_fd r"
  have mono: "m \<le> max_fd rs m" for m and rs :: "sniff_receiver list"
  proof (induction rs arbitrary: m)
    case (Cons r rs)
    from Cons [of "if m < sr_fd r then sr_fd r else m"] show ?case
      by (simp add: max_fd_def split: if_splits)
  qed (simp add: max_fd_def)
  obtain r rs' where "rs = r # rs'" using rs(1) by (cases rs) auto
  then have "0 \<le> max_fd rs m"
    using rs(2) mono [of "if sr_fd r > m then sr_fd r else m" rs'] by (auto simp: max_fd_def split: if_splits)
  then show ?thesis by (subst wait_fd.simps) (simp add: Let_def)
qed

lemma set_set_insert: "set (set_insert x xs) = insert x (set xs)"
  by (induction xs) auto

lemma set_insert_sorted: "sorted_wrt (<) xs \<Longrightarrow> sorted_wrt (<) (set_insert x xs)"
  by (induction xs) (auto simp: set_set_insert)

text \<open>\<open>finish\<close> ends the loop with the turn in which it is called, whether or not anything was received.\<close>

lemma sniff_turns_end:
  "\<forall>(calls, recv, running) \<in> set turns. running \<and> sniff_once rs calls recv \<noteq> None \<Longrightarrow> sniff_once rs calls recv = Some x \<Longrightarrow>
     \<exists>xs. length xs = length turns \<and> sniff_turns rs (turns @ (calls, recv, False) # rest) = Some (xs @ [x])"
proof (induction turns)
  case (Cons t turns)
  obtain cs r b where t: "t = (cs, r, b)" by (cases t)
  with Cons.prems obtain y where "b" "sniff_once rs cs r = Some y" by auto
  moreover obtain xs where "length xs = length turns" "sniff_turns rs (turns @ (calls, recv, False) # rest) = Some (xs @ [x])"
    using Cons by auto
  ultimately show ?case by (intro exI [of _ "y # xs"]) (simp add: t)
qed simp

text \<open>After \<open>initialize\<close> there is a sender for exactly the interfaces some back end could initialize.\<close>

lemma add_helpers_find:
  "smap_find (add_helpers b is init m) i
     = (if i \<in> set is \<and> init b i then Some b else smap_find m i)"
  by (induction "is" arbitrary: m) (auto simp: add_helpers_def smap_find_put)

lemma add_helpers_ok: "smap_ok m \<Longrightarrow> smap_ok (add_helpers b is init m)"
  by (induction "is" arbitrary: m) (auto simp: add_helpers_def)

lemma easy_add_all:
  "smap_find (ez_mSenders (fold easy_add_sender hs s)) i
     = (case map_of (rev hs) i of None \<Rightarrow> smap_find (ez_mSenders s) i | Some b \<Rightarrow> Some b)"
  by (induction hs arbitrary: s) (auto simp: easy_add_sender_def smap_find_put split: option.splits)

lemma map_of_rev_smap: "smap_ok m \<Longrightarrow> map_of (rev m) i = smap_find m i"
proof (induction m)
  case (Cons e m)
  obtain k v where e: "e = (k, v)" by force
  have "smap_find m k = None" using Cons.prems by (force simp: e smap_ok_Cons smap_find_None_iff)
  with Cons show ?case by (auto simp: e smap_ok_Cons map_add_def split: option.splits)
qed simp

lemma ex_backend: "(\<exists>b. P b) \<longleftrightarrow> P SocketCan \<or> P PeakCan"
  by (metis backend.exhaust)

lemma easy_senders:
  assumes "ez_mHelpers s = []" and "ez_mSenders s = []"
  shows "getSender i (easy_initialize ifaces init s) \<noteq> None
    \<longleftrightarrow> (\<exists>b. i \<in> set (ifaces b) \<and> init b i)"
proof -
  let ?hs = "createCanHelpers ifaces init []"
  have "smap_ok ?hs" by (simp add: createCanHelpers_def add_helpers_ok)
  moreover have "smap_find ?hs i \<noteq> None \<longleftrightarrow> (\<exists>b. i \<in> set (ifaces b) \<and> init b i)"
    by (auto simp: ex_backend createCanHelpers_def add_helpers_find)
  ultimately show ?thesis
    using assms by (auto simp: getSender_def easy_initialize_def Let_def easy_add_all map_of_rev_smap
        split: option.splits)
qed

end
