(* ===== verification/EncodeSafe.thy ===== *)
theory EncodeSafe
  imports Frames
begin

text \<open>
  Encoding a frame into a buffer of its own length never leaves the buffer, whatever values its fields
  have: the checks of \<open>GenericFrame::encodeData\<close>, \<open>DM1::encodeData\<close> and the SPNs are enough. Exceptions
  are the only other outcome. Programs that encode frames they were told to build rely on it.
\<close>

section \<open>Encoding is defined\<close>

text \<open>
  \<open>encode_safe n r\<close>: the result of an encoder on a buffer of \<open>n\<close> bytes is a buffer of that length or
  an exception, but not undefined behaviour.
\<close>

definition encode_safe :: "nat \<Rightarrow> bytes res \<Rightarrow> bool" where
  "encode_safe n r \<longleftrightarrow> (case r of Inl e \<Rightarrow> e \<noteq> UndefinedBehaviour | Inr bs \<Rightarrow> length bs = n)"

lemma encode_safe_simps [simp]:
  "encode_safe n (Inr bs) \<longleftrightarrow> length bs = n" "encode_safe n (Inl e) \<longleftrightarrow> e \<noteq> UndefinedBehaviour"
  by (simp_all add: encode_safe_def)

lemma encode_safe_bind:
  "encode_safe n r \<Longrightarrow> (\<And>bs. length bs = n \<Longrightarrow> encode_safe k (f bs)) \<Longrightarrow> encode_safe k (res_bind r f)"
  by (cases r) simp_all

lemma encode_safe_poke: "off + length bs \<le> n \<Longrightarrow> length buf = n \<Longrightarrow> encode_safe n (poke off bs buf)"
  by (simp add: poke_def)

lemma string_encode_safe: "encode_safe (length buf) (string_encode v buf)"
proof -
  have "length (takeWhile (\<lambda>c. c \<noteq> 0) v) \<le> length v" by (rule length_takeWhile_le)
  then show ?thesis
    unfolding string_encode_def
    by (auto intro!: encode_safe_bind [where n = "length buf"] encode_safe_poke)
qed

lemma spn_encode_safe: "buf \<noteq> [] \<Longrightarrow> encode_safe (length buf) (spn_encode s buf)"
  by (cases "mSpnData s")
     (auto simp: spn_encode_def string_encode_safe num_encode_def status_encode_def Let_def Suc_le_eq
        intro!: encode_safe_poke)

lemma encode_spns_safe: "length buf = n \<Longrightarrow> encode_safe n (generic_encode_spns ss buf)"
proof (induction ss buf rule: generic_encode_spns.induct)
  case (2 s ss buf)
  show ?case
  proof (cases "getOffset s \<ge> length buf")
    case False
    then have "encode_safe (n - getOffset s) (spn_encode s (drop (getOffset s) buf))"
      using spn_encode_safe [of "drop (getOffset s) buf" s] 2(2) by simp
    with False 2 show ?thesis
      by (auto simp: Let_def intro!: encode_safe_bind)
  qed (simp add: Let_def)
qed simp

lemma generic_encode_safe: "length buf = n \<Longrightarrow> encode_safe n (generic_encodeData g buf)"
  by (simp add: generic_encodeData_def encode_spns_safe)

lemma encode_dtcs_safe:
  "length buf = n \<Longrightarrow> off + 4 * length ds \<le> n \<Longrightarrow> encode_safe n (encode_dtcs ds off buf)"
proof (induction ds off buf rule: encode_dtcs.induct)
  case (2 d ds off buf)
  have "encode_safe n (dtc_encode d off buf)"
    using 2(2,3) by (simp add: dtc_encode_def encode_safe_poke)
  then show ?case
    using 2 by (auto intro!: encode_safe_bind)
qed simp

lemma dm1_encode_safe:
  assumes "length buf = n" and "n = dm1_getDataLength f"
  shows "encode_safe n (dm1_encodeData f buf)"
proof -
  define k where "k = generic_getDataLength (mGeneric f)"
  have len: "k + 4 * length (mDtcs f) \<le> n" "8 \<le> n"
    using assms by (simp_all add: dm1_getDataLength_def k_def Let_def)
  have g: "encode_safe k (generic_encodeData (mGeneric f) (take k buf))"
    using assms(1) len by (intro generic_encode_safe) simp
  have t: "encode_safe n (if k \<noteq> 2 then Inl (J1939EncodeException msg)
       else res_bind (encode_dtcs (mDtcs f) k (b @ drop k buf)) (\<lambda>buffer2.
              if mDtcs f = []
              then res_bind (poke k (replicate 4 0) buffer2) (poke (k + 4) (replicate 2 0xFF))
              else Inr buffer2))"
    if "length b = k" for b msg
  proof (cases "k = 2")
    case True
    have "encode_safe n (encode_dtcs (mDtcs f) k (b @ drop k buf))"
      using that len assms(1) by (intro encode_dtcs_safe) simp_all
    then show ?thesis
      using True len by (auto intro!: encode_safe_bind [where n = n] encode_safe_poke)
  qed simp
  have "\<not> length buf < k" using len assms(1) by simp
  then show ?thesis
    unfolding dm1_encodeData_def Let_def k_def [symmetric]
    by (simp only: if_False) (intro encode_safe_bind [OF g] t)
qed

lemma fms1_fold_safe:
  "\<forall>i \<in> set is. i < 8 \<Longrightarrow> encode_safe 8 r \<Longrightarrow> encode_safe 8 (fold (fms1_encode_byte f) is r)"
proof (induction "is" arbitrary: r)
  case (Cons i "is")
  have "encode_safe 8 (fms1_encode_byte f i r)"
    unfolding fms1_encode_byte_def
    using Cons.prems
    by (intro encode_safe_bind [OF Cons.prems(2)])
       (auto simp: fms1_at_def poke_def split: option.splits)
  with Cons show ?case by simp
qed simp

lemma fms1_encode_safe: "length buf = 8 \<Longrightarrow> encode_safe 8 (fms1_encodeData f buf)"
  unfolding fms1_encodeData_def
  by (auto intro!: fms1_fold_safe simp: fms1_at_def poke_def split: option.splits)

lemma tpcm_encode_safe: "length buf = 8 \<Longrightarrow> encode_safe 8 (tpcm_encodeData m buf)"
  by (simp add: tpcm_encodeData_def poke_def encodeRTS_def encodeCTS_def encodeEndOfMsgACK_def
      encodeConnAbort_def encodeBAM_def)

text \<open>The data array of a \<open>TPDTFrame\<close> has seven bytes; that is all a payload has to satisfy.\<close>

fun payload_sized :: "payload \<Rightarrow> bool" where
  "payload_sized (TPDT m) = tpdt_valid m"
| "payload_sized _ = True"

lemma payload_encode_safe:
  assumes "payload_sized p" and "length buf = payload_getDataLength p"
  shows "encode_safe (payload_getDataLength p) (payload_encodeData p buf)"
proof (cases p)
  case (AddrClaim m)
  then show ?thesis
    using assms by (auto simp: addrclaim_encodeData_def addrclaim_getDataLength_def ecu_bytes_def
        intro!: encode_safe_poke)
qed (use assms in \<open>auto simp: tpcm_encode_safe tpcm_getDataLength_def tpdt_getDataLength_def
       tpdt_encodeData_def tpdt_valid_def fms1_getDataLength_def fms1_encode_safe dm1_encode_safe
       request_encodeData_def request_getDataLength_def generic_encode_safe intro!: encode_safe_poke\<close>)

lemma jframe_encode_safe:
  assumes "payload_sized (mBody f)"
  shows "jframe_encode f (jframe_getDataLength f) \<noteq> Inl UndefinedBehaviour"
    and "jframe_encode f (jframe_getDataLength f) = Inr (i, bs, n) \<Longrightarrow>
      i = getIdentifier f \<and> length bs = n \<and> n = jframe_getDataLength f"
proof -
  let ?n = "payload_getDataLength (mBody f)"
  have s: "encode_safe ?n (payload_encodeData (mBody f) (replicate ?n 0xFF))"
    using assms by (intro payload_encode_safe) simp_all
  then show "jframe_encode f (jframe_getDataLength f) \<noteq> Inl UndefinedBehaviour"
    by (cases "payload_encodeData (mBody f) (replicate ?n 0xFF)")
       (auto simp: jframe_encode_def frame_encode_def jframe_getDataLength_def Let_def)
  show "i = getIdentifier f \<and> length bs = n \<and> n = jframe_getDataLength f"
    if "jframe_encode f (jframe_getDataLength f) = Inr (i, bs, n)"
    using that s by (auto simp: jframe_encode_def frame_encode_Inr jframe_getDataLength_def)
qed

end
