(* ===== verification/Sender.thy ===== *)
theory Sender
  imports Bam CanSender CanEasy EncodeSafe StdString
begin

text \<open>
  \<open>j1939Sender\<close> (\<open>BinUtils/j1939Sender/src/j1939Sender.cpp\<close>), first part: the state of the program and
  how a J1939 frame gets to and from the periodic senders of the interfaces. The global variables
  are the record \<open>shell\<close>; standard error is the list \<open>sh_cerr\<close> of the lines written to it, while
  what goes to standard output is not modelled. The second part, the commands, is \<open>SenderShell\<close>.
\<close>

section \<open>State and results\<close>

text \<open>
  How the program ends: \<open>exit(0)\<close>, an exception of the library that nothing catches (or undefined
  behaviour), an exception of the standard library that nothing catches.
\<close>

datatype halt = Exit | Died exc | DiedStd std_exc

type_synonym 'a run = "halt + 'a"

fun run_bind :: "'a run \<Rightarrow> ('a \<Rightarrow> 'b run) \<Rightarrow> 'b run" where
  "run_bind (Inl h) f = Inl h"
| "run_bind (Inr a) f = f a"

fun lift_res :: "'a res \<Rightarrow> 'a run" where
  "lift_res (Inl e) = Inl (Died e)"
| "lift_res (Inr a) = Inr a"

lemma run_bind_Inr_iff: "run_bind m f = Inr b \<longleftrightarrow> (\<exists>a. m = Inr a \<and> f a = Inr b)"
  by (cases m) auto

lemma run_bind_Inl_iff: "run_bind m f = Inl h \<longleftrightarrow> m = Inl h \<or> (\<exists>a. m = Inr a \<and> f a = Inl h)"
  by (cases m) auto

lemma lift_res_iff [simp]:
  "lift_res m = Inr a \<longleftrightarrow> m = Inr a" "lift_res m = Inl (Died e) \<longleftrightarrow> m = Inl e"
  "lift_res m \<noteq> Inl Exit" "lift_res m \<noteq> Inl (DiedStd x)"
  by (cases m; auto)+

text \<open>
  \<open>sh_rings\<close> holds the rings of the sender of each interface, \<open>sh_once\<close> what was given to a back end
  outside the rings.
\<close>

record shell =
  sh_framesToSend :: "(string, jframe) smap"
  sh_framePeriods :: "(string, u32) smap"
  sh_fms1Frames :: "fms1 frame list"
  sh_ttsPeriod :: u32
  sh_factory :: factory
  sh_easy :: can_easy
  sh_rings :: "iface \<Rightarrow> ring list"
  sh_once :: "(iface \<times> CanFrame) list"
  sh_cerr :: "string list"

definition cerr :: "string \<Rightarrow> shell \<Rightarrow> shell" where
  "cerr line s = s\<lparr>sh_cerr := sh_cerr s @ [line]\<rparr>"

text \<open>\<open>CanEasy::getSender\<close> gives a null pointer for an interface without a sender.\<close>

definition with_sender :: "iface \<Rightarrow> (ring list \<Rightarrow> ring list) \<Rightarrow> shell \<Rightarrow> shell run" where
  "with_sender i f s =
     (case getSender i (sh_easy s) of
        None \<Rightarrow> Inl (Died UndefinedBehaviour)
      | Some b \<Rightarrow> Inr (s\<lparr>sh_rings := (sh_rings s)(i := f (sh_rings s i))\<rparr>))"

definition send_once :: "iface \<Rightarrow> CanFrame \<Rightarrow> shell \<Rightarrow> shell run" where
  "send_once i f s =
     (case getSender i (sh_easy s) of
        None \<Rightarrow> Inl (Died UndefinedBehaviour)
      | Some b \<Rightarrow> Inr (s\<lparr>sh_once := sh_once s @ [(i, f)]\<rparr>))"

section \<open>From frames to CAN frames\<close>

text \<open>Each frame is encoded into a fresh buffer of its length; one \<open>CanFrame\<close> is filled again and
  again.\<close>

fun can_frames :: "jframe list \<Rightarrow> CanFrame \<Rightarrow> CanFrame list res" where
  "can_frames [] canFrame = Inr []"
| "can_frames (f # fs) canFrame =
     res_bind (jframe_encode f (jframe_getDataLength f)) (\<lambda>(ident, buff, len).
       let c = snd (cf_setData (take len buff) (canFrame\<lparr>cf_mId := ident\<rparr>))
       in res_bind (can_frames fs c) (\<lambda>cs. Inr (c # cs)))"

definition bam_of :: "jframe \<Rightarrow> jframe list res" where
  "bam_of f =
     (case fragment f BamFragmenter of
        Inl (e, b) \<Rightarrow> Inl e
      | Inr (ok, b) \<Rightarrow> Inr (bam_frames b))"

definition sendFrameThroughInterface :: "jframe \<Rightarrow> iface \<Rightarrow> u32 \<Rightarrow> shell \<Rightarrow> shell run" where
  "sendFrameThroughInterface f interface period s =
     (if jframe_getDataLength f > MAX_CAN_DATA_SIZE
      then run_bind (lift_res (res_bind (bam_of f) (\<lambda>fs. can_frames fs (CanFrame_default True))))
             (\<lambda>canFrames. with_sender interface (\<lambda>r. snd (sendFrames canFrames period None r)) s)
      else run_bind (lift_res (can_frames [f] (CanFrame_default True)))
             (\<lambda>canFrames.
               if period = 0 then send_once interface (hd canFrames) s
               else with_sender interface (\<lambda>r. snd (sendFrame (hd canFrames) period None r)) s))"

text \<open>The identifiers a frame is sent under.\<close>

definition wire_ids :: "jframe \<Rightarrow> u32 list res" where
  "wire_ids f =
     (if jframe_getDataLength f > MAX_CAN_DATA_SIZE
      then res_bind (bam_of f) (\<lambda>fs. Inr (map getIdentifier fs))
      else Inr [getIdentifier f])"

definition isFrameSent :: "jframe \<Rightarrow> iface \<Rightarrow> shell \<Rightarrow> bool run" where
  "isFrameSent f interface s =
     run_bind (lift_res (wire_ids f)) (\<lambda>ids.
       case getSender interface (sh_easy s) of
         None \<Rightarrow> Inl (Died UndefinedBehaviour)
       | Some b \<Rightarrow> Inr (isSent ids (sh_rings s interface)))"

text \<open>The loops over the initialized interfaces.\<close>

fun unsend_ifaces :: "iface list \<Rightarrow> (iface \<Rightarrow> bool) \<Rightarrow> u32 list \<Rightarrow> shell \<Rightarrow> (bool \<times> shell) run" where
  "unsend_ifaces [] wanted ids s = Inr (False, s)"
| "unsend_ifaces (i # is) wanted ids s =
     (if wanted i
      then run_bind (with_sender i (unSendFrames ids) s) (\<lambda>s'.
           run_bind (unsend_ifaces is wanted ids s') (\<lambda>(found, s''). Inr (True, s'')))
      else unsend_ifaces is wanted ids s)"

definition unsendFrameThroughInterface :: "jframe \<Rightarrow> string \<Rightarrow> shell \<Rightarrow> shell run" where
  "unsendFrameThroughInterface f interface s =
     run_bind (lift_res (wire_ids f)) (\<lambda>ids.
     run_bind (unsend_ifaces (ez_mInitializedIfaces (sh_easy s))
                 (\<lambda>i. interface = [] \<or> to_iface interface = i) ids s) (\<lambda>(found, s').
       Inr (if found then s' else cerr ''Frame not sent through the given interface...'' s')))"

fun notify_ifaces :: "iface list \<Rightarrow> jframe \<Rightarrow> u32 \<Rightarrow> shell \<Rightarrow> shell run" where
  "notify_ifaces [] f period s = Inr s"
| "notify_ifaces (i # is) f period s =
     run_bind (isFrameSent f i s) (\<lambda>sent.
     run_bind (if sent then sendFrameThroughInterface f i period s else Inr s)
       (notify_ifaces is f period))"

definition notifySender :: "jframe \<Rightarrow> u32 \<Rightarrow> shell \<Rightarrow> shell run" where
  "notifySender f period s = notify_ifaces (ez_mInitializedIfaces (sh_easy s)) f period s"

section \<open>The tell tales\<close>

definition ttsFramesToCanFrames :: "fms1 frame list \<Rightarrow> CanFrame list run" where
  "ttsFramesToCanFrames fs = lift_res (can_frames (map (as_frame FMS1P) fs) (CanFrame_default True))"

definition tts_ids :: "shell \<Rightarrow> u32 list" where
  "tts_ids s = map getIdentifier (sh_fms1Frames s)"

text \<open>Sent again from every interface that sends them.\<close>

fun resend_tts :: "iface list \<Rightarrow> u32 list \<Rightarrow> shell \<Rightarrow> shell run" where
  "resend_tts [] ids s = Inr s"
| "resend_tts (i # is) ids s =
     (case getSender i (sh_easy s) of
        None \<Rightarrow> Inl (Died UndefinedBehaviour)
      | Some b \<Rightarrow>
          if isSent ids (sh_rings s i)
          then run_bind (ttsFramesToCanFrames (sh_fms1Frames s)) (\<lambda>frames.
               run_bind (with_sender i (\<lambda>r. snd (sendFrames frames (sh_ttsPeriod s) None r)) s)
                 (resend_tts is ids))
          else resend_tts is ids s)"

section \<open>What is put on the bus\<close>

text \<open>The CAN frames of a frame, and their identifiers.\<close>

definition wire_frames :: "jframe \<Rightarrow> CanFrame list res" where
  "wire_frames f =
     (if jframe_getDataLength f > MAX_CAN_DATA_SIZE
      then res_bind (bam_of f) (\<lambda>fs. can_frames fs (CanFrame_default True))
      else can_frames [f] (CanFrame_default True))"

lemma sendFrameThroughInterface_eq:
  "sendFrameThroughInterface f i period s =
     run_bind (lift_res (wire_frames f)) (\<lambda>cs.
       if jframe_getDataLength f \<le> MAX_CAN_DATA_SIZE \<and> period = 0 then send_once i (hd cs) s
       else with_sender i (\<lambda>r. snd (sendFrames cs period None r)) s)"
proof (cases "jframe_getDataLength f > MAX_CAN_DATA_SIZE")
  case False
  have "\<exists>c. cs = [c]" if "can_frames [f] c0 = Inr cs" for c0 cs
    using that by (auto simp: res_bind_Inr_iff split_beta)
  with False show ?thesis
    by (cases "can_frames [f] (CanFrame_default True)")
       (fastforce simp: sendFrameThroughInterface_def wire_frames_def sendFrame_def)+
qed (simp add: sendFrameThroughInterface_def wire_frames_def)

lemma can_frames_ids: "can_frames fs c = Inr cs \<Longrightarrow> map cf_mId cs = map getIdentifier fs"
proof (induction fs arbitrary: c cs)
  case (Cons f fs)
  then obtain ident buff len cs' where
    e: "jframe_encode f (jframe_getDataLength f) = Inr (ident, buff, len)"
    and cs: "cs = snd (cf_setData (take len buff) (c\<lparr>cf_mId := ident\<rparr>)) # cs'"
      "can_frames fs (snd (cf_setData (take len buff) (c\<lparr>cf_mId := ident\<rparr>))) = Inr cs'"
    by (auto simp: res_bind_Inr_iff Let_def)
  moreover have "ident = getIdentifier f"
    using e by (simp add: jframe_encode_def frame_encode_Inr)
  ultimately show ?case using Cons.IH [OF cs(2)] by (simp add: cf_setData_def)
qed simp

lemma wire_ids_frames: "wire_frames f = Inr cs \<Longrightarrow> wire_ids f = Inr (map cf_mId cs)"
  by (auto simp: wire_frames_def wire_ids_def res_bind_Inr_iff split: if_splits dest: can_frames_ids
      simp del: can_frames.simps)

lemma wire_frames_not_Nil: "wire_frames f = Inr cs \<Longrightarrow> cs \<noteq> []"
  by (auto simp: wire_frames_def res_bind_Inr_iff bam_of_def bam_frames_def split: if_splits sum.splits
      dest!: can_frames_ids simp del: can_frames.simps)

text \<open>Nothing of this is undefined.\<close>

lemma fold_put_values:
  "snd ` set (fold (\<lambda>i. smap_put (k i) (g i)) is m) \<subseteq> snd ` set m \<union> g ` set is"
proof (induction "is" arbitrary: m)
  case (Cons i "is")
  have "set (smap_put (k i) (g i) m) \<subseteq> insert (k i, g i) (set m)"
    by (induction m) (auto split: if_splits)
  then have "snd ` set (smap_put (k i) (g i) m) \<subseteq> insert (g i) (snd ` set m)" by force
  with Cons [of "smap_put (k i) (g i) m"] show ?case by auto
qed simp

lemma tpdt_valid_data_frame: "tpdt_valid (mBody (data_frame f data i))"
  by (simp add: data_frame_def Let_def setDstAddr_def setSrcAddr_def setPriority_def)

lemma bam_of_safe:
  assumes "payload_sized (mBody f)"
  shows "bam_of f \<noteq> Inl UndefinedBehaviour"
    and "bam_of f = Inr fs \<Longrightarrow> g \<in> set fs \<Longrightarrow> payload_sized (mBody g)"
proof -
  show "bam_of f \<noteq> Inl UndefinedBehaviour"
    using jframe_encode_safe(1) [OF assms]
    by (auto simp: bam_of_def fragment_def Let_def split: sum.splits)
  assume "bam_of f = Inr fs" and "g \<in> set fs"
  then obtain b ok where b: "fragment f BamFragmenter = Inr (ok, b)" "g \<in> set (bam_frames b)"
    by (auto simp: bam_of_def split: sum.splits)
  then have "\<forall>d \<in> snd ` set (mDTFrames b). tpdt_valid (mBody d)"
  proof -
    have "snd ` set (fold (\<lambda>i. smap_put (of_nat (i + 1) :: u8) (data_frame f data i)) [0 ..< n] []) \<subseteq>
        data_frame f data ` {0 ..< n}" for data n
      using fold_put_values [of "\<lambda>i. of_nat (i + 1) :: u8" "data_frame f data" "[0 ..< n]" "[]"] by simp
    then show ?thesis
      using b(1) tpdt_valid_data_frame
      by (fastforce simp: fragment_def Let_def BamFragmenter_def split: if_splits sum.splits)
  qed
  then show "payload_sized (mBody g)"
    using b(2) by (auto simp: bam_frames_def getDataFrames_def)
qed

lemma can_frames_safe:
  "(\<And>f. f \<in> set fs \<Longrightarrow> payload_sized (mBody f)) \<Longrightarrow> can_frames fs c \<noteq> Inl UndefinedBehaviour"
proof (induction fs arbitrary: c)
  case (Cons f fs)
  then show ?case
    using jframe_encode_safe(1) [of f] by (auto simp: res_bind_Inl_iff Let_def)
qed simp

lemma wire_safe:
  assumes "payload_sized (mBody f)"
  shows "wire_frames f \<noteq> Inl UndefinedBehaviour" and "wire_ids f \<noteq> Inl UndefinedBehaviour"
  using bam_of_safe [OF assms] can_frames_safe can_frames_safe [of "[f]"] assms
  by (auto simp: wire_frames_def wire_ids_def res_bind_Inl_iff simp del: can_frames.simps)

section \<open>Invariant\<close>

text \<open>
  \<open>run_ok Q r\<close>: the program goes on in a state with \<open>Q\<close>, or ends in another way than by undefined
  behaviour.
\<close>

definition run_ok :: "('a \<Rightarrow> bool) \<Rightarrow> 'a run \<Rightarrow> bool" where
  "run_ok Q r \<longleftrightarrow> (case r of Inl h \<Rightarrow> h \<noteq> Died UndefinedBehaviour | Inr a \<Rightarrow> Q a)"

lemma run_ok_simps [simp]:
  "run_ok Q (Inr a) \<longleftrightarrow> Q a" "run_ok Q (Inl h) \<longleftrightarrow> h \<noteq> Died UndefinedBehaviour"
  by (simp_all add: run_ok_def)

lemma run_ok_bind: "run_ok Q m \<Longrightarrow> (\<And>a. Q a \<Longrightarrow> run_ok R (f a)) \<Longrightarrow> run_ok R (run_bind m f)"
  by (cases m) simp_all

lemma run_ok_mono: "run_ok Q m \<Longrightarrow> (\<And>a. Q a \<Longrightarrow> R a) \<Longrightarrow> run_ok R m"
  by (cases m) simp_all

lemma run_ok_lift: "m \<noteq> Inl UndefinedBehaviour \<Longrightarrow> (\<And>a. m = Inr a \<Longrightarrow> Q a) \<Longrightarrow> run_ok Q (lift_res m)"
  by (cases m) auto

text \<open>
  A frame has the class of its PGN; the interfaces that are initialized have a sender; no sender has
  two rings with the same identifiers.
\<close>

definition frame_ok :: "jframe \<Rightarrow> bool" where
  "frame_ok f \<longleftrightarrow> class_ok f \<and> payload_sized (mBody f)"

definition shell_ok :: "shell \<Rightarrow> bool" where
  "shell_ok s \<longleftrightarrow> smap_ok (sh_framesToSend s) \<and> (\<forall>(n, f) \<in> set (sh_framesToSend s). frame_ok f)
     \<and> factory_ok (sh_factory s) \<and> (\<forall>(p, f) \<in> set (sh_factory s). frame_ok f)
     \<and> (\<forall>i. sender_ok (sh_rings s i))
     \<and> (\<forall>i \<in> set (ez_mInitializedIfaces (sh_easy s)). getSender i (sh_easy s) \<noteq> None)"

text \<open>What every operation guarantees of the state after it.\<close>

definition shell_next :: "shell \<Rightarrow> shell \<Rightarrow> bool" where
  "shell_next s s' \<longleftrightarrow> shell_ok s' \<and> sh_easy s' = sh_easy s \<and> sh_factory s' = sh_factory s"

lemma shell_next_refl: "shell_ok s \<Longrightarrow> shell_next s s"
  by (simp add: shell_next_def)

lemma shell_next_trans: "shell_next s s' \<Longrightarrow> shell_next s' s'' \<Longrightarrow> shell_next s s''"
  by (simp add: shell_next_def)

lemma shell_next_ok [simp]: "shell_next s s' \<Longrightarrow> shell_ok s'"
  by (simp add: shell_next_def)

lemma cerr_fields [simp]:
  "sh_framesToSend (cerr l s) = sh_framesToSend s" "sh_framePeriods (cerr l s) = sh_framePeriods s"
  "sh_fms1Frames (cerr l s) = sh_fms1Frames s" "sh_factory (cerr l s) = sh_factory s"
  "sh_easy (cerr l s) = sh_easy s" "sh_rings (cerr l s) = sh_rings s" "sh_once (cerr l s) = sh_once s"
  "sh_ttsPeriod (cerr l s) = sh_ttsPeriod s"
  by (simp_all add: cerr_def)

lemma shell_next_cerr [simp]: "shell_next s (cerr l s') \<longleftrightarrow> shell_next s s'"
  by (simp add: shell_next_def shell_ok_def)

lemma sender_ok_send: "sender_ok r \<Longrightarrow> sender_ok (snd (sendFrames cs p cb r))"
  using rings.ok_send [of r cs "(p, cb)"] by simp

lemma with_sender_ok:
  assumes "shell_ok s" and "getSender i (sh_easy s) \<noteq> None" and "\<And>r. sender_ok r \<Longrightarrow> sender_ok (f r)"
  shows "run_ok (shell_next s) (with_sender i f s)"
  using assms by (auto simp: with_sender_def shell_next_def shell_ok_def)

lemma send_once_ok:
  "shell_ok s \<Longrightarrow> getSender i (sh_easy s) \<noteq> None \<Longrightarrow> run_ok (shell_next s) (send_once i c s)"
  by (auto simp: send_once_def shell_next_def shell_ok_def)

lemma sendFrameThroughInterface_ok:
  assumes "shell_ok s" and "payload_sized (mBody f)" and "getSender i (sh_easy s) \<noteq> None"
  shows "run_ok (shell_next s) (sendFrameThroughInterface f i period s)"
  unfolding sendFrameThroughInterface_eq
  using assms wire_safe [of f]
  by (auto intro!: run_ok_bind [OF run_ok_lift [where Q = "\<lambda>_. True"]] send_once_ok with_sender_ok sender_ok_send)

lemma isFrameSent_ok:
  assumes "payload_sized (mBody f)" and "getSender i (sh_easy s) \<noteq> None"
  shows "run_ok (\<lambda>_. True) (isFrameSent f i s)"
  unfolding isFrameSent_def
  using assms wire_safe [of f] by (auto intro!: run_ok_bind [OF run_ok_lift [where Q = "\<lambda>_. True"]])

lemma unsend_ifaces_ok:
  assumes "shell_ok s" and "\<forall>i \<in> set is. getSender i (sh_easy s) \<noteq> None"
  shows "run_ok (\<lambda>(found, s'). shell_next s s') (unsend_ifaces is wanted ids s)"
  using assms
proof (induction "is" arbitrary: s)
  case (Cons i "is")
  have u: "sender_ok r \<Longrightarrow> sender_ok (unSendFrames ids r)" for r by (rule rings.ok_unsend)
  have step: "run_ok (shell_next s) (with_sender i (unSendFrames ids) s)"
    using Cons.prems u by (intro with_sender_ok) simp_all
  have rest: "run_ok (\<lambda>(found, s''). shell_next s s'') (unsend_ifaces is wanted ids s')"
    if "shell_next s s'" for s'
    using that Cons.prems
    by (intro run_ok_mono [OF Cons.IH [of s']]) (auto simp: shell_next_def)
  show ?case
    using Cons rest
    by (auto intro!: run_ok_bind [OF step] run_ok_bind [OF rest])
qed (simp add: shell_next_refl)

lemma unsendFrameThroughInterface_ok:
  assumes "shell_ok s" and "payload_sized (mBody f)"
  shows "run_ok (shell_next s) (unsendFrameThroughInterface f interface s)"
proof -
  have r: "run_ok (\<lambda>(found, s'). shell_next s s')
      (unsend_ifaces (ez_mInitializedIfaces (sh_easy s)) wanted ids s)" for wanted ids
    using assms(1) by (intro unsend_ifaces_ok) (simp_all add: shell_ok_def)
  show ?thesis
    unfolding unsendFrameThroughInterface_def
    using wire_safe(2) [OF assms(2)]
    by (intro run_ok_bind [OF run_ok_lift [where Q = "\<lambda>_. True"]] run_ok_bind [OF r]) auto
qed

lemma notify_ifaces_ok:
  assumes "shell_ok s" and "payload_sized (mBody f)" and "\<forall>i \<in> set is. getSender i (sh_easy s) \<noteq> None"
  shows "run_ok (shell_next s) (notify_ifaces is f period s)"
  using assms
proof (induction "is" arbitrary: s)
  case (Cons i "is")
  have step: "run_ok (shell_next s) (if sent then sendFrameThroughInterface f i period s else Inr s)" for sent
    using Cons.prems by (auto simp: shell_next_refl intro!: sendFrameThroughInterface_ok)
  have rest: "run_ok (shell_next s) (notify_ifaces is f period s')" if "shell_next s s'" for s'
    using that Cons.prems
    by (intro run_ok_mono [OF Cons.IH [of s']]) (auto simp: shell_next_def)
  show ?case
    using Cons.prems
    by (auto intro!: run_ok_bind [OF isFrameSent_ok] run_ok_bind [OF step] rest)
qed (simp add: shell_next_refl)

lemma tts_frames_safe: "run_ok (\<lambda>_. True) (ttsFramesToCanFrames fs)"
  unfolding ttsFramesToCanFrames_def
  by (intro run_ok_lift can_frames_safe) auto

lemma resend_tts_ok:
  assumes "shell_ok s" and "\<forall>i \<in> set is. getSender i (sh_easy s) \<noteq> None"
  shows "run_ok (shell_next s) (resend_tts is ids s)"
  using assms
proof (induction "is" arbitrary: s)
  case (Cons i "is")
  have step: "run_ok (shell_next s) (with_sender i (\<lambda>r. snd (sendFrames cs p None r)) s)" for cs p
    using Cons.prems by (intro with_sender_ok sender_ok_send) simp_all
  have rest: "run_ok (shell_next s) (resend_tts is ids s')" if "shell_next s s'" for s'
    using that Cons.prems
    by (intro run_ok_mono [OF Cons.IH [of s']]) (auto simp: shell_next_def)
  show ?case
    using Cons.prems rest [OF shell_next_refl]
    by (auto intro!: run_ok_bind [OF tts_frames_safe] run_ok_bind [OF step] rest split: option.splits)
qed (simp add: shell_next_refl)

end
