(* ===== verification/SenderShell.thy ===== *)
theory SenderShell
  imports Sender
begin

text \<open>
  \<open>j1939Sender\<close>, second part: tokens, the tree of commands and one function per command, each with the
  name it has in \<open>j1939Sender.cpp\<close>. A command works on its argument tokens and on the state; the local
  variables its parameter lambda captures are the other half of the state that the lambda works on. The
  content of script files is an argument.
\<close>

section \<open>Tokens and parameters\<close>

function splitTokens :: "string \<Rightarrow> string list" where
  "splitTokens arguments =
     (let token = takeWhile (\<lambda>c. c \<noteq> CHR '' '') arguments;
          rest = dropWhile (\<lambda>c. c = CHR '' '') (dropWhile (\<lambda>c. c \<noteq> CHR '' '') arguments)
      in if rest = [] then [token] else token # splitTokens rest)"
  by pat_completeness auto

lemma split_rest_shorter:
  "dropWhile (\<lambda>c. c = b) (dropWhile (\<lambda>c. c \<noteq> b) s) \<noteq> [] \<Longrightarrow>
     length (dropWhile (\<lambda>c. c = b) (dropWhile (\<lambda>c. c \<noteq> b) s)) < length s"
proof (induction s)
  case (Cons c s)
  then show ?case
    using length_dropWhile_le [of "\<lambda>c. c = b" s] by (cases "c = b") (auto intro: less_SucI)
qed simp

termination splitTokens
  by (relation "measure length") (simp_all add: split_rest_shorter)

declare splitTokens.simps [simp del]

text \<open>
  \<open>key.find(':') == key.size() - 1\<close> in \<open>size_t\<close>: for an empty key both sides are \<open>npos\<close>.
\<close>

definition ends_with_colon :: "string \<Rightarrow> bool" where
  "ends_with_colon key \<longleftrightarrow> key = [] \<or> (last key = CHR '':'' \<and> CHR '':'' \<notin> set (butlast key))"

fun processCommandParameters ::
  "(string \<Rightarrow> string \<Rightarrow> 'v \<times> shell \<Rightarrow> ('v \<times> shell) run) \<Rightarrow> string list \<Rightarrow> 'v \<times> shell
    \<Rightarrow> ('v \<times> shell) run" where
  "processCommandParameters func [] (v, s) = Inr (v, s)"
| "processCommandParameters func (key # rest) (v, s) =
     (if \<not> ends_with_colon key
      then Inr (v, cerr ''Necessary to add a colon at the end'' s)
      else (case rest of
              [] \<Rightarrow> Inr (v, cerr ''Incomplete arguments for this command'' s)
            | value # rest' \<Rightarrow>
                run_bind (func (butlast key) value (v, s)) (processCommandParameters func rest')))"

text \<open>
  A number among the parameters: \<open>invalid_argument\<close> is caught and reported, \<open>out_of_range\<close> is not
  caught, and a valid one is cut down to \<open>u32\<close> by the assignment.
\<close>

definition with_number ::
  "nat \<Rightarrow> string \<Rightarrow> string \<Rightarrow> (u32 \<Rightarrow> 'v \<times> shell \<Rightarrow> 'v \<times> shell) \<Rightarrow> ('v \<Rightarrow> 'v) \<Rightarrow> 'v \<times> shell
    \<Rightarrow> ('v \<times> shell) run" where
  "with_number base value message ok bad vs =
     (case stoul base value of
        Inr n \<Rightarrow> Inr (ok (ucast n) vs)
      | Inl InvalidArgument \<Rightarrow> Inr (bad (fst vs), cerr message (snd vs))
      | Inl OutOfRange \<Rightarrow> Inl (DiedStd OutOfRange))"

section \<open>Creating and listing frames\<close>

definition find_frame :: "string \<Rightarrow> shell \<Rightarrow> jframe option" where
  "find_frame name s = smap_find (sh_framesToSend s) name"

definition put_frame :: "string \<Rightarrow> jframe \<Rightarrow> shell \<Rightarrow> shell" where
  "put_frame name f s = s\<lparr>sh_framesToSend := smap_put name f (sh_framesToSend s)\<rparr>"

definition create_param :: "string \<Rightarrow> string \<Rightarrow> (string \<times> string \<times> string) \<times> shell
    \<Rightarrow> ((string \<times> string \<times> string) \<times> shell) run" where
  "create_param key value = (\<lambda>((name, pgn, title), s).
     Inr (if key = ''name'' then ((value, pgn, title), s)
          else if key = ''pgn'' then ((name, value, title), s)
          else if key = ''title'' then ((name, pgn, value), s)
          else ((name, pgn, title), s)))"

definition add_created :: "string \<Rightarrow> jframe option \<Rightarrow> shell \<Rightarrow> shell" where
  "add_created name frameToAdd s =
     (case frameToAdd of
        Some f \<Rightarrow> put_frame name f s
      | None \<Rightarrow> cerr ''Frame not recognized...'' s)"

definition parseCreateFrameCommand :: "string list \<Rightarrow> shell \<Rightarrow> shell run" where
  "parseCreateFrameCommand arguments s =
     run_bind (processCommandParameters create_param arguments (([], [], []), s))
       (\<lambda>((name, pgn, title), s).
         if name = [] then Inr (cerr ''No name defined for this frame'' s)
         else if (pgn = []) = (title = []) then Inr (cerr ''Define either pgn or title of frame'' s)
         else if find_frame name s \<noteq> None then Inr (cerr ''Name already in use...'' s)
         else if pgn = []
         then Inr (add_created name (getJ1939Frame_name (sh_factory s) title) s)
         else (case stoul 16 pgn of
                 Inr n \<Rightarrow> Inr (add_created name (getJ1939Frame_pgn (sh_factory s) (ucast n)) s)
               | Inl InvalidArgument \<Rightarrow> Inr (cerr ''PGN is not a number...'' s)
               | Inl OutOfRange \<Rightarrow> Inl (DiedStd OutOfRange)))"

text \<open>
  What is printed of a frame: its name, identifier and data when it can be encoded, its period, and
  the interfaces it is sent from. The \<open>try\<close> block catches the encode exception only.
\<close>

type_synonym listing = "string \<times> (u32 \<times> bytes) option \<times> u32 option \<times> iface list"

fun tx_interfaces :: "iface list \<Rightarrow> jframe \<Rightarrow> shell \<Rightarrow> iface list run" where
  "tx_interfaces [] f s = Inr []"
| "tx_interfaces (i # is) f s =
     run_bind (isFrameSent f i s) (\<lambda>sent.
     run_bind (tx_interfaces is f s) (\<lambda>rest. Inr (if sent then i # rest else rest)))"

definition list_frame :: "string \<Rightarrow> jframe \<Rightarrow> shell \<Rightarrow> (listing \<times> shell) run" where
  "list_frame name f s =
     (let period = smap_find (sh_framePeriods s) name
      in case jframe_encode f (jframe_getDataLength f) of
           Inl (J1939EncodeException m) \<Rightarrow> Inr ((name, None, period, []), cerr m s)
         | Inl e \<Rightarrow> Inl (Died e)
         | Inr (ident, buff, len) \<Rightarrow>
             (case tx_interfaces (ez_mInitializedIfaces (sh_easy s)) f s of
                Inl (Died (J1939EncodeException m)) \<Rightarrow>
                  Inr ((name, Some (ident, buff), period, []), cerr m s)
              | Inl h \<Rightarrow> Inl h
              | Inr is \<Rightarrow> Inr ((name, Some (ident, buff), period, is), s)))"

fun list_frames :: "(string, jframe) smap \<Rightarrow> shell \<Rightarrow> (listing list \<times> shell) run" where
  "list_frames [] s = Inr ([], s)"
| "list_frames ((name, f) # m) s =
     run_bind (list_frame name f s) (\<lambda>(l, s').
     run_bind (list_frames m s') (\<lambda>(ls, s''). Inr (l # ls, s'')))"

definition parseListFramesCommand :: "shell \<Rightarrow> (listing list \<times> shell) run" where
  "parseListFramesCommand s = list_frames (sh_framesToSend s) s"

definition parsePrintFrameCommand :: "string list \<Rightarrow> shell \<Rightarrow> shell" where
  "parsePrintFrameCommand arguments s =
     (if find_frame (last arguments) s \<noteq> None then s else cerr ''Frame not defined...'' s)"

section \<open>Tell tales\<close>

text \<open>A tell tale's number or status: more than a byte is out of range.\<close>

definition list_tts_param :: "string \<Rightarrow> string \<Rightarrow> u8 \<times> shell \<Rightarrow> (u8 \<times> shell) run" where
  "list_tts_param key value vs =
     (if key = ''number''
      then with_number 10 value ''number is not a number...''
             (\<lambda>n (v, s). if n = n AND 0xFF then (ucast n, s) else (v, cerr ''number out of range...'' s))
             id vs
      else Inr vs)"

text \<open>What is listed: whole frames, or the one tell tale asked for; and the interfaces.\<close>

definition parseListTTSCommand ::
  "string list \<Rightarrow> shell \<Rightarrow> ((fms1 frame list \<times> TellTale list \<times> iface list) \<times> shell) run" where
  "parseListTTSCommand arguments s =
     run_bind (if hd arguments \<noteq> ''all'' then processCommandParameters list_tts_param arguments (0, s)
               else Inr (0, s)) (\<lambda>(number, s).
       let fs = sh_fms1Frames s;
           whole = (if number = 0 then fs else []);
           ones = (if number = 0 then []
                   else map (\<lambda>f. getTTS (mBody f) number) (filter (\<lambda>f. hasTTS (mBody f) number) fs));
           is = ez_mInitializedIfaces (sh_easy s)
       in if whole = [] \<and> ones = [] then Inr (([], [], []), s)
          else if list_ex (\<lambda>i. getSender i (sh_easy s) = None) is then Inl (Died UndefinedBehaviour)
          else Inr ((whole, ones, filter (\<lambda>i. isSent (tts_ids s) (sh_rings s i)) is), s))"

definition parseUnsendTTSCommand :: "shell \<Rightarrow> shell run" where
  "parseUnsendTTSCommand s =
     run_bind (unsend_ifaces (ez_mInitializedIfaces (sh_easy s)) (\<lambda>i. True) (tts_ids s) s)
       (\<lambda>(found, s'). Inr s')"

text \<open>The interface counts only when it is initialized; the period goes to a global at once.\<close>

definition send_tts_param :: "string \<Rightarrow> string \<Rightarrow> (string \<times> bool) \<times> shell \<Rightarrow> ((string \<times> bool) \<times> shell) run" where
  "send_tts_param key value vs =
     (if key = ''interface''
      then Inr (if to_iface value \<in> set (ez_mInitializedIfaces (sh_easy (snd vs)))
                then ((value, snd (fst vs)), snd vs) else vs)
      else if key = ''period''
      then with_number 10 value ''Period is not a number...''
             (\<lambda>n ((interface, _), s). ((interface, True), s\<lparr>sh_ttsPeriod := n\<rparr>)) id vs
      else Inr vs)"

definition parseSendTTSCommand :: "string list \<Rightarrow> shell \<Rightarrow> shell run" where
  "parseSendTTSCommand arguments s =
     run_bind (processCommandParameters send_tts_param arguments (([], False), s))
       (\<lambda>((interface, periodValid), s).
         if \<not> periodValid then Inr (cerr ''Period not defined...'' s)
         else if interface = [] then Inr (cerr ''Interface not defined or not initialized...'' s)
         else run_bind (ttsFramesToCanFrames (sh_fms1Frames s)) (\<lambda>frames.
                with_sender (to_iface interface)
                  (\<lambda>r. snd (sendFrames frames (sh_ttsPeriod s) None r)) s))"

definition set_tts_param :: "string \<Rightarrow> string \<Rightarrow> (u8 \<times> u8) \<times> shell \<Rightarrow> ((u8 \<times> u8) \<times> shell) run" where
  "set_tts_param key value vs =
     (if key = ''number''
      then with_number 10 value ''Number is not a number...''
             (\<lambda>n ((number, status), s). if n = n AND 0xFF then ((ucast n, status), s)
                                       else ((0xFF, status), cerr ''Number out of range...'' s))
             (\<lambda>(number, status). (0xFF, status)) vs
      else if key = ''status''
      then with_number 10 value ''Status is not a number...''
             (\<lambda>n ((number, status), s). if n = n AND 0xFF then ((number, ucast n), s)
                                       else ((number, 0xFF), cerr ''Status out of range...'' s))
             (\<lambda>(number, status). (number, 0xFF)) vs
      else Inr vs)"

text \<open>The first frame that has the tell tale.\<close>

fun set_first_tts :: "u8 \<Rightarrow> u8 \<Rightarrow> fms1 frame list \<Rightarrow> fms1 frame list option" where
  "set_first_tts number status [] = None"
| "set_first_tts number status (f # fs) =
     (if hasTTS (mBody f) number
      then Some (f\<lparr>mBody := snd (setTTS (mBody f) number status)\<rparr> # fs)
      else map_option ((#) f) (set_first_tts number status fs))"

definition parseSetTTSCommand :: "string list \<Rightarrow> shell \<Rightarrow> shell run" where
  "parseSetTTSCommand arguments s =
     run_bind (processCommandParameters set_tts_param arguments ((0xFF, 0xFF), s))
       (\<lambda>((number, status), s).
         if number \<noteq> 0xFF \<and> status \<noteq> 0xFF
         then (case set_first_tts number status (sh_fms1Frames s) of
                 None \<Rightarrow> Inr (cerr ''TTS not found'' s)
               | Some fs \<Rightarrow>
                   let s' = s\<lparr>sh_fms1Frames := fs\<rparr>
                   in resend_tts (ez_mInitializedIfaces (sh_easy s')) (tts_ids s') s')
         else Inr s)"

section \<open>Setting and sending frames\<close>

text \<open>The generic part of a frame, and the static cast to \<open>GenericFrame\<close>.\<close>

fun set_generic :: "generic \<Rightarrow> payload \<Rightarrow> payload" where
  "set_generic g (Generic _) = Generic g"
| "set_generic g (DM1P m) = DM1P (m\<lparr>mGeneric := g\<rparr>)"
| "set_generic g p = p"

text \<open>
  \<open>setFrameSPN\<close>: the SPN is given by its number instead of a pointer; a frame never loses an SPN.
\<close>

definition setFrameSPN :: "jframe \<Rightarrow> string \<Rightarrow> shell \<Rightarrow> (u32 option \<times> shell) run" where
  "setFrameSPN f value s =
     (case payload_generic (mBody f) of
        None \<Rightarrow> Inl (Died UndefinedBehaviour)
      | Some g \<Rightarrow>
          (case stoul 10 value of
             Inr n \<Rightarrow>
               if hasSPN g (ucast n) then Inr (Some (ucast n), s)
               else Inr (None, cerr ''This spn does not belong to the given frame...'' s)
           | Inl InvalidArgument \<Rightarrow> Inr (None, cerr ''spn is not a number...'' s)
           | Inl OutOfRange \<Rightarrow> Inl (DiedStd OutOfRange)))"

definition put_spn_data :: "u32 \<Rightarrow> SPN \<Rightarrow> spn_data \<Rightarrow> generic \<Rightarrow> generic" where
  "put_spn_data k spn d g = g\<lparr>mSPNs := smap_put k (spn\<lparr>mSpnData := d\<rparr>) (mSPNs g)\<rparr>"

definition spn_from_text :: "u32 \<Rightarrow> string \<Rightarrow> generic \<Rightarrow> shell \<Rightarrow> (generic \<times> shell) run" where
  "spn_from_text k value g s =
     (case getSPN g k of
        None \<Rightarrow> Inl (Died UndefinedBehaviour)
      | Some spn \<Rightarrow>
          (case mSpnData spn of
             SpnNumeric spec v \<Rightarrow>
               (case stod value of
                  Inr x \<Rightarrow> Inr (put_spn_data k spn (SpnNumeric spec (snd (setFormattedValue spec v x))) g, s)
                | Inl InvalidArgument \<Rightarrow> Inr (g, cerr ''value is not a number...'' s)
                | Inl OutOfRange \<Rightarrow> Inl (DiedStd OutOfRange))
           | SpnStatus spec v \<Rightarrow>
               (case stoul 10 value of
                  Inr n \<Rightarrow>
                    let valueNumber = ucast n :: u32; status = ucast valueNumber :: u8
                    in if ucast (status AND 0xFF) = valueNumber
                       then (let (ok, v') = status_setValue spec v status
                             in Inr (put_spn_data k spn (SpnStatus spec v') g,
                                     if ok then s else cerr ''Value out of range'' s))
                       else Inr (g, cerr ''Value out of range'' s)
                | Inl InvalidArgument \<Rightarrow> Inr (g, cerr ''value is not a number...'' s)
                | Inl OutOfRange \<Rightarrow> Inl (DiedStd OutOfRange))
           | SpnString off v \<Rightarrow> Inr (generic_setString k (to_bytes value) g, s)))"

definition setFrameValue :: "jframe \<Rightarrow> u32 \<Rightarrow> string \<Rightarrow> shell \<Rightarrow> (jframe \<times> shell) run" where
  "setFrameValue f k value s =
     (case payload_generic (mBody f) of
        None \<Rightarrow> Inl (Died UndefinedBehaviour)
      | Some g \<Rightarrow>
          run_bind (spn_from_text k value g s)
            (\<lambda>(g', s'). Inr (f\<lparr>mBody := set_generic g' (mBody f)\<rparr>, s')))"

text \<open>\<open>parseSetGenericParams\<close>: \<open>None\<close> where it returns false.\<close>

definition parseSetGenericParams ::
  "string \<Rightarrow> string \<Rightarrow> string \<Rightarrow> jframe \<times> shell \<Rightarrow> (jframe \<times> shell) run option" where
  "parseSetGenericParams name key value fs =
     (if key = ''priority''
      then Some (with_number 10 value ''Priority is not a number...''
             (\<lambda>n (f, s). if n = n AND 7 then (snd (setPriority (ucast n) f), s)
                         else (f, cerr ''Priority out of range'' s)) id fs)
      else if key = ''period''
      then Some (with_number 10 value ''Period is not a number...''
             (\<lambda>n (f, s). (f, s\<lparr>sh_framePeriods := smap_put name n (sh_framePeriods s)\<rparr>)) id fs)
      else if key = ''source''
      then Some (with_number 16 value ''Source address is not a number...''
             (\<lambda>n (f, s). if n = n AND 0xFF then (setSrcAddr (ucast n) f, s)
                         else (f, cerr ''Source address out of range'' s)) id fs)
      else if key = ''dest''
      then Some (with_number 16 value ''Destination address is not a number...''
             (\<lambda>n (f, s). if n = n AND 0xFF then (snd (setDstAddr (ucast n) f), s)
                         else (f, cerr ''Destination address out of range'' s)) id fs)
      else None)"

definition set_frame_param ::
  "string \<Rightarrow> string \<Rightarrow> string \<Rightarrow> (jframe \<times> u32 option) \<times> shell
    \<Rightarrow> ((jframe \<times> u32 option) \<times> shell) run" where
  "set_frame_param name key value vs =
     (case vs of ((f, spn), s) \<Rightarrow>
        if key = ''spn''
        then (if \<not> payload_isGenericFrame (mBody f)
              then Inr ((f, spn), cerr ''This frame does not have standard SPNs...'' s)
              else run_bind (setFrameSPN f value s) (\<lambda>(spn', s'). Inr ((f, spn'), s')))
        else if key = ''value''
        then (case spn of
                None \<Rightarrow> Inr ((f, spn), cerr ''No SPN can be assigned with this value...'' s)
              | Some k \<Rightarrow>
                  run_bind (setFrameValue f k value s) (\<lambda>(f', s'). Inr ((f', spn), s')))
        else (case parseSetGenericParams name key value (f, s) of
                None \<Rightarrow> Inr ((f, spn), cerr ''Unknown parameter...'' s)
              | Some r \<Rightarrow> run_bind r (\<lambda>(f', s'). Inr ((f', spn), s'))))"

definition parseSetFrameCommand :: "string list \<Rightarrow> shell \<Rightarrow> shell run" where
  "parseSetFrameCommand arguments s =
     (let name = hd arguments
      in case find_frame name s of
           None \<Rightarrow> Inr (cerr ''Frame not defined...'' s)
         | Some f \<Rightarrow>
             run_bind (processCommandParameters (set_frame_param name) (tl arguments) ((f, None), s))
               (\<lambda>((f', spn), s).
                 let s' = put_frame name f' s
                 in case smap_find (sh_framePeriods s') name of
                      None \<Rightarrow> Inr s'
                    | Some period \<Rightarrow> notifySender f' period s'))"

text \<open>The interface has to be an initialized one.\<close>

definition send_frame_param :: "string \<Rightarrow> string \<Rightarrow> string \<times> shell \<Rightarrow> (string \<times> shell) run" where
  "send_frame_param key value vs =
     Inr (if key = ''interface'' \<and> to_iface value \<in> set (ez_mInitializedIfaces (sh_easy (snd vs)))
          then (value, snd vs) else vs)"

definition parseSendFrameCommand :: "string list \<Rightarrow> shell \<Rightarrow> shell run" where
  "parseSendFrameCommand arguments s =
     (let name = hd arguments
      in case find_frame name s of
           None \<Rightarrow> Inr (cerr ''Frame not defined...'' s)
         | Some f \<Rightarrow>
             run_bind (processCommandParameters send_frame_param (tl arguments) ([], s))
               (\<lambda>(interface, s).
                 if interface = [] then Inr (cerr ''Interface not defined or not initialized...'' s)
                 else sendFrameThroughInterface f (to_iface interface)
                        (case smap_find (sh_framePeriods s) name of None \<Rightarrow> 0 | Some p \<Rightarrow> p) s))"

definition unsend_frame_param :: "string \<Rightarrow> string \<Rightarrow> string \<times> shell \<Rightarrow> (string \<times> shell) run" where
  "unsend_frame_param key value vs = Inr (if key = ''interface'' then (value, snd vs) else vs)"

definition parseUnsendFrameCommand :: "string list \<Rightarrow> shell \<Rightarrow> shell run" where
  "parseUnsendFrameCommand arguments s =
     (case find_frame (hd arguments) s of
        None \<Rightarrow> Inr (cerr ''Frame not defined...'' s)
      | Some f \<Rightarrow>
          run_bind (processCommandParameters unsend_frame_param (tl arguments) ([], s))
            (\<lambda>(interface, s). unsendFrameThroughInterface f interface s))"

section \<open>Trouble codes\<close>

definition dtc_param :: "string \<Rightarrow> string \<Rightarrow> (u32 \<times> u8 \<times> u8) \<times> shell \<Rightarrow> ((u32 \<times> u8 \<times> u8) \<times> shell) run" where
  "dtc_param key value vs =
     (if key = ''spn''
      then with_number 10 value ''Spn is not a number...'' (\<lambda>n ((spn, oc, fmi), s). ((n, oc, fmi), s)) id vs
      else if key = ''oc''
      then with_number 10 value ''Occurrence Count is not a number...''
             (\<lambda>n ((spn, oc, fmi), s). if n = n AND 0x7F then ((spn, ucast n, fmi), s)
                else ((spn, oc, fmi), cerr ''Occurrence Count is out of range...'' s)) id vs
      else if key = ''fmi''
      then with_number 10 value ''Failure Mode Identifier is not a number...''
             (\<lambda>n ((spn, oc, fmi), s). if n = n AND 0x1F then ((spn, oc, ucast n), s)
                else ((spn, oc, fmi), cerr ''Failure Mode Identifier is out of range...'' s)) id vs
      else Inr vs)"

definition parseDtcCommand :: "string list \<Rightarrow> shell \<Rightarrow> (DTC option \<times> shell) run" where
  "parseDtcCommand arguments s =
     run_bind (processCommandParameters dtc_param arguments ((0, 0xFF, 0xFF), s))
       (\<lambda>((spn, oc, fmi), s).
         if spn = 0 then Inr (None, cerr ''SPN not set...'' s)
         else if oc = 0xFF then Inr (None, cerr ''Occurrence Count not set...'' s)
         else if fmi = 0xFF then Inr (None, cerr ''Failure Mode Identifier not set...'' s)
         else Inr (Some \<lparr>mSPN = spn, mFMI = fmi, mOC = oc\<rparr>, s))"

text \<open>The common beginning of the three commands, and the static cast to \<open>DM1\<close>.\<close>

definition with_dm1 :: "string \<Rightarrow> (jframe \<Rightarrow> shell \<Rightarrow> shell run) \<Rightarrow> shell \<Rightarrow> shell run" where
  "with_dm1 name action s =
     (case find_frame name s of
        None \<Rightarrow> Inr (cerr ''Frame not defined...'' s)
      | Some f \<Rightarrow> if mPgn f \<noteq> DM1_PGN then Inr (cerr ''Not a DM1 frame...'' s) else action f s)"

definition update_dm1 :: "string \<Rightarrow> (dm1 \<Rightarrow> dm1) \<Rightarrow> jframe \<Rightarrow> shell \<Rightarrow> shell run" where
  "update_dm1 name upd f s =
     (case mBody f of
        DM1P m \<Rightarrow> Inr (put_frame name (f\<lparr>mBody := DM1P (upd m)\<rparr>) s)
      | _ \<Rightarrow> Inl (Died UndefinedBehaviour))"

definition parseAddDtcCommand :: "string list \<Rightarrow> shell \<Rightarrow> shell run" where
  "parseAddDtcCommand arguments s =
     with_dm1 (hd arguments) (\<lambda>f s.
       run_bind (parseDtcCommand (tl arguments) s) (\<lambda>(d, s).
         case d of None \<Rightarrow> Inr s | Some dtc \<Rightarrow> update_dm1 (hd arguments) (addDTC dtc) f s)) s"

text \<open>
  The position: there may be no token left (\<open>front\<close> of an empty list), and when it is no number the
  variable stays uninitialised, which \<open>None\<close> stands for.
\<close>

definition dtc_position :: "string list \<Rightarrow> shell \<Rightarrow> (nat option \<times> shell) run" where
  "dtc_position arguments s =
     (case arguments of
        [] \<Rightarrow> Inl (Died UndefinedBehaviour)
      | posStr # _ \<Rightarrow>
          (case stoul 10 posStr of
             Inr n \<Rightarrow> Inr (Some (unat n), s)
           | Inl InvalidArgument \<Rightarrow> Inr (None, cerr ''Position is not a number...'' s)
           | Inl OutOfRange \<Rightarrow> Inl (DiedStd OutOfRange)))"

definition parseSetDtcCommand :: "string list \<Rightarrow> shell \<Rightarrow> shell run" where
  "parseSetDtcCommand arguments s =
     with_dm1 (hd arguments) (\<lambda>f s.
       run_bind (dtc_position (tl arguments) s) (\<lambda>(pos, s).
       run_bind (parseDtcCommand (tl (tl arguments)) s) (\<lambda>(d, s).
         case d of
           None \<Rightarrow> Inr s
         | Some dtc \<Rightarrow>
             (case pos of
                None \<Rightarrow> Inl (Died UndefinedBehaviour)
              | Some p \<Rightarrow> update_dm1 (hd arguments) (\<lambda>m. snd (setDTC p dtc m)) f s)))) s"

definition parseDeleteDtcCommand :: "string list \<Rightarrow> shell \<Rightarrow> shell run" where
  "parseDeleteDtcCommand arguments s =
     with_dm1 (hd arguments) (\<lambda>f s.
       run_bind (dtc_position (tl arguments) s) (\<lambda>(pos, s).
         case pos of
           None \<Rightarrow> Inl (Died UndefinedBehaviour)
         | Some p \<Rightarrow> update_dm1 (hd arguments) (\<lambda>m. snd (deleteDTC p m)) f s)) s"

section \<open>Looking up and address claims\<close>

definition get_param :: "string \<Rightarrow> string \<Rightarrow> string \<times> shell \<Rightarrow> (string \<times> shell) run" where
  "get_param key value vs = Inr (if key = ''pgn'' then (value, snd vs) else vs)"

text \<open>Whatever frame is found is cast to \<open>GenericFrame\<close>.\<close>

definition parseGetCommand :: "string list \<Rightarrow> shell \<Rightarrow> shell run" where
  "parseGetCommand arguments s =
     run_bind (processCommandParameters get_param arguments ([], s)) (\<lambda>(pgn, s).
       if pgn = [] then Inr s
       else (case stoul 0 pgn of
               Inr n \<Rightarrow>
                 (case getJ1939Frame_pgn (sh_factory s) (ucast n) of
                    None \<Rightarrow> Inr (cerr ''frame invalid'' s)
                  | Some f \<Rightarrow> if payload_generic (mBody f) = None then Inl (Died UndefinedBehaviour)
                              else Inr s)
             | Inl InvalidArgument \<Rightarrow> Inr (cerr ''PGN is not a number...'' s)
             | Inl OutOfRange \<Rightarrow> Inl (DiedStd OutOfRange)))"

definition send_addr_param ::
  "string \<Rightarrow> string \<Rightarrow> (u8 \<times> u32 \<times> string) \<times> shell \<Rightarrow> ((u8 \<times> u32 \<times> string) \<times> shell) run" where
  "send_addr_param key value vs =
     (case vs of ((addr, ident, interface), s) \<Rightarrow>
        if key = ''addr''
        then (case stoi 0 value of
                Inr n \<Rightarrow> Inr ((word_of_int n, ident, interface), s)
              | Inl InvalidArgument \<Rightarrow> Inr (fst vs, cerr (value @ '' is not a number...'') s)
              | Inl OutOfRange \<Rightarrow> Inl (DiedStd OutOfRange))
        else if key = ''name''
        then with_number 0 value (value @ '' is not a number...'')
               (\<lambda>n ((addr, ident, interface), s). ((addr, n, interface), s)) id vs
        else if key = ''interface'' then Inr ((addr, ident, value), s)
        else Inr vs)"

definition parseSendAddrCommand :: "string list \<Rightarrow> shell \<Rightarrow> shell run" where
  "parseSendAddrCommand arguments s =
     run_bind (processCommandParameters send_addr_param arguments ((0, 0, []), s))
       (\<lambda>((addr, ident, interface), s).
         if ident = 0 \<or> addr = 0 then Inr (cerr ''name or addr invalid'' s)
         else if interface = [] then Inr (cerr ''interface invalid'' s)
         else
           let claim = AddressClaimFrame (EcuName_init\<lparr>mIdNumber := ident\<rparr>);
               f = snd (setDstAddr 0xFF (setSrcAddr addr claim))
           in sendFrameThroughInterface (as_frame AddrClaim f) (to_iface interface) 0 s)"

section \<open>The tree of commands\<close>

text \<open>The two kinds of functions a command can have, by name.\<close>

datatype cmd_func =
    Quit | ListFrames | ListCommands | ListInterfaces | UnsendTTS

datatype cmd_func_args =
    CreateFrame | ListTTS | PrintFrame | SetFrame | SetTTS | SetDtc | SendFrame | SendTTS | SendAddr
  | Exec | UnsendFrame | AddDtc | DeleteDtc | Get

datatype CommandHelper =
  CommandHelper (getCommand: string) (getCmdFunc: "cmd_func option")
    (getCmdFuncWithArgs: "cmd_func_args option") (getSubCommands: "CommandHelper list")

abbreviation cmd_group :: "string \<Rightarrow> CommandHelper list \<Rightarrow> CommandHelper" where
  "cmd_group name subs \<equiv> CommandHelper name None None subs"

abbreviation cmd_plain :: "string \<Rightarrow> cmd_func \<Rightarrow> CommandHelper" where
  "cmd_plain name f \<equiv> CommandHelper name (Some f) None []"

abbreviation cmd_args :: "string \<Rightarrow> cmd_func_args \<Rightarrow> CommandHelper" where
  "cmd_args name f \<equiv> CommandHelper name None (Some f) []"

text \<open>\<open>registerCommands\<close> builds this tree in \<open>baseCommand\<close>.\<close>

definition baseCommand :: CommandHelper where
  "baseCommand = cmd_group []
     [cmd_group ''create'' [cmd_args ''frame'' CreateFrame],
      cmd_plain ''quit'' Quit,
      cmd_group ''list''
        [cmd_plain ''frames'' ListFrames, cmd_plain ''commands'' ListCommands,
         cmd_plain ''interfaces'' ListInterfaces, cmd_args ''tts'' ListTTS],
      cmd_group ''print'' [cmd_args ''frame'' PrintFrame],
      cmd_group ''set''
        [cmd_args ''frame'' SetFrame, cmd_args ''tts'' SetTTS, cmd_args ''dtc'' SetDtc],
      cmd_group ''send''
        [cmd_args ''frame'' SendFrame, cmd_args ''tts'' SendTTS, cmd_args ''addr'' SendAddr],
      cmd_args ''exec'' Exec,
      cmd_group ''unsend'' [cmd_args ''frame'' UnsendFrame, cmd_plain ''tts'' UnsendTTS],
      cmd_group ''add'' [cmd_args ''dtc'' AddDtc],
      cmd_group ''delete'' [cmd_args ''dtc'' DeleteDtc],
      cmd_args ''get'' Get]"

fun find_cmd :: "string \<Rightarrow> CommandHelper list \<Rightarrow> CommandHelper option" where
  "find_cmd arg [] = None"
| "find_cmd arg (c # cs) = (if getCommand c = arg then Some c else find_cmd arg cs)"

text \<open>
  The command found, and the tokens that are left. What is returned is a reference, and the flag says what to: the
  command that was given, or one in a local copy of its subcommands, which is destroyed when the function returns.
\<close>

fun findSubCommand :: "CommandHelper \<Rightarrow> string list \<Rightarrow> (CommandHelper \<times> bool) \<times> string list" where
  "findSubCommand cmd [] = ((cmd, False), [])"
| "findSubCommand cmd (arg # args) =
     (case find_cmd arg (getSubCommands cmd) of
        None \<Rightarrow> ((cmd, False), arg # args)
      | Some c \<Rightarrow> (case findSubCommand c args of ((c', destroyed), rest) \<Rightarrow> ((c', True), rest)))"

fun getSubCommandNames :: "CommandHelper \<Rightarrow> string list" where
  "getSubCommandNames (CommandHelper name f fa subs) =
     (if subs = [] then [name]
      else concat (map (\<lambda>c. map (\<lambda>n. name @ (if name = [] then [] else '' '') @ n)
                              (getSubCommandNames c)) subs))"

section \<open>Running a line\<close>

text \<open>
  A command function gives the new state, and the script that is still to be executed when it is
  \<open>exec\<close>, the only one that calls \<open>parseLine\<close> again.
\<close>

definition parseExecCommand :: "string list \<Rightarrow> shell \<Rightarrow> string option \<times> shell" where
  "parseExecCommand arguments s =
     (if tl arguments = [] then (Some (hd arguments), s) else (None, cerr ''Too many arguments...'' s))"

fun run_cmd_func :: "cmd_func \<Rightarrow> shell \<Rightarrow> shell run" where
  "run_cmd_func Quit s = Inl Exit"
| "run_cmd_func ListFrames s = run_bind (parseListFramesCommand s) (\<lambda>(l, s'). Inr s')"
| "run_cmd_func ListCommands s = Inr s"
| "run_cmd_func ListInterfaces s = Inr s"
| "run_cmd_func UnsendTTS s = parseUnsendTTSCommand s"

definition plainly :: "shell run \<Rightarrow> (string option \<times> shell) run" where
  "plainly r = run_bind r (\<lambda>s. Inr (None, s))"

fun run_cmd_func_args :: "cmd_func_args \<Rightarrow> string list \<Rightarrow> shell \<Rightarrow> (string option \<times> shell) run" where
  "run_cmd_func_args CreateFrame args s = plainly (parseCreateFrameCommand args s)"
| "run_cmd_func_args ListTTS args s =
     plainly (run_bind (parseListTTSCommand args s) (\<lambda>(l, s'). Inr s'))"
| "run_cmd_func_args PrintFrame args s = plainly (Inr (parsePrintFrameCommand args s))"
| "run_cmd_func_args SetFrame args s = plainly (parseSetFrameCommand args s)"
| "run_cmd_func_args SetTTS args s = plainly (parseSetTTSCommand args s)"
| "run_cmd_func_args SetDtc args s = plainly (parseSetDtcCommand args s)"
| "run_cmd_func_args SendFrame args s = plainly (parseSendFrameCommand args s)"
| "run_cmd_func_args SendTTS args s = plainly (parseSendTTSCommand args s)"
| "run_cmd_func_args SendAddr args s = plainly (parseSendAddrCommand args s)"
| "run_cmd_func_args Exec args s = Inr (parseExecCommand args s)"
| "run_cmd_func_args UnsendFrame args s = plainly (parseUnsendFrameCommand args s)"
| "run_cmd_func_args AddDtc args s = plainly (parseAddDtcCommand args s)"
| "run_cmd_func_args DeleteDtc args s = plainly (parseDeleteDtcCommand args s)"
| "run_cmd_func_args Get args s = plainly (parseGetCommand args s)"

text \<open>The tokens of a line: \<open>None\<close> for an empty line and one that starts with a comment.\<close>

definition line_tokens :: "string \<Rightarrow> string list option" where
  "line_tokens line =
     (if line = [] \<or> hd line = CHR ''#'' then None
      else Some (splitTokens (takeWhile (\<lambda>c. c \<noteq> CHR ''#'') line)))"

text \<open>
  \<open>intact\<close> is whether the memory of a destroyed command still reads as before; the language does not promise it, and
  without it reading the command is undefined.
\<close>

definition parseLine :: "bool \<Rightarrow> string \<Rightarrow> shell \<Rightarrow> (string option \<times> shell) run" where
  "parseLine intact line s =
     (case line_tokens line of
        None \<Rightarrow> Inr (None, s)
      | Some ts \<Rightarrow>
          (let ((cmd, destroyed), tokens) = findSubCommand baseCommand ts
           in if destroyed \<and> \<not> intact then Inl (Died UndefinedBehaviour)
              else case (getCmdFuncWithArgs cmd, getCmdFunc cmd) of
                (None, None) \<Rightarrow> Inr (None, cerr ''This command does not exist'' s)
              | (fa, f) \<Rightarrow>
                  if tokens \<noteq> [] \<and> fa \<noteq> None then run_cmd_func_args (the fa) tokens s
                  else if tokens = [] \<and> f \<noteq> None then plainly (run_cmd_func (the f) s)
                  else Inr (None, cerr ''This command does need arguments'' s)))"

text \<open>
  \<open>execScript\<close> and the reading loop of \<open>main\<close>: the lines one after the other, where a script executes
  its own lines first. \<open>files\<close> gives the lines of a file that can be opened. The recursion need not
  end: a script may execute itself.
\<close>

partial_function (option) run_lines ::
  "bool \<Rightarrow> (string \<Rightarrow> string list option) \<Rightarrow> string list \<Rightarrow> shell \<Rightarrow> shell run option" where
  "run_lines intact files lines s =
     (case lines of
        [] \<Rightarrow> Some (Inr s)
      | line # rest \<Rightarrow>
          (case parseLine intact line s of
             Inl h \<Rightarrow> Some (Inl h)
           | Inr (script, s1) \<Rightarrow>
               (case script of
                  None \<Rightarrow> run_lines intact files rest s1
                | Some file \<Rightarrow>
                    (case files file of
                       None \<Rightarrow> run_lines intact files rest (cerr ''Could not open the script file...'' s1)
                     | Some script_lines \<Rightarrow>
                         Option.bind (run_lines intact files script_lines s1)
                           (\<lambda>r. case r of Inl h \<Rightarrow> Some (Inl h) | Inr s2 \<Rightarrow> run_lines intact files rest s2)))))"

section \<open>Start\<close>

text \<open>
  \<open>main\<close> after the database is read: \<open>database\<close> are its frames, \<open>ref\<close> numbers the DM1 prototype's
  specifications, \<open>ifaces\<close> and \<open>init\<close> are what the back ends answer.
\<close>

definition sender_start ::
  "nat \<Rightarrow> generic frame list \<Rightarrow> (backend \<Rightarrow> iface list) \<Rightarrow> (backend \<Rightarrow> iface \<Rightarrow> bool) \<Rightarrow> shell run" where
  "sender_start ref database ifaces init =
     run_bind (lift_res (J1939Factory ref)) (\<lambda>m.
     run_bind (lift_res (FMS1Frame_of 0)) (\<lambda>f0.
     run_bind (lift_res (FMS1Frame_of 1)) (\<lambda>f1.
     run_bind (lift_res (FMS1Frame_of 2)) (\<lambda>f2.
     run_bind (lift_res (FMS1Frame_of 3)) (\<lambda>f3.
       Inr \<lparr>sh_framesToSend = [], sh_framePeriods = [], sh_fms1Frames = [f0, f1, f2, f3],
            sh_ttsPeriod = 0, sh_factory = snd (registerDatabaseFrames (Some database) m),
            sh_easy = easy_initialize ifaces init
              \<lparr>ez_mSenders = [], ez_mReceivers = [], ez_mInitializedIfaces = [], ez_mHelpers = []\<rparr>,
            sh_rings = (\<lambda>i. []), sh_once = [], sh_cerr = []\<rparr>)))))"

end
