(* ===== verification/SenderSafety.thy ===== *)
theory SenderSafety
  imports SenderShell
begin

text \<open>
  The invariant of \<open>j1939Sender\<close> across its commands, and which of them can run into undefined
  behaviour: each command function gets a rule in the style of a weakest precondition, over the
  judgement \<open>run_ok\<close>.
\<close>

section \<open>The invariant across commands\<close>

text \<open>
  The state of a lambda: \<open>keeps s P\<close> holds of captured variables with \<open>P\<close> and a state that is a
  successor of \<open>s\<close>.
\<close>

definition keeps :: "shell \<Rightarrow> ('v \<Rightarrow> bool) \<Rightarrow> 'v \<times> shell \<Rightarrow> bool" where
  "keeps s P vs \<longleftrightarrow> P (fst vs) \<and> shell_next s (snd vs)"

lemma keeps_simps [simp]: "keeps s P (v, s') \<longleftrightarrow> P v \<and> shell_next s s'"
  by (simp add: keeps_def)

lemma processCommandParameters_ok:
  assumes "\<And>key value vs. keeps s P vs \<Longrightarrow> run_ok (keeps s P) (func key value vs)"
    and "keeps s P vs"
  shows "run_ok (keeps s P) (processCommandParameters func args vs)"
  using assms
proof (induction func args vs rule: processCommandParameters.induct)
  case (2 func key rest v s')
  show ?case
  proof (cases "ends_with_colon key")
    case colon: True
    show ?thesis
    proof (cases rest)
      case (Cons val rest')
      have "run_ok (keeps s P) (run_bind (func (butlast key) val (v, s'))
          (processCommandParameters func rest'))"
        by (rule run_ok_bind [OF 2(2)]) (use 2 Cons colon in \<open>auto\<close>)
      then show ?thesis using colon Cons by simp
    qed (use 2 colon in simp)
  qed (use 2 in simp)
qed simp

lemma with_number_ok:
  assumes "\<And>n vs. keeps s P vs \<Longrightarrow> keeps s P (ok n vs)" and "\<And>v. P v \<Longrightarrow> P (bad v)"
    and "keeps s P vs"
  shows "run_ok (keeps s P) (with_number base num msg ok bad vs)"
  using assms by (auto simp: with_number_def keeps_def split: sum.splits std_exc.splits)

text \<open>The commands start from a state with the invariant.\<close>

lemma params_ok:
  assumes "\<And>key val vs. keeps s P vs \<Longrightarrow> run_ok (keeps s P) (func key val vs)"
    and "shell_ok s" and "P v"
    and "\<And>v' s'. P v' \<Longrightarrow> shell_next s s' \<Longrightarrow> run_ok Q (rest (v', s'))"
  shows "run_ok Q (run_bind (processCommandParameters func args (v, s)) rest)"
proof (rule run_ok_bind)
  show "run_ok (keeps s P) (processCommandParameters func args (v, s))"
    by (rule processCommandParameters_ok) (use assms in \<open>simp_all add: shell_next_refl\<close>)
  show "run_ok Q (rest a)" if "keeps s P a" for a
    using that assms(4) by (cases a) simp
qed

lemma shell_next_put: "shell_next s s' \<Longrightarrow> frame_ok f \<Longrightarrow> shell_next s (put_frame name f s')"
  by (auto simp: shell_next_def shell_ok_def put_frame_def set_smap_put)

lemma shell_next_update [simp]:
  "shell_next s (s'\<lparr>sh_framePeriods := p\<rparr>) \<longleftrightarrow> shell_next s s'"
  "shell_next s (s'\<lparr>sh_ttsPeriod := t\<rparr>) \<longleftrightarrow> shell_next s s'"
  "shell_next s (s'\<lparr>sh_fms1Frames := fs\<rparr>) \<longleftrightarrow> shell_next s s'"
  by (simp_all add: shell_next_def shell_ok_def)

lemma find_frame_ok: "shell_ok s \<Longrightarrow> find_frame name s = Some f \<Longrightarrow> frame_ok f"
  by (auto simp: find_frame_def shell_ok_def smap_find_Some_iff)

lemma initialized_sender:
  "shell_next s s' \<Longrightarrow> i \<in> set (ez_mInitializedIfaces (sh_easy s')) \<Longrightarrow> getSender i (sh_easy s) \<noteq> None"
  by (auto simp: shell_next_def shell_ok_def)

text \<open>The same from a later state.\<close>

lemma with_sender_next:
  assumes "shell_next s s'" and "getSender i (sh_easy s) = Some b" and "\<And>r. sender_ok r \<Longrightarrow> sender_ok (f r)"
  shows "run_ok (shell_next s) (with_sender i f s')"
  using assms
  by (intro run_ok_mono [OF with_sender_ok]) (auto simp: shell_next_def)

lemma send_next:
  assumes "shell_next s s'" and "getSender i (sh_easy s) = Some b" and "frame_ok f"
  shows "run_ok (shell_next s) (sendFrameThroughInterface f i period s')"
  using assms
  by (intro run_ok_mono [OF sendFrameThroughInterface_ok]) (auto simp: shell_next_def frame_ok_def)

lemma factory_frame_ok:
  "shell_ok s \<Longrightarrow> getJ1939Frame_pgn (sh_factory s) pgn = Some f \<Longrightarrow> frame_ok f"
  "shell_ok s \<Longrightarrow> getJ1939Frame_name (sh_factory s) title = Some f \<Longrightarrow> frame_ok f"
proof -
  show "shell_ok s \<Longrightarrow> getJ1939Frame_pgn (sh_factory s) pgn = Some f \<Longrightarrow> frame_ok f"
    by (auto simp: shell_ok_def getJ1939Frame_pgn_def smap_find_Some_iff factory_ok_def)
  have "getJ1939Frame_name m title = Some f \<Longrightarrow> \<exists>p. (p, f) \<in> set m" for m
    by (induction m title rule: getJ1939Frame_name.induct) (auto split: if_splits)
  then show "shell_ok s \<Longrightarrow> getJ1939Frame_name (sh_factory s) title = Some f \<Longrightarrow> frame_ok f"
    by (fastforce simp: shell_ok_def)
qed

lemma add_created_ok:
  assumes "shell_next s s'"
  shows "shell_next s (add_created name (getJ1939Frame_pgn (sh_factory s') pgn) s')"
    and "shell_next s (add_created name (getJ1939Frame_name (sh_factory s') title) s')"
  using assms factory_frame_ok [of s'] shell_next_put [OF assms]
  by (auto simp: add_created_def split: option.splits)

lemma parseCreateFrameCommand_ok: "shell_ok s \<Longrightarrow> run_ok (shell_next s) (parseCreateFrameCommand args s)"
  unfolding parseCreateFrameCommand_def
  by (rule params_ok [where P = "\<lambda>_. True"])
     (auto simp: create_param_def intro!: add_created_ok split: sum.splits std_exc.splits)

lemma tx_interfaces_ok:
  "payload_sized (mBody f) \<Longrightarrow> \<forall>i \<in> set is. getSender i (sh_easy s) \<noteq> None \<Longrightarrow>
     run_ok (\<lambda>_. True) (tx_interfaces is f s)"
proof (induction "is")
  case (Cons i "is")
  have "run_ok (\<lambda>_. True) (isFrameSent f i s)" using Cons.prems by (intro isFrameSent_ok) simp_all
  with Cons show ?case by (auto intro!: run_ok_bind [where Q = "\<lambda>_. True"])
qed simp

lemma list_frame_ok:
  assumes "shell_ok s" and "payload_sized (mBody f)"
  shows "run_ok (\<lambda>(l, s'). shell_next s s') (list_frame name f s)"
proof -
  have "run_ok (\<lambda>_. True) (tx_interfaces (ez_mInitializedIfaces (sh_easy s)) f s)"
    using assms by (intro tx_interfaces_ok) (simp_all add: shell_ok_def)
  then show ?thesis
    using assms jframe_encode_safe(1) [OF assms(2)]
    by (auto simp: list_frame_def Let_def shell_next_refl split: sum.splits exc.splits halt.splits)
qed

lemma list_frames_ok:
  "shell_ok s \<Longrightarrow> \<forall>(n, f) \<in> set m. frame_ok f \<Longrightarrow> run_ok (\<lambda>(l, s'). shell_next s s') (list_frames m s)"
proof (induction m arbitrary: s)
  case (Cons e m)
  obtain name f where e: "e = (name, f)" by force
  have step: "run_ok (\<lambda>(l, s'). shell_next s s') (list_frame name f s)"
    using Cons.prems by (intro list_frame_ok) (auto simp: e frame_ok_def)
  have rest: "run_ok (\<lambda>(ls, s''). shell_next s s'') (list_frames m s')" if "shell_next s s'" for s'
    using that Cons by (intro run_ok_mono [OF Cons.IH]) (auto intro: shell_next_trans)
  show ?case
    unfolding e list_frames.simps
    by (rule run_ok_bind [OF step]) (auto intro!: run_ok_bind [OF rest])
qed (simp add: shell_next_refl)

lemma parseListTTSCommand_ok:
  assumes "shell_ok s"
  shows "run_ok (\<lambda>(l, s'). shell_next s s') (parseListTTSCommand args s)"
proof -
  have p: "run_ok (keeps s (\<lambda>_. True)) (list_tts_param key val vs)"
    if "keeps s (\<lambda>_. True) vs" for key val vs
    using that unfolding list_tts_param_def by (auto intro!: with_number_ok split: prod.splits)
  have r: "run_ok (keeps s (\<lambda>_. True))
      (if hd args \<noteq> ''all'' then processCommandParameters list_tts_param args (0, s) else Inr (0, s))"
    using processCommandParameters_ok [OF p] assms by (simp add: shell_next_refl)
  have "\<not> list_ex (\<lambda>i. getSender i (sh_easy s') = None) (ez_mInitializedIfaces (sh_easy s'))"
    if "shell_next s s'" for s'
    using that by (auto simp: shell_next_def shell_ok_def list_ex_iff)
  then show ?thesis
    unfolding parseListTTSCommand_def
    by (intro run_ok_bind [OF r]) (auto simp: Let_def)
qed

lemma parseUnsendTTSCommand_ok: "shell_ok s \<Longrightarrow> run_ok (shell_next s) (parseUnsendTTSCommand s)"
  unfolding parseUnsendTTSCommand_def
  by (rule run_ok_bind [OF unsend_ifaces_ok]) (auto simp: shell_ok_def)

lemma parseSendTTSCommand_ok:
  assumes "shell_ok s"
  shows "run_ok (shell_next s) (parseSendTTSCommand args s)"
proof -
  let ?P = "\<lambda>(interface, valid). interface = [] \<or> getSender (to_iface interface) (sh_easy s) \<noteq> None"
  have p: "run_ok (keeps s ?P) (send_tts_param key val vs)" if "keeps s ?P vs" for key val vs
    using that unfolding send_tts_param_def
    by (cases vs) (auto intro!: with_number_ok simp: initialized_sender split: prod.splits)
  show ?thesis
    unfolding parseSendTTSCommand_def
    by (rule params_ok [OF p assms])
       (auto intro!: run_ok_bind [OF tts_frames_safe] with_sender_next sender_ok_send)
qed

lemma parseSetTTSCommand_ok:
  assumes "shell_ok s"
  shows "run_ok (shell_next s) (parseSetTTSCommand args s)"
proof -
  have p: "run_ok (keeps s (\<lambda>_. True)) (set_tts_param key val vs)" if "keeps s (\<lambda>_. True) vs" for key val vs
    using that unfolding set_tts_param_def by (auto intro!: with_number_ok split: prod.splits)
  have resend: "run_ok (shell_next s) (resend_tts is ids s')"
    if "shell_next s s'" and "is = ez_mInitializedIfaces (sh_easy s')" for "is" s' ids
    using that by (intro run_ok_mono [OF resend_tts_ok]) (auto simp: shell_next_def shell_ok_def)
  show ?thesis
    unfolding parseSetTTSCommand_def
    by (rule params_ok [OF p assms]) (auto simp: Let_def intro!: resend split: option.splits)
qed

text \<open>Frames keep their class whatever is set in them.\<close>

lemma set_generic_class:
  "payload_generic p = Some g0 \<Longrightarrow> class_pgn (set_generic g p) = class_pgn p
     \<and> payload_sized (set_generic g p) \<and> payload_generic (set_generic g p) = Some g"
  by (cases p) simp_all

lemma setter_simps [simp]:
  "mPgn (snd (setPriority n f)) = mPgn f" "mBody (snd (setPriority n f)) = mBody f"
  "mPgn (setSrcAddr n f) = mPgn f" "mBody (setSrcAddr n f) = mBody f"
  "mPgn (snd (setDstAddr n f)) = mPgn f" "mBody (snd (setDstAddr n f)) = mBody f"
  by (simp_all add: setPriority_def setSrcAddr_def setDstAddr_def)

lemma frame_ok_like:
  "class_pgn (mBody f') = class_pgn (mBody f) \<Longrightarrow> payload_sized (mBody f') = payload_sized (mBody f) \<Longrightarrow>
     mPgn f' = mPgn f \<Longrightarrow> frame_ok f' = frame_ok f"
  by (simp add: frame_ok_def class_ok_def cong: option.case_cong)

lemma frame_ok_setters [simp]:
  "frame_ok (snd (setPriority n f)) = frame_ok f" "frame_ok (setSrcAddr n f) = frame_ok f"
  "frame_ok (snd (setDstAddr n f)) = frame_ok f"
  by (rule frame_ok_like; simp)+

definition spn_there :: "jframe \<Rightarrow> u32 \<Rightarrow> bool" where
  "spn_there f k \<longleftrightarrow> (\<exists>g. payload_generic (mBody f) = Some g \<and> getSPN g k \<noteq> None)"

lemma spn_there_setters [simp]:
  "spn_there (snd (setPriority n f)) = spn_there f" "spn_there (setSrcAddr n f) = spn_there f"
  "spn_there (snd (setDstAddr n f)) = spn_there f"
  by (simp_all add: spn_there_def fun_eq_iff)

lemma recalc_find: "smap_find (recalculateStringOffsets m) k = None \<longleftrightarrow> smap_find m k = None"
proof -
  have "fst ` set (recalculateStringOffsets m) = fst ` set m"
    using spns_alike_keys [OF recalc_alike [of m]] by (metis list.set_map)
  then show ?thesis by (simp add: smap_find_None_iff)
qed

lemma generic_setString_find: "getSPN (generic_setString k v g) k' = None \<longleftrightarrow> getSPN g k' = None"
  by (auto simp: generic_setString_def getSPN_def recalc_find smap_find_put split: option.splits
      spn_data.splits)

lemma put_spn_find: "getSPN (put_spn_data k spn d g) k \<noteq> None"
  by (simp add: getSPN_def put_spn_data_def smap_find_put)

lemma spn_from_text_ok:
  assumes "getSPN g k \<noteq> None" and "shell_next s s'"
  shows "run_ok (\<lambda>(g', s''). getSPN g' k \<noteq> None \<and> shell_next s s'') (spn_from_text k val g s')"
proof -
  obtain spn where spn: "getSPN g k = Some spn" using assms(1) by auto
  have "\<exists>y. getSPN (put_spn_data k spn d g) k = Some y" for d
    using put_spn_find [of k spn d g] by auto
  moreover have "\<exists>y. getSPN (generic_setString k v g) k = Some y" for v
    using generic_setString_find [of k v g k] spn by auto
  ultimately show ?thesis
    using assms(2) spn
    by (auto simp: spn_from_text_def Let_def split: spn_data.splits sum.splits std_exc.splits prod.splits)
qed

lemma setFrameValue_ok:
  assumes "frame_ok f" and "spn_there f k" and "shell_next s s'"
  shows "run_ok (\<lambda>(f', s''). frame_ok f' \<and> spn_there f' k \<and> mPgn f' = mPgn f \<and> shell_next s s'')
           (setFrameValue f k val s')"
proof -
  obtain g where g: "payload_generic (mBody f) = Some g" "getSPN g k \<noteq> None"
    using assms(2) by (auto simp: spn_there_def)
  have "frame_ok (f\<lparr>mBody := set_generic g' (mBody f)\<rparr>)" for g'
    using assms(1) set_generic_class [OF g(1), of g']
    by (subst frame_ok_like [of _ f]) (simp_all add: frame_ok_def)
  moreover have "spn_there (f\<lparr>mBody := set_generic g' (mBody f)\<rparr>) k" if "getSPN g' k \<noteq> None" for g'
    using that set_generic_class [OF g(1), of g'] by (simp add: spn_there_def)
  ultimately show ?thesis
    unfolding setFrameValue_def g(1)
    by (auto intro!: run_ok_bind [OF spn_from_text_ok [OF g(2) assms(3)]])
qed

lemma setFrameSPN_ok:
  assumes "payload_isGenericFrame (mBody f)" and "shell_next s s'"
  shows "run_ok (\<lambda>(k, s''). (\<forall>n. k = Some n \<longrightarrow> spn_there f n) \<and> shell_next s s'') (setFrameSPN f val s')"
proof -
  obtain g where "payload_generic (mBody f) = Some g" using assms(1) by (cases "mBody f") auto
  with assms(2) show ?thesis
    by (auto simp: setFrameSPN_def spn_there_def hasSPN_def getSPN_def split: sum.splits std_exc.splits)
qed

lemma parseSetGenericParams_ok:
  assumes "parseSetGenericParams name key val (f, s') = Some r" and "frame_ok f" and "shell_next s s'"
  shows "run_ok (keeps s (\<lambda>f'. frame_ok f' \<and> mPgn f' = mPgn f \<and> spn_there f' = spn_there f)) r"
proof -
  let ?P = "\<lambda>f'. frame_ok f' \<and> mPgn f' = mPgn f \<and> spn_there f' = spn_there f"
  have "keeps s ?P (f, s')" using assms by simp
  with assms(1) show ?thesis
    by (auto simp: parseSetGenericParams_def split: if_splits prod.splits intro!: with_number_ok)
qed

definition set_frame_inv :: "jframe \<times> u32 option \<Rightarrow> bool" where
  "set_frame_inv v \<longleftrightarrow> frame_ok (fst v) \<and> (\<forall>k. snd v = Some k \<longrightarrow> spn_there (fst v) k)"

lemma set_frame_param_ok:
  assumes "keeps s set_frame_inv vs"
  shows "run_ok (keeps s set_frame_inv) (set_frame_param name key val vs)"
proof -
  obtain f spn s' where vs: "vs = ((f, spn), s')" by (metis prod.exhaust)
  have v: "frame_ok f" "\<And>k. spn = Some k \<Longrightarrow> spn_there f k" "shell_next s s'"
    using assms by (simp_all add: vs set_frame_inv_def)
  consider "key = ''spn''" | "key = ''value''" | "key \<noteq> ''spn''" "key \<noteq> ''value''" by blast
  then show ?thesis
  proof cases
    case 1
    then show ?thesis
      using v by (auto simp: vs set_frame_param_def set_frame_inv_def
          intro!: run_ok_bind [OF setFrameSPN_ok])
  next
    case 2
    then show ?thesis
      using v by (auto simp: vs set_frame_param_def set_frame_inv_def
          intro!: run_ok_bind [OF setFrameValue_ok] split: option.splits)
  next
    case 3
    then show ?thesis
      using v by (auto simp: vs set_frame_param_def set_frame_inv_def keeps_def
          intro!: run_ok_bind [OF parseSetGenericParams_ok] split: option.splits)
  qed
qed

lemma parseSetFrameCommand_ok:
  assumes "shell_ok s"
  shows "run_ok (shell_next s) (parseSetFrameCommand args s)"
proof (cases "find_frame (hd args) s")
  case None
  then show ?thesis using assms by (simp add: parseSetFrameCommand_def shell_next_refl)
next
  case (Some f)
  have notify: "run_ok (shell_next s) (notifySender f' p s')" if "shell_next s s'" "frame_ok f'" for f' p s'
    using that unfolding notifySender_def
    by (intro run_ok_mono [OF notify_ifaces_ok]) (auto simp: shell_next_def shell_ok_def frame_ok_def)
  have f: "set_frame_inv (f, None)" using find_frame_ok [OF assms Some] by (simp add: set_frame_inv_def)
  show ?thesis
    unfolding parseSetFrameCommand_def Let_def Some option.case
    by (rule params_ok [OF set_frame_param_ok assms f])
       (auto simp: set_frame_inv_def intro!: notify shell_next_put split: option.splits)
qed

lemma parseSendFrameCommand_ok:
  assumes "shell_ok s"
  shows "run_ok (shell_next s) (parseSendFrameCommand args s)"
proof (cases "find_frame (hd args) s")
  case None
  then show ?thesis using assms by (simp add: parseSendFrameCommand_def shell_next_refl)
next
  case (Some f)
  let ?P = "\<lambda>interface. interface = [] \<or> getSender (to_iface interface) (sh_easy s) \<noteq> None"
  have p: "run_ok (keeps s ?P) (send_frame_param key val vs)" if "keeps s ?P vs" for key val vs
    using that initialized_sender by (auto simp: send_frame_param_def keeps_def)
  show ?thesis
    unfolding parseSendFrameCommand_def Let_def Some option.case
    by (rule params_ok [OF p assms])
       (use find_frame_ok [OF assms Some] in \<open>auto intro!: send_next split: option.splits\<close>)
qed

lemma parseUnsendFrameCommand_ok:
  assumes "shell_ok s"
  shows "run_ok (shell_next s) (parseUnsendFrameCommand args s)"
proof (cases "find_frame (hd args) s")
  case None
  then show ?thesis using assms by (simp add: parseUnsendFrameCommand_def shell_next_refl)
next
  case (Some f)
  have p: "run_ok (keeps s (\<lambda>_. True)) (unsend_frame_param key val vs)" if "keeps s (\<lambda>_. True) vs" for key val vs
    using that by (auto simp: unsend_frame_param_def keeps_def)
  have u: "run_ok (shell_next s) (unsendFrameThroughInterface f i s')" if "shell_next s s'" for i s'
    using that find_frame_ok [OF assms Some]
    by (intro run_ok_mono [OF unsendFrameThroughInterface_ok]) (auto simp: shell_next_def frame_ok_def)
  show ?thesis
    unfolding parseUnsendFrameCommand_def Some option.case
    by (rule params_ok [OF p assms]) (auto intro: u)
qed

section \<open>Trouble codes, look-ups and address claims\<close>

text \<open>\<open>run_post Q r\<close> says nothing of a run that ends the program.\<close>

definition run_post :: "('a \<Rightarrow> bool) \<Rightarrow> 'a run \<Rightarrow> bool" where
  "run_post Q r \<longleftrightarrow> (\<forall>a. r = Inr a \<longrightarrow> Q a)"

lemma run_post_simps [simp]: "run_post Q (Inr a) \<longleftrightarrow> Q a" "run_post Q (Inl h)"
  by (simp_all add: run_post_def)

lemma run_ok_post: "run_ok Q r \<Longrightarrow> run_post Q r"
  by (cases r) simp_all

lemma run_post_bind: "run_post Q m \<Longrightarrow> (\<And>a. Q a \<Longrightarrow> run_post R (f a)) \<Longrightarrow> run_post R (run_bind m f)"
  by (cases m) simp_all

lemma parseDtcCommand_ok:
  assumes "shell_ok s"
  shows "run_ok (\<lambda>(d, s'). shell_next s s') (parseDtcCommand args s)"
proof -
  have p: "run_ok (keeps s (\<lambda>_. True)) (dtc_param key val vs)" if "keeps s (\<lambda>_. True) vs" for key val vs
    using that unfolding dtc_param_def by (auto intro!: with_number_ok split: prod.splits)
  show ?thesis
    unfolding parseDtcCommand_def by (rule params_ok [OF p assms]) auto
qed

lemma dm1_class: "frame_ok f \<Longrightarrow> mPgn f = DM1_PGN \<Longrightarrow> \<exists>m. mBody f = DM1P m"
  by (cases "mBody f") (auto simp: frame_ok_def class_ok_def reserved_pgns_def)

lemma update_dm1_ok:
  assumes "frame_ok f" and "mPgn f = DM1_PGN" and "shell_next s s'"
  shows "run_ok (shell_next s) (update_dm1 name upd f s')"
proof -
  obtain m where m: "mBody f = DM1P m" using dm1_class [OF assms(1,2)] by blast
  then have "frame_ok (f\<lparr>mBody := DM1P (upd m)\<rparr>)"
    using assms(1) by (subst frame_ok_like [of _ f]) simp_all
  with m assms(3) show ?thesis by (simp add: update_dm1_def shell_next_put)
qed

lemma with_dm1_ok:
  assumes "shell_ok s" and "\<And>f. frame_ok f \<Longrightarrow> mPgn f = DM1_PGN \<Longrightarrow> run_ok (shell_next s) (action f s)"
  shows "run_ok (shell_next s) (with_dm1 name action s)"
  using assms find_frame_ok [OF assms(1)] by (auto simp: with_dm1_def shell_next_refl split: option.splits)

lemma with_dm1_post:
  assumes "shell_ok s" and "\<And>f. frame_ok f \<Longrightarrow> mPgn f = DM1_PGN \<Longrightarrow> run_post (shell_next s) (action f s)"
  shows "run_post (shell_next s) (with_dm1 name action s)"
  using assms find_frame_ok [OF assms(1)] by (auto simp: with_dm1_def shell_next_refl split: option.splits)

lemma parseDtc_next:
  assumes "shell_next s s'"
  shows "run_ok (\<lambda>(d, s''). shell_next s s'') (parseDtcCommand args s')"
  by (rule run_ok_mono [OF parseDtcCommand_ok]) (use assms shell_next_trans in auto)

lemma parseAddDtcCommand_ok: "shell_ok s \<Longrightarrow> run_ok (shell_next s) (parseAddDtcCommand args s)"
  unfolding parseAddDtcCommand_def
  by (rule with_dm1_ok)
     (auto intro!: run_ok_bind [OF parseDtcCommand_ok] update_dm1_ok split: option.splits)

definition position_given :: "string list \<Rightarrow> bool" where
  "position_given args \<longleftrightarrow> args \<noteq> [] \<and> stoul 10 (hd args) \<noteq> Inl InvalidArgument"

lemma dtc_position_ok:
  assumes "shell_ok s"
  shows "run_post (\<lambda>(p, s'). shell_next s s') (dtc_position args s)"
    and "position_given args \<Longrightarrow> run_ok (\<lambda>(p, s'). p \<noteq> None \<and> shell_next s s') (dtc_position args s)"
  using assms
  by (auto simp: dtc_position_def position_given_def shell_next_refl split: list.splits sum.splits std_exc.splits)

lemma parseSetDtcCommand_ok:
  assumes "shell_ok s"
  shows "run_post (shell_next s) (parseSetDtcCommand args s)"
    and "position_given (tl args) \<Longrightarrow> run_ok (shell_next s) (parseSetDtcCommand args s)"
proof -
  show "run_post (shell_next s) (parseSetDtcCommand args s)"
    unfolding parseSetDtcCommand_def
    by (rule with_dm1_post [OF assms])
       (auto intro!: run_post_bind [OF dtc_position_ok(1) [OF assms]] run_post_bind [OF run_ok_post [OF parseDtc_next]]
          run_ok_post [OF update_dm1_ok] split: option.splits)
  show "run_ok (shell_next s) (parseSetDtcCommand args s)" if "position_given (tl args)"
    unfolding parseSetDtcCommand_def
    by (rule with_dm1_ok [OF assms])
       (auto intro!: run_ok_bind [OF dtc_position_ok(2) [OF assms that]] run_ok_bind [OF parseDtc_next]
          update_dm1_ok split: option.splits)
qed

lemma parseDeleteDtcCommand_ok:
  assumes "shell_ok s"
  shows "run_post (shell_next s) (parseDeleteDtcCommand args s)"
    and "position_given (tl args) \<Longrightarrow> run_ok (shell_next s) (parseDeleteDtcCommand args s)"
proof -
  show "run_post (shell_next s) (parseDeleteDtcCommand args s)"
    unfolding parseDeleteDtcCommand_def
    by (rule with_dm1_post [OF assms])
       (auto intro!: run_post_bind [OF dtc_position_ok(1) [OF assms]] run_ok_post [OF update_dm1_ok]
          split: option.splits)
  show "run_ok (shell_next s) (parseDeleteDtcCommand args s)" if "position_given (tl args)"
    unfolding parseDeleteDtcCommand_def
    by (rule with_dm1_ok [OF assms])
       (auto intro!: run_ok_bind [OF dtc_position_ok(2) [OF assms that]] update_dm1_ok split: option.splits)
qed

lemma parseGetCommand_post: "shell_ok s \<Longrightarrow> run_post (shell_next s) (parseGetCommand args s)"
proof -
  assume s: "shell_ok s"
  have p: "run_ok (keeps s (\<lambda>_. True)) (get_param key val vs)" if "keeps s (\<lambda>_. True) vs" for key val vs
    using that by (auto simp: get_param_def keeps_def)
  have k: "run_ok (keeps s (\<lambda>_. True)) (processCommandParameters get_param args ([], s))"
    by (rule processCommandParameters_ok [OF p]) (simp_all add: s shell_next_refl)
  show ?thesis
    unfolding parseGetCommand_def
    by (rule run_post_bind [OF run_ok_post [OF k]])
       (auto split: sum.splits std_exc.splits option.splits)
qed

lemma send_post:
  "shell_next s s' \<Longrightarrow> payload_sized (mBody f) \<Longrightarrow>
     run_post (shell_next s) (sendFrameThroughInterface f i period s')"
proof -
  assume a: "shell_next s s'" "payload_sized (mBody f)"
  show ?thesis
  proof (cases "getSender i (sh_easy s')")
    case None
    then show ?thesis
      by (cases "wire_frames f")
         (auto simp: sendFrameThroughInterface_eq with_sender_def send_once_def)
  next
    case (Some b)
    with a have "run_ok (shell_next s') (sendFrameThroughInterface f i period s')"
      by (intro sendFrameThroughInterface_ok) auto
    then show ?thesis
      by (rule run_ok_post [OF run_ok_mono]) (use a shell_next_trans in blast)
  qed
qed

lemma parseSendAddrCommand_post: "shell_ok s \<Longrightarrow> run_post (shell_next s) (parseSendAddrCommand args s)"
proof -
  assume s: "shell_ok s"
  have p: "run_ok (keeps s (\<lambda>_. True)) (send_addr_param key val vs)" if "keeps s (\<lambda>_. True) vs" for key val vs
  proof -
    obtain a i n s' where vs: "vs = ((a, i, n), s')" by (metis prod.exhaust)
    have n: "run_ok (keeps s (\<lambda>_. True)) (with_number 0 val (val @ '' is not a number...'')
        (\<lambda>n ((addr, ident, interface), s). ((addr, n, interface), s)) id vs)"
      using that by (intro with_number_ok) auto
    show ?thesis
      using that n unfolding vs send_addr_param_def
      by (auto split: sum.splits std_exc.splits)
  qed
  have k: "run_ok (keeps s (\<lambda>_. True)) (processCommandParameters send_addr_param args ((0, 0, []), s))"
    by (rule processCommandParameters_ok [OF p]) (simp_all add: s shell_next_refl)
  show ?thesis
    unfolding parseSendAddrCommand_def
    by (rule run_post_bind [OF run_ok_post [OF k]]) (auto simp: Let_def intro!: send_post)
qed

section \<open>Every line\<close>

text \<open>The commands, with their arguments, that cannot become undefined.\<close>

definition command_defined :: "cmd_func_args \<Rightarrow> string list \<Rightarrow> bool" where
  "command_defined c args \<longleftrightarrow>
     (case c of
        SetDtc \<Rightarrow> position_given (tl args)
      | DeleteDtc \<Rightarrow> position_given (tl args)
      | Get \<Rightarrow> False
      | SendAddr \<Rightarrow> False
      | _ \<Rightarrow> True)"

definition line_defined :: "string \<Rightarrow> bool" where
  "line_defined line \<longleftrightarrow>
     (case line_tokens line of
        None \<Rightarrow> True
      | Some ts \<Rightarrow>
          (case findSubCommand baseCommand ts of ((cmd, destroyed), args) \<Rightarrow>
             (case getCmdFuncWithArgs cmd of None \<Rightarrow> True | Some c \<Rightarrow> command_defined c args)))"

abbreviation next_state :: "shell \<Rightarrow> string option \<times> shell \<Rightarrow> bool" where
  "next_state s r \<equiv> shell_next s (snd r)"

lemma plainly_ok:
  "run_ok (shell_next s) r \<Longrightarrow> run_ok (next_state s) (plainly r)"
  "run_post (shell_next s) r \<Longrightarrow> run_post (next_state s) (plainly r)"
  by (cases r; simp add: plainly_def)+

lemma run_cmd_func_ok:
  assumes "shell_ok s"
  shows "run_ok (shell_next s) (run_cmd_func c s)"
proof (cases c)
  case ListFrames
  have "run_ok (\<lambda>(l, s'). shell_next s s') (list_frames (sh_framesToSend s) s)"
    using assms by (intro list_frames_ok) (auto simp: shell_ok_def)
  then show ?thesis
    unfolding ListFrames run_cmd_func.simps parseListFramesCommand_def by (rule run_ok_bind) auto
qed (use assms in \<open>simp_all add: shell_next_refl parseUnsendTTSCommand_ok\<close>)

lemmas safe_command_rules = parseCreateFrameCommand_ok parseSetFrameCommand_ok parseSetTTSCommand_ok
  parseSendFrameCommand_ok parseSendTTSCommand_ok parseUnsendFrameCommand_ok parseAddDtcCommand_ok

lemma list_tts_state: "shell_ok s \<Longrightarrow>
    run_ok (shell_next s) (run_bind (parseListTTSCommand args s) (\<lambda>(l, s'). Inr s'))"
  by (rule run_ok_bind [OF parseListTTSCommand_ok]) auto

lemma run_cmd_func_args_ok:
  assumes "shell_ok s"
  shows "run_post (next_state s) (run_cmd_func_args c args s)"
    and "command_defined c args \<Longrightarrow> run_ok (next_state s) (run_cmd_func_args c args s)"
proof -
  have e: "shell_next s (snd (parseExecCommand args s))"
    using assms by (simp add: parseExecCommand_def shell_next_refl)
  have p: "shell_next s (parsePrintFrameCommand args s)"
    using assms by (simp add: parsePrintFrameCommand_def shell_next_refl)
  show "run_post (next_state s) (run_cmd_func_args c args s)"
    using assms e p
    by (cases c)
       (auto intro!: plainly_ok(2) safe_command_rules [THEN run_ok_post] list_tts_state [THEN run_ok_post]
          parseSetDtcCommand_ok(1) parseDeleteDtcCommand_ok(1) parseGetCommand_post
          parseSendAddrCommand_post)
  show "run_ok (next_state s) (run_cmd_func_args c args s)" if "command_defined c args"
    using assms e p that
    by (cases c)
       (auto simp: command_defined_def intro!: plainly_ok(1) safe_command_rules list_tts_state
          parseSetDtcCommand_ok(2) parseDeleteDtcCommand_ok(2))
qed

text \<open>A line that names a command of the first level is looked up in a copy that is destroyed.\<close>

definition line_recognised :: "string \<Rightarrow> bool" where
  "line_recognised line \<longleftrightarrow>
     (case line_tokens line of
        None \<Rightarrow> False
      | Some ts \<Rightarrow> ts \<noteq> [] \<and> find_cmd (hd ts) (getSubCommands baseCommand) \<noteq> None)"

lemma findSubCommand_destroyed:
  "snd (fst (findSubCommand cmd ts)) \<longleftrightarrow> ts \<noteq> [] \<and> find_cmd (hd ts) (getSubCommands cmd) \<noteq> None"
  by (cases ts) (auto split: option.splits prod.splits)

lemma line_recognised_Some:
  "line_tokens line = Some ts \<Longrightarrow> findSubCommand baseCommand ts = ((cmd, destroyed), args) \<Longrightarrow> line_recognised line \<longleftrightarrow> destroyed"
  using findSubCommand_destroyed [of baseCommand ts] by (simp add: line_recognised_def)

lemma parseLine_destroyed:
  assumes "\<not> intact" and "line_recognised line"
  shows "parseLine intact line s = Inl (Died UndefinedBehaviour)"
proof (cases "line_tokens line")
  case None
  with assms(2) show ?thesis by (simp add: line_recognised_def)
next
  case (Some ts)
  obtain cmd destroyed args where c: "findSubCommand baseCommand ts = ((cmd, destroyed), args)" by (metis prod.exhaust)
  with assms line_recognised_Some [OF Some c] show ?thesis by (simp add: parseLine_def Some)
qed

lemma parseLine_reads:
  assumes "intact \<or> \<not> line_recognised line"
  shows "parseLine intact line s = parseLine True line s"
proof (cases "line_tokens line")
  case None
  then show ?thesis by (simp add: parseLine_def)
next
  case (Some ts)
  obtain cmd destroyed args where c: "findSubCommand baseCommand ts = ((cmd, destroyed), args)" by (metis prod.exhaust)
  with assms line_recognised_Some [OF Some c] have "\<not> (destroyed \<and> \<not> intact)" by blast
  then show ?thesis by (simp only: parseLine_def Some c option.case Let_def prod.case if_False simp_thms)
qed

lemma parseLine_True_ok:
  assumes "shell_ok s"
  shows "run_post (next_state s) (parseLine True line s)"
    and "line_defined line \<Longrightarrow> run_ok (next_state s) (parseLine True line s)"
proof -
  note f = plainly_ok(1) [OF run_cmd_func_ok [OF assms]]
  have "run_post (next_state s) (parseLine True line s) \<and> (line_defined line \<longrightarrow> run_ok (next_state s) (parseLine True line s))"
  proof (cases "line_tokens line")
    case None
    with assms show ?thesis by (simp add: parseLine_def shell_next_refl)
  next
    case (Some ts)
    obtain cmd destroyed args where c: "findSubCommand baseCommand ts = ((cmd, destroyed), args)" by (metis prod.exhaust)
    show ?thesis
      using assms run_cmd_func_args_ok [OF assms] f f [THEN run_ok_post]
      by (cases "getCmdFuncWithArgs cmd"; cases "getCmdFunc cmd")
         (simp_all add: parseLine_def line_defined_def Some c shell_next_refl)
  qed
  then show "run_post (next_state s) (parseLine True line s)"
    and "line_defined line \<Longrightarrow> run_ok (next_state s) (parseLine True line s)" by simp_all
qed

lemma parseLine_ok:
  assumes "shell_ok s"
  shows "run_post (next_state s) (parseLine intact line s)"
    and "line_defined line \<Longrightarrow> intact \<or> \<not> line_recognised line \<Longrightarrow> run_ok (next_state s) (parseLine intact line s)"
  using parseLine_True_ok [OF assms, of line] parseLine_reads [of intact line s] parseLine_destroyed [of intact line s]
  by (cases "intact \<or> \<not> line_recognised line"; simp)+

section \<open>Scripts\<close>

text \<open>The script a line executes can be told from the line.\<close>

definition script_of :: "string \<Rightarrow> string option" where
  "script_of line =
     (case line_tokens line of
        None \<Rightarrow> None
      | Some ts \<Rightarrow>
          (case findSubCommand baseCommand ts of ((cmd, destroyed), args) \<Rightarrow>
             if getCmdFuncWithArgs cmd = Some Exec \<and> length args = 1 then Some (hd args) else None))"

lemma plainly_Inr: "plainly r = Inr (sc, s') \<longleftrightarrow> r = Inr s' \<and> sc = None"
  by (cases r) (auto simp: plainly_def)

lemma run_cmd_func_args_script:
  "run_cmd_func_args c args s = Inr (Some file, s') \<longleftrightarrow> c = Exec \<and> tl args = [] \<and> file = hd args \<and> s' = s"
  by (cases c) (auto simp: plainly_Inr parseExecCommand_def)

lemma parseLine_script:
  "parseLine True line s = Inr (Some file, s') \<longleftrightarrow> script_of line = Some file \<and> s' = s"
  "parseLine intact line s = Inr (Some file, s') \<Longrightarrow> script_of line = Some file \<and> s' = s"
proof -
  show *: "parseLine True line s = Inr (Some file, s') \<longleftrightarrow> script_of line = Some file \<and> s' = s"
  proof (cases "line_tokens line")
    case None
    then show ?thesis by (simp add: parseLine_def script_of_def)
  next
    case (Some ts)
    obtain cmd destroyed args where c: "findSubCommand baseCommand ts = ((cmd, destroyed), args)" by (metis prod.exhaust)
    have l: "length args = Suc 0 \<longleftrightarrow> args \<noteq> [] \<and> tl args = []" by (cases args) auto
    show ?thesis
      by (cases "getCmdFuncWithArgs cmd"; cases "getCmdFunc cmd")
         (auto simp: parseLine_def script_of_def Some c l plainly_Inr run_cmd_func_args_script)
  qed
  show "script_of line = Some file \<and> s' = s" if "parseLine intact line s = Inr (Some file, s')"
  proof (cases "intact \<or> \<not> line_recognised line")
    case True
    with that * parseLine_reads [OF True] show ?thesis by simp
  next
    case False
    with that parseLine_destroyed [of intact line s] show ?thesis by simp
  qed
qed

declare run_lines.simps [simp del]

lemma run_lines_simps [simp]:
  "run_lines intact files [] s = Some (Inr s)"
  "parseLine intact line s = Inl h \<Longrightarrow> run_lines intact files (line # rest) s = Some (Inl h)"
  "parseLine intact line s = Inr (None, s1) \<Longrightarrow> run_lines intact files (line # rest) s = run_lines intact files rest s1"
  by (subst run_lines.simps; simp)+

lemma run_lines_calls:
  "parseLine intact line s = Inr (Some file, s1) \<Longrightarrow> files file = Some ls \<Longrightarrow> run_lines intact files (line # rest) s =
     Option.bind (run_lines intact files ls s1) (\<lambda>r. case r of Inl h \<Rightarrow> Some (Inl h) | Inr s2 \<Rightarrow> run_lines intact files rest s2)"
  "parseLine intact line s = Inr (Some file, s1) \<Longrightarrow> files file = None \<Longrightarrow> run_lines intact files (line # rest) s =
     run_lines intact files rest (cerr ''Could not open the script file...'' s1)"
  by (subst run_lines.simps; simp)+

lemma scripts_end_below:
  assumes "\<And>file ls line file'. files file = Some ls \<Longrightarrow> line \<in> set ls \<Longrightarrow> script_of line = Some file'
      \<Longrightarrow> rank file' < (rank file :: nat)"
  shows "(\<And>line file. line \<in> set lines \<Longrightarrow> script_of line = Some file \<Longrightarrow> rank file < n) \<Longrightarrow>
      \<exists>r. run_lines intact files lines s = Some r"
proof (induction n arbitrary: lines s rule: less_induct)
  case (less n)
  from less.prems show ?case
  proof (induction lines arbitrary: s)
    case (Cons line rest)
    have rest: "\<exists>r. run_lines intact files rest s' = Some r" for s'
      by (rule Cons.IH) (use Cons.prems in auto)
    show ?case
    proof (cases "parseLine intact line s")
      case (Inr r)
      obtain sc s1 where r: "r = (sc, s1)" by force
      show ?thesis
      proof (cases sc)
        case (Some fl)
        with Inr r have sc: "script_of line = Some fl" using parseLine_script(2) by blast
        show ?thesis
        proof (cases "files fl")
          case None
          with Inr r Some rest show ?thesis by (simp add: run_lines_calls(2))
        next
          case (Some ls)
          have "rank fl < n" by (rule Cons.prems [OF _ sc]) simp
          then have "\<exists>r. run_lines intact files ls s1 = Some r"
            by (rule less.IH) (use assms Some in blast)
          with Inr r \<open>sc = Some fl\<close> Some rest show ?thesis by (auto simp: run_lines_calls(1) split: sum.splits)
        qed
      qed (use Inr r rest in simp)
    qed simp
  qed simp
qed

lemma run_lines_no_self:
  assumes "script_of line = Some file" and "files file = Some (line # rest)"
  shows "run_lines True files (line # tail) s \<noteq> Some r"
proof -
  have "b = True \<and> fs = files \<longrightarrow> (\<forall>tail. ls \<noteq> line # tail)" if "run_lines b fs ls s = Some r" for b fs ls s r
    using that
  proof (induction rule: run_lines.raw_induct [rotated, consumes 1, case_names step])
    case (step rec b fs ls s r)
    show ?case
    proof (intro impI allI notI)
      fix tail assume fs: "b = True \<and> fs = files" and ls: "ls = line # tail"
      have "parseLine True line s = Inr (Some file, s)" using assms(1) parseLine_script(1) by blast
      with step(2) obtain y where "rec True files (line # rest) s = Some y"
        by (auto simp: fs ls assms(2) Option.bind_eq_Some_conv)
      from step(1) [OF this] show False by simp
    qed
  qed
  then show "run_lines True files (line # tail) s \<noteq> Some r" by blast
qed

lemma run_lines_ok:
  "run_lines intact files lines s = Some r \<Longrightarrow> shell_ok s \<longrightarrow> run_post (shell_next s) r"
proof (induction rule: run_lines.raw_induct [rotated, consumes 1, case_names step])
  case (step rec intact files lines s r)
  show ?case
  proof (intro impI)
    assume s: "shell_ok s"
    show "run_post (shell_next s) r"
    proof (cases lines)
      case Nil
      with step(2) s show ?thesis by (auto simp: shell_next_refl)
    next
      case (Cons line rest)
      show ?thesis
      proof (cases "parseLine intact line s")
        case (Inl h)
        with step(2) Cons show ?thesis by auto
      next
        case (Inr p)
        obtain sc s1 where p: "p = (sc, s1)" by force
        have n: "shell_next s s1" using parseLine_ok(1) [OF s, of intact line] by (simp add: Inr p)
        have go: "run_post (shell_next s) r'" if "rec intact files ls s2 = Some r'" "shell_next s s2" for ls s2 r'
          using step(1) [OF that(1)] that(2) by (cases r') (auto intro: shell_next_trans)
        show ?thesis
        proof (cases sc)
          case None
          with step(2) go n show ?thesis by (simp add: Cons Inr p)
        next
          case (Some fl)
          show ?thesis
          proof (cases "files fl")
            case None
            with step(2) go n show ?thesis by (simp add: Cons Inr p Some)
          next
            case (Some ls)
            with step(2) \<open>sc = Some fl\<close> obtain y where y: "rec intact files ls s1 = Some y"
              and r: "(case y of Inl h \<Rightarrow> Some (Inl h) | Inr s2 \<Rightarrow> rec intact files rest s2) = Some r"
              by (auto simp: Cons Inr p Option.bind_eq_Some_conv)
            from go [OF y n] r go show ?thesis by (cases y) auto
          qed
        qed
      qed
    qed
  qed
qed

section \<open>The whole program\<close>

text \<open>
  Between two lines, which come from standard input or a script, the thread of any sender may make
  a pass over its rings.
\<close>

inductive sender_step :: "shell \<Rightarrow> shell \<Rightarrow> bool" where
  line: "parseLine intact line s = Inr (script, s') \<Longrightarrow> sender_step s s'"
| pass: "run_pass now (sh_rings s i) = Inr (sent, rs) \<Longrightarrow>
    sender_step s (s\<lparr>sh_rings := (sh_rings s)(i := rs)\<rparr>)"

lemma ring_send_keeps:
  assumes "ring_send now r = Inr (f, r')" and "ring_ok r"
  shows "ring_ids r' = ring_ids r \<and> ring_ok r'"
proof -
  let ?r = "r\<lparr>rg_mFrames := (rg_mFrames r)[rg_mCurrentpos r := frame_to_send (rg_mCallback r) (rg_mFrames r ! rg_mCurrentpos r)]\<rparr>"
  have ok: "ring_ok ?r" and pos: "rg_mCurrentpos r < length (rg_mFrames r)"
    using assms(2) by (simp_all add: ring_ok_def)
  have "map cf_mId (rg_mFrames ?r) = map cf_mId (rg_mFrames r)"
    using pos by (simp add: map_update frame_to_send_id list_update_same_conv)
  moreover have "ring_ids r' = map cf_mId (rg_mFrames (shift ?r))" and "ring_ok r' = ring_ok (shift ?r)"
    using assms(1) pos
    by (auto simp: ring_send_def getCurrentFrame_def Let_def ring_ids_def ring_ok_def)
  moreover have "(rg_mCurrentpos r + 1) mod length (rg_mFrames r) < length (rg_mFrames r)"
    using pos by (intro mod_less_divisor) auto
  ultimately show ?thesis
    using shift_mod [OF ok] ok by (auto simp: ring_ids_def ring_ok_def)
qed

lemma run_pass_keeps:
  "run_pass now rs = Inr (sent, rs') \<Longrightarrow> \<forall>r \<in> set rs. ring_ok r \<Longrightarrow>
     map ring_ids rs' = map ring_ids rs \<and> (\<forall>r \<in> set rs'. ring_ok r)"
proof (induction rs arbitrary: sent rs')
  case (Cons r rs)
  then obtain fs r' fs' rs'' where r: "ring_tick now r = Inr (fs, r')"
    and rs: "run_pass now rs = Inr (fs', rs'')" "rs' = r' # rs''"
    by (auto simp: res_bind_Inr_iff)
  have "ring_ids r' = ring_ids r \<and> ring_ok r'"
    using r Cons.prems(2) ring_send_keeps [of now r]
    by (auto simp: ring_tick_def res_bind_Inr_iff split: if_splits)
  with rs Cons show ?case by auto
qed simp

lemma sender_step_ok: "sender_step s s' \<Longrightarrow> shell_ok s \<Longrightarrow> shell_ok s'"
proof (induction rule: sender_step.induct)
  case (line intact line s script s')
  with parseLine_ok(1) [of s intact line] show ?case by (auto simp: shell_next_def)
next
  case (pass now s i sent rs)
  then have "sender_ok rs"
    using run_pass_keeps [of now "sh_rings s i" sent rs] by (auto simp: shell_ok_def sender_ok_def)
  with pass show ?case by (auto simp: shell_ok_def)
qed

lemma sender_steps_ok: "sender_step\<^sup>*\<^sup>* s s' \<Longrightarrow> shell_ok s \<Longrightarrow> shell_ok s'"
  by (induction rule: rtranclp_induct) (auto intro: sender_step_ok)

text \<open>The factory of the program: a database cannot displace a predefined frame.\<close>

definition all_reserved :: "factory \<Rightarrow> bool" where
  "all_reserved m \<longleftrightarrow> (\<forall>pgn \<in> set reserved_pgns. smap_find m pgn \<noteq> None)"

lemma register_generic_ok:
  assumes "factory_ok m" and "all_reserved m" and "\<forall>(p, f) \<in> set m. frame_ok f"
  shows "factory_ok (snd (registerFrame (as_frame Generic g) m))
    \<and> all_reserved (snd (registerFrame (as_frame Generic g) m))
    \<and> (\<forall>(p, f) \<in> set (snd (registerFrame (as_frame Generic g) m)). frame_ok f)"
proof (cases "smap_find m (mPgn g) = None")
  case True
  then have "class_ok (as_frame Generic g)"
    using assms(2) by (auto simp: all_reserved_def class_ok_def)
  with True assms show ?thesis
    by (auto simp: registerFrame_def factory_ok_def set_smap_put all_reserved_def smap_find_put frame_ok_def)
qed (use assms in \<open>auto simp: registerFrame_def\<close>)

lemma register_database_ok:
  assumes "factory_ok m" and "all_reserved m" and "\<forall>(p, f) \<in> set m. frame_ok f"
  shows "factory_ok (snd (registerDatabaseFrames (Some gs) m))
    \<and> (\<forall>(p, f) \<in> set (snd (registerDatabaseFrames (Some gs) m)). frame_ok f)"
  using assms
proof (induction gs arbitrary: m)
  case (Cons g gs)
  have "snd (registerDatabaseFrames (Some (g # gs)) m)
      = snd (registerDatabaseFrames (Some gs) (snd (registerFrame (as_frame Generic g) m)))"
    by (simp add: registerDatabaseFrames_def)
  with Cons.IH register_generic_ok [OF Cons.prems, of g] show ?case by presburger
qed (simp add: registerDatabaseFrames_def)

lemma registered_frame:
  assumes "factory_ok m" and "pgn \<in> set (getAllRegisteredPGNs m)"
  shows "\<exists>f. getJ1939Frame_pgn m pgn = Some f"
  using assms
  by (cases "smap_find m pgn") (auto simp: getJ1939Frame_pgn_def getAllRegisteredPGNs_def smap_find_None_iff smap_keys_def)

lemma registered_ok:
  assumes "factory_ok m" and "all_reserved m" and "\<forall>(p, f) \<in> set m. frame_ok f"
  shows "factory_ok (fold (\<lambda>f m. snd (registerFrame (as_frame Generic f) m)) gs m)
    \<and> (\<forall>(p, f) \<in> set (fold (\<lambda>f m. snd (registerFrame (as_frame Generic f) m)) gs m). frame_ok f)"
  using assms
proof (induction gs arbitrary: m)
  case (Cons g gs)
  with register_generic_ok [OF Cons.prems, of g] show ?case unfolding fold_simps o_def by blast
qed simp

lemma registerFrame_sized:
  assumes "\<forall>(p, g) \<in> set m. payload_sized (mBody g)" and "payload_sized (mBody f)"
  shows "\<forall>(p, g) \<in> set (snd (registerFrame f m)). payload_sized (mBody g)"
proof -
  have "set (smap_put k f m) \<subseteq> insert (k, f) (set m)" for k
    by (induction m) (auto split: if_splits)
  then have "set (snd (registerFrame f m)) \<subseteq> insert (mPgn f, f) (set m)"
    by (auto simp: registerFrame_def)
  with assms show ?thesis by blast
qed

lemma factory_start:
  "\<exists>m. J1939Factory ref = Inr m \<and> factory_ok m \<and> all_reserved m \<and> (\<forall>(p, f) \<in> set m. frame_ok f)"
proof -
  obtain m where m: "J1939Factory ref = Inr m" "factory_ok m"
    and keys: "getAllRegisteredPGNs m = [0xEA00, 0xEB00, 0xEC00, 0xEE00, 0xFD7D, 0xFECA]"
    using factory_constructed by blast
  have "fst ` set m = set [0xEA00, 0xEB00, 0xEC00, 0xEE00, 0xFD7D, 0xFECA]"
    using keys by (metis getAllRegisteredPGNs_def list.set_map smap_keys_def)
  then have "all_reserved m"
    by (auto simp: all_reserved_def reserved_pgns_def smap_find_None_iff simp flip: not_None_eq)
  moreover have "\<forall>(p, f) \<in> set m. payload_sized (mBody f)"
  proof -
    obtain f where "DM1 ref = Inr f" using DM1_Inr by blast
    moreover have "tpdt_valid (mBody TPDTFrame)" by (simp add: TPDTFrame_def tpdt_valid_def tpdt_init_def)
    ultimately have "m = snd (registerFrame (as_frame Request RequestFrame)
        (snd (registerFrame (as_frame AddrClaim (AddressClaimFrame EcuName_init))
        (snd (registerFrame (as_frame DM1P f) (snd (registerFrame (as_frame FMS1P FMS1Frame)
        (snd (registerFrame (as_frame TPDT TPDTFrame) (snd (registerFrame (as_frame TPCM TPCMFrame) [])))))))))))"
      using m(1) by (simp add: J1939Factory_def registerPredefinedFrames_def Let_def)
    then show ?thesis
      using \<open>tpdt_valid (mBody TPDTFrame)\<close> by (simp only:) (intro registerFrame_sized, simp_all)
  qed
  ultimately show ?thesis
    using m by (force simp: frame_ok_def factory_ok_def)
qed

lemma easy_start:
  "\<forall>i \<in> set (ez_mInitializedIfaces s). getSender i s \<noteq> None \<Longrightarrow>
     \<forall>i \<in> set (ez_mInitializedIfaces (fold easy_add_sender hs s)). getSender i (fold easy_add_sender hs s) \<noteq> None"
proof (induction hs arbitrary: s)
  case (Cons h hs)
  have "\<forall>i \<in> set (ez_mInitializedIfaces (easy_add_sender h s)). getSender i (easy_add_sender h s) \<noteq> None"
    using Cons.prems by (auto simp: easy_add_sender_def getSender_def set_set_insert smap_find_put)
  from Cons.IH [OF this] show ?case by simp
qed simp

lemma sender_start_ok: "\<exists>s. sender_start ref database ifaces init = Inr s \<and> shell_ok s"
proof -
  obtain m where m: "J1939Factory ref = Inr m" "factory_ok m" "all_reserved m" "\<forall>(p, f) \<in> set m. frame_ok f"
    using factory_start by blast
  have "\<exists>f. FMS1Frame_of b = Inr f" if "b \<in> {0, 1, 2, 3}" for b
    using that by (auto simp: FMS1Frame_of_def)
  then obtain f0 f1 f2 f3 where f: "FMS1Frame_of 0 = Inr f0" "FMS1Frame_of 1 = Inr f1"
    "FMS1Frame_of 2 = Inr f2" "FMS1Frame_of 3 = Inr f3" by (metis insertCI)
  let ?easy = "easy_initialize ifaces init
    \<lparr>ez_mSenders = [], ez_mReceivers = [], ez_mInitializedIfaces = [], ez_mHelpers = []\<rparr>"
  have "\<forall>i \<in> set (ez_mInitializedIfaces ?easy). getSender i ?easy \<noteq> None"
    unfolding easy_initialize_def Let_def by (rule easy_start) simp
  moreover have "sender_ok []" by (simp add: sender_ok_def)
  ultimately show ?thesis
    using register_database_ok [OF m(2-4), of database] by (simp add: sender_start_def m(1) f shell_ok_def)
qed

section \<open>Properties\<close>

text \<open>C8: Whatever is typed, whatever scripts contain and whenever the sending threads run: from the start of
  \<open>j1939Sender\<close> on, every frame the user made has the class that belongs to its PGN (so that the casts
  to \<open>DM1\<close> and \<open>GenericFrame\<close> are right), every initialized interface has a sender, and no sender has
  two rings with the same identifiers.\<close>

theorem sender_invariant:
  assumes "sender_start ref database ifaces init = Inr s0" and "sender_step\<^sup>*\<^sup>* s0 s"
  shows "shell_ok s \<and> (run_lines intact files lines s = Some (Inr s') \<longrightarrow> shell_ok s')"
proof -
  have "shell_ok s0" using sender_start_ok [of ref database ifaces init] assms(1) by auto
  with assms(2) have "shell_ok s" by (rule sender_steps_ok)
  with run_lines_ok [of intact files lines s "Inr s'"] show ?thesis by (auto simp: shell_next_def)
qed

lemma quit_with_argument: "parseLine True ''quit now'' s = Inr (None, cerr ''This command does need arguments'' s)"
proof -
  have "line_tokens ''quit now'' = Some [''quit'', ''now'']" by code_simp
  moreover have "findSubCommand baseCommand [''quit'', ''now''] = ((cmd_plain ''quit'' Quit, True), [''now''])"
    by code_simp
  ultimately show ?thesis by (simp add: parseLine_def)
qed

theorem sender_invariant_witness:
  "\<exists>s0. sender_start 0 [] (\<lambda>b. []) (\<lambda>b i. True) = Inr s0
     \<and> shell_ok (cerr ''This command does need arguments'' s0)"
proof -
  obtain s0 where s0: "sender_start 0 [] (\<lambda>b. []) (\<lambda>b i. True) = Inr s0"
    using sender_start_ok by blast
  have "sender_step\<^sup>*\<^sup>* s0 (cerr ''This command does need arguments'' s0)"
    using sender_step.line [OF quit_with_argument, of s0] by (rule r_into_rtranclp)
  from sender_invariant [OF s0 this] s0 show ?thesis by blast
qed



lemma evaluated_numbers:
  "stoul 10 ''first'' = Inl InvalidArgument" "stoul 0 ''0xEA00'' = Inr 0xEA00"
  "stoul 0 ''5'' = Inr 5" "stoi 0 ''17'' = Inr 17"
  by code_simp+

lemma evaluated_claim:
  "jframe_getDataLength (as_frame AddrClaim (snd (setDstAddr 0xFF (setSrcAddr 17
     (AddressClaimFrame (EcuName_init\<lparr>mIdNumber := 5\<rparr>)))))) = 8"
  "can_frames [as_frame AddrClaim (snd (setDstAddr 0xFF (setSrcAddr 17
     (AddressClaimFrame (EcuName_init\<lparr>mIdNumber := 5\<rparr>)))))] (CanFrame_default True)
   = Inr [CanFrame_of True 0x00EEFF11 [5, 0, 0, 0, 0, 0, 0, 0]]"
  by code_simp+

text \<open>The four commands that are excluded there do go wrong: a position that is missing or not a number
  is used all the same, \<open>get\<close> casts any frame to \<open>GenericFrame\<close>, and \<open>send addr\<close> uses the null pointer
  it gets for an interface that is not initialized.\<close>

theorem sender_undefined_commands:
  assumes "shell_ok s" and "find_frame name s = Some f" and "mPgn f = DM1_PGN"
    and "smap_find (sh_factory s) 0xEA00 = Some g" and "getSender (to_iface ''x'') (sh_easy s) = None"
  shows "parseDeleteDtcCommand [name] s = Inl (Died UndefinedBehaviour)
    \<and> parseDeleteDtcCommand [name, ''first''] s = Inl (Died UndefinedBehaviour)
    \<and> parseSetDtcCommand [name] s = Inl (Died UndefinedBehaviour)
    \<and> parseGetCommand [''pgn:'', ''0xEA00''] s = Inl (Died UndefinedBehaviour)
    \<and> parseSendAddrCommand [''addr:'', ''17'', ''name:'', ''5'', ''interface:'', ''x''] s
        = Inl (Died UndefinedBehaviour)"
proof (intro conjI)
  show "parseDeleteDtcCommand [name] s = Inl (Died UndefinedBehaviour)"
    "parseDeleteDtcCommand [name, ''first''] s = Inl (Died UndefinedBehaviour)"
    "parseSetDtcCommand [name] s = Inl (Died UndefinedBehaviour)"
    using assms(2,3)
    by (simp_all add: parseDeleteDtcCommand_def parseSetDtcCommand_def with_dm1_def dtc_position_def
        evaluated_numbers)
  have "mPgn g = REQUEST_PGN" and "class_ok g"
    using assms(1,4) by (auto simp: shell_ok_def dest: factory_ok_find)
  then have "payload_generic (mBody g) = None" by (cases "mBody g") (auto simp: class_ok_def reserved_pgns_def)
  then show "parseGetCommand [''pgn:'', ''0xEA00''] s = Inl (Died UndefinedBehaviour)"
    using assms(4)
    by (simp add: parseGetCommand_def get_param_def ends_with_colon_def evaluated_numbers
        getJ1939Frame_pgn_def)
  show "parseSendAddrCommand [''addr:'', ''17'', ''name:'', ''5'', ''interface:'', ''x''] s
      = Inl (Died UndefinedBehaviour)"
    using assms(5)
    by (simp add: parseSendAddrCommand_def send_addr_param_def ends_with_colon_def with_number_def
        evaluated_numbers evaluated_claim Let_def sendFrameThroughInterface_def send_once_def
        del: can_frames.simps)
qed

definition codes_shell :: shell where
  "codes_shell = \<lparr>sh_framesToSend = [(''c'', dm1_message [])], sh_framePeriods = [], sh_fms1Frames = [],
     sh_ttsPeriod = 0, sh_factory = request_factory,
     sh_easy = \<lparr>ez_mSenders = [], ez_mReceivers = [], ez_mInitializedIfaces = [], ez_mHelpers = []\<rparr>,
     sh_rings = (\<lambda>i. []), sh_once = [], sh_cerr = []\<rparr>"

theorem sender_undefined_commands_witness:
  "parseDeleteDtcCommand [''c''] codes_shell = Inl (Died UndefinedBehaviour)
   \<and> parseGetCommand [''pgn:'', ''0xEA00''] codes_shell = Inl (Died UndefinedBehaviour)"
proof -
  have ok: "shell_ok codes_shell"
    by (simp add: shell_ok_def codes_shell_def frame_ok_def class_ok_def dm1_message_def factory_ok_def
        request_factory_def RequestFrame_def smap_ok_Cons sender_ok_def)
  have f: "find_frame ''c'' codes_shell = Some (dm1_message [])" and p: "mPgn (dm1_message []) = DM1_PGN"
    and g: "smap_find (sh_factory codes_shell) 0xEA00 = Some (as_frame Request RequestFrame)"
    and i: "getSender (to_iface ''x'') (sh_easy codes_shell) = None"
    by (simp_all add: find_frame_def codes_shell_def dm1_message_def request_factory_def getSender_def
        smap_find_def)
  show ?thesis using sender_undefined_commands [OF ok f p g i] by blast
qed

text \<open>C12: Scripts end: when no script executes itself, directly or through others (scripts can be ranked so
  that each executes lower ones only), every sequence of lines is run to its end, whatever the state.\<close>

theorem scripts_end:
  assumes "\<And>file ls line file'. files file = Some ls \<Longrightarrow> line \<in> set ls \<Longrightarrow> script_of line = Some file'
      \<Longrightarrow> rank file' < (rank file :: nat)"
  shows "\<exists>r. run_lines intact files lines s = Some r"
proof -
  have "\<exists>n. \<forall>line \<in> set lines. \<forall>file. script_of line = Some file \<longrightarrow> rank file < n"
  proof (induction lines)
    case (Cons line lines)
    then obtain n where "\<forall>line \<in> set lines. \<forall>file. script_of line = Some file \<longrightarrow> rank file < n" by blast
    then show ?case
      by (intro exI [of _ "Suc (max n (case script_of line of None \<Rightarrow> 0 | Some f \<Rightarrow> rank f))"])
         (auto simp: less_Suc_eq_le le_max_iff_disj intro: less_imp_le)
  qed simp
  then obtain n where "\<forall>line \<in> set lines. \<forall>file. script_of line = Some file \<longrightarrow> rank file < n" by blast
  then show ?thesis by (intro scripts_end_below [OF assms]) blast+
qed

definition two_scripts :: "string \<Rightarrow> string list option" where
  "two_scripts file = (if file = ''a'' then Some [''exec b'', ''list frames''] else
     if file = ''b'' then Some [''list interfaces''] else None)"

lemma evaluated_scripts:
  "script_of ''exec b'' = Some ''b''" "script_of ''exec a'' = Some ''a''"
  "script_of ''list frames'' = None" "script_of ''list interfaces'' = None"
  by code_simp+

theorem scripts_end_witness: "\<forall>intact s. \<exists>r. run_lines intact two_scripts [''exec a'', ''exec a''] s = Some r"
proof (intro allI)
  fix intact s
  show "\<exists>r. run_lines intact two_scripts [''exec a'', ''exec a''] s = Some r"
    by (rule scripts_end [where rank = "\<lambda>f. if f = ''a'' then 1 else 0"])
       (auto simp: two_scripts_def evaluated_scripts split: if_splits)
qed

text \<open>A script that executes itself first never comes to an end.\<close>

theorem script_runs_itself:
  assumes "script_of line = Some file" and "files file = Some (line # rest)"
  shows "run_lines True files (line # tail) s = None"
  using run_lines_no_self [of line "file" files rest tail s] assms by (cases "run_lines True files (line # tail) s") auto

theorem script_runs_itself_witness: "\<forall>s. run_lines True (\<lambda>f. Some [''exec a'']) [''exec a''] s = None"
  using script_runs_itself [OF evaluated_scripts(2), of "\<lambda>f. Some [''exec a'']" "[]" "[]"] by simp

end
