(* ===== verification/SenderWire.thy ===== *)
theory SenderWire
  imports SenderSafety
begin

text \<open>
  What the commands of \<open>j1939Sender\<close> do to the senders, by the contract \<open>periodic_sender\<close> of the rings;
  what a receiver makes of the frames that are sent; and the behaviour of the command line on concrete
  input.
\<close>

section \<open>Sending again and stopping\<close>

text \<open>The rings after the loop over the interfaces, as the map that each sender is.\<close>

lemma send_interface_rings:
  assumes "sendFrameThroughInterface f i p s = Inr s'" and "wire_frames f = Inr cs"
    and "p \<noteq> 0 \<or> 8 < jframe_getDataLength f" and "sender_ok (sh_rings s i)"
  shows "sent_ring (sh_rings s' j) = (if j = i
      then (sent_ring (sh_rings s i))(map cf_mId cs \<mapsto> setFrames cs (CanFrameRing p None))
      else sent_ring (sh_rings s j))"
    and "getSender i (sh_easy s) \<noteq> None"
proof -
  have s': "with_sender i (\<lambda>r. snd (sendFrames cs p None r)) s = Inr s'"
    using assms(1-3) by (auto simp: sendFrameThroughInterface_eq)
  then show "getSender i (sh_easy s) \<noteq> None" by (auto simp: with_sender_def split: option.splits)
  show "sent_ring (sh_rings s' j) = (if j = i
      then (sent_ring (sh_rings s i))(map cf_mId cs \<mapsto> setFrames cs (CanFrameRing p None))
      else sent_ring (sh_rings s j))"
    using s' rings.lookup_send [OF assms(4) wire_frames_not_Nil [OF assms(2)], of "(p, None)"]
    by (auto simp: with_sender_def split: option.splits)
qed

lemma isFrameSent_Inr:
  assumes "isFrameSent f i s = Inr b" and "wire_frames f = Inr cs"
  shows "b \<longleftrightarrow> sent_ring (sh_rings s i) (map cf_mId cs) \<noteq> None"
  using assms(1) rings.sent_lookup [of "map cf_mId cs" "sh_rings s i"]
  by (auto simp: isFrameSent_def wire_ids_frames [OF assms(2)] split: option.splits)

lemma notify_ifaces_rings:
  assumes "wire_frames f = Inr cs" and "p \<noteq> 0 \<or> 8 < jframe_getDataLength f"
  shows "notify_ifaces is f p s = Inr s' \<Longrightarrow> \<forall>i. sender_ok (sh_rings s i) \<Longrightarrow>
    sent_ring (sh_rings s' j) =
      (if j \<in> set is \<and> sent_ring (sh_rings s j) (map cf_mId cs) \<noteq> None
       then (sent_ring (sh_rings s j))(map cf_mId cs \<mapsto> setFrames cs (CanFrameRing p None))
       else sent_ring (sh_rings s j))"
proof (induction "is" arbitrary: s)
  case (Cons i "is")
  then obtain sent s1 where sent: "isFrameSent f i s = Inr sent"
    and s1: "(if sent then sendFrameThroughInterface f i p s else Inr s) = Inr s1"
    and rest: "notify_ifaces is f p s1 = Inr s'"
    by (auto simp: run_bind_Inr_iff)
  note b = isFrameSent_Inr [OF sent assms(1)]
  show ?case
  proof (cases sent)
    case True
    with s1 have send: "sendFrameThroughInterface f i p s = Inr s1" by simp
    note r1 = send_interface_rings [OF send assms(1,2)]
    have "sender_ok (sh_rings s1 k)" for k
    proof -
      have "with_sender i (\<lambda>r. snd (sendFrames cs p None r)) s = Inr s1"
        using send assms by (auto simp: sendFrameThroughInterface_eq)
      then show ?thesis
        using Cons.prems(2) sender_ok_send by (auto simp: with_sender_def split: option.splits)
    qed
    then show ?thesis
      using Cons.IH [OF rest] r1(1) [of j] Cons.prems(2) b True by auto
  next
    case False
    with s1 rest b Cons.IH [of s] Cons.prems(2) show ?thesis by auto
  qed
qed simp

lemma unsend_ifaces_rings:
  "unsend_ifaces is wanted ids s = Inr (found, s') \<Longrightarrow> \<forall>i. sender_ok (sh_rings s i) \<Longrightarrow>
    sent_ring (sh_rings s' j) =
      (if j \<in> set is \<and> wanted j then (sent_ring (sh_rings s j))(ids := None) else sent_ring (sh_rings s j))"
proof (induction "is" arbitrary: s found)
  case (Cons i "is")
  show ?case
  proof (cases "wanted i")
    case True
    with Cons.prems(1) obtain s1 found' where s1: "with_sender i (unSendFrames ids) s = Inr s1"
      and rest: "unsend_ifaces is wanted ids s1 = Inr (found', s')"
      by (auto simp: run_bind_Inr_iff)
    have "\<forall>k. sender_ok (sh_rings s1 k)"
      and r1: "\<And>k. sent_ring (sh_rings s1 k) = (if k = i then (sent_ring (sh_rings s i))(ids := None)
                 else sent_ring (sh_rings s k))"
      using s1 Cons.prems(2) rings.ok_unsend rings.lookup_unsend
      by (auto simp: with_sender_def split: option.splits)
    from Cons.IH [OF rest this(1)] r1 True show ?thesis by auto
  qed (use Cons in auto)
qed simp

section \<open>What a receiver gets\<close>

lemma can_frames_encoded:
  assumes "\<And>f. f \<in> set fs \<Longrightarrow> jframe_getDataLength f \<le> 8 \<and> (\<exists>bs. length bs = jframe_getDataLength f
      \<and> jframe_encode f (jframe_getDataLength f) = Inr (getIdentifier f, bs, jframe_getDataLength f))"
  shows "\<exists>cs. can_frames fs c = Inr cs \<and> list_all2 (\<lambda>f c.
      jframe_encode f (jframe_getDataLength f) = Inr (cf_mId c, cf_mData c, length (cf_mData c))) fs cs"
  using assms
proof (induction fs arbitrary: c)
  case (Cons f fs)
  then obtain bs where bs: "jframe_encode f (jframe_getDataLength f) = Inr (getIdentifier f, bs, length bs)"
    "length bs \<le> 8" by fastforce
  let ?c = "snd (cf_setData bs (c\<lparr>cf_mId := getIdentifier f\<rparr>))"
  have "cf_mId ?c = getIdentifier f" "cf_mData ?c = bs" using bs(2) by (simp_all add: cf_setData_def)
  moreover obtain cs where "can_frames fs ?c = Inr cs" "list_all2 (\<lambda>f c.
      jframe_encode f (jframe_getDataLength f) = Inr (cf_mId c, cf_mData c, length (cf_mData c))) fs cs"
    using Cons.IH [of ?c] Cons.prems by auto
  ultimately show ?case using bs by (intro exI [of _ "?c # cs"]) (simp add: Let_def)
qed simp

text \<open>The transport frames come through the predefined prototypes unchanged.\<close>

definition transport_registered :: "factory \<Rightarrow> bool" where
  "transport_registered m \<longleftrightarrow> smap_find m TP_CM_PGN = Some (as_frame TPCM TPCMFrame)
     \<and> smap_find m TP_DT_PGN = Some (as_frame TPDT TPDTFrame)"

lemma transport_decodable: "pgn_decodable TP_CM_PGN" "pgn_decodable TP_DT_PGN"
  by (simp_all add: pgn_decodable_def getPDUFormatGroup_def getPDUFormat_def)

lemma data_frame_delivered:
  assumes "transport_registered m"
  shows "factory_delivers m (as_frame TPDT (data_frame f data i)) (as_frame TPDT (data_frame f data i))"
  using assms tpdt_valid_data_frame [of f data i] transport_decodable
  by (simp add: factory_delivers_def transport_registered_def hdr_ok_def received_def and.assoc)
     (simp add: as_frame_def data_frame_def Let_def setDstAddr_def setSrcAddr_def setPriority_def
       TPDTFrame_of_def TPDTFrame_def getPDUFormatGroup_def getPDUFormat_def)

lemma announce_delivered:
  assumes "transport_registered m" and "hdr_ok f"
  shows "factory_delivers m (as_frame TPCM (bam_announce TPCMFrame f n)) (as_frame TPCM (bam_announce TPCMFrame f n))"
proof -
  have "mPgn f < 2 ^ 24"
    using assms(2) by (simp add: hdr_ok_def pgn_decodable_def word_less_nat_alt)
  then have v: "tpcm_valid (mBody (bam_announce TPCMFrame f n))"
    "tpcm_takes (mBody TPCMFrame) (mBody (bam_announce TPCMFrame f n))"
    by (simp_all add: bam_announce_def tpcm_valid_def tpcm_takes_def TPCMFrame_def tpcm_init_def)
  have h: "mPgn (bam_announce TPCMFrame f n) = TP_CM_PGN" "mPriority (bam_announce TPCMFrame f n) = mPriority f AND 7"
    "mDstAddr (bam_announce TPCMFrame f n) = 0xFF" "mName (bam_announce TPCMFrame f n) = mName TPCMFrame"
    by (simp_all add: bam_announce_def TPCMFrame_def)
  show ?thesis
    using assms v h transport_decodable
    by (simp add: factory_delivers_def transport_registered_def hdr_ok_def received_def and.assoc)
       (simp add: as_frame_def TPCMFrame_def getPDUFormatGroup_def getPDUFormat_def)
qed

text \<open>The frames of a long message, one by one.\<close>

lemma bam_frames_sent:
  assumes "transport_registered m" and "hdr_ok f"
    and "8 < jframe_getDataLength f" and "jframe_getDataLength f \<le> 1785"
    and "factory_delivers m (f\<lparr>mDstAddr := 0\<rparr>) f'"
  shows "\<exists>b. fragment f BamFragmenter = Inr (True, b) \<and>
    (\<forall>g \<in> set (bam_frames b). factory_delivers m g g \<and> jframe_getDataLength g = 8 \<and> mSrcAddr g = mSrcAddr f)"
proof -
  have l: "jframe_getDataLength (f\<lparr>mDstAddr := 0\<rparr>) = jframe_getDataLength f"
    by (simp add: jframe_getDataLength_def)
  obtain data where "jframe_encode (f\<lparr>mDstAddr := 0\<rparr>) (jframe_getDataLength f)
      = Inr (getIdentifier (f\<lparr>mDstAddr := 0\<rparr>), data, jframe_getDataLength f)"
    using registry.delivered_encodes [OF assms(5)] unfolding l by blast
  then have e: "jframe_encode f (jframe_getDataLength f) = Inr (getIdentifier f, data, jframe_getDataLength f)"
    by (simp add: jframe_encode_def frame_encode_Inr jframe_getDataLength_def)
  have cm: "mCMFrame BamFragmenter = TPCMFrame" "mPgn (mCMFrame BamFragmenter) = TP_CM_PGN"
    by (simp_all add: BamFragmenter_def TPCMFrame_def)
  from fragment_eq [OF cm(2) e assms(3,4)] obtain b where b: "fragment f BamFragmenter = Inr (True, b)"
    "mCMFrame b = bam_announce TPCMFrame f (jframe_getDataLength f)"
    "getDataFrames b = map (data_frame f data) [0 ..< (jframe_getDataLength f + 6) div 7]"
    unfolding cm(1) by blast
  have "factory_delivers m g g \<and> jframe_getDataLength g = 8 \<and> mSrcAddr g = mSrcAddr f"
    if "g \<in> set (bam_frames b)" for g
    using that b(2,3) announce_delivered [OF assms(1,2)] data_frame_delivered [OF assms(1)]
    by (auto simp: bam_frames_def jframe_getDataLength_def tpcm_getDataLength_def tpdt_getDataLength_def)
       (simp add: bam_announce_def)
  with b(1) show ?thesis by blast
qed

lemma wire_frames_received:
  assumes "transport_registered m" and "hdr_ok f" and "jframe_getDataLength f \<le> 1785"
    and "factory_delivers m (if 8 < jframe_getDataLength f then f\<lparr>mDstAddr := 0\<rparr> else f) f'"
  shows "\<exists>cs gs. wire_frames f = Inr cs
    \<and> list_all2 (\<lambda>c g. getJ1939Frame m (cf_mId c) (cf_mData c) = Inr (Some g)) cs gs
    \<and> (if 8 < jframe_getDataLength f
       then f' \<in> set (mReassembledFrames (feed (getJ1939Frame m) junk gs BamReassembler))
       else gs = [f'])"
proof (cases "8 < jframe_getDataLength f")
  case True
  then have del: "factory_delivers m (f\<lparr>mDstAddr := 0\<rparr>) f'" using assms(4) by simp
  from bam_frames_sent [OF assms(1,2) True assms(3) del] obtain b
    where b: "fragment f BamFragmenter = Inr (True, b)"
      and g: "\<And>g. g \<in> set (bam_frames b) \<Longrightarrow>
        factory_delivers m g g \<and> jframe_getDataLength g = 8 \<and> mSrcAddr g = mSrcAddr f"
    by blast
  have enc: "jframe_getDataLength g \<le> 8 \<and> (\<exists>bs. length bs = jframe_getDataLength g
      \<and> jframe_encode g (jframe_getDataLength g) = Inr (getIdentifier g, bs, jframe_getDataLength g))"
    if "g \<in> set (bam_frames b)" for g
    using g [OF that] registry.delivered_encodes [of m g g] by auto
  obtain cs where cs: "can_frames (bam_frames b) (CanFrame_default True) = Inr cs"
    and all: "list_all2 (\<lambda>f c. jframe_encode f (jframe_getDataLength f)
        = Inr (cf_mId c, cf_mData c, length (cf_mData c))) (bam_frames b) cs"
    using can_frames_encoded [of "bam_frames b" "CanFrame_default True", OF enc] by blast
  have "list_all2 (\<lambda>c g. getJ1939Frame m (cf_mId c) (cf_mData c) = Inr (Some g)) cs (bam_frames b)"
    using all g registry.get_encoded [of m]
    unfolding list_all2_conv_all_nth by (metis nth_mem take_all order_refl)
  moreover have "filter (\<lambda>h. mSrcAddr h = mSrcAddr f) (bam_frames b) = bam_frames b"
    using g by (simp add: filter_id_conv)
  then have "f' \<in> set (mReassembledFrames (feed (getJ1939Frame m) junk (bam_frames b) BamReassembler))"
    using registry.transfer [OF True assms(3,2) del _ b, of BamReassembler "bam_frames b" junk]
    by (auto simp: BamReassembler_def BamFragmenter_def TPCMFrame_def)
  moreover have "wire_frames f = Inr cs" using True cs b by (simp add: wire_frames_def bam_of_def)
  ultimately show ?thesis using True by auto
next
  case False
  then have del: "factory_delivers m f f'" using assms(4) by simp
  obtain cs where "can_frames [f] (CanFrame_default True) = Inr cs"
    and "list_all2 (\<lambda>f c. jframe_encode f (jframe_getDataLength f)
        = Inr (cf_mId c, cf_mData c, length (cf_mData c))) [f] cs"
    using can_frames_encoded [of "[f]" "CanFrame_default True"] registry.delivered_encodes [OF del] False by auto
  moreover from this(2) obtain c where "cs = [c]" by (auto simp: list_all2_Cons1)
  ultimately show ?thesis
    using False registry.get_encoded [OF del]
    by (auto simp: wire_frames_def simp del: can_frames.simps intro!: exI [of _ "[f']"])
qed

section \<open>Properties\<close>

text \<open>C9: From the sender to a receiver: a frame given to an interface with a period is put into a ring whose
  frames a receiving factory decodes; when the frame is longer than eight bytes, they are the frames of
  the transport protocol, and the reassembler puts the frame that was sent together again.\<close>

theorem sent_frame_received:
  assumes "transport_registered m" and "hdr_ok f" and "jframe_getDataLength f \<le> 1785"
    and "factory_delivers m (if 8 < jframe_getDataLength f then f\<lparr>mDstAddr := 0\<rparr> else f) f'"
    and "getSender i (sh_easy s) = Some b" and "sender_ok (sh_rings s i)" and "period \<noteq> 0"
  shows "\<exists>s' cs gs. sendFrameThroughInterface f i period s = Inr s'
    \<and> sent_ring (sh_rings s' i) (map cf_mId cs) = Some (setFrames cs (CanFrameRing period None))
    \<and> list_all2 (\<lambda>c g. getJ1939Frame m (cf_mId c) (cf_mData c) = Inr (Some g)) cs gs
    \<and> (if 8 < jframe_getDataLength f
       then f' \<in> set (mReassembledFrames (feed (getJ1939Frame m) junk gs BamReassembler))
       else gs = [f'])"
proof -
  obtain cs gs where cs: "wire_frames f = Inr cs"
    and r: "list_all2 (\<lambda>c g. getJ1939Frame m (cf_mId c) (cf_mData c) = Inr (Some g)) cs gs
      \<and> (if 8 < jframe_getDataLength f
         then f' \<in> set (mReassembledFrames (feed (getJ1939Frame m) junk gs BamReassembler))
         else gs = [f'])"
    using wire_frames_received [OF assms(1-4)] by blast
  obtain s' where s': "sendFrameThroughInterface f i period s = Inr s'"
    using assms(5,7) by (simp add: sendFrameThroughInterface_eq cs with_sender_def)
  have "sent_ring (sh_rings s' i) (map cf_mId cs) = Some (setFrames cs (CanFrameRing period None))"
    using send_interface_rings(1) [OF s' cs _ assms(6), of i] assms(7) by simp
  with s' r show ?thesis by blast
qed

definition wire_factory :: factory where
  "wire_factory = [(TP_DT_PGN, as_frame TPDT TPDTFrame), (TP_CM_PGN, as_frame TPCM TPCMFrame),
     (DM1_PGN, dm1_message [])]"

definition wire_shell :: shell where
  "wire_shell = \<lparr>sh_framesToSend = [(''c'', dm1_message three_codes)], sh_framePeriods = [],
     sh_fms1Frames = [], sh_ttsPeriod = 0, sh_factory = wire_factory,
     sh_easy = \<lparr>ez_mSenders = [(to_iface ''can0'', SocketCan)], ez_mReceivers = [],
                ez_mInitializedIfaces = [to_iface ''can0''], ez_mHelpers = []\<rparr>,
     sh_rings = (\<lambda>i. []), sh_once = [], sh_cerr = []\<rparr>"

theorem sent_frame_received_witness:
  "\<exists>s' cs gs. sendFrameThroughInterface (dm1_message three_codes) (to_iface ''can0'') 100 wire_shell = Inr s'
     \<and> sent_ring (sh_rings s' (to_iface ''can0'')) (map cf_mId cs) = Some (setFrames cs (CanFrameRing 100 None))
     \<and> received (dm1_message []) (dm1_message three_codes) (mBody (dm1_message three_codes))
         \<in> set (mReassembledFrames (feed (getJ1939Frame wire_factory) (\<lambda>i. 0) gs BamReassembler))"
proof -
  let ?f = "dm1_message three_codes" and ?i = "to_iface ''can0''"
  have t: "transport_registered wire_factory"
    by (simp add: transport_registered_def wire_factory_def smap_find_def)
  have len: "jframe_getDataLength ?f \<le> 1785" "8 < jframe_getDataLength ?f"
    by (simp_all add: dm1_message_length)
  have "factory_delivers wire_factory (?f\<lparr>mDstAddr := 0\<rparr>) (received (dm1_message []) ?f (mBody ?f))"
    using dm1_message_delivers
    by (simp add: factory_delivers_def wire_factory_def dm1_factory_def) (simp add: dm1_message_def)
  then have d: "factory_delivers wire_factory
      (if 8 < jframe_getDataLength ?f then ?f\<lparr>mDstAddr := 0\<rparr> else ?f) (received (dm1_message []) ?f (mBody ?f))"
    using len by simp
  have s: "getSender ?i (sh_easy wire_shell) = Some SocketCan" "sender_ok (sh_rings wire_shell ?i)"
    by (simp_all add: getSender_def wire_shell_def smap_find_def sender_ok_def)
  show ?thesis
    using sent_frame_received [OF t dm1_message_hdr len(1) d s, of 100 "\<lambda>i. 0"]
    by (simp only: len(2) if_True) auto
qed

text \<open>C10: When a frame that has a period is changed, \<open>notifySender\<close> replaces what is sent under its identifiers,
  by its new CAN frames from the first on, at exactly the initialized interfaces that were sending it,
  and leaves every other ring of every sender as it is.\<close>

theorem changed_frame_replaces_rings:
  assumes "shell_ok s" and "wire_frames f = Inr cs" and "period \<noteq> 0 \<or> 8 < jframe_getDataLength f"
    and "notifySender f period s = Inr s'"
  shows "sent_ring (sh_rings s' i) =
    (if i \<in> set (ez_mInitializedIfaces (sh_easy s)) \<and> sent_ring (sh_rings s i) (map cf_mId cs) \<noteq> None
     then (sent_ring (sh_rings s i))(map cf_mId cs \<mapsto> setFrames cs (CanFrameRing period None))
     else sent_ring (sh_rings s i))"
  using notify_ifaces_rings [OF assms(2,3) assms(4) [unfolded notifySender_def]] assms(1)
  by (simp add: shell_ok_def)

definition wire_frame :: jframe where
  "wire_frame = \<lparr>mPriority = 6, mSrcAddr = 0x21, mPgn = 0xFEF1, mDstAddr = 0xFF, mName = ''CCVS'',
     mBody = Generic \<lparr>mLength = 8, mSPNs = []\<rparr>\<rparr>"

lemma evaluated_wire_frame:
  "wire_frames wire_frame = Inr [CanFrame_of True 0x18FEF121 (replicate 8 0xFF)]"
  "jframe_getDataLength wire_frame = 8"
  by code_simp+

definition sending_shell :: shell where
  "sending_shell = wire_shell\<lparr>sh_framesToSend := [(''v'', wire_frame)],
     sh_rings := (\<lambda>i. if i = to_iface ''can0''
       then [setFrames [CanFrame_of True 0x18FEF121 [1, 2]] (CanFrameRing 50 None)] else [])\<rparr>"

lemma sending_shell_ok: "shell_ok sending_shell"
  by (simp add: shell_ok_def sending_shell_def wire_shell_def frame_ok_def class_ok_def wire_frame_def
      factory_ok_def wire_factory_def reserved_pgns_def TPDTFrame_def TPCMFrame_def tpdt_valid_def tpdt_init_def
      dm1_message_def smap_ok_Cons sender_ok_def new_ring getSender_def smap_find_def)

lemma evaluated_notify: "is_ok (notifySender wire_frame 100 sending_shell)"
  by code_simp

theorem changed_frame_replaces_rings_witness:
  "\<exists>s'. notifySender wire_frame 100 sending_shell = Inr s'
     \<and> sent_ring (sh_rings s' (to_iface ''can0'')) [0x18FEF121]
       = Some (setFrames [CanFrame_of True 0x18FEF121 (replicate 8 0xFF)] (CanFrameRing 100 None))"
proof -
  obtain s' where s': "notifySender wire_frame 100 sending_shell = Inr s'"
    using evaluated_notify by (auto simp: is_ok_iff)
  from changed_frame_replaces_rings [OF sending_shell_ok evaluated_wire_frame(1) _ this, of "to_iface ''can0''"]
  have "sent_ring (sh_rings s' (to_iface ''can0'')) [0x18FEF121]
      = Some (setFrames [CanFrame_of True 0x18FEF121 (replicate 8 0xFF)] (CanFrameRing 100 None))"
    by (simp add: sending_shell_def wire_shell_def ring_ids_def setFrames_def CanFrameRing_def
        CanFrame_of_def cf_setData_def)
  with s' show ?thesis by blast
qed

text \<open>Without an interface, \<open>unsend frame\<close> stops the rings of the frame's present identifiers.\<close>

lemma unsend_rings:
  assumes "shell_ok s" and "find_frame name s = Some f" and "wire_ids f = Inr ids"
    and "parseUnsendFrameCommand [name] s = Inr s'"
  shows "sent_ring (sh_rings s' i) =
    (if i \<in> set (ez_mInitializedIfaces (sh_easy s)) then (sent_ring (sh_rings s i))(ids := None)
     else sent_ring (sh_rings s i))"
proof -
  obtain found s1 where "unsend_ifaces (ez_mInitializedIfaces (sh_easy s)) (\<lambda>i. True) ids s = Inr (found, s1)"
    and "sh_rings s' = sh_rings s1"
    using assms(2-4)
    by (auto simp: parseUnsendFrameCommand_def unsendFrameThroughInterface_def run_bind_Inr_iff
        split: if_splits)
  with unsend_ifaces_rings [OF this(1)] assms(1) show ?thesis by (simp add: shell_ok_def)
qed

lemma source_in_identifier: "getIdentifier (setSrcAddr a f) = getIdentifier f \<Longrightarrow> a = mSrcAddr f"
  using getIdentifier_src [of f] getIdentifier_src [of "setSrcAddr a f"] by (simp add: setSrcAddr_def)

text \<open>What is sent under other identifiers stays.\<close>

lemma send_other_rings:
  assumes "sendFrameThroughInterface f i p s = Inr s'" and "wire_ids f = Inr ids" and "ids' \<noteq> ids"
    and "\<forall>i. sender_ok (sh_rings s i)"
  shows "sent_ring (sh_rings s' j) ids' = sent_ring (sh_rings s j) ids'
    \<and> sh_framesToSend s' = sh_framesToSend s \<and> (\<forall>i. sender_ok (sh_rings s' i))"
proof -
  obtain cs where cs: "wire_frames f = Inr cs"
    using assms(1) by (auto simp: sendFrameThroughInterface_eq run_bind_Inr_iff)
  then have ids: "ids = map cf_mId cs" and ne: "cs \<noteq> []"
    using wire_ids_frames [OF cs] wire_frames_not_Nil [OF cs] assms(2) by simp_all
  have "sent_ring (snd (sendFrames cs p None (sh_rings s i))) ids' = sent_ring (sh_rings s i) ids'"
    using rings.lookup_send [of "sh_rings s i" cs "(p, None)"] assms(3,4) ids ne by simp
  then show ?thesis
    using assms(1,4) sender_ok_send
    by (auto simp: sendFrameThroughInterface_eq cs with_sender_def send_once_def split: if_splits option.splits)
qed

lemma notify_other_rings:
  "notify_ifaces is f p s = Inr s' \<Longrightarrow> wire_ids f = Inr ids \<Longrightarrow> ids' \<noteq> ids \<Longrightarrow> \<forall>i. sender_ok (sh_rings s i) \<Longrightarrow>
     sent_ring (sh_rings s' j) ids' = sent_ring (sh_rings s j) ids' \<and> sh_framesToSend s' = sh_framesToSend s"
proof (induction "is" arbitrary: s)
  case (Cons i "is")
  then obtain sent s1 where s1: "(if sent then sendFrameThroughInterface f i p s else Inr s) = Inr s1"
    and rest: "notify_ifaces is f p s1 = Inr s'"
    by (auto simp: run_bind_Inr_iff)
  have "sent_ring (sh_rings s1 j) ids' = sent_ring (sh_rings s j) ids'
      \<and> sh_framesToSend s1 = sh_framesToSend s \<and> (\<forall>i. sender_ok (sh_rings s1 i))"
    using s1 send_other_rings [of f i p s s1 ids ids' j] Cons.prems by (cases sent) simp_all
  with Cons.IH [OF rest Cons.prems(2,3)] show ?case by simp
qed simp

lemma put_frame_simps [simp]:
  "sh_rings (put_frame name f s) = sh_rings s" "find_frame name (put_frame name f s) = Some f"
  by (simp_all add: put_frame_def find_frame_def smap_find_put)

text \<open>But what is sent under a former identifier cannot be stopped any more: once the source address of
  a frame has been set to another one, \<open>unsend frame\<close> leaves the ring that still sends it with the old
  address as it is, at every interface.\<close>

theorem former_identifier_never_stops:
  assumes "shell_ok s" and "find_frame name s = Some f" and "jframe_getDataLength f \<le> 8"
    and "stoul 16 val = Inr a" and "ucast a = (ucast a AND 0xFF :: u32)" and "ucast (ucast a :: u32) \<noteq> mSrcAddr f"
    and "parseSetFrameCommand [name, ''source:'', val] s = Inr s1"
    and "parseUnsendFrameCommand [name] s1 = Inr s2"
  shows "sent_ring (sh_rings s2 i) [getIdentifier f] = sent_ring (sh_rings s i) [getIdentifier f]"
proof -
  let ?f = "setSrcAddr (ucast (ucast a :: u32)) f"
  let ?s = "put_frame name ?f s"
  have ne: "getIdentifier ?f \<noteq> getIdentifier f" using source_in_identifier assms(6) by blast
  have l: "jframe_getDataLength ?f = jframe_getDataLength f" by (simp add: jframe_getDataLength_def)
  then have ids: "wire_ids ?f = Inr [getIdentifier ?f]" using assms(3) by (simp add: wire_ids_def)
  have s1: "(case smap_find (sh_framePeriods ?s) name of None \<Rightarrow> Inr ?s
      | Some period \<Rightarrow> notifySender ?f period ?s) = Inr s1"
    using assms(2,4,5,7)
    by (simp add: parseSetFrameCommand_def ends_with_colon_def set_frame_param_def
        parseSetGenericParams_def with_number_def Let_def)
  have ok: "shell_next s s1"
    using parseSetFrameCommand_ok [OF assms(1), of "[name, ''source:'', val]"] assms(7) by simp
  have keep: "sent_ring (sh_rings s1 j) [getIdentifier f] = sent_ring (sh_rings s j) [getIdentifier f]
      \<and> find_frame name s1 = Some ?f" for j
  proof (cases "smap_find (sh_framePeriods ?s) name")
    case None
    with s1 show ?thesis by auto
  next
    case (Some period)
    with s1 have "notify_ifaces (ez_mInitializedIfaces (sh_easy ?s)) ?f period ?s = Inr s1"
      by (simp add: notifySender_def)
    from notify_other_rings [OF this ids, of "[getIdentifier f]" j] ne assms(1)
    show ?thesis by (simp add: shell_ok_def find_frame_def) (simp add: put_frame_def smap_find_put)
  qed
  show ?thesis
    using unsend_rings [OF shell_next_ok [OF ok] _ ids assms(8), of i] keep ne by auto
qed

lemma evaluated_change:
  "stoul 16 ''22'' = Inr 0x22" "find_frame ''v'' sending_shell = Some wire_frame"
  "getIdentifier wire_frame = 0x18FEF121" "mSrcAddr wire_frame = 0x21"
  "is_ok (run_bind (parseSetFrameCommand [''v'', ''source:'', ''22''] sending_shell)
     (parseUnsendFrameCommand [''v'']))"
  by code_simp+

theorem former_identifier_never_stops_witness:
  "\<exists>s1 s2. parseSetFrameCommand [''v'', ''source:'', ''22''] sending_shell = Inr s1
     \<and> parseUnsendFrameCommand [''v''] s1 = Inr s2
     \<and> sent_ring (sh_rings s2 (to_iface ''can0'')) [0x18FEF121]
       = Some (setFrames [CanFrame_of True 0x18FEF121 [1, 2]] (CanFrameRing 50 None))"
proof -
  obtain s1 s2 where s1: "parseSetFrameCommand [''v'', ''source:'', ''22''] sending_shell = Inr s1"
    and s2: "parseUnsendFrameCommand [''v''] s1 = Inr s2"
    using evaluated_change(5) by (auto simp: is_ok_iff run_bind_Inr_iff)
  have "sent_ring (sh_rings s2 (to_iface ''can0'')) [getIdentifier wire_frame]
      = sent_ring (sh_rings sending_shell (to_iface ''can0'')) [getIdentifier wire_frame]"
    by (rule former_identifier_never_stops [OF sending_shell_ok evaluated_change(2) _ evaluated_change(1) _ _ s1 s2])
       (simp_all add: evaluated_wire_frame evaluated_change(4))
  moreover have "sent_ring (sh_rings sending_shell (to_iface ''can0'')) [0x18FEF121]
      = Some (setFrames [CanFrame_of True 0x18FEF121 [1, 2]] (CanFrameRing 50 None))"
    by (simp add: sending_shell_def ring_ids_def setFrames_def CanFrameRing_def CanFrame_of_def cf_setData_def)
  ultimately show ?thesis using s1 s2 by (auto simp: evaluated_change(3))
qed

end
