(* ===== verification/JsonLib.thy ===== *)
theory JsonLib
  imports Prelude OrderedMap Double "HOL-Library.List_Lexorder" "HOL-Library.Char_ord"
begin

text \<open>
  \<open>jsoncpp\<close>, the library that the frame database is read and written with, is not part of the program:
  what the program calls of \<open>Json::Value\<close> is the record \<open>json_lib\<close>, a parameter of the definitions that
  use it. What its documentation promises is the locale \<open>json_values\<close>; documents as plain trees are an
  instance of it.
\<close>

section \<open>The calls\<close>

text \<open>
  A call that throws \<open>Json::LogicError\<close> gives \<open>None\<close>. \<open>js_at\<close> and \<open>js_get\<close> are the constant operators
  \<open>[]\<close>, \<open>js_put\<close> and \<open>js_set\<close> an assignment through the other ones. \<open>js_int\<close> makes a value of a signed
  number, which is never negative here.
\<close>

record 'v json_lib =
  js_isArray :: "'v \<Rightarrow> bool"
  js_isObject :: "'v \<Rightarrow> bool"
  js_isNull :: "'v \<Rightarrow> bool"
  js_isUInt :: "'v \<Rightarrow> bool"
  js_isDouble :: "'v \<Rightarrow> bool"
  js_isString :: "'v \<Rightarrow> bool"
  js_isBool :: "'v \<Rightarrow> bool"
  js_size :: "'v \<Rightarrow> nat"
  js_isMember :: "'v \<Rightarrow> string \<Rightarrow> bool option"
  js_get :: "'v \<Rightarrow> string \<Rightarrow> 'v option"
  js_at :: "'v \<Rightarrow> nat \<Rightarrow> 'v option"
  js_asUInt :: "'v \<Rightarrow> u32 option"
  js_asDouble :: "'v \<Rightarrow> double option"
  js_asString :: "'v \<Rightarrow> string option"
  js_asBool :: "'v \<Rightarrow> bool option"
  js_getMemberNames :: "'v \<Rightarrow> string list option"
  js_null :: 'v
  js_uint :: "nat \<Rightarrow> 'v"
  js_double :: "double \<Rightarrow> 'v"
  js_int :: "nat \<Rightarrow> 'v"
  js_string :: "string \<Rightarrow> 'v"
  js_bool :: "bool \<Rightarrow> 'v"
  js_set :: "'v \<Rightarrow> string \<Rightarrow> 'v \<Rightarrow> 'v option"
  js_put :: "'v \<Rightarrow> nat \<Rightarrow> 'v \<Rightarrow> 'v option"
  js_clear :: "'v \<Rightarrow> 'v option"

section \<open>What is documented of them\<close>

text \<open>
  \<open>members\<close> and \<open>items\<close> are what an object and an array hold; null counts as an empty one of both. A
  missing member or item reads as null, and assigning behind the end of an array fills it with null.
\<close>

locale json_values =
  fixes J :: "'v json_lib"
    and members :: "'v \<Rightarrow> (string \<rightharpoonup> 'v) option"
    and items :: "'v \<Rightarrow> 'v list option"
  assumes null_members: "members (js_null J) = Some Map.empty"
    and null_items: "items (js_null J) = Some []"
    and no_members: "members v = None \<Longrightarrow> js_isMember J v k = None"
    and isMember: "members v = Some m \<Longrightarrow> js_isMember J v k = Some (m k \<noteq> None)"
    and get: "members v = Some m \<Longrightarrow>
      js_get J v k = Some (case m k of None \<Rightarrow> js_null J | Some x \<Rightarrow> x)"
    and set: "members v = Some m \<Longrightarrow>
      \<exists>v'. js_set J v k x = Some v' \<and> members v' = Some (m(k \<mapsto> x))"
    and size: "items v = Some xs \<Longrightarrow> js_size J v = length xs"
    and at: "items v = Some xs \<Longrightarrow>
      js_at J v i = Some (if i < length xs then xs ! i else js_null J)"
    and put: "items v = Some xs \<Longrightarrow>
      \<exists>v'. js_put J v i x = Some v' \<and> js_isArray J v'
         \<and> items v' = Some ((xs @ replicate (Suc i - length xs) (js_null J))[i := x])"
    and null_isNull: "js_isNull J (js_null J)"
    and isArray_null: "\<not> js_isArray J (js_null J)"
    and string_value: "js_isString J (js_string J s)" "js_asString J (js_string J s) = Some s"
      "\<not> js_isNull J (js_string J s)"
    and uint_value: "n < 2 ^ 32 \<Longrightarrow> js_isUInt J (js_uint J n)"
      "n < 2 ^ 32 \<Longrightarrow> js_asUInt J (js_uint J n) = Some (of_nat n)"
    and double_value: "js_isDouble J (js_double J d)" "js_asDouble J (js_double J d) = Some d"
begin

text \<open>Appending at the end.\<close>

lemma put_next:
  "items v = Some xs \<Longrightarrow>
     \<exists>v'. js_put J v (length xs) x = Some v' \<and> js_isArray J v' \<and> items v' = Some (xs @ [x])"
  using put [of v xs "length xs" x] by (simp add: list_update_append)

end

section \<open>The text of a file\<close>

text \<open>
  \<open><<\<close> prints a value to a stream and \<open>parseFromStream\<close> reads one, \<open>None\<close> when the text is no JSON. What comes
  back need not be the value that was printed: an unsigned number becomes a signed one, a number that is not
  finite or a string that is not UTF-8 something else.
\<close>

record ('v, 't) json_text =
  jt_write :: "'v \<Rightarrow> 't"
  jt_parse :: "'t \<Rightarrow> 'v option"

text \<open>What the program can find out of a value: the answers of the library along every path into it.\<close>

datatype path_step = Member string | Item nat

fun follow :: "'v json_lib \<Rightarrow> 'v \<Rightarrow> path_step list \<Rightarrow> 'v option" where
  "follow J v [] = Some v"
| "follow J v (Member k # p) = Option.bind (js_get J v k) (\<lambda>x. follow J x p)"
| "follow J v (Item i # p) = Option.bind (js_at J v i) (\<lambda>x. follow J x p)"

record answers =
  an_isArray :: bool
  an_isNull :: bool
  an_isUInt :: bool
  an_isDouble :: bool
  an_isString :: bool
  an_size :: nat
  an_isMember :: "string \<Rightarrow> bool option"
  an_asUInt :: "u32 option"
  an_asDouble :: "double option"
  an_asString :: "string option"

definition answers_of :: "'v json_lib \<Rightarrow> 'v \<Rightarrow> answers" where
  "answers_of J v =
     \<lparr>an_isArray = js_isArray J v, an_isNull = js_isNull J v, an_isUInt = js_isUInt J v, an_isDouble = js_isDouble J v,
      an_isString = js_isString J v, an_size = js_size J v, an_isMember = js_isMember J v,
      an_asUInt = js_asUInt J v, an_asDouble = js_asDouble J v, an_asString = js_asString J v\<rparr>"

definition reads_same :: "'v json_lib \<Rightarrow> 'v \<Rightarrow> 'v \<Rightarrow> bool" where
  "reads_same J v w \<longleftrightarrow>
     (\<forall>p. map_option (answers_of J) (follow J v p) = map_option (answers_of J) (follow J w p))"

text \<open>The values that survive: what is built of ASCII texts, numbers of 32 bits and finite ones.\<close>

definition ascii :: "string \<Rightarrow> bool" where
  "ascii s \<longleftrightarrow> (\<forall>c \<in> set s. 0 < (of_char c :: nat) \<and> of_char c < (128 :: nat))"

definition finite_double :: "double \<Rightarrow> bool" where
  "finite_double d \<longleftrightarrow> d \<noteq> NaN \<and> \<not> d_is_inf d"

inductive printable :: "'v json_lib \<Rightarrow> 'v \<Rightarrow> bool" for J where
  null: "printable J (js_null J)"
| string: "ascii s \<Longrightarrow> printable J (js_string J s)"
| uint: "n < 2 ^ 32 \<Longrightarrow> printable J (js_uint J n)"
| double: "finite_double d \<Longrightarrow> printable J (js_double J d)"
| set: "printable J v \<Longrightarrow> printable J x \<Longrightarrow> ascii k \<Longrightarrow> js_set J v k x = Some v' \<Longrightarrow> printable J v'"
| put: "printable J v \<Longrightarrow> printable J x \<Longrightarrow> js_put J v i x = Some v' \<Longrightarrow> printable J v'"

locale json_files = json_values J members items
  for J :: "'v json_lib" and members :: "'v \<Rightarrow> (string \<rightharpoonup> 'v) option" and items :: "'v \<Rightarrow> 'v list option" +
  fixes T :: "('v, 't) json_text"
  assumes reparse: "printable J v \<Longrightarrow> \<exists>w. jt_parse T (jt_write T v) = Some w \<and> reads_same J v w"

lemma reads_same_refl [simp]: "reads_same J v v"
  by (simp add: reads_same_def)

lemma reads_same_answers:
  assumes "reads_same J v w"
  shows "js_isArray J w = js_isArray J v" "js_isNull J w = js_isNull J v" "js_isUInt J w = js_isUInt J v"
    "js_isDouble J w = js_isDouble J v" "js_isString J w = js_isString J v" "js_size J w = js_size J v"
    "js_isMember J w = js_isMember J v" "js_asUInt J w = js_asUInt J v" "js_asDouble J w = js_asDouble J v"
    "js_asString J w = js_asString J v"
proof -
  have "answers_of J w = answers_of J v" using assms [unfolded reads_same_def, rule_format, of "[]"] by simp
  then show "js_isArray J w = js_isArray J v" "js_isNull J w = js_isNull J v" "js_isUInt J w = js_isUInt J v"
    "js_isDouble J w = js_isDouble J v" "js_isString J w = js_isString J v" "js_size J w = js_size J v"
    "js_isMember J w = js_isMember J v" "js_asUInt J w = js_asUInt J v" "js_asDouble J w = js_asDouble J v"
    "js_asString J w = js_asString J v"
    by (simp_all add: answers_of_def)
qed

lemma reads_same_step:
  assumes "reads_same J v w"
  shows "rel_option (reads_same J) (js_get J v k) (js_get J w k)" "rel_option (reads_same J) (js_at J v i) (js_at J w i)"
proof -
  have along: "map_option (answers_of J) (follow J v p) = map_option (answers_of J) (follow J w p)" for p
    using assms by (simp add: reads_same_def)
  show "rel_option (reads_same J) (js_get J v k) (js_get J w k)"
    using along [of "Member k # _"] along [of "[Member k]"]
    by (cases "js_get J v k"; cases "js_get J w k") (simp_all add: reads_same_def)
  show "rel_option (reads_same J) (js_at J v i) (js_at J w i)"
    using along [of "Item i # _"] along [of "[Item i]"]
    by (cases "js_at J v i"; cases "js_at J w i") (simp_all add: reads_same_def)
qed

section \<open>An instance\<close>

datatype json =
    JNull | JBool bool | JNumber rat | JReal double | JString string
  | JArray "json list" | JObject "(string, json) smap"

fun tree_members :: "json \<Rightarrow> (string \<rightharpoonup> json) option" where
  "tree_members JNull = Some Map.empty"
| "tree_members (JObject m) = Some (smap_find m)"
| "tree_members _ = None"

fun tree_items :: "json \<Rightarrow> json list option" where
  "tree_items JNull = Some []"
| "tree_items (JArray xs) = Some xs"
| "tree_items _ = None"

fun tree_uint :: "json \<Rightarrow> nat option" where
  "tree_uint (JNumber q) =
     (let (n, d) = quotient_of q in if d = 1 \<and> 0 \<le> n \<and> n < 2 ^ 32 then Some (nat n) else None)"
| "tree_uint _ = None"

fun tree_set :: "json \<Rightarrow> string \<Rightarrow> json \<Rightarrow> json option" where
  "tree_set JNull k x = Some (JObject [(k, x)])"
| "tree_set (JObject m) k x = Some (JObject (smap_put k x m))"
| "tree_set _ k x = None"

fun tree_double :: "json \<Rightarrow> double option" where
  "tree_double (JReal d) = Some d"
| "tree_double (JNumber q) = Some (d_round q)"
| "tree_double _ = None"

fun tree_string :: "json \<Rightarrow> string option" where
  "tree_string (JString s) = Some s"
| "tree_string JNull = Some []"
| "tree_string _ = None"

fun tree_bool :: "json \<Rightarrow> bool option" where
  "tree_bool JNull = Some False"
| "tree_bool (JBool b) = Some b"
| "tree_bool (JNumber q) = Some (q \<noteq> 0)"
| "tree_bool (JReal d) = Some (\<not> d_is_zero d \<and> d \<noteq> NaN)"
| "tree_bool _ = None"

fun tree_clear :: "json \<Rightarrow> json option" where
  "tree_clear JNull = Some JNull"
| "tree_clear (JArray xs) = Some (JArray [])"
| "tree_clear (JObject m) = Some (JObject [])"
| "tree_clear _ = None"

definition tree_put :: "json \<Rightarrow> nat \<Rightarrow> json \<Rightarrow> json option" where
  "tree_put v i x = map_option (\<lambda>xs. JArray ((xs @ replicate (Suc i - length xs) JNull)[i := x])) (tree_items v)"

definition tree_json :: "json json_lib" where
  "tree_json = \<lparr>js_isArray = (\<lambda>v. case v of JArray xs \<Rightarrow> True | _ \<Rightarrow> False),
     js_isObject = (\<lambda>v. case v of JObject m \<Rightarrow> True | _ \<Rightarrow> False),
     js_isNull = (\<lambda>v. v = JNull), js_isUInt = (\<lambda>v. tree_uint v \<noteq> None),
     js_isDouble = (\<lambda>v. tree_double v \<noteq> None),
     js_isString = (\<lambda>v. case v of JString s \<Rightarrow> True | _ \<Rightarrow> False),
     js_isBool = (\<lambda>v. case v of JBool b \<Rightarrow> True | _ \<Rightarrow> False),
     js_size = (\<lambda>v. case v of JArray xs \<Rightarrow> length xs | JObject m \<Rightarrow> length m | _ \<Rightarrow> 0),
     js_isMember = (\<lambda>v k. map_option (\<lambda>m. m k \<noteq> None) (tree_members v)),
     js_get = (\<lambda>v k. map_option (\<lambda>m. case m k of None \<Rightarrow> JNull | Some x \<Rightarrow> x) (tree_members v)),
     js_at = (\<lambda>v i. map_option (\<lambda>xs. if i < length xs then xs ! i else JNull) (tree_items v)),
     js_asUInt = (\<lambda>v. map_option of_nat (tree_uint v)), js_asDouble = tree_double,
     js_asString = tree_string, js_asBool = tree_bool,
     js_getMemberNames = (\<lambda>v. case v of JNull \<Rightarrow> Some [] | JObject m \<Rightarrow> Some (map fst m) | _ \<Rightarrow> None),
     js_null = JNull, js_uint = (\<lambda>n. JNumber (rat_of_nat n)), js_double = JReal,
     js_int = (\<lambda>n. JNumber (rat_of_nat n)), js_string = JString, js_bool = JBool,
     js_set = tree_set, js_put = tree_put, js_clear = tree_clear\<rparr>"

lemma tree_uint_of_nat: "n < 2 ^ 32 \<Longrightarrow> tree_uint (JNumber (rat_of_nat n)) = Some n"
proof -
  assume "n < 2 ^ 32"
  then have "int n < 2 ^ 32" by simp
  moreover have "quotient_of (rat_of_nat n) = (int n, 1)"
    using quotient_of_int [of "int n"] by (simp add: of_int_of_nat_eq)
  ultimately show ?thesis by simp
qed

interpretation tree: json_values tree_json tree_members tree_items
proof unfold_locales
  fix v :: json and m k x
  assume "tree_members v = Some m"
  then show "\<exists>v'. js_set tree_json v k x = Some v' \<and> tree_members v' = Some (m(k \<mapsto> x))"
    by (cases v) (auto simp: tree_json_def fun_eq_iff smap_find_put smap_find_Nil)
qed (auto simp: tree_json_def tree_put_def tree_uint_of_nat simp del: tree_uint.simps split: json.splits option.splits)

text \<open>
  A file that holds a tree: printing it loses the numbers that are not finite and the bytes that are not ASCII.
\<close>

fun tree_print :: "json \<Rightarrow> json" where
  "tree_print (JReal d) = (if finite_double d then JReal d else JNull)"
| "tree_print (JString s) = JString (map (\<lambda>c. if of_char c < (128 :: nat) then c else CHR ''?'') s)"
| "tree_print (JArray xs) = JArray (map tree_print xs)"
| "tree_print (JObject m) = JObject (map (\<lambda>(k, x). (k, tree_print x)) m)"
| "tree_print v = v"

definition tree_text :: "(json, json) json_text" where
  "tree_text = \<lparr>jt_write = tree_print, jt_parse = Some\<rparr>"

lemma map_put_same:
  "map (\<lambda>(k, x). (k, f x)) m = m \<Longrightarrow> f x = x \<Longrightarrow> map (\<lambda>(k, x). (k, f x)) (smap_put k x m) = smap_put k x m"
  using smap_map_put [of f k x m] by (simp add: smap_map_def)

lemma tree_set_print: "tree_set v k x = Some v' \<Longrightarrow> tree_print v = v \<Longrightarrow> tree_print x = x \<Longrightarrow> tree_print v' = v'"
  by (cases v) (auto simp: map_put_same)

lemma tree_put_print:
  assumes "tree_put v i x = Some v'" and "tree_print v = v" and "tree_print x = x"
  shows "tree_print v' = v'"
proof -
  obtain xs where xs: "tree_items v = Some xs" "v' = JArray ((xs @ replicate (Suc i - length xs) JNull)[i := x])"
    using assms(1) by (auto simp: tree_put_def simp del: replicate_Suc)
  have "map tree_print xs = xs" using xs(1) assms(2) by (cases v) auto
  then show ?thesis by (simp add: xs(2) map_update assms(3) del: replicate_Suc)
qed

lemma tree_calls:
  "js_null tree_json = JNull" "js_string tree_json = JString" "js_uint tree_json n = JNumber (rat_of_nat n)"
  "js_double tree_json = JReal" "js_set tree_json = tree_set" "js_put tree_json = tree_put"
  by (simp_all add: tree_json_def)

lemma tree_print_printable: "printable tree_json v \<Longrightarrow> tree_print v = v"
proof (induction rule: printable.induct)
  case (string s)
  then have "map (\<lambda>c. if of_char c < (128 :: nat) then c else CHR ''?'') s = s"
    by (intro map_idI) (simp add: ascii_def)
  then show ?case by (simp add: tree_calls)
qed (auto simp: tree_calls intro: tree_set_print tree_put_print)

interpretation tree_files: json_files tree_json tree_members tree_items tree_text
  by unfold_locales (simp add: tree_text_def tree_print_printable)

end
