(* ===== verification/Database.thy ===== *)
theory Database
  imports JsonLib GenericFrame
begin

text \<open>
  The database of frames (\<open>J1939/J1939DataBase.cpp\<close>): a JSON document is read into generic frames, and
  generic frames are written as one. The document is a value of the library \<open>J\<close>, the text in the file is
  printed and parsed by its other half \<open>T\<close> (\<open>JsonLib\<close>); what the file holds, and whether it can be opened,
  is an argument. Every SPN constructor makes a
  specification of its own; \<open>ref\<close> numbers them.
\<close>

section \<open>State and results\<close>

datatype EErrorCode =
    ERROR_OK | ERROR_FILE_NOT_FOUND | ERROR_JSON_SYNTAX | ERROR_UNEXPECTED_TOKENS
  | ERROR_OUT_OF_RANGE | ERROR_UNKNOWN_SPN_TYPE | ERROR_FORBIDDEN_TOKEN

record database =
  db_mFrames :: "generic frame list"
  db_mErrorCode :: EErrorCode

definition J1939DataBase :: database where
  "J1939DataBase = \<lparr>db_mFrames = [], db_mErrorCode = ERROR_OK\<rparr>"

definition addFrame :: "generic frame \<Rightarrow> database \<Rightarrow> database" where
  "addFrame frame db = db\<lparr>db_mFrames := db_mFrames db @ [frame]\<rparr>"

definition database_clear :: "database \<Rightarrow> database" where
  "database_clear db = db\<lparr>db_mFrames := [], db_mErrorCode := ERROR_OK\<rparr>"

text \<open>
  Reading stops with \<open>return false\<close> and an error code, with \<open>Json::LogicError\<close>, or with an assertion of
  the frame classes.
\<close>

datatype stop = Refused EErrorCode | LogicError | Raised exc

type_synonym 'a reading = "stop + 'a"

fun then_read :: "'a reading \<Rightarrow> ('a \<Rightarrow> 'b reading) \<Rightarrow> 'b reading" where
  "then_read (Inl e) f = Inl e"
| "then_read (Inr a) f = f a"

fun lib_call :: "'a option \<Rightarrow> 'a reading" where
  "lib_call None = Inl LogicError"
| "lib_call (Some a) = Inr a"

fun frame_call :: "'a res \<Rightarrow> 'a reading" where
  "frame_call (Inl e) = Inl (Raised e)"
| "frame_call (Inr a) = Inr a"

definition demand :: "bool \<Rightarrow> EErrorCode \<Rightarrow> unit reading" where
  "demand b code = (if b then Inr () else Inl (Refused code))"

text \<open>\<open>isMember\<close> for several keys, left to right, as \<open>||\<close> evaluates it.\<close>

fun all_members :: "'v json_lib \<Rightarrow> 'v \<Rightarrow> string list \<Rightarrow> bool reading" where
  "all_members J v [] = Inr True"
| "all_members J v (k # ks) =
     then_read (lib_call (js_isMember J v k)) (\<lambda>b. if b then all_members J v ks else Inr False)"

section \<open>Reading SPNs\<close>

definition parseSPNNumeric ::
  "'v json_lib \<Rightarrow> nat \<Rightarrow> generic \<Rightarrow> 'v \<Rightarrow> generic reading" where
  "parseSPNNumeric J ref frame spn =
     then_read (all_members J spn [''formatGain'', ''formatOffset'', ''byteSize'', ''units'', ''offset'']) (\<lambda>b.
     then_read (demand b ERROR_UNEXPECTED_TOKENS) (\<lambda>_.
     then_read (lib_call (js_get J spn ''name'')) (\<lambda>name.
     then_read (lib_call (js_get J spn ''number'')) (\<lambda>number.
     then_read (lib_call (js_get J spn ''offset'')) (\<lambda>offset.
     then_read (lib_call (js_get J spn ''formatGain'')) (\<lambda>formatGain.
     then_read (lib_call (js_get J spn ''formatOffset'')) (\<lambda>formatOffset.
     then_read (lib_call (js_get J spn ''byteSize'')) (\<lambda>byteSize.
     then_read (lib_call (js_get J spn ''units'')) (\<lambda>units.
     then_read (demand (js_isDouble J formatGain \<and> js_isDouble J formatOffset \<and> js_isUInt J byteSize
         \<and> js_isString J units \<and> js_isUInt J offset) ERROR_UNEXPECTED_TOKENS) (\<lambda>_.
     then_read (lib_call (js_asUInt J byteSize)) (\<lambda>size.
     then_read (demand (size \<le> 4 \<and> size \<noteq> 0) ERROR_OUT_OF_RANGE) (\<lambda>_.
     then_read (lib_call (js_asUInt J number)) (\<lambda>n.
     then_read (lib_call (js_asString J name)) (\<lambda>nm.
     then_read (lib_call (js_asUInt J offset)) (\<lambda>off.
     then_read (lib_call (js_asDouble J formatGain)) (\<lambda>gain.
     then_read (lib_call (js_asDouble J formatOffset)) (\<lambda>foff.
     then_read (lib_call (js_asString J units)) (\<lambda>us.
     then_read (frame_call (SPNNumeric ref n nm (unat off) gain foff (ucast size) us)) (\<lambda>spnNum.
       frame_call (registerSPN spnNum frame))))))))))))))))))))"

fun parse_descriptions ::
  "'v json_lib \<Rightarrow> 'v \<Rightarrow> nat list \<Rightarrow> (u8, string) smap \<Rightarrow> (u8, string) smap reading" where
  "parse_descriptions J descriptions [] valueToDesc = Inr valueToDesc"
| "parse_descriptions J descriptions (i # is) valueToDesc =
     then_read (lib_call (js_at J descriptions i)) (\<lambda>d.
       if js_isNull J d then parse_descriptions J descriptions is valueToDesc
       else then_read (lib_call (js_asString J d)) (\<lambda>str.
              parse_descriptions J descriptions is (smap_put (of_nat i) str valueToDesc)))"

definition parseSPNStatus ::
  "'v json_lib \<Rightarrow> nat \<Rightarrow> generic \<Rightarrow> 'v \<Rightarrow> generic reading" where
  "parseSPNStatus J ref frame spn =
     then_read (all_members J spn [''bitOffset'', ''bitSize'', ''offset'']) (\<lambda>b.
     then_read (demand b ERROR_UNEXPECTED_TOKENS) (\<lambda>_.
     then_read (lib_call (js_get J spn ''name'')) (\<lambda>name.
     then_read (lib_call (js_get J spn ''number'')) (\<lambda>number.
     then_read (lib_call (js_get J spn ''offset'')) (\<lambda>offset.
     then_read (lib_call (js_get J spn ''bitOffset'')) (\<lambda>bitOffset.
     then_read (lib_call (js_get J spn ''bitSize'')) (\<lambda>bitSize.
     then_read (demand (js_isUInt J bitOffset \<and> js_isUInt J bitSize \<and> js_isUInt J offset)
         ERROR_UNEXPECTED_TOKENS) (\<lambda>_.
     then_read (lib_call (js_asUInt J bitSize)) (\<lambda>bsize.
     then_read (lib_call (js_asUInt J bitOffset)) (\<lambda>boff.
     then_read (demand (bsize \<noteq> 0 \<and> bsize + boff \<le> 8) ERROR_OUT_OF_RANGE) (\<lambda>_.
     then_read (lib_call (js_isMember J spn ''descriptions'')) (\<lambda>described.
     then_read (if described
         then then_read (lib_call (js_get J spn ''descriptions'')) (\<lambda>descriptions.
                parse_descriptions J descriptions [0 ..< js_size J descriptions] [])
         else Inr []) (\<lambda>valueToDesc.
     then_read (lib_call (js_asUInt J number)) (\<lambda>n.
     then_read (lib_call (js_asString J name)) (\<lambda>nm.
     then_read (lib_call (js_asUInt J offset)) (\<lambda>off.
     then_read (frame_call (SPNStatus ref n nm (unat off) (ucast boff) (ucast bsize) valueToDesc)) (\<lambda>spnStat.
       frame_call (registerSPN spnStat frame))))))))))))))))))"

definition parseSPNString ::
  "'v json_lib \<Rightarrow> nat \<Rightarrow> generic \<Rightarrow> 'v \<Rightarrow> generic reading" where
  "parseSPNString J ref frame spn =
     then_read (lib_call (js_get J spn ''name'')) (\<lambda>name.
     then_read (lib_call (js_get J spn ''number'')) (\<lambda>number.
     then_read (lib_call (js_asUInt J number)) (\<lambda>n.
     then_read (lib_call (js_asString J name)) (\<lambda>nm.
     then_read (frame_call (SPNString ref n nm)) (\<lambda>spnStr.
       frame_call (registerSPN spnStr frame))))))"

definition parse_spn :: "'v json_lib \<Rightarrow> nat \<Rightarrow> generic \<Rightarrow> 'v \<Rightarrow> generic reading" where
  "parse_spn J ref frame spn =
     then_read (all_members J spn [''name'', ''number'', ''type'']) (\<lambda>b.
     then_read (demand b ERROR_UNEXPECTED_TOKENS) (\<lambda>_.
     then_read (lib_call (js_get J spn ''name'')) (\<lambda>name.
     then_read (lib_call (js_get J spn ''number'')) (\<lambda>number.
     then_read (lib_call (js_get J spn ''type'')) (\<lambda>type.
     then_read (lib_call (js_get J spn ''offset'')) (\<lambda>offset.
     then_read (demand (js_isString J name \<and> js_isUInt J number \<and> js_isUInt J type)
         ERROR_UNEXPECTED_TOKENS) (\<lambda>_.
     then_read (lib_call (js_asUInt J type)) (\<lambda>t.
       if t = 0 then parseSPNNumeric J ref frame spn
       else if t = 1 then parseSPNStatus J ref frame spn
       else if t = 2 then parseSPNString J ref frame spn
       else Inl (Refused ERROR_UNKNOWN_SPN_TYPE)))))))))"

fun parse_spns :: "'v json_lib \<Rightarrow> 'v \<Rightarrow> nat list \<Rightarrow> nat \<Rightarrow> generic \<Rightarrow> (generic \<times> nat) reading" where
  "parse_spns J spns [] ref frame = Inr (frame, ref)"
| "parse_spns J spns (j # js) ref frame =
     then_read (lib_call (js_at J spns j)) (\<lambda>spn.
     then_read (parse_spn J ref frame spn) (\<lambda>frame'.
       parse_spns J spns js (ref + 1) frame'))"

section \<open>Reading frames\<close>

text \<open>The optional members of a frame.\<close>

definition optional_member ::
  "'v json_lib \<Rightarrow> 'v \<Rightarrow> string \<Rightarrow> ('v \<Rightarrow> bool) \<Rightarrow> ('v \<Rightarrow> 'a option) \<Rightarrow> 'a option reading" where
  "optional_member J v key is_kind as_kind =
     then_read (lib_call (js_isMember J v key)) (\<lambda>there.
       if there
       then then_read (lib_call (js_get J v key)) (\<lambda>x.
              if is_kind x then then_read (lib_call (as_kind x)) (\<lambda>a. Inr (Some a)) else Inr None)
       else Inr None)"

definition parse_frame :: "'v json_lib \<Rightarrow> nat \<Rightarrow> 'v \<Rightarrow> (generic frame \<times> nat) reading" where
  "parse_frame J ref jsonFrame =
     then_read (all_members J jsonFrame [''pgn'']) (\<lambda>b.
     then_read (demand b ERROR_UNEXPECTED_TOKENS) (\<lambda>_.
     then_read (lib_call (js_get J jsonFrame ''pgn'')) (\<lambda>jsonPgn.
     then_read (demand (js_isUInt J jsonPgn) ERROR_UNEXPECTED_TOKENS) (\<lambda>_.
     then_read (lib_call (js_asUInt J jsonPgn)) (\<lambda>pgn.
     then_read (demand (pgn \<noteq> 0xFECA) ERROR_FORBIDDEN_TOKEN) (\<lambda>_.
     then_read (frame_call (GenericFrame pgn)) (\<lambda>frame.
     then_read (optional_member J jsonFrame ''name'' (js_isString J) (js_asString J)) (\<lambda>name.
     then_read (optional_member J jsonFrame ''length'' (js_isUInt J) (js_asUInt J)) (\<lambda>len.
     let frame = (case name of None \<Rightarrow> frame | Some nm \<Rightarrow> frame\<lparr>mName := nm\<rparr>);
         body = (case len of None \<Rightarrow> mBody frame | Some n \<Rightarrow> generic_setLength (unat n) (mBody frame))
     in then_read (lib_call (js_isMember J jsonFrame ''spns'')) (\<lambda>has.
        if has
        then then_read (lib_call (js_get J jsonFrame ''spns'')) (\<lambda>spns.
             then_read (demand (js_isArray J spns) ERROR_UNEXPECTED_TOKENS) (\<lambda>_.
             then_read (parse_spns J spns [0 ..< js_size J spns] ref body) (\<lambda>(body', ref').
               Inr (frame\<lparr>mBody := body'\<rparr>, ref'))))
        else Inr (frame\<lparr>mBody := body\<rparr>, ref)))))))))))"

text \<open>Frames are added one by one: when reading stops, those before stay.\<close>

fun parse_frames ::
  "'v json_lib \<Rightarrow> 'v \<Rightarrow> nat list \<Rightarrow> nat \<Rightarrow> database \<Rightarrow> stop option \<times> database" where
  "parse_frames J data [] ref db = (None, db)"
| "parse_frames J data (i # is) ref db =
     (case then_read (lib_call (js_at J data i)) (parse_frame J ref) of
        Inl e \<Rightarrow> (Some e, db)
      | Inr (frame, ref') \<Rightarrow> parse_frames J data is ref' (addFrame frame db))"

text \<open>
  What \<open>parseJsonFile\<close> returns, or the exception it leaves with. The file is its text, \<open>None\<close> when it cannot
  be opened.
\<close>

datatype ending = Returns bool | Throws stop

definition parseJsonFile ::
  "'v json_lib \<Rightarrow> ('v, 't) json_text \<Rightarrow> nat \<Rightarrow> 't option \<Rightarrow> database \<Rightarrow> ending \<times> database" where
  "parseJsonFile J T ref file db =
     (case file of
        None \<Rightarrow> (Returns False, db\<lparr>db_mErrorCode := ERROR_FILE_NOT_FOUND\<rparr>)
      | Some text \<Rightarrow>
          (case jt_parse T text of
             None \<Rightarrow> (Returns False, db\<lparr>db_mErrorCode := ERROR_JSON_SYNTAX\<rparr>)
           | Some data \<Rightarrow>
               let db = db\<lparr>db_mErrorCode := ERROR_UNEXPECTED_TOKENS\<rparr>
               in if \<not> js_isArray J data then (Returns False, db)
                  else (case parse_frames J data [0 ..< js_size J data] ref db of
                          (None, db') \<Rightarrow> (Returns True, db'\<lparr>db_mErrorCode := ERROR_OK\<rparr>)
                        | (Some (Refused code), db') \<Rightarrow> (Returns False, db'\<lparr>db_mErrorCode := code\<rparr>)
                        | (Some e, db') \<Rightarrow> (Throws e, db'))))"

section \<open>Writing\<close>

fun set_members :: "'v json_lib \<Rightarrow> (string \<times> 'v) list \<Rightarrow> 'v \<Rightarrow> 'v option" where
  "set_members J [] v = Some v"
| "set_members J ((k, x) # r) v = Option.bind (js_set J v k x) (set_members J r)"

fun put_items :: "'v json_lib \<Rightarrow> (nat \<times> 'v) list \<Rightarrow> 'v \<Rightarrow> 'v option" where
  "put_items J [] v = Some v"
| "put_items J ((i, x) # r) v = Option.bind (js_put J v i x) (put_items J r)"

definition writeSPNNumeric :: "'v json_lib \<Rightarrow> SPNNumericSpec \<Rightarrow> 'v \<Rightarrow> 'v option" where
  "writeSPNNumeric J spec jsonSpn =
     set_members J [(''byteSize'', js_uint J (unat (mByteSize spec))),
       (''formatGain'', js_double J (mFormatGain spec)),
       (''formatOffset'', js_double J (mFormatOffset spec)),
       (''units'', js_string J (mUnits spec))] jsonSpn"

definition writeSPNStatus :: "'v json_lib \<Rightarrow> SPNStatusSpec \<Rightarrow> 'v \<Rightarrow> 'v option" where
  "writeSPNStatus J spec jsonSpn =
     Option.bind (set_members J [(''bitOffset'', js_uint J (unat (mBitOffset spec))),
         (''bitSize'', js_uint J (unat (mBitSize spec)))] jsonSpn) (\<lambda>v.
       if mValueToDesc spec = [] then Some v
       else Option.bind (put_items J
                (map (\<lambda>(i, str). (unat i, js_string J str)) (mValueToDesc spec)) (js_null J))
              (js_set J v ''descriptions''))"

fun type_number :: "EType \<Rightarrow> nat" where
  "type_number SPN_NUMERIC = 0"
| "type_number SPN_STATUS = 1"
| "type_number SPN_STRING = 2"

definition write_spn :: "'v json_lib \<Rightarrow> SPN \<Rightarrow> 'v option" where
  "write_spn J spn =
     Option.bind (set_members J [(''type'', js_uint J (type_number (getType spn))),
         (''number'', js_uint J (unat (getSpnNumber spn))),
         (''name'', js_string J (mSpecName (mSpec spn))),
         (''offset'', js_uint J (getOffset spn))] (js_null J)) (\<lambda>jsonSPN.
       case mSpnData spn of
         SpnNumeric spec v \<Rightarrow> writeSPNNumeric J spec jsonSPN
       | SpnStatus spec v \<Rightarrow> writeSPNStatus J spec jsonSPN
       | SpnString off v \<Rightarrow> Some jsonSPN)"

fun write_list :: "'v json_lib \<Rightarrow> ('a \<Rightarrow> 'v option) \<Rightarrow> nat \<Rightarrow> 'a list \<Rightarrow> 'v \<Rightarrow> 'v option" where
  "write_list J write pos [] v = Some v"
| "write_list J write pos (a # as) v =
     Option.bind (write a) (\<lambda>x. Option.bind (js_put J v pos x) (write_list J write (pos + 1) as))"

definition write_frame :: "'v json_lib \<Rightarrow> generic frame \<Rightarrow> 'v option" where
  "write_frame J frame =
     Option.bind (set_members J [(''pgn'', js_uint J (unat (mPgn frame))),
         (''name'', js_string J (mName frame)),
         (''length'', js_uint J (generic_getDataLength (mBody frame)))] (js_null J)) (\<lambda>jsonFrame.
       if mSPNs (mBody frame) = [] then Some jsonFrame
       else Option.bind (write_list J (write_spn J) 0 (map snd (mSPNs (mBody frame))) (js_null J))
              (js_set J jsonFrame ''spns''))"

text \<open>The document that \<open>writeJsonFile\<close> builds, \<open>None\<close> when a call of the library throws.\<close>

definition written_document :: "'v json_lib \<Rightarrow> database \<Rightarrow> 'v option" where
  "written_document J db = write_list J (write_frame J) 0 (db_mFrames db) (js_null J)"

text \<open>The result of \<open>writeJsonFile\<close>, and the text that it prints to the file when that could be opened.\<close>

definition writeJsonFile ::
  "'v json_lib \<Rightarrow> ('v, 't) json_text \<Rightarrow> bool \<Rightarrow> database \<Rightarrow> (bool \<times> 't option) reading" where
  "writeJsonFile J T opened db =
     (if \<not> opened then Inr (False, None)
      else then_read (lib_call (written_document J db)) (\<lambda>data. Inr (True, Some (jt_write T data))))"

end
