(* ===== verification/DatabaseCodec.thy ===== *)
theory DatabaseCodec
  imports Database Factory
begin

text \<open>
  What reading a database guarantees of the frames, and the round trip of a database through its
  document.
\<close>

section \<open>Splitting the steps of a reader\<close>

lemma then_read_iff:
  "then_read m f = Inr b \<longleftrightarrow> (\<exists>a. m = Inr a \<and> f a = Inr b)"
  "then_read m f = Inl e \<longleftrightarrow> m = Inl e \<or> (\<exists>a. m = Inr a \<and> f a = Inl e)"
  by (cases m; auto)+

lemma lib_call_iff [simp]:
  "lib_call m = Inr a \<longleftrightarrow> m = Some a" "lib_call m = Inl e \<longleftrightarrow> m = None \<and> e = LogicError"
  by (cases m; auto)+

lemma frame_call_iff [simp]:
  "frame_call m = Inr a \<longleftrightarrow> m = Inr a" "frame_call m = Inl e \<longleftrightarrow> (\<exists>x. m = Inl x \<and> e = Raised x)"
  by (cases m; auto)+

lemma demand_iff [simp]:
  "demand b c = Inr u \<longleftrightarrow> b" "demand b c = Inl e \<longleftrightarrow> \<not> b \<and> e = Refused c"
  by (auto simp: demand_def)

section \<open>The frames that are read\<close>

text \<open>What every frame of a database obeys: its PGN is not that of a DM1 and can be one of a frame, its
  SPNs are well formed and its strings lie one behind the other.\<close>

definition database_frame :: "generic frame \<Rightarrow> bool" where
  "database_frame f \<longleftrightarrow> mPgn f \<noteq> DM1_PGN
     \<and> (getPDUFormatGroup (mPgn f) = PDU_FORMAT_2 \<or> mPgn f AND 0xFF = 0)
     \<and> generic_wf (mBody f) \<and> offsets_ok (mBody f)"

lemma SPNString_offset: "SPNString ref n nm = Inr s \<Longrightarrow> getOffset s = 0"
  by (auto simp: SPNString_def res_bind_Inr_iff getOffset_def)

lemma spn_ctor_types:
  "SPNNumeric ref n nm off g fo bs us = Inr s \<Longrightarrow> getType s = SPN_NUMERIC"
  "SPNStatus ref n nm off bo bz ds = Inr s \<Longrightarrow> getType s = SPN_STATUS"
  by (auto simp: SPNNumeric_def SPNStatus_def res_bind_Inr_iff getType_def)

lemma parse_spn_registers:
  assumes "parse_spn J ref frame spn = Inr frame'"
  shows "\<exists>s. spn_wf s \<and> (getType s = SPN_STRING \<longrightarrow> getOffset s = 0) \<and> registerSPN s frame = Inr frame'"
proof -
  have "parseSPNNumeric J ref frame spn = Inr frame' \<or> parseSPNStatus J ref frame spn = Inr frame'
      \<or> parseSPNString J ref frame spn = Inr frame'"
    using assms by (auto simp: parse_spn_def then_read_iff split: if_splits)
  then show ?thesis
  proof (elim disjE)
    assume "parseSPNNumeric J ref frame spn = Inr frame'"
    then obtain n nm off g fo bs us s where "SPNNumeric ref n nm off g fo bs us = Inr s"
      and "registerSPN s frame = Inr frame'"
      by (auto simp: parseSPNNumeric_def then_read_iff)
    then show ?thesis using SPNNumeric_wf spn_ctor_types(1) by fastforce
  next
    assume "parseSPNStatus J ref frame spn = Inr frame'"
    then obtain n nm off bo bz ds s where "SPNStatus ref n nm off bo bz ds = Inr s"
      and "registerSPN s frame = Inr frame'"
      by (auto simp: parseSPNStatus_def then_read_iff)
    then show ?thesis using SPNStatus_wf spn_ctor_types(2) by fastforce
  next
    assume "parseSPNString J ref frame spn = Inr frame'"
    then show ?thesis
      by (auto simp: parseSPNString_def then_read_iff dest: SPNString_wf SPNString_offset)
  qed
qed

lemma parse_spns_wf:
  "parse_spns J spns js ref g = Inr (g', ref') \<Longrightarrow> generic_wf g \<and> offsets_ok g \<Longrightarrow>
     generic_wf g' \<and> offsets_ok g'"
proof (induction js arbitrary: ref g)
  case (Cons j js)
  then obtain spn g1 where g1: "parse_spn J ref g spn = Inr g1" and rest: "parse_spns J spns js (ref + 1) g1 = Inr (g', ref')"
    by (auto simp: then_read_iff)
  obtain s where "spn_wf s" "getType s = SPN_STRING \<longrightarrow> getOffset s = 0" "registerSPN s g = Inr g1"
    using parse_spn_registers [OF g1] by blast
  then have "generic_wf g1 \<and> offsets_ok g1"
    using Cons.prems(2) registerSPN_keeps registerSPN_offsets by blast
  with Cons.IH [OF rest] show ?case by blast
qed simp

lemma parse_frame_ok:
  assumes "parse_frame J ref v = Inr (f, ref')"
  shows "database_frame f"
proof -
  have empty: "generic_wf (generic_setLength n \<lparr>mLength = 0, mSPNs = []\<rparr>)"
    "offsets_ok (generic_setLength n \<lparr>mLength = 0, mSPNs = []\<rparr>)" for n
    by (simp_all add: generic_wf_def offsets_ok_def generic_setLength_def head_offset_def)
  obtain pgn f0 name len has where pgn: "pgn \<noteq> DM1_PGN" and f0: "GenericFrame pgn = Inr f0"
    and r: "(let frame = (case name of None \<Rightarrow> f0 | Some nm \<Rightarrow> f0\<lparr>mName := nm\<rparr>);
         body = (case len of None \<Rightarrow> mBody frame | Some n \<Rightarrow> generic_setLength (unat (n :: u32)) (mBody frame))
     in if has
        then then_read (lib_call (js_get J v ''spns'')) (\<lambda>spns.
             then_read (demand (js_isArray J spns) ERROR_UNEXPECTED_TOKENS) (\<lambda>_.
             then_read (parse_spns J spns [0 ..< js_size J spns] ref body) (\<lambda>(body', ref').
               Inr (frame\<lparr>mBody := body'\<rparr>, ref'))))
        else Inr (frame\<lparr>mBody := body\<rparr>, ref)) = Inr (f, ref')"
    using assms unfolding parse_frame_def Let_def then_read_iff by (elim exE conjE) auto
  define body where "body = (case len of None \<Rightarrow> mBody f0 | Some n \<Rightarrow> generic_setLength (unat n) (mBody f0))"
  have same: "mBody (case name of None \<Rightarrow> f0 | Some nm \<Rightarrow> f0\<lparr>mName := nm\<rparr>) = mBody f0"
    by (cases name) simp_all
  obtain g where f: "f = (case name of None \<Rightarrow> f0 | Some nm \<Rightarrow> f0\<lparr>mName := nm\<rparr>)\<lparr>mBody := g\<rparr>"
    and g: "g = body \<or> (\<exists>spns. parse_spns J spns [0 ..< js_size J spns] ref body = Inr (g, ref'))"
    using r by (auto simp: Let_def same body_def then_read_iff split: if_splits cong: option.case_cong)
  have "mBody f0 = \<lparr>mLength = 0, mSPNs = []\<rparr>" "mPgn f0 = pgn"
    and h: "getPDUFormatGroup pgn = PDU_FORMAT_2 \<or> pgn AND 0xFF = 0"
    using f0 by (auto simp: GenericFrame_def frame_ctor_def split: if_splits)
  then have "generic_wf body \<and> offsets_ok body"
    using empty [of 0] empty by (auto simp: body_def generic_setLength_def split: option.split)
  then have "generic_wf g \<and> offsets_ok g" using g by (auto dest: parse_spns_wf)
  with pgn h show ?thesis
    using \<open>mPgn f0 = pgn\<close> by (auto simp: database_frame_def f split: option.split)
qed

text \<open>No reader refuses its input with \<open>ERROR_OK\<close>.\<close>

definition honest :: "'a reading \<Rightarrow> bool" where
  "honest m \<longleftrightarrow> m \<noteq> Inl (Refused ERROR_OK)"

lemma honest_simps [simp]:
  "honest (Inr a)" "honest (lib_call x)" "honest (frame_call r)"
  "honest (demand b c) \<longleftrightarrow> b \<or> c \<noteq> ERROR_OK" "honest (Inl (Refused c)) \<longleftrightarrow> c \<noteq> ERROR_OK"
  by (auto simp: honest_def)

lemma honest_then: "honest m \<Longrightarrow> (\<And>a. honest (f a)) \<Longrightarrow> honest (then_read m f)"
  by (cases m) (auto simp: honest_def)

lemma all_members_honest [simp]: "honest (all_members J v ks)"
  by (induction ks) (auto intro!: honest_then)

lemma parse_descriptions_honest [simp]: "honest (parse_descriptions J d is m)"
  by (induction "is" arbitrary: m) (auto intro!: honest_then)

lemma parse_spn_honest [simp]: "honest (parse_spn J ref g v)"
  unfolding parse_spn_def parseSPNNumeric_def parseSPNStatus_def parseSPNString_def
  by (auto intro!: honest_then)

lemma parse_spns_honest [simp]: "honest (parse_spns J v js ref g)"
  by (induction js arbitrary: ref g) (auto intro!: honest_then)

lemma parse_frame_honest [simp]: "honest (parse_frame J ref v)"
  unfolding parse_frame_def optional_member_def Let_def
  by (auto intro!: honest_then)

lemma parse_frames_ok:
  "parse_frames J data is ref db = (e, db') \<Longrightarrow>
     \<exists>fs. db' = db\<lparr>db_mFrames := db_mFrames db @ fs\<rparr> \<and> (\<forall>f \<in> set fs. database_frame f)
        \<and> length fs \<le> length is \<and> (e = None \<longleftrightarrow> length fs = length is)
        \<and> e \<noteq> Some (Refused ERROR_OK)"
proof (induction "is" arbitrary: ref db)
  case (Cons i "is")
  show ?case
  proof (cases "then_read (lib_call (js_at J data i)) (parse_frame J ref)")
    case (Inl x)
    moreover have "honest (then_read (lib_call (js_at J data i)) (parse_frame J ref))"
      by (intro honest_then) simp_all
    ultimately show ?thesis using Cons.prems by (intro exI [of _ "[]"]) (auto simp: honest_def)
  next
    case (Inr r)
    then obtain v f ref' where f: "parse_frame J ref v = Inr (f, ref')" and r: "r = (f, ref')"
      by (cases r) (auto simp: then_read_iff)
    then have "parse_frames J data is ref' (addFrame f db) = (e, db')" using Cons.prems Inr by simp
    from Cons.IH [OF this] obtain fs where "db' = (addFrame f db)\<lparr>db_mFrames := db_mFrames (addFrame f db) @ fs\<rparr>"
      "\<forall>f \<in> set fs. database_frame f" "length fs \<le> length is" "e = None \<longleftrightarrow> length fs = length is"
      "e \<noteq> Some (Refused ERROR_OK)" by blast
    with parse_frame_ok [OF f] show ?thesis by (intro exI [of _ "f # fs"]) (auto simp: addFrame_def)
  qed
qed simp

text \<open>C14: Whatever a database file contains and whatever the JSON library answers, reading it only appends
  frames, and each of them is well formed, is not a DM1 and has its strings one behind the other; the
  frames before an error stay. \<open>parseJsonFile\<close> returns true exactly when the error code says so, and then
  every element of the document gave a frame.\<close>

theorem database_frames_wf:
  assumes "parseJsonFile J T ref file db = (end, db')"
  shows "\<exists>fs. db_mFrames db' = db_mFrames db @ fs \<and> (\<forall>f \<in> set fs. database_frame f)
    \<and> (\<forall>b. end = Returns b \<longrightarrow> b = (db_mErrorCode db' = ERROR_OK))
    \<and> (end = Returns True \<longrightarrow>
        (\<exists>text data. file = Some text \<and> jt_parse T text = Some data \<and> length fs = js_size J data))"
proof (cases "\<exists>text data. file = Some text \<and> jt_parse T text = Some data \<and> js_isArray J data")
  case False
  then show ?thesis using assms by (auto simp: parseJsonFile_def Let_def split: option.splits)
next
  case True
  then obtain content data where d: "file = Some content" "jt_parse T content = Some data" "js_isArray J data" by blast
  let ?db = "db\<lparr>db_mErrorCode := ERROR_UNEXPECTED_TOKENS\<rparr>"
  obtain e db1 where p: "parse_frames J data [0 ..< js_size J data] ref ?db = (e, db1)" by force
  obtain fs where "db1 = ?db\<lparr>db_mFrames := db_mFrames ?db @ fs\<rparr>" "\<forall>f \<in> set fs. database_frame f"
    "e = None \<longleftrightarrow> length fs = js_size J data" "e \<noteq> Some (Refused ERROR_OK)"
    using parse_frames_ok [OF p] by auto
  with assms d p show ?thesis
    by (auto simp: parseJsonFile_def split: option.splits stop.splits)
qed

definition sample_read :: database where
  "sample_read = \<lparr>db_mFrames =
     [\<lparr>mPriority = 0, mSrcAddr = 0xFE, mPgn = 0xF004, mDstAddr = 0xFE, mName = ''Unknown'',
       mBody = \<lparr>mLength = 0, mSPNs = []\<rparr>\<rparr>], db_mErrorCode = ERROR_UNEXPECTED_TOKENS\<rparr>"

lemma evaluated_document:
  "parseJsonFile tree_json tree_text 0 (Some (JArray [JObject [(''pgn'', JNumber 61444)], JNumber 1])) J1939DataBase
   = (Throws LogicError, sample_read)"
  by (simp add: parseJsonFile_def parse_frame_def optional_member_def tree_json_def tree_text_def demand_def J1939DataBase_def
      upt_rec smap_find_Cons GenericFrame_def frame_ctor_def getPDUFormatGroup_def getPDUFormat_def addFrame_def
      sample_read_def)

theorem database_frames_wf_witness:
  "\<exists>db'. parseJsonFile tree_json tree_text 0 (Some (JArray [JObject [(''pgn'', JNumber 61444)], JNumber 1])) J1939DataBase
       = (Throws LogicError, db')
     \<and> length (db_mFrames db') = 1 \<and> list_all database_frame (db_mFrames db')"
proof -
  have "list_all database_frame (db_mFrames sample_read)"
    using database_frames_wf [OF evaluated_document] by (auto simp: J1939DataBase_def list_all_iff)
  moreover have "length (db_mFrames sample_read) = 1" by (simp add: sample_read_def)
  ultimately show ?thesis using evaluated_document by blast
qed

end
