(* ===== verification/DatabaseRoundtrip.thy ===== *)
theory DatabaseRoundtrip
  imports DatabaseCodec
begin

text \<open>
  A database survives the way into its file and back, by the laws \<open>json_values\<close> and \<open>json_files\<close> of the library.
\<close>

section \<open>Frames that can be stored, and what comes back\<close>

definition spn_storable :: "SPN \<Rightarrow> bool" where
  "spn_storable s \<longleftrightarrow> spn_wf s \<and> getOffset s < 2 ^ 32 \<and> ascii (mSpecName (mSpec s))
     \<and> (case mSpnData s of
          SpnNumeric spec v \<Rightarrow> finite_double (mFormatGain spec) \<and> finite_double (mFormatOffset spec) \<and> ascii (mUnits spec)
        | SpnStatus spec v \<Rightarrow> smap_ok (mValueToDesc spec) \<and> (\<forall>(b, str) \<in> set (mValueToDesc spec). ascii str)
        | SpnString off v \<Rightarrow> True)"

definition storable :: "generic frame \<Rightarrow> bool" where
  "storable f \<longleftrightarrow> database_frame f \<and> generic_getDataLength (mBody f) < 2 ^ 32 \<and> ascii (mName f)
     \<and> (\<forall>(k, s) \<in> set (mSPNs (mBody f)). spn_storable s)"

text \<open>The SPN that is read: number, name and format are back, the value is the initial one.\<close>

definition spn_reread :: "SPN \<Rightarrow> SPN \<Rightarrow> bool" where
  "spn_reread s s' \<longleftrightarrow> getSpnNumber s' = getSpnNumber s \<and> mSpecName (mSpec s') = mSpecName (mSpec s)
     \<and> same_data (mSpnData s) (mSpnData s') \<and> (getType s \<noteq> SPN_STRING \<longrightarrow> getOffset s' = getOffset s)"

definition spns_reread :: "(u32, SPN) smap \<Rightarrow> (u32, SPN) smap \<Rightarrow> bool" where
  "spns_reread = list_all2 (\<lambda>(k, s) (k', s'). k' = k \<and> spn_reread s s')"

definition frame_reread :: "generic frame \<Rightarrow> generic frame \<Rightarrow> bool" where
  "frame_reread f f' \<longleftrightarrow> mPgn f' = mPgn f \<and> mName f' = mName f
     \<and> mLength (mBody f') = generic_getDataLength (mBody f)
     \<and> spns_reread (mSPNs (mBody f)) (mSPNs (mBody f')) \<and> database_frame f'"

lemma unat_u8: "unat (b :: u8) < 256"
proof -
  have "unat b < 2 ^ LENGTH(8)" by (rule unsigned_less)
  then show ?thesis by simp
qed

lemma unat_u32: "unat (x :: u32) < 2 ^ 32"
proof -
  have "unat x < 2 ^ LENGTH(32)" by (rule unsigned_less)
  then show ?thesis by simp
qed

lemma map_of_rev: "distinct (map fst xs) \<Longrightarrow> map_of (rev xs) = map_of xs"
  using map_of_inject_set [of "rev xs" xs] by (simp flip: rev_map)

text \<open>Registering the SPNs one after the other, in the order of their numbers.\<close>

lemma spn_reread_type: "spn_reread s s' \<Longrightarrow> getType s' = getType s"
  by (cases "mSpnData s"; cases "mSpnData s'") (auto simp: spn_reread_def getType_def)

lemma spn_reread_alike: "spn_reread s t \<Longrightarrow> same_spn t' t \<Longrightarrow> spn_reread s t'"
  using same_data_trans [of "mSpnData s" "mSpnData t" "mSpnData t'"] same_spn_offset [of t' t]
    same_spn_type [of t' t] spn_reread_type [of s t]
  by (auto simp: spn_reread_def same_spn_def getSpnNumber_def same_data_sym)

lemma spns_reread_alike: "spns_reread m0 m \<Longrightarrow> spns_alike m' m \<Longrightarrow> spns_reread m0 m'"
proof -
  assume "spns_reread m0 m" and "spns_alike m' m"
  then have "list_all2 (\<lambda>(k, s) (k', s'). k = k' \<and> same_spn s' s) m m'"
    unfolding spns_alike_def by (auto simp: list_all2_conv_all_nth split_beta)
  with \<open>spns_reread m0 m\<close> show ?thesis
    unfolding spns_reread_def
    by (rule list_all2_trans [rotated]) (auto intro: spn_reread_alike)
qed

lemma spns_reread_keys: "spns_reread m0 m \<Longrightarrow> map fst m = map fst m0"
  by (induction m0 m rule: list_induct2') (auto simp: spns_reread_def)

lemma spns_reread_kinds:
  "spns_reread m0 m \<Longrightarrow> all_strings m = all_strings m0 \<and> no_strings m = no_strings m0"
  by (induction m0 m rule: list_induct2') (auto simp: spns_reread_def dest: spn_reread_type)

lemma register_reread:
  assumes "spns_reread m1 (mSPNs g)" and "generic_wf g" and "offsets_ok g"
    and "smap_ok (m1 @ (k, s) # m2)" and "getSpnNumber s = k"
    and "all_strings (m1 @ [(k, s)]) \<or> no_strings (m1 @ [(k, s)])"
    and "spn_wf s'" and "spn_reread s s'" and "getType s' = SPN_STRING \<longrightarrow> getOffset s' = 0"
  shows "\<exists>g'. registerSPN s' g = Inr g' \<and> spns_reread (m1 @ [(k, s)]) (mSPNs g') \<and> generic_wf g'
    \<and> offsets_ok g' \<and> mLength g' = mLength g"
proof -
  have "\<forall>k' \<in> fst ` set m1. k' < k"
    using assms(4) by (auto simp: smap_ok_def sorted_wrt_append)
  then have "\<forall>k' \<in> fst ` set (mSPNs g). k' < k"
    using spns_reread_keys [OF assms(1)] by (metis list.set_map)
  then have "smap_put k s' (mSPNs g) = mSPNs g @ [(k, s')]" and "smap_find (mSPNs g) k = None"
    by (auto simp: smap_put_append smap_find_None_iff)
  moreover have number: "getSpnNumber s' = k" and type: "getType s' = getType s"
    using assms(5,8) spn_reread_type by (simp_all add: spn_reread_def)
  moreover have fits: "mSPNs g = [] \<or> (getType (snd (hd (mSPNs g))) = SPN_STRING) = (getType s' = SPN_STRING)"
    using generic_wf_hd [OF assms(2)] spns_reread_kinds [OF assms(1)] assms(6) type
    by (auto simp: all_strings_def no_strings_def)
  ultimately have "registerSPN s' g = Inr (g\<lparr>mSPNs := (if getType s' = SPN_STRING
      then recalculateStringOffsets (mSPNs g @ [(k, s')]) else mSPNs g @ [(k, s')])\<rparr>)"
    unfolding registerSPN_def Let_def number by (simp only: if_True refl)
  then obtain g' where g': "registerSPN s' g = Inr g'"
    and m': "mSPNs g' = (if getType s' = SPN_STRING then recalculateStringOffsets (mSPNs g @ [(k, s')])
      else mSPNs g @ [(k, s')])" and "mLength g' = mLength g"
    by (rule that) simp_all
  have "spns_reread (m1 @ [(k, s)]) (mSPNs g @ [(k, s')])"
    using assms(1,8) by (auto simp: spns_reread_def intro: list_all2_appendI)
  then have "spns_reread (m1 @ [(k, s)]) (mSPNs g')"
    using spns_reread_alike [OF _ recalc_alike] by (simp add: m')
  with g' \<open>mLength g' = mLength g\<close> registerSPN_keeps [OF assms(2,7) g']
    registerSPN_offsets [OF assms(2,3,7,9) g'] show ?thesis by blast
qed

section \<open>Objects and arrays\<close>

context json_values
begin

lemma set_members_ok:
  "members v = Some m \<Longrightarrow>
     \<exists>v'. set_members J kvs v = Some v' \<and> members v' = Some (foldl (\<lambda>m (k, x). m(k \<mapsto> x)) m kvs)"
proof (induction kvs arbitrary: v m)
  case (Cons kv kvs)
  obtain k x where kv: "kv = (k, x)" by force
  obtain v1 where v1: "js_set J v k x = Some v1" "members v1 = Some (m(k \<mapsto> x))"
    using set [OF Cons.prems] by blast
  from Cons.IH [OF v1(2)] show ?case by (simp add: kv v1(1))
qed simp

lemma all_members_ok:
  "members v = Some m \<Longrightarrow> all_members J v ks = Inr (list_all (\<lambda>k. m k \<noteq> None) ks)"
  by (induction ks) (simp_all add: isMember)

lemma write_list_ok:
  "items v = Some xs \<Longrightarrow> \<forall>a \<in> set as. write a = Some (w a) \<Longrightarrow>
     \<exists>v'. write_list J write (length xs) as v = Some v' \<and> items v' = Some (xs @ map w as)
        \<and> (as \<noteq> [] \<longrightarrow> js_isArray J v')"
proof (induction "as" arbitrary: v xs)
  case (Cons a "as")
  obtain v1 where v1: "js_put J v (length xs) (w a) = Some v1" "js_isArray J v1" "items v1 = Some (xs @ [w a])"
    using put_next [OF Cons.prems(1)] by blast
  have "\<forall>a \<in> set as. write a = Some (w a)" using Cons.prems(2) by simp
  from Cons.IH [OF v1(3) this] Cons.prems(2) v1 show ?case by (cases "as") auto
qed simp

text \<open>The descriptions of a status: an array with holes.\<close>

definition slot :: "'v list \<Rightarrow> nat \<Rightarrow> 'v" where
  "slot xs i = (if i < length xs then xs ! i else js_null J)"

lemma put_items_ok:
  "items v = Some xs \<Longrightarrow>
     \<exists>v' ys. put_items J kvs v = Some v' \<and> items v' = Some ys
        \<and> (\<forall>i. slot ys i = (case map_of (rev kvs) i of None \<Rightarrow> slot xs i | Some x \<Rightarrow> x))
        \<and> length xs \<le> length ys \<and> (\<forall>i \<in> fst ` set kvs. i < length ys)
        \<and> (\<forall>n. length xs \<le> n \<and> (\<forall>i \<in> fst ` set kvs. i < n) \<longrightarrow> length ys \<le> n)"
proof (induction kvs arbitrary: v xs)
  case (Cons kv kvs)
  obtain k x where kv: "kv = (k, x)" by force
  let ?ys = "(xs @ replicate (Suc k - length xs) (js_null J))[k := x]"
  obtain v1 where v1: "js_put J v k x = Some v1" "items v1 = Some ?ys"
    using put [OF Cons.prems] by blast
  obtain v' ys where v': "put_items J kvs v1 = Some v'" "items v' = Some ys"
    and sl: "\<forall>i. slot ys i = (case map_of (rev kvs) i of None \<Rightarrow> slot ?ys i | Some x \<Rightarrow> x)"
    and len: "length ?ys \<le> length ys" "\<forall>i \<in> fst ` set kvs. i < length ys"
      "\<forall>n. length ?ys \<le> n \<and> (\<forall>i \<in> fst ` set kvs. i < n) \<longrightarrow> length ys \<le> n"
    using Cons.IH [OF v1(2)] by blast
  have "slot ?ys i = (if i = k then x else slot xs i)" for i
    by (auto simp: slot_def nth_append nth_list_update)
  with sl have "\<forall>i. slot ys i = (case map_of (rev (kv # kvs)) i of None \<Rightarrow> slot xs i | Some x \<Rightarrow> x)"
    by (auto simp: kv map_add_def split: option.splits)
  moreover have "length ?ys = max (length xs) (Suc k)" by simp
  with len have "length xs \<le> length ys \<and> (\<forall>i \<in> fst ` set (kv # kvs). i < length ys)
      \<and> (\<forall>n. length xs \<le> n \<and> (\<forall>i \<in> fst ` set (kv # kvs). i < n) \<longrightarrow> length ys \<le> n)"
    by (auto simp: kv simp del: length_list_update length_append length_replicate)
  ultimately show ?case using v' v1(1) by (intro exI [of _ v'] exI [of _ ys]) (simp add: kv)
qed auto

lemma parse_descriptions_ok:
  assumes "items d = Some xs" and "\<forall>i \<in> set is. slot xs i = (case smap_find m (of_nat i) of
      None \<Rightarrow> js_null J | Some s \<Rightarrow> js_string J s)" and "\<forall>i \<in> set is. i < 256"
  shows "\<exists>m'. parse_descriptions J d is m0 = Inr m' \<and> (smap_ok m0 \<longrightarrow> smap_ok m')
    \<and> (\<forall>k. smap_find m' k = (if unat k \<in> set is \<and> smap_find m k \<noteq> None then smap_find m k else smap_find m0 k))"
  using assms(2,3)
proof (induction "is" arbitrary: m0)
  case (Cons i "is")
  have at_i: "js_at J d i = Some (slot xs i)" using at [OF assms(1)] by (simp add: slot_def)
  have u: "unat (of_nat i :: u8) = i" using Cons.prems(2) by (simp add: unat_of_nat)
  have k: "unat k = i \<longleftrightarrow> k = of_nat i" for k :: u8 using u by auto
  show ?case
  proof (cases "smap_find m (of_nat i)")
    case None
    then have p: "parse_descriptions J d (i # is) m0 = parse_descriptions J d is m0"
      using Cons.prems(1) by (simp add: at_i null_isNull)
    have "unat k \<in> set (i # is) \<and> smap_find m k \<noteq> None \<longleftrightarrow> unat k \<in> set is \<and> smap_find m k \<noteq> None" for k
      using None by (auto simp: k)
    with Cons.IH [of m0] Cons.prems show ?thesis by (simp only: p) simp
  next
    case (Some s)
    obtain m' where "parse_descriptions J d is (smap_put (of_nat i) s m0) = Inr m'"
      "smap_ok (smap_put (of_nat i) s m0) \<longrightarrow> smap_ok m'"
      "\<forall>k. smap_find m' k = (if unat k \<in> set is \<and> smap_find m k \<noteq> None then smap_find m k
         else smap_find (smap_put (of_nat i) s m0) k)"
      using Cons.IH [of "smap_put (of_nat i) s m0"] Cons.prems by auto
    with Cons.prems at_i Some show ?thesis
      by (auto simp: string_value k smap_find_put smap_ok_put)
  qed
qed simp

lemma descriptions_roundtrip:
  assumes "smap_ok (m :: (u8, string) smap)"
  shows "\<exists>y. put_items J (map (\<lambda>(i, str). (unat i, js_string J str)) m) (js_null J) = Some y
    \<and> parse_descriptions J y [0 ..< js_size J y] [] = Inr m"
proof -
  let ?kvs = "map (\<lambda>(i, str). (unat i, js_string J str)) m"
  obtain y ys where y: "put_items J ?kvs (js_null J) = Some y" "items y = Some ys"
    and sl: "\<forall>i. slot ys i = (case map_of (rev ?kvs) i of None \<Rightarrow> slot [] i | Some x \<Rightarrow> x)"
    and keys: "\<forall>i \<in> fst ` set ?kvs. i < length ys"
    and len: "\<forall>n. length ([] :: 'v list) \<le> n \<and> (\<forall>i \<in> fst ` set ?kvs. i < n) \<longrightarrow> length ys \<le> n"
    using put_items_ok [OF null_items, of ?kvs] by blast
  have "distinct (map fst ?kvs)"
    using assms by (auto simp: smap_ok_def distinct_map strict_sorted_iff inj_on_def split_beta
        simp flip: word_unat_eq_iff)
  then have "map_of (rev ?kvs) i = map_of ?kvs i" for i by (simp only: map_of_rev)
  moreover have "map_of ?kvs (unat k) = map_option (js_string J) (smap_find m k)" for k
    by (induction m) (auto simp: smap_find_Nil simp flip: word_unat_eq_iff)
  ultimately have slots: "slot ys (unat k) = (case smap_find m k of None \<Rightarrow> js_null J | Some s \<Rightarrow> js_string J s)" for k
    using sl by (auto simp: slot_def split: option.split)
  have "\<forall>i \<in> fst ` set ?kvs. i < 256" using unat_u8 by force
  then have l: "length ys \<le> 256" using len [rule_format, of 256] by simp
  have b: "i < 256 \<Longrightarrow> unat (of_nat i :: u8) = i" for i by (simp add: unat_of_nat take_bit_nat_eq_self)
  have small: "\<forall>i \<in> set [0 ..< length ys]. i < 256" using l by simp
  then have "\<forall>i \<in> set [0 ..< length ys]. slot ys i = (case smap_find m (of_nat i) of
      None \<Rightarrow> js_null J | Some s \<Rightarrow> js_string J s)"
    using slots b by (metis (no_types))
  from parse_descriptions_ok [OF y(2) this small, of "[]"]
  obtain m' where m': "parse_descriptions J y [0 ..< js_size J y] [] = Inr m'" "smap_ok m'"
    and f: "\<And>k. smap_find m' k = (if unat k < length ys \<and> smap_find m k \<noteq> None then smap_find m k else None)"
    unfolding size [OF y(2)] by (simp only: smap_ok_Nil smap_find_Nil atLeastLessThan_iff set_upt le0 simp_thms) blast
  have "smap_find m' k = smap_find m k" for k
  proof (cases "smap_find m k")
    case (Some s)
    then have "(k, s) \<in> set m" using smap_find_Some_iff [OF assms] by blast
    then have "unat k < length ys" using keys by force
    with Some show ?thesis by (simp add: f)
  qed (simp add: f)
  then have "m' = m" using smap_ext [OF m'(2) assms] by blast
  with m'(1) y(1) show ?thesis by blast
qed

text \<open>An SPN and its object.\<close>

lemma number_value [simp]:
  "js_isUInt J (js_uint J (unat (x :: u32)))" "js_asUInt J (js_uint J (unat x)) = Some x"
  "js_isUInt J (js_uint J (unat (b :: u8)))" "js_asUInt J (js_uint J (unat b)) = Some (ucast b)"
proof -
  have x: "unat x < 2 ^ 32" by (rule unat_u32)
  have b: "unat b < 2 ^ 32" using unat_u8 [of b] by simp
  show "js_isUInt J (js_uint J (unat x))" "js_asUInt J (js_uint J (unat x)) = Some x"
    "js_isUInt J (js_uint J (unat b))" "js_asUInt J (js_uint J (unat b)) = Some (ucast b)"
    using uint_value [OF x] uint_value [OF b] by simp_all
qed

lemma type_value [simp]:
  "js_isUInt J (js_uint J 0)" "js_isUInt J (js_uint J 1)" "js_isUInt J (js_uint J (Suc 0))" "js_isUInt J (js_uint J 2)"
  "js_asUInt J (js_uint J 0) = Some 0" "js_asUInt J (js_uint J 1) = Some 1"
  "js_asUInt J (js_uint J (Suc 0)) = Some 1" "js_asUInt J (js_uint J 2) = Some 2"
  using uint_value [of 0] uint_value [of 1] uint_value [of 2] by simp_all

lemma ucast_small: "(ucast (b :: u8) :: u32) \<le> 4 \<longleftrightarrow> b \<le> 4" "(ucast (b :: u8) :: u32) = 0 \<longleftrightarrow> b = 0"
  "(ucast (ucast b :: u32) :: u8) = b"
  "unat a + unat b \<le> 8 \<Longrightarrow> (ucast a + ucast b :: u32) \<le> 8"
  for a b :: u8
proof -
  have u: "unat (ucast c :: u32) = unat c" for c :: u8
    using unat_u8 [of c] by (simp add: unsigned_ucast_eq take_bit_nat_eq_self)
  show "(ucast b :: u32) \<le> 4 \<longleftrightarrow> b \<le> 4" by (simp add: word_le_nat_alt u)
  show "(ucast b :: u32) = 0 \<longleftrightarrow> b = 0" by (simp add: unat_eq_zero [symmetric] u)
  show "(ucast (ucast b :: u32) :: u8) = b" by (rule bit_word_eqI) (simp add: bit_simps)
  assume "unat a + unat b \<le> 8"
  then show "(ucast a + ucast b :: u32) \<le> 8" by (simp add: word_le_nat_alt unat_word_ariths u)
qed

text \<open>What every SPN is written with, and what is looked at first.\<close>

definition spn_head :: "SPN \<Rightarrow> (string \<times> 'v) list" where
  "spn_head s = [(''type'', js_uint J (type_number (getType s))),
     (''number'', js_uint J (unat (getSpnNumber s))), (''name'', js_string J (mSpecName (mSpec s))),
     (''offset'', js_uint J (getOffset s))]"

definition assign_all :: "(string \<times> 'v) list \<Rightarrow> (string \<rightharpoonup> 'v) \<Rightarrow> (string \<rightharpoonup> 'v)" where
  "assign_all kvs m = foldl (\<lambda>m (k, x). m(k \<mapsto> x)) m kvs"

lemma assign_all_simps [simp]:
  "assign_all [] m = m" "assign_all ((k, x) # kvs) m = assign_all kvs (m(k \<mapsto> x))"
  by (simp_all add: assign_all_def)

lemma spn_head_written:
  obtains x where "set_members J (spn_head s) (js_null J) = Some x"
    and "members x = Some (assign_all (spn_head s) Map.empty)"
  using set_members_ok [OF null_members, of "spn_head s"] by (auto simp: assign_all_def)

lemma more_written:
  assumes "members x = Some m"
  obtains y where "set_members J kvs x = Some y" and "members y = Some (assign_all kvs m)"
  using set_members_ok [OF assms, of kvs] by (auto simp: assign_all_def)

lemma parse_spn_head:
  assumes "members x = Some m" and "m ''name'' = Some (js_string J nm)"
    and "m ''number'' = Some (js_uint J (unat (n :: u32)))"
    and "m ''type'' = Some (js_uint J (type_number t))"
  shows "parse_spn J ref g x = (case t of SPN_NUMERIC \<Rightarrow> parseSPNNumeric J ref g x
    | SPN_STATUS \<Rightarrow> parseSPNStatus J ref g x | SPN_STRING \<Rightarrow> parseSPNString J ref g x)"
  by (cases t) (simp_all add: parse_spn_def all_members_ok [OF assms(1)] get [OF assms(1)] assms
      string_value demand_def del: all_members.simps)

text \<open>What reading back an SPN's object comes to.\<close>

definition reads_as :: "SPN \<Rightarrow> 'v \<Rightarrow> bool" where
  "reads_as s x \<longleftrightarrow> (\<forall>ref g. \<exists>s'. parse_spn J ref g x = frame_call (registerSPN s' g)
     \<and> spn_wf s' \<and> spn_reread s s' \<and> (getType s' = SPN_STRING \<longrightarrow> getOffset s' = 0))"

lemma offset_value:
  assumes "getOffset s < 2 ^ 32"
  shows "js_isUInt J (js_uint J (getOffset s))"
    "js_asUInt J (js_uint J (getOffset s)) = Some (of_nat (getOffset s))"
    "unat (word_of_nat (getOffset s) :: u32) = getOffset s"
  using uint_value assms by (auto simp: unat_of_nat take_bit_nat_eq_self)

lemma spn_numeric_roundtrip:
  assumes "spn_wf s" and "getOffset s < 2 ^ 32" and d: "mSpnData s = SpnNumeric spec v"
  shows "\<exists>x. write_spn J s = Some x \<and> reads_as s x"
proof -
  obtain x1 where x1: "set_members J (spn_head s) (js_null J) = Some x1"
    "members x1 = Some (assign_all (spn_head s) Map.empty)" by (rule spn_head_written)
  let ?more = "[(''byteSize'', js_uint J (unat (mByteSize spec))), (''formatGain'', js_double J (mFormatGain spec)),
    (''formatOffset'', js_double J (mFormatOffset spec)), (''units'', js_string J (mUnits spec))]"
  obtain x where x: "set_members J ?more x1 = Some x"
    "members x = Some (assign_all ?more (assign_all (spn_head s) Map.empty))" by (rule more_written [OF x1(2)])
  have w: "write_spn J s = Some x"
    using x1(1) x(1) by (simp add: write_spn_def writeSPNNumeric_def d spn_head_def)
  let ?s' = "\<lambda>ref. \<lparr>mSpecId = ref, mSpec = \<lparr>mSPNNumber = getSpnNumber s, mSpecName = mSpecName (mSpec s),
      mSpecOffset = getOffset s\<rparr>, mSpnData = SpnNumeric spec 0xFFFFFFFF\<rparr>"
  have n: "getSpnNumber s < 2 ^ 19" and bs: "mByteSize spec \<noteq> 0" "mByteSize spec \<le> 4"
    using assms(1) by (simp_all add: spn_wf_def d getSpnNumber_def word_neq_0_conv)
  have "SPNNumeric ref (getSpnNumber s) (mSpecName (mSpec s)) (getOffset s) (mFormatGain spec)
      (mFormatOffset spec) (mByteSize spec) (mUnits spec) = Inr (?s' ref)" for ref
    using n bs by (simp add: SPNNumeric_def SPNSpec_ctor_def push_bit_eq_mult SPNNumericSpec_ctor_def word_neq_0_conv)
  then have "parse_spn J ref g x = frame_call (registerSPN (?s' ref) g)" for ref g
    using bs n
    by (simp add: parse_spn_head [OF x(2), where t = SPN_NUMERIC] parseSPNNumeric_def all_members_ok [OF x(2)]
        get [OF x(2)] spn_head_def string_value double_value offset_value [OF assms(2)] getType_def d
        ucast_small demand_def del: all_members.simps)
  moreover have "spn_wf (?s' ref)" "spn_reread s (?s' ref)" "getType (?s' ref) \<noteq> SPN_STRING" for ref
    using n bs by (simp_all add: spn_wf_def spn_reread_def d getSpnNumber_def getOffset_def getType_def word_neq_0_conv)
  ultimately show ?thesis using w by (auto simp: reads_as_def)
qed

lemma spn_string_roundtrip:
  assumes "spn_wf s" and d: "mSpnData s = SpnString off v"
  shows "\<exists>x. write_spn J s = Some x \<and> reads_as s x"
proof -
  obtain x where x: "set_members J (spn_head s) (js_null J) = Some x"
    "members x = Some (assign_all (spn_head s) Map.empty)" by (rule spn_head_written)
  have w: "write_spn J s = Some x" using x(1) by (simp add: write_spn_def d spn_head_def)
  let ?s' = "\<lambda>ref. \<lparr>mSpecId = ref, mSpec = \<lparr>mSPNNumber = getSpnNumber s, mSpecName = mSpecName (mSpec s),
      mSpecOffset = 0\<rparr>, mSpnData = SpnString 0 []\<rparr>"
  have n: "getSpnNumber s < 2 ^ 19"
    using assms(1) by (simp add: spn_wf_def getSpnNumber_def)
  then have "parse_spn J ref g x = frame_call (registerSPN (?s' ref) g)" for ref g
    by (simp add: parse_spn_head [OF x(2), where t = SPN_STRING] parseSPNString_def get [OF x(2)] spn_head_def
        string_value getType_def d SPNString_def SPNSpec_ctor_def push_bit_eq_mult)
  moreover have "spn_wf (?s' ref)" "spn_reread s (?s' ref)" "getOffset (?s' ref) = 0" for ref
    using n by (simp_all add: spn_wf_def spn_reread_def d getSpnNumber_def getOffset_def getType_def)
  ultimately show ?thesis using w by (auto simp: reads_as_def)
qed

lemma spn_status_roundtrip:
  assumes "spn_wf s" and "getOffset s < 2 ^ 32" and d: "mSpnData s = SpnStatus spec v"
    and ok: "smap_ok (mValueToDesc spec)"
  shows "\<exists>x. write_spn J s = Some x \<and> reads_as s x"
proof -
  obtain x1 where x1: "set_members J (spn_head s) (js_null J) = Some x1"
    "members x1 = Some (assign_all (spn_head s) Map.empty)" by (rule spn_head_written)
  let ?more = "[(''bitOffset'', js_uint J (unat (mBitOffset spec))), (''bitSize'', js_uint J (unat (mBitSize spec)))]"
  obtain x2 where x2: "set_members J ?more x1 = Some x2"
    "members x2 = Some (assign_all ?more (assign_all (spn_head s) Map.empty))" by (rule more_written [OF x1(2)])
  have "\<exists>x m. write_spn J s = Some x \<and> members x = Some m
      \<and> (\<forall>k. k \<noteq> ''descriptions'' \<longrightarrow> m k = assign_all ?more (assign_all (spn_head s) Map.empty) k)
      \<and> (case m ''descriptions'' of None \<Rightarrow> mValueToDesc spec = []
         | Some y \<Rightarrow> parse_descriptions J y [0 ..< js_size J y] [] = Inr (mValueToDesc spec))"
  proof (cases "mValueToDesc spec = []")
    case True
    then have "write_spn J s = Some x2"
      using x1(1) x2(1) by (simp add: write_spn_def writeSPNStatus_def d spn_head_def)
    with x2(2) True show ?thesis by (auto simp: spn_head_def)
  next
    case False
    obtain y where y: "put_items J (map (\<lambda>(i, str). (unat i, js_string J str)) (mValueToDesc spec)) (js_null J) = Some y"
      "parse_descriptions J y [0 ..< js_size J y] [] = Inr (mValueToDesc spec)"
      using descriptions_roundtrip [OF ok] by blast
    obtain x where "js_set J x2 ''descriptions'' y = Some x"
      "members x = Some ((assign_all ?more (assign_all (spn_head s) Map.empty))(''descriptions'' \<mapsto> y))"
      using set [OF x2(2)] by blast
    moreover from this(1) have "write_spn J s = Some x"
      using x1(1) x2(1) y(1) False
      by (simp add: write_spn_def writeSPNStatus_def d flip: spn_head_def del: set_members.simps)
    ultimately show ?thesis using y(2) by auto
  qed
  then obtain x m where w: "write_spn J s = Some x" and x: "members x = Some m"
    and m: "\<And>k. k \<noteq> ''descriptions'' \<Longrightarrow> m k = assign_all ?more (assign_all (spn_head s) Map.empty) k"
    and ds: "case m ''descriptions'' of None \<Rightarrow> mValueToDesc spec = []
         | Some y \<Rightarrow> parse_descriptions J y [0 ..< js_size J y] [] = Inr (mValueToDesc spec)"
    by blast
  let ?s' = "\<lambda>ref. \<lparr>mSpecId = ref, mSpec = \<lparr>mSPNNumber = getSpnNumber s, mSpecName = mSpecName (mSpec s),
      mSpecOffset = getOffset s\<rparr>, mSpnData = SpnStatus spec (drop_bit (8 - unat (mBitSize spec)) 0xFF)\<rparr>"
  have n: "getSpnNumber s < 2 ^ 19" and bs: "mBitSize spec \<noteq> 0" "unat (mBitOffset spec) + unat (mBitSize spec) \<le> 8"
    using assms(1) by (simp_all add: spn_wf_def d getSpnNumber_def word_neq_0_conv)
  have ctor: "SPNStatus ref (getSpnNumber s) (mSpecName (mSpec s)) (getOffset s) (mBitOffset spec)
      (mBitSize spec) (mValueToDesc spec) = Inr (?s' ref)" for ref
    using n bs by (simp add: SPNStatus_def SPNSpec_ctor_def push_bit_eq_mult SPNStatusSpec_ctor_def word_neq_0_conv)
  then have plain: "mValueToDesc spec = [] \<Longrightarrow> SPNStatus ref (getSpnNumber s) (mSpecName (mSpec s)) (getOffset s)
      (mBitOffset spec) (mBitSize spec) [] = Inr (?s' ref)" for ref by metis
  have sum: "(ucast (mBitSize spec) + ucast (mBitOffset spec) :: u32) \<le> 8"
    using ucast_small(4) [of "mBitSize spec" "mBitOffset spec"] bs by (simp add: add.commute)
  have "parse_spn J ref g x = frame_call (registerSPN (?s' ref) g)" for ref g
    using bs n ds
    by (cases "m ''descriptions''")
       (simp_all add: parse_spn_head [OF x, where t = SPN_STATUS] parseSPNStatus_def all_members_ok [OF x]
        get [OF x] isMember [OF x] m spn_head_def string_value offset_value [OF assms(2)] getType_def d
        ucast_small sum ctor plain demand_def del: all_members.simps)
  moreover have "spn_wf (?s' ref)" "spn_reread s (?s' ref)" "getType (?s' ref) \<noteq> SPN_STRING" for ref
    using n bs by (simp_all add: spn_wf_def spn_reread_def d getSpnNumber_def getOffset_def getType_def word_neq_0_conv)
  ultimately show ?thesis using w by (auto simp: reads_as_def)
qed

lemma spn_roundtrip: "spn_storable s \<Longrightarrow> \<exists>x. write_spn J s = Some x \<and> reads_as s x"
  using spn_numeric_roundtrip spn_status_roundtrip spn_string_roundtrip
  by (cases "mSpnData s") (auto simp: spn_storable_def)

text \<open>A frame and its object.\<close>

lemma parse_spns_ok:
  assumes "items v = Some xs"
  shows "list_all2 (\<lambda>(k, s) j. j < length xs \<and> reads_as s (xs ! j)) m2 js \<Longrightarrow>
    smap_ok (m1 @ m2) \<Longrightarrow> \<forall>(k, s) \<in> set m2. getSpnNumber s = k \<Longrightarrow>
    all_strings (m1 @ m2) \<or> no_strings (m1 @ m2) \<Longrightarrow>
    spns_reread m1 (mSPNs g) \<Longrightarrow> generic_wf g \<and> offsets_ok g \<Longrightarrow>
    \<exists>g' ref'. parse_spns J v js ref g = Inr (g', ref') \<and> spns_reread (m1 @ m2) (mSPNs g')
      \<and> mLength g' = mLength g"
proof (induction m2 js arbitrary: m1 ref g rule: list_induct2')
  case (4 e m2 j js)
  obtain k s where e: "e = (k, s)" by force
  have j: "j < length xs" "reads_as s (xs ! j)" and rest: "list_all2 (\<lambda>(k, s) j. j < length xs \<and> reads_as s (xs ! j)) m2 js"
    using 4(2) by (simp_all add: e)
  obtain s' where s': "parse_spn J ref g (xs ! j) = frame_call (registerSPN s' g)" "spn_wf s'" "spn_reread s s'"
    "getType s' = SPN_STRING \<longrightarrow> getOffset s' = 0"
    using j(2) unfolding reads_as_def by blast
  have "all_strings (m1 @ [(k, s)]) \<or> no_strings (m1 @ [(k, s)])"
    using 4(5) by (auto simp: e all_strings_def no_strings_def)
  then obtain g1 where g1: "registerSPN s' g = Inr g1" "spns_reread (m1 @ [(k, s)]) (mSPNs g1)"
    "generic_wf g1 \<and> offsets_ok g1" "mLength g1 = mLength g"
    using register_reread [OF 4(6) _ _ 4(3) [unfolded e] _ _ s'(2-4)] 4(4,7) by (auto simp: e)
  have "parse_spns J v (j # js) ref g = parse_spns J v js (ref + 1) g1"
    using at [OF assms, of j] j(1) s'(1) g1(1) by simp
  with 4(1) [OF rest, of "m1 @ [(k, s)]" g1 "ref + 1"] 4(3-5) g1(2-4) show ?case by (simp add: e)
qed auto

text \<open>What reading back a frame's object comes to.\<close>

definition frame_reads_as :: "generic frame \<Rightarrow> 'v \<Rightarrow> bool" where
  "frame_reads_as f x \<longleftrightarrow> (\<forall>ref. \<exists>f' ref'. parse_frame J ref x = Inr (f', ref') \<and> frame_reread f f')"

lemma frame_roundtrip:
  assumes "storable f"
  shows "\<exists>x. write_frame J f = Some x \<and> frame_reads_as f x"
proof -
  let ?g = "mBody f" and ?len = "generic_getDataLength (mBody f)"
  have db: "database_frame f" and len: "?len < 2 ^ 32" using assms by (simp_all add: storable_def)
  have wf: "smap_ok (mSPNs ?g)" "\<forall>(k, s) \<in> set (mSPNs ?g). getSpnNumber s = k"
    "all_strings (mSPNs ?g) \<or> no_strings (mSPNs ?g)"
    using db generic_wf_kinds [of ?g] by (auto simp: database_frame_def generic_wf_def)
  let ?kvs = "[(''pgn'', js_uint J (unat (mPgn f))), (''name'', js_string J (mName f)), (''length'', js_uint J ?len)]"
  obtain x1 where x1: "set_members J ?kvs (js_null J) = Some x1" "members x1 = Some (assign_all ?kvs Map.empty)"
    by (rule more_written [OF null_members])
  have lv: "js_isUInt J (js_uint J ?len)" "js_asUInt J (js_uint J ?len) = Some (of_nat ?len)"
    "unat (of_nat ?len :: u32) = ?len"
    using uint_value [OF len] len by (simp_all add: unat_of_nat take_bit_nat_eq_self)
  define f0 where "f0 = (\<lparr>mPriority = 0, mSrcAddr = 0xFE, mPgn = mPgn f, mDstAddr = 0xFE, mName = mName f,
    mBody = \<lparr>mLength = ?len, mSPNs = []\<rparr>\<rparr> :: generic frame)"
  have reread: "frame_reread f (f0\<lparr>mBody := g'\<rparr>)"
    if "spns_reread (mSPNs ?g) (mSPNs g')" "mLength g' = ?len" "generic_wf g'" "offsets_ok g'" for g'
    using that db by (simp add: frame_reread_def f0_def database_frame_def)
  have g0: "generic_wf (mBody f0)" "offsets_ok (mBody f0)"
    by (simp_all add: f0_def generic_wf_def offsets_ok_def head_offset_def)
  obtain x m where w: "write_frame J f = Some x" and x: "members x = Some m"
    and m: "\<And>k. k \<noteq> ''spns'' \<Longrightarrow> m k = assign_all ?kvs Map.empty k"
    and s: "case m ''spns'' of None \<Rightarrow> mSPNs ?g = []
      | Some y \<Rightarrow> js_isArray J y \<and> (\<exists>ys. items y = Some ys \<and> list_all2 (\<lambda>(k, s). reads_as s) (mSPNs ?g) ys)"
  proof (cases "mSPNs ?g = []")
    case True
    then have "write_frame J f = Some x1" using x1(1) by (simp add: write_frame_def del: set_members.simps)
    from that [OF this x1(2)] True show thesis by simp
  next
    case False
    have "\<exists>x. write_spn J s = Some x \<and> reads_as s x" if "s \<in> set (map snd (mSPNs ?g))" for s
      using that assms by (intro spn_roundtrip) (auto simp: storable_def)
    then obtain w where wr: "\<forall>s \<in> set (map snd (mSPNs ?g)). write_spn J s = Some (w s)"
      and rd: "\<forall>s \<in> set (map snd (mSPNs ?g)). reads_as s (w s)" by metis
    obtain y where y: "write_list J (write_spn J) 0 (map snd (mSPNs ?g)) (js_null J) = Some y"
      "items y = Some (map w (map snd (mSPNs ?g)))" "js_isArray J y"
      using write_list_ok [OF null_items wr] False by auto
    obtain x where x: "js_set J x1 ''spns'' y = Some x" "members x = Some ((assign_all ?kvs Map.empty)(''spns'' \<mapsto> y))"
      using set [OF x1(2)] by blast
    have "write_frame J f = Some x"
      using x1(1) y(1) x(1) False by (simp add: write_frame_def del: set_members.simps)
    from that [OF this x(2)] y rd show thesis
      by (auto simp: list_all2_conv_all_nth split_beta)
  qed
  have ctor: "GenericFrame (mPgn f) = Inr (f0\<lparr>mName := ''Unknown'', mBody := \<lparr>mLength = 0, mSPNs = []\<rparr>\<rparr>)"
    and pgn: "mPgn f \<noteq> DM1_PGN"
    using db by (auto simp: database_frame_def GenericFrame_def frame_ctor_def f0_def)
  have start: "parse_frame J ref x = (case m ''spns'' of None \<Rightarrow> Inr (f0, ref)
      | Some y \<Rightarrow> then_read (demand (js_isArray J y) ERROR_UNEXPECTED_TOKENS) (\<lambda>_.
             then_read (parse_spns J y [0 ..< js_size J y] ref (mBody f0)) (\<lambda>(body', ref').
               Inr (f0\<lparr>mBody := body'\<rparr>, ref'))))" for ref
    using pgn by (cases "m ''spns''")
      (simp_all add: parse_frame_def optional_member_def all_members_ok [OF x] get [OF x] isMember [OF x] m
        string_value lv ctor demand_def generic_setLength_def, simp_all add: f0_def)
  have "\<exists>f' ref'. parse_frame J ref x = Inr (f', ref') \<and> frame_reread f f'" for ref
  proof (cases "m ''spns''")
    case None
    with s start reread [of "mBody f0"] g0 show ?thesis by (simp add: spns_reread_def f0_def)
  next
    case (Some y)
    with s obtain ys where y: "js_isArray J y" "items y = Some ys"
      and rd: "list_all2 (\<lambda>(k, s). reads_as s) (mSPNs ?g) ys" by auto
    have "list_all2 (\<lambda>(k, s) j. j < length ys \<and> reads_as s (ys ! j)) (mSPNs ?g) [0 ..< length ys]"
      using rd by (auto simp: list_all2_conv_all_nth split_beta)
    from parse_spns_ok [OF y(2) this, of "[]" "mBody f0" ref] wf g0
    obtain g' ref' where g': "parse_spns J y [0 ..< js_size J y] ref (mBody f0) = Inr (g', ref')"
      "spns_reread (mSPNs ?g) (mSPNs g')" "mLength g' = ?len"
      by (auto simp: spns_reread_def f0_def size [OF y(2)])
    with parse_spns_wf [OF g'(1)] g0 reread [OF g'(2,3)] start Some y(1) show ?thesis by (simp add: demand_def)
  qed
  with w show ?thesis by (auto simp: frame_reads_as_def)
qed

text \<open>All frames.\<close>

lemma parse_frames_written:
  assumes "items v = Some xs"
  shows "list_all2 (\<lambda>f j. j < length xs \<and> frame_reads_as f (xs ! j)) fs js \<Longrightarrow>
    \<exists>fs'. parse_frames J v js ref db = (None, db\<lparr>db_mFrames := db_mFrames db @ fs'\<rparr>)
      \<and> list_all2 frame_reread fs fs'"
proof (induction fs js arbitrary: ref db rule: list_induct2')
  case (4 f fs j js)
  obtain f' ref' where f': "parse_frame J ref (xs ! j) = Inr (f', ref')" "frame_reread f f'"
    using 4(2) unfolding list_all2_Cons frame_reads_as_def by blast
  then have "parse_frames J v (j # js) ref db = parse_frames J v js ref' (addFrame f' db)"
    using at [OF assms, of j] 4(2) by simp
  moreover obtain fs' where "parse_frames J v js ref' (addFrame f' db)
      = (None, (addFrame f' db)\<lparr>db_mFrames := db_mFrames (addFrame f' db) @ fs'\<rparr>)" "list_all2 frame_reread fs fs'"
    using 4(1) [of ref' "addFrame f' db"] 4(2) by auto
  ultimately show ?case using f'(2) by (intro exI [of _ "f' # fs'"]) (simp add: addFrame_def)
qed auto

lemma document_roundtrip:
  assumes "db_mFrames db \<noteq> []" and "\<forall>f \<in> set (db_mFrames db). storable f"
  shows "\<exists>v fs'. written_document J db = Some v \<and> js_isArray J v
    \<and> parse_frames J v [0 ..< js_size J v] ref db0 = (None, db0\<lparr>db_mFrames := db_mFrames db0 @ fs'\<rparr>)
    \<and> list_all2 frame_reread (db_mFrames db) fs'"
proof -
  let ?fs = "db_mFrames db"
  obtain w where wr: "\<forall>f \<in> set ?fs. write_frame J f = Some (w f)" and rd: "\<forall>f \<in> set ?fs. frame_reads_as f (w f)"
    using frame_roundtrip assms(2) by metis
  obtain v where v: "written_document J db = Some v" "items v = Some (map w ?fs)" "js_isArray J v"
    using write_list_ok [OF null_items wr] assms(1) by (auto simp: written_document_def)
  have "list_all2 (\<lambda>f j. j < length (map w ?fs) \<and> frame_reads_as f (map w ?fs ! j)) ?fs [0 ..< length (map w ?fs)]"
    using rd by (auto simp: list_all2_conv_all_nth)
  from parse_frames_written [OF v(2) this, of ref db0] v(1,3) show ?thesis by (auto simp: size [OF v(2)])
qed

end

section \<open>The document that is parsed reads like the one that was printed\<close>

lemma all_members_same: "reads_same J v w \<Longrightarrow> all_members J w ks = all_members J v ks"
  by (induction ks) (simp_all add: reads_same_answers cong: if_cong)

lemma get_same:
  assumes "reads_same J v w" and "\<And>x y. reads_same J x y \<Longrightarrow> f x = g y"
  shows "then_read (lib_call (js_get J v k)) f = then_read (lib_call (js_get J w k)) g"
  using reads_same_step(1) [OF assms(1), of k] assms(2)
  by (cases "js_get J v k"; cases "js_get J w k") simp_all

lemma at_same:
  assumes "reads_same J v w" and "\<And>x y. reads_same J x y \<Longrightarrow> f x = g y"
  shows "then_read (lib_call (js_at J v i)) f = then_read (lib_call (js_at J w i)) g"
  using reads_same_step(2) [OF assms(1), of i] assms(2)
  by (cases "js_at J v i"; cases "js_at J w i") simp_all

lemma then_same: "m = m' \<Longrightarrow> (\<And>a. f a = g a) \<Longrightarrow> then_read m f = then_read m' g"
  by (cases m) auto

lemma parse_descriptions_same: "reads_same J v w \<Longrightarrow> parse_descriptions J v is m = parse_descriptions J w is m"
proof (induction "is" arbitrary: m)
  case (Cons i "is")
  then have "parse_descriptions J v is = parse_descriptions J w is" by (intro ext)
  then show ?case
    unfolding parse_descriptions.simps using Cons.prems by (intro at_same) (simp_all add: reads_same_answers)
qed simp

lemma parseSPNNumeric_same: "reads_same J v w \<Longrightarrow> parseSPNNumeric J ref g v = parseSPNNumeric J ref g w"
  unfolding parseSPNNumeric_def
  by (rule get_same, assumption | rule then_same | simp add: all_members_same reads_same_answers del: all_members.simps)+

lemma parseSPNString_same: "reads_same J v w \<Longrightarrow> parseSPNString J ref g v = parseSPNString J ref g w"
  unfolding parseSPNString_def
  by (rule get_same, assumption | rule then_same | simp add: reads_same_answers)+

lemma described_same:
  "reads_same J v w \<Longrightarrow>
     then_read (lib_call (js_get J v k)) (\<lambda>d. parse_descriptions J d [0 ..< js_size J d] [])
       = then_read (lib_call (js_get J w k)) (\<lambda>d. parse_descriptions J d [0 ..< js_size J d] [])"
  by (erule get_same) (simp add: reads_same_answers parse_descriptions_same)

lemma parseSPNStatus_same: "reads_same J v w \<Longrightarrow> parseSPNStatus J ref g v = parseSPNStatus J ref g w"
  unfolding parseSPNStatus_def
  by (rule get_same, assumption | rule then_same | simp add: all_members_same reads_same_answers described_same del: all_members.simps)+

lemma parse_spn_same: "reads_same J v w \<Longrightarrow> parse_spn J ref g v = parse_spn J ref g w"
  unfolding parse_spn_def
  by (rule get_same, assumption | rule then_same
    | simp add: all_members_same reads_same_answers parseSPNNumeric_same parseSPNStatus_same parseSPNString_same
        del: all_members.simps)+

lemma parse_spns_same: "reads_same J v w \<Longrightarrow> parse_spns J v js ref g = parse_spns J w js ref g"
proof (induction js arbitrary: ref g)
  case (Cons j js)
  then have "parse_spns J v js = parse_spns J w js" by (intro ext)
  then show ?case unfolding parse_spns.simps using Cons.prems by (intro at_same) (simp_all add: parse_spn_same)
qed simp

lemma optional_member_same:
  assumes "reads_same J v w" and "\<And>x y. reads_same J x y \<Longrightarrow> is_kind x = is_kind y \<and> as_kind x = as_kind y"
  shows "optional_member J v key is_kind as_kind = optional_member J w key is_kind as_kind"
proof -
  have "then_read (lib_call (js_get J v key)) (\<lambda>x.
          if is_kind x then then_read (lib_call (as_kind x)) (\<lambda>a. Inr (Some a)) else Inr None)
      = then_read (lib_call (js_get J w key)) (\<lambda>x.
          if is_kind x then then_read (lib_call (as_kind x)) (\<lambda>a. Inr (Some a)) else Inr None)"
    using assms(1) by (rule get_same) (simp add: assms(2))
  then show ?thesis
    unfolding optional_member_def reads_same_answers(7) [OF assms(1)] by (intro then_same) simp_all
qed

lemma spns_same:
  "reads_same J v w \<Longrightarrow>
     then_read (lib_call (js_get J v k)) (\<lambda>spns.
       then_read (demand (js_isArray J spns) c) (\<lambda>_.
       then_read (parse_spns J spns [0 ..< js_size J spns] ref g) r))
     = then_read (lib_call (js_get J w k)) (\<lambda>spns.
       then_read (demand (js_isArray J spns) c) (\<lambda>_.
       then_read (parse_spns J spns [0 ..< js_size J spns] ref g) r))"
  by (erule get_same) (simp add: reads_same_answers parse_spns_same)

lemma parse_frame_same: "reads_same J v w \<Longrightarrow> parse_frame J ref v = parse_frame J ref w"
  unfolding parse_frame_def Let_def
  by (rule get_same, assumption | rule then_same | rule optional_member_same, assumption
    | simp add: all_members_same reads_same_answers spns_same del: all_members.simps)+

lemma parse_frames_same: "reads_same J v w \<Longrightarrow> parse_frames J v is ref db = parse_frames J w is ref db"
proof (induction "is" arbitrary: ref db)
  case (Cons i "is")
  have "then_read (lib_call (js_at J v i)) (parse_frame J ref) = then_read (lib_call (js_at J w i)) (parse_frame J ref)"
    using Cons.prems by (rule at_same) (rule parse_frame_same)
  moreover have "parse_frames J v is = parse_frames J w is" using Cons by (intro ext)
  ultimately show ?case unfolding parse_frames.simps by (simp only:)
qed simp

section \<open>What is written can be printed\<close>

lemma set_members_printable:
  "printable J v \<Longrightarrow> \<forall>(k, x) \<in> set kvs. ascii k \<and> printable J x \<Longrightarrow> set_members J kvs v = Some v' \<Longrightarrow> printable J v'"
proof (induction kvs arbitrary: v)
  case (Cons kv kvs)
  obtain k x where kv: "kv = (k, x)" by force
  obtain v1 where "js_set J v k x = Some v1" "set_members J kvs v1 = Some v'"
    using Cons.prems(3) by (auto simp: kv bind_eq_Some_conv)
  with Cons show ?case by (auto simp: kv intro: printable.set)
qed simp

lemma put_items_printable:
  "printable J v \<Longrightarrow> \<forall>(i, x) \<in> set kvs. printable J x \<Longrightarrow> put_items J kvs v = Some v' \<Longrightarrow> printable J v'"
proof (induction kvs arbitrary: v)
  case (Cons kv kvs)
  obtain i x where kv: "kv = (i, x)" by force
  obtain v1 where v1: "js_put J v i x = Some v1" "put_items J kvs v1 = Some v'"
    using Cons.prems(3) by (auto simp: kv bind_eq_Some_conv)
  have "printable J v1" using printable.put [OF Cons.prems(1) _ v1(1)] Cons.prems(2) by (simp add: kv)
  from Cons.IH [OF this _ v1(2)] Cons.prems(2) show ?case by simp
qed simp

lemma write_list_printable:
  "printable J v \<Longrightarrow> \<forall>a \<in> set as. \<forall>x. write a = Some x \<longrightarrow> printable J x \<Longrightarrow>
     write_list J write pos as v = Some v' \<Longrightarrow> printable J v'"
proof (induction "as" arbitrary: v pos)
  case (Cons a "as")
  obtain x v1 where x: "write a = Some x" "js_put J v pos x = Some v1" "write_list J write (pos + 1) as v1 = Some v'"
    using Cons.prems(3) by (auto simp: bind_eq_Some_conv)
  have "printable J v1" using printable.put [OF Cons.prems(1) _ x(2)] Cons.prems(2) x(1) by simp
  from Cons.IH [OF this _ x(3)] Cons.prems(2) show ?case by simp
qed simp

lemma keys_ascii:
  "ascii ''pgn''" "ascii ''name''" "ascii ''length''" "ascii ''spns''" "ascii ''type''" "ascii ''number''"
  "ascii ''offset''" "ascii ''byteSize''" "ascii ''formatGain''" "ascii ''formatOffset''" "ascii ''units''"
  "ascii ''bitOffset''" "ascii ''bitSize''" "ascii ''descriptions''"
  by (simp_all add: ascii_def)

lemma numbers_printable:
  "printable J (js_uint J (unat (x :: u32)))" "printable J (js_uint J (unat (b :: u8)))"
  "printable J (js_uint J (type_number t))"
proof -
  show "printable J (js_uint J (unat x))" by (rule printable.uint) (rule unat_u32)
  show "printable J (js_uint J (unat b))" using unat_u8 [of b] by (intro printable.uint) simp
  show "printable J (js_uint J (type_number t))" by (intro printable.uint) (cases t; simp)
qed

lemma write_spn_printable:
  assumes "spn_storable s" and "write_spn J s = Some x"
  shows "printable J x"
proof -
  obtain y where y: "set_members J [(''type'', js_uint J (type_number (getType s))),
         (''number'', js_uint J (unat (getSpnNumber s))),
         (''name'', js_string J (mSpecName (mSpec s))),
         (''offset'', js_uint J (getOffset s))] (js_null J) = Some y"
    and x: "(case mSpnData s of
         SpnNumeric spec v \<Rightarrow> writeSPNNumeric J spec y
       | SpnStatus spec v \<Rightarrow> writeSPNStatus J spec y
       | SpnString off v \<Rightarrow> Some y) = Some x"
    using assms(2) unfolding write_spn_def bind_eq_Some_conv by blast
  have py: "printable J y"
    by (rule set_members_printable [OF printable.null _ y])
       (use assms(1) in \<open>auto simp: spn_storable_def keys_ascii numbers_printable intro: printable.uint printable.string\<close>)
  show ?thesis
  proof (cases "mSpnData s")
    case (SpnNumeric spec v)
    have w: "writeSPNNumeric J spec y = Some x" using x SpnNumeric by simp
    show ?thesis
      by (rule set_members_printable [OF py _ w [unfolded writeSPNNumeric_def]])
         (use assms(1) SpnNumeric in \<open>auto simp: spn_storable_def keys_ascii numbers_printable
            intro: printable.double printable.string\<close>)
  next
    case (SpnStatus spec v)
    obtain z where z: "set_members J [(''bitOffset'', js_uint J (unat (mBitOffset spec))),
         (''bitSize'', js_uint J (unat (mBitSize spec)))] y = Some z"
      and x': "(if mValueToDesc spec = [] then Some z
       else Option.bind (put_items J
                (map (\<lambda>(i, str). (unat i, js_string J str)) (mValueToDesc spec)) (js_null J))
              (js_set J z ''descriptions'')) = Some x"
      using x SpnStatus unfolding writeSPNStatus_def by (auto simp only: spn_data.case bind_eq_Some_conv)
    have pz: "printable J z"
      by (rule set_members_printable [OF py _ z]) (simp add: keys_ascii numbers_printable)
    have "printable J d"
      if "put_items J (map (\<lambda>(i, str). (unat i, js_string J str)) (mValueToDesc spec)) (js_null J) = Some d" for d
      by (rule put_items_printable [OF printable.null _ that])
         (use assms(1) SpnStatus in \<open>fastforce simp: spn_storable_def intro: printable.string\<close>)
    with x' pz show ?thesis
      by (auto simp: bind_eq_Some_conv split: if_splits intro: printable.set [OF _ _ keys_ascii(14)])
  qed (use x py in auto)
qed

lemma write_frame_printable:
  assumes "storable f" and "write_frame J f = Some x"
  shows "printable J x"
proof -
  obtain y where y: "set_members J [(''pgn'', js_uint J (unat (mPgn f))),
         (''name'', js_string J (mName f)),
         (''length'', js_uint J (generic_getDataLength (mBody f)))] (js_null J) = Some y"
    and x: "(if mSPNs (mBody f) = [] then Some y
       else Option.bind (write_list J (write_spn J) 0 (map snd (mSPNs (mBody f))) (js_null J))
              (js_set J y ''spns'')) = Some x"
    using assms(2) unfolding write_frame_def bind_eq_Some_conv by blast
  have py: "printable J y"
    by (rule set_members_printable [OF printable.null _ y])
       (use assms(1) in \<open>auto simp: storable_def keys_ascii numbers_printable intro: printable.uint printable.string\<close>)
  have "printable J z" if "write_list J (write_spn J) 0 (map snd (mSPNs (mBody f))) (js_null J) = Some z" for z
    by (rule write_list_printable [OF printable.null _ that])
       (use assms(1) write_spn_printable in \<open>fastforce simp: storable_def\<close>)
  with x py show ?thesis
    by (auto simp: bind_eq_Some_conv split: if_splits intro: printable.set [OF _ _ keys_ascii(4)])
qed

lemma written_printable:
  assumes "\<forall>f \<in> set (db_mFrames db). storable f" and "written_document J db = Some v"
  shows "printable J v"
proof (rule write_list_printable [OF printable.null _ assms(2) [unfolded written_document_def]], intro ballI allI impI)
  fix f x
  assume f: "f \<in> set (db_mFrames db)" and x: "write_frame J f = Some x"
  from bspec [OF assms(1) f] x show "printable J x" by (rule write_frame_printable)
qed

context json_files
begin

lemma file_roundtrip:
  assumes "db_mFrames db \<noteq> []" and "\<forall>f \<in> set (db_mFrames db). storable f"
  shows "\<exists>v fs'. written_document J db = Some v
    \<and> parseJsonFile J T ref (Some (jt_write T v)) db0
        = (Returns True, \<lparr>db_mFrames = db_mFrames db0 @ fs', db_mErrorCode = ERROR_OK\<rparr>)
    \<and> list_all2 frame_reread (db_mFrames db) fs'"
proof -
  let ?db0 = "db0\<lparr>db_mErrorCode := ERROR_UNEXPECTED_TOKENS\<rparr>"
  obtain v fs' where v: "written_document J db = Some v" "js_isArray J v"
    and p: "parse_frames J v [0 ..< js_size J v] ref ?db0 = (None, ?db0\<lparr>db_mFrames := db_mFrames ?db0 @ fs'\<rparr>)"
    and r: "list_all2 frame_reread (db_mFrames db) fs'"
    using document_roundtrip [OF assms, of ref ?db0] by blast
  obtain w where w: "jt_parse T (jt_write T v) = Some w" "reads_same J v w"
    using reparse [OF written_printable [OF assms(2) v(1)]] by blast
  have "parse_frames J w [0 ..< js_size J w] ref ?db0 = (None, ?db0\<lparr>db_mFrames := db_mFrames ?db0 @ fs'\<rparr>)"
    using p by (simp add: reads_same_answers [OF w(2)] parse_frames_same [OF w(2)])
  moreover have "js_isArray J w" using v(2) by (simp add: reads_same_answers [OF w(2)])
  ultimately have "parseJsonFile J T ref (Some (jt_write T v)) db0
      = (Returns True, \<lparr>db_mFrames = db_mFrames db0 @ fs', db_mErrorCode = ERROR_OK\<rparr>)"
    by (simp add: parseJsonFile_def w(1))
  with v(1) r show ?thesis by blast
qed

end

section \<open>Without strings the document is a fixed point\<close>

lemma reread_offsets: "spn_reread s s' \<Longrightarrow> getType s \<noteq> SPN_STRING \<Longrightarrow>
    getOffset s' = getOffset s \<and> getByteSize s' = getByteSize s"
  by (cases "mSpnData s"; cases "mSpnData s'") (auto simp: spn_reread_def getType_def getByteSize_def)

lemma reread_write_spn:
  "spn_reread s s' \<Longrightarrow> getType s \<noteq> SPN_STRING \<Longrightarrow> write_spn J s' = write_spn J s"
  using reread_offsets [of s s'] spn_reread_type [of s s']
  by (cases "mSpnData s"; cases "mSpnData s'") (auto simp: spn_reread_def write_spn_def)

lemma reread_last_spn:
  "spns_reread m m' \<Longrightarrow> no_strings m \<Longrightarrow> last_spn (map snd m') = last_spn (map snd m)"
proof (induction m m' rule: list_induct2')
  case (4 e m e' m')
  obtain k s k' s' where e: "e = (k, s)" "e' = (k', s')" by (cases e, cases e') auto
  have r: "spn_reread s s'" "spns_reread m m'" and n: "getType s \<noteq> SPN_STRING" "no_strings m"
    using 4(2,3) by (simp_all add: e spns_reread_def)
  from 4(1) [OF r(2) n(2)] reread_offsets [OF r(1) n(1)] show ?case by (simp add: e last_spn_def split: prod.split)
qed (auto simp: spns_reread_def)

lemma reread_write_spns:
  "spns_reread m m' \<Longrightarrow> no_strings m \<Longrightarrow> map (write_spn J) (map snd m') = map (write_spn J) (map snd m)"
  by (induction m m' rule: list_induct2') (auto simp: spns_reread_def reread_write_spn)

lemma write_list_cong:
  "map write as = map write bs \<Longrightarrow> write_list J write pos as v = write_list J write pos bs v"
proof (induction "as" arbitrary: bs pos v)
  case (Cons a "as")
  then obtain b bs' where "bs = b # bs'" "write a = write b" "map write as = map write bs'" by (cases bs) auto
  with Cons.IH show ?case by (simp cong: Option.bind_cong)
qed simp

lemma reread_written:
  assumes "frame_reread f f'" and "no_strings (mSPNs (mBody f))"
  shows "write_frame J f' = write_frame J f"
proof -
  have r: "spns_reread (mSPNs (mBody f)) (mSPNs (mBody f'))" using assms(1) by (simp add: frame_reread_def)
  have l: "generic_getDataLength (mBody f') = generic_getDataLength (mBody f)"
  proof -
    obtain a b where "last_spn (map snd (mSPNs (mBody f))) = (a, b)" by force
    then show ?thesis
      using reread_last_spn [OF r assms(2)] assms(1) by (simp add: frame_reread_def generic_getDataLength_def)
  qed
  have "write_list J (write_spn J) 0 (map snd (mSPNs (mBody f'))) (js_null J)
      = write_list J (write_spn J) 0 (map snd (mSPNs (mBody f))) (js_null J)"
    by (rule write_list_cong [OF reread_write_spns [OF r assms(2)]])
  moreover have "mSPNs (mBody f') = [] \<longleftrightarrow> mSPNs (mBody f) = []" using r by (auto simp: spns_reread_def)
  ultimately show ?thesis
    using assms(1) by (simp add: write_frame_def l frame_reread_def cong: if_cong)
qed

text \<open>C13: With a library that keeps its promises, a database that is written to a file and read again comes back:
  as many frames, with their PGNs, names and lengths, and each SPN with its number, name, place and format, in
  the same order; the values are the initial ones. When no frame has strings, writing what was read gives the
  same text again. The database has a frame at least (\<open>empty_database_refused\<close>), its texts are ASCII, its gains
  and offsets finite, its lengths and places below \<open>2 ^ 32\<close>; the file can be opened both times.\<close>

theorem database_roundtrip:
  assumes "json_files J members items T"
    and "db_mFrames db \<noteq> []" and "\<forall>f \<in> set (db_mFrames db). storable f"
  shows "\<exists>text fs'. writeJsonFile J T True db = Inr (True, Some text)
    \<and> parseJsonFile J T ref (Some text) db0
        = (Returns True, \<lparr>db_mFrames = db_mFrames db0 @ fs', db_mErrorCode = ERROR_OK\<rparr>)
    \<and> list_all2 frame_reread (db_mFrames db) fs'
    \<and> ((\<forall>f \<in> set (db_mFrames db). no_strings (mSPNs (mBody f)))
       \<longrightarrow> writeJsonFile J T True (db\<lparr>db_mFrames := fs'\<rparr>) = Inr (True, Some text))"
proof -
  obtain v fs' where v: "written_document J db = Some v"
    and p: "parseJsonFile J T ref (Some (jt_write T v)) db0
        = (Returns True, \<lparr>db_mFrames = db_mFrames db0 @ fs', db_mErrorCode = ERROR_OK\<rparr>)"
    and r: "list_all2 frame_reread (db_mFrames db) fs'"
    using json_files.file_roundtrip [OF assms] by blast
  have "written_document J (db\<lparr>db_mFrames := fs'\<rparr>) = Some v"
    if "\<forall>f \<in> set (db_mFrames db). no_strings (mSPNs (mBody f))"
  proof -
    have "map (write_frame J) fs' = map (write_frame J) (db_mFrames db)"
      using r that by (auto simp: list_all2_conv_all_nth intro!: nth_equalityI reread_written)
    then show ?thesis using v by (simp add: written_document_def cong: write_list_cong)
  qed
  with v p r show ?thesis
    by (intro exI [of _ "jt_write T v"] exI [of _ fs']) (simp add: writeJsonFile_def)
qed

definition sample_database :: database where
  "sample_database = \<lparr>db_mFrames =
     [\<lparr>mPriority = 0, mSrcAddr = 0xFE, mPgn = 0xF004, mDstAddr = 0xFE, mName = ''EEC1'',
       mBody = \<lparr>mLength = 8, mSPNs =
         [(190, \<lparr>mSpecId = 0, mSpec = \<lparr>mSPNNumber = 190, mSpecName = ''Engine speed'', mSpecOffset = 3\<rparr>,
            mSpnData = SpnNumeric \<lparr>mFormatGain = Fin (1 / 8), mFormatOffset = Fin 0, mByteSize = 2, mUnits = ''rpm''\<rparr>
              0xFFFFFFFF\<rparr>),
          (899, \<lparr>mSpecId = 1, mSpec = \<lparr>mSPNNumber = 899, mSpecName = ''Torque mode'', mSpecOffset = 0\<rparr>,
            mSpnData = SpnStatus \<lparr>mBitOffset = 0, mBitSize = 4,
              mValueToDesc = [(0, ''low idle''), (2, ''cruise control'')]\<rparr> 3\<rparr>)]\<rparr>\<rparr>],
     db_mErrorCode = ERROR_OK\<rparr>"

lemma sample_database_storable:
  "db_mFrames sample_database \<noteq> []" "\<forall>f \<in> set (db_mFrames sample_database). storable f"
  "\<forall>f \<in> set (db_mFrames sample_database). no_strings (mSPNs (mBody f))"
  by (simp_all add: sample_database_def storable_def database_frame_def getPDUFormatGroup_def getPDUFormat_def
      generic_wf_def smap_ok_Cons offsets_ok_def getType_def getSpnNumber_def spn_wf_def spn_storable_def
      getOffset_def generic_getDataLength_def last_spn_def getByteSize_def ascii_def finite_double_def d_is_inf_def)

theorem database_roundtrip_witness:
  "\<exists>text fs'. writeJsonFile tree_json tree_text True sample_database = Inr (True, Some text)
     \<and> parseJsonFile tree_json tree_text 7 (Some text) J1939DataBase
         = (Returns True, \<lparr>db_mFrames = fs', db_mErrorCode = ERROR_OK\<rparr>)
     \<and> list_all2 frame_reread (db_mFrames sample_database) fs'
     \<and> writeJsonFile tree_json tree_text True (sample_database\<lparr>db_mFrames := fs'\<rparr>) = Inr (True, Some text)"
proof -
  have J: "json_files tree_json tree_members tree_items tree_text" by (rule tree_files.json_files_axioms)
  have "db_mFrames J1939DataBase @ fs = fs" for fs by (simp add: J1939DataBase_def)
  with database_roundtrip [OF J sample_database_storable(1,2), of 7 J1939DataBase] sample_database_storable(3)
  show ?thesis by metis
qed

section \<open>Ranges and errors\<close>

context json_values
begin

lemma status_checks:
  assumes "members x = Some m"
    and "m ''name'' = Some (js_string J nm)" and "m ''number'' = Some (js_uint J (unat (n :: u32)))"
    and "n < 2 ^ 19" and "m ''offset'' = Some (js_uint J (unat (off :: u32)))" and "m ''descriptions'' = None"
    and "m ''bitOffset'' = Some (js_uint J (unat (b :: u32)))" and "m ''bitSize'' = Some (js_uint J (unat (z :: u32)))"
  shows "parseSPNStatus J ref g x =
    (if z = 0 \<or> 8 < z + b then Inl (Refused ERROR_OUT_OF_RANGE)
     else if (ucast z :: u8) = 0 \<or> 8 < unat (ucast b :: u8) + unat (ucast z :: u8) then Inl (Raised AssertExit)
     else frame_call (registerSPN \<lparr>mSpecId = ref,
       mSpec = \<lparr>mSPNNumber = n, mSpecName = nm, mSpecOffset = unat off\<rparr>,
       mSpnData = SpnStatus \<lparr>mBitOffset = ucast b, mBitSize = ucast z, mValueToDesc = []\<rparr>
         (drop_bit (8 - unat (ucast z :: u8)) 0xFF)\<rparr> g))"
proof -
  have number: "SPNSpec_ctor n nm (unat off) = Inr \<lparr>mSPNNumber = n, mSpecName = nm, mSpecOffset = unat off\<rparr>"
    using assms(4) by (simp add: SPNSpec_ctor_def push_bit_eq_mult)
  have "parseSPNStatus J ref g x = then_read (demand (z \<noteq> 0 \<and> z + b \<le> 8) ERROR_OUT_OF_RANGE) (\<lambda>_.
      then_read (frame_call (SPNStatus ref n nm (unat off) (ucast b) (ucast z) [])) (\<lambda>spn.
        frame_call (registerSPN spn g)))"
    by (simp add: parseSPNStatus_def all_members_ok [OF assms(1)] get [OF assms(1)] isMember [OF assms(1)]
        assms(2,3,5-8) string_value demand_def del: all_members.simps)
  then show ?thesis
    by (auto simp: SPNStatus_def number SPNStatusSpec_ctor_def demand_def word_neq_0_conv not_less not_le)
qed

end

context json_files
begin

lemma empty_database_refused:
  "\<exists>text. writeJsonFile J T True J1939DataBase = Inr (True, Some text)
   \<and> parseJsonFile J T ref (Some text) db = (Returns False, db\<lparr>db_mErrorCode := ERROR_UNEXPECTED_TOKENS\<rparr>)"
proof -
  obtain w where w: "jt_parse T (jt_write T (js_null J)) = Some w" "reads_same J (js_null J) w"
    using reparse [OF printable.null] by blast
  have "\<not> js_isArray J w" by (simp add: reads_same_answers [OF w(2)] isArray_null)
  then show ?thesis by (simp add: writeJsonFile_def written_document_def J1939DataBase_def parseJsonFile_def w(1))
qed

lemma not_an_object_throws:
  assumes "jt_parse T text = Some v" and "items v = Some [x]" and "js_isArray J v" and "members x = None"
  shows "fst (parseJsonFile J T ref (Some text) db) = Throws LogicError"
proof -
  have "js_size J v = 1" "js_at J v 0 = Some x" using size [OF assms(2)] at [OF assms(2), of 0] by simp_all
  then show ?thesis
    using assms(1,3) no_members [OF assms(4)] by (simp add: parseJsonFile_def parse_frame_def)
qed

end

text \<open>The range of a status is checked on the sum of size and offset in 32 bits, and only their low bytes
  reach the constructor: numbers whose sum wraps around are accepted as other bits, or end the program
  in the constructor's assertion, instead of being refused.\<close>

theorem status_bits_checked:
  assumes "json_values J members items" and "members x = Some m"
    and "m ''name'' = Some (js_string J nm)" and "m ''number'' = Some (js_uint J (unat (n :: u32)))"
    and "n < 2 ^ 19" and "m ''offset'' = Some (js_uint J (unat (off :: u32)))" and "m ''descriptions'' = None"
    and "m ''bitOffset'' = Some (js_uint J (unat (b :: u32)))" and "m ''bitSize'' = Some (js_uint J (unat (z :: u32)))"
  shows "parseSPNStatus J ref g x =
    (if z = 0 \<or> 8 < z + b then Inl (Refused ERROR_OUT_OF_RANGE)
     else if (ucast z :: u8) = 0 \<or> 8 < unat (ucast b :: u8) + unat (ucast z :: u8) then Inl (Raised AssertExit)
     else frame_call (registerSPN \<lparr>mSpecId = ref,
       mSpec = \<lparr>mSPNNumber = n, mSpecName = nm, mSpecOffset = unat off\<rparr>,
       mSpnData = SpnStatus \<lparr>mBitOffset = ucast b, mBitSize = ucast z, mValueToDesc = []\<rparr>
         (drop_bit (8 - unat (ucast z :: u8)) 0xFF)\<rparr> g))"
  by (rule json_values.status_checks [OF assms])

theorem status_bits_checked_witness:
  "parseSPNStatus tree_json 0 \<lparr>mLength = 8, mSPNs = []\<rparr>
     (JObject [(''bitOffset'', JNumber 256), (''bitSize'', JNumber 4294967041), (''name'', JString ''wiper''),
       (''number'', JNumber 42), (''offset'', JNumber 3)])
   = frame_call (registerSPN \<lparr>mSpecId = 0, mSpec = \<lparr>mSPNNumber = 42, mSpecName = ''wiper'', mSpecOffset = 3\<rparr>,
       mSpnData = SpnStatus \<lparr>mBitOffset = 0, mBitSize = 1, mValueToDesc = []\<rparr> 1\<rparr> \<lparr>mLength = 8, mSPNs = []\<rparr>)"
proof -
  have J: "json_values tree_json tree_members tree_items" by (rule tree.json_values_axioms)
  let ?x = "JObject [(''bitOffset'', JNumber 256), (''bitSize'', JNumber 4294967041), (''name'', JString ''wiper''),
       (''number'', JNumber 42), (''offset'', JNumber 3)]"
  have u: "js_uint tree_json = (\<lambda>n. JNumber (rat_of_nat n))" and n: "js_string tree_json = JString"
    by (simp_all add: tree_json_def)
  have b: "(256 :: u8) = 0" "(4294967041 :: u8) = 1" by simp_all
  from status_bits_checked [OF J, of ?x "smap_find [(''bitOffset'', JNumber 256), (''bitSize'', JNumber 4294967041),
      (''name'', JString ''wiper''), (''number'', JNumber 42), (''offset'', JNumber 3)]" "''wiper''" 42 3 256 4294967041
      0 "\<lparr>mLength = 8, mSPNs = []\<rparr>"]
  show ?thesis by (simp add: u n b)
qed

end
