(* ===== verification/StdStream.thy ===== *)
theory StdStream
  imports StdString
begin

text \<open>
  What the trace files use of \<open>std::ifstream\<close> and of output formatting: reading characters, numbers and
  positions with the state bits of the stream, as the standard and \<open>libstdc++\<close> define them in the C locale.
  A stream is the content of its file, the position in it, and \<open>eofbit\<close> and \<open>failbit\<close>. A position is as
  wide as the file needs; where the program cuts it down to an \<open>int\<close>, so does the model of the program.
\<close>

section \<open>Reading\<close>

record istream =
  st_content :: string
  st_pos :: nat
  st_eof :: bool
  st_fail :: bool

definition st_good :: "istream \<Rightarrow> bool" where
  "st_good s \<longleftrightarrow> \<not> st_eof s \<and> \<not> st_fail s"

definition st_rest :: "istream \<Rightarrow> string" where
  "st_rest s = drop (st_pos s) (st_content s)"

text \<open>The position where \<open>r\<close> is what remains.\<close>

definition st_to :: "string \<Rightarrow> istream \<Rightarrow> istream" where
  "st_to r s = s\<lparr>st_pos := length (st_content s) - length r\<rparr>"

definition stream_open :: "string \<Rightarrow> istream" where
  "stream_open content = \<lparr>st_content = content, st_pos = 0, st_eof = False, st_fail = False\<rparr>"

definition stream_get :: "istream \<Rightarrow> char option \<times> istream" where
  "stream_get s =
     (if \<not> st_good s then (None, s\<lparr>st_fail := True\<rparr>)
      else case st_rest s of
             [] \<Rightarrow> (None, s\<lparr>st_eof := True, st_fail := True\<rparr>)
           | c # r \<Rightarrow> (Some c, st_to r s))"

text \<open>\<open>get(c)\<close> leaves the variable alone when nothing can be read.\<close>

definition stream_get_into :: "char \<Rightarrow> istream \<Rightarrow> char \<times> istream" where
  "stream_get_into c s = (case stream_get s of (None, s') \<Rightarrow> (c, s') | (Some c', s') \<Rightarrow> (c', s'))"

text \<open>\<open>ignore\<close> up to the end of the line, which is taken as well.\<close>

definition stream_ignore_line :: "istream \<Rightarrow> istream" where
  "stream_ignore_line s =
     (if \<not> st_good s then s\<lparr>st_fail := True\<rparr>
      else case dropWhile (\<lambda>c. c \<noteq> CHR 0x0A) (st_rest s) of
             [] \<Rightarrow> (st_to [] s)\<lparr>st_eof := True\<rparr>
           | c # r \<Rightarrow> st_to r s)"

definition stream_tellg :: "istream \<Rightarrow> int \<times> istream" where
  "stream_tellg s = (if \<not> st_good s then (- 1, s\<lparr>st_fail := True\<rparr>) else (int (st_pos s), s))"

definition stream_seekg :: "int \<Rightarrow> istream \<Rightarrow> istream" where
  "stream_seekg pos s =
     (let s' = s\<lparr>st_eof := False\<rparr>
      in if st_fail s' then s'
         else if pos < 0 \<or> int (length (st_content s)) < pos then s'\<lparr>st_fail := True\<rparr>
         else s'\<lparr>st_pos := nat pos\<rparr>)"

definition stream_clear :: "istream \<Rightarrow> istream" where
  "stream_clear s = s\<lparr>st_eof := False, st_fail := False\<rparr>"

text \<open>What formatted input does first: white space is skipped.\<close>

definition stream_sentry :: "istream \<Rightarrow> istream" where
  "stream_sentry s =
     (if \<not> st_good s then s\<lparr>st_fail := True\<rparr>
      else let r = dropWhile is_space (st_rest s)
           in if r = [] then (st_to [] s)\<lparr>st_eof := True, st_fail := True\<rparr> else st_to r s)"

text \<open>
  The operator on a \<open>u32\<close>. The value is \<open>None\<close> when the variable is left alone. Without digits it is 0, on
  overflow the greatest number, both with \<open>failbit\<close>.
\<close>

definition extract_u32 :: "nat \<Rightarrow> istream \<Rightarrow> u32 option \<times> istream" where
  "extract_u32 base s =
     (let s1 = stream_sentry s; r0 = st_rest s1
      in if \<not> st_good s1 then (None, s1)
         else
           let negative = (hd r0 = CHR ''-'');
               r1 = (if hd r0 = CHR ''-'' \<or> hd r0 = CHR ''+'' then tl r0 else r0);
               r2 = (if base = 16 \<and> map to_lower (take 2 r1) = ''0x'' then drop 2 r1 else r1);
               ds = takeWhile (is_digit base) r2;
               r3 = dropWhile (is_digit base) r2;
               n = digits_value base ds;
               s2 = (st_to r3 s1)\<lparr>st_eof := (r3 = [])\<rparr>
           in if ds = [] then (Some 0, s2\<lparr>st_fail := True\<rparr>)
              else if n > 0xFFFFFFFF then (Some 0xFFFFFFFF, s2\<lparr>st_fail := True\<rparr>)
              else (Some (if negative then - word_of_int n else word_of_int n), s2))"

definition d_max :: double where
  "d_max = Fin ((2 - 2 powi (- 52)) * 2 powi 1023)"

text \<open>The operator on a \<open>double\<close>: no hexadecimal numbers, infinities or \<open>nan\<close>.\<close>

definition extract_double :: "istream \<Rightarrow> double option \<times> istream" where
  "extract_double s =
     (let s1 = stream_sentry s; r0 = st_rest s1
      in if \<not> st_good s1 then (None, s1)
         else
           let negative = (hd r0 = CHR ''-'');
               r1 = (if hd r0 = CHR ''-'' \<or> hd r0 = CHR ''+'' then tl r0 else r0);
               (ds, k, r2) = scan_mantissa 10 r1;
               marked = (ds \<noteq> [] \<and> r2 \<noteq> [] \<and> to_lower (hd r2) = CHR ''e'');
               r3 = (if marked then tl r2 else r2);
               r4 = (if marked \<and> r3 \<noteq> [] \<and> (hd r3 = CHR ''-'' \<or> hd r3 = CHR ''+'') then tl r3 else r3);
               eds = (if marked then takeWhile (is_digit 10) r4 else []);
               r5 = (if marked then dropWhile (is_digit 10) r4 else r4);
               x = of_int (digits_value 10 ds) / 10 ^ k * 10 powi (if marked then scan_exponent (CHR ''e'') r2 else 0);
               s2 = (st_to r5 s1)\<lparr>st_eof := (r5 = [])\<rparr>;
               signed = (\<lambda>d. if negative then d_neg d else d)
           in if ds = [] \<or> marked \<and> eds = [] then (Some (Fin 0), s2\<lparr>st_fail := True\<rparr>)
              else if d_is_inf (d_round x) then (Some (signed d_max), s2\<lparr>st_fail := True\<rparr>)
              else (Some (signed (d_round x)), s2))"

section \<open>Writing\<close>

text \<open>\<open>setw\<close> with right adjustment, hexadecimal digits in upper case, and \<open>fixed\<close> with one decimal, of a
  finite number that is not negative: its exact value rounded to tenths, ties to even.\<close>

definition pad_left :: "char \<Rightarrow> nat \<Rightarrow> string \<Rightarrow> string" where
  "pad_left fill n str = replicate (n - length str) fill @ str"

definition to_upper :: "char \<Rightarrow> char" where
  "to_upper c = (let n = of_char c :: nat in if 97 \<le> n \<and> n \<le> 122 then char_of (n - 32) else c)"

definition show_hex_upper :: "nat \<Rightarrow> nat \<Rightarrow> string" where
  "show_hex_upper width n = pad_left (CHR ''0'') width (map to_upper (show_digits 16 n))"

definition show_fixed1 :: "double \<Rightarrow> string" where
  "show_fixed1 d =
     (let n = nat (rint_even (d_val d * 10))
      in show_digits 10 (n div 10) @ ''.'' @ [digit_char (n mod 10)])"

section \<open>Streams that are consumed\<close>

definition st_remaining :: "istream \<Rightarrow> nat" where
  "st_remaining s = length (st_content s) - st_pos s"

text \<open>\<open>st_ok\<close>: the position is inside the file.\<close>

definition st_ok :: "istream \<Rightarrow> bool" where
  "st_ok s \<longleftrightarrow> st_pos s \<le> length (st_content s)"

lemma length_st_rest: "length (st_rest s) = st_remaining s"
  by (simp add: st_rest_def st_remaining_def)

lemma st_to_simps [simp]:
  "st_content (st_to r s) = st_content s" "st_eof (st_to r s) = st_eof s" "st_fail (st_to r s) = st_fail s"
  "st_good (st_to r s) = st_good s"
  by (simp_all add: st_to_def st_good_def)

lemma st_to_remaining: "length r \<le> length (st_content s) \<Longrightarrow> st_remaining (st_to r s) = length r"
  by (simp add: st_to_def st_remaining_def)

lemma st_rest_to: "st_rest s = xs @ r \<Longrightarrow> st_rest (st_to r s) = r"
proof -
  assume "st_rest s = xs @ r"
  then have c: "st_content s = (take (st_pos s) (st_content s) @ xs) @ r"
    by (metis append.assoc append_take_drop_id st_rest_def)
  then have "length (st_content s) - length r = length (take (st_pos s) (st_content s) @ xs)"
    by (metis add_diff_cancel_right' length_append)
  then show ?thesis
    using c by (metis (no_types) append_eq_conv_conj st_rest_def st_to_def st_to_simps(1) istream.select_convs(2)
        istream.surjective istream.update_convs(2))
qed

text \<open>Every operation stays inside the file and takes nothing back.\<close>

lemma st_rest_le: "length (st_rest s) \<le> length (st_content s)"
  by (simp add: st_rest_def)

lemma st_to_le: "length r \<le> st_remaining s \<Longrightarrow> st_remaining (st_to r s) = length r"
  by (simp add: st_to_def st_remaining_def)

lemma stream_get_remaining:
  "stream_get s = (Some c, s') \<Longrightarrow> st_remaining s' < st_remaining s \<and> st_good s' \<and> st_good s
     \<and> st_rest s = c # st_rest s' \<and> st_content s' = st_content s \<and> st_pos s' = Suc (st_pos s)"
proof -
  assume g: "stream_get s = (Some c, s')"
  then obtain r where r: "st_rest s = c # r" "s' = st_to r s" "st_good s"
    by (auto simp: stream_get_def split: if_splits list.splits)
  then have "st_rest s' = r" using st_rest_to [of s "[c]" r] by simp
  moreover have "st_remaining s = Suc (length r)" using r(1) length_st_rest [of s] by simp
  ultimately show ?thesis
    using r by (auto simp: st_to_le) (auto simp: st_to_def st_remaining_def)
qed

lemma st_flags_remaining [simp]:
  "st_remaining (s\<lparr>st_eof := b\<rparr>) = st_remaining s" "st_remaining (s\<lparr>st_fail := b\<rparr>) = st_remaining s"
  by (simp_all add: st_remaining_def)

lemma stream_ignore_remaining: "st_remaining (stream_ignore_line s) \<le> st_remaining s"
proof (cases "dropWhile (\<lambda>c. c \<noteq> CHR 0x0A) (st_rest s)")
  case Nil
  show ?thesis by (simp only: stream_ignore_line_def Nil) (simp add: st_to_le)
next
  case (Cons c r)
  then have "Suc (length r) \<le> st_remaining s"
    using length_dropWhile_le [of "\<lambda>c. c \<noteq> CHR 0x0A" "st_rest s"] by (simp add: length_st_rest)
  with Cons show ?thesis by (simp add: stream_ignore_line_def st_to_le)
qed

lemma stream_get_None:
  assumes "stream_get s = (None, s1)"
  shows "st_remaining s1 = st_remaining s"
proof -
  have "s1 = s\<lparr>st_fail := True\<rparr> \<or> s1 = s\<lparr>st_eof := True, st_fail := True\<rparr>"
    using assms by (auto simp: stream_get_def split: if_splits list.splits)
  then show ?thesis by auto
qed

lemma stream_get_into_remaining: "st_remaining (snd (stream_get_into c s)) \<le> st_remaining s"
proof (cases "stream_get s")
  case (Pair m s1)
  then show ?thesis
    using stream_get_None [of s s1] stream_get_remaining [of s "the m" s1]
    by (cases m) (simp_all add: stream_get_into_def)
qed

lemma stream_putback:
  assumes "stream_get s = (Some c, s1)"
  shows "stream_tellg s1 = (int (st_pos s) + 1, s1)" and "stream_seekg (int (st_pos s)) s1 = s"
proof -
  have g: "st_good s1" "st_good s" "st_content s1 = st_content s" "st_pos s1 = Suc (st_pos s)"
    "st_remaining s1 < st_remaining s"
    using stream_get_remaining [OF assms] by simp_all
  then show "stream_tellg s1 = (int (st_pos s) + 1, s1)" by (simp add: stream_tellg_def)
  have "st_pos s \<le> length (st_content s)" using g(5) by (simp add: st_remaining_def)
  with g show "stream_seekg (int (st_pos s)) s1 = s"
    by (cases s, cases s1) (simp add: stream_seekg_def st_good_def)
qed

text \<open>Extraction takes something or fails before the end of the file.\<close>

lemma stream_sentry_rest:
  assumes "st_good s" and "st_rest s \<noteq> []"
  shows "(\<not> st_good (stream_sentry s) \<and> st_remaining (stream_sentry s) < st_remaining s)
    \<or> (st_good (stream_sentry s) \<and> st_rest (stream_sentry s) \<noteq> [] \<and> st_remaining (stream_sentry s) \<le> st_remaining s)"
proof (cases "dropWhile is_space (st_rest s) = []")
  case True
  moreover have "0 < st_remaining s" using assms(2) by (simp flip: length_st_rest)
  ultimately show ?thesis
    using assms(1) by (simp only: stream_sentry_def Let_def) (simp add: st_good_def st_to_le)
next
  case False
  define r where "r = dropWhile is_space (st_rest s)"
  have "st_rest s = takeWhile is_space (st_rest s) @ r" by (simp add: r_def)
  then have "st_rest (st_to r s) = r" by (rule st_rest_to)
  moreover have "length r \<le> st_remaining s" by (simp add: r_def length_dropWhile_le flip: length_st_rest)
  ultimately show ?thesis
    using assms(1) False by (simp add: stream_sentry_def Let_def st_to_le flip: r_def)
qed

definition shortens :: "istream \<Rightarrow> istream \<Rightarrow> bool" where
  "shortens s s' \<longleftrightarrow> st_remaining s' < st_remaining s \<or> st_fail s' \<and> \<not> st_eof s'"

lemma suffix_shortens:
  assumes "st_remaining s1 \<le> st_remaining s" and "st_rest s1 \<noteq> []" and "length r \<le> length (st_rest s1)"
    and "length r = length (st_rest s1) \<Longrightarrow> failed"
  shows "shortens s ((st_to r s1)\<lparr>st_eof := (r = []), st_fail := st_fail s1 \<or> failed\<rparr>)"
proof (cases "length r = length (st_rest s1)")
  case True
  then have "r \<noteq> []" using assms(2) by auto
  with True assms(4) show ?thesis by (simp add: shortens_def)
next
  case False
  with assms(1,3) show ?thesis by (simp add: shortens_def st_to_le length_st_rest)
qed

text \<open>What is left after digits, with or without a sign and a prefix.\<close>

lemma keep_st_fail:
  assumes "st_fail s = False"
  shows "(st_to r s)\<lparr>st_eof := b\<rparr> = (st_to r s)\<lparr>st_eof := b, st_fail := False\<rparr>"
  using assms by (cases s) (simp add: st_to_def)

lemma extract_u32_shortens:
  assumes "st_good s" and "st_rest s \<noteq> []"
  shows "shortens s (snd (extract_u32 base s))"
proof (cases "st_good (stream_sentry s)")
  case False
  with stream_sentry_rest [OF assms] show ?thesis by (simp add: extract_u32_def Let_def shortens_def)
next
  case True
  let ?s1 = "stream_sentry s" and ?r0 = "st_rest (stream_sentry s)"
  have ne: "?r0 \<noteq> []" and le: "st_remaining ?s1 \<le> st_remaining s"
    using stream_sentry_rest [OF assms] True by auto
  define r1 where "r1 = (if hd ?r0 = CHR ''-'' \<or> hd ?r0 = CHR ''+'' then tl ?r0 else ?r0)"
  define r2 where "r2 = (if base = 16 \<and> map to_lower (take 2 r1) = ''0x'' then drop 2 r1 else r1)"
  define ds where "ds = takeWhile (is_digit base) r2"
  define r3 where "r3 = dropWhile (is_digit base) r2"
  have l: "length r1 \<le> length ?r0" "length r2 \<le> length r1" by (auto simp: r1_def r2_def)
  have split: "length r2 = length ds + length r3"
    unfolding ds_def r3_def by (metis length_append takeWhile_dropWhile_id)
  have "shortens s ((st_to r3 ?s1)\<lparr>st_eof := (r3 = []), st_fail := st_fail ?s1 \<or> failed\<rparr>)"
    if "ds = [] \<Longrightarrow> failed" for failed
  proof (rule suffix_shortens [OF le ne])
    show "length r3 \<le> length ?r0" using l split by linarith
    assume "length r3 = length ?r0"
    then have "length ds = 0" using l split by linarith
    with that show failed by simp
  qed
  moreover have "st_fail ?s1 = False" using True by (simp add: st_good_def)
  ultimately have e: "shortens s ((st_to r3 ?s1)\<lparr>st_eof := (r3 = []), st_fail := failed\<rparr>)"
    if "ds = [] \<Longrightarrow> failed" for failed
    using that by simp
  have keep: "(st_to r3 ?s1)\<lparr>st_eof := b\<rparr> = (st_to r3 ?s1)\<lparr>st_eof := b, st_fail := False\<rparr>" for b
    using \<open>st_fail ?s1 = False\<close> by (rule keep_st_fail)
  have "snd (extract_u32 base s) =
      (if ds = [] \<or> digits_value base ds > 0xFFFFFFFF then (st_to r3 ?s1)\<lparr>st_eof := (r3 = []), st_fail := True\<rparr>
       else (st_to r3 ?s1)\<lparr>st_eof := (r3 = [])\<rparr>)"
    using True unfolding extract_u32_def Let_def
    by (simp only: flip: r1_def) (simp only: flip: r2_def, simp flip: ds_def r3_def)
  then show ?thesis using e [of True] e [of False] by (auto simp flip: keep)
qed

lemma scan_mantissa_length:
  assumes "scan_mantissa b r = (ds, k, r')"
  shows "length r' \<le> length r" and "length r' = length r \<Longrightarrow> ds = []"
proof -
  have l: "length r = length (takeWhile (is_digit b) r) + length (dropWhile (is_digit b) r)"
    by (metis length_append takeWhile_dropWhile_id)
  have "length r' \<le> length r \<and> (length r' = length r \<longrightarrow> ds = [])"
  proof (cases "\<exists>t. dropWhile (is_digit b) r = CHR ''.'' # t")
    case True
    then obtain t where t: "dropWhile (is_digit b) r = CHR ''.'' # t" by auto
    with assms have "r' = dropWhile (is_digit b) t" by (auto simp: scan_mantissa_def Let_def)
    then have "length r' \<le> length t" by (simp add: length_dropWhile_le)
    with l t show ?thesis by simp
  next
    case False
    then have "\<not> (dropWhile (is_digit b) r \<noteq> [] \<and> hd (dropWhile (is_digit b) r) = CHR ''.'')"
      by (metis list.exhaust_sel)
    then have "scan_mantissa b r = (takeWhile (is_digit b) r, 0, dropWhile (is_digit b) r)"
      by (simp only: scan_mantissa_def Let_def if_False)
    with assms l show ?thesis by simp
  qed
  then show "length r' \<le> length r" and "length r' = length r \<Longrightarrow> ds = []" by simp_all
qed


lemma extract_double_shortens:
  assumes "st_good s" and "st_rest s \<noteq> []"
  shows "shortens s (snd (extract_double s))"
proof (cases "st_good (stream_sentry s)")
  case False
  with stream_sentry_rest [OF assms] show ?thesis by (simp add: extract_double_def Let_def shortens_def)
next
  case True
  let ?s1 = "stream_sentry s" and ?r0 = "st_rest (stream_sentry s)"
  have ne: "?r0 \<noteq> []" and le: "st_remaining ?s1 \<le> st_remaining s"
    using stream_sentry_rest [OF assms] True by auto
  define r1 where "r1 = (if hd ?r0 = CHR ''-'' \<or> hd ?r0 = CHR ''+'' then tl ?r0 else ?r0)"
  obtain ds k r2 where m: "scan_mantissa 10 r1 = (ds, k, r2)" by (metis prod_cases3)
  define marked where "marked = (ds \<noteq> [] \<and> r2 \<noteq> [] \<and> to_lower (hd r2) = CHR ''e'')"
  define r3 where "r3 = (if marked then tl r2 else r2)"
  define r4 where "r4 = (if marked \<and> r3 \<noteq> [] \<and> (hd r3 = CHR ''-'' \<or> hd r3 = CHR ''+'') then tl r3 else r3)"
  define eds where "eds = (if marked then takeWhile (is_digit 10) r4 else [])"
  define r5 where "r5 = (if marked then dropWhile (is_digit 10) r4 else r4)"
  define failed where "failed = (ds = [] \<or> marked \<and> eds = [])"
  have "length r5 \<le> length r4" by (simp add: r5_def length_dropWhile_le)
  moreover have "length r4 \<le> length r3" by (simp add: r4_def)
  moreover have "length r3 \<le> length r2" by (simp add: r3_def)
  moreover have "length r2 \<le> length r1" by (rule scan_mantissa_length(1) [OF m])
  moreover have "length r1 \<le> length ?r0" by (simp add: r1_def)
  ultimately have l: "length r5 \<le> length ?r0" and same: "length r5 = length ?r0 \<Longrightarrow> length r2 = length r1"
    by linarith+
  have "shortens s ((st_to r5 ?s1)\<lparr>st_eof := (r5 = []), st_fail := st_fail ?s1 \<or> bad\<rparr>)"
    if "failed \<Longrightarrow> bad" for bad
  proof (rule suffix_shortens [OF le ne l])
    assume "length r5 = length ?r0"
    then have "ds = []" using scan_mantissa_length(2) [OF m] same by blast
    with that show bad by (simp add: failed_def)
  qed
  moreover have fail: "st_fail ?s1 = False" using True by (simp add: st_good_def)
  ultimately have e: "shortens s ((st_to r5 ?s1)\<lparr>st_eof := (r5 = []), st_fail := bad\<rparr>)"
    if "failed \<Longrightarrow> bad" for bad
    using that by simp
  have keep: "(st_to r5 ?s1)\<lparr>st_eof := b\<rparr> = (st_to r5 ?s1)\<lparr>st_eof := b, st_fail := False\<rparr>" for b
    using fail by (rule keep_st_fail)
  have "\<exists>over. snd (extract_double s) =
      (if failed \<or> over then (st_to r5 ?s1)\<lparr>st_eof := (r5 = []), st_fail := True\<rparr>
       else (st_to r5 ?s1)\<lparr>st_eof := (r5 = [])\<rparr>)"
    using True unfolding extract_double_def Let_def
    by (simp only: flip: r1_def) (simp only: m prod.case flip: marked_def, simp only: flip: r3_def,
        simp only: flip: r4_def, simp only: flip: eds_def, simp only: flip: r5_def, auto simp: failed_def)
  then show ?thesis using e [of True] e [of False] by (auto simp flip: keep)
qed


text \<open>Nothing changes the file.\<close>

lemma stream_content [simp]:
  "st_content (snd (stream_get s)) = st_content s" "st_content (snd (stream_get_into c s)) = st_content s"
  "st_content (stream_ignore_line s) = st_content s" "st_content (snd (stream_tellg s)) = st_content s"
  "st_content (stream_seekg pos s) = st_content s" "st_content (stream_clear s) = st_content s"
  "st_content (stream_sentry s) = st_content s"
  by (auto simp: stream_get_def stream_get_into_def stream_ignore_line_def stream_tellg_def stream_seekg_def
      stream_clear_def stream_sentry_def Let_def split: list.split option.split)

lemma extract_content [simp]:
  "st_content (snd (extract_u32 base s)) = st_content s" "st_content (snd (extract_double s)) = st_content s"
  by (simp_all add: extract_u32_def extract_double_def Let_def split: prod.split)


lemma stream_content_dest:
  "stream_get s = (m, s') \<Longrightarrow> st_content s' = st_content s"
  "stream_get_into c s = (d, s') \<Longrightarrow> st_content s' = st_content s"
  "stream_tellg s = (p, s') \<Longrightarrow> st_content s' = st_content s"
  "extract_u32 base s = (n, s') \<Longrightarrow> st_content s' = st_content s"
  "extract_double s = (x, s') \<Longrightarrow> st_content s' = st_content s"
  by (metis stream_content(1) snd_conv, metis stream_content(2) snd_conv, metis stream_content(4) snd_conv,
      metis extract_content(1) snd_conv, metis extract_content(2) snd_conv)

end
