(* ===== verification/Trace.thy ===== *)
theory Trace
  imports StdStream Can TimeUtils
begin

unbundle bit_operations_syntax

text \<open>
  Trace files: \<open>CAN/TRCReader.cpp\<close>, which reads them character by character, \<open>CAN/TRCWriter.cpp\<close>, which
  writes them, and the loops of the programs that convert (\<open>BinUtils/TRCToCap\<close>) and record
  (\<open>BinUtils/TRCDumper\<close>) them. A file is its content, \<open>None\<close> when it cannot be opened.
\<close>

section \<open>Reading a line\<close>

text \<open>The states of the parser are numbered; \<open>next_state\<close> is \<open>++state\<close>.\<close>

datatype parse_state =
    GET_POSITION | GET_TIME | GET_TYPE | GET_ID | GET_LENGTH | GET_DATA | GET_END | GET_ERROR

fun next_state :: "parse_state \<Rightarrow> parse_state" where
  "next_state GET_POSITION = GET_TIME"
| "next_state GET_TIME = GET_TYPE"
| "next_state GET_TYPE = GET_ID"
| "next_state GET_ID = GET_LENGTH"
| "next_state GET_LENGTH = GET_DATA"
| "next_state GET_DATA = GET_END"
| "next_state GET_END = GET_ERROR"
| "next_state GET_ERROR = GET_ERROR"

text \<open>The local variables; \<open>None\<close> while one is uninitialised.\<close>

record trc_line =
  tl_position :: "u32 option"
  tl_time :: "u64 option"
  tl_timeAux :: "double option"
  tl_type :: string
  tl_id :: "u32 option"
  tl_length :: "u32 option"
  tl_dataAux :: "u32 option"
  tl_data :: bytes

definition fresh_line :: trc_line where
  "fresh_line = \<lparr>tl_position = None, tl_time = None, tl_timeAux = None, tl_type = [], tl_id = None,
     tl_length = None, tl_dataAux = None, tl_data = []\<rparr>"

definition or_keep :: "'a option \<Rightarrow> 'a option \<Rightarrow> 'a option" where
  "or_keep new old = (case new of None \<Rightarrow> old | Some a \<Rightarrow> Some a)"

text \<open>The cast of a \<open>double\<close> to \<open>u64\<close> is undefined when the number does not fit.\<close>

definition to_u64 :: "double \<Rightarrow> u64 res" where
  "to_u64 d =
     (if d \<noteq> NaN \<and> \<not> d_is_inf d \<and> 0 \<le> d_trunc d \<and> d_trunc d < 2 ^ 64
      then Inr (word_of_int (d_trunc d)) else Inl UndefinedBehaviour)"

text \<open>The \<open>switch\<close>: one field, where \<open>c\<close> is the variable that characters are read into.\<close>

fun read_field ::
  "parse_state \<Rightarrow> char \<Rightarrow> trc_line \<Rightarrow> istream \<Rightarrow> (parse_state \<times> trc_line \<times> istream) res" where
  "read_field GET_POSITION c v s =
     (let (p, s1) = extract_u32 10 s; (c', s2) = stream_get_into c s1
      in Inr (if c' \<noteq> CHR '')'' then GET_ERROR else GET_POSITION,
              v\<lparr>tl_position := or_keep p (tl_position v)\<rparr>, s2))"
| "read_field GET_TIME c v s =
     (let (t, s1) = extract_double s
      in case or_keep t (tl_timeAux v) of
           None \<Rightarrow> Inl UndefinedBehaviour
         | Some timeAux \<Rightarrow>
             (let timeAux = d_mul timeAux (d_of_nat 1000)
              in res_bind (to_u64 timeAux) (\<lambda>time.
                   Inr (GET_TIME, v\<lparr>tl_timeAux := Some timeAux, tl_time := Some time\<rparr>, s1))))"
| "read_field GET_TYPE c v s =
     (let (c1, s1) = stream_get_into c s; (c2, s2) = stream_get_into c1 s1
      in Inr (GET_TYPE, v\<lparr>tl_type := tl_type v @ [c1, c2]\<rparr>, s2))"
| "read_field GET_ID c v s =
     (let (i, s1) = extract_u32 16 s in Inr (GET_ID, v\<lparr>tl_id := or_keep i (tl_id v)\<rparr>, s1))"
| "read_field GET_LENGTH c v s =
     (let (n, s1) = extract_u32 16 s in Inr (GET_LENGTH, v\<lparr>tl_length := or_keep n (tl_length v)\<rparr>, s1))"
| "read_field GET_DATA c v s =
     (let (d, s1) = extract_u32 16 s; v = v\<lparr>tl_dataAux := or_keep d (tl_dataAux v)\<rparr>
      in case (tl_dataAux v, tl_length v) of
           (Some dataAux, Some n) \<Rightarrow>
             if dataAux \<le> 0xFF
             then (let v = v\<lparr>tl_data := tl_data v @ [ucast dataAux]\<rparr>
                   in Inr (if length (tl_data v) < unat n then GET_LENGTH else GET_DATA, v, s1))
             else Inr (GET_ERROR, v, s1)
         | _ \<Rightarrow> Inl UndefinedBehaviour)"
| "read_field GET_END c v s = Inr (GET_END, v, s)"
| "read_field GET_ERROR c v s = Inr (GET_ERROR, v, s)"

text \<open>
  \<open>int pos = mFileStream.tellg(); pos -= 1\<close>: the position is cut down to 32 bits with a sign, and the
  subtraction is undefined for the least number.
\<close>

definition narrow_int :: "int \<Rightarrow> int" where
  "narrow_int n = sint (word_of_int n :: 32 word)"

definition previous_pos :: "int \<Rightarrow> int res" where
  "previous_pos p = (let pos = narrow_int p in if pos = - (2 ^ 31) then Inl UndefinedBehaviour else Inr (pos - 1))"

text \<open>
  One turn of the loop, which says whether the loop is left. The character is put back before the field is
  read. The basefield stays hexadecimal after the identifier, so the length is read as such.
\<close>

definition line_step ::
  "parse_state \<Rightarrow> trc_line \<Rightarrow> istream \<Rightarrow> (bool \<times> parse_state \<times> trc_line \<times> istream) res" where
  "line_step state v s =
     (case stream_get s of
        (None, s1) \<Rightarrow> Inr (True, state, v, s1)
      | (Some c, s1) \<Rightarrow>
          if c = CHR '' '' \<or> c = CHR 0x09 then Inr (False, state, v, s1)
          else if c = CHR '';'' then Inr (False, state, v, stream_ignore_line s1)
          else if c = CHR 0x0A then Inr (True, state, v, s1)
          else
            let (c, s2) = (if c = CHR 0x0D then stream_get_into c s1 else (c, s1))
            in if fst (stream_get s) = Some (CHR 0x0D) \<and> c = CHR 0x0A then Inr (True, state, v, s2)
               else
                 let state = (if fst (stream_get s) = Some (CHR 0x0D) then GET_ERROR else state);
                     (pos, s3) = stream_tellg s2
                 in res_bind (previous_pos pos) (\<lambda>pos.
                    res_bind (read_field state c v (stream_seekg pos s3)) (\<lambda>(state, v, s4).
                      let (state, s5) =
                            (if st_fail s4 \<and> \<not> st_eof s4
                             then (GET_ERROR, snd (stream_get (stream_ignore_line (stream_clear s4))))
                             else (state, s4))
                      in if state = GET_ERROR then Inr (True, state, v, s5)
                         else Inr (False, next_state state, v, s5))))"


section \<open>The loop ends\<close>

text \<open>
  Where the position does not fit into an \<open>int\<close>, the loop jumps back in the file. It ends all the same: with every field
  the state goes on, or there is one more byte of the data that are announced, and what is skipped is not put back.
\<close>

fun line_rank :: "parse_state \<Rightarrow> nat" where
  "line_rank GET_POSITION = 7"
| "line_rank GET_TIME = 6"
| "line_rank GET_TYPE = 5"
| "line_rank GET_ID = 4"
| "line_rank GET_LENGTH = 3"
| "line_rank GET_DATA = 2"
| "line_rank GET_END = 1"
| "line_rank GET_ERROR = 0"

definition data_left :: "trc_line \<Rightarrow> nat" where
  "data_left v = (case tl_length v of None \<Rightarrow> 0 | Some n \<Rightarrow> unat n - length (tl_data v))"

lemma read_field_END [simp]: "read_field GET_END c v s = Inr (state', v', s') \<longleftrightarrow> state' = GET_END \<and> v' = v \<and> s' = s"
  by auto

lemma read_field_ERROR [simp]:
  "read_field GET_ERROR c v s = Inr (state', v', s') \<longleftrightarrow> state' = GET_ERROR \<and> v' = v \<and> s' = s"
  by auto

text \<open>After a character that is put back.\<close>

definition after_field ::
  "(parse_state \<times> trc_line \<times> istream) \<Rightarrow> (bool \<times> parse_state \<times> trc_line \<times> istream) res" where
  "after_field = (\<lambda>(state, v, s4).
     let (state, s5) =
           (if st_fail s4 \<and> \<not> st_eof s4
            then (GET_ERROR, snd (stream_get (stream_ignore_line (stream_clear s4)))) else (state, s4))
     in if state = GET_ERROR then Inr (True, state, v, s5) else Inr (False, next_state state, v, s5))"

lemma after_field_goes_on:
  "after_field (state, v, s) = Inr (False, state', v', s') \<longleftrightarrow>
     \<not> (st_fail s \<and> \<not> st_eof s) \<and> state \<noteq> GET_ERROR \<and> state' = next_state state \<and> v' = v \<and> s' = s"
  by (auto simp: after_field_def)

text \<open>A turn that goes on has skipped something or read a field.\<close>

lemma line_step_turn:
  assumes "line_step state v s = Inr (False, state', v', s')"
  obtains (skips) "state' = state" "v' = v" "st_remaining s' < st_remaining s"
    | (reads) c t st4 where "state \<noteq> GET_ERROR" "read_field state c v t = Inr (st4, v', s')" "st4 \<noteq> GET_ERROR"
        "state' = next_state st4"
proof (cases "stream_get s")
  case (Pair m s1)
  with assms obtain c where g: "stream_get s = (Some c, s1)" by (cases m) (auto simp: line_step_def)
  note less = stream_get_remaining [OF g]
  show thesis
  proof (cases "c \<in> {CHR '' '', CHR 0x09, CHR '';'', CHR 0x0A}")
    case True
    with assms g less stream_ignore_remaining [of s1] show thesis
      by (intro skips) (auto simp: line_step_def split: if_splits)
  next
    case False
    define state0 where "state0 = (if c = CHR 0x0D then GET_ERROR else state)"
    obtain d s2 where d: "(if c = CHR 0x0D then stream_get_into c s1 else (c, s1)) = (d, s2)" by fastforce
    obtain p s3 where t: "stream_tellg s2 = (p, s3)" by fastforce
    from False assms g d t obtain pos st4 v4 s4 where r: "read_field state0 d v (stream_seekg pos s3) = Inr (st4, v4, s4)"
      and a: "after_field (st4, v4, s4) = Inr (False, state', v', s')"
      by (auto simp: line_step_def Let_def res_bind_Inr_iff after_field_def state0_def split: if_splits)
    from a have goes: "st4 \<noteq> GET_ERROR" "state' = next_state st4" "v4 = v'" "s4 = s'" by (simp_all add: after_field_goes_on)
    with r have "state0 \<noteq> GET_ERROR" by auto
    then have "state0 = state" "state \<noteq> GET_ERROR" by (auto simp: state0_def split: if_splits)
    with r goes show thesis by (intro reads) auto
  qed
qed

lemma read_field_progress:
  assumes "read_field state c v s = Inr (st4, v', s')" and "state \<noteq> GET_ERROR" and "st4 \<noteq> GET_ERROR"
  shows "line_rank (next_state st4) < line_rank state \<or> next_state st4 = state \<and> data_left v' < data_left v"
proof (cases state)
  case GET_DATA
  with assms show ?thesis
    by (auto simp: Let_def data_left_def split: prod.splits option.splits if_splits)
qed (use assms in \<open>auto simp: Let_def res_bind_Inr_iff split: prod.splits option.splits if_splits\<close>)

lemma line_step_decreases:
  assumes "line_step state v s = Inr (False, state', v', s')"
  shows "line_rank state' < line_rank state \<or> state' = state \<and> (data_left v' < data_left v \<or>
    v' = v \<and> st_remaining s' < st_remaining s)"
  using assms by (cases rule: line_step_turn) (use read_field_progress in fastforce)+

function read_loop ::
  "parse_state \<Rightarrow> trc_line \<Rightarrow> istream \<Rightarrow> (parse_state \<times> trc_line \<times> istream) res" where
  "read_loop state v s =
     (case line_step state v s of
        Inl e \<Rightarrow> Inl e
      | Inr (stop, state', v', s') \<Rightarrow> if stop then Inr (state', v', s') else read_loop state' v' s')"
  by pat_completeness auto

termination
proof (relation "measures [\<lambda>(state, v, s). line_rank state, \<lambda>(state, v, s). data_left v, \<lambda>(state, v, s). st_remaining s]")
qed (auto dest!: line_step_decreases)

declare read_loop.simps [simp del]

lemma read_loop_cases:
  assumes "read_loop state v s = Inr r"
  obtains (leaves) st1 v1 s1 where "line_step state v s = Inr (True, st1, v1, s1)" "r = (st1, v1, s1)"
    | (continues) st1 v1 s1 where "line_step state v s = Inr (False, st1, v1, s1)" "read_loop st1 v1 s1 = Inr r"
  using assms by (subst (asm) read_loop.simps) (auto split: sum.splits if_splits)

section \<open>Files whose positions fit into an \<open>int\<close>\<close>

definition st_small :: "istream \<Rightarrow> bool" where
  "st_small s \<longleftrightarrow> length (st_content s) < 2 ^ 31"

lemma previous_pos_small: "0 \<le> p \<Longrightarrow> p < 2 ^ 31 \<Longrightarrow> previous_pos p = Inr (p - 1)"
proof -
  assume "0 \<le> p" and "p < 2 ^ 31"
  then have "narrow_int p = p" by (simp add: narrow_int_def sint_sbintrunc' signed_take_bit_int_eq_self)
  with \<open>0 \<le> p\<close> show ?thesis by (simp add: previous_pos_def)
qed

lemma line_step_field:
  assumes g: "stream_get s = (Some c, s1)" and "c \<notin> {CHR '' '', CHR 0x09, CHR '';'', CHR 0x0A, CHR 0x0D}"
    and "st_pos s + 1 < 2 ^ 31"
  shows "line_step state v s = res_bind (read_field state c v s) after_field"
proof -
  have "previous_pos (int (st_pos s) + 1) = Inr (int (st_pos s))"
    using assms(3) by (subst previous_pos_small) simp_all
  with assms(2) g stream_putback [OF g] show ?thesis by (simp add: line_step_def after_field_def)
qed

lemma get_into_shortens:
  assumes "shortens s s1"
  shows "shortens s (snd (stream_get_into c s1))"
  using assms stream_get_into_remaining [of c s1]
  by (auto simp: shortens_def stream_get_into_def stream_get_def st_good_def)

lemma read_field_shortens:
  assumes g: "stream_get s = (Some d, s1)" and r: "read_field state c v s = Inr (state', v', s')"
    and "state \<noteq> GET_END" and "state \<noteq> GET_ERROR"
  shows "shortens s s'"
proof -
  have s: "st_good s" "st_rest s \<noteq> []" using stream_get_remaining [OF g] by auto
  note u32 = extract_u32_shortens [OF s] and dbl = extract_double_shortens [OF s]
  show ?thesis
  proof (cases state)
    case GET_POSITION
    then show ?thesis
      using r get_into_shortens [OF u32 [of 10], of c] by (auto simp: Let_def split: prod.splits)
  next
    case GET_TIME
    then show ?thesis
      using r dbl by (auto simp: Let_def res_bind_Inr_iff split: prod.splits option.splits)
  next
    case GET_TYPE
    have "shortens s s1" using stream_get_remaining [OF g] by (simp add: shortens_def)
    from get_into_shortens [OF this, of d] show ?thesis
      using GET_TYPE r g by (auto simp: stream_get_into_def split: prod.splits)
  next
    case GET_ID
    then show ?thesis using r u32 [of 16] by (auto split: prod.splits)
  next
    case GET_LENGTH
    then show ?thesis using r u32 [of 16] by (auto split: prod.splits)
  next
    case GET_DATA
    then show ?thesis
      using r u32 [of 16] by (auto simp: Let_def split: prod.splits option.splits if_splits)
  qed (use assms in simp_all)
qed

text \<open>The content of the file stays.\<close>

lemma read_field_content: "read_field state c v s = Inr (state', v', s') \<Longrightarrow> st_content s' = st_content s"
  by (cases state)
     (auto simp: Let_def res_bind_Inr_iff dest!: stream_content_dest split: prod.splits option.splits if_splits)

lemma line_step_content:
  assumes "line_step state v s = Inr (stop, state', v', s')"
  shows "st_content s' = st_content s"
proof (cases "stream_get s")
  case (Pair m s1)
  show ?thesis
  proof (cases m)
    case None
    with Pair assms show ?thesis by (auto simp: line_step_def dest!: stream_content_dest)
  next
    case (Some c)
    obtain d s2 where d: "(if c = CHR 0x0D then stream_get_into c s1 else (c, s1)) = (d, s2)" by fastforce
    then have s2: "st_content s2 = st_content s1" by (auto dest!: stream_content_dest split: if_splits)
    obtain p s3 where t: "stream_tellg s2 = (p, s3)" by fastforce
    then show ?thesis
      using assms Pair Some s2 d stream_content_dest(1) [OF Pair] stream_content_dest(3) [OF t]
      by (auto simp: line_step_def Let_def res_bind_Inr_iff dest!: read_field_content split: if_splits)
  qed
qed

lemma read_loop_content: "read_loop state v s = Inr (state', v', s') \<Longrightarrow> st_content s' = st_content s"
proof (induction state v s rule: read_loop.induct)
  case (1 state v s)
  from 1(2) show ?case
  proof (cases rule: read_loop_cases)
    case (leaves st1 v1 s1)
    then show ?thesis using line_step_content [OF leaves(1)] by simp
  next
    case (continues st1 v1 s1)
    then show ?thesis using 1(1) [OF continues(1) refl refl refl] line_step_content [OF continues(1)] by simp
  qed
qed

text \<open>Once it has failed, a line has failed; otherwise it took something or reached the end of the file.\<close>

definition st_sound :: "istream \<Rightarrow> bool" where
  "st_sound s \<longleftrightarrow> (st_fail s \<longrightarrow> st_eof s)"

definition st_live :: "istream \<Rightarrow> bool" where
  "st_live s \<longleftrightarrow> st_sound s \<and> st_small s"

lemma line_step_ERROR: "line_step GET_ERROR v s = Inr (stop, state', v', s') \<Longrightarrow> state' = GET_ERROR"
  by (auto simp: line_step_def Let_def res_bind_Inr_iff split: prod.splits option.splits if_splits)

lemma stream_ignore_sound: "st_good s \<Longrightarrow> st_sound (stream_ignore_line s)"
  by (auto simp: stream_ignore_line_def st_sound_def st_good_def split: list.splits)

lemma line_step_sound:
  assumes "line_step state v s = Inr (stop, state', v', s')" and "st_sound s" and "st_small s"
  shows "state' = GET_ERROR \<or> st_sound s' \<and> st_remaining s' \<le> st_remaining s \<and> (st_eof s' \<or> st_remaining s' < st_remaining s)"
proof (cases "stream_get s")
  case (Pair m s1)
  show ?thesis
  proof (cases m)
    case None
    with Pair assms show ?thesis
      by (auto simp: line_step_def stream_get_def st_sound_def st_good_def split: if_splits list.splits)
  next
    case (Some c)
    with Pair have g: "stream_get s = (Some c, s1)" by simp
    note less = stream_get_remaining [OF g]
    consider (skip) "c \<in> {CHR '' '', CHR 0x09, CHR '';'', CHR 0x0A}" | (cr) "c = CHR 0x0D"
      | (field) "c \<notin> {CHR '' '', CHR 0x09, CHR '';'', CHR 0x0A, CHR 0x0D}"
      by blast
    then show ?thesis
    proof cases
      case skip
      with assms g less stream_ignore_remaining [of s1] stream_ignore_sound [of s1] show ?thesis
        by (auto simp: line_step_def st_sound_def st_good_def)
    next
      case cr
      show ?thesis
      proof (cases "fst (stream_get_into c s1) = CHR 0x0A")
        case True
        with cr obtain s2 where "stream_get s1 = (Some (CHR 0x0A), s2)" "stream_get_into c s1 = (CHR 0x0A, s2)"
          by (cases "stream_get s1") (auto simp: stream_get_into_def split: option.splits)
        with cr assms g less stream_get_remaining [of s1 "CHR 0x0A" s2] show ?thesis
          by (auto simp: line_step_def st_sound_def st_good_def)
      next
        case False
        with cr assms g show ?thesis
          by (auto simp: line_step_def Let_def res_bind_Inr_iff split: prod.splits if_splits)
      qed
    next
      case field
      have pos: "st_pos s + 1 < 2 ^ 31" using less assms(3) by (auto simp: st_remaining_def st_small_def)
      from assms(1) obtain st4 v4 s4 where r: "read_field state c v s = Inr (st4, v4, s4)"
        and a: "after_field (st4, v4, s4) = Inr (stop, state', v', s')"
        by (auto simp: line_step_field [OF g field pos] res_bind_Inr_iff)
      show ?thesis
      proof (cases stop)
        case True
        with a show ?thesis by (auto simp: after_field_def Let_def split: if_splits)
      next
        case False
        with a have goes: "s4 = s'" "st_sound s'" "state' = next_state st4" "st4 \<noteq> GET_ERROR"
          by (auto simp: after_field_goes_on st_sound_def)
        show ?thesis
        proof (cases "state = GET_END \<or> state = GET_ERROR")
          case True
          with r goes show ?thesis by auto
        next
          case False
          with goes have "shortens s s4" by (intro read_field_shortens [OF g r]) auto
          with goes show ?thesis by (auto simp: shortens_def st_sound_def)
        qed
      qed
    qed
  qed
qed

lemma line_step_consumes:
  assumes "line_step state v s = Inr (stop, state', v', s')" and "st_live s"
  shows "state' = GET_ERROR \<or> st_live s' \<and> st_remaining s' \<le> st_remaining s \<and> (st_eof s' \<or> st_remaining s' < st_remaining s)"
  using line_step_sound [OF assms(1)] line_step_content [OF assms(1)] assms(2) by (auto simp: st_live_def st_small_def)

lemma read_loop_ERROR: "read_loop GET_ERROR v s = Inr (state', v', s') \<Longrightarrow> state' = GET_ERROR"
proof (induction GET_ERROR v s rule: read_loop.induct)
  case (1 v s)
  from 1(2) show ?case
  proof (cases rule: read_loop_cases)
    case (leaves st1 v1 s1)
    then show ?thesis by (auto dest: line_step_ERROR)
  next
    case (continues st1 v1 s1)
    then have "line_step GET_ERROR v s = Inr (False, GET_ERROR, v1, s1)" "read_loop GET_ERROR v1 s1 = Inr (state', v', s')"
      using line_step_ERROR by blast+
    then show ?thesis using 1(1) [OF _ refl refl refl] by blast
  qed
qed

lemma read_loop_consumes:
  assumes "read_loop state v s = Inr (state', v', s')" and "st_live s"
  shows "state' = GET_ERROR \<or> st_live s' \<and> (st_eof s' \<or> st_remaining s' < st_remaining s)"
  using assms
proof (induction state v s rule: read_loop.induct)
  case (1 state v s)
  from 1(2) show ?case
  proof (cases rule: read_loop_cases)
    case (leaves st1 v1 s1)
    then show ?thesis using line_step_consumes [OF leaves(1) 1(3)] by auto
  next
    case (continues st1 v1 s1)
    show ?thesis
    proof (cases "st1 = GET_ERROR")
      case True
      with continues show ?thesis by (auto dest: read_loop_ERROR)
    next
      case False
      with continues line_step_consumes [OF continues(1) 1(3)]
        1(1) [OF continues(1) refl refl refl _ continues(2)]
      show ?thesis by fastforce
    qed
  qed
qed


section \<open>TRCReader\<close>

text \<open>
  \<open>tr_is_open\<close> is whether the stream has its file. Closing keeps the state bits; a stream without a file has
  nothing to read.
\<close>

record trc_reader =
  tr_mFileName :: string
  tr_mCurrentPos :: nat
  tr_mTotalFrames :: nat
  tr_is_open :: bool
  tr_mFileStream :: istream
  tr_mLast :: "u64 \<times> CanFrame"

definition TRCReader_new :: "bool \<Rightarrow> trc_reader" where
  "TRCReader_new ext =
     \<lparr>tr_mFileName = [], tr_mCurrentPos = 0, tr_mTotalFrames = 0, tr_is_open = False,
      tr_mFileStream = stream_open [], tr_mLast = (0, CanFrame_default ext)\<rparr>"

definition readNextLine :: "trc_reader \<Rightarrow> (bool \<times> bool \<times> trc_reader) res" where
  "readNextLine r =
     (let r0 = r\<lparr>tr_mLast := (0, cf_clear (snd (tr_mLast r)))\<rparr>
      in res_bind (read_loop GET_POSITION fresh_line (tr_mFileStream r)) (\<lambda>(state, v, s).
           let r1 = r0\<lparr>tr_mFileStream := s\<rparr>
           in if state \<noteq> GET_END \<and> state \<noteq> GET_POSITION then Inr (True, False, r1)
              else if state = GET_POSITION then Inr (False, True, r1)
              else case (tl_position v, tl_time v, tl_id v, tl_length v) of
                     (Some position, Some time, Some i, Some n) \<Rightarrow>
                       if length (tl_data v) \<noteq> unat n then Inr (True, False, r1)
                       else Inr (False, False,
                              r1\<lparr>tr_mCurrentPos := unat (position - 1),
                                 tr_mLast := (time, CanFrame_of True i (tl_data v))\<rparr>)
                   | _ \<Rightarrow> Inl UndefinedBehaviour))"

definition trc_unloadFile :: "trc_reader \<Rightarrow> trc_reader" where
  "trc_unloadFile r =
     (let r1 = (if tr_is_open r
                then r\<lparr>tr_is_open := False, tr_mFileStream := (tr_mFileStream r)\<lparr>st_content := [], st_pos := 0\<rparr>\<rparr>
                else r)
      in r1\<lparr>tr_mFileName := [], tr_mCurrentPos := 0, tr_mTotalFrames := 0\<rparr>)"

definition trc_rewind :: "trc_reader \<Rightarrow> trc_reader" where
  "trc_rewind r =
     (let s = stream_clear (tr_mFileStream r)
      in r\<lparr>tr_mFileStream := (if tr_is_open r then stream_seekg 0 s else s\<lparr>st_fail := True\<rparr>),
           tr_mCurrentPos := 0\<rparr>)"

abbreviation trc_reset :: "trc_reader \<Rightarrow> trc_reader" where
  "trc_reset \<equiv> trc_rewind"

partial_function (option) checkIntegrity :: "trc_reader \<Rightarrow> (bool \<times> trc_reader) res option" where
  "checkIntegrity r =
     (if st_eof (tr_mFileStream r) then Some (Inr (True, r\<lparr>tr_mTotalFrames := tr_mCurrentPos r + 1\<rparr>))
      else case readNextLine r of
             Inl e \<Rightarrow> Some (Inl e)
           | Inr (error, blank, r') \<Rightarrow> if error then Some (Inr (False, r')) else checkIntegrity r')"

text \<open>\<open>content\<close> is what the file of that name holds.\<close>

definition trc_loadFile :: "string \<Rightarrow> string option \<Rightarrow> trc_reader \<Rightarrow> (bool \<times> trc_reader) res option" where
  "trc_loadFile path content r =
     (let r = (trc_unloadFile r)\<lparr>tr_mFileName := path\<rparr>
      in case content of
           None \<Rightarrow> Some (Inr (False, trc_unloadFile
                     (r\<lparr>tr_mFileStream := (tr_mFileStream r)\<lparr>st_fail := True\<rparr>\<rparr>)))
         | Some bytes \<Rightarrow>
             (case checkIntegrity (r\<lparr>tr_is_open := True, tr_mFileStream := stream_open bytes\<rparr>) of
                None \<Rightarrow> None
              | Some (Inl e) \<Rightarrow> Some (Inl e)
              | Some (Inr (ok, r')) \<Rightarrow>
                  if \<not> ok then Some (Inr (False, trc_unloadFile r')) else Some (Inr (True, trc_reset r'))))"

partial_function (option) seek_loop :: "nat \<Rightarrow> trc_reader \<Rightarrow> (bool \<times> trc_reader) res option" where
  "seek_loop pos r =
     (if st_eof (tr_mFileStream r) then Some (Inr (False, r))
      else case readNextLine r of
             Inl e \<Rightarrow> Some (Inl e)
           | Inr (error, blank, r') \<Rightarrow>
               if error then Some (Inr (False, r'))
               else if tr_mCurrentPos r' = pos then Some (Inr (True, r'))
               else seek_loop pos r')"

definition seekPosition :: "nat \<Rightarrow> trc_reader \<Rightarrow> (bool \<times> trc_reader) res option" where
  "seekPosition pos r =
     (if tr_mFileName r = [] \<or> tr_mTotalFrames r \<le> pos then Some (Inr (False, r))
      else if tr_mCurrentPos r = pos then Some (Inr (True, r))
      else seek_loop pos (trc_rewind r))"

definition readNextCanFrame :: "trc_reader \<Rightarrow> trc_reader res" where
  "readNextCanFrame r =
     (if \<not> st_eof (tr_mFileStream r)
      then res_bind (readNextLine r) (\<lambda>(error, blank, r'). Inr r') else Inr r)"

section \<open>TRCWriter\<close>

datatype trc_exc = TRCWriteException

record trc_writer =
  tw_mFileStream :: "string option"
  tw_mCounter :: u32

definition TRCWriter_new :: trc_writer where
  "TRCWriter_new = \<lparr>tw_mFileStream = None, tw_mCounter = 0\<rparr>"

definition TRC_FILE_HEADER :: string where
  "TRC_FILE_HEADER = '';$FILEVERSION=1.1'' @ [CHR 0x0A, CHR '';'', CHR 0x0A]"

text \<open>The seconds are multiplied in 32 bits; the sum is one of \<open>double\<close>s.\<close>

definition trc_time :: "TimeStamp \<Rightarrow> double" where
  "trc_time timeStamp =
     d_add (d_of_nat (unat (mSeconds timeStamp * 1000)))
       (d_div (d_of_nat (unat (mMicroSec timeStamp))) (d_of_nat 1000))"

definition trc_write_line :: "u32 \<Rightarrow> CanFrame \<Rightarrow> TimeStamp \<Rightarrow> string" where
  "trc_write_line counter frame timeStamp =
     pad_left (CHR '' '') 8 (show_digits 10 (unat counter) @ '')'')
     @ pad_left (CHR '' '') 12 (show_fixed1 (trc_time timeStamp))
     @ pad_left (CHR '' '') 4 ''Rx''
     @ pad_left (CHR '' '') 13 (show_hex_upper 8 (unat (cf_mId frame)))
     @ pad_left (CHR '' '') 3 (show_digits 10 (length (cf_mData frame)))
     @ ''  '' @ concat (map (\<lambda>octet. show_hex_upper 2 (unat octet) @ '' '') (cf_mData frame))
     @ [CHR 0x0A]"

definition trc_write :: "CanFrame \<Rightarrow> TimeStamp \<Rightarrow> trc_writer \<Rightarrow> trc_exc + trc_writer" where
  "trc_write frame timeStamp w =
     (case tw_mFileStream w of
        None \<Rightarrow> Inl TRCWriteException
      | Some text \<Rightarrow>
          let counter = tw_mCounter w + 1
          in Inr (w\<lparr>tw_mCounter := counter,
                   tw_mFileStream := Some (text @ trc_write_line counter frame timeStamp)\<rparr>))"

definition trc_close :: "trc_writer \<Rightarrow> trc_writer" where
  "trc_close w = w\<lparr>tw_mCounter := 0, tw_mFileStream := None\<rparr>"

text \<open>\<open>opens\<close> is whether the file can be created.\<close>

definition trc_open :: "bool \<Rightarrow> trc_writer \<Rightarrow> bool \<times> trc_writer" where
  "trc_open opens w =
     (let w = trc_close w
      in if opens then (True, w\<lparr>tw_mFileStream := Some TRC_FILE_HEADER\<rparr>) else (False, w))"

section \<open>TRCDumper and TRCToCap\<close>

record dumper =
  du_writer :: trc_writer
  du_firstFrame :: bool
  du_initialTimeStamp :: TimeStamp

definition dumper_onRcv :: "CanFrame \<Rightarrow> TimeStamp \<Rightarrow> dumper \<Rightarrow> trc_exc + dumper" where
  "dumper_onRcv frame timeStamp d =
     (let d = (if du_firstFrame d then d\<lparr>du_initialTimeStamp := timeStamp, du_firstFrame := False\<rparr> else d)
      in case trc_write frame (ts_minus timeStamp (du_initialTimeStamp d)) (du_writer d) of
           Inl e \<Rightarrow> Inl e
         | Inr w \<Rightarrow> Inr (d\<lparr>du_writer := w\<rparr>))"

fun dumper_run :: "(CanFrame \<times> TimeStamp) list \<Rightarrow> dumper \<Rightarrow> trc_exc + dumper" where
  "dumper_run [] d = Inr d"
| "dumper_run ((f, ts) # rest) d =
     (case dumper_onRcv f ts d of Inl e \<Rightarrow> Inl e | Inr d' \<Rightarrow> dumper_run rest d')"

text \<open>\<open>main\<close> opens the file, here successfully, and waits for frames.\<close>

definition dumper_start :: dumper where
  "dumper_start = \<lparr>du_writer = snd (trc_open True TRCWriter_new), du_firstFrame = True, du_initialTimeStamp = ts_zero\<rparr>"

text \<open>What is given to \<open>libpcap_write_packet\<close>: seconds, the rest, and the data.\<close>

definition cap_packet :: "u64 \<times> CanFrame \<Rightarrow> u64 \<times> u64 \<times> bytes" where
  "cap_packet p =
     (case p of (timeStamp, frame) \<Rightarrow>
        (timeStamp div 1000000, timeStamp mod 1000000,
         [(ucast (drop_bit 24 (cf_mId frame) AND 0xFF) OR (if cf_mExtendedFormat frame then 0x80 else 0)),
          ucast (drop_bit 16 (cf_mId frame) AND 0xFF), ucast (drop_bit 8 (cf_mId frame) AND 0xFF),
          ucast (cf_mId frame AND 0xFF), word_of_nat (length (cf_mData frame)), 0, 0, 0] @ cf_mData frame))"

text \<open>The loop, with the packets written so far.\<close>

partial_function (option) cap_loop ::
  "trc_reader \<Rightarrow> (u64 \<times> u64 \<times> bytes) list \<Rightarrow> ((u64 \<times> u64 \<times> bytes) list) res option" where
  "cap_loop r written =
     (case readNextCanFrame r of
        Inl e \<Rightarrow> Some (Inl e)
      | Inr r' \<Rightarrow>
          let written = written @ [cap_packet (tr_mLast r')]
          in if tr_mCurrentPos r' < tr_mTotalFrames r' - 1 then cap_loop r' written else Some (Inr written))"


text \<open>
  \<open>main\<close>, without the options and messages: the result of the program and the packets of the file.
  \<open>opens\<close> is whether the output can be created; when it cannot, the program goes on with a null pointer.
  \<open>same\<close> is whether the output is the file of the input, under this or another name: then creating it has emptied
  the input before the first frame is read, and what the program writes stays in its buffer. \<open>ext\<close> is the flag that
  the constructor of the frame of the reader leaves uninitialised; it matters only for a file that begins with no frame.
\<close>

definition trc_to_cap ::
  "bool \<Rightarrow> string \<Rightarrow> string \<Rightarrow> string option \<Rightarrow> bool \<Rightarrow> bool \<Rightarrow> (int \<times> (u64 \<times> u64 \<times> bytes) list) res option" where
  "trc_to_cap ext input output content same opens =
     (if input = [] then Some (Inr (- 1, []))
      else if output = [] then Some (Inr (- 1, []))
      else case trc_loadFile input content (TRCReader_new ext) of
             None \<Rightarrow> None
           | Some (Inl e) \<Rightarrow> Some (Inl e)
           | Some (Inr (ok, r)) \<Rightarrow>
               if \<not> ok then Some (Inr (- 2, []))
               else if tr_mTotalFrames r = 0 then Some (Inr (- 3, []))
               else if \<not> opens then Some (Inl UndefinedBehaviour)
               else let r = (if same then r\<lparr>tr_mFileStream := (tr_mFileStream r)\<lparr>st_content := []\<rparr>\<rparr> else r)
                    in case cap_loop r [] of
                         None \<Rightarrow> None
                       | Some (Inl e) \<Rightarrow> Some (Inl e)
                       | Some (Inr packets) \<Rightarrow> Some (Inr (0, packets)))"

section \<open>Every file is read to an end\<close>

lemma readNextLine_cases:
  assumes "readNextLine r = Inr (error, blank, r')"
  obtains state v s where "read_loop GET_POSITION fresh_line (tr_mFileStream r) = Inr (state, v, s)"
    "tr_mFileStream r' = s" "tr_mTotalFrames r' = tr_mTotalFrames r" "tr_is_open r' = tr_is_open r"
    "tr_mFileName r' = tr_mFileName r" "error \<or> state \<noteq> GET_ERROR"
proof -
  from assms obtain state v s where l: "read_loop GET_POSITION fresh_line (tr_mFileStream r) = Inr (state, v, s)"
    by (auto simp: readNextLine_def Let_def res_bind_Inr_iff)
  with assms show thesis
    by (intro that [OF l]) (auto simp: readNextLine_def Let_def split: if_splits option.splits)
qed

lemma readNextLine_consumes:
  assumes "readNextLine r = Inr (False, blank, r')" and "st_live (tr_mFileStream r)"
  shows "st_live (tr_mFileStream r') \<and>
    (st_eof (tr_mFileStream r') \<or> st_remaining (tr_mFileStream r') < st_remaining (tr_mFileStream r))"
  using assms(1) by (rule readNextLine_cases) (use assms(2) in \<open>auto dest!: read_loop_consumes\<close>)

text \<open>Induction along the lines of a file.\<close>

lemma reading_induct [consumes 1, case_names line]:
  assumes "st_live (tr_mFileStream r)"
    and step: "\<And>r. st_live (tr_mFileStream r) \<Longrightarrow>
      (\<And>blank r'. \<not> st_eof (tr_mFileStream r) \<Longrightarrow> readNextLine r = Inr (False, blank, r') \<Longrightarrow>
         st_live (tr_mFileStream r') \<Longrightarrow> P r') \<Longrightarrow> P r"
  shows "P r"
  using assms(1)
proof (induction "if st_eof (tr_mFileStream r) then 0 else Suc (st_remaining (tr_mFileStream r))"
    arbitrary: r rule: less_induct)
  case less
  show ?case
  proof (rule step [OF less.prems])
    fix blank r'
    assume "\<not> st_eof (tr_mFileStream r)" "readNextLine r = Inr (False, blank, r')" "st_live (tr_mFileStream r')"
    then show "P r'" using less.prems less.hyps [of r'] readNextLine_consumes [of r blank r'] by auto
  qed
qed

lemma checkIntegrity_returns: "st_live (tr_mFileStream r) \<Longrightarrow> \<exists>x. checkIntegrity r = Some x"
proof (induction rule: reading_induct)
  case (line r)
  show ?case
  proof (cases "\<exists>blank r'. \<not> st_eof (tr_mFileStream r) \<and> readNextLine r = Inr (False, blank, r')")
    case True
    then obtain blank r' where r: "\<not> st_eof (tr_mFileStream r)" "readNextLine r = Inr (False, blank, r')" by blast
    moreover have "st_live (tr_mFileStream r')" using readNextLine_consumes [OF r(2)] line(1) by simp
    ultimately show ?thesis using line(2) by (subst checkIntegrity.simps) simp
  next
    case False
    then show ?thesis by (subst checkIntegrity.simps) (auto split: sum.split)
  qed
qed

lemma seek_loop_returns: "st_live (tr_mFileStream r) \<Longrightarrow> \<exists>x. seek_loop pos r = Some x"
proof (induction rule: reading_induct)
  case (line r)
  show ?case
  proof (cases "\<exists>blank r'. \<not> st_eof (tr_mFileStream r) \<and> readNextLine r = Inr (False, blank, r')")
    case True
    then obtain blank r' where r: "\<not> st_eof (tr_mFileStream r)" "readNextLine r = Inr (False, blank, r')" by blast
    moreover have "st_live (tr_mFileStream r')" using readNextLine_consumes [OF r(2)] line(1) by simp
    ultimately show ?thesis using line(2) by (subst seek_loop.simps) auto
  next
    case False
    then show ?thesis by (subst seek_loop.simps) (auto split: sum.split)
  qed
qed

text \<open>A file that was loaded stays open, so that every position can be looked for.\<close>

definition trc_inv :: "trc_reader \<Rightarrow> bool" where
  "trc_inv r \<longleftrightarrow> (tr_mFileName r \<noteq> [] \<longrightarrow> tr_is_open r \<and> st_small (tr_mFileStream r))"

lemma trc_rewind_live: "tr_is_open r \<Longrightarrow> st_small (tr_mFileStream r) \<Longrightarrow> st_live (tr_mFileStream (trc_rewind r))"
  by (simp add: trc_rewind_def st_live_def st_sound_def st_small_def stream_clear_def stream_seekg_def Let_def)

lemma seekPosition_total: "trc_inv r \<Longrightarrow> \<exists>x. seekPosition pos r = Some x"
  using seek_loop_returns [OF trc_rewind_live, of r pos] by (auto simp: seekPosition_def trc_inv_def)

text \<open>The loop of the converter reads the lines the check read before it.\<close>

lemma readNextLine_same:
  assumes "tr_mFileStream q = tr_mFileStream r" and "tr_mCurrentPos q = tr_mCurrentPos r"
    and "readNextLine r = Inr (error, blank, r')"
  obtains q' where "readNextLine q = Inr (error, blank, q')" "tr_mFileStream q' = tr_mFileStream r'"
    "tr_mCurrentPos q' = tr_mCurrentPos r'" "tr_mTotalFrames q' = tr_mTotalFrames q"
proof -
  from assms(3) obtain state v s where l: "read_loop GET_POSITION fresh_line (tr_mFileStream r) = Inr (state, v, s)"
    by (auto simp: readNextLine_def Let_def res_bind_Inr_iff)
  with assms show thesis
    by (intro that [of "snd (snd (projr (readNextLine q)))"])
       (auto simp: readNextLine_def Let_def split: if_splits option.splits)
qed

lemma cap_loop_returns:
  assumes "st_live (tr_mFileStream r)" and "checkIntegrity r = Some (Inr (True, t))"
    and "tr_mFileStream q = tr_mFileStream r" and "tr_mCurrentPos q = tr_mCurrentPos r"
    and "tr_mTotalFrames q = tr_mTotalFrames t"
  shows "\<exists>packets. cap_loop q written = Some (Inr packets)"
  using assms
proof (induction arbitrary: q written rule: reading_induct)
  case (line r)
  show ?case
  proof (cases "st_eof (tr_mFileStream r)")
    case True
    with line(3) have "tr_mTotalFrames t = tr_mCurrentPos r + 1" by (subst (asm) checkIntegrity.simps) auto
    with True line show ?thesis by (subst cap_loop.simps) (simp add: readNextCanFrame_def)
  next
    case False
    with line(3) obtain blank r' where n: "readNextLine r = Inr (False, blank, r')"
      and c: "checkIntegrity r' = Some (Inr (True, t))"
      by (subst (asm) checkIntegrity.simps) (auto split: sum.splits if_splits)
    obtain q' where q: "readNextLine q = Inr (False, blank, q')" "tr_mFileStream q' = tr_mFileStream r'"
        "tr_mCurrentPos q' = tr_mCurrentPos r'" "tr_mTotalFrames q' = tr_mTotalFrames q"
      using readNextLine_same [OF line(4) line(5) n] .
    have "st_live (tr_mFileStream r')" using readNextLine_consumes [OF n line(1)] by simp
    then have "\<exists>packets. cap_loop q' w = Some (Inr packets)" for w
      using line(2) [OF False n] c q line(6) by simp
    with False q line show ?thesis by (subst cap_loop.simps) (simp add: readNextCanFrame_def Let_def)
  qed
qed

definition small_file :: "string option \<Rightarrow> bool" where
  "small_file content \<longleftrightarrow> (case content of None \<Rightarrow> True | Some bytes \<Rightarrow> length bytes < 2 ^ 31)"

lemma stream_open_live: "length bytes < 2 ^ 31 \<Longrightarrow> st_live (stream_open bytes)"
  by (simp add: st_live_def st_sound_def st_small_def stream_open_def)

lemma trc_loadFile_returns: "small_file content \<Longrightarrow> \<exists>x. trc_loadFile path content r = Some x"
proof (cases content)
  case None
  then show ?thesis by (simp add: trc_loadFile_def Let_def)
next
  case (Some bytes)
  moreover assume "small_file content"
  ultimately have "length bytes < 2 ^ 31" by (simp add: small_file_def)
  then obtain x where "checkIntegrity ((trc_unloadFile r)\<lparr>tr_mFileName := path, tr_is_open := True,
      tr_mFileStream := stream_open bytes\<rparr>) = Some x"
    using checkIntegrity_returns stream_open_live by fastforce
  with Some show ?thesis by (auto simp: trc_loadFile_def split: sum.splits)
qed


lemma readNextLine_content:
  assumes "readNextLine r = Inr (error, blank, r')"
  shows "st_content (tr_mFileStream r') = st_content (tr_mFileStream r)" and "tr_is_open r' = tr_is_open r"
  using assms by (rule readNextLine_cases; auto dest: read_loop_content)+

lemma checkIntegrity_content:
  assumes "st_live (tr_mFileStream r)" and "checkIntegrity r = Some (Inr (ok, r'))"
  shows "st_content (tr_mFileStream r') = st_content (tr_mFileStream r) \<and> tr_is_open r' = tr_is_open r"
  using assms
proof (induction rule: reading_induct)
  case (line r)
  show ?case
  proof (cases "st_eof (tr_mFileStream r)")
    case True
    with line(3) show ?thesis by (subst (asm) checkIntegrity.simps) auto
  next
    case False
    with line(3) obtain error blank r1 where n: "readNextLine r = Inr (error, blank, r1)"
      and c: "if error then r' = r1 else checkIntegrity r1 = Some (Inr (ok, r'))"
      by (subst (asm) checkIntegrity.simps) (auto split: sum.splits if_splits)
    show ?thesis
    proof (cases error)
      case True
      with n c readNextLine_content [OF n] show ?thesis by simp
    next
      case ok: False
      with n have "st_live (tr_mFileStream r1)" using readNextLine_consumes [of r blank r1] line(1) by simp
      then show ?thesis using line(2) [OF False] n c ok readNextLine_content [OF n] by simp
    qed
  qed
qed

text \<open>The reader that has loaded a file is at its beginning.\<close>

lemma trc_loadFile_start:
  assumes "trc_loadFile path (Some bytes) r = Some (Inr (True, q))" and small: "length bytes < 2 ^ 31"
  obtains p t where "p = (trc_unloadFile r)\<lparr>tr_mFileName := path, tr_is_open := True,
      tr_mFileStream := stream_open bytes\<rparr>"
    "checkIntegrity p = Some (Inr (True, t))" "tr_mFileStream q = stream_open bytes" "tr_mCurrentPos q = 0"
    "tr_mTotalFrames q = tr_mTotalFrames t" "tr_is_open q"
proof -
  let ?p = "(trc_unloadFile r)\<lparr>tr_mFileName := path, tr_is_open := True, tr_mFileStream := stream_open bytes\<rparr>"
  from assms(1) obtain t where t: "checkIntegrity ?p = Some (Inr (True, t))" and q: "q = trc_reset t"
    by (auto simp: trc_loadFile_def Let_def split: option.splits sum.splits if_splits)
  have "st_live (tr_mFileStream ?p)" using stream_open_live [OF small] by simp
  from checkIntegrity_content [OF this t]
  have c: "st_content (tr_mFileStream t) = bytes" "tr_is_open t" by (simp_all add: stream_open_def)
  show thesis
    by (rule that [OF refl t])
       (use c q in \<open>simp_all add: trc_rewind_def stream_clear_def stream_seekg_def stream_open_def Let_def\<close>)
qed

text \<open>A file that is loaded has been emptied when the output is the same file: nothing more is read, and only a file of one
  frame is finished.\<close>

lemma cap_loop_stuck:
  assumes "cap_loop r written = Some x" and "st_eof (tr_mFileStream r)"
  shows "\<not> tr_mCurrentPos r < tr_mTotalFrames r - 1"
  using assms
proof (induction r written x rule: cap_loop.raw_induct [rotated, consumes 1, case_names step])
  case (step loop r written x)
  then show ?case by (auto simp: readNextCanFrame_def Let_def split: if_splits)
qed

lemma cap_loop_emptied:
  assumes "st_content (tr_mFileStream r) = []" and "st_good (tr_mFileStream r)" and "tr_mCurrentPos r = 0"
  shows "cap_loop r [] = None \<longleftrightarrow> 2 \<le> tr_mTotalFrames r"
proof -
  let ?s = "tr_mFileStream r"
  have "stream_get ?s = (None, ?s\<lparr>st_eof := True, st_fail := True\<rparr>)" using assms by (simp add: stream_get_def st_rest_def)
  then have "readNextLine r = Inr (False, True,
      r\<lparr>tr_mLast := (0, cf_clear (snd (tr_mLast r))), tr_mFileStream := ?s\<lparr>st_eof := True, st_fail := True\<rparr>\<rparr>)"
    by (simp add: readNextLine_def read_loop.simps line_step_def)
  with assms(2) have n: "readNextCanFrame r = Inr
      (r\<lparr>tr_mLast := (0, cf_clear (snd (tr_mLast r))), tr_mFileStream := ?s\<lparr>st_eof := True, st_fail := True\<rparr>\<rparr>)"
    by (simp add: readNextCanFrame_def st_good_def)
  show ?thesis
  proof (cases "2 \<le> tr_mTotalFrames r")
    case True
    let ?r = "r\<lparr>tr_mLast := (0, cf_clear (snd (tr_mLast r))), tr_mFileStream := ?s\<lparr>st_eof := True, st_fail := True\<rparr>\<rparr>"
    have "cap_loop ?r w = None" for w
      using cap_loop_stuck [of ?r w] assms(3) True by (cases "cap_loop ?r w") simp_all
    with True n assms(3) show ?thesis by (subst cap_loop.simps) (simp add: Let_def)
  next
    case False
    with n assms(3) show ?thesis by (subst cap_loop.simps) (simp add: Let_def)
  qed
qed

lemma trc_to_cap_ends_iff:
  assumes "small_file content"
  shows "trc_to_cap ext input output content same opens = None \<longleftrightarrow> input \<noteq> [] \<and> output \<noteq> [] \<and> same \<and> opens \<and>
    (\<exists>q. trc_loadFile input content (TRCReader_new ext) = Some (Inr (True, q)) \<and> 2 \<le> tr_mTotalFrames q)"
proof -
  obtain x where x: "trc_loadFile input content (TRCReader_new ext) = Some x"
    using trc_loadFile_returns [OF assms] by blast
  have loop: "(\<exists>packets. cap_loop q [] = Some (Inr packets)) \<and>
      (cap_loop (q\<lparr>tr_mFileStream := (tr_mFileStream q)\<lparr>st_content := []\<rparr>\<rparr>) [] = None \<longleftrightarrow> 2 \<le> tr_mTotalFrames q)"
    if "x = Inr (True, q)" for q
  proof -
    from x that obtain bytes where b: "content = Some bytes"
      by (cases content) (auto simp: trc_loadFile_def Let_def)
    with assms have small: "length bytes < 2 ^ 31" by (simp add: small_file_def)
    from x [unfolded b that] small obtain p t where p: "p = (trc_unloadFile (TRCReader_new ext))\<lparr>tr_mFileName := input,
        tr_is_open := True, tr_mFileStream := stream_open bytes\<rparr>" "checkIntegrity p = Some (Inr (True, t))"
      "tr_mFileStream q = stream_open bytes" "tr_mCurrentPos q = 0" "tr_mTotalFrames q = tr_mTotalFrames t"
      by (rule trc_loadFile_start)
    have "\<exists>packets. cap_loop q [] = Some (Inr packets)"
      by (rule cap_loop_returns [OF _ p(2)])
         (use p stream_open_live [OF small] in \<open>simp_all add: trc_unloadFile_def TRCReader_new_def Let_def\<close>)
    moreover have "cap_loop (q\<lparr>tr_mFileStream := (tr_mFileStream q)\<lparr>st_content := []\<rparr>\<rparr>) [] = None \<longleftrightarrow> 2 \<le> tr_mTotalFrames q"
      using cap_loop_emptied [of "q\<lparr>tr_mFileStream := (tr_mFileStream q)\<lparr>st_content := []\<rparr>\<rparr>"] p(3,4)
      by (simp add: stream_open_def st_good_def)
    ultimately show ?thesis by blast
  qed
  show ?thesis
  proof (cases "\<exists>q. x = Inr (True, q)")
    case True
    then obtain q where q: "x = Inr (True, q)" ..
    with x loop [OF q] show ?thesis
      by (cases "cap_loop (q\<lparr>tr_mFileStream := (tr_mFileStream q)\<lparr>st_content := []\<rparr>\<rparr>) []")
         (auto simp: trc_to_cap_def Let_def split: sum.splits)
  next
    case False
    with x show ?thesis by (auto simp: trc_to_cap_def Let_def split: sum.splits)
  qed
qed

end
