(* ===== verification/DoubleError.thy ===== *)
theory DoubleError
  imports Double
begin

text \<open>How far the rounded results of \<open>Double\<close> are from the exact ones, for numbers that are not negative.\<close>

lemma powi_mono: "i \<le> j \<Longrightarrow> (2 powi i :: rat) \<le> 2 powi j"
  by (simp add: power_int_increasing)

lemma powi_quotient: "(2 powi (int m - int n) :: rat) = 2 ^ m / 2 ^ n"
  by (simp add: power_int_diff)

lemma dexp_lower:
  assumes "0 < x"
  shows "2 powi (dexp x) \<le> x"
proof -
  obtain n d where q: "quotient_of x = (n, d)" by (cases "quotient_of x")
  then have d: "0 < d" and x: "x = of_int n / of_int d"
    by (simp_all add: quotient_of_denom_pos quotient_of_div)
  with assms have n: "0 < n" by (simp add: zero_less_divide_iff)
  let ?a = "nbits (nat n)" and ?b = "nbits (nat d)"
  show ?thesis
  proof (cases "2 powi (int ?a - int ?b) \<le> x")
    case True
    then show ?thesis using assms q by (simp add: dexp_def Let_def)
  next
    case False
    have a: "2 ^ (?a - 1) \<le> nat n" "0 < ?a" 
      using n nbits_lower [of "nat n"] nbits_pos [of "nat n"] by simp_all
    have "(2 ^ (?a - 1) :: rat) \<le> of_nat (nat n)" using a(1) by (metis of_nat_le_iff of_nat_numeral of_nat_power)
    moreover have "(of_nat (nat d) :: rat) < 2 ^ ?b"
      using nbits_upper [of "nat d"] by (metis of_nat_less_iff of_nat_numeral of_nat_power)
    ultimately have "(2 ^ (?a - 1) / 2 ^ ?b :: rat) \<le> of_nat (nat n) / of_nat (nat d)"
      using d by (intro frac_le) auto
    also have "\<dots> = x" using n d by (simp add: x)
    finally have "(2 ^ (?a - 1) / 2 ^ ?b :: rat) \<le> x" .
    moreover have "(2 ^ (?a - 1) / 2 ^ ?b :: rat) = 2 powi (int ?a - int ?b - 1)"
    proof -
      have "int ?a - int ?b - 1 = int (?a - 1) - int ?b" using a(2) by simp
      then show ?thesis by (simp only: powi_quotient)
    qed
    ultimately show ?thesis using assms q False by (simp add: dexp_def Let_def)
  qed
qed

lemma dexp_upper:
  assumes "0 < x" and "x < 2 ^ k"
  shows "dexp x < int k"
proof (rule ccontr)
  assume "\<not> dexp x < int k"
  then have "(2 powi int k :: rat) \<le> 2 powi dexp x" by (intro powi_mono) simp
  with assms dexp_lower [OF assms(1)] show False by simp
qed

lemma rint_even_near: "\<bar>of_int (rint_even z) - z\<bar> \<le> 1 / 2"
proof -
  have "of_int \<lfloor>z\<rfloor> \<le> z" "z < of_int \<lfloor>z\<rfloor> + 1" by linarith+
  then show ?thesis by (auto simp: rint_even_def Let_def abs_le_iff)
qed

lemma rint_even_nonneg: "0 \<le> z \<Longrightarrow> 0 \<le> rint_even z"
  by (auto simp: rint_even_def Let_def)

lemma d_round_near:
  assumes "0 \<le> x" and "x < 2 ^ k" and k: "k \<le> 1000"
  obtains y where "d_round x = Fin y" "0 \<le> y" "\<bar>y - x\<bar> \<le> 2 powi (int k - 54)"
proof (cases "x = 0")
  case True
  then show thesis by (intro that [of 0]) (simp_all add: d_round_def)
next
  case False
  with assms have x: "0 < x" by simp
  define q where "q = max (dexp x - 52) (- 1074)"
  define y where "y = of_int (rint_even (x / 2 powi q)) * (2 powi q :: rat)"
  have p: "0 < (2 powi q :: rat)" by simp
  have q: "q \<le> int k - 53" using dexp_upper [OF x assms(2)] by (simp add: q_def)
  have "y - x = (of_int (rint_even (x / 2 powi q)) - x / 2 powi q) * 2 powi q"
    using p by (simp add: y_def left_diff_distrib)
  then have "\<bar>y - x\<bar> = \<bar>of_int (rint_even (x / 2 powi q)) - x / 2 powi q\<bar> * 2 powi q"
    using p by (simp add: abs_mult)
  also have "\<dots> \<le> 1 / 2 * 2 powi q" by (intro mult_right_mono rint_even_near) simp
  also have "\<dots> \<le> 1 / 2 * 2 powi (int k - 53)" by (intro mult_left_mono powi_mono q) simp
  also have "\<dots> = 2 powi (int k - 54)"
    using power_int_add [of "2 :: rat" "int k - 54" 1] by simp
  finally have near: "\<bar>y - x\<bar> \<le> 2 powi (int k - 54)" .
  have y0: "0 \<le> y" unfolding y_def using x by (intro mult_nonneg_nonneg) (simp_all add: rint_even_nonneg)
  have "(2 powi (int k - 54) :: rat) \<le> 2 powi int k" by (rule powi_mono) simp
  then have "y < 2 ^ k + 2 ^ k" using near assms(2) by (simp add: abs_le_iff)
  also have "\<dots> = 2 ^ Suc k" by simp
  also have "\<dots> \<le> (2 ^ 1024 :: rat)" using k by (intro power_increasing) auto
  finally have "\<not> \<bar>y\<bar> \<ge> 2 ^ 1024" using y0 by simp
  then have r: "d_round x = Fin y"
    using x unfolding d_round_def Let_def q_def [symmetric] y_def [symmetric] by auto
  show thesis by (rule that [OF r y0 near])
qed


lemma d_mul_near:
  assumes "0 \<le> a" and "0 \<le> b" and "a * b < 2 ^ k" and "k \<le> 1000"
  obtains y where "d_mul (Fin a) (Fin b) = Fin y" "0 \<le> y" "\<bar>y - a * b\<bar> \<le> 2 powi (int k - 54)"
proof -
  obtain y where y: "d_round (a * b) = Fin y" "0 \<le> y" "\<bar>y - a * b\<bar> \<le> 2 powi (int k - 54)"
    using assms d_round_near [of "a * b" k] by auto
  show thesis
    by (rule that [of y])
       (use assms y in \<open>simp_all add: d_mul_def d_is_inf_def d_signed_def d_zero_def\<close>)
qed

lemma d_div_near:
  assumes "0 \<le> a" and "0 < b" and "a / b < 2 ^ k" and "k \<le> 1000"
  obtains y where "d_div (Fin a) (Fin b) = Fin y" "0 \<le> y" "\<bar>y - a / b\<bar> \<le> 2 powi (int k - 54)"
proof -
  obtain y where y: "d_round (a / b) = Fin y" "0 \<le> y" "\<bar>y - a / b\<bar> \<le> 2 powi (int k - 54)"
    using assms d_round_near [of "a / b" k] by auto
  show thesis
    by (rule that [of y])
       (use assms y in \<open>simp_all add: d_div_def d_is_inf_def d_is_zero_def d_signed_def d_zero_def\<close>)
qed

end
