(* ===== verification/TraceRoundtrip.thy ===== *)
theory TraceRoundtrip
  imports Trace DoubleError
begin

text \<open>
  What \<open>TRCReader\<close> makes of what \<open>TRCWriter\<close> wrote: every field of a line, the lines of a file, and the
  error of the time stamps.
\<close>

section \<open>Streams at a position\<close>

definition stream_at :: "string \<Rightarrow> string \<Rightarrow> istream" where
  "stream_at pre r = \<lparr>st_content = pre @ r, st_pos = length pre, st_eof = False, st_fail = False\<rparr>"

lemma stream_at_simps [simp]:
  "st_rest (stream_at pre r) = r" "st_good (stream_at pre r)" "st_eof (stream_at pre r) = False"
  "st_fail (stream_at pre r) = False" "st_content (stream_at pre r) = pre @ r"
  "st_pos (stream_at pre r) = length pre"
  by (simp_all add: stream_at_def st_rest_def st_good_def)

lemma stream_open_at: "stream_open content = stream_at [] content"
  by (simp add: stream_open_def stream_at_def)

lemma st_to_at: "r = xs @ r' \<Longrightarrow> st_to r' (stream_at pre r) = stream_at (pre @ xs) r'"
  by (simp add: st_to_def stream_at_def)

lemma stream_at_eof_False [simp]: "(stream_at pre r)\<lparr>st_eof := False\<rparr> = stream_at pre r"
  by (simp add: stream_at_def)

text \<open>What is read at a position, as long as the position fits into an \<open>int\<close>.\<close>

definition fits :: "string \<Rightarrow> string \<Rightarrow> bool" where
  "fits pre r \<longleftrightarrow> length pre + length r < 2 ^ 31"

lemma fits_append [simp]: "fits (pre @ xs) r \<longleftrightarrow> fits pre (xs @ r)"
  by (simp add: fits_def add.assoc)

lemma stream_get_at: "stream_get (stream_at pre (c # r)) = (Some c, stream_at (pre @ [c]) r)"
  by (simp add: stream_get_def st_to_at [of _ "[c]"])

lemma stream_get_into_at: "stream_get_into d (stream_at pre (c # r)) = (c, stream_at (pre @ [c]) r)"
  by (simp add: stream_get_into_def stream_get_at)

lemma stream_ignore_at:
  assumes "CHR 0x0A \<notin> set xs"
  shows "stream_ignore_line (stream_at pre (xs @ CHR 0x0A # r)) = stream_at (pre @ xs @ [CHR 0x0A]) r"
proof -
  have "dropWhile (\<lambda>c. c \<noteq> CHR 0x0A) (xs @ CHR 0x0A # r) = CHR 0x0A # r"
    using assms by (subst dropWhile_append2) auto
  then show ?thesis by (simp add: stream_ignore_line_def st_to_at [of _ "xs @ [CHR 0x0A]"])
qed

lemma stream_sentry_at:
  assumes "\<And>c. c \<in> set sp \<Longrightarrow> is_space c" and "r \<noteq> []" and "\<not> is_space (hd r)"
  shows "stream_sentry (stream_at pre (sp @ r)) = stream_at (pre @ sp) r"
proof -
  have "dropWhile is_space (sp @ r) = r"
    using assms by (subst dropWhile_append2) (auto simp: dropWhile_eq_self_iff)
  with assms(2) show ?thesis by (simp add: stream_sentry_def st_to_at [of _ sp])
qed

section \<open>Numbers\<close>

lemma takeWhile_stop: "(\<And>c. c \<in> set ds \<Longrightarrow> P c) \<Longrightarrow> \<not> P t \<Longrightarrow>
    takeWhile P (ds @ t # r) = ds \<and> dropWhile P (ds @ t # r) = t # r"
  by (simp add: takeWhile_append2 dropWhile_append2)

lemma extract_u32_at:
  assumes ds: "\<And>c. c \<in> set ds \<Longrightarrow> is_digit base c" "ds \<noteq> []" and t: "\<not> is_digit base t" "to_lower t \<noteq> CHR ''x''"
    and base: "base \<le> 16" and fits: "digits_value base ds \<le> 0xFFFFFFFF"
    and sp: "\<And>c. c \<in> set sp \<Longrightarrow> is_space c"
  shows "extract_u32 base (stream_at pre (sp @ ds @ t # r)) =
    (Some (word_of_int (digits_value base ds)), stream_at (pre @ sp @ ds) (t # r))"
proof -
  obtain d ds' where d: "ds = d # ds'" using ds(2) by (cases ds) auto
  with ds(1) have hd: "is_digit base d" by simp
  note digit_not_space [OF hd]
  then have s: "stream_sentry (stream_at pre (sp @ ds @ t # r)) = stream_at (pre @ sp) (ds @ t # r)"
    using sp d by (intro stream_sentry_at) auto
  have not_x: "to_lower c \<noteq> CHR ''x''" if "is_digit base c" for c
  proof
    assume "to_lower c = CHR ''x''"
    then have "of_char (to_lower c) = (120 :: nat)" by simp
    with that base show False
      by (auto simp: is_digit_def digit_value_def to_lower_def Let_def of_char_of split: if_splits)
  qed
  have "map to_lower (take 2 (ds @ t # r)) \<noteq> ''0x''"
  proof (cases ds')
    case Nil
    with d t show ?thesis by simp
  next
    case (Cons e es)
    with d ds(1) have "is_digit base e" by simp
    with Cons d not_x show ?thesis by simp
  qed
  moreover have "hd (ds @ t # r) \<noteq> CHR ''-''" "hd (ds @ t # r) \<noteq> CHR ''+''"
    using d digit_not_space [OF hd] by simp_all
  moreover have "takeWhile (is_digit base) (ds @ t # r) = ds \<and> dropWhile (is_digit base) (ds @ t # r) = t # r"
    by (rule takeWhile_stop) (use ds(1) t(1) in auto)
  ultimately show ?thesis
    using ds(2) fits by (simp add: extract_u32_def s Let_def st_to_at [of _ ds])
qed

lemma extract_double_at:
  assumes ip: "\<And>c. c \<in> set (ip @ fp) \<Longrightarrow> is_digit 10 c" "ip \<noteq> []"
    and t: "\<not> is_digit 10 t" "to_lower t \<noteq> CHR ''e''"
    and sp: "\<And>c. c \<in> set sp \<Longrightarrow> is_space c"
    and x: "x = of_int (digits_value 10 (ip @ fp)) / 10 ^ length fp" "\<not> d_is_inf (d_round x)"
  shows "extract_double (stream_at pre (sp @ ip @ CHR ''.'' # fp @ t # r)) =
    (Some (d_round x), stream_at (pre @ sp @ ip @ CHR ''.'' # fp) (t # r))"
proof -
  obtain d ip' where d: "ip = d # ip'" using ip(2) by (cases ip) auto
  with ip(1) have hd: "is_digit 10 d" by simp
  note digit_not_space [OF hd]
  then have s: "stream_sentry (stream_at pre (sp @ ip @ CHR ''.'' # fp @ t # r))
      = stream_at (pre @ sp) (ip @ CHR ''.'' # fp @ t # r)"
    using sp d by (intro stream_sentry_at) auto
  have "\<not> is_digit 10 (CHR ''.'')" by (simp add: is_digit_def digit_value_def)
  then have 1: "takeWhile (is_digit 10) (ip @ CHR ''.'' # fp @ t # r) = ip \<and>
      dropWhile (is_digit 10) (ip @ CHR ''.'' # fp @ t # r) = CHR ''.'' # fp @ t # r"
    by (intro takeWhile_stop) (use ip(1) in auto)
  have 2: "takeWhile (is_digit 10) (fp @ t # r) = fp \<and> dropWhile (is_digit 10) (fp @ t # r) = t # r"
    by (rule takeWhile_stop) (use ip(1) t(1) in auto)
  have m: "scan_mantissa 10 (ip @ CHR ''.'' # fp @ t # r) = (ip @ fp, length fp, t # r)"
    using 1 2 by (simp add: scan_mantissa_def)
  moreover have "hd (ip @ CHR ''.'' # fp @ t # r) \<noteq> CHR ''-''" "hd (ip @ CHR ''.'' # fp @ t # r) \<noteq> CHR ''+''"
    using d digit_not_space [OF hd] by simp_all
  ultimately show ?thesis
    using ip(2) x t(2) by (simp add: extract_double_def s Let_def st_to_at [of _ "ip @ CHR ''.'' # fp"])
qed


section \<open>Digits in upper case, and padding\<close>

lemma of_char_upper: "of_char (to_upper c) = (let n = of_char c :: nat in if 97 \<le> n \<and> n \<le> 122 then n - 32 else n)"
  by (auto simp: to_upper_def Let_def of_char_of)

lemma digit_value_upper [simp]: "digit_value (to_upper c) = digit_value c"
  unfolding digit_value_def Let_def of_char_upper by auto

lemma is_digit_upper [simp]: "is_digit base (to_upper c) = is_digit base c"
  by (simp add: is_digit_def)

lemma digits_value_map_upper [simp]: "digits_value base (map to_upper ds) = digits_value base ds"
  by (induction ds rule: rev_induct) (simp_all add: digits_value_def)

lemma digits_value_zeros [simp]: "digits_value base (replicate n (CHR ''0'') @ ds) = digits_value base ds"
  by (induction n) (simp_all add: digits_value_def digit_value_def)

lemma hex_upper_digits:
  "c \<in> set (show_hex_upper width n) \<Longrightarrow> is_digit 16 c" "digits_value 16 (show_hex_upper width n) = int n"
  "show_hex_upper width n \<noteq> []"
  by (auto simp: show_hex_upper_def pad_left_def show_digits_value dest: show_digits_digits [rotated 2])
     (simp add: is_digit_def digit_value_def)

lemma show_fixed1_digits:
  assumes "rint_even (d_val d * 10) = int n"
  shows "show_fixed1 d = show_digits 10 (n div 10) @ CHR ''.'' # [digit_char (n mod 10)]"
    and "digits_value 10 (show_digits 10 (n div 10) @ [digit_char (n mod 10)]) = int n"
  using assms by (simp_all add: show_fixed1_def digits_value_snoc show_digits_value digit_value_char zdiv_int zmod_int)

lemma pad_space: "c \<in> set (replicate n (CHR '' '')) \<Longrightarrow> is_space c"
  by (simp add: is_space_def)

section \<open>The loop on what was written\<close>

lemma read_loop_spaces:
  "read_loop state v (stream_at pre (replicate n (CHR '' '') @ r)) =
     read_loop state v (stream_at (pre @ replicate n (CHR '' '')) r)"
proof (induction n arbitrary: pre)
  case (Suc n)
  have "read_loop state v (stream_at pre (CHR '' '' # replicate n (CHR '' '') @ r)) =
      read_loop state v (stream_at (pre @ [CHR '' '']) (replicate n (CHR '' '') @ r))"
    by (subst read_loop.simps) (simp add: line_step_def stream_get_at)
  with Suc show ?case by simp
qed simp

lemma read_loop_comment:
  assumes "CHR 0x0A \<notin> set xs"
  shows "read_loop state v (stream_at pre (CHR '';'' # xs @ CHR 0x0A # r)) =
    read_loop state v (stream_at (pre @ CHR '';'' # xs @ [CHR 0x0A]) r)"
  using stream_ignore_at [OF assms, of "pre @ [CHR '';'']" r]
  by (subst read_loop.simps) (simp add: line_step_def stream_get_at)

lemma read_loop_field:
  assumes "c \<notin> {CHR '' '', CHR 0x09, CHR '';'', CHR 0x0A, CHR 0x0D}"
    and "read_field state c v (stream_at pre (c # r)) = Inr (st1, v1, stream_at pre1 r1)" and "st1 \<noteq> GET_ERROR"
    and "fits pre [c]"
  shows "read_loop state v (stream_at pre (c # r)) = read_loop (next_state st1) v1 (stream_at pre1 r1)"
  using assms
  by (subst read_loop.simps) (simp add: line_step_field [OF stream_get_at] after_field_def fits_def)

lemma read_loop_newline:
  "read_loop state v (stream_at pre (CHR 0x0A # r)) = Inr (state, v, stream_at (pre @ [CHR 0x0A]) r)"
  by (subst read_loop.simps) (simp add: line_step_def stream_get_at)

text \<open>A digit begins a field.\<close>

lemma digit_begins: "is_digit base c \<Longrightarrow> c \<notin> {CHR '' '', CHR 0x09, CHR '';'', CHR 0x0A, CHR 0x0D}"
  by (auto simp: is_digit_def digit_value_def)


section \<open>The fields of a line\<close>

text \<open>A number that was printed ends before a character that is no digit and no \<open>x\<close>.\<close>

lemma extract_printed:
  assumes "\<And>c. c \<in> set ds \<Longrightarrow> is_digit base c" and "ds \<noteq> []" and "digits_value base ds = uint (n :: u32)"
    and "t \<in> {CHR '')'', CHR '' ''}" and "base \<le> 16" and "\<And>c. c \<in> set sp \<Longrightarrow> is_space c"
  shows "extract_u32 base (stream_at pre (sp @ ds @ t # r)) = (Some n, stream_at (pre @ sp @ ds) (t # r))"
proof -
  have t: "\<not> is_digit base t" "to_lower t \<noteq> CHR ''x''"
    using assms(4) by (auto simp: is_digit_def digit_value_def to_lower_def)
  have "uint n \<le> 0xFFFFFFFF" using unsigned_less [of n, where ?'a = int] by simp
  then have "extract_u32 base (stream_at pre (sp @ ds @ t # r)) =
      (Some (word_of_int (digits_value base ds)), stream_at (pre @ sp @ ds) (t # r))"
    using assms t by (intro extract_u32_at) auto
  then show ?thesis by (simp add: assms(3))
qed

lemma read_position:
  assumes small: "fits pre (pad_left (CHR '' '') w (show_digits 10 (unat n) @ '')''))"
  shows "read_loop GET_POSITION v (stream_at pre (pad_left (CHR '' '') w (show_digits 10 (unat n) @ '')'') @ r)) =
     read_loop GET_TIME (v\<lparr>tl_position := Some n\<rparr>)
       (stream_at (pre @ pad_left (CHR '' '') w (show_digits 10 (unat n) @ '')'')) r)"
proof -
  let ?ds = "show_digits 10 (unat n)" and ?k = "w - length (show_digits 10 (unat n) @ '')'')"
  let ?pre = "pre @ replicate ?k (CHR '' '')"
  obtain d ds where d: "?ds = d # ds" using show_digits_not_Nil by (cases ?ds) auto
  have dig: "is_digit 10 c" if "c \<in> set ?ds" for c using that by (rule show_digits_digits [rotated 2]) simp_all
  have e: "extract_u32 10 (stream_at ?pre (?ds @ CHR '')'' # r)) = (Some n, stream_at (?pre @ ?ds) (CHR '')'' # r))"
    using extract_printed [of ?ds 10 n "CHR '')''" "[]" ?pre r] dig by (simp add: show_digits_value)
  have "read_field GET_POSITION d v (stream_at ?pre (d # (ds @ CHR '')'' # r))) =
      Inr (GET_POSITION, v\<lparr>tl_position := Some n\<rparr>, stream_at (?pre @ ?ds @ '')'') r)"
    using e by (simp add: d stream_get_into_at or_keep_def)
  from read_loop_field [OF _ this] show ?thesis
    using dig [of d] digit_begins [of 10 d] small by (simp add: pad_left_def read_loop_spaces d fits_def)
qed

text \<open>The microseconds that are read for a printed time.\<close>

definition trc_reread :: "TimeStamp \<Rightarrow> u64" where
  "trc_reread ts =
     word_of_int (d_trunc (d_mul (d_round (of_int (rint_even (d_val (trc_time ts) * 10)) / 10)) (d_of_nat 1000)))"

lemma read_time:
  assumes n: "rint_even (d_val d * 10) = int n"
    and x: "\<not> d_is_inf (d_round (of_nat n / 10))"
    and t: "to_u64 (d_mul (d_round (of_nat n / 10)) (d_of_nat 1000)) = Inr t"
    and small: "fits pre (pad_left (CHR '' '') w (show_fixed1 d))"
  shows "read_loop GET_TIME v (stream_at pre (pad_left (CHR '' '') w (show_fixed1 d) @ CHR '' '' # r)) =
     read_loop GET_TYPE
       (v\<lparr>tl_timeAux := Some (d_mul (d_round (of_nat n / 10)) (d_of_nat 1000)), tl_time := Some t\<rparr>)
       (stream_at (pre @ pad_left (CHR '' '') w (show_fixed1 d)) (CHR '' '' # r))"
proof -
  let ?ip = "show_digits 10 (n div 10)" and ?fp = "[digit_char (n mod 10)]"
  let ?pre = "pre @ replicate (w - length (show_fixed1 d)) (CHR '' '')"
  obtain c ds where c: "?ip = c # ds" using show_digits_not_Nil by (cases ?ip) auto
  have dig: "is_digit 10 c" if "c \<in> set (?ip @ ?fp)" for c
    using that show_digits_digits [of 10 c "n div 10"] by (auto simp: is_digit_char)
  have "extract_double (stream_at ?pre ([] @ ?ip @ CHR ''.'' # ?fp @ CHR '' '' # r)) =
      (Some (d_round (of_nat n / 10)), stream_at (?pre @ [] @ ?ip @ CHR ''.'' # ?fp) (CHR '' '' # r))"
    using dig x by (intro extract_double_at)
      (simp_all add: show_fixed1_digits(2) [OF n] is_digit_def digit_value_def to_lower_def)
  then have "read_field GET_TIME c v (stream_at ?pre (c # (ds @ CHR ''.'' # ?fp @ CHR '' '' # r))) =
      Inr (GET_TIME, v\<lparr>tl_timeAux := Some (d_mul (d_round (of_nat n / 10)) (d_of_nat 1000)), tl_time := Some t\<rparr>,
        stream_at (?pre @ ?ip @ CHR ''.'' # ?fp) (CHR '' '' # r))"
    using t by (simp add: c or_keep_def Let_def)
  from read_loop_field [OF _ this] show ?thesis
    using dig [of c] digit_begins [of 10 c] c small
    by (simp add: pad_left_def read_loop_spaces show_fixed1_digits(1) [OF n] fits_def)
qed

lemma read_type:
  assumes small: "fits pre (pad_left (CHR '' '') w ''Rx'')"
  shows "read_loop GET_TYPE v (stream_at pre (pad_left (CHR '' '') w ''Rx'' @ r)) =
     read_loop GET_ID (v\<lparr>tl_type := tl_type v @ ''Rx''\<rparr>) (stream_at (pre @ pad_left (CHR '' '') w ''Rx'') r)"
proof -
  let ?pre = "pre @ replicate (w - 2) (CHR '' '')"
  have "read_field GET_TYPE (CHR ''R'') v (stream_at ?pre (CHR ''R'' # (CHR ''x'' # r))) =
      Inr (GET_TYPE, v\<lparr>tl_type := tl_type v @ ''Rx''\<rparr>, stream_at (?pre @ ''Rx'') r)"
    by (simp add: stream_get_into_at)
  from read_loop_field [OF _ this] show ?thesis using small by (simp add: pad_left_def read_loop_spaces numeral_2_eq_2 fits_def)
qed

lemma read_id:
  assumes small: "fits pre (pad_left (CHR '' '') w (show_hex_upper w' (unat n)))"
  shows "read_loop GET_ID v (stream_at pre (pad_left (CHR '' '') w (show_hex_upper w' (unat n)) @ CHR '' '' # r)) =
     read_loop GET_LENGTH (v\<lparr>tl_id := Some n\<rparr>)
       (stream_at (pre @ pad_left (CHR '' '') w (show_hex_upper w' (unat n))) (CHR '' '' # r))"
proof -
  let ?ds = "show_hex_upper w' (unat n)" and ?k = "w - length (show_hex_upper w' (unat n))"
  let ?pre = "pre @ replicate ?k (CHR '' '')"
  obtain d ds where d: "?ds = d # ds" using hex_upper_digits(3) by (cases ?ds) auto
  have dig: "is_digit 16 c" if "c \<in> set ?ds" for c using that by (rule hex_upper_digits(1))
  have e: "extract_u32 16 (stream_at ?pre (?ds @ CHR '' '' # r)) = (Some n, stream_at (?pre @ ?ds) (CHR '' '' # r))"
    using extract_printed [of ?ds 16 n "CHR '' ''" "[]" ?pre r] dig by (simp add: hex_upper_digits)
  have "read_field GET_ID d v (stream_at ?pre (d # (ds @ CHR '' '' # r))) =
      Inr (GET_ID, v\<lparr>tl_id := Some n\<rparr>, stream_at (?pre @ ?ds) (CHR '' '' # r))"
    using e by (simp add: d or_keep_def)
  from read_loop_field [OF _ this] show ?thesis
    using dig [of d] digit_begins [of 16 d] small by (simp add: pad_left_def read_loop_spaces d fits_def)
qed


lemma read_length:
  assumes "unat n < 10" and small: "fits pre (pad_left (CHR '' '') w (show_digits 10 (unat n)))"
  shows "read_loop GET_LENGTH v (stream_at pre (pad_left (CHR '' '') w (show_digits 10 (unat n)) @ CHR '' '' # r)) =
     read_loop GET_DATA (v\<lparr>tl_length := Some n\<rparr>)
       (stream_at (pre @ pad_left (CHR '' '') w (show_digits 10 (unat n))) (CHR '' '' # r))"
proof -
  let ?ds = "show_digits 10 (unat n)" and ?k = "w - length (show_digits 10 (unat n))"
  let ?pre = "pre @ replicate ?k (CHR '' '')"
  have same: "?ds = show_digits 16 (unat n)" using assms(1) by (simp add: show_digits.simps)
  obtain d ds where d: "?ds = d # ds" using show_digits_not_Nil by (cases ?ds) auto
  have dig: "is_digit 16 c" if "c \<in> set ?ds" for c
    using that unfolding same by (rule show_digits_digits [rotated 2]) simp_all
  have e: "extract_u32 16 (stream_at ?pre (?ds @ CHR '' '' # r)) = (Some n, stream_at (?pre @ ?ds) (CHR '' '' # r))"
    using extract_printed [of ?ds 16 n "CHR '' ''" "[]" ?pre r] dig by (simp add: same show_digits_value)
  have "read_field GET_LENGTH d v (stream_at ?pre (d # (ds @ CHR '' '' # r))) =
      Inr (GET_LENGTH, v\<lparr>tl_length := Some n\<rparr>, stream_at (?pre @ ?ds) (CHR '' '' # r))"
    using e by (simp add: d or_keep_def)
  from read_loop_field [OF _ this] show ?thesis
    using dig [of d] digit_begins [of 16 d] small by (simp add: pad_left_def read_loop_spaces d fits_def)
qed

text \<open>The bytes of the data, each with the space after it.\<close>

abbreviation (input) hex_bytes :: "bytes \<Rightarrow> string" where
  "hex_bytes data \<equiv> concat (map (\<lambda>octet. show_hex_upper 2 (unat octet) @ '' '') data)"

lemma read_octet:
  assumes "tl_length v = Some n" and small: "fits pre (show_hex_upper 2 (unat b))"
  shows "read_loop GET_DATA v (stream_at pre (show_hex_upper 2 (unat b) @ CHR '' '' # r)) =
     read_loop (if length (tl_data v) + 1 < unat n then GET_DATA else GET_END)
       (v\<lparr>tl_dataAux := Some (ucast b), tl_data := tl_data v @ [b]\<rparr>)
       (stream_at (pre @ show_hex_upper 2 (unat b) @ '' '') r)"
proof -
  let ?ds = "show_hex_upper 2 (unat b)" and ?b = "ucast b :: u32"
  obtain d ds where d: "?ds = d # ds" using hex_upper_digits(3) by (cases ?ds) auto
  have dig: "is_digit 16 c" if "c \<in> set ?ds" for c using that by (rule hex_upper_digits(1))
  have b: "uint ?b = uint b" by (simp add: uint_up_ucast is_up)
  have same: "ucast ?b = b" by (rule bit_word_eqI) (simp add: bit_simps)
  have "uint b < 256" using unsigned_less [of b, where ?'a = int] by simp
  then have le: "?b \<le> 0xFF" by (simp add: word_le_def b)
  have e: "extract_u32 16 (stream_at pre (?ds @ CHR '' '' # r)) = (Some ?b, stream_at (pre @ ?ds) (CHR '' '' # r))"
    using extract_printed [of ?ds 16 ?b "CHR '' ''" "[]" pre r] dig by (simp add: hex_upper_digits b)
  have "read_field GET_DATA d v (stream_at pre (d # (ds @ CHR '' '' # r))) =
      Inr (if length (tl_data v) + 1 < unat n then GET_LENGTH else GET_DATA,
        v\<lparr>tl_dataAux := Some ?b, tl_data := tl_data v @ [b]\<rparr>, stream_at (pre @ ?ds) (CHR '' '' # r))"
    using e le assms by (simp add: d or_keep_def Let_def same)
  from read_loop_field [OF _ this] show ?thesis
    using dig [of d] digit_begins [of 16 d] read_loop_spaces [of _ _ "pre @ ?ds" 1 r] small by (auto simp: d fits_def)
qed

lemma read_data:
  assumes "tl_length v = Some n" and "data \<noteq> []" and "length (tl_data v) + length data = unat n"
    and "fits pre (hex_bytes data)"
  shows "\<exists>aux. read_loop GET_DATA v (stream_at pre (hex_bytes data @ CHR 0x0A # r)) =
    Inr (GET_END, v\<lparr>tl_dataAux := aux, tl_data := tl_data v @ data\<rparr>,
      stream_at (pre @ hex_bytes data @ [CHR 0x0A]) r)"
  using assms
proof (induction data arbitrary: v pre)
  case (Cons b data)
  have octet: "read_loop GET_DATA v (stream_at pre (show_hex_upper 2 (unat b) @ CHR '' '' # hex_bytes data @ CHR 0x0A # r)) =
     read_loop (if length (tl_data v) + 1 < unat n then GET_DATA else GET_END)
       (v\<lparr>tl_dataAux := Some (ucast b), tl_data := tl_data v @ [b]\<rparr>)
       (stream_at (pre @ show_hex_upper 2 (unat b) @ '' '') (hex_bytes data @ CHR 0x0A # r))"
    using Cons.prems(1,4) by (intro read_octet) (simp_all add: fits_def)
  show ?case
  proof (cases data)
    case Nil
    with octet Cons.prems show ?thesis by (auto simp: read_loop_newline)
  next
    case (Cons b' data')
    with octet Cons.prems Cons.IH [of "v\<lparr>tl_dataAux := Some (ucast b), tl_data := tl_data v @ [b]\<rparr>"
        "pre @ show_hex_upper 2 (unat b) @ '' ''"]
    show ?thesis by auto
  qed
qed simp


section \<open>The error of a time stamp\<close>

text \<open>What a time stamp is in microseconds when the milliseconds of its seconds are taken in 32 bits.\<close>

definition trc_micros :: "TimeStamp \<Rightarrow> int" where
  "trc_micros ts = uint (mSeconds ts * 1000) * 1000 + uint (mMicroSec ts)"

lemma millis_near:
  assumes A: "A < 2 ^ 32" and us: "us < 2 ^ 32"
  obtains y where "d_add (d_of_nat A) (d_div (d_of_nat us) (d_of_nat 1000)) = Fin y" "0 \<le> y"
    "\<bar>1000 * y - (of_nat A * 1000 + of_nat us)\<bar> < 1 / 1000" "y < 2 ^ 33"
proof -
  have exact: "d_of_nat A = Fin (of_nat A)" "d_of_nat us = Fin (of_nat us)" "d_of_nat 1000 = Fin 1000"
    using A us d_of_nat_exact [of A] d_of_nat_exact [of us] d_of_nat_exact [of 1000] by simp_all
  have q: "(of_nat us :: rat) / 1000 < 2 ^ 23" and a: "(of_nat A :: rat) < 2 ^ 32"
    using A us of_nat_less_iff [of us "2 ^ 32", where ?'a = rat] of_nat_less_iff [of A "2 ^ 32", where ?'a = rat]
    by simp_all
  have lit: "(of_nat us :: rat) / 1000 < 8388608" "(of_nat A :: rat) < 4294967296" using q a by simp_all
  obtain z where z: "d_div (Fin (of_nat us)) (Fin 1000) = Fin z" "0 \<le> z" "\<bar>z - of_nat us / 1000\<bar> \<le> 2 powi (- 31)"
    by (rule d_div_near [OF _ _ q]) simp_all
  have z': "z - of_nat us / 1000 \<le> 1 / 2147483648" "of_nat us / 1000 - z \<le> 1 / 2147483648"
    using abs_le_D1 [OF z(3)] abs_le_D2 [OF z(3)] by (simp_all add: power_int_minus)
  have "of_nat A + z < (8589934592 :: rat)" "0 \<le> of_nat A + z"
    using z' lit z(2) by (linarith, linarith)
  then have sum: "of_nat A + z < (2 ^ 33 :: rat)" "0 \<le> of_nat A + z" by simp_all
  obtain y where y: "d_round (of_nat A + z) = Fin y" "0 \<le> y" "\<bar>y - (of_nat A + z)\<bar> \<le> 2 powi (- 21)"
    by (rule d_round_near [OF sum(2,1)]) simp_all
  have y': "y - (of_nat A + z) \<le> 1 / 2097152" "of_nat A + z - y \<le> 1 / 2097152"
    using abs_le_D1 [OF y(3)] abs_le_D2 [OF y(3)] by (simp_all add: power_int_minus)
  show thesis
  proof (rule that)
    show "d_add (d_of_nat A) (d_div (d_of_nat us) (d_of_nat 1000)) = Fin y" by (simp only: exact z(1) d_add.simps d_val.simps y(1))
    show "\<bar>1000 * y - (of_nat A * 1000 + of_nat us)\<bar> < 1 / 1000" using z' y' by linarith
    have "y < 8589934592" using y' z' lit by linarith
    then show "y < 2 ^ 33" by simp
  qed (rule y(2))
qed

lemma trc_time_near:
  obtains y where "trc_time ts = Fin y" "0 \<le> y" "\<bar>1000 * y - of_int (trc_micros ts)\<bar> < 1 / 1000" "y < 2 ^ 33"
proof -
  have b: "unat (mSeconds ts * 1000) < 2 ^ 32" "unat (mMicroSec ts) < 2 ^ 32"
    using unsigned_less [of "mSeconds ts * 1000", where ?'a = nat] unsigned_less [of "mMicroSec ts", where ?'a = nat]
    by simp_all
  have "(of_int (trc_micros ts) :: rat) = of_nat (unat (mSeconds ts * 1000)) * 1000 + of_nat (unat (mMicroSec ts))"
    by (simp add: trc_micros_def)
  then show thesis using millis_near [OF b] that unfolding trc_time_def by metis
qed

lemma trc_reread_near:
  obtains n t where "rint_even (d_val (trc_time ts) * 10) = int n" "\<not> d_is_inf (d_round (of_nat n / 10))"
    "to_u64 (d_mul (d_round (of_nat n / 10)) (d_of_nat 1000)) = Inr t" "t = trc_reread ts"
    "trc_micros ts - 51 \<le> uint t" "uint t \<le> trc_micros ts + 50"
proof -
  obtain y where y: "trc_time ts = Fin y" "0 \<le> y" "\<bar>1000 * y - of_int (trc_micros ts)\<bar> < 1 / 1000" "y < 2 ^ 33"
    by (rule trc_time_near)
  define n where "n = nat (rint_even (y * 10))"
  have n: "rint_even (y * 10) = int n" using y(2) by (simp add: n_def rint_even_nonneg)
  have near: "\<bar>of_nat n - y * 10\<bar> \<le> 1 / 2" using rint_even_near [of "y * 10"] by (simp add: n)
  then have "of_nat n - y * 10 \<le> 1 / 2" by (rule abs_le_D1)
  with y(4) have q: "(of_nat n :: rat) / 10 < 2 ^ 34" by (simp del: of_nat_less_iff)
  obtain z where z: "d_round (of_nat n / 10) = Fin z" "0 \<le> z" "\<bar>z - of_nat n / 10\<bar> \<le> 2 powi (- 20)"
    by (rule d_round_near [OF _ q]) simp_all
  have z': "z - of_nat n / 10 \<le> 1 / 1048576" "of_nat n / 10 - z \<le> 1 / 1048576"
    using abs_le_D1 [OF z(3)] abs_le_D2 [OF z(3)] by (simp_all add: power_int_minus)
  have qlit: "(of_nat n :: rat) / 10 < 17179869184" using q by simp
  with z' have "z * 1000 < 17592186044416" by linarith
  then have zq: "z * 1000 < 2 ^ 44" by simp
  obtain w where w: "d_mul (Fin z) (Fin 1000) = Fin w" "0 \<le> w" "\<bar>w - z * 1000\<bar> \<le> 2 powi (- 10)"
    by (rule d_mul_near [OF z(2) _ zq]) simp_all
  have w': "w - z * 1000 \<le> 1 / 1024" "z * 1000 - w \<le> 1 / 1024"
    using abs_le_D1 [OF w(3)] abs_le_D2 [OF w(3)] by (simp_all add: power_int_minus)
  have close: "\<bar>w - of_int (trc_micros ts)\<bar> < 501 / 10" using w' z' near y(3) by linarith
  have wlt: "w < 2 ^ 45" using w' zq by simp
  have tr: "d_trunc (Fin w) = \<lfloor>w\<rfloor>" using w(2) by (simp add: d_trunc_def)
  have fl: "0 \<le> \<lfloor>w\<rfloor>" "\<lfloor>w\<rfloor> < 2 ^ 64" using w(2) wlt by (simp_all add: floor_less_iff)
  let ?t = "word_of_int \<lfloor>w\<rfloor> :: u64"
  have u: "uint ?t = \<lfloor>w\<rfloor>" using fl by (simp add: unsigned_of_int take_bit_int_eq_self)
  have thousand: "d_of_nat 1000 = Fin 1000" using d_of_nat_exact [of 1000] by simp
  show thesis
  proof (rule that [of n ?t])
    show "rint_even (d_val (trc_time ts) * 10) = int n" using n by (simp add: y(1))
    show "\<not> d_is_inf (d_round (of_nat n / 10))" by (simp add: z(1) d_is_inf_def)
    show "to_u64 (d_mul (d_round (of_nat n / 10)) (d_of_nat 1000)) = Inr ?t"
      using fl by (simp add: z(1) w(1) thousand to_u64_def d_is_inf_def tr)
    show "?t = trc_reread ts"
      by (simp add: trc_reread_def y(1) n z(1) w(1) thousand tr)
    show "trc_micros ts - 51 \<le> uint ?t"
    proof -
      have "w < of_int \<lfloor>w\<rfloor> + 1" by linarith
      with close have "(of_int (trc_micros ts) :: rat) - 52 < of_int \<lfloor>w\<rfloor>" by linarith
      then have "(of_int (trc_micros ts - 52) :: rat) < of_int \<lfloor>w\<rfloor>" by simp
      then show ?thesis unfolding u of_int_less_iff by simp
    qed
    show "uint ?t \<le> trc_micros ts + 50"
    proof -
      have "of_int \<lfloor>w\<rfloor> \<le> w" by linarith
      with close have "(of_int \<lfloor>w\<rfloor> :: rat) < of_int (trc_micros ts) + 51" by linarith
      then have "(of_int \<lfloor>w\<rfloor> :: rat) < of_int (trc_micros ts + 51)" by simp
      then show ?thesis unfolding u of_int_less_iff by simp
    qed
  qed
qed


section \<open>Lines\<close>

text \<open>Up to the data, every line is read the same way.\<close>

lemma read_line_start:
  assumes "length data < 10"
  obtains aux where
    "\<And>pre r. fits pre (trc_write_line counter \<lparr>cf_mExtendedFormat = e, cf_mId = i, cf_mData = data\<rparr> ts) \<Longrightarrow>
     read_loop GET_POSITION fresh_line (stream_at pre
       (trc_write_line counter \<lparr>cf_mExtendedFormat = e, cf_mId = i, cf_mData = data\<rparr> ts @ r)) =
     read_loop GET_DATA
       \<lparr>tl_position = Some counter, tl_time = Some (trc_reread ts), tl_timeAux = aux, tl_type = ''Rx'', tl_id = Some i,
        tl_length = Some (word_of_nat (length data)), tl_dataAux = None, tl_data = []\<rparr>
       (stream_at (pre @ pad_left (CHR '' '') 8 (show_digits 10 (unat counter) @ '')'')
          @ pad_left (CHR '' '') 12 (show_fixed1 (trc_time ts)) @ pad_left (CHR '' '') 4 ''Rx''
          @ pad_left (CHR '' '') 13 (show_hex_upper 8 (unat i))
          @ pad_left (CHR '' '') 3 (show_digits 10 (length data)) @ ''  '')
         (hex_bytes data @ CHR 0x0A # r))"
proof -
  obtain n t where n: "rint_even (d_val (trc_time ts) * 10) = int n" "\<not> d_is_inf (d_round (of_nat n / 10))"
    "to_u64 (d_mul (d_round (of_nat n / 10)) (d_of_nat 1000)) = Inr t" "t = trc_reread ts"
    by (rule trc_reread_near)
  let ?n = "word_of_nat (length data) :: u32"
  have len: "unat ?n = length data" using assms by (simp add: unsigned_of_nat take_bit_nat_eq_self)
  then have small: "unat ?n < 10" using assms by simp
  have one: "length (show_digits 10 (length data)) = 1" using assms by (simp add: show_digits.simps)
  have rx: "pad_left (CHR '' '') 4 ''Rx'' = CHR '' '' # '' Rx''" by (simp add: pad_left_def numeral_2_eq_2)
  have l: "pad_left (CHR '' '') 3 (show_digits 10 (length data)) = CHR '' '' # CHR '' '' # show_digits 10 (length data)"
    using one by (simp add: pad_left_def numeral_2_eq_2)
  show thesis
  proof (rule that [of "Some (d_mul (d_round (of_nat n / 10)) (d_of_nat 1000))"])
    fix pre r
    assume fits: "fits pre (trc_write_line counter \<lparr>cf_mExtendedFormat = e, cf_mId = i, cf_mData = data\<rparr> ts)"
    let ?p1 = "pad_left (CHR '' '') 8 (show_digits 10 (unat counter) @ '')'')"
    let ?p2 = "pad_left (CHR '' '') 12 (show_fixed1 (trc_time ts))"
    let ?p3 = "pad_left (CHR '' '') 4 ''Rx''" and ?p4 = "pad_left (CHR '' '') 13 (show_hex_upper 8 (unat i))"
    let ?p5 = "pad_left (CHR '' '') 3 (show_digits 10 (length data))"
    let ?d = "hex_bytes data @ CHR 0x0A # r"
    show "read_loop GET_POSITION fresh_line (stream_at pre
        (trc_write_line counter \<lparr>cf_mExtendedFormat = e, cf_mId = i, cf_mData = data\<rparr> ts @ r)) =
      read_loop GET_DATA
        \<lparr>tl_position = Some counter, tl_time = Some (trc_reread ts),
         tl_timeAux = Some (d_mul (d_round (of_nat n / 10)) (d_of_nat 1000)), tl_type = ''Rx'', tl_id = Some i,
         tl_length = Some (word_of_nat (length data)), tl_dataAux = None, tl_data = []\<rparr>
        (stream_at (pre @ ?p1 @ ?p2 @ ?p3 @ ?p4 @ ?p5 @ ''  '') ?d)"
      using read_position [where v = fresh_line and pre = pre and w = 8 and n = counter and r = "?p2 @ ?p3 @ ?p4 @ ?p5 @ ''  '' @ ?d"]
        read_time [OF n(1,2,3), where v = "fresh_line\<lparr>tl_position := Some counter\<rparr>" and pre = "pre @ ?p1" and w = 12
          and r = "'' Rx'' @ ?p4 @ ?p5 @ ''  '' @ ?d"]
        read_type [where v = "fresh_line\<lparr>tl_position := Some counter,
            tl_timeAux := Some (d_mul (d_round (of_nat n / 10)) (d_of_nat 1000)), tl_time := Some t\<rparr>"
          and pre = "pre @ ?p1 @ ?p2" and w = 4 and r = "?p4 @ ?p5 @ ''  '' @ ?d"]
        read_id [where v = "fresh_line\<lparr>tl_position := Some counter,
            tl_timeAux := Some (d_mul (d_round (of_nat n / 10)) (d_of_nat 1000)), tl_time := Some t, tl_type := ''Rx''\<rparr>"
          and pre = "pre @ ?p1 @ ?p2 @ ?p3" and w = 13 and w' = 8 and n = i
          and r = "CHR '' '' # show_digits 10 (length data) @ ''  '' @ ?d"]
        read_length [OF small, where v = "fresh_line\<lparr>tl_position := Some counter,
            tl_timeAux := Some (d_mul (d_round (of_nat n / 10)) (d_of_nat 1000)), tl_time := Some t, tl_type := ''Rx'',
            tl_id := Some i\<rparr>"
          and pre = "pre @ ?p1 @ ?p2 @ ?p3 @ ?p4" and w = 3 and r = "CHR '' '' # ?d"]
        read_loop_spaces [of GET_DATA _ "pre @ ?p1 @ ?p2 @ ?p3 @ ?p4 @ ?p5" 2 ?d]
      fits
      by (simp add: trc_write_line_def fresh_line_def len rx l n(4) numeral_2_eq_2 fits_def)
  qed
qed


text \<open>A line with data is read back; one without data is not.\<close>

definition reread_frame :: "CanFrame \<Rightarrow> TimeStamp \<Rightarrow> u64 \<times> CanFrame" where
  "reread_frame f ts = (trc_reread ts, f\<lparr>cf_mExtendedFormat := True\<rparr>)"

lemma readNextLine_written:
  assumes s: "tr_mFileStream q = stream_at pre (trc_write_line counter f ts @ r)"
    and fits: "fits pre (trc_write_line counter f ts)"
    and len: "1 \<le> length (cf_mData f)" "length (cf_mData f) \<le> 8"
  shows "readNextLine q = Inr (False, False,
    q\<lparr>tr_mFileStream := stream_at (pre @ trc_write_line counter f ts) r, tr_mCurrentPos := unat (counter - 1),
      tr_mLast := reread_frame f ts\<rparr>)"
proof -
  obtain e i data where f: "f = \<lparr>cf_mExtendedFormat = e, cf_mId = i, cf_mData = data\<rparr>" by (cases f)
  from len f have data: "length data < 10" "data \<noteq> []" "length data \<le> 8" by auto
  obtain aux where start: "\<And>pre r. fits pre (trc_write_line counter \<lparr>cf_mExtendedFormat = e, cf_mId = i, cf_mData = data\<rparr> ts) \<Longrightarrow>
     read_loop GET_POSITION fresh_line (stream_at pre
       (trc_write_line counter \<lparr>cf_mExtendedFormat = e, cf_mId = i, cf_mData = data\<rparr> ts @ r)) =
     read_loop GET_DATA
       \<lparr>tl_position = Some counter, tl_time = Some (trc_reread ts), tl_timeAux = aux, tl_type = ''Rx'', tl_id = Some i,
        tl_length = Some (word_of_nat (length data)), tl_dataAux = None, tl_data = []\<rparr>
       (stream_at (pre @ pad_left (CHR '' '') 8 (show_digits 10 (unat counter) @ '')'')
          @ pad_left (CHR '' '') 12 (show_fixed1 (trc_time ts)) @ pad_left (CHR '' '') 4 ''Rx''
          @ pad_left (CHR '' '') 13 (show_hex_upper 8 (unat i))
          @ pad_left (CHR '' '') 3 (show_digits 10 (length data)) @ ''  '')
         (hex_bytes data @ CHR 0x0A # r))"
    using read_line_start [OF data(1)] by blast
  have n: "unat (word_of_nat (length data) :: u32) = length data"
    using data(1) by (simp add: unsigned_of_nat take_bit_nat_eq_self)
  let ?v = "\<lparr>tl_position = Some counter, tl_time = Some (trc_reread ts), tl_timeAux = aux, tl_type = ''Rx'',
     tl_id = Some i, tl_length = Some (word_of_nat (length data)), tl_dataAux = None, tl_data = []\<rparr>"
  obtain aux' where d: "\<And>pre. fits pre (hex_bytes data) \<Longrightarrow>
    read_loop GET_DATA ?v (stream_at pre (hex_bytes data @ CHR 0x0A # r)) =
    Inr (GET_END, ?v\<lparr>tl_dataAux := aux' pre, tl_data := data\<rparr>, stream_at (pre @ hex_bytes data @ [CHR 0x0A]) r)"
    using read_data [of ?v "word_of_nat (length data)" data _ r] data(2) n by simp metis
  let ?l = "trc_write_line counter \<lparr>cf_mExtendedFormat = e, cf_mId = i, cf_mData = data\<rparr> ts"
  have f1: "fits pre ?l" using fits f by simp
  then have f2: "fits (pre @ pad_left (CHR '' '') 8 (show_digits 10 (unat counter) @ '')'')
      @ pad_left (CHR '' '') 12 (show_fixed1 (trc_time ts)) @ pad_left (CHR '' '') 4 ''Rx''
      @ pad_left (CHR '' '') 13 (show_hex_upper 8 (unat i)) @ pad_left (CHR '' '') 3 (show_digits 10 (length data)) @ ''  '')
      (hex_bytes data)"
    by (simp add: trc_write_line_def fits_def)
  have "\<exists>aux'. read_loop GET_POSITION fresh_line (stream_at pre (?l @ r)) =
      Inr (GET_END, ?v\<lparr>tl_dataAux := aux', tl_data := data\<rparr>, stream_at (pre @ ?l) r)"
    by (simp only: start [OF f1] d [OF f2]) (simp add: trc_write_line_def)
  then show ?thesis
    using data(3) n
    by (auto simp: readNextLine_def s f Let_def reread_frame_def CanFrame_of_def cf_setData_def)
qed

lemma readNextLine_no_data:
  assumes s: "tr_mFileStream q = stream_at pre (trc_write_line counter f ts @ r)"
    and "cf_mData f = []" and "fits pre (trc_write_line counter f ts)"
  shows "\<exists>q'. readNextLine q = Inr (True, False, q')"
proof -
  obtain e i where f: "f = \<lparr>cf_mExtendedFormat = e, cf_mId = i, cf_mData = []\<rparr>" using assms(2) by (cases f) simp
  obtain aux where start: "\<And>pre r. fits pre (trc_write_line counter \<lparr>cf_mExtendedFormat = e, cf_mId = i, cf_mData = []\<rparr> ts) \<Longrightarrow>
     read_loop GET_POSITION fresh_line (stream_at pre
       (trc_write_line counter \<lparr>cf_mExtendedFormat = e, cf_mId = i, cf_mData = []\<rparr> ts @ r)) =
     read_loop GET_DATA
       \<lparr>tl_position = Some counter, tl_time = Some (trc_reread ts), tl_timeAux = aux, tl_type = ''Rx'', tl_id = Some i,
        tl_length = Some (word_of_nat (length ([] :: bytes))), tl_dataAux = None, tl_data = []\<rparr>
       (stream_at (pre @ pad_left (CHR '' '') 8 (show_digits 10 (unat counter) @ '')'')
          @ pad_left (CHR '' '') 12 (show_fixed1 (trc_time ts)) @ pad_left (CHR '' '') 4 ''Rx''
          @ pad_left (CHR '' '') 13 (show_hex_upper 8 (unat i))
          @ pad_left (CHR '' '') 3 (show_digits 10 (length ([] :: bytes))) @ ''  '')
         (hex_bytes [] @ CHR 0x0A # r))"
    using read_line_start [of "[]"] by (metis length_0_conv zero_less_numeral)
  then show ?thesis using assms(3) by (simp add: readNextLine_def s f Let_def read_loop_newline)
qed

lemma readNextLine_finished:
  assumes "tr_mFileStream q = stream_at pre []"
  obtains q' where "readNextLine q = Inr (False, True, q')" "st_eof (tr_mFileStream q')"
    "tr_mCurrentPos q' = tr_mCurrentPos q"
proof -
  have st_to: "st_to [] (stream_at pre []) = stream_at pre []" by (simp add: st_to_def stream_at_def)
  show thesis
    by (rule that [of "snd (snd (projr (readNextLine q)))"]) (simp_all add: assms st_to readNextLine_def read_loop.simps line_step_def stream_get_def)
qed

section \<open>Files\<close>

text \<open>The lengths of lines.\<close>

lemma show_digits_length: "2 \<le> base \<Longrightarrow> 1 \<le> k \<Longrightarrow> n < base ^ k \<Longrightarrow> length (show_digits base n) \<le> k"
proof (induction k arbitrary: n)
  case (Suc k)
  show ?case
  proof (cases "n < base")
    case True
    then show ?thesis using Suc.prems by (subst show_digits.simps) simp
  next
    case False
    then have "1 \<le> k" using Suc.prems by (cases k) simp_all
    moreover have "n div base < base ^ k" using Suc.prems by (simp add: less_mult_imp_div_less mult.commute)
    ultimately show ?thesis using Suc False by (subst show_digits.simps) simp
  qed
qed simp

lemma pad_left_length [simp]: "length (pad_left c n str) = max n (length str)"
  by (simp add: pad_left_def)

lemma hex_upper_length: "1 \<le> k \<Longrightarrow> n < 16 ^ k \<Longrightarrow> length (show_hex_upper k n) = k"
  using show_digits_length [of 16 k n] by (simp add: show_hex_upper_def)

lemma hex_octet_length: "length (show_hex_upper 2 (unat (b :: u8))) = 2"
  using hex_upper_length [of 2 "unat b"] unsigned_less [of b, where ?'a = nat] by simp

lemma trc_time_length: "length (show_fixed1 (trc_time ts)) \<le> 12"
proof -
  obtain y where y: "trc_time ts = Fin y" "0 \<le> y" "y < 2 ^ 33" by (rule trc_time_near)
  define n where "n = nat (rint_even (y * 10))"
  have n: "rint_even (y * 10) = int n" using y(2) by (simp add: n_def rint_even_nonneg)
  have "\<bar>of_nat n - y * 10\<bar> \<le> 1 / 2" using rint_even_near [of "y * 10"] by (simp add: n)
  then have "of_nat n - y * 10 \<le> 1 / 2" by (rule abs_le_D1)
  with y(3) have "(of_nat n :: rat) < 100000000000" by simp
  then have "(of_nat n :: rat) < of_nat 100000000000" by simp
  then have "n < 100000000000" by (simp only: of_nat_less_iff)
  then have "n div 10 < 10 ^ 10" by simp
  then have "length (show_digits 10 (n div 10)) \<le> 10" by (intro show_digits_length) simp_all
  then show ?thesis using show_fixed1_digits(1) [of "trc_time ts" n] y(1) n by simp
qed

lemma hex_bytes_length: "length (hex_bytes data) = 3 * length data"
proof (induction data)
  case (Cons b data)
  then show ?case by (simp add: hex_octet_length)
qed simp

lemma trc_write_line_length: "length (cf_mData f) \<le> 8 \<Longrightarrow> length (trc_write_line counter f ts) \<le> 70"
proof -
  assume len: "length (cf_mData f) \<le> 8"
  have "unat counter < 10 ^ 10" "unat (cf_mId f) < 16 ^ 8"
    using unsigned_less [of counter, where ?'a = nat] unsigned_less [of "cf_mId f", where ?'a = nat] by simp_all
  then have "length (show_digits 10 (unat counter)) \<le> 10" "length (show_hex_upper 8 (unat (cf_mId f))) = 8"
    "length (show_digits 10 (length (cf_mData f))) \<le> 1"
    using len by (auto intro!: show_digits_length hex_upper_length)
  then show ?thesis
    using len trc_time_length [of ts] hex_bytes_length [of "cf_mData f"] by (simp add: trc_write_line_def)
qed

fun trc_lines :: "u32 \<Rightarrow> (CanFrame \<times> TimeStamp) list \<Rightarrow> string" where
  "trc_lines counter [] = []"
| "trc_lines counter ((f, ts) # fs) = trc_write_line (counter + 1) f ts @ trc_lines (counter + 1) fs"

definition trc_sized :: "CanFrame \<times> TimeStamp \<Rightarrow> bool" where
  "trc_sized p \<longleftrightarrow> 1 \<le> length (cf_mData (fst p)) \<and> length (cf_mData (fst p)) \<le> 8"

lemma trc_lines_length: "list_all (\<lambda>p. length (cf_mData (fst p)) \<le> 8) fs \<Longrightarrow> length (trc_lines c fs) \<le> 70 * length fs"
proof (induction fs arbitrary: c)
  case (Cons p fs)
  obtain f ts where p: "p = (f, ts)" by (cases p)
  with Cons.prems Cons.IH [of "c + 1"] trc_write_line_length [of f "c + 1" ts] show ?case by simp
qed simp

text \<open>So many frames make a file of less than 2 GB.\<close>

lemma trc_lines_fit:
  assumes "list_all (\<lambda>p. length (cf_mData (fst p)) \<le> 8) fs" and "length fs \<le> 30000000"
  shows "fits TRC_FILE_HEADER (trc_lines c fs)"
  using trc_lines_length [OF assms(1), of c] assms(2) by (simp add: fits_def TRC_FILE_HEADER_def)

lemma trc_lines_append:
  "trc_lines c (fs @ gs) = trc_lines c fs @ trc_lines (c + of_nat (length fs)) gs"
  by (induction fs arbitrary: c) (auto simp: add.assoc add.commute)

text \<open>The header is skipped with the first line.\<close>

lemma readNextLine_header:
  assumes "tr_mFileStream q = stream_open (TRC_FILE_HEADER @ r)"
  shows "readNextLine q = readNextLine (q\<lparr>tr_mFileStream := stream_at TRC_FILE_HEADER r\<rparr>)"
proof -
  have "read_loop GET_POSITION fresh_line (stream_open (TRC_FILE_HEADER @ r)) =
      read_loop GET_POSITION fresh_line (stream_at TRC_FILE_HEADER r)"
    using read_loop_comment [of "''$FILEVERSION=1.1''" GET_POSITION fresh_line "[]" "CHR '';'' # CHR 0x0A # r"]
      read_loop_comment [of "[]" GET_POSITION fresh_line "'';$FILEVERSION=1.1'' @ [CHR 0x0A]" r]
    by (simp add: stream_open_at TRC_FILE_HEADER_def)
  then show ?thesis by (simp add: readNextLine_def assms)
qed

lemma unat_next: "unat (c :: u32) + Suc n < 2 ^ 32 \<Longrightarrow> unat (c + 1) = unat c + 1"
  using unat_plus_no_overflow [of c 1] by simp

lemma checkIntegrity_written:
  assumes "tr_mFileStream q = stream_at pre (trc_lines c fs)" and "list_all trc_sized fs"
    and "unat c + length fs < 2 ^ 32" and "fits pre (trc_lines c fs)"
  shows "\<exists>t. checkIntegrity q = Some (Inr (True, t)) \<and>
    tr_mTotalFrames t = (if fs = [] then tr_mCurrentPos q + 1 else unat c + length fs)"
  using assms
proof (induction fs arbitrary: q pre c)
  case Nil
  then obtain q' where q': "readNextLine q = Inr (False, True, q')" "st_eof (tr_mFileStream q')"
      "tr_mCurrentPos q' = tr_mCurrentPos q"
    using readNextLine_finished [of q pre] by auto
  then have "checkIntegrity q' = Some (Inr (True, q'\<lparr>tr_mTotalFrames := tr_mCurrentPos q' + 1\<rparr>))"
    by (subst checkIntegrity.simps) simp
  with q' Nil show ?case by (subst checkIntegrity.simps) simp
next
  case (Cons p fs)
  obtain f ts where p: "p = (f, ts)" by (cases p)
  have next1: "unat (c + 1) = unat c + 1" using Cons.prems(3) by (intro unat_next) simp
  let ?q = "q\<lparr>tr_mFileStream := stream_at (pre @ trc_write_line (c + 1) f ts) (trc_lines (c + 1) fs),
    tr_mCurrentPos := unat c, tr_mLast := reread_frame f ts\<rparr>"
  have n: "readNextLine q = Inr (False, False, ?q)"
    using readNextLine_written [of q pre "c + 1" f ts "trc_lines (c + 1) fs"] Cons.prems p
    by (simp add: trc_sized_def fits_def)
  obtain t where "checkIntegrity ?q = Some (Inr (True, t))"
      "tr_mTotalFrames t = (if fs = [] then unat c + 1 else unat (c + 1) + length fs)"
    using Cons.IH [of ?q "pre @ trc_write_line (c + 1) f ts" "c + 1"] Cons.prems next1 p by auto
  then show ?case using n Cons.prems(1) next1 by (subst checkIntegrity.simps) simp
qed

lemma cap_loop_written:
  assumes "tr_mFileStream q = stream_at pre (trc_lines c fs)" and "list_all trc_sized fs" and "fs \<noteq> []"
    and "tr_mTotalFrames q = unat c + length fs" and "unat c + length fs < 2 ^ 32"
    and "fits pre (trc_lines c fs)"
  shows "cap_loop q written = Some (Inr (written @ map (\<lambda>(f, ts). cap_packet (reread_frame f ts)) fs))"
  using assms
proof (induction fs arbitrary: q pre c written)
  case (Cons p fs)
  obtain f ts where p: "p = (f, ts)" by (cases p)
  have next1: "unat (c + 1) = unat c + 1" using Cons.prems(5) by (intro unat_next) simp
  let ?q = "q\<lparr>tr_mFileStream := stream_at (pre @ trc_write_line (c + 1) f ts) (trc_lines (c + 1) fs),
    tr_mCurrentPos := unat c, tr_mLast := reread_frame f ts\<rparr>"
  have n: "readNextCanFrame q = Inr ?q"
    using readNextLine_written [of q pre "c + 1" f ts "trc_lines (c + 1) fs"] Cons.prems p
    by (simp add: trc_sized_def readNextCanFrame_def fits_def)
  show ?case
  proof (cases "fs = []")
    case True
    with n Cons.prems p show ?thesis by (subst cap_loop.simps) (simp add: Let_def)
  next
    case False
    then have "unat c < tr_mTotalFrames q - 1" using Cons.prems(4) by (cases fs) auto
    with n Cons.prems p next1 False
      Cons.IH [of ?q "pre @ trc_write_line (c + 1) f ts" "c + 1" "written @ [cap_packet (reread_frame f ts)]"]
    show ?thesis by (subst cap_loop.simps) (simp add: Let_def)
  qed
qed simp


lemma checkIntegrity_rejected:
  assumes "tr_mFileStream q = stream_at pre (trc_lines c (fs @ (f, ts) # rest))" and "list_all trc_sized fs"
    and "cf_mData f = []" and "fits pre (trc_lines c (fs @ [(f, ts)]))"
  shows "\<exists>t. checkIntegrity q = Some (Inr (False, t))"
  using assms
proof (induction fs arbitrary: q pre c)
  case Nil
  then obtain t where "readNextLine q = Inr (True, False, t)"
    using readNextLine_no_data [of q pre "c + 1" f ts "trc_lines (c + 1) rest"] by auto
  with Nil show ?case by (subst checkIntegrity.simps) simp
next
  case (Cons p fs)
  obtain g u where p: "p = (g, u)" by (cases p)
  let ?r = "trc_lines (c + 1) (fs @ (f, ts) # rest)"
  let ?q = "q\<lparr>tr_mFileStream := stream_at (pre @ trc_write_line (c + 1) g u) ?r,
    tr_mCurrentPos := unat c, tr_mLast := reread_frame g u\<rparr>"
  have n: "readNextLine q = Inr (False, False, ?q)"
    using readNextLine_written [of q pre "c + 1" g u ?r] Cons.prems p by (simp add: trc_sized_def fits_def)
  have "\<exists>t. checkIntegrity ?q = Some (Inr (False, t))"
    using Cons.IH [of ?q "pre @ trc_write_line (c + 1) g u" "c + 1"] Cons.prems p by simp
  then show ?case using n Cons.prems(1) by (subst checkIntegrity.simps) simp
qed

lemma checkIntegrity_header:
  assumes "tr_mFileStream q = stream_open (TRC_FILE_HEADER @ r)"
  shows "checkIntegrity q = checkIntegrity (q\<lparr>tr_mFileStream := stream_at TRC_FILE_HEADER r\<rparr>)"
  using readNextLine_header [OF assms] assms
  by (subst (1 2) checkIntegrity.simps) (simp add: stream_open_at)

lemma cap_loop_header:
  assumes "tr_mFileStream q = stream_open (TRC_FILE_HEADER @ r)"
  shows "cap_loop q written = cap_loop (q\<lparr>tr_mFileStream := stream_at TRC_FILE_HEADER r\<rparr>) written"
  using readNextLine_header [OF assms] assms
  by (subst (1 2) cap_loop.simps) (simp add: stream_open_at readNextCanFrame_def)

text \<open>The text of a recording.\<close>

lemma dumper_run_text:
  assumes "tw_mFileStream (du_writer d) = Some old" and "\<not> du_firstFrame d"
  shows "\<exists>d'. dumper_run fs d = Inr d' \<and> tw_mFileStream (du_writer d') = Some (old @
    trc_lines (tw_mCounter (du_writer d)) (map (\<lambda>(f, ts). (f, ts_minus ts (du_initialTimeStamp d))) fs))"
  using assms
proof (induction fs arbitrary: d old)
  case (Cons p fs)
  obtain f ts where p: "p = (f, ts)" by (cases p)
  let ?l = "trc_write_line (tw_mCounter (du_writer d) + 1) f (ts_minus ts (du_initialTimeStamp d))"
  let ?d = "d\<lparr>du_writer := \<lparr>tw_mFileStream = Some (old @ ?l), tw_mCounter = tw_mCounter (du_writer d) + 1\<rparr>\<rparr>"
  have "dumper_onRcv f ts d = Inr ?d"
    using Cons.prems by (simp add: dumper_onRcv_def trc_write_def Let_def)
  with Cons.prems p Cons.IH [of ?d "old @ ?l"] show ?case by simp
qed simp

definition relative_times :: "(CanFrame \<times> TimeStamp) list \<Rightarrow> (CanFrame \<times> TimeStamp) list" where
  "relative_times fs = map (\<lambda>(f, ts). (f, ts_minus ts (snd (hd fs)))) fs"

lemma dumper_records:
  "\<exists>d. dumper_run fs dumper_start = Inr d \<and>
     tw_mFileStream (du_writer d) = Some (TRC_FILE_HEADER @ trc_lines 0 (relative_times fs))"
proof (cases fs)
  case Nil
  then show ?thesis
    by (simp add: dumper_start_def trc_open_def trc_close_def TRCWriter_new_def relative_times_def)
next
  case (Cons p fs')
  obtain f ts where p: "p = (f, ts)" by (cases p)
  let ?d = "dumper_start\<lparr>du_initialTimeStamp := ts, du_firstFrame := False\<rparr>"
  have "dumper_run fs dumper_start = dumper_run fs ?d"
    by (simp add: Cons p dumper_onRcv_def dumper_start_def)
  with dumper_run_text [of ?d TRC_FILE_HEADER fs] show ?thesis
    by (simp add: dumper_start_def trc_open_def trc_close_def TRCWriter_new_def relative_times_def Cons p)
qed


text \<open>An empty file counts as one frame, which is converted.\<close>

lemma empty_file_has_a_frame:
  "trc_to_cap ext (c # input) (d # output) (Some []) same True =
    Some (Inr (0, [(0, 0, [if ext then 0x80 else 0, 0, 0, 0, 0, 0, 0, 0])]))"
proof -
  have st_to: "st_to [] (stream_at [] []) = stream_at [] []" by (simp add: st_to_def stream_at_def)
  have read: "readNextLine r = Inr (False, True,
      r\<lparr>tr_mFileStream := (stream_at [] [])\<lparr>st_eof := True, st_fail := True\<rparr>, tr_mLast := (0, cf_clear (snd (tr_mLast r)))\<rparr>)"
    if "tr_mFileStream r = stream_at [] []" for r
    by (cases r) (use that in \<open>simp add: st_to readNextLine_def read_loop.simps line_step_def stream_get_def\<close>)
  have reset: "stream_seekg 0 (stream_clear ((stream_at [] [])\<lparr>st_eof := True, st_fail := True\<rparr>)) = stream_at [] []"
    by (simp add: stream_seekg_def stream_clear_def stream_at_def)
  show ?thesis
    by (simp add: trc_to_cap_def trc_loadFile_def trc_unloadFile_def TRCReader_new_def stream_open_at Let_def
        checkIntegrity.simps read trc_rewind_def reset cap_loop.simps readNextCanFrame_def cap_packet_def cf_clear_def
        CanFrame_default_def)
qed

text \<open>The time that is read back for a time stamp whose milliseconds fit into 32 bits.\<close>

lemma reread_elapsed:
  assumes "ts_micros ts < 4294967000000"
  shows "ts_micros ts \<le> unat (trc_reread ts) + 51 \<and> unat (trc_reread ts) \<le> ts_micros ts + 50"
proof -
  have "unat (mSeconds ts) < 4294967" using assms by (simp add: ts_micros_def)
  then have "unat (mSeconds ts * 1000) = unat (mSeconds ts) * 1000" by (simp add: unat_word_ariths)
  moreover have "uint (mSeconds ts * 1000) = int (unat (mSeconds ts * 1000))" by simp
  ultimately have "uint (mSeconds ts * 1000) = int (unat (mSeconds ts) * 1000)" by (simp only:)
  then have "trc_micros ts = int (ts_micros ts)" by (simp add: trc_micros_def ts_micros_def)
  moreover have "trc_micros ts - 51 \<le> uint (trc_reread ts)" "uint (trc_reread ts) \<le> trc_micros ts + 50"
    using trc_reread_near by metis+
  moreover have "uint (trc_reread ts) = int (unat (trc_reread ts))" by simp
  ultimately show ?thesis by linarith
qed

section \<open>Properties\<close>

text \<open>What the converter makes of a recording.\<close>

lemma trc_loadFile_recording:
  assumes "list_all trc_sized fs" and "fs \<noteq> []" and "length fs \<le> 30000000" and "input \<noteq> []"
  obtains r where "trc_loadFile input (Some (TRC_FILE_HEADER @ trc_lines 0 fs)) r0 = Some (Inr (True, r))"
    "tr_mFileStream r = stream_open (TRC_FILE_HEADER @ trc_lines 0 fs)" "tr_mTotalFrames r = length fs"
proof -
  let ?c = "TRC_FILE_HEADER @ trc_lines 0 fs"
  let ?p = "(trc_unloadFile r0)\<lparr>tr_mFileName := input, tr_is_open := True, tr_mFileStream := stream_open ?c\<rparr>"
  have fits: "fits TRC_FILE_HEADER (trc_lines 0 fs)"
    using assms(1,3) by (intro trc_lines_fit) (auto simp: list_all_iff trc_sized_def)
  then have small: "length ?c < 2 ^ 31" by (simp add: fits_def)
  obtain t where t: "checkIntegrity ?p = Some (Inr (True, t))" "tr_mTotalFrames t = length fs"
    using checkIntegrity_header [of ?p "trc_lines 0 fs"] assms fits
      checkIntegrity_written [of "?p\<lparr>tr_mFileStream := stream_at TRC_FILE_HEADER (trc_lines 0 fs)\<rparr>" TRC_FILE_HEADER 0 fs]
    by auto
  then have load: "trc_loadFile input (Some ?c) r0 = Some (Inr (True, trc_reset t))"
    by (simp add: trc_loadFile_def Let_def)
  from load small obtain p t' where "tr_mFileStream (trc_reset t) = stream_open ?c" by (rule trc_loadFile_start)
  with t(2) show thesis by (intro that [OF load]) (simp_all add: trc_rewind_def Let_def)
qed

lemma recorded_packets:
  assumes "list_all trc_sized fs" and "fs \<noteq> []" and "length fs \<le> 30000000" and "input \<noteq> []" and "output \<noteq> []"
  shows "\<exists>d. dumper_run fs dumper_start = Inr d \<and>
    trc_to_cap ext input output (tw_mFileStream (du_writer d)) False True =
      Some (Inr (0, map (\<lambda>(f, ts). cap_packet (trc_reread (ts_minus ts (snd (hd fs))), f\<lparr>cf_mExtendedFormat := True\<rparr>)) fs))"
proof -
  let ?fs = "relative_times fs"
  obtain d where d: "dumper_run fs dumper_start = Inr d"
    "tw_mFileStream (du_writer d) = Some (TRC_FILE_HEADER @ trc_lines 0 ?fs)"
    using dumper_records by blast
  have fs: "list_all trc_sized ?fs" "?fs \<noteq> []" "length ?fs = length fs"
    using assms by (auto simp: relative_times_def list_all_iff trc_sized_def)
  obtain r where r: "trc_loadFile input (Some (TRC_FILE_HEADER @ trc_lines 0 ?fs)) (TRCReader_new ext) = Some (Inr (True, r))"
    "tr_mFileStream r = stream_open (TRC_FILE_HEADER @ trc_lines 0 ?fs)" "tr_mTotalFrames r = length fs"
    using trc_loadFile_recording [OF fs(1,2) _ assms(4)] assms(3) fs(3) by auto
  have "fits TRC_FILE_HEADER (trc_lines 0 ?fs)"
    using fs assms(3) by (intro trc_lines_fit) (auto simp: list_all_iff trc_sized_def)
  then have "cap_loop r [] = Some (Inr (map (\<lambda>(f, ts). cap_packet (reread_frame f ts)) ?fs))"
    using cap_loop_header [OF r(2)] r(3) fs assms(3)
      cap_loop_written [of "r\<lparr>tr_mFileStream := stream_at TRC_FILE_HEADER (trc_lines 0 ?fs)\<rparr>" TRC_FILE_HEADER 0 ?fs "[]"]
    by simp
  then show ?thesis
    using d r assms by (auto simp: trc_to_cap_def relative_times_def reread_frame_def split_beta)
qed

text \<open>C32: A recording is converted completely: for up to 30 million frames of 1 to 8 data bytes (so that the file has less
  than 2 GB), the file that TRCDumper writes is accepted by TRCToCap with another file as output, and its packets are
  those frames, in order, each as an extended frame and with the time of its reception relative to the first, as it
  can be read back from the file.\<close>

theorem recording_converted:
  assumes "list_all trc_sized fs" and "fs \<noteq> []" and "length fs \<le> 30000000" and "input \<noteq> []" and "output \<noteq> []"
  shows "\<exists>d. dumper_run fs dumper_start = Inr d \<and>
    trc_to_cap ext input output (tw_mFileStream (du_writer d)) False True =
      Some (Inr (0, map (\<lambda>(f, ts). cap_packet (trc_reread (ts_minus ts (snd (hd fs))), f\<lparr>cf_mExtendedFormat := True\<rparr>)) fs))"
  using assms by (rule recorded_packets)

theorem recording_converted_witness:
  "\<exists>d. dumper_run [(\<lparr>cf_mExtendedFormat = False, cf_mId = 0x18FEF100, cf_mData = [1, 0xAB]\<rparr>, TimeStamp 7 250000)] dumper_start = Inr d \<and>
    trc_to_cap False ''a.trc'' ''a.cap'' (tw_mFileStream (du_writer d)) False True =
      Some (Inr (0, [(0, 0, [0x98, 0xFE, 0xF1, 0, 2, 0, 0, 0, 1, 0xAB])]))"
proof -
  have z: "d_add (d_of_nat 0) (d_div (d_of_nat 0) (d_of_nat 1000)) = Fin 0"
    using d_of_nat_exact [of 0] d_of_nat_exact [of 1000]
    by (simp add: d_div_def d_is_zero_def d_is_inf_def d_signed_def d_zero_def d_round_def)
  have m: "d_mul (Fin 0) (d_of_nat 1000) = Fin 0"
    using d_of_nat_exact [of 1000] by (simp add: d_mul_def d_is_zero_def d_is_inf_def d_signed_def d_zero_def d_round_def)
  have t: "trc_reread (TimeStamp 0 0) = 0"
    by (simp add: trc_reread_def trc_time_def z rint_even_def d_round_def m d_trunc_def)
  show ?thesis
    using recording_converted [of "[(\<lparr>cf_mExtendedFormat = False, cf_mId = 0x18FEF100, cf_mData = [1, 0xAB]\<rparr>, TimeStamp 7 250000)]"
        "''a.trc''" "''a.cap''"]
    by (simp add: trc_sized_def ts_minus_def t cap_packet_def)
qed

text \<open>C35: The time of a frame survives recording and conversion with an error of at most 51 microseconds, of which 50 are
  due to the one decimal of the milliseconds: for up to 30 million frames of 1 to 8 bytes with valid time stamps, the
  packet of every frame received at most 4294967 seconds after the first has the time that passed since then.\<close>

theorem recorded_time_error:
  assumes "list_all trc_sized fs" and "fs \<noteq> []" and "length fs \<le> 30000000" and "input \<noteq> []" and "output \<noteq> []"
    and "\<forall>(f, ts) \<in> set fs. ts_normal ts"
  shows "\<exists>d packets. dumper_run fs dumper_start = Inr d
    \<and> trc_to_cap ext input output (tw_mFileStream (du_writer d)) False True = Some (Inr (0, packets)) \<and> length packets = length fs
    \<and> (\<forall>i < length fs. case packets ! i of (seconds, micros, data) \<Rightarrow>
         let elapsed = ts_micros (snd (fs ! i)) - ts_micros (snd (hd fs)); time = unat seconds * 1000000 + unat micros
         in micros < 1000000 \<and> (elapsed < 4294967000000 \<longrightarrow> elapsed \<le> time + 51 \<and> time \<le> elapsed + 50))"
proof -
  let ?time = "\<lambda>ts. trc_reread (ts_minus ts (snd (hd fs)))"
  let ?packets = "map (\<lambda>(f, ts). cap_packet (?time ts, f\<lparr>cf_mExtendedFormat := True\<rparr>)) fs"
  have "case ?packets ! i of (seconds, micros, data) \<Rightarrow>
      let elapsed = ts_micros (snd (fs ! i)) - ts_micros (snd (hd fs)); time = unat seconds * 1000000 + unat micros
      in micros < 1000000 \<and> (elapsed < 4294967000000 \<longrightarrow> elapsed \<le> time + 51 \<and> time \<le> elapsed + 50)"
    if i: "i < length fs" for i
  proof -
    let ?ts = "snd (fs ! i)" and ?first = "snd (hd fs)"
    have "ts_normal ?ts" "ts_normal ?first"
      using assms(6) i assms(2) nth_mem [OF i] hd_in_set [OF assms(2)] by (auto simp: split_beta)
    note e = ts_minus_micros [OF this]
    have near: "elapsed \<le> unat (?time ?ts) + 51 \<and> unat (?time ?ts) \<le> elapsed + 50"
      if "elapsed = ts_micros ?ts - ts_micros ?first" "elapsed < 4294967000000" for elapsed
      using reread_elapsed [of "ts_minus ?ts ?first"] e that by simp
    have "unat (?time ?ts div 1000000) * 1000000 + unat (?time ?ts mod 1000000) = unat (?time ?ts)"
      by (simp add: unat_div unat_mod)
    moreover have "?time ?ts mod 1000000 < 1000000" by (simp add: word_less_nat_alt unat_mod)
    ultimately show ?thesis using near i by (simp add: cap_packet_def split_beta Let_def)
  qed
  then show ?thesis using recorded_packets [OF assms(1-5), of ext] by (fastforce simp del: nth_map)
qed

theorem recorded_time_error_witness:
  "\<exists>d seconds micros data. dumper_run [(\<lparr>cf_mExtendedFormat = True, cf_mId = 1, cf_mData = [7]\<rparr>, TimeStamp 7 250000),
       (\<lparr>cf_mExtendedFormat = True, cf_mId = 2, cf_mData = [8]\<rparr>, TimeStamp 12 251234)] dumper_start = Inr d
     \<and> map_option (map_sum id (\<lambda>(n, packets). packets ! 1)) (trc_to_cap False ''a.trc'' ''a.cap'' (tw_mFileStream (du_writer d)) False True)
         = Some (Inr (seconds, micros, data))
     \<and> 5001234 \<le> unat seconds * 1000000 + unat micros + 51 \<and> unat seconds * 1000000 + unat micros \<le> 5001284"
proof -
  let ?fs = "[(\<lparr>cf_mExtendedFormat = True, cf_mId = 1, cf_mData = [7]\<rparr>, TimeStamp 7 250000),
       (\<lparr>cf_mExtendedFormat = True, cf_mId = 2, cf_mData = [8]\<rparr>, TimeStamp 12 251234)]"
  have "list_all trc_sized ?fs" "\<forall>(f, ts) \<in> set ?fs. ts_normal ts" by (simp_all add: trc_sized_def ts_normal_def)
  from recorded_time_error [OF this(1) _ _ _ _ this(2), of "''a.trc''" "''a.cap''" False]
  obtain d packets where d: "dumper_run ?fs dumper_start = Inr d"
    "trc_to_cap False ''a.trc'' ''a.cap'' (tw_mFileStream (du_writer d)) False True = Some (Inr (0, packets))"
    and near: "\<forall>i < 2. case packets ! i of (seconds, micros, data) \<Rightarrow>
         let elapsed = ts_micros (snd (?fs ! i)) - ts_micros (snd (hd ?fs)); time = unat seconds * 1000000 + unat micros
         in micros < 1000000 \<and> (elapsed < 4294967000000 \<longrightarrow> elapsed \<le> time + 51 \<and> time \<le> elapsed + 50)"
    by (auto simp: numeral_2_eq_2)
  obtain seconds micros data where p: "packets ! 1 = (seconds, micros, data)" by (cases "packets ! 1")
  from near [rule_format, of 1] have "5001234 \<le> unat seconds * 1000000 + unat micros + 51"
      "unat seconds * 1000000 + unat micros \<le> 5001284"
    by (simp_all add: p [simplified] ts_micros_def Let_def)
  with d p show ?thesis by (intro exI [of _ d] exI [of _ seconds] exI [of _ micros] exI [of _ data]) simp
qed

text \<open>C40: A frame without data cannot be read back, and makes the whole file unreadable: after up to 30 million other
  frames, and whatever is recorded behind it, TRCToCap refuses the file. (Behind more frames its position may not fit
  into an \<open>int\<close>: then the variable of a field before it may be used without having been read.)\<close>

theorem empty_frame_spoils_recording:
  assumes "cf_mData f = []" and "list_all trc_sized before" and "length before < 30000000" and "input \<noteq> []" and "output \<noteq> []"
  shows "\<exists>d. dumper_run (before @ (f, ts) # rest) dumper_start = Inr d \<and>
    trc_to_cap ext input output (tw_mFileStream (du_writer d)) same opens = Some (Inr (- 2, []))"
proof -
  let ?fs = "before @ (f, ts) # rest"
  let ?t0 = "snd (hd ?fs)"
  let ?before = "map (\<lambda>(f, ts). (f, ts_minus ts ?t0)) before" and ?rest = "map (\<lambda>(f, ts). (f, ts_minus ts ?t0)) rest"
  have rel: "relative_times ?fs = ?before @ (f, ts_minus ts ?t0) # ?rest" by (simp add: relative_times_def)
  obtain d where d: "dumper_run ?fs dumper_start = Inr d"
    "tw_mFileStream (du_writer d) = Some (TRC_FILE_HEADER @ trc_lines 0 (?before @ (f, ts_minus ts ?t0) # ?rest))"
    using dumper_records [of ?fs] unfolding rel by blast
  have b: "list_all trc_sized ?before" using assms(2) by (auto simp: list_all_iff trc_sized_def)
  have fits: "fits TRC_FILE_HEADER (trc_lines 0 (?before @ [(f, ts_minus ts ?t0)]))"
    using assms(1-3) by (intro trc_lines_fit) (auto simp: list_all_iff trc_sized_def)
  let ?r = "trc_lines 0 (?before @ (f, ts_minus ts ?t0) # ?rest)"
  let ?p = "(trc_unloadFile (TRCReader_new ext))\<lparr>tr_mFileName := input, tr_is_open := True,
    tr_mFileStream := stream_open (TRC_FILE_HEADER @ ?r)\<rparr>"
  obtain t where "checkIntegrity ?p = Some (Inr (False, t))"
    using checkIntegrity_header [of ?p ?r] checkIntegrity_rejected [OF _ b assms(1), of
      "?p\<lparr>tr_mFileStream := stream_at TRC_FILE_HEADER ?r\<rparr>" TRC_FILE_HEADER 0 "ts_minus ts ?t0" ?rest] fits by auto
  then show ?thesis using d assms(4,5) by (simp add: trc_to_cap_def trc_loadFile_def Let_def)
qed

theorem empty_frame_spoils_recording_witness:
  "\<exists>d. dumper_run [(\<lparr>cf_mExtendedFormat = True, cf_mId = 1, cf_mData = [7]\<rparr>, TimeStamp 1 0),
      (\<lparr>cf_mExtendedFormat = True, cf_mId = 2, cf_mData = []\<rparr>, TimeStamp 2 0)] dumper_start = Inr d \<and>
    trc_to_cap False ''a.trc'' ''a.cap'' (tw_mFileStream (du_writer d)) False True = Some (Inr (- 2, []))"
  using empty_frame_spoils_recording [of "\<lparr>cf_mExtendedFormat = True, cf_mId = 2, cf_mData = []\<rparr>"
      "[(\<lparr>cf_mExtendedFormat = True, cf_mId = 1, cf_mData = [7]\<rparr>, TimeStamp 1 0)]" "''a.trc''" "''a.cap''"
      "TimeStamp 2 0" "[]" False False True]
  by (simp add: trc_sized_def)

text \<open>C33: Whatever a file of less than 2 GB contains, it is loaded or refused after finitely many steps, and every search
  for a position in a file that was loaded comes to an end. TRCToCap comes to an end too, except when the output is
  the file of the input and that has two frames or more: then it never stops.\<close>

theorem trace_reading_ends:
  assumes "small_file content"
  shows "(\<exists>x. trc_loadFile path content r = Some x) \<and>
    (\<forall>q. trc_loadFile path content r = Some (Inr (True, q)) \<longrightarrow> (\<exists>x. seekPosition pos q = Some x)) \<and>
    (trc_to_cap ext input output content same opens = None \<longleftrightarrow> input \<noteq> [] \<and> output \<noteq> [] \<and> same \<and> opens \<and>
      (\<exists>q. trc_loadFile input content (TRCReader_new ext) = Some (Inr (True, q)) \<and> 2 \<le> tr_mTotalFrames q))"
proof -
  have "\<exists>x. seekPosition pos q = Some x" if l: "trc_loadFile path content r = Some (Inr (True, q))" for q
  proof -
    from l obtain bytes where b: "content = Some bytes" by (cases content) (auto simp: trc_loadFile_def Let_def)
    with assms have small: "length bytes < 2 ^ 31" by (simp add: small_file_def)
    from l b have "trc_loadFile path (Some bytes) r = Some (Inr (True, q))" by simp
    then obtain p t where "tr_is_open q" "tr_mFileStream q = stream_open bytes"
      using small by (rule trc_loadFile_start)
    then show ?thesis
      using small by (intro seekPosition_total) (simp add: trc_inv_def st_small_def stream_open_def)
  qed
  then show ?thesis using trc_loadFile_returns [OF assms] trc_to_cap_ends_iff [OF assms] by simp
qed

theorem trace_reading_ends_witness:
  "\<exists>text q. trc_loadFile ''a.trc'' (Some text) (TRCReader_new True) = Some (Inr (True, q)) \<and> tr_mTotalFrames q = 2
     \<and> trc_to_cap True ''a.trc'' ''a.trc'' (Some text) True True = None
     \<and> trc_to_cap True ''a.trc'' ''a.cap'' (Some text) False True \<noteq> None"
proof -
  let ?fs = "[(\<lparr>cf_mExtendedFormat = True, cf_mId = 1, cf_mData = [7]\<rparr>, TimeStamp 0 0),
       (\<lparr>cf_mExtendedFormat = True, cf_mId = 2, cf_mData = [8]\<rparr>, TimeStamp 1 0)]"
  let ?text = "TRC_FILE_HEADER @ trc_lines 0 ?fs"
  have s: "list_all trc_sized ?fs" by (simp add: trc_sized_def)
  then have "fits TRC_FILE_HEADER (trc_lines 0 ?fs)"
    by (intro trc_lines_fit) (auto simp: list_all_iff trc_sized_def)
  then have small: "small_file (Some ?text)" by (simp only: small_file_def option.case fits_def length_append)
  from s obtain q where q: "trc_loadFile ''a.trc'' (Some ?text) (TRCReader_new True) = Some (Inr (True, q))" "tr_mTotalFrames q = 2"
    by (rule trc_loadFile_recording [where input = "''a.trc''"]) (simp_all add: numeral_2_eq_2)
  note ends = trace_reading_ends [OF small, of "''a.trc''" "TRCReader_new True" 0 True]
  have "trc_to_cap True ''a.trc'' ''a.trc'' (Some ?text) True True = None"
    using ends [of "''a.trc''" "''a.trc''" True True] q by simp
  moreover have "trc_to_cap True ''a.trc'' ''a.cap'' (Some ?text) False True \<noteq> None"
    using ends [of "''a.trc''" "''a.cap''" False True] by simp
  ultimately show ?thesis using q by blast
qed

end
