(* ===== verification/WebJson.thy ===== *)
theory WebJson
  imports JsonLib StdString
begin

text \<open>
  What the web back ends share: how they end, and how they read and build JSON values with the calls of
  \<open>JsonLib\<close>.
\<close>

section \<open>Results\<close>

text \<open>Nothing catches what is thrown in a callback: it ends the program. \<open>LogicError\<close> is \<open>Json::LogicError\<close>.\<close>

datatype web_halt = Thrown exc | ThrownStd std_exc | LogicError

type_synonym 'a web = "web_halt + 'a"

fun web_bind :: "'a web \<Rightarrow> ('a \<Rightarrow> 'b web) \<Rightarrow> 'b web" where
  "web_bind (Inl h) f = Inl h"
| "web_bind (Inr a) f = f a"

fun of_res :: "'a res \<Rightarrow> 'a web" where
  "of_res (Inl e) = Inl (Thrown e)"
| "of_res (Inr a) = Inr a"

fun of_json :: "'a option \<Rightarrow> 'a web" where
  "of_json None = Inl LogicError"
| "of_json (Some a) = Inr a"

fun of_outcome :: "(exc \<times> 's) + 'a \<Rightarrow> 'a web" where
  "of_outcome (Inl (e, s)) = Inl (Thrown e)"
| "of_outcome (Inr a) = Inr a"

lemma web_bind_Inr_iff: "web_bind m f = Inr b \<longleftrightarrow> (\<exists>a. m = Inr a \<and> f a = Inr b)"
  by (cases m) auto

lemma web_bind_Inl_iff: "web_bind m f = Inl h \<longleftrightarrow> m = Inl h \<or> (\<exists>a. m = Inr a \<and> f a = Inl h)"
  by (cases m) auto

lemma of_res_iff [simp]: "of_res r = Inr a \<longleftrightarrow> r = Inr a" "of_res r = Inl h \<longleftrightarrow> (\<exists>e. r = Inl e \<and> h = Thrown e)"
  by (cases r; auto)+

lemma of_json_iff [simp]: "of_json x = Inr a \<longleftrightarrow> x = Some a"
  by (cases x) auto

lemma of_outcome_iff [simp]: "of_outcome r = Inr a \<longleftrightarrow> r = Inr a"
  by (cases r rule: of_outcome.cases) auto

text \<open>\<open>web_ok Q r\<close>: nothing undefined happens, and what is returned satisfies \<open>Q\<close>.\<close>

definition web_ok :: "('a \<Rightarrow> bool) \<Rightarrow> 'a web \<Rightarrow> bool" where
  "web_ok Q r \<longleftrightarrow> (case r of Inl h \<Rightarrow> h \<noteq> Thrown UndefinedBehaviour | Inr a \<Rightarrow> Q a)"

lemma web_ok_simps [simp]:
  "web_ok Q (Inr a) \<longleftrightarrow> Q a" "web_ok Q (Inl h) \<longleftrightarrow> h \<noteq> Thrown UndefinedBehaviour"
  by (simp_all add: web_ok_def)

lemma web_ok_bind:
  assumes "web_ok Q m" and "\<And>a. m = Inr a \<Longrightarrow> Q a \<Longrightarrow> web_ok R (f a)"
  shows "web_ok R (web_bind m f)"
  using assms by (cases m) auto

lemma web_ok_mono: "web_ok Q m \<Longrightarrow> (\<And>a. Q a \<Longrightarrow> R a) \<Longrightarrow> web_ok R m"
  by (cases m) auto

lemma web_ok_json [simp]: "web_ok Q (of_json x) \<longleftrightarrow> (\<forall>a. x = Some a \<longrightarrow> Q a)"
  by (cases x) auto

lemma web_ok_json_bind: "(\<And>a. x = Some a \<Longrightarrow> web_ok Q (f a)) \<Longrightarrow> web_ok Q (web_bind (of_json x) f)"
  by (cases x) auto

section \<open>Members\<close>

text \<open>\<open>request.isMember(key) && request[key].isX()\<close>, and then \<open>asX()\<close>; \<open>None\<close> when the condition fails.\<close>

definition member_as ::
  "'v json_lib \<Rightarrow> ('v \<Rightarrow> bool) \<Rightarrow> ('v \<Rightarrow> 'a option) \<Rightarrow> 'v \<Rightarrow> string \<Rightarrow> 'a option web" where
  "member_as J isX asX v key =
     web_bind (of_json (js_isMember J v key)) (\<lambda>present.
       if \<not> present then Inr None
       else web_bind (of_json (js_get J v key)) (\<lambda>x.
              if \<not> isX x then Inr None
              else web_bind (of_json (asX x)) (\<lambda>a. Inr (Some a))))"

abbreviation uint_member :: "'v json_lib \<Rightarrow> 'v \<Rightarrow> string \<Rightarrow> u32 option web" where
  "uint_member J \<equiv> member_as J (js_isUInt J) (js_asUInt J)"

lemma member_as_ok [simp]: "web_ok (\<lambda>_. True) (member_as J isX asX v key)"
  by (auto simp: member_as_def intro!: web_ok_bind [where Q = "\<lambda>_. True"])

section \<open>Assignments\<close>

text \<open>\<open>v[a][b][c] = x\<close>: every operator creates what is missing.\<close>

datatype json_step = Key string | Idx nat

fun js_assign :: "'v json_lib \<Rightarrow> json_step list \<Rightarrow> 'v \<Rightarrow> 'v \<Rightarrow> 'v option" where
  "js_assign J [] x v = Some x"
| "js_assign J (Key k # p) x v =
     Option.bind (js_get J v k) (\<lambda>old. Option.bind (js_assign J p x old) (\<lambda>new. js_set J v k new))"
| "js_assign J (Idx i # p) x v =
     Option.bind (js_at J v i) (\<lambda>old. Option.bind (js_assign J p x old) (\<lambda>new. js_put J v i new))"

text \<open>One assignment after the other.\<close>

fun js_assigns :: "'v json_lib \<Rightarrow> (json_step list \<times> 'v) list \<Rightarrow> 'v \<Rightarrow> 'v option" where
  "js_assigns J [] v = Some v"
| "js_assigns J ((p, x) # as) v = Option.bind (js_assign J p x v) (js_assigns J as)"

definition from_bytes :: "bytes \<Rightarrow> string" where
  "from_bytes bs = map (\<lambda>b. char_of (unat b)) bs"

text \<open>\<open>std::to_string\<close>.\<close>

definition to_string :: "u32 \<Rightarrow> string" where
  "to_string n = show_digits 10 (unat n)"

end
