(* ===== verification/Gui.thy ===== *)
theory Gui
  imports WebJson SenderShell Database History
begin

unbundle bit_operations_syntax

text \<open>
  The web back end of the framework (\<open>GUI_WEB/backend/src/J1939GUI.cpp\<close>): its globals are the record
  \<open>gui\<close>, every request is a function on it, and so are the reception of a frame and the callbacks of the
  websocket library. The text of a JSON value is the business of the library, so \<open>parse\<close> is an argument.
  Log messages are not modelled.
\<close>

section \<open>State\<close>

text \<open>
  A frame to send is an object that is never freed: its address is the number under which it was allocated.
  \<open>gu_rings\<close> are the rings of the senders; an \<open>unordered_map\<close> is a map like any other.
\<close>

record 'v gui =
  gu_rcvRequest :: string
  gu_jsonResponses :: "'v list"
  gu_rxFrames :: 'v
  gu_showRaw :: bool
  gu_framesToSend :: "(nat \<times> jframe) list"
  gu_framePeriods :: "(nat, u32) smap"
  gu_allocated :: nat
  gu_reassembler :: reassembler
  gu_rxThread :: bool
  gu_rcvFramesCache :: "(u32, CanFrame) smap"
  gu_rcvFramesCount :: "(u32, u32) smap"
  gu_historyMap :: "(u64, history) smap"
  gu_factory :: factory
  gu_easy :: can_easy
  gu_rings :: "iface \<Rightarrow> ring list"

section \<open>Sending\<close>

definition gui_isFrameSent :: "jframe \<Rightarrow> iface \<Rightarrow> 'v gui \<Rightarrow> bool web" where
  "gui_isFrameSent f interface s =
     (case getSender interface (gu_easy s) of
        None \<Rightarrow> Inr False
      | Some b \<Rightarrow> web_bind (of_res (wire_ids f)) (\<lambda>ids. Inr (isSent ids (gu_rings s interface))))"

definition gui_sendFrameThroughInterface :: "jframe \<Rightarrow> u32 \<Rightarrow> iface \<Rightarrow> 'v gui \<Rightarrow> 'v gui web" where
  "gui_sendFrameThroughInterface f period interface s =
     (case getSender interface (gu_easy s) of
        None \<Rightarrow> Inr s
      | Some b \<Rightarrow>
          let rings = gu_rings s interface
          in if jframe_getDataLength f > MAX_CAN_DATA_SIZE
             then web_bind (of_res (res_bind (bam_of f) (\<lambda>fs. can_frames fs (CanFrame_default True)))) (\<lambda>canFrames.
                    Inr (s\<lparr>gu_rings := (gu_rings s)(interface := snd (sendFrames canFrames period None rings))\<rparr>))
             else web_bind (of_res (can_frames [f] (CanFrame_default True))) (\<lambda>canFrames.
                    Inr (s\<lparr>gu_rings := (gu_rings s)(interface := snd (sendFrame (hd canFrames) period None rings))\<rparr>)))"

fun gui_unsend_ifaces :: "iface list \<Rightarrow> string \<Rightarrow> u32 list \<Rightarrow> 'v gui \<Rightarrow> 'v gui web" where
  "gui_unsend_ifaces [] interface ids s = Inr s"
| "gui_unsend_ifaces (i # is) interface ids s =
     (if interface = [] \<or> to_iface interface = i
      then (case getSender i (gu_easy s) of
              None \<Rightarrow> Inl (Thrown UndefinedBehaviour)
            | Some b \<Rightarrow>
                gui_unsend_ifaces is interface ids
                  (s\<lparr>gu_rings := (gu_rings s)(i := unSendFrames ids (gu_rings s i))\<rparr>))
      else gui_unsend_ifaces is interface ids s)"

definition gui_unsendFrameThroughInterface :: "jframe \<Rightarrow> string \<Rightarrow> 'v gui \<Rightarrow> 'v gui web" where
  "gui_unsendFrameThroughInterface f interface s =
     web_bind (of_res (wire_ids f)) (\<lambda>ids.
       gui_unsend_ifaces (ez_mInitializedIfaces (gu_easy s)) interface ids s)"

section \<open>Frames as JSON values\<close>

definition spn_assigns :: "'v json_lib \<Rightarrow> nat \<Rightarrow> u32 \<Rightarrow> SPN \<Rightarrow> (json_step list \<times> 'v) list" where
  "spn_assigns J j number spn =
     (let place = (\<lambda>k. [Key ''spns'', Idx j, Key k])
      in [(place ''number'', js_uint J (unat number)), (place ''name'', js_string J (mSpecName (mSpec spn))),
          (place ''type'', js_int J (type_number (getType spn)))]
         @ (case mSpnData spn of
              SpnNumeric spec v \<Rightarrow>
                [(place ''value'', js_double J (getFormattedValue spec v)), (place ''units'', js_string J (mUnits spec))]
            | SpnStatus spec v \<Rightarrow>
                (place ''value'', js_int J (unat v)) #
                map (\<lambda>(k, d). (place ''descriptions'' @ [Idx (unat k)], js_string J d)) (mValueToDesc spec)
            | SpnString off v \<Rightarrow> [(place ''value'', js_string J (from_bytes v))]))"

definition dtc_assigns :: "'v json_lib \<Rightarrow> nat \<Rightarrow> DTC \<Rightarrow> (json_step list \<times> 'v) list" where
  "dtc_assigns J i d =
     (let place = (\<lambda>k. [Key ''dtcs'', Idx i, Key k])
      in [(place ''spn'', js_uint J (unat (mSPN d))), (place ''fmi'', js_uint J (unat (mFMI d))),
          (place ''oc'', js_uint J (unat (mOC d)))])"

definition frame_assigns :: "'v json_lib \<Rightarrow> jframe \<Rightarrow> (json_step list \<times> 'v) list" where
  "frame_assigns J f =
     [([Key ''pgn''], js_uint J (unat (mPgn f))), ([Key ''name''], js_string J (mName f)),
      ([Key ''priority''], js_int J (unat (mPriority f))), ([Key ''source''], js_int J (unat (mSrcAddr f)))]
     @ (if getPDUFormatGroup (mPgn f) = PDU_FORMAT_1 then [([Key ''dest''], js_int J (unat (mDstAddr f)))] else [])
     @ (case payload_generic (mBody f) of
          None \<Rightarrow> []
        | Some g \<Rightarrow> concat (map (\<lambda>(j, k, spn). spn_assigns J j k spn) (enumerate 0 (mSPNs g))))"

text \<open>A frame with the PGN of the DM1 is cast to it.\<close>

definition frameToJson :: "'v json_lib \<Rightarrow> jframe \<Rightarrow> 'v web" where
  "frameToJson J f =
     web_bind (of_json (js_assigns J (frame_assigns J f) (js_null J))) (\<lambda>v.
       if mPgn f = DM1_PGN
       then (case mBody f of
               DM1P m \<Rightarrow>
                 of_json (js_assigns J (concat (map (\<lambda>(i, d). dtc_assigns J i d) (enumerate 0 (mDtcs m)))) v)
             | _ \<Rightarrow> Inl (Thrown UndefinedBehaviour))
       else Inr v)"


section \<open>Requests\<close>

text \<open>A request returns whether there is a response, the response and the globals.\<close>

type_synonym 'v request = "(bool \<times> 'v \<times> 'v gui) web"

definition request_showRaw :: "'v json_lib \<Rightarrow> 'v \<Rightarrow> 'v \<Rightarrow> 'v gui \<Rightarrow> 'v request" where
  "request_showRaw J request response s =
     web_bind (member_as J (js_isBool J) (js_asBool J) request ''raw'') (\<lambda>raw.
       Inr (False, response, case raw of None \<Rightarrow> s | Some b \<Rightarrow> s\<lparr>gu_showRaw := b\<rparr>))"

text \<open>Every registered PGN has a frame.\<close>

fun list_pgns :: "'v json_lib \<Rightarrow> factory \<Rightarrow> u32 list \<Rightarrow> nat \<Rightarrow> 'v \<Rightarrow> 'v web" where
  "list_pgns J m [] i response = Inr response"
| "list_pgns J m (pgn # pgns) i response =
     (case getJ1939Frame_pgn m pgn of
        None \<Rightarrow> Inl (Thrown UndefinedBehaviour)
      | Some frame \<Rightarrow>
          if payload_isGenericFrame (mBody frame)
          then web_bind (of_json (js_assigns J
                  [([Key ''data'', Idx i, Key ''pgn''], js_string J (to_string pgn)),
                   ([Key ''data'', Idx i, Key ''name''], js_string J (mName frame))] response))
                 (list_pgns J m pgns (i + 1))
          else list_pgns J m pgns i response)"

definition request_listFrames :: "'v json_lib \<Rightarrow> 'v \<Rightarrow> 'v gui \<Rightarrow> 'v request" where
  "request_listFrames J response s =
     web_bind (list_pgns J (gu_factory s) (getAllRegisteredPGNs (gu_factory s)) 0 response) (\<lambda>response.
       Inr (True, response, s))"

definition request_addFrame :: "'v json_lib \<Rightarrow> 'v \<Rightarrow> 'v \<Rightarrow> 'v gui \<Rightarrow> 'v request" where
  "request_addFrame J request response s =
     web_bind (uint_member J request ''data'') (\<lambda>data.
       case data of
         None \<Rightarrow> Inr (False, response, s)
       | Some pgn \<Rightarrow>
           (case getJ1939Frame_pgn (gu_factory s) pgn of
              None \<Rightarrow> Inr (False, response, s)
            | Some frame \<Rightarrow>
                if \<not> payload_isGenericFrame (mBody frame) then Inr (False, response, s)
                else Inr (True, response,
                       s\<lparr>gu_framesToSend := gu_framesToSend s @ [(gu_allocated s, frame)],
                         gu_allocated := gu_allocated s + 1\<rparr>)))"

text \<open>The index of a frame to send, checked.\<close>

definition with_index ::
  "'v json_lib \<Rightarrow> 'v \<Rightarrow> 'v \<Rightarrow> (nat \<Rightarrow> nat \<Rightarrow> jframe \<Rightarrow> 'v request) \<Rightarrow> 'v gui \<Rightarrow> 'v request" where
  "with_index J request response action s =
     web_bind (uint_member J request ''index'') (\<lambda>i.
       case i of
         None \<Rightarrow> Inr (False, response, s)
       | Some i \<Rightarrow>
           if unat i \<ge> length (gu_framesToSend s) then Inr (False, response, s)
           else (case gu_framesToSend s ! unat i of (addr, frame) \<Rightarrow> action (unat i) addr frame))"

fun unsend_sent :: "iface list \<Rightarrow> nat \<Rightarrow> jframe \<Rightarrow> 'v gui \<Rightarrow> 'v gui web" where
  "unsend_sent [] addr frame s = Inr s"
| "unsend_sent (i # is) addr frame s =
     web_bind (gui_isFrameSent frame i s) (\<lambda>sent.
     web_bind (if sent \<and> smap_find (gu_framePeriods s) addr \<noteq> None
               then gui_unsendFrameThroughInterface frame (from_bytes (iface_name i)) s else Inr s)
       (unsend_sent is addr frame))"

definition request_deleteFrame :: "'v json_lib \<Rightarrow> 'v \<Rightarrow> 'v \<Rightarrow> 'v gui \<Rightarrow> 'v request" where
  "request_deleteFrame J request response s =
     with_index J request response (\<lambda>index addr frame.
       web_bind (unsend_sent (ez_mInitializedIfaces (gu_easy s)) addr frame s) (\<lambda>s'.
         Inr (True, response, s'\<lparr>gu_framesToSend :=
           take index (gu_framesToSend s') @ drop (index + 1) (gu_framesToSend s')\<rparr>))) s"

text \<open>The steps of \<open>set frame\<close>: header, period, SPN, the senders that send the frame, the interfaces named.\<close>

definition masked_member :: "'v json_lib \<Rightarrow> u32 \<Rightarrow> 'v \<Rightarrow> string \<Rightarrow> u8 option web" where
  "masked_member J bits request key =
     web_bind (uint_member J request key) (\<lambda>n.
       Inr (case n of None \<Rightarrow> None | Some n \<Rightarrow> if n AND bits = n then Some (ucast n) else None))"

definition set_header :: "'v json_lib \<Rightarrow> 'v \<Rightarrow> jframe \<Rightarrow> jframe web" where
  "set_header J request f =
     web_bind (masked_member J 7 request ''prio'') (\<lambda>prio.
       let f = (case prio of None \<Rightarrow> f | Some p \<Rightarrow> snd (setPriority p f))
       in web_bind (masked_member J 0xFF request ''src'') (\<lambda>src.
            let f = (case src of None \<Rightarrow> f | Some a \<Rightarrow> setSrcAddr a f)
            in web_bind (masked_member J 0xFF request ''dest'') (\<lambda>dest.
                 Inr (case dest of None \<Rightarrow> f | Some a \<Rightarrow> snd (setDstAddr a f)))))"

definition set_spn_value :: "'v json_lib \<Rightarrow> 'v \<Rightarrow> u32 \<Rightarrow> generic \<Rightarrow> generic web" where
  "set_spn_value J request number g =
     (case getSPN g number of
        None \<Rightarrow> Inl (Thrown UndefinedBehaviour)
      | Some spn \<Rightarrow>
          (case mSpnData spn of
             SpnStatus spec v \<Rightarrow>
               web_bind (masked_member J 0xFF request ''value'') (\<lambda>value.
                 Inr (case value of None \<Rightarrow> g
                      | Some x \<Rightarrow> put_spn_data number spn (SpnStatus spec (snd (status_setValue spec v x))) g))
           | SpnNumeric spec v \<Rightarrow>
               web_bind (member_as J (js_isDouble J) (js_asDouble J) request ''value'') (\<lambda>value.
                 Inr (case value of None \<Rightarrow> g
                      | Some x \<Rightarrow> put_spn_data number spn (SpnNumeric spec (snd (setFormattedValue spec v x))) g))
           | SpnString off v \<Rightarrow>
               web_bind (member_as J (js_isString J) (js_asString J) request ''value'') (\<lambda>value.
                 Inr (case value of None \<Rightarrow> g | Some x \<Rightarrow> generic_setString number (to_bytes x) g))))"

definition set_spn :: "'v json_lib \<Rightarrow> 'v \<Rightarrow> jframe \<Rightarrow> jframe web" where
  "set_spn J request f =
     (case payload_generic (mBody f) of
        None \<Rightarrow> Inr f
      | Some g \<Rightarrow>
          web_bind (uint_member J request ''spn'') (\<lambda>number.
            case number of
              None \<Rightarrow> Inr f
            | Some n \<Rightarrow>
                if \<not> hasSPN g n then Inr f
                else web_bind (set_spn_value J request n g) (\<lambda>g'. Inr (f\<lparr>mBody := set_generic g' (mBody f)\<rparr>))))"

fun resend_sent :: "iface list \<Rightarrow> nat \<Rightarrow> jframe \<Rightarrow> 'v gui \<Rightarrow> 'v gui web" where
  "resend_sent [] addr frame s = Inr s"
| "resend_sent (i # is) addr frame s =
     web_bind (gui_isFrameSent frame i s) (\<lambda>sent.
     web_bind (case smap_find (gu_framePeriods s) addr of
                 Some period \<Rightarrow> if sent then gui_sendFrameThroughInterface frame period i s else Inr s
               | None \<Rightarrow> Inr s)
       (resend_sent is addr frame))"

fun switch_ifaces :: "'v json_lib \<Rightarrow> 'v \<Rightarrow> string list \<Rightarrow> nat \<Rightarrow> jframe \<Rightarrow> 'v gui \<Rightarrow> 'v gui web" where
  "switch_ifaces J v [] addr frame s = Inr s"
| "switch_ifaces J v (m # ms) addr frame s =
     web_bind (of_json (js_get J v m)) (\<lambda>x.
     web_bind (if \<not> js_isBool J x then Inr s
               else web_bind (of_json (js_asBool J x)) (\<lambda>on.
                      if on
                      then (case smap_find (gu_framePeriods s) addr of
                              None \<Rightarrow> Inr s
                            | Some period \<Rightarrow> gui_sendFrameThroughInterface frame period (to_iface m) s)
                      else gui_unsendFrameThroughInterface frame m s))
       (switch_ifaces J v ms addr frame))"

definition switch_request :: "'v json_lib \<Rightarrow> 'v \<Rightarrow> nat \<Rightarrow> jframe \<Rightarrow> 'v gui \<Rightarrow> 'v gui web" where
  "switch_request J request addr frame s =
     web_bind (member_as J (js_isObject J) Some request ''interface'') (\<lambda>interface.
       case interface of
         None \<Rightarrow> Inr s
       | Some v \<Rightarrow> web_bind (of_json (js_getMemberNames J v)) (\<lambda>members. switch_ifaces J v members addr frame s))"

definition request_setFrame :: "'v json_lib \<Rightarrow> 'v \<Rightarrow> 'v \<Rightarrow> 'v gui \<Rightarrow> 'v request" where
  "request_setFrame J request response s =
     with_index J request response (\<lambda>index addr frame.
       web_bind (set_header J request frame) (\<lambda>frame.
       web_bind (uint_member J request ''period'') (\<lambda>period.
       web_bind (set_spn J request frame) (\<lambda>frame.
         let s = s\<lparr>gu_framePeriods := (case period of None \<Rightarrow> gu_framePeriods s
                                       | Some p \<Rightarrow> smap_put addr p (gu_framePeriods s)),
                    gu_framesToSend := (gu_framesToSend s)[index := (addr, frame)]\<rparr>
         in web_bind (resend_sent (ez_mInitializedIfaces (gu_easy s)) addr frame s) (\<lambda>s.
            web_bind (switch_request J request addr frame s) (\<lambda>s. Inr (True, response, s))))))) s"

fun add_interfaces :: "'v json_lib \<Rightarrow> iface list \<Rightarrow> nat \<Rightarrow> 'v \<Rightarrow> 'v web" where
  "add_interfaces J [] i response = Inr response"
| "add_interfaces J (iface # ifaces) i response =
     web_bind (of_json (js_assign J [Key ''interfaces'', Idx i] (js_string J (from_bytes (iface_name iface))) response))
       (add_interfaces J ifaces (i + 1))"

definition listInterfaces :: "'v json_lib \<Rightarrow> 'v \<Rightarrow> 'v gui \<Rightarrow> 'v web" where
  "listInterfaces J response s = add_interfaces J (ez_mInitializedIfaces (gu_easy s)) 0 response"

definition processRequest :: "'v json_lib \<Rightarrow> 'v \<Rightarrow> 'v \<Rightarrow> 'v gui \<Rightarrow> 'v request" where
  "processRequest J request response s =
     web_bind (of_json (js_get J request ''command'')) (\<lambda>cmd.
     web_bind (of_json (js_asString J cmd)) (\<lambda>command.
     web_bind (of_json (js_assign J [Key ''command''] (js_string J command) response)) (\<lambda>response.
       if command = ''show raw'' then request_showRaw J request response s
       else if command = ''list frames'' then request_listFrames J response s
       else if command = ''add frame'' then request_addFrame J request response s
       else if command = ''delete frame'' then request_deleteFrame J request response s
       else if command = ''set frame'' then request_setFrame J request response s
       else Inr (False, response, s))))"


section \<open>The websocket\<close>

fun iface_assigns :: "'v json_lib \<Rightarrow> nat \<Rightarrow> jframe \<Rightarrow> iface list \<Rightarrow> 'v gui \<Rightarrow> 'v \<Rightarrow> 'v web" where
  "iface_assigns J i frame [] s v = Inr v"
| "iface_assigns J i frame (iface # ifaces) s v =
     web_bind (gui_isFrameSent frame iface s) (\<lambda>sent.
     web_bind (of_json (js_assign J [Idx i, Key ''interfaces'', Key (from_bytes (iface_name iface))] (js_bool J sent) v))
       (iface_assigns J i frame ifaces s))"

fun sent_frames_json :: "'v json_lib \<Rightarrow> nat \<Rightarrow> (nat \<times> jframe) list \<Rightarrow> 'v gui \<Rightarrow> 'v \<Rightarrow> 'v web" where
  "sent_frames_json J i [] s v = Inr v"
| "sent_frames_json J i ((addr, frame) # fs) s v =
     web_bind (frameToJson J frame) (\<lambda>x.
     web_bind (of_json (js_assign J [Idx i] x v)) (\<lambda>v.
     web_bind (case smap_find (gu_framePeriods s) addr of
                 None \<Rightarrow> Inr v
               | Some period \<Rightarrow> of_json (js_assign J [Idx i, Key ''period''] (js_uint J (unat period)) v)) (\<lambda>v.
     web_bind (iface_assigns J i frame (ez_mInitializedIfaces (gu_easy s)) s v)
       (sent_frames_json J (i + 1) fs s))))"

definition sentFramesToJson :: "'v json_lib \<Rightarrow> 'v gui \<Rightarrow> 'v \<Rightarrow> 'v web" where
  "sentFramesToJson J s v = sent_frames_json J 0 (gu_framesToSend s) s v"

text \<open>The first time there is no thread that receives, and nothing is cleared.\<close>

definition resetReceiver :: "'v gui \<Rightarrow> 'v gui" where
  "resetReceiver s =
     (let s = (if gu_rxThread s then s\<lparr>gu_rcvFramesCache := [], gu_rcvFramesCount := []\<rparr> else s)
      in s\<lparr>gu_rxThread := True\<rparr>)"

definition check_rx :: "'v json_lib \<Rightarrow> 'v gui \<Rightarrow> 'v gui web" where
  "check_rx J s =
     (let s = s\<lparr>gu_jsonResponses := gu_jsonResponses s @ [gu_rxFrames s]\<rparr>
      in web_bind (of_json (js_get J (gu_rxFrames s) ''rx'')) (\<lambda>rx.
         web_bind (of_json (js_clear J rx)) (\<lambda>rx.
         web_bind (of_json (js_set J (gu_rxFrames s) ''rx'' rx)) (\<lambda>v. Inr (s\<lparr>gu_rxFrames := v\<rparr>)))))"

text \<open>What a request does that arrived completely.\<close>

definition handle_request :: "'v json_lib \<Rightarrow> 'v \<Rightarrow> 'v gui \<Rightarrow> 'v gui web" where
  "handle_request J request s =
     web_bind (member_as J (js_isString J) (js_asString J) request ''command'') (\<lambda>command.
       case command of
         None \<Rightarrow> Inr s
       | Some c \<Rightarrow>
           if c = ''reset rx'' then Inr (resetReceiver s)
           else if c = ''check rx'' then check_rx J s
           else web_bind (processRequest J request (js_null J) s) (\<lambda>(respond, response, s).
                  if \<not> respond then Inr s
                  else web_bind (of_json (js_get J response ''frames'')) (\<lambda>v.
                       web_bind (sentFramesToJson J s v) (\<lambda>v.
                       web_bind (of_json (js_set J response ''frames'' v)) (\<lambda>response.
                         Inr (s\<lparr>gu_jsonResponses := gu_jsonResponses s @ [response]\<rparr>))))))"

datatype lws_event = ESTABLISHED | RECEIVE string | WRITEABLE

text \<open>\<open>parse\<close> is \<open>CharReader::parse\<close>. What is written is returned.\<close>

fun callback_j1939 ::
  "'v json_lib \<Rightarrow> (string \<Rightarrow> 'v option) \<Rightarrow> lws_event \<Rightarrow> 'v gui \<Rightarrow> ('v option \<times> 'v gui) web" where
  "callback_j1939 J parse ESTABLISHED s = Inr (None, resetReceiver s)"
| "callback_j1939 J parse (RECEIVE input) s =
     (let s = s\<lparr>gu_rcvRequest := gu_rcvRequest s @ input\<rparr>
      in case parse (gu_rcvRequest s) of
           None \<Rightarrow> Inr (None, s)
         | Some rcvjson \<Rightarrow>
             web_bind (handle_request J rcvjson (s\<lparr>gu_rcvRequest := []\<rparr>)) (\<lambda>s. Inr (None, s)))"
| "callback_j1939 J parse WRITEABLE s =
     (case gu_jsonResponses s of
        [] \<Rightarrow> Inr (None, s)
      | v # vs \<Rightarrow> Inr (Some v, s\<lparr>gu_jsonResponses := vs\<rparr>))"

text \<open>The loop of \<open>main\<close> forgets an incomplete request whenever the library has served its events.\<close>

definition serviced :: "'v gui \<Rightarrow> 'v gui" where
  "serviced s = s\<lparr>gu_rcvRequest := []\<rparr>"

section \<open>Receiving\<close>

definition saveToHistory :: "u32 \<Rightarrow> SPN \<Rightarrow> TimeStamp \<Rightarrow> 'v gui \<Rightarrow> 'v gui web" where
  "saveToHistory i spn now s =
     (let key = ucast i OR push_bit 32 (ucast (getSpnNumber spn)) :: u64;
          h = (case smap_find (gu_historyMap s) key of None \<Rightarrow> SPNHistory | Some h \<Rightarrow> h)
      in web_bind (of_res (addSample now spn h)) (\<lambda>h.
           Inr (s\<lparr>gu_historyMap := smap_put key h (gu_historyMap s)\<rparr>)))"

fun save_spns :: "u32 \<Rightarrow> generic \<Rightarrow> u32 list \<Rightarrow> TimeStamp \<Rightarrow> 'v gui \<Rightarrow> 'v gui web" where
  "save_spns i g [] now s = Inr s"
| "save_spns i g (number # numbers) now s =
     (case getSPN g number of
        None \<Rightarrow> Inl (Thrown UndefinedBehaviour)
      | Some spn \<Rightarrow> web_bind (saveToHistory i spn now s) (save_spns i g numbers now))"

definition count_frame :: "'v json_lib \<Rightarrow> u32 \<Rightarrow> 'v gui \<Rightarrow> 'v gui web" where
  "count_frame J i s =
     (let n = (case smap_find (gu_rcvFramesCount s) i of None \<Rightarrow> 0 | Some n \<Rightarrow> n) + 1
      in web_bind (of_json (js_assign J [Key ''rx'', Key (to_string i), Key ''count''] (js_uint J (unat n)) (gu_rxFrames s)))
           (\<lambda>v. Inr (s\<lparr>gu_rcvFramesCount := smap_put i n (gu_rcvFramesCount s), gu_rxFrames := v\<rparr>)))"

definition report_frame :: "'v json_lib \<Rightarrow> jframe \<Rightarrow> 'v gui \<Rightarrow> 'v gui web" where
  "report_frame J f s =
     web_bind (frameToJson J f) (\<lambda>x.
     web_bind (of_json (js_assign J [Key ''rx'', Key (to_string (getIdentifier f)), Key ''frame''] x (gu_rxFrames s)))
       (\<lambda>v. Inr (s\<lparr>gu_rxFrames := v\<rparr>)))"

text \<open>A frame of the transport protocol; \<open>None\<close> while the message is not complete.\<close>

definition receive_transport ::
  "'v json_lib \<Rightarrow> (nat \<Rightarrow> u8) \<Rightarrow> jframe \<Rightarrow> 'v gui \<Rightarrow> (jframe option \<times> 'v gui) web" where
  "receive_transport J junk f s =
     web_bind (of_outcome (handleFrame (getJ1939Frame (gu_factory s)) junk f (gu_reassembler s))) (\<lambda>(n, r).
       if reassembledFramesPending r
       then web_bind (of_outcome (dequeueReassembledFrame r)) (\<lambda>(f', r').
            web_bind (count_frame J (getIdentifier f') (s\<lparr>gu_reassembler := r'\<rparr>)) (\<lambda>s.
              Inr (Some f', s)))
       else Inr (None, s\<lparr>gu_reassembler := r\<rparr>))"

text \<open>A missing frame in the cache is created without data.\<close>

definition receive_plain :: "TimeStamp \<Rightarrow> CanFrame \<Rightarrow> jframe \<Rightarrow> 'v gui \<Rightarrow> 'v gui web" where
  "receive_plain now frame f s =
     web_bind
       (case payload_generic (mBody f) of
          None \<Rightarrow> Inr s
        | Some g \<Rightarrow>
            let old = (case smap_find (gu_rcvFramesCache s) (cf_mId frame) of None \<Rightarrow> [] | Some c \<Rightarrow> cf_mData c)
            in web_bind (of_res (generic_compare (mSPNs g) (cf_mData frame) old)) (\<lambda>spns.
                 save_spns (getIdentifier f) g spns now s)) (\<lambda>s.
       Inr (s\<lparr>gu_rcvFramesCache := smap_put (cf_mId frame) frame (gu_rcvFramesCache s)\<rparr>))"

definition gui_onRcv ::
  "'v json_lib \<Rightarrow> TimeStamp \<Rightarrow> (nat \<Rightarrow> u8) \<Rightarrow> CanFrame \<Rightarrow> 'v gui \<Rightarrow> 'v gui web" where
  "gui_onRcv J now junk frame s =
     web_bind (count_frame J (cf_mId frame) s) (\<lambda>s.
       if map_option cf_mData (smap_find (gu_rcvFramesCache s) (cf_mId frame)) = Some (cf_mData frame) then Inr s
       else web_bind (of_res (getJ1939Frame (gu_factory s) (cf_mId frame) (cf_mData frame))) (\<lambda>decoded.
         case decoded of
           None \<Rightarrow>
             if \<not> gu_showRaw s then Inr s
             else web_bind (of_json (js_assign J [Key ''rx'', Key (to_string (cf_mId frame)), Key ''raw'']
                      (js_string J (hexDump frame)) (gu_rxFrames s))) (\<lambda>v.
                    Inr (s\<lparr>gu_rxFrames := v, gu_rcvFramesCache := smap_put (cf_mId frame) frame (gu_rcvFramesCache s)\<rparr>))
         | Some f \<Rightarrow>
             web_bind (of_res (toBeHandled f)) (\<lambda>transport.
             web_bind (if transport then receive_transport J junk f s
                       else web_bind (receive_plain now frame f s) (\<lambda>s. Inr (Some f, s))) (\<lambda>(whole, s).
               case whole of None \<Rightarrow> Inr s | Some f \<Rightarrow> report_frame J f s))))"

section \<open>The start\<close>

text \<open>
  \<open>main\<close> up to the first event: \<open>None\<close> when it returns early. The factory holds its predefined frames; the
  frames of the database and the answers of the back ends are arguments.
\<close>

definition gui_start ::
  "'v json_lib \<Rightarrow> nat \<Rightarrow> generic frame list option \<Rightarrow> (backend \<Rightarrow> iface list) \<Rightarrow> (backend \<Rightarrow> iface \<Rightarrow> bool)
   \<Rightarrow> 'v gui option web" where
  "gui_start J specs database ifaces init =
     web_bind (of_res (J1939Factory specs)) (\<lambda>factory.
       case database of
         None \<Rightarrow> Inr None
       | Some frames \<Rightarrow>
           let factory = fold (\<lambda>f m. snd (registerFrame (as_frame Generic f) m)) frames factory;
               easy = easy_initialize_recv ifaces init
                 \<lparr>ez_mSenders = [], ez_mReceivers = [], ez_mInitializedIfaces = [], ez_mHelpers = []\<rparr>
           in if ez_mInitializedIfaces easy = [] then Inr None
              else web_bind (of_json (js_assign J [Key ''command''] (js_string J ''check rx'') (js_null J))) (\<lambda>v.
                Inr (Some \<lparr>gu_rcvRequest = [], gu_jsonResponses = [], gu_rxFrames = v, gu_showRaw = False,
                  gu_framesToSend = [], gu_framePeriods = [], gu_allocated = 0, gu_reassembler = BamReassembler,
                  gu_rxThread = False, gu_rcvFramesCache = [], gu_rcvFramesCount = [], gu_historyMap = [],
                  gu_factory = factory, gu_easy = easy, gu_rings = (\<lambda>_. [])\<rparr>)))"

end
