(* ===== verification/GuiSafety.thy ===== *)
theory GuiSafety
  imports Gui SenderSafety
begin

text \<open>
  The web back end under every sequence of events: its invariant, and that no request makes it access memory
  it should not.
\<close>

section \<open>Invariant\<close>

definition gui_ok :: "'v gui \<Rightarrow> bool" where
  "gui_ok s \<longleftrightarrow> factory_ok (gu_factory s) \<and> (\<forall>(p, f) \<in> set (gu_factory s). frame_ok f)
     \<and> (\<forall>(a, f) \<in> set (gu_framesToSend s). frame_ok f \<and> payload_isGenericFrame (mBody f) \<and> a < gu_allocated s)
     \<and> distinct (map fst (gu_framesToSend s))
     \<and> (\<forall>i. sender_ok (gu_rings s i))
     \<and> (\<forall>i \<in> set (ez_mInitializedIfaces (gu_easy s)). getSender i (gu_easy s) \<noteq> None)
     \<and> (\<forall>(i, c) \<in> set (gu_rcvFramesCache s). cf_mId c = i)
     \<and> mReassembledFrames (gu_reassembler s) = []"

lemma gui_ok_frame [simp]:
  "gui_ok (s\<lparr>gu_rxFrames := v\<rparr>) = gui_ok s" "gui_ok (s\<lparr>gu_jsonResponses := vs\<rparr>) = gui_ok s"
  "gui_ok (s\<lparr>gu_rcvRequest := r\<rparr>) = gui_ok s" "gui_ok (s\<lparr>gu_rcvFramesCount := c\<rparr>) = gui_ok s"
  "gui_ok (s\<lparr>gu_historyMap := h\<rparr>) = gui_ok s" "gui_ok (s\<lparr>gu_rxThread := b\<rparr>) = gui_ok s"
  by (simp_all add: gui_ok_def)

text \<open>What sending changes.\<close>

definition only_rings :: "'v gui \<Rightarrow> 'v gui \<Rightarrow> bool" where
  "only_rings s s' \<longleftrightarrow> (\<exists>R. (\<forall>i. sender_ok (R i)) \<and> s' = s\<lparr>gu_rings := R\<rparr>)"

lemma only_rings_ok: "only_rings s s' \<Longrightarrow> gui_ok s \<Longrightarrow> gui_ok s'"
  by (auto simp: only_rings_def gui_ok_def)

lemma only_rings_refl: "gui_ok s \<Longrightarrow> only_rings s s"
  by (auto simp: only_rings_def gui_ok_def intro!: exI [of _ "gu_rings s"])

lemma only_rings_trans: "only_rings s s' \<Longrightarrow> only_rings s' s'' \<Longrightarrow> only_rings s s''"
  by (auto simp: only_rings_def)

lemma only_rings_put: "gui_ok s \<Longrightarrow> sender_ok r \<Longrightarrow> only_rings s (s\<lparr>gu_rings := (gu_rings s)(i := r)\<rparr>)"
  by (auto simp: only_rings_def gui_ok_def intro!: exI [of _ "(gu_rings s)(i := r)"])

lemma only_rings_fields: "only_rings s s' \<Longrightarrow>
    gu_easy s' = gu_easy s \<and> gu_framePeriods s' = gu_framePeriods s \<and> gu_framesToSend s' = gu_framesToSend s"
  by (auto simp: only_rings_def)

section \<open>Sending\<close>

lemma web_ok_res: "r \<noteq> Inl UndefinedBehaviour \<Longrightarrow> (\<And>a. r = Inr a \<Longrightarrow> Q a) \<Longrightarrow> web_ok Q (of_res r)"
  by (cases r) auto

lemma gui_isFrameSent_ok: "frame_ok f \<Longrightarrow> web_ok (\<lambda>_. True) (gui_isFrameSent f i s)"
  by (auto simp: gui_isFrameSent_def frame_ok_def wire_safe intro!: web_ok_bind [OF web_ok_res [where Q = "\<lambda>_. True"]]
      split: option.split)

lemma gui_send_ok:
  assumes "gui_ok s" and "frame_ok f"
  shows "web_ok (only_rings s) (gui_sendFrameThroughInterface f period i s)"
proof (cases "getSender i (gu_easy s)")
  case None
  with assms show ?thesis by (simp add: gui_sendFrameThroughInterface_def only_rings_refl)
next
  case (Some b)
  have r: "sender_ok (gu_rings s i)" using assms(1) by (simp add: gui_ok_def)
  have safe: "wire_frames f \<noteq> Inl UndefinedBehaviour" using assms(2) by (intro wire_safe) (simp add: frame_ok_def)
  have one: "sender_ok (snd (sendFrame c period None (gu_rings s i)))" for c
    using sender_ok_send [OF r] by (simp add: sendFrame_def)
  show ?thesis
    using Some safe assms(1) sender_ok_send [OF r] one
    by (auto simp: gui_sendFrameThroughInterface_def wire_frames_def Let_def
        intro!: web_ok_bind [OF web_ok_res [where Q = "\<lambda>_. True"]] only_rings_put split: if_splits)
qed

lemma gui_unsend_ifaces_ok:
  "gui_ok s \<Longrightarrow> (\<And>i. i \<in> set is \<Longrightarrow> getSender i (gu_easy s) \<noteq> None) \<Longrightarrow>
     web_ok (only_rings s) (gui_unsend_ifaces is interface ids s)"
proof (induction "is" arbitrary: s)
  case (Cons i "is")
  show ?case
  proof (cases "interface = [] \<or> to_iface interface = i")
    case True
    obtain b where b: "getSender i (gu_easy s) = Some b" using Cons.prems(2) [of i] by auto
    let ?s = "s\<lparr>gu_rings := (gu_rings s)(i := unSendFrames ids (gu_rings s i))\<rparr>"
    have "sender_ok (unSendFrames ids (gu_rings s i))"
      using Cons.prems(1) rings.ok_unsend [of "gu_rings s i" ids] by (simp add: gui_ok_def)
    then have s: "only_rings s ?s" by (intro only_rings_put Cons.prems)
    have "web_ok (only_rings ?s) (gui_unsend_ifaces is interface ids ?s)"
      using s Cons.prems by (intro Cons.IH) (auto intro: only_rings_ok)
    with b True show ?thesis by (auto elim!: web_ok_mono intro: only_rings_trans [OF s])
  next
    case False
    with Cons show ?thesis by auto
  qed
qed (simp add: only_rings_refl)

lemma gui_unsend_ok:
  assumes "gui_ok s" and "frame_ok f"
  shows "web_ok (only_rings s) (gui_unsendFrameThroughInterface f interface s)"
  unfolding gui_unsendFrameThroughInterface_def
  using assms
  by (intro web_ok_bind [OF web_ok_res [where Q = "\<lambda>_. True"]] gui_unsend_ifaces_ok wire_safe)
     (auto simp: frame_ok_def gui_ok_def)

text \<open>One step after the other.\<close>

lemma only_rings_bind:
  assumes "web_ok (only_rings s) m" and "gui_ok s"
    and "\<And>s'. only_rings s s' \<Longrightarrow> gui_ok s' \<Longrightarrow> web_ok (only_rings s') (f s')"
  shows "web_ok (only_rings s) (web_bind m f)"
  using assms(1)
proof (rule web_ok_bind)
  fix s' assume o: "only_rings s s'"
  then have "web_ok (only_rings s') (f s')" using assms(2,3) only_rings_ok by blast
  then show "web_ok (only_rings s) (f s')" by (rule web_ok_mono) (rule only_rings_trans [OF o])
qed

lemma unsend_sent_ok:
  "gui_ok s \<Longrightarrow> frame_ok f \<Longrightarrow> web_ok (only_rings s) (unsend_sent is addr f s)"
proof (induction "is" arbitrary: s)
  case (Cons i "is")
  show ?case
    unfolding unsend_sent.simps
    by (rule web_ok_bind [OF gui_isFrameSent_ok [OF Cons.prems(2)]], rule only_rings_bind)
       (use Cons in \<open>auto intro: gui_unsend_ok only_rings_refl\<close>)
qed (simp add: only_rings_refl)

lemma resend_sent_ok:
  "gui_ok s \<Longrightarrow> frame_ok f \<Longrightarrow> web_ok (only_rings s) (resend_sent is addr f s)"
proof (induction "is" arbitrary: s)
  case (Cons i "is")
  show ?case
    unfolding resend_sent.simps
    by (rule web_ok_bind [OF gui_isFrameSent_ok [OF Cons.prems(2)]], rule only_rings_bind)
       (use Cons in \<open>auto intro: gui_send_ok only_rings_refl split: option.split\<close>)
qed (simp add: only_rings_refl)

lemma switch_ifaces_ok:
  "gui_ok s \<Longrightarrow> frame_ok f \<Longrightarrow> web_ok (only_rings s) (switch_ifaces J v ms addr f s)"
proof (induction ms arbitrary: s)
  case (Cons m ms)
  show ?case
    unfolding switch_ifaces.simps
    by (rule web_ok_json_bind, rule only_rings_bind)
       (use Cons in \<open>auto intro!: gui_send_ok gui_unsend_ok only_rings_refl web_ok_json_bind split: option.split\<close>)
qed (simp add: only_rings_refl)


section \<open>Requests\<close>

text \<open>A request keeps the invariant and leaves the factory and the interfaces as they are.\<close>

definition gui_next :: "'v gui \<Rightarrow> 'v gui \<Rightarrow> bool" where
  "gui_next s s' \<longleftrightarrow> gui_ok s' \<and> gu_factory s' = gu_factory s \<and> gu_easy s' = gu_easy s"

abbreviation request_ok :: "'v gui \<Rightarrow> 'v request \<Rightarrow> bool" where
  "request_ok s r \<equiv> web_ok (\<lambda>(b, v, s'). gui_next s s') r"

lemma gui_next_refl: "gui_ok s \<Longrightarrow> gui_next s s"
  by (simp add: gui_next_def)

lemma gui_next_rings: "only_rings s s' \<Longrightarrow> gui_ok s \<Longrightarrow> gui_next s s'"
  by (auto simp: gui_next_def only_rings_ok) (auto simp: only_rings_def)

lemma gui_next_trans: "gui_next s s' \<Longrightarrow> gui_next s' s'' \<Longrightarrow> gui_next s s''"
  by (simp add: gui_next_def)

lemma web_ok_member_bind: "(\<And>x. web_ok Q (f x)) \<Longrightarrow> web_ok Q (web_bind (member_as J isX asX v k) f)"
  by (rule web_ok_bind [OF member_as_ok])

lemma request_showRaw_ok: "gui_ok s \<Longrightarrow> request_ok s (request_showRaw J request response s)"
  unfolding request_showRaw_def
  by (rule web_ok_member_bind) (auto simp: gui_next_def gui_ok_def split: option.split)

lemma list_pgns_ok:
  assumes "factory_ok m" and "set pgns \<subseteq> set (getAllRegisteredPGNs m)"
  shows "web_ok (\<lambda>_. True) (list_pgns J m pgns i response)"
  using assms(2)
proof (induction pgns arbitrary: i response)
  case (Cons pgn pgns)
  then obtain f where "getJ1939Frame_pgn m pgn = Some f" using registered_frame [OF assms(1), of pgn] by auto
  with Cons show ?case by (auto intro!: web_ok_json_bind)
qed simp

lemma request_listFrames_ok: "gui_ok s \<Longrightarrow> request_ok s (request_listFrames J response s)"
  unfolding request_listFrames_def
  by (rule web_ok_bind [OF list_pgns_ok]) (auto simp: gui_next_refl gui_ok_def)

lemma gui_factory_frame:
  assumes "gui_ok s" and "getJ1939Frame_pgn (gu_factory s) pgn = Some f"
  shows "frame_ok f"
  using assms by (auto simp: gui_ok_def getJ1939Frame_pgn_def factory_ok_def smap_find_Some_iff)

lemma gui_next_add:
  assumes "gui_ok s" and "frame_ok f" and "payload_isGenericFrame (mBody f)"
  shows "gui_next s (s\<lparr>gu_framesToSend := gu_framesToSend s @ [(gu_allocated s, f)], gu_allocated := gu_allocated s + 1\<rparr>)"
  using assms by (fastforce simp: gui_next_def gui_ok_def less_Suc_eq)

lemma request_addFrame_ok: "gui_ok s \<Longrightarrow> request_ok s (request_addFrame J request response s)"
  unfolding request_addFrame_def
  by (rule web_ok_member_bind)
     (auto intro!: gui_next_refl gui_next_add [simplified] dest: gui_factory_frame split: option.split)

lemma with_index_ok:
  assumes "gui_ok s"
    and "\<And>i addr f. i < length (gu_framesToSend s) \<Longrightarrow> gu_framesToSend s ! i = (addr, f) \<Longrightarrow> frame_ok f \<Longrightarrow>
      payload_isGenericFrame (mBody f) \<Longrightarrow> addr < gu_allocated s \<Longrightarrow> request_ok s (action i addr f)"
  shows "request_ok s (with_index J request response action s)"
  unfolding with_index_def
proof (rule web_ok_member_bind)
  fix i :: "u32 option"
  show "request_ok s (case i of None \<Rightarrow> Inr (False, response, s)
      | Some i \<Rightarrow> if unat i \<ge> length (gu_framesToSend s) then Inr (False, response, s)
                   else (case gu_framesToSend s ! unat i of (addr, frame) \<Rightarrow> action (unat i) addr frame))"
  proof (cases "\<exists>n. i = Some n \<and> unat n < length (gu_framesToSend s)")
    case True
    then obtain n where n: "i = Some n" "unat n < length (gu_framesToSend s)" by blast
    obtain addr f where f: "gu_framesToSend s ! unat n = (addr, f)" by fastforce
    with n(2) have "(addr, f) \<in> set (gu_framesToSend s)" by (metis nth_mem)
    with assms(1) have "frame_ok f" "payload_isGenericFrame (mBody f)" "addr < gu_allocated s"
      by (auto simp: gui_ok_def)
    with n f assms(2) show ?thesis by simp
  next
    case False
    with assms(1) show ?thesis by (auto simp: gui_next_refl not_less split: option.split)
  qed
qed

lemma distinct_without: "distinct xs \<Longrightarrow> distinct (take i xs @ drop (Suc i) xs)"
proof -
  assume "distinct xs"
  then have d: "distinct (take i xs @ drop i xs)" by simp
  have "drop (Suc i) xs = tl (drop i xs)" by (simp add: drop_Suc drop_tl)
  moreover have "set (tl ys) \<subseteq> set ys" for ys :: "'a list" by (cases ys) auto
  ultimately show ?thesis using d by (simp only: distinct_append) (metis Int_mono distinct_tl order_refl subset_empty)
qed

lemma gui_next_drop:
  assumes "gui_next s s'"
  shows "gui_next s (s'\<lparr>gu_framesToSend := take i (gu_framesToSend s') @ drop (i + 1) (gu_framesToSend s')\<rparr>)"
proof -
  let ?fs = "gu_framesToSend s'" and ?fs' = "take i (gu_framesToSend s') @ drop (i + 1) (gu_framesToSend s')"
  have sub: "set ?fs' \<subseteq> set ?fs" by (auto dest: in_set_takeD in_set_dropD)
  have "distinct (map fst ?fs)" using assms by (simp add: gui_next_def gui_ok_def)
  then have "distinct (map fst ?fs')" using distinct_without [of "map fst ?fs" i] by (simp add: take_map drop_map)
  with assms sub show ?thesis by (fastforce simp: gui_next_def gui_ok_def)
qed

lemma request_deleteFrame_ok:
  assumes "gui_ok s"
  shows "request_ok s (request_deleteFrame J request response s)"
  unfolding request_deleteFrame_def
proof (rule with_index_ok [OF assms])
  fix i addr f
  assume "frame_ok f"
  from unsend_sent_ok [OF assms this]
  show "request_ok s (web_bind (unsend_sent (ez_mInitializedIfaces (gu_easy s)) addr f s) (\<lambda>s'. Inr (True, response,
      s'\<lparr>gu_framesToSend := take i (gu_framesToSend s') @ drop (i + 1) (gu_framesToSend s')\<rparr>)))"
    by (rule web_ok_bind) (use assms in \<open>auto intro: gui_next_drop [simplified] gui_next_rings\<close>)
qed


text \<open>A frame to send stays one.\<close>

definition sendable :: "jframe \<Rightarrow> bool" where
  "sendable f \<longleftrightarrow> frame_ok f \<and> payload_isGenericFrame (mBody f)"

lemma masked_member_bind: "(\<And>x. web_ok Q (f x)) \<Longrightarrow> web_ok Q (web_bind (masked_member J bits v k) f)"
  by (rule web_ok_bind [where Q = "\<lambda>_. True"]) (auto simp: masked_member_def intro!: web_ok_member_bind)

lemma set_header_ok: "sendable f \<Longrightarrow> web_ok sendable (set_header J request f)"
  unfolding set_header_def Let_def
  by (intro masked_member_bind) (auto simp: sendable_def split: option.split)

lemma set_spn_value_ok: "getSPN g n \<noteq> None \<Longrightarrow> web_ok (\<lambda>_. True) (set_spn_value J request n g)"
  by (auto simp: set_spn_value_def intro!: masked_member_bind web_ok_member_bind split: spn_data.split)

lemma sendable_generic:
  assumes "sendable f" and "payload_generic (mBody f) = Some g"
  shows "sendable (f\<lparr>mBody := set_generic g' (mBody f)\<rparr>)"
proof -
  have "payload_isGenericFrame (set_generic g' (mBody f)) = payload_isGenericFrame (mBody f)"
    by (cases "mBody f") simp_all
  moreover have "frame_ok (f\<lparr>mBody := set_generic g' (mBody f)\<rparr>)"
    by (subst frame_ok_like [of _ f]) (use assms set_generic_class [OF assms(2)] in \<open>simp_all add: sendable_def frame_ok_def\<close>)
  ultimately show ?thesis using assms(1) by (simp add: sendable_def)
qed

lemma set_spn_ok:
  assumes "sendable f"
  shows "web_ok sendable (set_spn J request f)"
proof (cases "payload_generic (mBody f)")
  case None
  with assms show ?thesis by (simp add: set_spn_def)
next
  case (Some g)
  have "web_ok sendable (web_bind (set_spn_value J request n g) (\<lambda>g'. Inr (f\<lparr>mBody := set_generic g' (mBody f)\<rparr>)))"
    if "hasSPN g n" for n
    by (rule web_ok_bind [OF set_spn_value_ok])
       (use that sendable_generic [OF assms Some] in \<open>simp_all add: hasSPN_def getSPN_def\<close>)
  then show ?thesis
    unfolding set_spn_def Some option.case using assms by (intro web_ok_member_bind) (auto split: option.split)
qed

lemma gui_next_put_frame:
  assumes "gui_ok s" and "gu_framesToSend s ! i = (addr, f0)" and "i < length (gu_framesToSend s)" and "sendable f"
  shows "gui_next s (s\<lparr>gu_framePeriods := p, gu_framesToSend := (gu_framesToSend s)[i := (addr, f)]\<rparr>)"
proof -
  have "addr < gu_allocated s"
    using assms(1) nth_mem [OF assms(3)] assms(2) by (auto simp: gui_ok_def)
  moreover have "map fst ((gu_framesToSend s)[i := (addr, f)]) = map fst (gu_framesToSend s)"
    using assms(2,3) by (simp add: map_update) (metis fst_conv list_update_id map_update)
  moreover have "set ((gu_framesToSend s)[i := (addr, f)]) \<subseteq> insert (addr, f) (set (gu_framesToSend s))"
    by (rule set_update_subset_insert)
  ultimately show ?thesis
    using assms(1,4) by (fastforce simp: gui_next_def gui_ok_def sendable_def)
qed

lemma switch_request_ok:
  "gui_ok s \<Longrightarrow> frame_ok f \<Longrightarrow> web_ok (only_rings s) (switch_request J request addr f s)"
  unfolding switch_request_def
  by (rule web_ok_member_bind) (auto intro!: only_rings_refl switch_ifaces_ok web_ok_json_bind split: option.split)

lemma request_setFrame_ok:
  assumes "gui_ok s"
  shows "request_ok s (request_setFrame J request response s)"
  unfolding request_setFrame_def
proof (rule with_index_ok [OF assms])
  fix i addr f0
  assume i: "i < length (gu_framesToSend s)" "gu_framesToSend s ! i = (addr, f0)"
    and "frame_ok f0" "payload_isGenericFrame (mBody f0)"
  then have f0: "sendable f0" by (simp add: sendable_def)
  have rest: "request_ok s (web_bind (resend_sent is addr f s') (\<lambda>s'.
       web_bind (switch_request J request addr f s') (\<lambda>s'. Inr (True, response, s'))))"
    if s': "gui_next s s'" and f: "frame_ok f" for s' f "is"
  proof (rule web_ok_bind [OF resend_sent_ok [OF _ f]])
    show ok: "gui_ok s'" using s' by (simp add: gui_next_def)
    fix s1 assume "only_rings s' s1"
    with ok have s1: "gui_ok s1" "gui_next s' s1" by (auto intro: only_rings_ok gui_next_rings)
    show "request_ok s (web_bind (switch_request J request addr f s1) (\<lambda>s'. Inr (True, response, s')))"
      by (rule web_ok_bind [OF switch_request_ok [OF s1(1) f]])
         (use s1 s' in \<open>auto intro: gui_next_trans gui_next_rings\<close>)
  qed
  show "request_ok s (web_bind (set_header J request f0) (\<lambda>frame.
       web_bind (uint_member J request ''period'') (\<lambda>period.
       web_bind (set_spn J request frame) (\<lambda>frame.
         let s = s\<lparr>gu_framePeriods := (case period of None \<Rightarrow> gu_framePeriods s
                                       | Some p \<Rightarrow> smap_put addr p (gu_framePeriods s)),
                    gu_framesToSend := (gu_framesToSend s)[i := (addr, frame)]\<rparr>
         in web_bind (resend_sent (ez_mInitializedIfaces (gu_easy s)) addr frame s) (\<lambda>s.
            web_bind (switch_request J request addr frame s) (\<lambda>s. Inr (True, response, s)))))))"
    unfolding Let_def
    by (rule web_ok_bind [OF set_header_ok [OF f0]], rule web_ok_member_bind, erule web_ok_bind [OF set_spn_ok],
        rule rest, erule gui_next_put_frame [OF assms i(2,1)]) (simp add: sendable_def)
qed

lemma processRequest_ok: "gui_ok s \<Longrightarrow> request_ok s (processRequest J request response s)"
  unfolding processRequest_def
  by (rule web_ok_json_bind, rule web_ok_json_bind, rule web_ok_json_bind)
     (simp add: request_showRaw_ok request_listFrames_ok request_addFrame_ok request_deleteFrame_ok
       request_setFrame_ok gui_next_refl)


section \<open>The websocket\<close>

lemma frameToJson_ok: "class_ok f \<Longrightarrow> web_ok (\<lambda>_. True) (frameToJson J f)"
  unfolding frameToJson_def
  by (rule web_ok_json_bind) (cases "mBody f"; simp add: class_ok_def reserved_pgns_def)

lemma iface_assigns_ok: "frame_ok f \<Longrightarrow> web_ok (\<lambda>_. True) (iface_assigns J i f is s v)"
proof (induction "is" arbitrary: v)
  case (Cons a "is")
  show ?case
    unfolding iface_assigns.simps
    by (rule web_ok_bind [OF gui_isFrameSent_ok [OF Cons.prems]], rule web_ok_json_bind, rule Cons.IH [OF Cons.prems])
qed simp

lemma sent_frames_json_ok:
  "\<forall>(a, f) \<in> set fs. frame_ok f \<Longrightarrow> web_ok (\<lambda>_. True) (sent_frames_json J i fs s v)"
proof (induction fs arbitrary: i v)
  case (Cons p fs)
  obtain a f where p: "p = (a, f)" by fastforce
  with Cons.prems have f: "frame_ok f" "class_ok f" by (simp_all add: frame_ok_def)
  have rest: "web_ok (\<lambda>_. True) (sent_frames_json J (i + 1) fs s v)" for v
    using Cons by simp
  show ?case
    unfolding p sent_frames_json.simps
    by (rule web_ok_bind [OF frameToJson_ok [OF f(2)]], rule web_ok_json_bind,
        rule web_ok_bind [where Q = "\<lambda>_. True"], simp split: option.split,
        rule web_ok_bind [OF iface_assigns_ok [OF f(1)]], rule rest)
qed simp

lemma sentFramesToJson_ok: "gui_ok s \<Longrightarrow> web_ok (\<lambda>_. True) (sentFramesToJson J s v)"
  unfolding sentFramesToJson_def by (rule sent_frames_json_ok) (auto simp: gui_ok_def)

lemma resetReceiver_ok: "gui_ok s \<Longrightarrow> gui_ok (resetReceiver s)"
  by (simp add: resetReceiver_def gui_ok_def)

lemma check_rx_ok: "gui_ok s \<Longrightarrow> web_ok gui_ok (check_rx J s)"
  unfolding check_rx_def Let_def
  by (rule web_ok_json_bind, rule web_ok_json_bind, rule web_ok_json_bind) simp

lemma respond_ok:
  assumes "gui_ok s"
  shows "web_ok gui_ok (web_bind (of_json (js_get J response ''frames'')) (\<lambda>v.
     web_bind (sentFramesToJson J s v) (\<lambda>v.
     web_bind (of_json (js_set J response ''frames'' v)) (\<lambda>response.
       Inr (s\<lparr>gu_jsonResponses := gu_jsonResponses s @ [response]\<rparr>)))))"
  by (rule web_ok_json_bind, rule web_ok_bind [OF sentFramesToJson_ok [OF assms]], rule web_ok_json_bind)
     (simp add: assms)

lemma handle_request_ok:
  assumes "gui_ok s"
  shows "web_ok gui_ok (handle_request J request s)"
  unfolding handle_request_def
proof (rule web_ok_member_bind)
  fix command
  let ?process = "web_bind (processRequest J request (js_null J) s) (\<lambda>(respond, response, s).
      if \<not> respond then Inr s
      else web_bind (of_json (js_get J response ''frames'')) (\<lambda>v.
           web_bind (sentFramesToJson J s v) (\<lambda>v.
           web_bind (of_json (js_set J response ''frames'' v)) (\<lambda>response.
             Inr (s\<lparr>gu_jsonResponses := gu_jsonResponses s @ [response]\<rparr>)))))"
  have "web_ok gui_ok ?process"
    by (rule web_ok_bind [OF processRequest_ok [OF assms]])
       (use respond_ok in \<open>auto simp: gui_next_def split: prod.split\<close>)
  then show "web_ok gui_ok (case command of None \<Rightarrow> Inr s
      | Some c \<Rightarrow> if c = ''reset rx'' then Inr (resetReceiver s)
                  else if c = ''check rx'' then check_rx J s else ?process)"
    using assms by (cases command) (auto intro: resetReceiver_ok check_rx_ok)
qed

lemma callback_j1939_ok: "gui_ok s \<Longrightarrow> web_ok (\<lambda>(out, s'). gui_ok s') (callback_j1939 J parse e s)"
proof (induction J parse e s rule: callback_j1939.induct)
  case (2 J parse input s)
  then have "web_ok gui_ok (handle_request J v (s\<lparr>gu_rcvRequest := []\<rparr>))" for v
    by (intro handle_request_ok) simp
  then have "web_ok (\<lambda>(out, s'). gui_ok s')
      (web_bind (handle_request J v (s\<lparr>gu_rcvRequest := []\<rparr>)) (\<lambda>s. Inr (None :: 'a option, s)))" for v
    by (rule web_ok_bind) simp
  with 2 show ?case by (simp add: Let_def split: option.split)
qed (auto simp: resetReceiver_ok split: list.split)

section \<open>Reception\<close>

lemma count_frame_keeps: "count_frame J i s = Inr s' \<Longrightarrow>
    \<exists>c v. s' = s\<lparr>gu_rcvFramesCount := c, gu_rxFrames := v\<rparr>"
  by (auto simp: count_frame_def Let_def web_bind_Inr_iff)

lemma report_frame_keeps: "report_frame J f s = Inr s' \<Longrightarrow> \<exists>v. s' = s\<lparr>gu_rxFrames := v\<rparr>"
  by (auto simp: report_frame_def web_bind_Inr_iff)

lemma save_spns_keeps: "save_spns i g ns now s = Inr s' \<Longrightarrow> \<exists>h. s' = s\<lparr>gu_historyMap := h\<rparr>"
proof (induction ns arbitrary: s)
  case Nil
  then show ?case by (intro exI [of _ "gu_historyMap s"]) simp
next
  case (Cons n ns)
  then obtain spn s1 where "saveToHistory i spn now s = Inr s1" "save_spns i g ns now s1 = Inr s'"
    by (auto simp: web_bind_Inr_iff split: option.splits)
  with Cons.IH [of s1] show ?case by (auto simp: saveToHistory_def Let_def web_bind_Inr_iff)
qed

lemma gui_ok_cache:
  assumes "gui_ok s" and "cf_mId c = i"
  shows "gui_ok (s\<lparr>gu_rcvFramesCache := smap_put i c (gu_rcvFramesCache s)\<rparr>)"
proof -
  have "set (smap_put i c m) \<subseteq> insert (i, c) (set m)" for m by (induction m) (auto split: if_splits)
  with assms show ?thesis by (fastforce simp: gui_ok_def)
qed

lemma receive_plain_keeps:
  assumes "receive_plain now c f s = Inr s'" and "gui_ok s"
  shows "gui_ok s'"
proof -
  obtain h where s': "s' = s\<lparr>gu_historyMap := h, gu_rcvFramesCache := smap_put (cf_mId c) c (gu_rcvFramesCache s)\<rparr>"
    using assms(1)
    by (auto simp: receive_plain_def Let_def web_bind_Inr_iff dest!: save_spns_keeps
        split: option.splits intro: that [of "gu_historyMap s"])
  from gui_ok_cache [of "s\<lparr>gu_historyMap := h\<rparr>", OF _ refl] assms(2) show ?thesis by (simp add: s')
qed

text \<open>A complete message is taken out of the reassembler at once.\<close>

lemma handleFrame_one:
  assumes "handleFrame get junk f r = Inr (n, r')" and "mReassembledFrames r = []"
    and "\<And>i b g. get i b = Inr (Some g) \<Longrightarrow> class_ok g"
  shows "mReassembledFrames r' = [] \<or> (\<exists>g. mReassembledFrames r' = [g] \<and> class_ok g)"
  using assms
  by (auto simp: handleFrame_def handle_cm_def handle_dt_def setError_def Let_def
      split: if_splits option.splits sum.splits)

lemma receive_transport_keeps:
  assumes "receive_transport J junk f s = Inr (whole, s')" and "gui_ok s"
  shows "gui_ok s' \<and> (\<forall>g. whole = Some g \<longrightarrow> class_ok g)"
proof -
  have fac: "getJ1939Frame (gu_factory s) i b = Inr (Some g) \<Longrightarrow> class_ok g" for i b g
    using assms(2) getJ1939Frame_class_ok by (auto simp: gui_ok_def)
  obtain n r where r: "handleFrame (getJ1939Frame (gu_factory s)) junk f (gu_reassembler s) = Inr (n, r)"
    using assms(1) by (auto simp: receive_transport_def web_bind_Inr_iff)
  have "mReassembledFrames (gu_reassembler s) = []" using assms(2) by (simp add: gui_ok_def)
  from handleFrame_one [OF r this] fac
  have "mReassembledFrames r = [] \<or> (\<exists>g. mReassembledFrames r = [g] \<and> class_ok g)" by blast
  then show ?thesis
  proof (elim disjE exE conjE)
    assume "mReassembledFrames r = []"
    with r assms show ?thesis by (auto simp: receive_transport_def reassembledFramesPending_def gui_ok_def)
  next
    fix g assume g: "mReassembledFrames r = [g]" "class_ok g"
    then have "dequeueReassembledFrame r = Inr (g, r\<lparr>mReassembledFrames := []\<rparr>)"
      by (simp add: dequeueReassembledFrame_def)
    with g r assms show ?thesis
      by (auto simp: receive_transport_def reassembledFramesPending_def web_bind_Inr_iff gui_ok_def
          dest!: count_frame_keeps)
  qed
qed

lemma gui_received:
  assumes "(if same then Inr s
     else web_bind (of_res decode) (\<lambda>decoded.
       case decoded of
         None \<Rightarrow> if \<not> raw then Inr s else web_bind (of_json x) (\<lambda>v. Inr (A v))
       | Some f \<Rightarrow>
           web_bind (T f) (\<lambda>transport.
           web_bind (if transport then B f else web_bind (P f) (\<lambda>s. Inr (Some f, s))) (\<lambda>(whole, s).
             case whole of None \<Rightarrow> Inr s | Some f \<Rightarrow> R f s)))) = Inr s'"
  obtains "s' = s" | v where "s' = A v"
    | f whole s2 where "decode = Inr (Some f)" and "B f = Inr (whole, s2)"
        "(case whole of None \<Rightarrow> Inr s2 | Some g \<Rightarrow> R g s2) = Inr s'"
    | f s2 where "decode = Inr (Some f)" and "P f = Inr s2" "R f s2 = Inr s'"
  using assms
  by (cases same; cases decode) (auto simp: web_bind_Inr_iff split: if_splits option.splits)

lemma gui_onRcv_keeps:
  assumes "gui_onRcv J now junk c s = Inr s'" and "gui_ok s"
  shows "gui_ok s'"
proof -
  obtain s1 where count: "count_frame J (cf_mId c) s = Inr s1"
    using assms(1) by (auto simp: gui_onRcv_def web_bind_Inr_iff)
  then have s1: "gui_ok s1" using count_frame_keeps assms(2) by fastforce
  consider (same) "s' = s1"
    | (raw) v where "s' = s1\<lparr>gu_rxFrames := v, gu_rcvFramesCache := smap_put (cf_mId c) c (gu_rcvFramesCache s1)\<rparr>"
    | (transport) f whole s2 where "receive_transport J junk f s1 = Inr (whole, s2)"
        "(case whole of None \<Rightarrow> Inr s2 | Some g \<Rightarrow> report_frame J g s2) = Inr s'"
    | (plain) f s2 where "receive_plain now c f s1 = Inr s2" "report_frame J f s2 = Inr s'"
    using assms(1) unfolding gui_onRcv_def count web_bind.simps
    by (elim gui_received) blast+
  then show ?thesis
  proof cases
    case raw
    from gui_ok_cache [of "s1\<lparr>gu_rxFrames := v\<rparr>", OF _ refl] s1 show ?thesis by (simp add: raw)
  next
    case transport
    from receive_transport_keeps [OF transport(1) s1] transport(2) show ?thesis
      by (auto dest!: report_frame_keeps split: option.splits)
  next
    case plain
    from receive_plain_keeps [OF plain(1) s1] plain(2) show ?thesis by (auto dest!: report_frame_keeps)
  qed (simp add: s1)
qed

section \<open>The whole program\<close>

text \<open>An event of the websocket, a frame from the bus, a pass of the thread of a sender.\<close>

inductive gui_step :: "'v json_lib \<Rightarrow> (string \<Rightarrow> 'v option) \<Rightarrow> 'v gui \<Rightarrow> 'v gui \<Rightarrow> bool"
  for J parse where
  socket: "callback_j1939 J parse e s = Inr (out, s') \<Longrightarrow> gui_step J parse s s'"
| served: "gui_step J parse s (serviced s)"
| frame: "gui_onRcv J now junk c s = Inr s' \<Longrightarrow> gui_step J parse s s'"
| pass: "run_pass now (gu_rings s i) = Inr (sent, rs) \<Longrightarrow>
    gui_step J parse s (s\<lparr>gu_rings := (gu_rings s)(i := rs)\<rparr>)"

lemma gui_step_ok: "gui_step J parse s s' \<Longrightarrow> gui_ok s \<Longrightarrow> gui_ok s'"
proof (induction rule: gui_step.induct)
  case (socket e s out s')
  from callback_j1939_ok [OF socket(2), of J parse e] socket(1) show ?case by simp
next
  case (served s)
  then show ?case by (simp add: serviced_def)
next
  case (frame now junk c s s')
  then show ?case by (rule gui_onRcv_keeps)
next
  case (pass now s i sent rs)
  then have "sender_ok rs"
    using run_pass_keeps [of now "gu_rings s i" sent rs] by (auto simp: gui_ok_def sender_ok_def)
  with pass show ?case by (auto simp: gui_ok_def)
qed

lemma gui_steps_ok: "(gui_step J parse)\<^sup>*\<^sup>* s s' \<Longrightarrow> gui_ok s \<Longrightarrow> gui_ok s'"
  by (induction rule: rtranclp_induct) (auto intro: gui_step_ok)

lemma easy_start_recv:
  "\<forall>i \<in> set (ez_mInitializedIfaces s). getSender i s \<noteq> None \<Longrightarrow>
     let s' = fold (\<lambda>e s. easy_add_sender e (s\<lparr>ez_mReceivers := ez_mReceivers s @ [e]\<rparr>)) hs s
     in \<forall>i \<in> set (ez_mInitializedIfaces s'). getSender i s' \<noteq> None"
proof (induction hs arbitrary: s)
  case (Cons h hs)
  let ?s = "easy_add_sender h (s\<lparr>ez_mReceivers := ez_mReceivers s @ [h]\<rparr>)"
  have "\<forall>i \<in> set (ez_mInitializedIfaces ?s). getSender i ?s \<noteq> None"
    using Cons.prems by (auto simp: easy_add_sender_def getSender_def set_set_insert smap_find_put)
  from Cons.IH [OF this] show ?case by simp
qed simp

lemma gui_start_ok: "web_ok (\<lambda>r. \<forall>s. r = Some s \<longrightarrow> gui_ok s) (gui_start J specs database ifaces init)"
proof -
  obtain m where m: "J1939Factory specs = Inr m" "factory_ok m" "all_reserved m" "\<forall>(p, f) \<in> set m. frame_ok f"
    using factory_start by blast
  let ?easy = "easy_initialize_recv ifaces init
    \<lparr>ez_mSenders = [], ez_mReceivers = [], ez_mInitializedIfaces = [], ez_mHelpers = []\<rparr>"
  have "\<forall>i \<in> set (ez_mInitializedIfaces ?easy). getSender i ?easy \<noteq> None"
    unfolding easy_initialize_recv_def Let_def by (rule easy_start_recv [unfolded Let_def]) simp
  moreover have "sender_ok []" by (simp add: sender_ok_def)
  ultimately show ?thesis
    using registered_ok [OF m(2-4)]
    by (auto simp: gui_start_def m(1) gui_ok_def Let_def BamReassembler_def web_ok_json_bind split: option.split)
qed


lemma gui_start_defined: "gui_start J specs database ifaces init = Inr (Some s) \<Longrightarrow> gui_ok s"
  using gui_start_ok [of J specs database ifaces init] by simp

section \<open>What is sent\<close>

lemma gui_send_eq:
  "getSender i (gu_easy s) \<noteq> None \<Longrightarrow> gui_sendFrameThroughInterface f p i s =
     web_bind (of_res (wire_frames f)) (\<lambda>cs.
       Inr (s\<lparr>gu_rings := (gu_rings s)(i := snd (sendFrames cs p None (gu_rings s i)))\<rparr>))"
proof (cases "jframe_getDataLength f > MAX_CAN_DATA_SIZE")
  case False
  have "\<exists>c. cs = [c]" if "can_frames [f] c0 = Inr cs" for c0 cs
    using that by (auto simp: res_bind_Inr_iff split_beta)
  moreover assume "getSender i (gu_easy s) \<noteq> None"
  ultimately show ?thesis
    using False by (cases "can_frames [f] (CanFrame_default True)")
       (fastforce simp: gui_sendFrameThroughInterface_def wire_frames_def sendFrame_def)+
qed (auto simp: gui_sendFrameThroughInterface_def wire_frames_def)

lemma gui_isFrameSent_eq:
  "wire_frames f = Inr cs \<Longrightarrow> getSender i (gu_easy s) \<noteq> None \<Longrightarrow>
     gui_isFrameSent f i s = Inr (sent_ring (gu_rings s i) (map cf_mId cs) \<noteq> None)"
  using rings.sent_lookup [of "map cf_mId cs" "gu_rings s i"]
  by (auto simp: gui_isFrameSent_def wire_ids_frames)

lemma gui_unsend_ifaces_rings:
  "gui_unsend_ifaces is m ids s = Inr s' \<Longrightarrow> \<forall>i. sender_ok (gu_rings s i) \<Longrightarrow>
    gu_easy s' = gu_easy s \<and> sent_ring (gu_rings s' j) =
      (if j \<in> set is \<and> (m = [] \<or> to_iface m = j) then (sent_ring (gu_rings s j))(ids := None)
       else sent_ring (gu_rings s j))"
proof (induction "is" arbitrary: s)
  case (Cons i "is")
  show ?case
  proof (cases "m = [] \<or> to_iface m = i")
    case True
    let ?s = "s\<lparr>gu_rings := (gu_rings s)(i := unSendFrames ids (gu_rings s i))\<rparr>"
    have s': "gui_unsend_ifaces is m ids ?s = Inr s'"
      using Cons.prems(1) True by (auto split: option.splits)
    have "\<forall>k. sender_ok (gu_rings ?s k)" using Cons.prems(2) rings.ok_unsend by simp
    from Cons.IH [OF s' this] True show ?thesis
      using rings.lookup_unsend [of "gu_rings s i" ids] Cons.prems(2) by auto
  qed (use Cons in auto)
qed simp

section \<open>Properties\<close>

text \<open>C22: The protocol of the frames: whatever its clients send and however their messages are cut, and after any
  receptions and passes of the sending threads that are themselves defined, no event of \<open>callback_j1939\<close> is undefined
  behaviour, whatever the JSON library answers. The frames to send stay generic frames of the right class under
  distinct addresses, every initialized interface keeps its sender, no ring is doubled and no reassembled frame is
  left behind. It is not claimed of the protocol of the graphs (\<open>graph_request_undefined\<close> in \<open>GuiGraph\<close>), nor that
  a reception is defined (\<open>first_generic_frame_undefined\<close>).\<close>

theorem gui_requests_defined:
  assumes "gui_start J specs database ifaces init = Inr (Some s0)" and "(gui_step J parse)\<^sup>*\<^sup>* s0 s"
  shows "gui_ok s \<and> callback_j1939 J parse e s \<noteq> Inl (Thrown UndefinedBehaviour)"
proof -
  have s: "gui_ok s" using gui_steps_ok [OF assms(2)] gui_start_defined [OF assms(1)] by blast
  from callback_j1939_ok [OF s, of J parse e] show ?thesis
    using s by (cases "callback_j1939 J parse e s") auto
qed

lemma gui_started:
  "\<exists>s0. gui_start tree_json 0 (Some []) (\<lambda>b. [to_iface ''can0'']) (\<lambda>b i. True) = Inr (Some s0)"
proof -
  obtain m where m: "J1939Factory 0 = Inr m" using factory_start by blast
  let ?easy = "easy_initialize_recv (\<lambda>b. [to_iface ''can0'']) (\<lambda>b i. True)
    \<lparr>ez_mSenders = [], ez_mReceivers = [], ez_mInitializedIfaces = [], ez_mHelpers = []\<rparr>"
  have "ez_mInitializedIfaces ?easy = [to_iface ''can0'']"
    by (simp add: easy_initialize_recv_def createCanHelpers_def add_helpers_def easy_add_sender_def Let_def)
  then show ?thesis by (simp add: gui_start_def m Let_def tree_json_def)
qed

definition add_request :: json where
  "add_request = JObject [(''command'', JString ''add frame''), (''pgn'', JNumber 61444)]"

definition add_parse :: "string \<Rightarrow> json option" where
  "add_parse r = (if r = ''{command: add frame, pgn: 61444}'' then Some add_request else None)"

text \<open>A client connects and sends a request in two pieces.\<close>

theorem gui_requests_defined_witness:
  "\<exists>s0. gui_start tree_json 0 (Some []) (\<lambda>b. [to_iface ''can0'']) (\<lambda>b i. True) = Inr (Some s0)
     \<and> (let s = (resetReceiver s0)\<lparr>gu_rcvRequest := ''{command: add ''\<rparr>
        in add_parse (gu_rcvRequest s @ ''frame, pgn: 61444}'') = Some add_request \<and> gui_ok s
         \<and> callback_j1939 tree_json add_parse (RECEIVE ''frame, pgn: 61444}'') s \<noteq> Inl (Thrown UndefinedBehaviour))"
proof -
  obtain s0 where s0: "gui_start tree_json 0 (Some []) (\<lambda>b. [to_iface ''can0'']) (\<lambda>b i. True) = Inr (Some s0)"
    using gui_started by blast
  let ?s = "(resetReceiver s0)\<lparr>gu_rcvRequest := ''{command: add ''\<rparr>"
  have one: "gui_step tree_json add_parse s0 (resetReceiver s0)"
    by (rule gui_step.socket [where e = ESTABLISHED and out = None]) simp
  have two: "gui_step tree_json add_parse (resetReceiver s0) (serviced (resetReceiver s0))" by (rule gui_step.served)
  have "gu_rcvRequest (serviced (resetReceiver s0)) = []" by (simp add: serviced_def)
  then have three: "gui_step tree_json add_parse (serviced (resetReceiver s0)) ?s"
    by (intro gui_step.socket [where e = "RECEIVE ''{command: add ''" and out = None]) (simp add: add_parse_def Let_def serviced_def)
  from one two have "(gui_step tree_json add_parse)\<^sup>*\<^sup>* s0 (serviced (resetReceiver s0))"
    by (meson rtranclp.rtrancl_into_rtrancl r_into_rtranclp)
  from this three have steps: "(gui_step tree_json add_parse)\<^sup>*\<^sup>* s0 ?s" by (rule rtranclp.rtrancl_into_rtrancl)
  have "add_parse (gu_rcvRequest ?s @ ''frame, pgn: 61444}'') = Some add_request" by (simp add: add_parse_def)
  with gui_requests_defined [OF s0 steps, of "RECEIVE ''frame, pgn: 61444}''"] s0 show ?thesis
    unfolding Let_def by (intro exI [of _ s0]) (simp only: simp_thms)
qed

lemma res_bind_undefined:
  assumes "\<And>e. m = Inl e \<Longrightarrow> e = UndefinedBehaviour" and "\<And>a. f a = Inl UndefinedBehaviour"
  shows "res_bind m f = Inl UndefinedBehaviour"
  using assms by (cases m) auto

lemma compare_undefined:
  assumes "(k, s) \<in> set m" and "0 < getByteSize s" and "getOffset s + unat (getByteSize s) \<le> length newData"
    and "length oldData + 1 < getOffset s + unat (getByteSize s)"
  shows "generic_compare m newData oldData = Inl UndefinedBehaviour"
  using assms
proof (induction m)
  case (Cons p m)
  have peek_UB: "peek off n bs = Inl e \<Longrightarrow> e = UndefinedBehaviour" for off n e and bs :: bytes
    by (auto simp: peek_def split: if_splits)
  have differs_UB: "(if b then res_bind (peek i n xs) (\<lambda>x. res_bind (peek i n ys) (\<lambda>y. Inr (x \<noteq> y))) else Inr True)
      = Inl e \<Longrightarrow> e = UndefinedBehaviour" for b i n e and xs ys :: bytes
    by (auto simp: res_bind_Inl_iff dest: peek_UB split: if_splits)
  obtain k' s' where p: "p = (k', s')" by fastforce
  show ?case
  proof (cases "(k, s) \<in> set m")
    case True
    with Cons have rec: "generic_compare m newData oldData = Inl UndefinedBehaviour" by simp
    show ?thesis
      unfolding p generic_compare.simps Let_def c_str_range_def
      by (rule res_bind_undefined, erule differs_UB) (simp add: rec)
  next
    case False
    with Cons.prems show ?thesis by (auto simp: p Let_def c_str_range_def peek_def)
  qed
qed simp

text \<open>The first time a generic frame is received, \<open>compare\<close> is given the empty data of a cache entry that
  the subscript has just created: with an SPN that ends behind the first byte, it reads past its end.\<close>

theorem first_generic_frame_undefined:
  assumes "count_frame J (cf_mId c) s = Inr s1"
    and "getJ1939Frame (gu_factory s) (cf_mId c) (cf_mData c) = Inr (Some f)" and "toBeHandled f = Inr False"
    and "smap_find (gu_rcvFramesCache s) (cf_mId c) = None"
    and "payload_generic (mBody f) = Some g" and "(n, spn) \<in> set (mSPNs g)" and "0 < getByteSize spn"
    and "1 < getOffset spn + unat (getByteSize spn)"
    and "getOffset spn + unat (getByteSize spn) \<le> length (cf_mData c)"
  shows "gui_onRcv J now junk c s = Inl (Thrown UndefinedBehaviour)"
proof -
  obtain v m where "s1 = s\<lparr>gu_rcvFramesCount := m, gu_rxFrames := v\<rparr>"
    using count_frame_keeps [OF assms(1)] by blast
  with compare_undefined [OF assms(6,7,9), of "[]"] assms show ?thesis
    by (simp add: gui_onRcv_def receive_plain_def)
qed

definition speed_spn :: SPN where
  "speed_spn = \<lparr>mSpecId = 9, mSpec = \<lparr>mSPNNumber = 84, mSpecName = ''Speed'', mSpecOffset = 1\<rparr>,
     mSpnData = SpnNumeric \<lparr>mFormatGain = Fin 1, mFormatOffset = Fin 0, mByteSize = 2, mUnits = ''km/h''\<rparr> 0\<rparr>"

definition speed_frame :: jframe where
  "speed_frame = \<lparr>mPriority = 6, mSrcAddr = 0x21, mPgn = 0xFEF1, mDstAddr = 0xFF, mName = ''CCVS'',
     mBody = Generic \<lparr>mLength = 8, mSPNs = [(84, speed_spn)]\<rparr>\<rparr>"

definition speed_gui :: "json gui" where
  "speed_gui = \<lparr>gu_rcvRequest = [], gu_jsonResponses = [], gu_rxFrames = JNull, gu_showRaw = False,
     gu_framesToSend = [(0, speed_frame)], gu_framePeriods = [], gu_allocated = 1,
     gu_reassembler = BamReassembler, gu_rxThread = True, gu_rcvFramesCache = [], gu_rcvFramesCount = [],
     gu_historyMap = [], gu_factory = [(0xFEF1, speed_frame)],
     gu_easy = \<lparr>ez_mSenders = [(to_iface ''can0'', SocketCan)], ez_mReceivers = [],
                ez_mInitializedIfaces = [to_iface ''can0''], ez_mHelpers = []\<rparr>,
     gu_rings = (\<lambda>i. [])\<rparr>"

lemma speed_gui_ok: "gui_ok speed_gui"
  by (simp add: gui_ok_def speed_gui_def speed_frame_def factory_ok_def frame_ok_def class_ok_def reserved_pgns_def
      smap_ok_Cons sender_ok_def getSender_def smap_find_def BamReassembler_def)

lemma speed_evaluated:
  "case getJ1939Frame (gu_factory speed_gui) 0x18FEF121 [0, 7, 0, 0, 0, 0, 0, 0] of
     Inr (Some f) \<Rightarrow> toBeHandled f = Inr False \<and> (case payload_generic (mBody f) of
       Some g \<Rightarrow> list_ex (\<lambda>(n, s). getByteSize s = 2 \<and> getOffset s = 1) (mSPNs g) | None \<Rightarrow> False)
   | _ \<Rightarrow> False"
  "is_ok (wire_frames speed_frame)"
  by code_simp+

theorem first_generic_frame_undefined_witness:
  "gui_onRcv tree_json (TimeStamp 5 0) (\<lambda>i. 0) (CanFrame_of True 0x18FEF121 [0, 7, 0, 0, 0, 0, 0, 0]) speed_gui
     = Inl (Thrown UndefinedBehaviour)"
proof -
  let ?c = "CanFrame_of True 0x18FEF121 [0, 7, 0, 0, 0, 0, 0, 0]"
  have c: "cf_mId ?c = 0x18FEF121" "cf_mData ?c = [0, 7, 0, 0, 0, 0, 0, 0]"
    by (simp_all add: CanFrame_of_def cf_setData_def)
  obtain f g n spn where f: "getJ1939Frame (gu_factory speed_gui) (cf_mId ?c) (cf_mData ?c) = Inr (Some f)"
    "toBeHandled f = Inr False" "payload_generic (mBody f) = Some g"
    "(n, spn) \<in> set (mSPNs g)" "getByteSize spn = 2" "getOffset spn = 1"
    using speed_evaluated(1) unfolding c by (auto simp: list_ex_iff split: sum.splits option.splits)
  obtain s1 where s1: "count_frame tree_json (cf_mId ?c) speed_gui = Inr s1"
    by (simp add: count_frame_def Let_def speed_gui_def tree_json_def)
  show ?thesis
    by (rule first_generic_frame_undefined [OF s1 f(1,2) _ f(3,4)])
       (use f(5,6) in \<open>simp_all add: c(2) speed_gui_def\<close>)
qed

text \<open>C23: Sending a frame through an initialized interface registers it there with its period and nowhere else;
  stopping it with the name of an interface takes it away from exactly that one, and with the empty name
  from all.\<close>

theorem gui_sends_and_stops:
  assumes "gui_ok s" and "wire_frames f = Inr cs" and "i \<in> set (ez_mInitializedIfaces (gu_easy s))"
  shows "\<exists>s1. gui_sendFrameThroughInterface f p i s = Inr s1
    \<and> sent_ring (gu_rings s1 i) (map cf_mId cs) = Some (setFrames cs (CanFrameRing p None))
    \<and> (\<forall>j. j \<noteq> i \<longrightarrow> gu_rings s1 j = gu_rings s j)
    \<and> gui_isFrameSent f i s1 = Inr True
    \<and> (\<forall>m s2. gui_unsendFrameThroughInterface f m s1 = Inr s2 \<longrightarrow>
         (\<forall>j \<in> set (ez_mInitializedIfaces (gu_easy s)).
            gui_isFrameSent f j s2 = (if m = [] \<or> to_iface m = j then Inr False else gui_isFrameSent f j s1)))"
proof -
  let ?s1 = "s\<lparr>gu_rings := (gu_rings s)(i := snd (sendFrames cs p None (gu_rings s i)))\<rparr>"
  have ok: "sender_ok (gu_rings s j)" for j using assms(1) by (simp add: gui_ok_def)
  have sender: "getSender j (gu_easy s) \<noteq> None" if "j \<in> set (ez_mInitializedIfaces (gu_easy s))" for j
    using that assms(1) by (auto simp: gui_ok_def)
  have send: "gui_sendFrameThroughInterface f p i s = Inr ?s1"
    using sender [OF assms(3)] assms(2) by (simp add: gui_send_eq)
  have ring: "sent_ring (gu_rings ?s1 i) (map cf_mId cs) = Some (setFrames cs (CanFrameRing p None))"
    using rings.lookup_send [OF ok [of i] wire_frames_not_Nil [OF assms(2)], of "(p, None)"] by simp
  have ok1: "\<forall>j. sender_ok (gu_rings ?s1 j)" using ok sender_ok_send [OF ok [of i]] by simp
  have "gui_isFrameSent f j s2 = (if m = [] \<or> to_iface m = j then Inr False else gui_isFrameSent f j ?s1)"
    if "gui_unsendFrameThroughInterface f m ?s1 = Inr s2" "j \<in> set (ez_mInitializedIfaces (gu_easy s))" for m s2 j
  proof -
    have "gui_unsend_ifaces (ez_mInitializedIfaces (gu_easy s)) m (map cf_mId cs) ?s1 = Inr s2"
      using that(1) by (simp add: gui_unsendFrameThroughInterface_def wire_ids_frames [OF assms(2)])
    from gui_unsend_ifaces_rings [OF this ok1, of j] that(2) sender [OF that(2)] show ?thesis
      by (simp add: gui_isFrameSent_eq [OF assms(2)])
  qed
  with send ring gui_isFrameSent_eq [OF assms(2), of i ?s1] sender [OF assms(3)] show ?thesis
    by (intro exI [of _ ?s1]) auto
qed

theorem gui_sends_and_stops_witness:
  "\<exists>cs s1. wire_frames speed_frame = Inr cs
     \<and> gui_sendFrameThroughInterface speed_frame 100 (to_iface ''can0'') speed_gui = Inr s1
     \<and> gui_isFrameSent speed_frame (to_iface ''can0'') s1 = Inr True"
proof -
  obtain cs where cs: "wire_frames speed_frame = Inr cs"
    using speed_evaluated(2) by (auto simp: is_ok_iff)
  have "to_iface ''can0'' \<in> set (ez_mInitializedIfaces (gu_easy speed_gui))" by (simp add: speed_gui_def)
  from gui_sends_and_stops [OF speed_gui_ok cs this, of 100] cs show ?thesis by blast
qed

end
