(* ===== verification/GuiGraph.thy ===== *)
theory GuiGraph
  imports Gui
begin

unbundle bit_operations_syntax

text \<open>
  The graphs of the web back end (\<open>GUI_WEB/backend/src/graph.cpp\<close>): a client asks for the history of an SPN,
  which \<open>saveToHistory\<close> of \<open>Gui\<close> records. The message that is generated from \<open>graph.proto\<close> is the record
  \<open>graph\<close>; its serialisation is the library's.
\<close>

record axis =
  ax_units :: string
  ax_max :: double
  ax_min :: double

record graph =
  gr_axisX :: axis
  gr_axisY :: axis
  gr_samples :: "(double \<times> double) list"

definition empty_axis :: axis where
  "empty_axis = \<lparr>ax_units = [], ax_max = Fin 0, ax_min = Fin 0\<rparr>"

definition empty_graph :: graph where
  "empty_graph = \<lparr>gr_axisX = empty_axis, gr_axisY = empty_axis, gr_samples = []\<rparr>"

text \<open>The cast of a \<open>double\<close> to \<open>u32\<close>, which is undefined when the number does not fit.\<close>

definition to_u32 :: "double \<Rightarrow> u32 res" where
  "to_u32 d =
     (if d \<noteq> NaN \<and> \<not> d_is_inf d \<and> 0 \<le> d_trunc d \<and> d_trunc d < 2 ^ 32
      then Inr (word_of_int (d_trunc d)) else Inl UndefinedBehaviour)"

definition ts_seconds_double :: "TimeStamp \<Rightarrow> double" where
  "ts_seconds_double t =
     d_add (d_of_nat (unat (mSeconds t))) (d_div (d_of_nat (unat (mMicroSec t))) (d_of_nat 1000000))"

text \<open>A time that was asked for is relative to the start of the program.\<close>

definition graph_current :: "TimeStamp \<Rightarrow> TimeStamp \<Rightarrow> double \<Rightarrow> TimeStamp res" where
  "graph_current startUpTime now time =
     (if d_lt (Fin 0) time
      then res_bind (to_u32 time) (\<lambda>secs.
           res_bind (to_u32 (d_mul time (d_of_nat 1000000))) (\<lambda>micros.
             Inr (ts_plus startUpTime (TimeStamp secs (micros mod 1000000)))))
      else Inr now)"

fun graph_samples :: "TimeStamp \<Rightarrow> Sample list \<Rightarrow> (double \<times> double) list res" where
  "graph_samples startUpTime [] = Inr []"
| "graph_samples startUpTime (s # ss) =
     res_bind (getNumeric s) (\<lambda>y.
     res_bind (graph_samples startUpTime ss) (\<lambda>rest.
       Inr ((ts_seconds_double (ts_minus (getTimeStamp s) startUpTime), y) # rest)))"

text \<open>\<open>None\<close> is a computation that never returns.\<close>

definition getGraphFromSPN ::
  "(u64, history) smap \<Rightarrow> TimeStamp \<Rightarrow> TimeStamp \<Rightarrow> u32 \<Rightarrow> u32 \<Rightarrow> u32 \<Rightarrow> u32 \<Rightarrow> double \<Rightarrow> graph option res" where
  "getGraphFromSPN historyMap startUpTime now i spn number period time =
     (case smap_find historyMap (ucast i OR push_bit 32 (ucast spn)) of
        None \<Rightarrow> Inr (Some empty_graph)
      | Some h \<Rightarrow>
          (case mNumericSpec h of
             None \<Rightarrow> Inr (Some empty_graph)
           | Some spec \<Rightarrow>
               res_bind (graph_current startUpTime now time) (\<lambda>current.
                 let start = ts_minus_millis current period;
                     axisX = \<lparr>ax_units = ''s'', ax_max = ts_seconds_double (ts_minus current startUpTime),
                              ax_min = ts_seconds_double (ts_minus start startUpTime)\<rparr>;
                     axisY = \<lparr>ax_units = mUnits spec, ax_max = formatValue spec (getMaxValue spec),
                              ax_min = formatValue spec 0\<rparr>
                 in res_bind (getWindow h current period number) (\<lambda>window.
                      case window of
                        None \<Rightarrow> Inr None
                      | Some samples \<Rightarrow>
                          res_bind (graph_samples startUpTime samples) (\<lambda>points.
                            Inr (Some \<lparr>gr_axisX = axisX, gr_axisY = axisY, gr_samples = points\<rparr>))))))"

section \<open>The websocket\<close>

record user_data =
  ud_graph :: graph
  ud_toSend :: bool

definition UserData_new :: user_data where
  "UserData_new = \<lparr>ud_graph = empty_graph, ud_toSend = False\<rparr>"

text \<open>
  The arguments of a request for a graph, \<open>None\<close> when one is missing. \<open>exceeds\<close> is the library's comparison
  of a value with 10000.
\<close>

definition graph_request ::
  "'v json_lib \<Rightarrow> ('v \<Rightarrow> bool) \<Rightarrow> 'v \<Rightarrow> (u32 \<times> u32 \<times> u32 \<times> u32 \<times> double) option web" where
  "graph_request J exceeds rcvjson =
     web_bind (member_as J (js_isString J) (js_asString J) rcvjson ''command'') (\<lambda>command.
       if command \<noteq> Some ''get graph'' then Inr None
       else
         web_bind (uint_member J rcvjson ''id'') (\<lambda>i. case i of None \<Rightarrow> Inr None | Some i \<Rightarrow>
         web_bind (uint_member J rcvjson ''spn'') (\<lambda>spn. case spn of None \<Rightarrow> Inr None | Some spn \<Rightarrow>
         web_bind (uint_member J rcvjson ''samples'') (\<lambda>samples. case samples of None \<Rightarrow> Inr None | Some samples \<Rightarrow>
         web_bind (uint_member J rcvjson ''period'') (\<lambda>period. case period of None \<Rightarrow> Inr None | Some period \<Rightarrow>
         web_bind (of_json (js_get J rcvjson ''samples'')) (\<lambda>v.
         web_bind (member_as J (js_isDouble J) (js_asDouble J) rcvjson ''time'') (\<lambda>time.
           Inr (Some (i, spn, if exceeds v then 10000 else samples, period,
                      case time of None \<Rightarrow> Fin 0 | Some t \<Rightarrow> t)))))))))"

text \<open>The callback for one session; what is written is returned, and \<open>None\<close> when it never returns.\<close>

fun callback_graph ::
  "'v json_lib \<Rightarrow> ('v \<Rightarrow> bool) \<Rightarrow> (string \<Rightarrow> 'v option) \<Rightarrow> (u64, history) smap \<Rightarrow> TimeStamp \<Rightarrow> TimeStamp \<Rightarrow> lws_event
   \<Rightarrow> user_data \<Rightarrow> (graph option \<times> user_data) option web" where
  "callback_graph J exceeds parse historyMap startUpTime now ESTABLISHED u = Inr (Some (None, UserData_new))"
| "callback_graph J exceeds parse historyMap startUpTime now (RECEIVE input) u =
     (case parse input of
        None \<Rightarrow> Inr (Some (None, u))
      | Some rcvjson \<Rightarrow>
          web_bind (graph_request J exceeds rcvjson) (\<lambda>request.
            case request of
              None \<Rightarrow> Inr (Some (None, u))
            | Some (i, spn, samples, period, time) \<Rightarrow>
                web_bind (of_res (getGraphFromSPN historyMap startUpTime now i spn samples period time)) (\<lambda>g.
                  Inr (map_option (\<lambda>g. (None, \<lparr>ud_graph = g, ud_toSend = True\<rparr>)) g))))"
| "callback_graph J exceeds parse historyMap startUpTime now WRITEABLE u =
     (if \<not> ud_toSend u then Inr (Some (None, u))
      else Inr (Some (Some (ud_graph u), u\<lparr>ud_toSend := False\<rparr>)))"

section \<open>Properties\<close>

lemma graph_samples_values:
  assumes "\<And>s. s \<in> set ss \<Longrightarrow> sample_kind s = SPN_NUMERIC"
  shows "\<exists>points. graph_samples startUpTime ss = Inr points \<and> length points = length ss
    \<and> (\<forall>k < length ss. mValue (ss ! k) = Numeric (snd (points ! k))
         \<and> fst (points ! k) = ts_seconds_double (ts_minus (getTimeStamp (ss ! k)) startUpTime))"
  using assms
proof (induction ss)
  case (Cons s ss)
  then obtain points where p: "graph_samples startUpTime ss = Inr points" "length points = length ss"
    "\<forall>k < length ss. mValue (ss ! k) = Numeric (snd (points ! k))
       \<and> fst (points ! k) = ts_seconds_double (ts_minus (getTimeStamp (ss ! k)) startUpTime)"
    by force
  have "sample_kind s = SPN_NUMERIC" using Cons.prems [of s] by simp
  then obtain y where "mValue s = Numeric y"
    by (auto simp: sample_kind_def split: sample_value.splits)
  with p show ?case by (auto simp: getNumeric_def nth_Cons split: nat.split)
qed simp

text \<open>C24: The graph of a numeric SPN has a point every \<open>period / samples\<close> milliseconds of the window that was asked
  for, both ends included: its height is the value that was held then, its abscissa the time since the start.\<close>

theorem graph_shows_history:
  assumes "smap_find historyMap (ucast i OR push_bit 32 (ucast spn)) = Some h" and "mNumericSpec h = Some spec"
    and "samples_ok (mSamples h)" and "2 \<le> length (mSamples h)"
    and "\<And>s. s \<in> set (mSamples h) \<Longrightarrow> sample_kind s = SPN_NUMERIC"
    and "graph_current startUpTime now time = Inr stop"
    and "0 < number" and "number \<le> period" and "ts_normal stop" and "mSeconds stop < 2 ^ 31"
    and "ts_micros stop mod 1000 \<noteq> 0" and "unat period * 1000 \<le> ts_micros stop"
  defines "step \<equiv> unat period div unat number * 1000" and "start \<equiv> ts_micros stop - unat period * 1000"
  shows "\<exists>g. getGraphFromSPN historyMap startUpTime now i spn number period time = Inr (Some g)
    \<and> length (gr_samples g) = unat period div (unat period div unat number) + 1
    \<and> (\<forall>k < length (gr_samples g). \<exists>t. ts_micros t = start + k * step
         \<and> fst (gr_samples g ! k) = ts_seconds_double (ts_minus t startUpTime)
         \<and> Numeric (snd (gr_samples g ! k)) = mValue (mSamples h ! hold_index (mSamples h) (start + k * step)))"
proof -
  obtain w where w: "getWindow h stop period number = Inr (Some w)"
    and len: "length w = unat period div (unat period div unat number) + 1"
    and at: "\<forall>k < length w. ts_micros (getTimeStamp (w ! k)) = start + k * step
      \<and> mValue (w ! k) = mValue (mSamples h ! hold_index (mSamples h) (start + k * step))"
    using window_is_sample_and_hold [OF assms(3,4,7-12)] unfolding step_def start_def by blast
  have ne: "mSamples h \<noteq> []" using assms(4) by auto
  have "sample_kind s = SPN_NUMERIC" if s: "s \<in> set w" for s
  proof -
    obtain k where k: "k < length w" "w ! k = s" using s by (auto simp: in_set_conv_nth)
    have "mSamples h ! hold_index (mSamples h) (start + k * step) \<in> set (mSamples h)"
      using hold_index_less [OF ne] by (rule nth_mem)
    from assms(5) [OF this] at k show ?thesis by (auto simp: sample_kind_def)
  qed
  from graph_samples_values [of w startUpTime, OF this] obtain points where
    p: "graph_samples startUpTime w = Inr points" "length points = length w"
    and v: "\<forall>k < length w. mValue (w ! k) = Numeric (snd (points ! k))
       \<and> fst (points ! k) = ts_seconds_double (ts_minus (getTimeStamp (w ! k)) startUpTime)"
    by blast
  obtain g where g: "getGraphFromSPN historyMap startUpTime now i spn number period time = Inr (Some g)"
    and "gr_samples g = points"
    using assms(1,2,6) w p(1) by (simp add: getGraphFromSPN_def Let_def)
  with p(2) v at len show ?thesis by (intro exI [of _ g]) (auto intro!: exI [of _ "getTimeStamp (w ! _)"])
qed

text \<open>A request for more samples than the window has milliseconds stops the whole program: the callback never
  returns.\<close>

theorem graph_request_hangs:
  assumes "parse input = Some v" and "graph_request J exceeds v = Inr (Some (i, spn, number, period, time))"
    and "smap_find historyMap (ucast i OR push_bit 32 (ucast spn)) = Some h" and "mNumericSpec h = Some spec"
    and "2 \<le> length (mSamples h)" and "period < number"
    and "graph_current startUpTime now time = Inr stop" and "ts_normal stop"
  shows "callback_graph J exceeds parse historyMap startUpTime now (RECEIVE input) u = Inr None"
proof -
  have "getWindow h stop period number = Inr None"
    using assms(5,6,8) by (rule window_too_fine_diverges)
  with assms show ?thesis by (simp add: getGraphFromSPN_def Let_def)
qed

text \<open>
  Requests that are undefined behaviour: a time that does not fit, in seconds or in microseconds, into \<open>u32\<close>, and
  no samples at all, which the period is divided by.
\<close>

lemma graph_request_undefined:
  assumes "parse input = Some v" and "graph_request J exceeds v = Inr (Some (i, spn, number, period, time))"
    and "smap_find historyMap (ucast i OR push_bit 32 (ucast spn)) = Some h" and "mNumericSpec h = Some spec"
    and "d_lt (Fin 0) time \<and> (to_u32 time = Inl UndefinedBehaviour
          \<or> to_u32 (d_mul time (d_of_nat 1000000)) = Inl UndefinedBehaviour)
       \<or> number = 0 \<and> 2 \<le> length (mSamples h)"
  shows "callback_graph J exceeds parse historyMap startUpTime now (RECEIVE input) u = Inl (Thrown UndefinedBehaviour)"
proof -
  have time: "to_u32 d = Inl e \<Longrightarrow> e = UndefinedBehaviour" for d e by (auto simp: to_u32_def split: if_splits)
  have "getGraphFromSPN historyMap startUpTime now i spn number period time = Inl UndefinedBehaviour"
    using assms(3-5)
    by (cases "to_u32 time"; cases "to_u32 (d_mul time (d_of_nat 1000000))")
      (auto simp: getGraphFromSPN_def graph_current_def getWindow_def Let_def dest!: time)
  with assms(1,2) show ?thesis by simp
qed

definition speed_history :: history where
  "speed_history = \<lparr>mGeneralSpec = Some 9,
     mNumericSpec = Some \<lparr>mFormatGain = Fin 1, mFormatOffset = Fin 0, mByteSize = 2, mUnits = ''km/h''\<rparr>,
     mStatusSpec = None,
     mSamples = [Sample (TimeStamp 10 0) (Numeric (Fin 50)), Sample (TimeStamp 11 0) (Numeric (Fin 51))]\<rparr>"

definition speed_map :: "(u64, history) smap" where
  "speed_map = [(0x5418FEF121, speed_history)]"

lemma speed_map_find: "smap_find speed_map (ucast (0x18FEF121 :: u32) OR push_bit 32 (ucast (84 :: u32))) = Some speed_history"
  by (simp add: speed_map_def smap_find_def)

theorem graph_shows_history_witness:
  "\<exists>g. getGraphFromSPN speed_map (TimeStamp 8 0) (TimeStamp 12 500) 0x18FEF121 84 4 2000 (Fin 0) = Inr (Some g)
     \<and> length (gr_samples g) = 5"
proof -
  have n: "mNumericSpec speed_history = Some \<lparr>mFormatGain = Fin 1, mFormatOffset = Fin 0, mByteSize = 2, mUnits = ''km/h''\<rparr>"
    and s: "samples_ok (mSamples speed_history)" "2 \<le> length (mSamples speed_history)"
    and k: "\<And>x. x \<in> set (mSamples speed_history) \<Longrightarrow> sample_kind x = SPN_NUMERIC"
    by (auto simp: speed_history_def samples_ok_def ts_normal_def ts_micros_def sample_kind_def)
  have c: "graph_current (TimeStamp 8 0) (TimeStamp 12 500) (Fin 0) = Inr (TimeStamp 12 500)"
    by (simp add: graph_current_def)
  have t: "ts_micros (TimeStamp 12 500) = 12000500" "ts_normal (TimeStamp 12 500)"
    by (simp_all add: ts_micros_def ts_normal_def)
  show ?thesis
    using graph_shows_history [OF speed_map_find n s k c, of 4 2000] t by auto
qed

definition graph_document :: json where
  "graph_document = JObject [(''command'', JString ''get graph''), (''id'', JNumber (rat_of_nat 0x18FEF121)),
     (''period'', JNumber (rat_of_nat 10)), (''samples'', JNumber (rat_of_nat 20)),
     (''spn'', JNumber (rat_of_nat 84))]"

lemma graph_document_request:
  "graph_request tree_json (\<lambda>v. False) graph_document = Inr (Some (0x18FEF121, 84, 20, 10, Fin 0))"
proof -
  have n: "(of_nat 0x18FEF121 :: u32) = 0x18FEF121" "(of_nat 84 :: u32) = 84" "(of_nat 20 :: u32) = 20"
    "(of_nat 10 :: u32) = 10"
    by simp_all
  show ?thesis
    by (simp add: graph_request_def member_as_def tree_json_def graph_document_def smap_find_def tree_uint_of_nat
        del: tree_uint.simps of_nat_numeral) (simp only: n)
qed

theorem graph_request_hangs_witness:
  "callback_graph tree_json (\<lambda>v. False) (\<lambda>r. Some graph_document) speed_map (TimeStamp 8 0) (TimeStamp 12 500)
     (RECEIVE ''get graph'') UserData_new = Inr None"
  by (rule graph_request_hangs [OF refl graph_document_request speed_map_find])
     (auto simp: speed_history_def graph_current_def ts_normal_def)

end
