(* ===== verification/WebServer.thy ===== *)
theory WebServer
  imports WebJson SenderShell Database
begin

text \<open>
  The second web back end (\<open>web/backend/server.cpp\<close>): requests are events with registered handlers. What is
  printed is not modelled; the text of a JSON value is the business of the library.
\<close>

section \<open>State\<close>

text \<open>\<open>sv_once\<close> is what was given to \<open>sendFrameOnce\<close>. A handler is the name of its function.\<close>

datatype handler = process_cmd_list | process_req_frame | process_set_baud | process_create_frame

record 'v server =
  sv_respQueue :: "'v list"
  sv_handler :: "(string, handler option) smap"
  sv_factory :: factory
  sv_easy :: can_easy
  sv_rings :: "iface \<Rightarrow> ring list"
  sv_once :: "(iface \<times> CanFrame) list"

definition addListener :: "string \<Rightarrow> handler \<Rightarrow> 'v server \<Rightarrow> 'v server" where
  "addListener event h s = s\<lparr>sv_handler := smap_put event (Some h) (sv_handler s)\<rparr>"

definition removeListener :: "string \<Rightarrow> 'v server \<Rightarrow> 'v server" where
  "removeListener event s = s\<lparr>sv_handler := smap_erase event (sv_handler s)\<rparr>"

definition registerEvent :: "'v server \<Rightarrow> 'v server" where
  "registerEvent s =
     addListener ''create frame'' process_create_frame
       (addListener ''set baud rate'' process_set_baud
         (addListener ''req frame'' process_req_frame (addListener ''list frames'' process_cmd_list s)))"

section \<open>The machine\<close>

text \<open>
  Two things the language leaves undefined and the program does: \<open>mc_flag\<close> is what the format of a new \<open>CanFrame\<close>, which
  the constructor leaves uninitialised, reads as, \<open>None\<close> if reading it is undefined; and \<open>mc_va_end\<close> is whether a
  function with a variable number of arguments may return without \<open>va_end\<close>.
\<close>

record machine =
  mc_flag :: "bool option"
  mc_va_end :: bool

section \<open>Frames as JSON values\<close>

fun checkKey :: "'v json_lib \<Rightarrow> machine \<Rightarrow> 'v \<Rightarrow> string list \<Rightarrow> bool web" where
  "checkKey J mc data [] = Inr True"
| "checkKey J mc data (k # ks) =
     web_bind (of_json (js_isMember J data k)) (\<lambda>present.
       if \<not> present then (if mc_va_end mc then Inr False else Inl (Thrown UndefinedBehaviour))
       else checkKey J mc data ks)"

definition spnToJson :: "'v json_lib \<Rightarrow> SPN \<Rightarrow> 'v web" where
  "spnToJson J spn =
     of_json (js_assigns J
       ([([Key ''name''], js_string J (mSpecName (mSpec spn))),
         ([Key ''number''], js_uint J (unat (getSpnNumber spn))),
         ([Key ''type''], js_int J (type_number (getType spn)))]
        @ (case mSpnData spn of
             SpnNumeric spec v \<Rightarrow>
               [([Key ''value''], js_double J (getFormattedValue spec v)), ([Key ''units''], js_string J (mUnits spec))]
           | SpnStatus spec v \<Rightarrow>
               ([Key ''value''], js_int J (unat v)) #
               map (\<lambda>(k, d). ([Key ''descriptions'', Idx (unat k)], js_string J d)) (mValueToDesc spec)
           | SpnString off v \<Rightarrow> [([Key ''value''], js_string J (from_bytes v))])) (js_null J))"

definition js_append :: "'v json_lib \<Rightarrow> 'v \<Rightarrow> 'v \<Rightarrow> 'v option" where
  "js_append J v x = js_put J v (js_size J v) x"

fun append_spns :: "'v json_lib \<Rightarrow> generic \<Rightarrow> u32 list \<Rightarrow> 'v \<Rightarrow> 'v web" where
  "append_spns J g [] jsonSpn = Inr jsonSpn"
| "append_spns J g (n # ns) jsonSpn =
     (case getSPN g n of
        None \<Rightarrow> Inl (Thrown UndefinedBehaviour)
      | Some spn \<Rightarrow>
          web_bind (spnToJson J spn) (\<lambda>val.
          web_bind (of_json (js_append J jsonSpn val)) (append_spns J g ns)))"

definition web_frameToJson :: "'v json_lib \<Rightarrow> factory \<Rightarrow> string \<Rightarrow> 'v \<Rightarrow> 'v web" where
  "web_frameToJson J m name jsonVal =
     (case getJ1939Frame_name m name of
        None \<Rightarrow> Inr jsonVal
      | Some f \<Rightarrow>
          web_bind (of_json (js_assigns J
              ([([Key ''pgn''], js_uint J (unat (mPgn f))), ([Key ''name''], js_string J (mName f)),
                ([Key ''priority''], js_int J (unat (mPriority f))), ([Key ''source''], js_int J (unat (mSrcAddr f)))]
               @ (if getPDUFormatGroup (mPgn f) = PDU_FORMAT_1
                  then [([Key ''dest''], js_int J (unat (mDstAddr f)))] else [])) jsonVal)) (\<lambda>jsonVal.
          web_bind (case payload_generic (mBody f) of
                      None \<Rightarrow> Inr (js_null J)
                    | Some g \<Rightarrow> append_spns J g (getSPNNumbers g) (js_null J)) (\<lambda>jsonSpn.
            of_json (js_assign J [Key ''spns''] jsonSpn jsonVal))))"

section \<open>The handlers\<close>

text \<open>A handler returns whether there is a reply, the reply and the globals.\<close>

type_synonym 'v reply = "(bool \<times> 'v \<times> 'v server) web"

fun list_frames_reply :: "'v json_lib \<Rightarrow> factory \<Rightarrow> u32 list \<Rightarrow> nat \<Rightarrow> 'v \<Rightarrow> 'v web" where
  "list_frames_reply J m [] i reply = Inr reply"
| "list_frames_reply J m (p # ps) i reply =
     (case getJ1939Frame_pgn m p of
        None \<Rightarrow> Inl (Thrown UndefinedBehaviour)
      | Some frame \<Rightarrow>
          if payload_isGenericFrame (mBody frame)
          then web_bind (of_json (js_assigns J
                  [([Key ''data'', Idx i, Key ''name''], js_string J (mName frame)),
                   ([Key ''data'', Idx i, Key ''pgn''], js_string J (to_string p))] reply))
                 (list_frames_reply J m ps (i + 1))
          else list_frames_reply J m ps i reply)"

definition handle_cmd_list :: "'v json_lib \<Rightarrow> 'v \<Rightarrow> 'v server \<Rightarrow> 'v reply" where
  "handle_cmd_list J reply s =
     web_bind (of_json (js_assign J [Key ''command''] (js_string J ''list frames'') reply)) (\<lambda>reply.
     web_bind (list_frames_reply J (sv_factory s) (getAllRegisteredPGNs (sv_factory s)) 0 reply) (\<lambda>reply.
       Inr (True, reply, s)))"

definition handle_req_frame :: "'v json_lib \<Rightarrow> 'v \<Rightarrow> 'v \<Rightarrow> 'v server \<Rightarrow> 'v reply" where
  "handle_req_frame J cmd reply s =
     web_bind (of_json (Option.bind (js_get J cmd ''data'') (js_asString J))) (\<lambda>name.
       if name = [] then Inr (False, reply, s)
       else
         web_bind (of_json (js_assign J [Key ''command''] (js_string J ''req frame'') reply)) (\<lambda>reply.
         web_bind (web_frameToJson J (sv_factory s) name (js_null J)) (\<lambda>data.
         web_bind (of_json (js_assign J [Key ''data''] data reply)) (\<lambda>reply.
           Inr (True, reply, s)))))"

text \<open>
  Initializing again replaces the sender of every helper; the rings of the former one are gone with it.
  \<open>ifaces\<close> and \<open>init\<close> are what the back ends answer.
\<close>

definition server_initialize ::
  "(backend \<Rightarrow> iface list) \<Rightarrow> (u32 \<Rightarrow> backend \<Rightarrow> iface \<Rightarrow> bool) \<Rightarrow> u32 \<Rightarrow> 'v server \<Rightarrow> 'v server" where
  "server_initialize ifaces init rate s =
     (let easy = easy_initialize ifaces (init rate) (sv_easy s)
      in s\<lparr>sv_easy := easy,
           sv_rings := (\<lambda>i. if i \<in> set (map fst (ez_mHelpers easy)) then [] else sv_rings s i)\<rparr>)"

fun append_ifaces :: "'v json_lib \<Rightarrow> iface list \<Rightarrow> 'v \<Rightarrow> 'v web" where
  "append_ifaces J [] data = Inr data"
| "append_ifaces J (i # is) data =
     web_bind (of_json (js_append J data (js_string J (from_bytes (iface_name i))))) (append_ifaces J is)"

definition handle_set_baud ::
  "'v json_lib \<Rightarrow> (backend \<Rightarrow> iface list) \<Rightarrow> (u32 \<Rightarrow> backend \<Rightarrow> iface \<Rightarrow> bool) \<Rightarrow> 'v \<Rightarrow> 'v \<Rightarrow> 'v server \<Rightarrow> 'v reply" where
  "handle_set_baud J ifaces init cmd reply s =
     web_bind (of_json (Option.bind (js_get J cmd ''data'') (js_asUInt J))) (\<lambda>rate.
       if rate = 0 then Inr (False, reply, s)
       else
         let s = server_initialize ifaces init (rate * 1000) s
         in web_bind (append_ifaces J (getInterfaces ifaces) (js_null J)) (\<lambda>data.
            web_bind (of_json (js_assigns J [([Key ''command''], js_string J ''set baud rate''), ([Key ''data''], data)] reply))
              (\<lambda>reply. Inr (True, reply, s))))"

text \<open>\<open>setFrameSPN\<close> casts to \<open>GenericFrame\<close> whatever the frame is; \<open>None\<close> is the null pointer.\<close>

definition web_setFrameSPN :: "jframe \<Rightarrow> u32 \<Rightarrow> u32 option web" where
  "web_setFrameSPN f spnNumber =
     (case payload_generic (mBody f) of
        None \<Rightarrow> Inl (Thrown UndefinedBehaviour)
      | Some g \<Rightarrow> Inr (if hasSPN g spnNumber then Some spnNumber else None))"

text \<open>\<open>setFrameValue\<close> catches \<open>std::invalid_argument\<close> only.\<close>

definition web_spn_from_text :: "u32 \<Rightarrow> string \<Rightarrow> generic \<Rightarrow> generic web" where
  "web_spn_from_text k value g =
     (case getSPN g k of
        None \<Rightarrow> Inl (Thrown UndefinedBehaviour)
      | Some spn \<Rightarrow>
          (case mSpnData spn of
             SpnNumeric spec v \<Rightarrow>
               (case stod value of
                  Inr x \<Rightarrow> Inr (put_spn_data k spn (SpnNumeric spec (snd (setFormattedValue spec v x))) g)
                | Inl InvalidArgument \<Rightarrow> Inr g
                | Inl OutOfRange \<Rightarrow> Inl (ThrownStd OutOfRange))
           | SpnStatus spec v \<Rightarrow>
               (case stoul 10 value of
                  Inr n \<Rightarrow>
                    let valueNumber = ucast n :: u32; status = ucast valueNumber :: u8
                    in Inr (if ucast (status AND 0xFF) = valueNumber
                            then put_spn_data k spn (SpnStatus spec (snd (status_setValue spec v status))) g else g)
                | Inl InvalidArgument \<Rightarrow> Inr g
                | Inl OutOfRange \<Rightarrow> Inl (ThrownStd OutOfRange))
           | SpnString off v \<Rightarrow> Inr (generic_setString k (to_bytes value) g)))"

definition web_setFrameValue :: "jframe \<Rightarrow> u32 \<Rightarrow> string \<Rightarrow> jframe web" where
  "web_setFrameValue f k value =
     (case payload_generic (mBody f) of
        None \<Rightarrow> Inl (Thrown UndefinedBehaviour)
      | Some g \<Rightarrow> web_bind (web_spn_from_text k value g) (\<lambda>g'. Inr (f\<lparr>mBody := set_generic g' (mBody f)\<rparr>)))"

text \<open>More than eight bytes are not set, and the result of \<open>setData\<close> is ignored.\<close>

definition web_encode :: "jframe \<Rightarrow> CanFrame \<Rightarrow> CanFrame res" where
  "web_encode f frame =
     (let len = jframe_getDataLength f
      in res_bind (jframe_encode f len) (\<lambda>(ident, buff, n).
           Inr (snd (cf_setData (take len buff) (frame\<lparr>cf_mId := ident\<rparr>)))))"

text \<open>The format of the frame is never set, and the sender reads it.\<close>

definition web_sendFrame :: "machine \<Rightarrow> jframe \<Rightarrow> iface \<Rightarrow> u32 \<Rightarrow> 'v server \<Rightarrow> 'v server web" where
  "web_sendFrame mc f interface period s =
     web_bind (of_res (web_encode f (CanFrame_default (mc_flag mc = Some True)))) (\<lambda>canFrame.
       case getSender interface (sv_easy s) of
         None \<Rightarrow> Inl (Thrown UndefinedBehaviour)
       | Some b \<Rightarrow>
           if mc_flag mc = None then Inl (Thrown UndefinedBehaviour)
           else Inr (if period = 0 then s\<lparr>sv_once := sv_once s @ [(interface, canFrame)]\<rparr>
                else s\<lparr>sv_rings := (sv_rings s)(interface := snd (sendFrame canFrame period None (sv_rings s interface)))\<rparr>))"

text \<open>Behind the label \<open>fail\<close>.\<close>

definition create_failed :: "'v json_lib \<Rightarrow> string \<Rightarrow> 'v \<Rightarrow> 'v \<Rightarrow> 'v server \<Rightarrow> 'v reply" where
  "create_failed J reason data reply s =
     web_bind (of_json (js_get J data ''index'')) (\<lambda>index.
     web_bind (of_json (js_assigns J
        [([Key ''command''], js_string J ''create frame''), ([Key ''data'', Key ''reason''], js_string J reason),
         ([Key ''data'', Key ''index''], index)] reply)) (\<lambda>reply.
       Inr (True, reply, s)))"

definition member_string :: "'v json_lib \<Rightarrow> 'v \<Rightarrow> string \<Rightarrow> string web" where
  "member_string J v k = of_json (Option.bind (js_get J v k) (js_asString J))"

definition member_uint :: "'v json_lib \<Rightarrow> 'v \<Rightarrow> string \<Rightarrow> u32 web" where
  "member_uint J v k = of_json (Option.bind (js_get J v k) (js_asUInt J))"

definition create_keys :: "string list" where
  "create_keys = [''pgn'', ''spn'', ''interface'', ''value'', ''period'']"

text \<open>In the reply the pointer to the SPN becomes a truth value.\<close>

definition handle_create_frame :: "'v json_lib \<Rightarrow> machine \<Rightarrow> 'v \<Rightarrow> 'v \<Rightarrow> 'v server \<Rightarrow> 'v reply" where
  "handle_create_frame J mc cmd reply s =
     web_bind (of_json (js_get J cmd ''data'')) (\<lambda>data.
     web_bind (checkKey J mc data create_keys) (\<lambda>result.
       if \<not> result then create_failed J ''checkKey failed'' data reply s
       else
     web_bind (member_uint J data ''pgn'') (\<lambda>pgn.
       if pgn = 0 then create_failed J ''invalid pgn'' data reply s
       else
     web_bind (member_uint J data ''spn'') (\<lambda>spnNumber.
       if spnNumber = 0 then create_failed J ''invalid spn'' data reply s
       else
     web_bind (member_string J data ''interface'') (\<lambda>interface.
       if interface = [] then create_failed J ''invalid interface'' data reply s
       else
         case getJ1939Frame_pgn (sv_factory s) pgn of
           None \<Rightarrow> create_failed J ''Frame not recognized'' data reply s
         | Some f \<Rightarrow>
             web_bind (web_setFrameSPN f spnNumber) (\<lambda>spn.
               case spn of
                 None \<Rightarrow> create_failed J ''This spn does not belong to the given frame'' data reply s
               | Some k \<Rightarrow>
                   web_bind (member_string J data ''value'') (\<lambda>value.
                   web_bind (web_setFrameValue f k value) (\<lambda>f.
                   web_bind (member_uint J data ''period'') (\<lambda>period.
                   web_bind (web_sendFrame mc f (to_iface interface) period s) (\<lambda>s.
                   web_bind (of_json (js_get J data ''index'')) (\<lambda>index.
                   web_bind (of_json (js_assigns J
                       [([Key ''command''], js_string J ''create frame''),
                        ([Key ''data'', Key ''reason''], js_string J ''Success''),
                        ([Key ''data'', Key ''pgn''], js_uint J (unat pgn)), ([Key ''data'', Key ''spn''], js_bool J True),
                        ([Key ''data'', Key ''index''], index)] reply)) (\<lambda>reply.
                     Inr (True, reply, s)))))))))))))"

section \<open>Events\<close>

record 'v server_env =
  env_lib :: "'v json_lib"
  env_parse :: "string \<Rightarrow> 'v option"
  env_ifaces :: "backend \<Rightarrow> iface list"
  env_init :: "u32 \<Rightarrow> backend \<Rightarrow> iface \<Rightarrow> bool"

text \<open>Looking a handler up creates an empty one; for an empty one the function ends without a result.\<close>

definition emitEvent :: "'v server_env \<Rightarrow> machine \<Rightarrow> string \<Rightarrow> 'v \<Rightarrow> 'v \<Rightarrow> 'v server \<Rightarrow> 'v reply" where
  "emitEvent E mc event cmd reply s =
     (let J = env_lib E;
          h = (case smap_find (sv_handler s) event of None \<Rightarrow> None | Some h \<Rightarrow> h);
          s = s\<lparr>sv_handler := smap_put event h (sv_handler s)\<rparr>
      in case h of
           None \<Rightarrow> Inl (Thrown UndefinedBehaviour)
         | Some process_cmd_list \<Rightarrow> handle_cmd_list J reply s
         | Some process_req_frame \<Rightarrow> handle_req_frame J cmd reply s
         | Some process_set_baud \<Rightarrow> handle_set_baud J (env_ifaces E) (env_init E) cmd reply s
         | Some process_create_frame \<Rightarrow> handle_create_frame J mc cmd reply s)"

definition process_cmd :: "'v server_env \<Rightarrow> machine \<Rightarrow> 'v \<Rightarrow> 'v \<Rightarrow> 'v server \<Rightarrow> 'v reply" where
  "process_cmd E mc cmd reply s =
     web_bind (member_string (env_lib E) cmd ''command'') (\<lambda>event. emitEvent E mc event cmd reply s)"

definition server_receive :: "'v server_env \<Rightarrow> machine \<Rightarrow> string \<Rightarrow> 'v server \<Rightarrow> 'v server web" where
  "server_receive E mc req s =
     (case env_parse E req of
        None \<Rightarrow> Inr s
      | Some cmd \<Rightarrow>
          web_bind (of_json (js_isMember (env_lib E) cmd ''command'')) (\<lambda>present.
            if \<not> present then Inr s
            else web_bind (process_cmd E mc cmd (js_null (env_lib E)) s) (\<lambda>(respond, reply, s).
                   Inr (if respond then s\<lparr>sv_respQueue := sv_respQueue s @ [reply]\<rparr> else s))))"

definition server_writeable :: "'v server \<Rightarrow> 'v option \<times> 'v server" where
  "server_writeable s =
     (case sv_respQueue s of [] \<Rightarrow> (None, s) | v # vs \<Rightarrow> (Some v, s\<lparr>sv_respQueue := vs\<rparr>))"

definition server_start :: "nat \<Rightarrow> generic frame list option \<Rightarrow> 'v server option web" where
  "server_start specs database =
     web_bind (of_res (J1939Factory specs)) (\<lambda>m.
       case database of
         None \<Rightarrow> Inr None
       | Some frames \<Rightarrow> Inr (Some (registerEvent
           \<lparr>sv_respQueue = [], sv_handler = [],
            sv_factory = fold (\<lambda>f m. snd (registerFrame (as_frame Generic f) m)) frames m,
            sv_easy = \<lparr>ez_mSenders = [], ez_mReceivers = [], ez_mInitializedIfaces = [], ez_mHelpers = []\<rparr>,
            sv_rings = (\<lambda>i. []), sv_once = []\<rparr>)))"

end
