(* ===== verification/ServerSafety.thy ===== *)
theory ServerSafety
  imports WebServer SenderSafety
begin

text \<open>
  The second web back end under every sequence of requests: its invariant, which requests are undefined
  behaviour, what a request to send a frame puts on the bus and what setting the bit rate again does.
\<close>

section \<open>Invariant\<close>

definition server_commands :: "string list" where
  "server_commands = [''list frames'', ''req frame'', ''set baud rate'', ''create frame'']"

definition server_ok :: "'v server \<Rightarrow> bool" where
  "server_ok s \<longleftrightarrow> factory_ok (sv_factory s) \<and> (\<forall>(p, f) \<in> set (sv_factory s). frame_ok f)
     \<and> (\<forall>i. sender_ok (sv_rings s i))
     \<and> (\<forall>e. smap_find (sv_handler s) e =
          (if e = ''list frames'' then Some (Some process_cmd_list)
           else if e = ''req frame'' then Some (Some process_req_frame)
           else if e = ''set baud rate'' then Some (Some process_set_baud)
           else if e = ''create frame'' then Some (Some process_create_frame) else None))
     \<and> smap_ok (sv_handler s)"

lemma server_ok_other [simp]:
  "server_ok (s\<lparr>sv_respQueue := q\<rparr>) = server_ok s" "server_ok (s\<lparr>sv_easy := e\<rparr>) = server_ok s"
  "server_ok (s\<lparr>sv_once := x\<rparr>) = server_ok s"
  by (simp_all add: server_ok_def)

lemma server_ok_rings: "server_ok s \<Longrightarrow> (\<And>i. sender_ok (R i)) \<Longrightarrow> server_ok (s\<lparr>sv_rings := R\<rparr>)"
  by (simp add: server_ok_def)

abbreviation reply_ok :: "'v reply \<Rightarrow> bool" where
  "reply_ok \<equiv> web_ok (\<lambda>(b, v, s). server_ok s)"

section \<open>Lists and frames\<close>

lemma list_frames_reply_ok:
  assumes "factory_ok m" and "set pgns \<subseteq> set (getAllRegisteredPGNs m)"
  shows "web_ok (\<lambda>_. True) (list_frames_reply J m pgns i reply)"
  using assms(2)
proof (induction pgns arbitrary: i reply)
  case (Cons pgn pgns)
  with registered_frame [OF assms(1), of pgn] show ?case by (auto intro!: web_ok_json_bind)
qed simp

lemma append_spns_ok:
  "\<forall>n \<in> set ns. getSPN g n \<noteq> None \<Longrightarrow> web_ok (\<lambda>_. True) (append_spns J g ns v)"
  by (induction ns arbitrary: v) (auto simp: spnToJson_def intro!: web_ok_json_bind)

lemma getSPN_numbers: "n \<in> set (getSPNNumbers g) \<Longrightarrow> getSPN g n \<noteq> None"
  by (auto simp: getSPN_def getSPNNumbers_def smap_find_None_iff smap_keys_def)

lemma web_frameToJson_ok: "web_ok (\<lambda>_. True) (web_frameToJson J m name v)"
proof -
  have "web_ok (\<lambda>_. True) (append_spns J g (getSPNNumbers g) w)" for g w
    by (rule append_spns_ok) (use getSPN_numbers in blast)
  then show ?thesis
    by (auto simp: web_frameToJson_def intro!: web_ok_json_bind web_ok_bind [where Q = "\<lambda>_. True"] split: option.split)
qed

lemma handle_cmd_list_ok: "server_ok s \<Longrightarrow> reply_ok (handle_cmd_list J reply s)"
  unfolding handle_cmd_list_def
  by (rule web_ok_json_bind, rule web_ok_bind [OF list_frames_reply_ok]) (auto simp: server_ok_def)

lemma handle_req_frame_ok: "server_ok s \<Longrightarrow> reply_ok (handle_req_frame J cmd reply s)"
  unfolding handle_req_frame_def
  by (rule web_ok_json_bind)
     (auto intro!: web_ok_json_bind web_ok_bind [OF web_frameToJson_ok])

section \<open>The bit rate\<close>

lemma server_initialize_ok: "server_ok s \<Longrightarrow> server_ok (server_initialize ifaces init rate s)"
  by (auto simp: server_initialize_def Let_def server_ok_def sender_ok_def)

lemma append_ifaces_ok: "web_ok (\<lambda>_. True) (append_ifaces J is v)"
  by (induction "is" arbitrary: v) (auto intro!: web_ok_json_bind)

lemma handle_set_baud_ok: "server_ok s \<Longrightarrow> reply_ok (handle_set_baud J ifaces init cmd reply s)"
  unfolding handle_set_baud_def Let_def
  by (rule web_ok_json_bind)
     (auto intro!: web_ok_json_bind web_ok_bind [OF append_ifaces_ok] server_initialize_ok)

text \<open>Helpers are created once only.\<close>

lemma initialize_again:
  "ez_mHelpers s \<noteq> [] \<Longrightarrow> easy_initialize ifaces init s = fold easy_add_sender (ez_mHelpers s) s"
  by (simp add: easy_initialize_def createCanHelpers_def)

lemma add_senders_helpers: "ez_mHelpers (fold easy_add_sender hs s) = ez_mHelpers s"
  by (induction hs arbitrary: s) (simp_all add: easy_add_sender_def)

section \<open>Sending\<close>

lemma web_encode_safe: "frame_ok f \<Longrightarrow> web_encode f c \<noteq> Inl UndefinedBehaviour"
  using jframe_encode_safe(1) [of f] by (auto simp: web_encode_def Let_def res_bind_Inl_iff frame_ok_def)

lemma web_sendFrame_ok:
  assumes "server_ok s" and "frame_ok f" and "getSender i (sv_easy s) \<noteq> None" and "mc_flag mc \<noteq> None"
  shows "web_ok server_ok (web_sendFrame mc f i period s)"
proof -
  have r: "sender_ok (sv_rings s i)" using assms(1) by (simp add: server_ok_def)
  have "sender_ok (snd (sendFrame c period None (sv_rings s i)))" for c
    using sender_ok_send [OF r] by (simp add: sendFrame_def)
  with assms show ?thesis
    using web_encode_safe [OF assms(2), of "CanFrame_default (mc_flag mc = Some True)"]
    by (cases "web_encode f (CanFrame_default (mc_flag mc = Some True))")
       (auto simp: web_sendFrame_def server_ok_def)
qed


lemma web_frame_set:
  assumes "frame_ok f" and "payload_generic (mBody f) = Some g" and "web_setFrameValue f n value = Inr f'"
  shows "frame_ok f' \<and> getIdentifier f' = getIdentifier f"
proof -
  obtain g' where f': "f' = f\<lparr>mBody := set_generic g' (mBody f)\<rparr>"
    using assms(2,3) by (auto simp: web_setFrameValue_def web_bind_Inr_iff)
  have "frame_ok f'"
    unfolding f'
    by (subst frame_ok_like [of _ f])
       (use assms(1) set_generic_class [OF assms(2)] in \<open>simp_all add: frame_ok_def\<close>)
  then show ?thesis by (simp add: f' getIdentifier_def wire_pgn_def)
qed

lemma web_spn_from_text_ok: "getSPN g k \<noteq> None \<Longrightarrow> web_ok (\<lambda>_. True) (web_spn_from_text k value g)"
  by (auto simp: web_spn_from_text_def Let_def split: spn_data.split sum.split std_exc.split)

lemma web_setFrameValue_ok:
  "payload_generic (mBody f) = Some g \<Longrightarrow> hasSPN g n \<Longrightarrow> web_ok (\<lambda>_. True) (web_setFrameValue f n value)"
  by (auto simp: web_setFrameValue_def hasSPN_def getSPN_def intro!: web_ok_bind [OF web_spn_from_text_ok])

section \<open>A request to send a frame\<close>

text \<open>Whether a key is asked for and not there, before the library throws.\<close>

fun lacks_key :: "'v json_lib \<Rightarrow> 'v \<Rightarrow> string list \<Rightarrow> bool" where
  "lacks_key J data [] = False"
| "lacks_key J data (k # ks) =
     (js_isMember J data k = Some False \<or> js_isMember J data k = Some True \<and> lacks_key J data ks)"

lemma checkKey_results:
  "checkKey J mc data ks = Inr True \<longleftrightarrow> list_all (\<lambda>k. js_isMember J data k = Some True) ks"
  "checkKey J mc data ks = Inr False \<longleftrightarrow> lacks_key J data ks \<and> mc_va_end mc"
  "checkKey J mc data ks = Inl (Thrown UndefinedBehaviour) \<longleftrightarrow> lacks_key J data ks \<and> \<not> mc_va_end mc"
proof (induction ks)
  case (Cons k ks)
  { case 1 then show ?case using Cons by (cases "js_isMember J data k") auto }
  { case 2 then show ?case using Cons by (cases "js_isMember J data k") auto }
  { case 3 then show ?case using Cons by (cases "js_isMember J data k") auto }
qed simp_all

text \<open>The request has all keys, and the first three have usable values.\<close>

definition create_target ::
  "'v json_lib \<Rightarrow> 'v \<Rightarrow> 'v \<Rightarrow> u32 \<Rightarrow> u32 \<Rightarrow> string \<Rightarrow> bool" where
  "create_target J cmd data pgn n name \<longleftrightarrow> js_get J cmd ''data'' = Some data
     \<and> list_all (\<lambda>k. js_isMember J data k = Some True) create_keys
     \<and> member_uint J data ''pgn'' = Inr pgn \<and> pgn \<noteq> 0 \<and> member_uint J data ''spn'' = Inr n \<and> n \<noteq> 0
     \<and> member_string J data ''interface'' = Inr name \<and> name \<noteq> []"

lemma create_target_keys: "create_target J cmd data pgn n name \<Longrightarrow> checkKey J mc data create_keys = Inr True"
  by (simp add: create_target_def checkKey_results)

lemma create_failed_ok: "server_ok s \<Longrightarrow> reply_ok (create_failed J reason data reply s)"
  unfolding create_failed_def by (rule web_ok_json_bind, rule web_ok_json_bind) simp

lemma create_frame_target:
  assumes "create_target J cmd data pgn n name" and "getJ1939Frame_pgn (sv_factory s) pgn = Some f"
    and "payload_generic (mBody f) = Some g" and "hasSPN g n"
    and "member_string J data ''value'' = Inr value" and "web_setFrameValue f n value = Inr f'"
    and "member_uint J data ''period'' = Inr period"
  shows "handle_create_frame J mc cmd reply s =
    web_bind (web_sendFrame mc f' (to_iface name) period s) (\<lambda>s.
    web_bind (of_json (js_get J data ''index'')) (\<lambda>index.
    web_bind (of_json (js_assigns J
        [([Key ''command''], js_string J ''create frame''),
         ([Key ''data'', Key ''reason''], js_string J ''Success''),
         ([Key ''data'', Key ''pgn''], js_uint J (unat pgn)), ([Key ''data'', Key ''spn''], js_bool J True),
         ([Key ''data'', Key ''index''], index)] reply)) (\<lambda>reply. Inr (True, reply, s))))"
  using assms create_target_keys [OF assms(1), of mc]
  by (simp add: create_target_def handle_create_frame_def web_setFrameSPN_def)

lemma server_frame_ok:
  assumes "server_ok s" and "getJ1939Frame_pgn (sv_factory s) pgn = Some f"
  shows "frame_ok f"
  using assms by (auto simp: server_ok_def getJ1939Frame_pgn_def factory_ok_def smap_find_Some_iff)

lemma json_defined: "of_json x \<noteq> Inl (Thrown UndefinedBehaviour)"
  by (cases x) auto

text \<open>What a member should be can be missing: then the library throws.\<close>

lemma member_defined:
  "member_string J v k \<noteq> Inl (Thrown UndefinedBehaviour)" "member_uint J v k \<noteq> Inl (Thrown UndefinedBehaviour)"
  by (cases "Option.bind (js_get J v k) (js_asString J)"; simp add: member_string_def)
     (cases "Option.bind (js_get J v k) (js_asUInt J)"; simp add: member_uint_def)

section \<open>The whole program\<close>

lemma web_sendFrame_keeps:
  assumes "web_sendFrame mc f i period s = Inr s'" and "server_ok s"
  shows "server_ok s'"
proof -
  have "sender_ok (snd (sendFrame c period None (sv_rings s i)))" for c
    using sender_ok_send [of "sv_rings s i"] assms(2) by (simp add: sendFrame_def server_ok_def)
  then have "server_ok (s\<lparr>sv_rings := (sv_rings s)(i := snd (sendFrame c period None (sv_rings s i)))\<rparr>)" for c
    using assms(2) by (simp add: server_ok_def)
  moreover obtain c where "s' = s\<lparr>sv_once := sv_once s @ [(i, c)]\<rparr>
      \<or> s' = s\<lparr>sv_rings := (sv_rings s)(i := snd (sendFrame c period None (sv_rings s i)))\<rparr>"
    using assms(1) by (cases "period = 0") (auto simp: web_sendFrame_def web_bind_Inr_iff split: option.splits if_splits)
  ultimately show ?thesis using assms(2) by fastforce
qed

lemma create_failed_keeps: "create_failed J reason data reply s = Inr (b, r, s') \<Longrightarrow> s' = s"
  by (auto simp: create_failed_def web_bind_Inr_iff)

definition web_keeps :: "('a \<Rightarrow> bool) \<Rightarrow> 'a web \<Rightarrow> bool" where
  "web_keeps Q r \<longleftrightarrow> (\<forall>a. r = Inr a \<longrightarrow> Q a)"

lemma web_keeps_Inl [simp]: "web_keeps Q (Inl h)"
  by (simp add: web_keeps_def)

lemma web_keeps_bind: "(\<And>a. m = Inr a \<Longrightarrow> web_keeps Q (f a)) \<Longrightarrow> web_keeps Q (web_bind m f)"
  by (auto simp: web_keeps_def web_bind_Inr_iff)

lemma handle_create_frame_keeps:
  assumes "server_ok s"
  shows "web_keeps (\<lambda>(b, r, s'). server_ok s') (handle_create_frame J mc cmd reply s)"
proof -
  have failed: "web_keeps (\<lambda>(b, r, s'). server_ok s') (create_failed J reason data reply s)" for reason data
    using assms by (auto simp: web_keeps_def dest: create_failed_keeps)
  have final: "web_keeps (\<lambda>(b, r, s'). server_ok s') (Inr (b, r, s'))" if "server_ok s'" for b r s'
    using that by (simp add: web_keeps_def)
  show ?thesis
    unfolding handle_create_frame_def web_setFrameSPN_def
    by (intro web_keeps_bind conjI impI failed final)
       (auto intro!: web_keeps_bind failed final dest!: web_sendFrame_keeps [OF _ assms] split: option.split)
qed

lemma smap_put_same: "smap_ok m \<Longrightarrow> smap_find m k = Some v \<Longrightarrow> smap_put k v m = m"
  by (induction m) (force simp: smap_ok_Cons smap_find_Cons smap_find_Some_iff split: if_splits)+

lemma emitEvent_known:
  assumes "server_ok s"
  shows "emitEvent E mc ''list frames'' cmd reply s = handle_cmd_list (env_lib E) reply s"
    "emitEvent E mc ''req frame'' cmd reply s = handle_req_frame (env_lib E) cmd reply s"
    "emitEvent E mc ''set baud rate'' cmd reply s
       = handle_set_baud (env_lib E) (env_ifaces E) (env_init E) cmd reply s"
    "emitEvent E mc ''create frame'' cmd reply s = handle_create_frame (env_lib E) mc cmd reply s"
proof -
  have "s\<lparr>sv_handler := smap_put e h (sv_handler s)\<rparr> = s" if "smap_find (sv_handler s) e = Some h" for e h
    using assms that by (simp add: server_ok_def smap_put_same)
  then show "emitEvent E mc ''list frames'' cmd reply s = handle_cmd_list (env_lib E) reply s"
    "emitEvent E mc ''req frame'' cmd reply s = handle_req_frame (env_lib E) cmd reply s"
    "emitEvent E mc ''set baud rate'' cmd reply s
       = handle_set_baud (env_lib E) (env_ifaces E) (env_init E) cmd reply s"
    "emitEvent E mc ''create frame'' cmd reply s = handle_create_frame (env_lib E) mc cmd reply s"
    using assms by (simp_all add: emitEvent_def Let_def server_ok_def)
qed

lemma emitEvent_unknown:
  "server_ok s \<Longrightarrow> event \<notin> set server_commands \<Longrightarrow> emitEvent E mc event cmd reply s = Inl (Thrown UndefinedBehaviour)"
  by (auto simp: emitEvent_def Let_def server_ok_def server_commands_def)

lemma emitEvent_keeps:
  assumes "emitEvent E mc event cmd reply s = Inr (b, r, s')" and "server_ok s"
  shows "server_ok s'"
proof -
  have e: "event \<in> set server_commands"
    using assms emitEvent_unknown [OF assms(2), of event E mc cmd reply] by auto
  show ?thesis
    using e assms handle_create_frame_keeps [OF assms(2), of "env_lib E" mc cmd reply]
      handle_cmd_list_ok [OF assms(2), of "env_lib E" reply]
      handle_req_frame_ok [OF assms(2), of "env_lib E" cmd reply]
      handle_set_baud_ok [OF assms(2), of "env_lib E" "env_ifaces E" "env_init E" cmd reply]
    by (auto simp: server_commands_def emitEvent_known [OF assms(2)] web_keeps_def)
qed

inductive server_step :: "'v server_env \<Rightarrow> 'v server \<Rightarrow> 'v server \<Rightarrow> bool" for E where
  request: "server_receive E mc req s = Inr s' \<Longrightarrow> server_step E s s'"
| reply: "server_writeable s = (out, s') \<Longrightarrow> server_step E s s'"
| pass: "run_pass now (sv_rings s i) = Inr (sent, rs) \<Longrightarrow>
    server_step E s (s\<lparr>sv_rings := (sv_rings s)(i := rs)\<rparr>)"

lemma server_step_ok: "server_step E s s' \<Longrightarrow> server_ok s \<Longrightarrow> server_ok s'"
proof (induction rule: server_step.induct)
  case (request mc req s s')
  then show ?case
    by (auto simp: server_receive_def process_cmd_def web_bind_Inr_iff dest: emitEvent_keeps
        split: option.splits if_splits)
next
  case (reply s out s')
  then show ?case by (auto simp: server_writeable_def split: list.splits)
next
  case (pass now s i sent rs)
  then have "sender_ok rs"
    using run_pass_keeps [of now "sv_rings s i" sent rs] by (auto simp: server_ok_def sender_ok_def)
  with pass show ?case by (auto simp: server_ok_def)
qed

lemma server_steps_ok: "(server_step E)\<^sup>*\<^sup>* s s' \<Longrightarrow> server_ok s \<Longrightarrow> server_ok s'"
  by (induction rule: rtranclp_induct) (auto intro: server_step_ok)

lemma server_start_ok: "server_start specs database = Inr (Some s) \<Longrightarrow> server_ok s"
proof -
  assume s: "server_start specs database = Inr (Some s)"
  obtain m where m: "J1939Factory specs = Inr m" "factory_ok m" "all_reserved m" "\<forall>(p, f) \<in> set m. frame_ok f"
    using factory_start by blast
  obtain frames where s': "s = registerEvent \<lparr>sv_respQueue = [], sv_handler = [],
      sv_factory = fold (\<lambda>f m. snd (registerFrame (as_frame Generic f) m)) frames m,
      sv_easy = \<lparr>ez_mSenders = [], ez_mReceivers = [], ez_mInitializedIfaces = [], ez_mHelpers = []\<rparr>,
      sv_rings = (\<lambda>i. []), sv_once = []\<rparr>"
    using s by (auto simp: server_start_def m(1) split: option.splits)
  have "sv_handler s = [(''create frame'', Some process_create_frame), (''list frames'', Some process_cmd_list),
      (''req frame'', Some process_req_frame), (''set baud rate'', Some process_set_baud)]"
    unfolding s' by (simp add: registerEvent_def addListener_def)
  moreover have "smap_ok (sv_handler s)" using calculation by (simp add: smap_ok_Cons)
  moreover have "sv_rings s i = []" for i by (simp add: s' registerEvent_def addListener_def)
  moreover have "sv_factory s = fold (\<lambda>f m. snd (registerFrame (as_frame Generic f) m)) frames m"
    by (simp add: s' registerEvent_def addListener_def)
  ultimately show ?thesis
    using registered_ok [OF m(2-4), of frames]
    by (simp add: server_ok_def sender_ok_def smap_find_Cons smap_find_Nil)
qed

text \<open>
  A well formed request to send a frame goes wrong where the frame of the PGN is not generic, and is cast to
  \<open>GenericFrame\<close> all the same; and where the value can be set and encoded, but there is no sender for the interface,
  whose null pointer is used, or there is one, which reads the format that nobody has set.
\<close>

definition sending_undefined ::
  "'v json_lib \<Rightarrow> machine \<Rightarrow> 'v \<Rightarrow> u32 \<Rightarrow> string \<Rightarrow> jframe \<Rightarrow> can_easy \<Rightarrow> bool" where
  "sending_undefined J mc data n name f easy \<longleftrightarrow> payload_generic (mBody f) = None \<or>
    (\<exists>g value f' period c. payload_generic (mBody f) = Some g \<and> hasSPN g n
       \<and> member_string J data ''value'' = Inr value \<and> web_setFrameValue f n value = Inr f'
       \<and> member_uint J data ''period'' = Inr period
       \<and> web_encode f' (CanFrame_default (mc_flag mc = Some True)) = Inr c
       \<and> (getSender (to_iface name) easy = None \<or> mc_flag mc = None))"

lemma create_frame_undefined:
  assumes "server_ok s" and "create_target J cmd data pgn n name"
    and "getJ1939Frame_pgn (sv_factory s) pgn = Some f"
  shows "handle_create_frame J mc cmd reply s = Inl (Thrown UndefinedBehaviour) \<longleftrightarrow>
    sending_undefined J mc data n name f (sv_easy s)"
proof (cases "payload_generic (mBody f)")
  case None
  with assms(2,3) create_target_keys [OF assms(2), of mc] show ?thesis
    by (simp add: create_target_def handle_create_frame_def web_setFrameSPN_def sending_undefined_def)
next
  case (Some g)
  have f: "frame_ok f" by (rule server_frame_ok [OF assms(1,3)])
  note t = assms(2) [unfolded create_target_def]
  have enter: "handle_create_frame J mc cmd reply s =
      (if \<not> hasSPN g n then create_failed J ''This spn does not belong to the given frame'' data reply s
       else web_bind (member_string J data ''value'') (\<lambda>value.
            web_bind (web_setFrameValue f n value) (\<lambda>f.
            web_bind (member_uint J data ''period'') (\<lambda>period.
            web_bind (web_sendFrame mc f (to_iface name) period s) (\<lambda>s.
            web_bind (of_json (js_get J data ''index'')) (\<lambda>index.
            web_bind (of_json (js_assigns J
                [([Key ''command''], js_string J ''create frame''),
                 ([Key ''data'', Key ''reason''], js_string J ''Success''),
                 ([Key ''data'', Key ''pgn''], js_uint J (unat pgn)), ([Key ''data'', Key ''spn''], js_bool J True),
                 ([Key ''data'', Key ''index''], index)] reply)) (\<lambda>reply. Inr (True, reply, s))))))))"
    using t create_target_keys [OF assms(2), of mc] assms(3) Some by (simp add: handle_create_frame_def web_setFrameSPN_def)
  have failed: "create_failed J reason data reply s \<noteq> Inl (Thrown UndefinedBehaviour)" for reason
    using create_failed_ok [OF assms(1), of J reason data reply] by (cases "create_failed J reason data reply s") auto
  have set: "web_setFrameValue f n val \<noteq> Inl (Thrown UndefinedBehaviour)" if "hasSPN g n" for val
    using web_setFrameValue_ok [OF Some that, of val] by (cases "web_setFrameValue f n val") auto
  have send: "web_sendFrame mc f' (to_iface name) period s = Inl (Thrown UndefinedBehaviour)
      \<longleftrightarrow> (\<exists>c. web_encode f' (CanFrame_default (mc_flag mc = Some True)) = Inr c)
        \<and> (getSender (to_iface name) (sv_easy s) = None \<or> mc_flag mc = None)"
    if "web_setFrameValue f n val = Inr f'" for f' period val
    using web_frame_set [OF f Some that] web_encode_safe [of f' "CanFrame_default (mc_flag mc = Some True)"]
    by (auto simp: web_sendFrame_def web_bind_Inl_iff split: option.splits)
  show ?thesis
    using Some failed set send by (auto simp: enter sending_undefined_def web_bind_Inl_iff member_defined json_defined)
qed

lemma create_frame_undefined_iff:
  assumes "server_ok s"
  shows "handle_create_frame J mc cmd reply s = Inl (Thrown UndefinedBehaviour) \<longleftrightarrow>
    (\<exists>data. js_get J cmd ''data'' = Some data \<and> (lacks_key J data create_keys \<and> \<not> mc_va_end mc \<or>
       (\<exists>pgn n name f. create_target J cmd data pgn n name \<and> getJ1939Frame_pgn (sv_factory s) pgn = Some f
          \<and> sending_undefined J mc data n name f (sv_easy s))))"
proof (cases "\<exists>data pgn n name f. create_target J cmd data pgn n name \<and> getJ1939Frame_pgn (sv_factory s) pgn = Some f")
  case True
  then obtain data pgn n name f where t: "create_target J cmd data pgn n name" and f: "getJ1939Frame_pgn (sv_factory s) pgn = Some f"
    by blast
  have d: "js_get J cmd ''data'' = Some data" using t by (simp add: create_target_def)
  have k: "\<not> (lacks_key J data create_keys \<and> \<not> mc_va_end mc)"
    using create_target_keys [OF t, of mc] checkKey_results(3) [of J mc data create_keys] by simp
  have u: "sending_undefined J mc data n name f (sv_easy s)"
    if "create_target J cmd data pgn' n' name'" "getJ1939Frame_pgn (sv_factory s) pgn' = Some f'"
      "sending_undefined J mc data n' name' f' (sv_easy s)" for pgn' n' name' f'
  proof -
    have "pgn' = pgn" "n' = n" "name' = name" using t that(1) by (simp_all add: create_target_def)
    with that f show ?thesis by simp
  qed
  show ?thesis
    unfolding create_frame_undefined [OF assms t f] using d k u t f by (metis option.inject)
next
  case False
  have failed: "create_failed J reason data reply s \<noteq> Inl (Thrown UndefinedBehaviour)" for reason data
    using create_failed_ok [OF assms, of J reason data reply] by (cases "create_failed J reason data reply s") auto
  show ?thesis
  proof (cases "js_get J cmd ''data''")
    case None
    then show ?thesis by (simp add: handle_create_frame_def)
  next
    case (Some data)
    show ?thesis
    proof (cases "checkKey J mc data create_keys = Inr True")
      case keys: True
      have none: "getJ1939Frame_pgn (sv_factory s) pgn = None"
        if "member_uint J data ''pgn'' = Inr pgn" "pgn \<noteq> 0" "member_uint J data ''spn'' = Inr n" "n \<noteq> 0"
          "member_string J data ''interface'' = Inr name" "name \<noteq> []" for pgn n name
        using that False Some keys by (auto simp: create_target_def checkKey_results)
      have "handle_create_frame J mc cmd reply s \<noteq> Inl (Thrown UndefinedBehaviour)"
        by (auto simp: handle_create_frame_def Some keys web_bind_Inl_iff member_defined failed none split: if_splits)
      moreover have "\<not> (lacks_key J data create_keys \<and> \<not> mc_va_end mc)"
        using keys checkKey_results(3) [of J mc data create_keys] by auto
      ultimately show ?thesis using False unfolding Some option.inject by blast
    next
      case keys: False
      then have "handle_create_frame J mc cmd reply s = Inl (Thrown UndefinedBehaviour)
          \<longleftrightarrow> checkKey J mc data create_keys = Inl (Thrown UndefinedBehaviour)"
        by (auto simp: handle_create_frame_def Some web_bind_Inl_iff failed split: if_splits)
      then show ?thesis using False unfolding Some option.inject checkKey_results by blast
    qed
  qed
qed


section \<open>Properties\<close>

text \<open>C25: At any time after the start a command is undefined behaviour exactly if it is not one of the four that are
  registered, when \<open>emitEvent\<close> ends without a result, or if it is a \<open>create frame\<close> that lacks a key, when \<open>checkKey\<close>
  returns without \<open>va_end\<close>, names the PGN of a frame that is not generic, or gets as far as being sent: through the null
  pointer if the interface has no sender, and otherwise with a format that is not initialized. (Machines where the
  missing \<open>va_end\<close> or reading that format does no harm are covered by \<open>mc\<close>.) All the while the frames keep the class of
  their PGN and no ring is doubled.\<close>

theorem server_undefined_exactly:
  assumes "server_start specs database = Inr (Some s0)" and "(server_step E)\<^sup>*\<^sup>* s0 s"
    and "env_parse E req = Some cmd" and "js_isMember (env_lib E) cmd ''command'' = Some True"
    and "member_string (env_lib E) cmd ''command'' = Inr event"
  shows "server_ok s \<and> (server_receive E mc req s = Inl (Thrown UndefinedBehaviour) \<longleftrightarrow>
    event \<notin> set server_commands \<or> event = ''create frame''
      \<and> (\<exists>data. js_get (env_lib E) cmd ''data'' = Some data \<and> (lacks_key (env_lib E) data create_keys \<and> \<not> mc_va_end mc \<or>
           (\<exists>pgn n name f. create_target (env_lib E) cmd data pgn n name \<and> getJ1939Frame_pgn (sv_factory s) pgn = Some f
              \<and> sending_undefined (env_lib E) mc data n name f (sv_easy s)))))"
proof -
  have s: "server_ok s" using server_steps_ok [OF assms(2) server_start_ok [OF assms(1)]] .
  have "web_ok Q r \<Longrightarrow> r \<noteq> Inl (Thrown UndefinedBehaviour)" for Q and r :: "(bool \<times> 'a \<times> 'a server) web"
    by (cases r) auto
  then have defined: "handle_cmd_list J reply s \<noteq> Inl (Thrown UndefinedBehaviour)"
    "handle_req_frame J cmd reply s \<noteq> Inl (Thrown UndefinedBehaviour)"
    "handle_set_baud J ifaces init cmd reply s \<noteq> Inl (Thrown UndefinedBehaviour)" for J reply ifaces init
    using handle_cmd_list_ok [OF s] handle_req_frame_ok [OF s] handle_set_baud_ok [OF s] by blast+
  have "server_receive E mc req s = Inl (Thrown UndefinedBehaviour) \<longleftrightarrow>
      emitEvent E mc event cmd (js_null (env_lib E)) s = Inl (Thrown UndefinedBehaviour)"
    using assms(3-5) by (auto simp: server_receive_def process_cmd_def web_bind_Inl_iff split: prod.split)
  moreover have "emitEvent E mc event cmd (js_null (env_lib E)) s = Inl (Thrown UndefinedBehaviour) \<longleftrightarrow>
      event = ''create frame''
        \<and> handle_create_frame (env_lib E) mc cmd (js_null (env_lib E)) s = Inl (Thrown UndefinedBehaviour)"
    if "event \<in> set server_commands"
    using that defined emitEvent_known [OF s] by (auto simp: server_commands_def)
  ultimately show ?thesis
    using s emitEvent_unknown [OF s, of event E mc cmd] create_frame_undefined_iff [OF s, of "env_lib E" mc cmd "js_null (env_lib E)"]
    by blast
qed

definition unknown_command :: "json server_env" where
  "unknown_command = \<lparr>env_lib = tree_json, env_parse = (\<lambda>r. Some (JObject [(''command'', JString r)])),
     env_ifaces = (\<lambda>b. []), env_init = (\<lambda>r b i. True)\<rparr>"

theorem server_undefined_exactly_witness:
  "\<forall>mc. \<exists>s0 :: json server. server_start 0 (Some []) = Inr (Some s0)
     \<and> server_receive unknown_command mc ''add frame'' s0 = Inl (Thrown UndefinedBehaviour)"
proof
  fix mc
  obtain m where "J1939Factory 0 = Inr m" using factory_start by blast
  then obtain s0 :: "json server" where s0: "server_start 0 (Some []) = Inr (Some s0)"
    by (simp add: server_start_def)
  let ?cmd = "JObject [(''command'', JString ''add frame'')]"
  have "env_parse unknown_command ''add frame'' = Some ?cmd"
    "js_isMember (env_lib unknown_command) ?cmd ''command'' = Some True"
    "member_string (env_lib unknown_command) ?cmd ''command'' = Inr ''add frame''"
    by (simp_all add: unknown_command_def tree_json_def member_string_def)
  from server_undefined_exactly [OF s0 rtranclp.rtrancl_refl this, of mc] s0
  show "\<exists>s0 :: json server. server_start 0 (Some []) = Inr (Some s0)
     \<and> server_receive unknown_command mc ''add frame'' s0 = Inl (Thrown UndefinedBehaviour)"
    by (intro exI [of _ s0]) (simp add: server_commands_def)
qed

definition door_spn :: SPN where
  "door_spn = \<lparr>mSpecId = 9, mSpec = \<lparr>mSPNNumber = 1821, mSpecName = ''Door'', mSpecOffset = 0\<rparr>,
     mSpnData = SpnStatus \<lparr>mBitOffset = 2, mBitSize = 2, mValueToDesc = []\<rparr> 0\<rparr>"

definition door_frame :: jframe where
  "door_frame = \<lparr>mPriority = 6, mSrcAddr = 0x21, mPgn = 0xFE4E, mDstAddr = 0xFF, mName = ''DC1'',
     mBody = Generic \<lparr>mLength = 8, mSPNs = [(1821, door_spn)]\<rparr>\<rparr>"

definition door_server :: "json server" where
  "door_server = registerEvent \<lparr>sv_respQueue = [], sv_handler = [], sv_factory = [(0xFE4E, door_frame)],
     sv_easy = \<lparr>ez_mSenders = [(to_iface ''can0'', SocketCan)], ez_mReceivers = [],
                ez_mInitializedIfaces = [to_iface ''can0''], ez_mHelpers = [(to_iface ''can0'', SocketCan)]\<rparr>,
     sv_rings = (\<lambda>i. [setFrames [CanFrame_of True 0x18FE4E21 [0]] (CanFrameRing 50 None)]), sv_once = []\<rparr>"

definition lenient :: machine where
  "lenient = \<lparr>mc_flag = Some True, mc_va_end = True\<rparr>"

text \<open>A request for the interface \<open>i\<close>.\<close>

definition door_data :: "string \<Rightarrow> json" where
  "door_data i = JObject [(''interface'', JString i), (''period'', JNumber (rat_of_nat 100)),
     (''pgn'', JNumber (rat_of_nat 0xFE4E)), (''spn'', JNumber (rat_of_nat 1821)), (''value'', JString ''1'')]"

definition door_request :: "string \<Rightarrow> json" where
  "door_request i = JObject [(''command'', JString ''create frame''), (''data'', door_data i)]"

lemma door_server_fields:
  "sv_handler door_server = [(''create frame'', Some process_create_frame), (''list frames'', Some process_cmd_list),
     (''req frame'', Some process_req_frame), (''set baud rate'', Some process_set_baud)]"
  "sv_factory door_server = [(0xFE4E, door_frame)]"
  "sv_rings door_server = (\<lambda>i. [setFrames [CanFrame_of True 0x18FE4E21 [0]] (CanFrameRing 50 None)])"
  "ez_mHelpers (sv_easy door_server) = [(to_iface ''can0'', SocketCan)]"
  "getSender i (sv_easy door_server) = (if i = to_iface ''can0'' then Some SocketCan else None)"
  by (simp_all add: door_server_def registerEvent_def addListener_def getSender_def)

lemma door_server_ok: "server_ok door_server"
  by (simp add: server_ok_def door_server_fields door_frame_def factory_ok_def frame_ok_def class_ok_def
      reserved_pgns_def smap_ok_Cons sender_ok_def new_ring)

lemma door_found: "getJ1939Frame_pgn (sv_factory door_server) 0xFE4E = Some door_frame"
  by (simp add: getJ1939Frame_pgn_def door_server_fields)

lemma door_members:
  "member_uint tree_json (door_data i) ''pgn'' = Inr 0xFE4E" "member_uint tree_json (door_data i) ''spn'' = Inr 1821"
  "member_uint tree_json (door_data i) ''period'' = Inr 100"
  "member_string tree_json (door_data i) ''interface'' = Inr i"
  "member_string tree_json (door_data i) ''value'' = Inr ''1''"
proof -
  have n: "(of_nat 0xFE4E :: u32) = 0xFE4E" "(of_nat 1821 :: u32) = 1821" "(of_nat 100 :: u32) = 100"
    by simp_all
  have "member_uint tree_json (door_data i) ''pgn'' = Inr (of_nat 0xFE4E)"
    "member_uint tree_json (door_data i) ''spn'' = Inr (of_nat 1821)"
    "member_uint tree_json (door_data i) ''period'' = Inr (of_nat 100)"
    by (simp_all add: door_data_def member_uint_def tree_json_def tree_uint_of_nat del: tree_uint.simps of_nat_numeral)
  then show "member_uint tree_json (door_data i) ''pgn'' = Inr 0xFE4E"
    "member_uint tree_json (door_data i) ''spn'' = Inr 1821"
    "member_uint tree_json (door_data i) ''period'' = Inr 100"
    by (simp_all only: n)
qed (simp_all add: door_data_def member_string_def tree_json_def)

lemma door_target:
  "i \<noteq> [] \<Longrightarrow> create_target tree_json (door_request i) (door_data i) 0xFE4E 1821 i"
  unfolding create_target_def door_members
  by (simp add: door_request_def create_keys_def) (simp add: door_data_def tree_json_def)

lemma door_evaluated:
  "case payload_generic (mBody door_frame) of None \<Rightarrow> False | Some g \<Rightarrow> hasSPN g 1821"
  "case web_setFrameValue door_frame 1821 ''1'' of Inl h \<Rightarrow> False
   | Inr f \<Rightarrow> is_ok (web_encode f (CanFrame_default True)) \<and> jframe_getDataLength f = 8"
  by code_simp+

lemma door_set:
  obtains g f' c where "payload_generic (mBody door_frame) = Some g" "hasSPN g 1821"
    "web_setFrameValue door_frame 1821 ''1'' = Inr f'" "web_encode f' (CanFrame_default True) = Inr c"
    "jframe_getDataLength f' = 8"
  using door_evaluated by (auto simp: is_ok_iff split: option.splits sum.splits)

text \<open>A request to send a frame with a period registers one CAN frame with the sender of its interface, under
  the identifier of the frame, and nothing anywhere else. Its data are the encoded frame, but only if these
  are at most eight bytes: a longer frame is sent without any.\<close>

theorem create_frame_sends:
  assumes "server_ok s" and "create_target J cmd data pgn n name" and "getJ1939Frame_pgn (sv_factory s) pgn = Some f"
    and "payload_generic (mBody f) = Some g" and "hasSPN g n"
    and "member_string J data ''value'' = Inr val" and "web_setFrameValue f n val = Inr f'"
    and "member_uint J data ''period'' = Inr period" and "period \<noteq> 0"
    and "handle_create_frame J mc cmd reply s = Inr (b, reply', s')"
  shows "\<exists>buff c. jframe_encode f' (jframe_getDataLength f') = Inr (getIdentifier f, buff, jframe_getDataLength f')
    \<and> length buff = jframe_getDataLength f' \<and> cf_mId c = getIdentifier f
    \<and> cf_mData c = (if length buff \<le> 8 then buff else [])
    \<and> (\<forall>i. sent_ring (sv_rings s' i) = (if i = to_iface name
         then (sent_ring (sv_rings s i))([getIdentifier f] \<mapsto> setFrames [c] (CanFrameRing period None))
         else sent_ring (sv_rings s i)))"
proof -
  have f: "frame_ok f" by (rule server_frame_ok [OF assms(1,3)])
  note f' = web_frame_set [OF f assms(4,7)]
  have send: "web_sendFrame mc f' (to_iface name) period s = Inr s'"
    using assms(10) unfolding create_frame_target [OF assms(2-8)]
    by (auto simp: web_bind_Inr_iff)
  then obtain c where c: "web_encode f' (CanFrame_default (mc_flag mc = Some True)) = Inr c"
    and s': "s' = s\<lparr>sv_rings := (sv_rings s)(to_iface name :=
        snd (sendFrame c period None (sv_rings s (to_iface name))))\<rparr>"
    using assms(9) by (auto simp: web_sendFrame_def web_bind_Inr_iff split: option.splits if_splits)
  obtain ident buff len where e: "jframe_encode f' (jframe_getDataLength f') = Inr (ident, buff, len)"
    and cc: "c = snd (cf_setData (take (jframe_getDataLength f') buff) ((CanFrame_default (mc_flag mc = Some True))\<lparr>cf_mId := ident\<rparr>))"
    using c by (auto simp: web_encode_def Let_def res_bind_Inr_iff)
  have "payload_sized (mBody f')" using f' by (simp add: frame_ok_def)
  from jframe_encode_safe(2) [OF this e] f' have i: "ident = getIdentifier f" "length buff = len"
    "len = jframe_getDataLength f'" by simp_all
  have id: "cf_mId c = getIdentifier f" and data: "cf_mData c = (if length buff \<le> 8 then buff else [])"
    using i by (simp_all add: cc cf_setData_def CanFrame_default_def)
  have "sender_ok (sv_rings s (to_iface name))" using assms(1) by (simp add: server_ok_def)
  from rings.lookup_send [OF this, of "[c]" "(period, None)"] id
  have "sent_ring (snd (sendFrame c period None (sv_rings s (to_iface name))))
      = (sent_ring (sv_rings s (to_iface name)))([getIdentifier f] \<mapsto> setFrames [c] (CanFrameRing period None))"
    by (simp add: sendFrame_def)
  with e i id data s' show ?thesis by (intro exI [of _ buff] exI [of _ c]) auto
qed

theorem create_frame_sends_witness:
  "\<exists>r s' c. handle_create_frame tree_json lenient (door_request ''can0'') JNull door_server = Inr (True, r, s')
     \<and> length (cf_mData c) = 8
     \<and> sent_ring (sv_rings s' (to_iface ''can0'')) [getIdentifier door_frame]
         = Some (setFrames [c] (CanFrameRing 100 None))"
proof -
  obtain g f' c where d: "payload_generic (mBody door_frame) = Some g" "hasSPN g 1821"
    "web_setFrameValue door_frame 1821 ''1'' = Inr f'" "web_encode f' (CanFrame_default True) = Inr c"
    "jframe_getDataLength f' = 8"
    by (rule door_set)
  note t = door_target [of "''can0''", OF list.distinct(2)]
  have "\<exists>r s'. handle_create_frame tree_json lenient (door_request ''can0'') JNull door_server = Inr (True, r, s')"
    unfolding create_frame_target [OF t door_found d(1,2) door_members(5) d(3) door_members(3)]
    by (simp add: web_sendFrame_def d(4) door_server_fields lenient_def) (simp add: tree_json_def door_data_def)
  then obtain r s' where h: "handle_create_frame tree_json lenient (door_request ''can0'') JNull door_server = Inr (True, r, s')"
    by blast
  have "(100 :: u32) \<noteq> 0" by simp
  from create_frame_sends [OF door_server_ok t door_found d(1,2) door_members(5) d(3) door_members(3) this h] h d(5)
  show ?thesis by auto
qed

text \<open>The bit rate can be set once only: when there are helpers already, setting another one initializes
  nothing, whatever the rate and the back ends; all it does is to take a new sender for every interface,
  so that no frame is sent any more.\<close>

theorem second_rate_only_stops:
  assumes "ez_mHelpers (sv_easy s) \<noteq> []" and "handle_set_baud J ifaces init cmd reply s = Inr (True, reply', s')"
  shows "ez_mHelpers (sv_easy s') = ez_mHelpers (sv_easy s)
    \<and> (\<forall>init'. \<exists>r. handle_set_baud J ifaces init' cmd reply s = Inr (True, reply', s'))
    \<and> (\<forall>i. sv_rings s' i = (if smap_find (ez_mHelpers (sv_easy s)) i \<noteq> None then [] else sv_rings s i))"
proof -
  have init: "server_initialize ifaces init' rate s = s\<lparr>sv_easy := fold easy_add_sender (ez_mHelpers (sv_easy s)) (sv_easy s),
      sv_rings := (\<lambda>i. if smap_find (ez_mHelpers (sv_easy s)) i \<noteq> None then [] else sv_rings s i)\<rparr>" for init' rate
    using assms(1)
    by (auto simp: server_initialize_def Let_def initialize_again add_senders_helpers smap_find_None_iff fun_eq_iff)
  have same: "handle_set_baud J ifaces init' cmd reply s = handle_set_baud J ifaces init cmd reply s" for init'
    unfolding handle_set_baud_def Let_def init ..
  from assms(2) have "s' = server_initialize ifaces init 0 s"
    by (auto simp: handle_set_baud_def web_bind_Inr_iff Let_def init split: if_splits)
  then show ?thesis using same assms(2) by (simp add: init add_senders_helpers)
qed


theorem second_rate_only_stops_witness:
  "\<exists>r s'. handle_set_baud tree_json (\<lambda>b. [to_iface ''can0'']) (\<lambda>rate b i. True)
     (JObject [(''data'', JNumber (rat_of_nat 500))]) JNull door_server = Inr (True, r, s')
     \<and> sv_rings s' (to_iface ''can0'') = [] \<and> sv_rings door_server (to_iface ''can0'') \<noteq> []"
proof -
  let ?set = "handle_set_baud tree_json (\<lambda>b. [to_iface ''can0'']) (\<lambda>rate b i. True)
     (JObject [(''data'', JNumber (rat_of_nat 500))]) JNull door_server"
  have "(of_nat 500 :: u32) \<noteq> 0" by simp
  moreover have "js_asUInt tree_json (JNumber (rat_of_nat 500)) = Some (of_nat 500)"
    by (simp add: tree_json_def tree_uint_of_nat del: tree_uint.simps of_nat_numeral)
  moreover have "js_get tree_json (JObject [(''data'', x)]) ''data'' = Some x" for x
    by (simp add: tree_json_def)
  ultimately have "\<exists>r s'. ?set = Inr (True, r, s')"
    by (simp add: handle_set_baud_def Let_def getInterfaces_def js_append_def del: of_nat_numeral)
       (simp add: tree_json_def tree_put_def)
  then obtain r s' where h: "?set = Inr (True, r, s')" by blast
  from second_rate_only_stops [OF _ h] h show ?thesis by (auto simp: door_server_fields)
qed

end
