(* ===== verification/ToolBase.thy ===== *)
theory ToolBase
  imports Prelude StdString
begin

text \<open>
  What the command line tools share: how they end, the parameters they read with \<open>std::stoul\<close>, and the
  splitting of a line.
\<close>

text \<open>A tool returns from \<open>main\<close> or exits with a code, or is ended by an exception that nothing catches.\<close>

datatype quit = Quit int | Killed exc | KilledStd std_exc

type_synonym 'a tool = "quit + 'a"

abbreviation EIO :: int where "EIO \<equiv> 5"
abbreviation EINVAL :: int where "EINVAL \<equiv> 22"

fun tool_bind :: "'a tool \<Rightarrow> ('a \<Rightarrow> 'b tool) \<Rightarrow> 'b tool" where
  "tool_bind (Inl q) f = Inl q"
| "tool_bind (Inr a) f = f a"

fun tool_res :: "'a res \<Rightarrow> 'a tool" where
  "tool_res (Inl e) = Inl (Killed e)"
| "tool_res (Inr a) = Inr a"

fun tool_outcome :: "(exc \<times> 's) + 'a \<Rightarrow> 'a tool" where
  "tool_outcome (Inl (e, s)) = Inl (Killed e)"
| "tool_outcome (Inr a) = Inr a"

fun tool_std :: "std_exc + 'a \<Rightarrow> 'a tool" where
  "tool_std (Inl e) = Inl (KilledStd e)"
| "tool_std (Inr a) = Inr a"

lemma tool_bind_Inr_iff: "tool_bind m f = Inr b \<longleftrightarrow> (\<exists>a. m = Inr a \<and> f a = Inr b)"
  by (cases m) auto

lemma tool_bind_Inl_iff: "tool_bind m f = Inl h \<longleftrightarrow> m = Inl h \<or> (\<exists>a. m = Inr a \<and> f a = Inl h)"
  by (cases m) auto

lemma tool_res_iff [simp]: "tool_res r = Inr a \<longleftrightarrow> r = Inr a"
  by (cases r) auto

lemma tool_outcome_iff [simp]: "tool_outcome r = Inr a \<longleftrightarrow> r = Inr a"
  by (cases r rule: tool_outcome.cases) auto

lemma tool_std_iff [simp]: "tool_std r = Inr a \<longleftrightarrow> r = Inr a"
  by (cases r) auto

text \<open>\<open>u32 x = std::stoul(text, nullptr, base)\<close> in a \<open>try\<close>: \<open>None\<close> when it is not a number.\<close>

definition number_param :: "nat \<Rightarrow> string \<Rightarrow> u32 option tool" where
  "number_param base str =
     (case stoul base str of
        Inr n \<Rightarrow> Inr (Some (ucast n))
      | Inl InvalidArgument \<Rightarrow> Inr None
      | Inl OutOfRange \<Rightarrow> Inl (KilledStd OutOfRange))"

text \<open>\<open>split\<close>: what lies between the separators of a C string.\<close>

function split_words :: "char \<Rightarrow> string \<Rightarrow> string list" where
  "split_words c str =
     (if takeWhile (\<lambda>y. y \<noteq> c) str = [] then [] else [takeWhile (\<lambda>y. y \<noteq> c) str])
     @ (case dropWhile (\<lambda>y. y \<noteq> c) str of [] \<Rightarrow> [] | x # r \<Rightarrow> split_words c r)"
  by pat_completeness auto

termination
proof (relation "measure (\<lambda>(c, str). length str)")
  fix c str x r
  assume "dropWhile (\<lambda>y. y \<noteq> c) str = x # r"
  then have "length (x # r) \<le> length str" by (metis length_dropWhile_le)
  then show "((c, r), c, str) \<in> measure (\<lambda>(c, str). length str)" by simp
qed simp

declare split_words.simps [simp del]

definition split_spaces :: "string \<Rightarrow> string list" where
  "split_spaces str = split_words (CHR '' '') (takeWhile (\<lambda>x. x \<noteq> CHR 0x00) str)"

end
