(* ===== verification/Sniffing.thy ===== *)
theory Sniffing
  imports ToolBase Factory Bam Sender
begin

unbundle bit_operations_syntax

text \<open>
  \<open>BinUtils/j1939Sniffer\<close>, which shows one kind of frame, and \<open>BinUtils/j1939AddressMapper\<close>, which lists the
  controllers that claim addresses: their arguments, the filters they install and what they do with a
  frame. The result of \<open>getopt_long\<close> is the list of options it recognised; what is put on the screen is kept
  as a value.
\<close>

section \<open>The sniffer's arguments\<close>

record sniffer_args =
  sa_pgn :: u32
  sa_spn :: u32
  sa_interface :: string
  sa_title :: string
  sa_source :: u8

definition sniffer_defaults :: sniffer_args where
  "sniffer_defaults = \<lparr>sa_pgn = 0, sa_spn = 0, sa_interface = [], sa_title = [], sa_source = 0xFE\<rparr>"

text \<open>The last one of an option counts.\<close>

fun option_text :: "char \<Rightarrow> (char \<times> string) list \<Rightarrow> string" where
  "option_text c [] = []"
| "option_text c ((x, optarg) # opts) =
     (if x = c \<and> c \<notin> fst ` set opts then optarg else option_text c opts)"

definition source_param :: "string \<Rightarrow> sniffer_args \<Rightarrow> sniffer_args tool" where
  "source_param sourceStr a =
     (if sourceStr = [] then Inr a
      else tool_bind (number_param 16 sourceStr) (\<lambda>n.
             case n of
               None \<Rightarrow> Inl (Quit (- EINVAL))
             | Some src \<Rightarrow> if src AND 0xFF \<noteq> src then Inl (Quit (- EINVAL)) else Inr (a\<lparr>sa_source := ucast src\<rparr>)))"

definition pgn_param :: "string \<Rightarrow> sniffer_args \<Rightarrow> sniffer_args tool" where
  "pgn_param pgnStr a =
     (if pgnStr = [] then Inr a
      else tool_bind (number_param 16 pgnStr) (\<lambda>n.
             case n of
               None \<Rightarrow> Inl (Quit (- EINVAL))
             | Some pgn \<Rightarrow> if pgn AND 0x3FFFF \<noteq> pgn then Inl (Quit (- EINVAL)) else Inr (a\<lparr>sa_pgn := pgn\<rparr>)))"

definition spn_param :: "string \<Rightarrow> sniffer_args \<Rightarrow> sniffer_args tool" where
  "spn_param spnStr a =
     (if spnStr = [] then Inr a
      else tool_bind (number_param 10 spnStr) (\<lambda>n.
             case n of None \<Rightarrow> Inl (Quit (- EINVAL)) | Some spn \<Rightarrow> Inr (a\<lparr>sa_spn := spn\<rparr>)))"

definition processCommand :: "(char \<times> string) list \<Rightarrow> sniffer_args tool" where
  "processCommand opts =
     (let pgnStr = option_text (CHR ''p'') opts;
          a = sniffer_defaults\<lparr>sa_interface := option_text (CHR ''i'') opts, sa_title := option_text (CHR ''t'') opts\<rparr>
      in tool_bind (source_param (option_text (CHR ''o'') opts) a) (\<lambda>a.
           if pgnStr = [] \<and> sa_title a = [] then Inl (Quit (- EINVAL))
           else if pgnStr \<noteq> [] \<and> sa_title a \<noteq> [] then Inl (Quit (- EINVAL))
           else tool_bind (pgn_param pgnStr a) (spn_param (option_text (CHR ''s'') opts))))"

section \<open>The sniffer\<close>

text \<open>What is on the screen: a frame, one SPN of it, or nothing.\<close>

datatype shown = ShownFrame jframe | ShownSPN SPN | ShownNothing

record sniffer =
  sn_args :: sniffer_args
  sn_factory :: factory
  sn_reassembler :: reassembler
  sn_screen :: "shown list"

definition sniffer_filters :: "u32 \<Rightarrow> u8 \<Rightarrow> CanFilter list" where
  "sniffer_filters pgn source =
     (let addr = (if source = 0xFE then 0 else ucast source) :: u32;
          addr_mask = (if source = 0xFE then 0 else 0xFF) :: u32;
          dataFilter = CanFilter (push_bit 8 pgn OR addr) (push_bit 8 0x3FFFF OR addr_mask) True False;
          tpcmFilter = CanFilter (push_bit 8 TP_CM_PGN OR addr) (push_bit 8 (push_bit 8 0xFF) OR addr_mask) True False;
          tpdtFilter = CanFilter (push_bit 8 TP_DT_PGN OR addr) (push_bit 8 (push_bit 8 0xFF) OR addr_mask) True False
      in fold set_insert [dataFilter, tpcmFilter, tpdtFilter] [])"

text \<open>The frame the user asked for, and the SPN, have to exist.\<close>

definition sniffer_frame :: "factory \<Rightarrow> sniffer_args \<Rightarrow> jframe tool" where
  "sniffer_frame m a =
     (let frame = (if sa_pgn a \<noteq> 0 then getJ1939Frame_pgn m (sa_pgn a)
                   else if sa_title a \<noteq> [] then getJ1939Frame_name m (sa_title a) else None)
      in case frame of
           None \<Rightarrow> Inl (Quit (- EINVAL))
         | Some f \<Rightarrow>
             if sa_spn a = 0 then Inr f
             else (case payload_generic (mBody f) of
                     None \<Rightarrow> Inl (Quit (- EINVAL))
                   | Some g \<Rightarrow> if hasSPN g (sa_spn a) then Inr f else Inl (Quit (- EINVAL))))"

text \<open>Up to the endless loop of \<open>sniff\<close>: the state and the receivers with their filters.\<close>

definition sniffer_main ::
  "nat \<Rightarrow> generic frame list option \<Rightarrow> sniff_receiver list \<Rightarrow> (char \<times> string) list
   \<Rightarrow> (sniffer \<times> sniff_receiver list) tool" where
  "sniffer_main specs database receivers opts =
     (case processCommand opts of
        Inl (Quit code) \<Rightarrow> Inl (Quit (- EINVAL))
      | Inl q \<Rightarrow> Inl q
      | Inr a \<Rightarrow>
          tool_bind (tool_res (J1939Factory specs)) (\<lambda>m.
            let (ret, m) = registerDatabaseFrames database m
            in if \<not> ret then Inl (Quit (- EINVAL))
               else tool_bind (sniffer_frame m a) (\<lambda>frame.
                 if receivers = [] then Inl (Quit 8)
                 else Inr (\<lparr>sn_args = a, sn_factory = m, sn_reassembler = BamReassembler, sn_screen = []\<rparr>,
                           sniffer_setFilters (sniffer_filters (mPgn frame) (sa_source a)) receivers))))"

definition sniffer_show :: "jframe \<Rightarrow> sniffer \<Rightarrow> sniffer" where
  "sniffer_show f s =
     (let a = sn_args s
      in if sa_pgn a = mPgn f \<or> sa_title a = mName f
         then let toPrint =
                    (if sa_spn a = 0 then ShownFrame f
                     else case payload_generic (mBody f) of
                            None \<Rightarrow> ShownNothing
                          | Some g \<Rightarrow> (case getSPN g (sa_spn a) of None \<Rightarrow> ShownNothing | Some spn \<Rightarrow> ShownSPN spn))
              in s\<lparr>sn_screen := sn_screen s @ [toPrint]\<rparr>
         else s)"

definition sniffer_onRcv :: "(nat \<Rightarrow> u8) \<Rightarrow> CanFrame \<Rightarrow> sniffer \<Rightarrow> sniffer tool" where
  "sniffer_onRcv junk frame s =
     tool_bind (tool_res (getJ1939Frame (sn_factory s) (cf_mId frame) (cf_mData frame))) (\<lambda>decoded.
       case decoded of
         None \<Rightarrow> Inr s
       | Some f \<Rightarrow>
           tool_bind (tool_res (toBeHandled f)) (\<lambda>transport.
             if \<not> transport then Inr (sniffer_show f s)
             else tool_bind (tool_outcome (handleFrame (getJ1939Frame (sn_factory s)) junk f (sn_reassembler s)))
                    (\<lambda>(n, r).
                      if \<not> reassembledFramesPending r then Inr (s\<lparr>sn_reassembler := r\<rparr>)
                      else tool_bind (tool_outcome (dequeueReassembledFrame r)) (\<lambda>(f', r').
                             Inr (sniffer_show f' (s\<lparr>sn_reassembler := r'\<rparr>))))))"

section \<open>The address mapper\<close>

record mapper =
  am_factory :: factory
  am_names :: "EcuName list"
  am_lines :: "(string \<times> u8 \<times> EcuName) list"

text \<open>A \<open>std::set\<close> of NAMEs, in the order of their values.\<close>

fun names_find :: "EcuName \<Rightarrow> EcuName list \<Rightarrow> bool" where
  "names_find n [] = False"
| "names_find n (m # ms) = (\<not> ecu_less n m \<and> \<not> ecu_less m n \<or> names_find n ms)"

fun names_insert :: "EcuName \<Rightarrow> EcuName list \<Rightarrow> EcuName list" where
  "names_insert n [] = [n]"
| "names_insert n (m # ms) =
     (if ecu_less n m then n # m # ms else if ecu_less m n then m # names_insert n ms else m # ms)"

definition mapper_onRcv :: "CanFrame \<Rightarrow> string \<Rightarrow> mapper \<Rightarrow> mapper tool" where
  "mapper_onRcv frame interface s =
     tool_bind (tool_res (getJ1939Frame (am_factory s) (cf_mId frame) (cf_mData frame))) (\<lambda>decoded.
       case decoded of
         None \<Rightarrow> Inr s
       | Some f \<Rightarrow>
           if mPgn f \<noteq> ADDRESS_CLAIM_PGN then Inr s
           else (case mBody f of
                   AddrClaim name \<Rightarrow>
                     Inr (if names_find name (am_names s) then s
                          else s\<lparr>am_lines := am_lines s @ [(interface, mSrcAddr f, name)],
                                 am_names := names_insert name (am_names s)\<rparr>)
                 | _ \<Rightarrow> Inl (Killed UndefinedBehaviour)))"

definition mapper_request :: "CanFrame res" where
  "mapper_request =
     (let reqFrame = snd (setDstAddr BROADCAST (setSrcAddr 0xFE (as_frame Request (RequestFrame_of ADDRESS_CLAIM_PGN))));
          len = jframe_getDataLength reqFrame
      in res_bind (jframe_encode reqFrame len) (\<lambda>(ident, buff, n).
           Inr (snd (cf_setData (take n buff) ((CanFrame_default True)\<lparr>cf_mId := ident\<rparr>)))))"

definition mapper_filters :: "CanFilter list" where
  "mapper_filters = set_insert (CanFilter (push_bit 8 ADDRESS_CLAIM_PGN) (push_bit 8 (push_bit 8 0xFF)) True False) []"

text \<open>Every initialized interface sends the request once a second; \<open>rings\<close> are the rings of the senders.\<close>

fun mapper_send :: "iface list \<Rightarrow> CanFrame \<Rightarrow> can_easy \<Rightarrow> (iface \<Rightarrow> ring list) \<Rightarrow> (iface \<Rightarrow> ring list) tool" where
  "mapper_send [] canFrame easy rings = Inr rings"
| "mapper_send (i # is) canFrame easy rings =
     (case getSender i easy of
        None \<Rightarrow> Inl (Killed UndefinedBehaviour)
      | Some b \<Rightarrow> mapper_send is canFrame easy (rings(i := snd (sendFrame canFrame 1000 None (rings i)))))"

definition mapper_main ::
  "nat \<Rightarrow> (backend \<Rightarrow> iface list) \<Rightarrow> (backend \<Rightarrow> iface \<Rightarrow> bool) \<Rightarrow> sniff_receiver list
   \<Rightarrow> (mapper \<times> (iface \<Rightarrow> ring list) \<times> sniff_receiver list) tool" where
  "mapper_main specs ifaces init receivers =
     (let easy = easy_initialize_recv ifaces init
            \<lparr>ez_mSenders = [], ez_mReceivers = [], ez_mInitializedIfaces = [], ez_mHelpers = []\<rparr>
      in if ez_mInitializedIfaces easy = [] then Inl (Quit 1)
         else tool_bind (tool_res mapper_request) (\<lambda>canFrame.
              tool_bind (mapper_send (ez_mInitializedIfaces easy) canFrame easy (\<lambda>i. [])) (\<lambda>rings.
              tool_bind (tool_res (J1939Factory specs)) (\<lambda>m.
                Inr (\<lparr>am_factory = m, am_names = [], am_lines = []\<rparr>, rings,
                     sniffer_setFilters mapper_filters receivers)))))"

text \<open>What \<open>sniff\<close> calls back, one frame after the other.\<close>

fun mapper_run :: "(CanFrame \<times> string) list \<Rightarrow> mapper \<Rightarrow> mapper tool" where
  "mapper_run [] s = Inr s"
| "mapper_run ((frame, interface) # fs) s = tool_bind (mapper_onRcv frame interface s) (mapper_run fs)"

end
