(* ===== verification/SniffingProps.thy ===== *)
theory SniffingProps
  imports Sniffing SenderSafety
begin

unbundle bit_operations_syntax

text \<open>
  Which frames the filters of the sniffer and of the address mapper let through, what the sniffer shows of
  them, and the list of the address mapper.
\<close>

section \<open>Filters\<close>

lemma passes_any_iff: "any_filter fs i \<longleftrightarrow> (\<exists>f \<in> set fs. getId f AND getMask f = i AND getMask f)"
  by (induction fs) auto

lemma masks_apart:
  "(x AND (M OR m) = y AND (M OR m)) \<longleftrightarrow> x AND M = y AND M \<and> x AND m = y AND m" for x :: u32
  by (auto simp: bit_eq_iff bit_simps)


text \<open>Fields of the identifier: the PGN, the PDU format and the source address.\<close>

lemma field_matches:
  fixes p m i :: u32
  assumes m: "\<And>n. bit m n \<Longrightarrow> k + n < 32"
  shows "(push_bit k p AND push_bit k m = i AND push_bit k m) \<longleftrightarrow> p AND m = drop_bit k i AND m"
proof -
  have i: "i AND push_bit k m = push_bit k (drop_bit k i AND m)"
    by (rule bit_eqI) (auto simp: bit_push_bit_iff bit_and_iff bit_drop_bit_eq)
  have d: "drop_bit k (push_bit k (z AND m)) = z AND m" for z :: u32
    by (rule bit_eqI) (use m in \<open>auto simp: bit_push_bit_iff bit_and_iff bit_drop_bit_eq\<close>)
  have "push_bit k (y AND m) = push_bit k (z AND m) \<longleftrightarrow> y AND m = z AND m" for y z :: u32
  proof
    assume "push_bit k (y AND m) = push_bit k (z AND m)"
    from arg_cong [where f = "drop_bit k", OF this] show "y AND m = z AND m" by (simp only: d)
  qed simp
  then show ?thesis by (simp only: i push_bit_and [symmetric])
qed

lemma mask_bits: "bit (0x3FFFF :: u32) n \<Longrightarrow> 8 + n < 32" "bit (0xFF :: u32) n \<Longrightarrow> 16 + n < 32" 
  "bit (0xFF :: u32) n \<Longrightarrow> 0 + n < 32"
proof -
  have m: "(0x3FFFF :: u32) = mask 18" "(0xFF :: u32) = mask 8" by (simp_all add: mask_eq_exp_minus_1)
  show "bit (0x3FFFF :: u32) n \<Longrightarrow> 8 + n < 32" "bit (0xFF :: u32) n \<Longrightarrow> 16 + n < 32"
    "bit (0xFF :: u32) n \<Longrightarrow> 0 + n < 32"
    unfolding m by (simp_all add: bit_simps)
qed

text \<open>The fields of an identifier that a filter looks at: PGN, PDU format and source address.\<close>

lemma pgn_field:
  "(push_bit 8 p AND push_bit 8 0x3FFFF = i AND push_bit 8 0x3FFFF) \<longleftrightarrow> p AND 0x3FFFF = drop_bit 8 i AND (0x3FFFF :: u32)"
  by (rule field_matches) (rule mask_bits)

lemma format_field:
  "(push_bit 8 p AND push_bit 8 (push_bit 8 0xFF) = i AND push_bit 8 (push_bit 8 0xFF))
     \<longleftrightarrow> drop_bit 8 p AND 0xFF = drop_bit 16 i AND (0xFF :: u32)"
proof -
  have "push_bit 8 p AND push_bit 8 (push_bit 8 0xFF) = push_bit 16 (drop_bit 8 p) AND push_bit 16 (0xFF :: u32)"
    by (rule bit_eqI) (auto simp: bit_simps simp del: push_bit_numeral)
  moreover have "push_bit 8 (push_bit 8 0xFF) = push_bit 16 (0xFF :: u32)" by simp
  ultimately show ?thesis using field_matches [of "0xFF" 16 "drop_bit 8 p" i] mask_bits(2) by simp
qed

lemma source_field:
  fixes s :: u8 and p x i :: u32
  shows "((push_bit 8 p OR ucast s) AND (push_bit 8 x OR 0xFF) = i AND (push_bit 8 x OR 0xFF))
    \<longleftrightarrow> push_bit 8 p AND push_bit 8 x = i AND push_bit 8 x \<and> ucast i = s"
proof -
  have ff: "(0xFF :: u32) = mask 8" by (simp add: mask_eq_exp_minus_1)
  have "(push_bit 8 p OR ucast s) AND push_bit 8 x = push_bit 8 p AND push_bit 8 x"
    by (rule bit_eqI) (auto simp: bit_push_bit_iff bit_and_iff bit_or_iff bit_ucast_iff dest: bit_imp_le_length)
  moreover have "(push_bit 8 p OR ucast s) AND mask 8 = (ucast s :: u32)"
    by (rule bit_eqI) (auto simp: bit_push_bit_iff bit_and_iff bit_or_iff bit_ucast_iff bit_mask_iff dest: bit_imp_le_length)
  moreover have "ucast s = i AND mask 8 \<longleftrightarrow> ucast i = s"
  proof
    assume "ucast s = i AND mask 8"
    then have "bit s n = bit i n" if "n < 8" for n
      using that by (auto simp: bit_eq_iff bit_and_iff bit_ucast_iff bit_mask_iff)
    then show "ucast i = s" by (intro bit_eqI) (auto simp: bit_ucast_iff)
  next
    assume "ucast i = s"
    then show "ucast s = i AND mask 8"
      by (intro bit_eqI) (auto simp: bit_ucast_iff bit_and_iff bit_mask_iff)
  qed
  ultimately show ?thesis unfolding ff masks_apart by auto
qed

text \<open>The filters of the sniffer let exactly those frames through that come from the source asked for, if any,
  and have the PGN in all its eighteen bits or the PDU format of one of the transport frames. For a PGN of
  the first group, whose low byte is the destination, this loses every frame that is addressed to anyone
  but the address 0.\<close>

theorem sniffed_frames:
  assumes "pgn AND 0x3FFFF = pgn"
  shows "(any_filter (sniffer_filters pgn source) i \<longleftrightarrow> (source = 0xFE \<or> ucast i = source)
      \<and> (drop_bit 8 i AND 0x3FFFF = pgn \<or> drop_bit 16 i AND 0xFF = 0xEC \<or> drop_bit 16 i AND 0xFF = 0xEB))
    \<and> (id_pgn i = pgn \<and> pgn AND 0xFF = 0 \<and> drop_bit 8 i AND 0xFF \<noteq> 0 \<and> drop_bit 16 i AND 0xFF \<notin> {0xEC, 0xEB}
        \<longrightarrow> \<not> any_filter (sniffer_filters pgn source) i)"
proof -
  have tp: "drop_bit 8 TP_CM_PGN AND 0xFF = (0xEC :: u32)" "drop_bit 8 TP_DT_PGN AND 0xFF = (0xEB :: u32)"
    by simp_all
  have s0: "(push_bit 8 p OR 0) AND (push_bit 8 x OR 0) = push_bit 8 p AND push_bit 8 x" for p x :: u32 by simp
  have i0: "i AND (push_bit 8 x OR 0) = i AND push_bit 8 x" for x :: u32 by simp
  have passes: "any_filter (sniffer_filters pgn source) i \<longleftrightarrow> (source = 0xFE \<or> ucast i = source)
      \<and> (drop_bit 8 i AND 0x3FFFF = pgn \<or> drop_bit 16 i AND 0xFF = 0xEC \<or> drop_bit 16 i AND 0xFF = 0xEB)"
  proof (cases "source = 0xFE")
    case True
    then show ?thesis
      by (simp only: passes_any_iff sniffer_filters_def Let_def fold_simps o_apply id_apply set_set_insert list.set
          bex_simps CanFilter.sel simp_thms if_True s0 i0 pgn_field format_field tp assms) auto
  next
    case False
    then show ?thesis
      by (simp only: passes_any_iff sniffer_filters_def Let_def fold_simps o_apply id_apply set_set_insert list.set
          bex_simps CanFilter.sel if_False source_field pgn_field format_field tp assms) auto
  qed
  have "drop_bit 8 i AND 0xFF = pgn AND 0xFF" if "drop_bit 8 i AND 0x3FFFF = pgn"
    unfolding that [symmetric] by (simp add: and.assoc)
  with passes show ?thesis by auto
qed

text \<open>The first frame below asks the controller 0x21 for something, the second one asks everybody: the sniffer
  sees neither.\<close>

theorem sniffed_frames_witness:
  "id_pgn 0x18EA21F9 = 0xEA00 \<and> \<not> any_filter (sniffer_filters 0xEA00 0xFE) 0x18EA21F9
     \<and> \<not> any_filter (sniffer_filters 0xEA00 0xFE) 0x18EAFFF9 \<and> any_filter (sniffer_filters 0xFEF1 0x21) 0x18FEF121"
  using sniffed_frames [of "0xEA00" "0xFE" "0x18EA21F9"] sniffed_frames [of "0xEA00" "0xFE" "0x18EAFFF9"]
    sniffed_frames [of "0xFEF1" "0x21" "0x18FEF121"]
  by (simp add: id_pgn_def id_group1_def id_pgn_bits_def)

section \<open>The address mapper\<close>

lemma names_find_iff: "names_find n ms \<longleftrightarrow> ecu_getValue n \<in> ecu_getValue ` set ms"
  by (induction ms) (auto simp: ecu_less_def not_less)

lemma names_insert_values: "ecu_getValue ` set (names_insert n ms) = insert (ecu_getValue n) (ecu_getValue ` set ms)"
  by (induction ms) (auto simp: ecu_less_def not_less)

definition line_name :: "string \<times> u8 \<times> EcuName \<Rightarrow> u64" where
  "line_name l = ecu_getValue (snd (snd l))"

definition claimed :: "factory \<Rightarrow> CanFrame \<Rightarrow> EcuName set" where
  "claimed m c = {n. \<exists>f. getJ1939Frame m (cf_mId c) (cf_mData c) = Inr (Some f) \<and> mBody f = AddrClaim n}"

definition mapper_ok :: "mapper \<Rightarrow> bool" where
  "mapper_ok s \<longleftrightarrow> factory_ok (am_factory s) \<and> distinct (map line_name (am_lines s))
     \<and> line_name ` set (am_lines s) = ecu_getValue ` set (am_names s)"

lemma mapper_onRcv_ok:
  assumes "mapper_ok s"
  shows "case mapper_onRcv c i s of
      Inl q \<Rightarrow> \<exists>e. q = Killed e \<and> getJ1939Frame (am_factory s) (cf_mId c) (cf_mData c) = Inl e
    | Inr s' \<Rightarrow> mapper_ok s' \<and> am_factory s' = am_factory s
        \<and> line_name ` set (am_lines s') = line_name ` set (am_lines s) \<union> ecu_getValue ` claimed (am_factory s) c"
proof (cases "getJ1939Frame (am_factory s) (cf_mId c) (cf_mData c)")
  case (Inl e)
  then show ?thesis by (simp add: mapper_onRcv_def)
next
  case (Inr d)
  show ?thesis
  proof (cases "\<exists>f n. d = Some f \<and> mBody f = AddrClaim n")
    case True
    then obtain f n where f: "d = Some f" "mBody f = AddrClaim n" by blast
    have "class_ok f"
      using getJ1939Frame_class_ok [of "am_factory s"] Inr f(1) assms by (auto simp: mapper_ok_def)
    then have "mPgn f = ADDRESS_CLAIM_PGN" by (simp add: class_ok_def f(2))
    moreover have "claimed (am_factory s) c = {n}" using Inr f by (auto simp: claimed_def)
    ultimately show ?thesis
      using assms f Inr names_insert_values [of n "am_names s"]
      by (auto simp: mapper_onRcv_def mapper_ok_def names_find_iff line_name_def image_Un)
  next
    case False
    have "mPgn f \<noteq> ADDRESS_CLAIM_PGN" if "d = Some f" for f
    proof -
      have "class_ok f"
        using getJ1939Frame_class_ok [of "am_factory s"] Inr that assms by (auto simp: mapper_ok_def)
      with False that show ?thesis by (cases "mBody f") (auto simp: class_ok_def reserved_pgns_def)
    qed
    moreover have "claimed (am_factory s) c = {}" using Inr False by (auto simp: claimed_def)
    ultimately show ?thesis using assms Inr by (auto simp: mapper_onRcv_def split: option.split)
  qed
qed

lemma mapper_run_ok:
  "mapper_ok s \<Longrightarrow> case mapper_run fs s of
      Inl q \<Rightarrow> \<exists>e. q = Killed e \<and> (\<exists>(c, i) \<in> set fs. getJ1939Frame (am_factory s) (cf_mId c) (cf_mData c) = Inl e)
    | Inr s' \<Rightarrow> mapper_ok s' \<and> am_factory s' = am_factory s \<and> line_name ` set (am_lines s')
        = line_name ` set (am_lines s) \<union> (\<Union>(c, i) \<in> set fs. ecu_getValue ` claimed (am_factory s) c)"
proof (induction fs arbitrary: s)
  case (Cons p fs)
  obtain c i where p: "p = (c, i)" by fastforce
  show ?case
  proof (cases "mapper_onRcv c i s")
    case (Inl q)
    with mapper_onRcv_ok [OF Cons.prems, of c i] show ?thesis by (auto simp: p)
  next
    case (Inr s1)
    with mapper_onRcv_ok [OF Cons.prems, of c i] have s1: "mapper_ok s1" "am_factory s1 = am_factory s"
      "line_name ` set (am_lines s1) = line_name ` set (am_lines s) \<union> ecu_getValue ` claimed (am_factory s) c"
      by auto
    from Cons.IH [OF s1(1)] show ?thesis
      by (cases "mapper_run fs s1") (auto simp: p Inr s1(2,3))
  qed
qed simp

lemma mapper_request_eval: "mapper_request = Inr (CanFrame_of True 0x00EAFFFE [0x00, 0xEE, 0x00])"
  by code_simp

lemma mapper_send_rings:
  "mapper_send is c easy R = Inr R' \<Longrightarrow> distinct is \<Longrightarrow>
     R' i = (if i \<in> set is then snd (sendFrame c 1000 None (R i)) else R i)"
  by (induction "is" arbitrary: R) (auto split: option.splits)

lemma mapper_start:
  assumes "mapper_main specs ifaces init rs = Inr (s0, rings, rs')"
  shows "mapper_ok s0 \<and> am_lines s0 = []"
proof -
  obtain m where m: "J1939Factory specs = Inr m" "factory_ok m" using factory_start by blast
  with assms show ?thesis
    by (auto simp: mapper_main_def Let_def tool_bind_Inr_iff mapper_ok_def split: if_splits)
qed

section \<open>Properties\<close>

text \<open>C30: The address mapper lists every NAME once, however often and from whichever interfaces it is claimed, and
  no NAME that was not claimed; only a frame that cannot be decoded ends it.\<close>

theorem mapper_lists_each_name_once:
  assumes "mapper_main specs ifaces init rs = Inr (s0, rings, rs')"
  shows "case mapper_run fs s0 of
      Inl q \<Rightarrow> \<exists>e. q = Killed e \<and> (\<exists>(c, i) \<in> set fs. getJ1939Frame (am_factory s0) (cf_mId c) (cf_mData c) = Inl e)
    | Inr s \<Rightarrow> distinct (map line_name (am_lines s)) \<and>
        set (map line_name (am_lines s)) = (\<Union>(c, i) \<in> set fs. ecu_getValue ` claimed (am_factory s0) c)"
proof -
  have s0: "mapper_ok s0" "am_lines s0 = []" using mapper_start [OF assms] by simp_all
  show ?thesis
  proof (cases "mapper_run fs s0")
    case (Inr s)
    with mapper_run_ok [OF s0(1), of fs] s0(2) have s: "mapper_ok s"
      "line_name ` set (am_lines s) = (\<Union>(c, i) \<in> set fs. ecu_getValue ` claimed (am_factory s0) c)"
      by simp_all
    then show ?thesis by (simp only: Inr sum.case mapper_ok_def set_map)
  qed (use mapper_run_ok [OF s0(1), of fs] in simp)
qed

lemma mapper_started:
  "\<exists>s0 rings. mapper_main 0 (\<lambda>b. [to_iface ''can0'']) (\<lambda>b i. True) rs
     = Inr (s0, rings, sniffer_setFilters mapper_filters rs)"
proof -
  obtain m where m: "J1939Factory 0 = Inr m" using factory_start by blast
  let ?easy = "easy_initialize_recv (\<lambda>b. [to_iface ''can0'']) (\<lambda>b i. True)
    \<lparr>ez_mSenders = [], ez_mReceivers = [], ez_mInitializedIfaces = [], ez_mHelpers = []\<rparr>"
  have easy: "ez_mInitializedIfaces ?easy = [to_iface ''can0'']" "getSender (to_iface ''can0'') ?easy \<noteq> None"
    by (simp_all add: easy_initialize_recv_def createCanHelpers_def add_helpers_def easy_add_sender_def getSender_def Let_def)
  then show ?thesis
    by (auto simp: mapper_main_def Let_def m mapper_request_eval)
qed

theorem mapper_lists_each_name_once_witness:
  "\<exists>s0 rings. mapper_main 0 (\<lambda>b. [to_iface ''can0'']) (\<lambda>b i. True) [] = Inr (s0, rings, [])
     \<and> (case mapper_run [(CanFrame_of True 0x18EEFF21 [1, 0, 0, 0, 0, 0, 0, 0], ''can0''),
                        (CanFrame_of True 0x18EEFF22 [1, 0, 0, 0, 0, 0, 0, 0], ''can1'')] s0 of
          Inl q \<Rightarrow> \<exists>e. q = Killed e
        | Inr s \<Rightarrow> distinct (map line_name (am_lines s)))"
proof -
  obtain s0 rings where s0: "mapper_main 0 (\<lambda>b. [to_iface ''can0'']) (\<lambda>b i. True) [] = Inr (s0, rings, [])"
    using mapper_started [of "[]"] by (auto simp: sniffer_setFilters_def)
  from mapper_lists_each_name_once [OF s0, of "[(CanFrame_of True 0x18EEFF21 [1, 0, 0, 0, 0, 0, 0, 0], ''can0''),
      (CanFrame_of True 0x18EEFF22 [1, 0, 0, 0, 0, 0, 0, 0], ''can1'')]"] s0
  show ?thesis by (intro exI [of _ s0] exI [of _ rings]) (auto split: sum.splits simp del: mapper_run.simps)
qed

lemma easy_start_sorted:
  "sorted_wrt (<) (ez_mInitializedIfaces s) \<Longrightarrow> sorted_wrt (<) (ez_mInitializedIfaces
     (fold (\<lambda>e s. easy_add_sender e (s\<lparr>ez_mReceivers := ez_mReceivers s @ [e]\<rparr>)) hs s))"
  by (induction hs arbitrary: s) (simp_all add: easy_add_sender_def set_insert_sorted)

lemma easy_start_distinct:
  "distinct (ez_mInitializedIfaces (easy_initialize_recv ifaces init
     \<lparr>ez_mSenders = [], ez_mReceivers = [], ez_mInitializedIfaces = [], ez_mHelpers = []\<rparr>))"
  using easy_start_sorted [of _ "createCanHelpers ifaces init []"]
  by (simp add: easy_initialize_recv_def Let_def strict_sorted_iff)

text \<open>The address mapper asks everybody for address claims, from every initialized interface once a second,
  with the frame 0x00EAFFFE of the three bytes of the PGN; and it listens to exactly the frames with the
  PDU format of an address claim.\<close>

theorem mapper_asks:
  assumes "mapper_main specs ifaces init rs = Inr (s0, rings, rs')" and "r \<in> set rs'"
  defines "easy \<equiv> easy_initialize_recv ifaces init
    \<lparr>ez_mSenders = [], ez_mReceivers = [], ez_mInitializedIfaces = [], ez_mHelpers = []\<rparr>"
    and "ask \<equiv> CanFrame_of True 0x00EAFFFE [0x00, 0xEE, 0x00]"
  shows "(rc_filter (sr_receiver r) j \<longleftrightarrow> drop_bit 16 j AND 0xFF = 0xEE)
    \<and> (\<forall>i. rings i = (if i \<in> set (ez_mInitializedIfaces easy) then [setFrames [ask] (CanFrameRing 1000 None)] else []))"
proof
  have "rc_mFilters (sr_receiver r) = mapper_filters"
    using assms(1,2)
    by (auto simp: mapper_main_def Let_def tool_bind_Inr_iff sniffer_setFilters_def rc_setFilters_def split: if_splits)
  moreover have "mapper_filters \<noteq> []" by (simp add: mapper_filters_def)
  moreover have "drop_bit 8 ADDRESS_CLAIM_PGN AND 0xFF = (0xEE :: u32)" by simp
  ultimately show "rc_filter (sr_receiver r) j \<longleftrightarrow> drop_bit 16 j AND 0xFF = 0xEE"
    by (simp only: rc_filter_def passes_any_iff mapper_filters_def set_insert.simps list.set bex_simps CanFilter.sel
        format_field if_False simp_thms) auto
  have "mapper_send (ez_mInitializedIfaces easy) ask easy (\<lambda>i. []) = Inr rings"
    using assms(1)
    by (auto simp: mapper_main_def Let_def tool_bind_Inr_iff mapper_request_eval easy_def ask_def split: if_splits)
  from mapper_send_rings [OF this] easy_start_distinct
  show "\<forall>i. rings i = (if i \<in> set (ez_mInitializedIfaces easy) then [setFrames [ask] (CanFrameRing 1000 None)] else [])"
    by (simp add: easy_def sendFrame_def sendFrames_def)
qed

theorem mapper_asks_witness:
  "\<exists>s0 rings rs'. mapper_main 0 (\<lambda>b. [to_iface ''can0'']) (\<lambda>b i. True) [\<lparr>sr_receiver = dm1_receiver, sr_fd = 3\<rparr>]
       = Inr (s0, rings, rs')
     \<and> rings (to_iface ''can0'') = [setFrames [CanFrame_of True 0x00EAFFFE [0x00, 0xEE, 0x00]] (CanFrameRing 1000 None)]"
proof -
  let ?r = "\<lparr>sr_receiver = dm1_receiver, sr_fd = 3\<rparr>"
  obtain s0 rings where s0: "mapper_main 0 (\<lambda>b. [to_iface ''can0'']) (\<lambda>b i. True) [?r]
      = Inr (s0, rings, sniffer_setFilters mapper_filters [?r])"
    using mapper_started by blast
  have "ez_mInitializedIfaces (easy_initialize_recv (\<lambda>b. [to_iface ''can0'']) (\<lambda>b i. True)
      \<lparr>ez_mSenders = [], ez_mReceivers = [], ez_mInitializedIfaces = [], ez_mHelpers = []\<rparr>) = [to_iface ''can0'']"
    by (simp add: easy_initialize_recv_def createCanHelpers_def add_helpers_def easy_add_sender_def Let_def)
  moreover have "hd (sniffer_setFilters mapper_filters [?r]) \<in> set (sniffer_setFilters mapper_filters [?r])"
    by (simp add: sniffer_setFilters_def)
  ultimately show ?thesis using mapper_asks [OF s0, of _ 0] s0 by auto
qed

end
