(* ===== verification/Decoder.thy ===== *)
theory Decoder
  imports ToolBase StdStream Factory Bam
begin

unbundle bit_operations_syntax

text \<open>
  \<open>BinUtils/j1939Decoder\<close>: an identifier and data in hexadecimal become a frame that is printed; the packets of
  a fragmented message are read from the standard input.
\<close>

section \<open>Identifiers and data\<close>

text \<open>A regular expression sees a string up to its first NUL.\<close>

definition c_string :: "string \<Rightarrow> string" where
  "c_string str = takeWhile (\<lambda>c. c \<noteq> CHR 0x00) str"

definition id_format :: "string \<Rightarrow> bool" where
  "id_format str \<longleftrightarrow> length str = 8 \<and> list_all (is_digit 16) str"

text \<open>Pairs of digits, with at most one blank before each.\<close>

fun data_format :: "string \<Rightarrow> bool" where
  "data_format (c # a # b # r) =
     (if is_space c then is_digit 16 a \<and> is_digit 16 b \<and> (r = [] \<or> data_format r)
      else is_digit 16 c \<and> is_digit 16 a \<and> data_format (b # r))"
| "data_format [c, a] = (is_digit 16 c \<and> is_digit 16 a)"
| "data_format _ = False"

definition decodeID :: "string \<Rightarrow> u32 tool" where
  "decodeID str =
     (if \<not> id_format (c_string str) then Inl (Quit 3)
      else tool_bind (tool_std (stoul 16 str)) (\<lambda>n. Inr (ucast n)))"

text \<open>
  The loop over the tokens of at most two characters. Where nothing is left, the token keeps its value. When
  the last two characters are taken, the standard does not set \<open>eofbit\<close>, but a library that looks at the
  next character does: \<open>peeks\<close>.
\<close>

definition token_byte :: "string \<Rightarrow> u8 tool" where
  "token_byte token = tool_bind (tool_std (stoul 16 token)) (\<lambda>n. Inr (ucast n))"

function decode_tokens :: "bool \<Rightarrow> string \<Rightarrow> string \<Rightarrow> bytes tool" where
  "decode_tokens peeks rest token =
     (let r = dropWhile is_space rest
      in if r = [] then tool_bind (token_byte token) (\<lambda>b. Inr [b])
         else
           let token = takeWhile (\<lambda>c. \<not> is_space c) (take 2 r);
               r' = drop (length token) r
           in tool_bind (token_byte token) (\<lambda>b.
                if r' = [] \<and> (length token < 2 \<or> peeks) then Inr [b]
                else tool_bind (decode_tokens peeks r' token) (\<lambda>bs. Inr (b # bs))))"
  by pat_completeness auto

termination
proof (relation "measure (\<lambda>(peeks, rest, token). length rest)")
  fix rest r token r' :: string and peeks and token0 :: string and b :: u8
  assume r: "r = dropWhile is_space rest" "r \<noteq> []" and t: "token = takeWhile (\<lambda>c. \<not> is_space c) (take 2 r)"
    and r': "r' = drop (length token) r"
  from r obtain c r0 where c: "r = c # r0" "\<not> is_space c" by (metis hd_dropWhile list.collapse)
  then have "0 < length token" by (simp add: t)
  moreover have "length r \<le> length rest" by (simp add: r(1) length_dropWhile_le)
  moreover have "0 < length r" using r(2) by simp
  ultimately have "length r - length token < length rest" by (intro less_le_trans [OF diff_less])
  then have "length r' < length rest" by (simp add: r')
  then show "((peeks, r', token), peeks, rest, token0) \<in> measure (\<lambda>(peeks, rest, token). length rest)" by simp
qed simp

declare decode_tokens.simps [simp del]

definition decodeData :: "bool \<Rightarrow> string \<Rightarrow> bytes tool" where
  "decodeData peeks str =
     (if \<not> data_format (c_string str) then Inl (Quit 3) else decode_tokens peeks str [])"

section \<open>Fragmented messages\<close>

text \<open>\<open>std::getline\<close>: the string keeps its value when the stream is at its end already.\<close>

definition stream_getline :: "string \<Rightarrow> istream \<Rightarrow> string \<times> istream" where
  "stream_getline str s =
     (if \<not> st_good s then (str, s\<lparr>st_fail := True\<rparr>)
      else let line = takeWhile (\<lambda>c. c \<noteq> CHR 0x0A) (st_rest s)
           in case dropWhile (\<lambda>c. c \<noteq> CHR 0x0A) (st_rest s) of
                [] \<Rightarrow> (line, (st_to [] s)\<lparr>st_eof := True, st_fail := (line = [])\<rparr>)
              | c # r \<Rightarrow> (line, st_to r s))"

text \<open>\<open>None\<close> is a loop that never ends. A decoding error ends it with a code.\<close>

partial_function (option) bam_loop ::
  "bool \<Rightarrow> factory \<Rightarrow> (nat \<Rightarrow> u8) \<Rightarrow> string \<Rightarrow> string \<Rightarrow> istream \<Rightarrow> reassembler
   \<Rightarrow> (int \<times> istream \<times> reassembler) tool option" where
  "bam_loop peeks m junk ident data s r =
     (if reassembledFramesPending r then Some (Inr (0, s, r))
      else
        let (ident, s) = stream_getline ident s
        in case decodeID ident of
             Inl q \<Rightarrow> Some (Inl q)
           | Inr formattedId \<Rightarrow>
               let (data, s) = stream_getline data s
               in case decodeData peeks data of
                    Inl q \<Rightarrow> Some (Inl q)
                  | Inr formattedData \<Rightarrow>
                      (case getJ1939Frame m formattedId formattedData of
                         Inl (J1939DecodeException msg) \<Rightarrow> Some (Inr (- EINVAL, s, r))
                       | Inl e \<Rightarrow> Some (Inl (Killed e))
                       | Inr None \<Rightarrow> Some (Inr (- EINVAL, s, r))
                       | Inr (Some frame) \<Rightarrow>
                           (case handleFrame (getJ1939Frame m) junk frame r of
                              Inl (J1939DecodeException msg, r') \<Rightarrow> Some (Inr (- EINVAL, s, r'))
                            | Inl (e, r') \<Rightarrow> Some (Inl (Killed e))
                            | Inr (n, r') \<Rightarrow> bam_loop peeks m junk ident data s r')))"

definition processBAM ::
  "bool \<Rightarrow> factory \<Rightarrow> (nat \<Rightarrow> u8) \<Rightarrow> istream \<Rightarrow> reassembler \<Rightarrow> (int \<times> istream \<times> reassembler) tool option" where
  "processBAM peeks m junk s r =
     (case bam_loop peeks m junk [] [] s r of
        Some (Inr (code, s', r')) \<Rightarrow>
          if code \<noteq> 0 then Some (Inr (code, s', r'))
          else (case dequeueReassembledFrame r' of
                  Inl (e, r'') \<Rightarrow> Some (Inl (Killed e))
                | Inr (frame, r'') \<Rightarrow> Some (Inr (0, s', r'')))
      | x \<Rightarrow> x)"

section \<open>The program\<close>

record decoder =
  de_factory :: factory
  de_cin :: istream
  de_printed :: "jframe list"

text \<open>\<open>database\<close> are the frames of the database file; every call registers them again.\<close>

definition process ::
  "bool \<Rightarrow> generic frame list option \<Rightarrow> (nat \<Rightarrow> u8) \<Rightarrow> string \<Rightarrow> string \<Rightarrow> decoder \<Rightarrow> (int \<times> decoder) tool option" where
  "process peeks database junk ident data d =
     (if ident = [] \<or> data = [] then Some (Inr (- EINVAL, d))
      else
        let (ret, m) = registerDatabaseFrames database (de_factory d); d = d\<lparr>de_factory := m\<rparr>
        in if \<not> ret then Some (Inr (- EIO, d))
           else
             case decodeID ident of
               Inl q \<Rightarrow> Some (Inl q)
             | Inr formattedId \<Rightarrow>
                 (case decodeData peeks data of
                    Inl q \<Rightarrow> Some (Inl q)
                  | Inr formattedData \<Rightarrow>
                      (case getJ1939Frame m formattedId formattedData of
                         Inl (J1939DecodeException msg) \<Rightarrow> Some (Inr (- EIO, d))
                       | Inl e \<Rightarrow> Some (Inl (Killed e))
                       | Inr None \<Rightarrow> Some (Inr (- EINVAL, d))
                       | Inr (Some frame) \<Rightarrow>
                           (case toBeHandled frame of
                              Inl e \<Rightarrow> Some (Inl (Killed e))
                            | Inr False \<Rightarrow> Some (Inr (0, d\<lparr>de_printed := de_printed d @ [frame]\<rparr>))
                            | Inr True \<Rightarrow>
                                (case handleFrame (getJ1939Frame m) junk frame BamReassembler of
                                   Inl (e, r) \<Rightarrow> Some (Inl (Killed e))
                                 | Inr (n, r) \<Rightarrow>
                                     (case processBAM peeks m junk (de_cin d) r of
                                        None \<Rightarrow> None
                                      | Some (Inl q) \<Rightarrow> Some (Inl q)
                                      | Some (Inr (code, s, r')) \<Rightarrow>
                                          Some (Inr (0, d\<lparr>de_cin := s, de_printed := de_printed d @ [frame]\<rparr>))))))))"

text \<open>A line of a log: interface, identifier, length and data bytes.\<close>

definition decoder_parseLine ::
  "bool \<Rightarrow> generic frame list option \<Rightarrow> (nat \<Rightarrow> u8) \<Rightarrow> string \<Rightarrow> decoder \<Rightarrow> (int \<times> decoder) tool option" where
  "decoder_parseLine peeks database junk line d =
     (if line = [] then Some (Inr (0, d))
      else let tokens = split_spaces line
           in if length tokens < 4 then Some (Inr (- EINVAL, d))
              else process peeks database junk (tokens ! 1) (concat (drop 3 tokens)) d)"

text \<open>The lines come from a file, or from the standard input that the packets are read from as well.\<close>

partial_function (option) decode_file ::
  "bool \<Rightarrow> generic frame list option \<Rightarrow> (nat \<Rightarrow> u8) \<Rightarrow> string \<Rightarrow> istream \<Rightarrow> decoder \<Rightarrow> decoder tool option" where
  "decode_file peeks database junk line s d =
     (let (line, s) = stream_getline line s
      in if st_fail s then Some (Inr d)
         else case decoder_parseLine peeks database junk line d of
                None \<Rightarrow> None
              | Some (Inl q) \<Rightarrow> Some (Inl q)
              | Some (Inr (ret, d)) \<Rightarrow> decode_file peeks database junk line s d)"

partial_function (option) decode_cin ::
  "bool \<Rightarrow> generic frame list option \<Rightarrow> (nat \<Rightarrow> u8) \<Rightarrow> string \<Rightarrow> decoder \<Rightarrow> decoder tool option" where
  "decode_cin peeks database junk line d =
     (let (line, s) = stream_getline line (de_cin d); d = d\<lparr>de_cin := s\<rparr>
      in if st_fail s then Some (Inr d)
         else case decoder_parseLine peeks database junk line d of
                None \<Rightarrow> None
              | Some (Inl q) \<Rightarrow> Some (Inl q)
              | Some (Inr (ret, d)) \<Rightarrow> decode_cin peeks database junk line d)"

text \<open>
  What the arguments say: identifier and data, or the name of a file (empty for the standard input) with its
  content, if it can be opened.
\<close>

datatype decoder_mode = OneFrame string string | FileMode string "string option"

definition decoder_main ::
  "bool \<Rightarrow> generic frame list option \<Rightarrow> (nat \<Rightarrow> u8) \<Rightarrow> decoder_mode \<Rightarrow> decoder \<Rightarrow> decoder tool option" where
  "decoder_main peeks database junk mode d =
     (case mode of
        OneFrame ident data \<Rightarrow> map_option (map_sum id snd) (process peeks database junk ident data d)
      | FileMode path content \<Rightarrow>
          if path = [] then decode_cin peeks database junk [] d
          else (case content of
                  None \<Rightarrow> Some (Inl (Quit (- EIO)))
                | Some text \<Rightarrow> decode_file peeks database junk [] (stream_open text) d))"

end
