(* ===== verification/DecoderProps.thy ===== *)
theory DecoderProps
  imports Decoder Can
begin

text \<open>
  What the decoder makes of hexadecimal text, what it prints of a fragmented message, and when it never ends.
\<close>

section \<open>Hexadecimal text\<close>

definition hex_pair :: "u8 \<Rightarrow> string" where
  "hex_pair b = [digit_char (unat b div 16), digit_char (unat b mod 16)]"

lemma unat_byte: "unat (b :: u8) < 256" "unat (b :: u8) div 16 < 16"
proof -
  show "unat b < 256" using unsigned_less [of b] by simp
  then show "unat b div 16 < 16" by simp
qed

lemma hex_digit_ok:
  "d < 16 \<Longrightarrow> is_digit 16 (digit_char d) \<and> \<not> is_space (digit_char d) \<and> digit_char d \<noteq> CHR 0x00"
  using is_digit_char [of d 16] digit_not_space [of 16 "digit_char d"]
  by (auto simp: is_digit_def digit_value_def Let_def)

lemma digit_less: "is_digit base c \<Longrightarrow> \<exists>v<base. digit_value c = Some v"
  by (auto simp: is_digit_def split: option.splits)

lemma scan_two_digits:
  assumes "is_digit 16 a" and "is_digit 16 b"
  shows "scan_integer 16 [a, b] = Some (False, digits_value 16 [a, b])"
proof -
  have "\<not> is_space a \<and> a \<noteq> CHR ''-'' \<and> a \<noteq> CHR ''+''" using digit_not_space [OF assms(1)] by simp
  then have s: "scan_sign [a, b] = (False, [a, b])" by (simp add: scan_sign_def)
  have b: "scan_base 16 [a, b] = (16, [a, b])" by (simp add: scan_base_def)
  have t: "takeWhile (is_digit 16) [a, b] = [a, b]" using assms by simp
  show ?thesis unfolding scan_integer_def Let_def s b prod.case t by simp
qed

lemma stoul_two_digits:
  assumes "is_digit 16 a" and "is_digit 16 b"
  shows "stoul 16 [a, b] = Inr (word_of_int (digits_value 16 [a, b]))"
proof -
  obtain v w where v: "v < 16" "digit_value a = Some v" "w < 16" "digit_value b = Some w"
    using assms digit_less by blast
  then have "digits_value 16 [a, b] = int v * 16 + int w" by (simp add: digits_value_def)
  with v have "\<not> digits_value 16 [a, b] > 0xFFFFFFFFFFFFFFFF" by linarith
  then show ?thesis by (simp add: stoul_def scan_two_digits [OF assms])
qed

lemma hex_pair_byte: "token_byte (hex_pair b) = Inr b"
proof -
  have d: "unat b div 16 < 16" "unat b mod 16 < 16" using unat_byte(2) [of b] by simp_all
  have "digits_value 16 (hex_pair b) = int (unat b div 16) * 16 + int (unat b mod 16)"
    using d by (simp add: hex_pair_def digits_value_def digit_value_char)
  also have "\<dots> = int (unat b)" by (metis div_mult_mod_eq of_nat_add of_nat_mult of_nat_numeral)
  finally have v: "digits_value 16 (hex_pair b) = uint b" by simp
  have "stoul 16 (hex_pair b) = Inr (word_of_int (digits_value 16 (hex_pair b)))"
    unfolding hex_pair_def using d hex_digit_ok by (intro stoul_two_digits) blast+
  then have "stoul 16 (hex_pair b) = Inr (ucast b)" by (simp only: v ucast_eq)
  moreover have "(ucast (ucast b :: u64) :: u8) = b"
    by (rule ucast_up_ucast_id) (simp add: is_up_def source_size_def target_size_def word_size)
  ultimately show ?thesis by (simp add: token_byte_def)
qed

lemma tokens_pair:
  "decode_tokens peeks (hex_pair b @ rest) token =
     (if rest = [] \<and> peeks then Inr [b]
      else tool_bind (decode_tokens peeks rest (hex_pair b)) (\<lambda>bs. Inr (b # bs)))"
  using hex_digit_ok [of "unat b div 16"] hex_digit_ok [of "unat b mod 16"] unat_byte(2) [of b] hex_pair_byte [of b]
  by (subst decode_tokens.simps) (simp add: hex_pair_def Let_def)

lemma tokens_end: "decode_tokens peeks [] (hex_pair b) = Inr [b]"
  by (subst decode_tokens.simps) (simp add: hex_pair_byte)

lemma tokens_pairs:
  "bs \<noteq> [] \<Longrightarrow> decode_tokens peeks (concat (map hex_pair bs)) token = Inr (if peeks then bs else bs @ [last bs])"
proof (induction bs arbitrary: token)
  case (Cons b bs)
  show ?case
  proof (cases bs)
    case Nil
    then show ?thesis using tokens_pair [of peeks b "[]" token] by (simp add: tokens_end)
  next
    case (Cons c cs)
    then have "concat (map hex_pair bs) \<noteq> []" by (simp add: hex_pair_def)
    with Cons.IH [of "hex_pair b"] Cons tokens_pair [of peeks b "concat (map hex_pair bs)" token] show ?thesis by simp
  qed
qed simp

lemma pairs_format: "bs \<noteq> [] \<Longrightarrow> data_format (concat (map hex_pair bs))"
proof (induction bs)
  case (Cons b bs)
  note d = hex_digit_ok [of "unat b div 16"] hex_digit_ok [of "unat b mod 16"] unat_byte(2) [of b]
  show ?case
  proof (cases bs)
    case Nil
    with d show ?thesis by (simp add: hex_pair_def)
  next
    case (Cons c cs)
    with d Cons.IH show ?thesis by (simp add: hex_pair_def)
  qed
qed simp

lemma pairs_c_string: "c_string (concat (map hex_pair bs)) = concat (map hex_pair bs)"
proof -
  have "CHR 0x00 \<notin> set (hex_pair b)" for b
    using hex_digit_ok [of "unat b div 16"] hex_digit_ok [of "unat b mod 16"] unat_byte(2) [of b]
    by (auto simp: hex_pair_def)
  then show ?thesis by (auto simp: c_string_def takeWhile_eq_all_conv)
qed

section \<open>The loop over the packets\<close>

lemma getline_at_end: "\<not> st_good s \<Longrightarrow> stream_getline str s = (str, s\<lparr>st_fail := True\<rparr>)"
  by (simp add: stream_getline_def)

lemma not_good_fail: "\<not> st_good (s\<lparr>st_fail := True\<rparr>)"
  by (simp add: st_good_def)

text \<open>A packet that was taken already changes nothing but the last error.\<close>

definition packet_taken :: "jframe \<Rightarrow> reassembler \<Rightarrow> bool" where
  "packet_taken f r \<longleftrightarrow> mDstAddr f = BROADCAST \<and> mPgn f = TP_DT_PGN
     \<and> (\<exists>d fr. cast_tpdt f = Some d \<and> smap_find (mFragments r) (mSrcAddr f) = Some fr
          \<and> getLastSQ fr = mSQ (mBody d))"

lemma cast_tpdt_src: "cast_tpdt f = Some d \<Longrightarrow> mSrcAddr d = mSrcAddr f"
  by (auto simp: cast_tpdt.simps split: payload.splits)

lemma packet_again:
  assumes "packet_taken f r"
  shows "\<exists>n. handleFrame get junk f r = Inr (n, setError BAM_ERROR_UNEXPECTED_FRAME r)"
proof -
  obtain d fr where d: "mDstAddr f = BROADCAST" "mPgn f = TP_DT_PGN" "cast_tpdt f = Some d"
    "smap_find (mFragments r) (mSrcAddr f) = Some fr" "getLastSQ fr = mSQ (mBody d)"
    using assms by (auto simp: packet_taken_def)
  have "mSrcAddr d = mSrcAddr f" using d(3) by (rule cast_tpdt_src)
  then show ?thesis using d by (simp add: handleFrame_def handle_dt_def Let_def)
qed

lemma packet_setError: "packet_taken f (setError e r) = packet_taken f r" "reassembledFramesPending (setError e r) = reassembledFramesPending r"
  by (simp_all add: packet_taken_def setError_def reassembledFramesPending_def)

lemma bam_loop_stalls:
  assumes "decodeID ident = Inr i" and "decodeData peeks data = Inr bytes" and "getJ1939Frame m i bytes = Inr (Some f)"
  shows "bam_loop p n j ident' data' s r = Some y \<Longrightarrow>
    p = peeks \<Longrightarrow> n = m \<Longrightarrow> ident' = ident \<Longrightarrow> data' = data \<Longrightarrow> \<not> st_good s \<Longrightarrow> packet_taken f r
    \<Longrightarrow> \<not> reassembledFramesPending r \<Longrightarrow> False"
proof (induction p n j ident' data' s r y rule: bam_loop.raw_induct [rotated, consumes 1, case_names step])
  case (step rec p n j ident' data' s r y)
  obtain k where h: "handleFrame (getJ1939Frame m) j f r = Inr (k, setError BAM_ERROR_UNEXPECTED_FRAME r)"
    using packet_again [OF step(8)] by blast
  from step(2) have "rec peeks m j ident data (s\<lparr>st_fail := True, st_fail := True\<rparr>)
      (setError BAM_ERROR_UNEXPECTED_FRAME r) = Some y"
    using step(3-9) assms h by (simp add: getline_at_end not_good_fail)
  then show False
    by (rule step(1)) (use step(3-9) in \<open>simp_all add: packet_setError st_good_def\<close>)
qed

text \<open>A transfer of which one packet has come: the packet once more, as text, as a frame, and the state.\<close>

definition dt_factory :: factory where
  "dt_factory = [(TP_DT_PGN, as_frame TPDT TPDTFrame)]"

lemma packet_ident: "decodeID ''1CEBFF25'' = Inr 0x1CEBFF25" by code_simp
lemma packet_data: "decodeData True ''0101020304050607'' = Inr [1, 1, 2, 3, 4, 5, 6, 7]" by code_simp

definition dt_received :: jframe where
  "dt_received = (as_frame TPDT TPDTFrame)\<lparr>mPriority := 7, mSrcAddr := 0x25, mDstAddr := 0xFF,
     mBody := TPDT \<lparr>mSQ = 1, mData = [1,2,3,4,5,6,7]\<rparr>\<rparr>"

lemma packet_frame: "getJ1939Frame dt_factory 0x1CEBFF25 [1, 1, 2, 3, 4, 5, 6, 7] = Inr (Some dt_received)"
  by code_simp

definition one_packet :: reassembler where
  "one_packet = BamReassembler\<lparr>mFragments := [(0x25, \<lparr>fr_mCMFrame = TPCMFrame,
     fr_mDTFrames = [TPDTFrame\<lparr>mBody := \<lparr>mSQ = 1, mData = [1, 2, 3, 4, 5, 6, 7]\<rparr>\<rparr>]\<rparr>)]\<rparr>"

section \<open>Properties\<close>

text \<open>Data written as pairs of hexadecimal digits are read back, if the library sets \<open>eofbit\<close> as soon as the
  last character is taken; by the standard it does not, and the last byte is read twice.\<close>

theorem hexadecimal_data_read:
  assumes "bs \<noteq> []"
  shows "decodeData peeks (concat (map hex_pair bs)) = Inr (if peeks then bs else bs @ [last bs])"
  using assms by (simp add: decodeData_def pairs_c_string pairs_format tokens_pairs)

theorem hexadecimal_data_read_witness:
  "decodeData True (concat (map hex_pair [0xDE, 0xAD])) = Inr [0xDE, 0xAD]
   \<and> decodeData False (concat (map hex_pair [0xDE, 0xAD])) = Inr [0xDE, 0xAD, 0xAD]"
  using hexadecimal_data_read [of "[0xDE, 0xAD]"] by simp

text \<open>C31: When the standard input ends inside a fragmented message, the packet read last, taken already, is
  read again and again: the loop never ends.\<close>

theorem decoder_waits_forever:
  assumes "\<not> st_good s" and "decodeID ident = Inr i" and "decodeData peeks data = Inr bytes"
    and "getJ1939Frame m i bytes = Inr (Some f)" and "packet_taken f r" and "\<not> reassembledFramesPending r"
  shows "bam_loop peeks m junk ident data s r = None"
proof (cases "bam_loop peeks m junk ident data s r")
  case (Some y)
  from bam_loop_stalls [OF assms(2-4) this refl refl refl refl assms(1,5,6)] show ?thesis ..
qed

theorem decoder_waits_forever_witness:
  "bam_loop True dt_factory (\<lambda>i. 0)
     ''1CEBFF25'' ''0101020304050607'' ((stream_open [])\<lparr>st_eof := True\<rparr>) one_packet = None"
proof (rule decoder_waits_forever [OF _ packet_ident packet_data packet_frame])
  show "\<not> st_good ((stream_open [])\<lparr>st_eof := True\<rparr>)" by (simp add: st_good_def)
  show "\<not> reassembledFramesPending one_packet" by (simp add: one_packet_def BamReassembler_def reassembledFramesPending_def)
  show "packet_taken dt_received one_packet"
    by (simp add: packet_taken_def dt_received_def one_packet_def as_frame_def TPDTFrame_def cast_tpdt.simps getLastSQ_def)
qed

end
