(* ===== verification/Playback.thy ===== *)
theory Playback
  imports ToolBase TraceRoundtrip SenderShell
begin

text \<open>
  Two programs that go through a trace file with the same loop as the converter: \<open>BinUtils/TRCPlayer\<close> sends its
  frames again, each at its time, and \<open>BinTest/FrameInject\<close> writes them to another file with a frame of the engine
  every 100 ms. The reading of the clock and the key pressed are a sequence of turns; what is painted on the
  terminal is not modelled, the list it is painted from is.
\<close>

section \<open>The frames of a trace\<close>

text \<open>What the common loop sees: at least one frame, and then one for each turn before the last frame.\<close>

inductive trace_frames :: "trc_reader \<Rightarrow> (u64 \<times> CanFrame) list \<Rightarrow> bool" where
  last_frame: "readNextCanFrame r = Inr r' \<Longrightarrow> \<not> tr_mCurrentPos r' < tr_mTotalFrames r' - 1
    \<Longrightarrow> trace_frames r [tr_mLast r']"
| next_frame: "readNextCanFrame r = Inr r' \<Longrightarrow> tr_mCurrentPos r' < tr_mTotalFrames r' - 1 \<Longrightarrow> trace_frames r' fs
    \<Longrightarrow> trace_frames r (tr_mLast r' # fs)"

section \<open>The player\<close>

datatype key = KEY_UP | KEY_DOWN | KEY_ENTER | KEY_NONE

text \<open>\<open>pl_sent\<close> is what was sent, with the reading of the clock before.\<close>

record player =
  pl_factory :: factory
  pl_reassembler :: reassembler
  pl_vectorFrames :: "(bool \<times> jframe) list"
  pl_mapFrames :: "u32 \<Rightarrow> nat option"
  pl_currentSel :: nat
  pl_progress :: u32
  pl_sent :: "(TimeStamp \<times> CanFrame) list"

type_synonym player_end = "(exc \<times> player) + player"

definition player_key :: "key \<Rightarrow> player \<Rightarrow> player" where
  "player_key k p =
     (case k of
        KEY_UP \<Rightarrow> if pl_currentSel p > 0 then p\<lparr>pl_currentSel := pl_currentSel p - 1\<rparr> else p
      | KEY_DOWN \<Rightarrow>
          if pl_currentSel p + 1 < length (pl_vectorFrames p) then p\<lparr>pl_currentSel := pl_currentSel p + 1\<rparr> else p
      | KEY_ENTER \<Rightarrow>
          if pl_vectorFrames p = [] then p
          else let i = pl_currentSel p; e = pl_vectorFrames p ! i
               in p\<lparr>pl_vectorFrames := (pl_vectorFrames p)[i := (\<not> fst e, snd e)]\<rparr>
      | KEY_NONE \<Rightarrow> p)"

text \<open>The keys are read until the clock is not before \<open>lastTs\<close>; the number of the next turn comes back.\<close>

partial_function (option) player_wait ::
  "(nat \<Rightarrow> TimeStamp \<times> key) \<Rightarrow> TimeStamp \<Rightarrow> nat \<Rightarrow> player \<Rightarrow> (nat \<times> player) option" where
  "player_wait turns lastTs n p =
     (if ts_lt (fst (turns n)) lastTs then player_wait turns lastTs (n + 1) (player_key (snd (turns n)) p)
      else Some (n, p))"

definition player_catch :: "exc \<Rightarrow> player \<Rightarrow> player_end" where
  "player_catch e p = (case e of J1939DecodeException msg \<Rightarrow> Inr p | _ \<Rightarrow> Inl (e, p))"

definition player_update :: "jframe \<Rightarrow> player \<Rightarrow> player_end" where
  "player_update f p =
     (case pl_mapFrames p (getIdentifier f) of
        Some i \<Rightarrow>
          let e = pl_vectorFrames p ! i
          in (case jframe_copy (snd e) f of
                Inl (x, g) \<Rightarrow> player_catch x (p\<lparr>pl_vectorFrames := (pl_vectorFrames p)[i := (fst e, g)]\<rparr>)
              | Inr g \<Rightarrow> Inr (p\<lparr>pl_vectorFrames := (pl_vectorFrames p)[i := (fst e, g)]\<rparr>))
      | None \<Rightarrow>
          Inr (p\<lparr>pl_mapFrames := (pl_mapFrames p)(getIdentifier f \<mapsto> length (pl_vectorFrames p)),
                 pl_vectorFrames := pl_vectorFrames p @ [(False, f)]\<rparr>))"

definition player_show :: "(nat \<Rightarrow> u8) \<Rightarrow> CanFrame \<Rightarrow> player \<Rightarrow> player_end" where
  "player_show junk frame p =
     (case getJ1939Frame (pl_factory p) (cf_mId frame) (cf_mData frame) of
        Inl e \<Rightarrow> player_catch e p
      | Inr None \<Rightarrow> Inr p
      | Inr (Some f) \<Rightarrow>
          (case toBeHandled f of
             Inl e \<Rightarrow> player_catch e p
           | Inr False \<Rightarrow> player_update f p
           | Inr True \<Rightarrow>
               (case handleFrame (getJ1939Frame (pl_factory p)) junk f (pl_reassembler p) of
                  Inl (e, r) \<Rightarrow> player_catch e (p\<lparr>pl_reassembler := r\<rparr>)
                | Inr (n, r) \<Rightarrow>
                    if \<not> reassembledFramesPending r then Inr (p\<lparr>pl_reassembler := r\<rparr>)
                    else (case dequeueReassembledFrame r of
                            Inl (e, r') \<Rightarrow> player_catch e (p\<lparr>pl_reassembler := r'\<rparr>)
                          | Inr (f', r') \<Rightarrow> player_update f' (p\<lparr>pl_reassembler := r'\<rparr>)))))"

text \<open>When the frame with this time is due, at 32 bits.\<close>

definition player_due :: "TimeStamp \<Rightarrow> u64 \<Rightarrow> TimeStamp" where
  "player_due start t = ts_plus start (TimeStamp (ucast (t div 1000000)) (ucast (t mod 1000000)))"

definition player_send ::
  "(nat \<Rightarrow> u8) \<Rightarrow> nat \<Rightarrow> trc_reader \<Rightarrow> TimeStamp \<Rightarrow> player \<Rightarrow> player_end" where
  "player_send junk width r now p =
     player_show junk (snd (tr_mLast r))
       (p\<lparr>pl_sent := pl_sent p @ [(now, snd (tr_mLast r))],
          pl_progress := of_nat (width * tr_mCurrentPos r div tr_mTotalFrames r)\<rparr>)"

partial_function (option) player_loop ::
  "(nat \<Rightarrow> u8) \<Rightarrow> nat \<Rightarrow> TimeStamp \<Rightarrow> (nat \<Rightarrow> TimeStamp \<times> key) \<Rightarrow> nat \<Rightarrow> trc_reader \<Rightarrow> player
   \<Rightarrow> player_end option" where
  "player_loop junk width start turns n r p =
     (case readNextCanFrame r of
        Inl e \<Rightarrow> Some (Inl (e, p))
      | Inr r' \<Rightarrow>
          (case player_wait turns (player_due start (fst (tr_mLast r'))) n p of
             None \<Rightarrow> None
           | Some (n', p') \<Rightarrow>
               (case player_send junk width r' (fst (turns n')) p' of
                  Inl e \<Rightarrow> Some (Inl e)
                | Inr p'' \<Rightarrow>
                    if tr_mCurrentPos r' < tr_mTotalFrames r' - 1
                    then player_loop junk width start turns (n' + 1) r' p''
                    else Some (Inr p''))))"

text \<open>\<open>sender\<close> is whether the interface has one, \<open>ext\<close> the flag that the frame of a new reader leaves uninitialised; the
  first turn gives the start.\<close>

definition player_main ::
  "bool \<Rightarrow> bool \<Rightarrow> string \<Rightarrow> string option \<Rightarrow> nat \<Rightarrow> generic frame list option \<Rightarrow> (nat \<Rightarrow> u8) \<Rightarrow> nat
   \<Rightarrow> (nat \<Rightarrow> TimeStamp \<times> key) \<Rightarrow> player_end tool option" where
  "player_main ext sender path content specs database junk width turns =
     (if \<not> sender then Some (Inl (quit.Quit 1))
      else case trc_loadFile path content (TRCReader_new ext) of
             None \<Rightarrow> None
           | Some (Inl e) \<Rightarrow> Some (Inl (Killed e))
           | Some (Inr (ok, r)) \<Rightarrow>
               if \<not> ok then Some (Inl (quit.Quit 2))
               else if tr_mTotalFrames r = 0 then Some (Inl (quit.Quit 3))
               else case J1939Factory specs of
                      Inl e \<Rightarrow> Some (Inl (Killed e))
                    | Inr m \<Rightarrow>
                        let (ret, m) = registerDatabaseFrames database m
                        in if \<not> ret then Some (Inl (quit.Quit 4))
                           else map_option Inr (player_loop junk width (fst (turns 0)) turns 1 r
                             \<lparr>pl_factory = m, pl_reassembler = BamReassembler, pl_vectorFrames = [],
                              pl_mapFrames = (\<lambda>i. None), pl_currentSel = 0, pl_progress = 0, pl_sent = []\<rparr>))"

section \<open>Injecting a frame\<close>

datatype inject_end = Stopped quit | WriteFailed

text \<open>The frame of the engine: source 0x15, priority 4 and 310 revolutions per minute. Nothing is checked.\<close>

definition inject_eec1 :: "factory \<Rightarrow> jframe res" where
  "inject_eec1 m =
     (case getJ1939Frame_name m ''EEC1'' of
        None \<Rightarrow> Inl UndefinedBehaviour
      | Some f \<Rightarrow>
          let f = snd (setPriority 4 (setSrcAddr 0x15 f))
          in (case mBody f of
                Generic g \<Rightarrow>
                  (case getSPN g 190 of
                     None \<Rightarrow> Inl UndefinedBehaviour
                   | Some rpm \<Rightarrow>
                       (case mSpnData rpm of
                          SpnNumeric spec v \<Rightarrow>
                            Inr (f\<lparr>mBody := Generic (put_spn_data 190 rpm
                              (SpnNumeric spec (snd (setFormattedValue spec v (d_of_nat 310)))) g)\<rparr>)
                        | _ \<Rightarrow> Inl UndefinedBehaviour))
              | _ \<Rightarrow> Inl UndefinedBehaviour))"

definition inject_time :: "u64 \<Rightarrow> TimeStamp" where
  "inject_time t = TimeStamp (ucast (t div 1000000)) (ucast (t mod 1000000))"

text \<open>At most one frame is injected for every frame read.\<close>

definition inject_before ::
  "jframe \<Rightarrow> u64 \<Rightarrow> u64 \<times> trc_writer \<Rightarrow> inject_end + u64 \<times> trc_writer" where
  "inject_before eec1 timeStamp s =
     (case s of (eec1TimeStamp, w) \<Rightarrow>
        if eec1TimeStamp < timeStamp
        then (case jframe_encode eec1 (jframe_getDataLength eec1) of
                Inl e \<Rightarrow> Inl (Stopped (Killed e))
              | Inr (ident, buff, len) \<Rightarrow>
                  (case trc_write (CanFrame_of True ident (take len buff)) (inject_time eec1TimeStamp) w of
                     Inl e \<Rightarrow> Inl WriteFailed
                   | Inr w' \<Rightarrow> Inr (eec1TimeStamp + 100000, w')))
        else Inr (eec1TimeStamp, w))"

definition inject_step ::
  "jframe \<Rightarrow> u64 \<times> CanFrame \<Rightarrow> u64 \<times> trc_writer \<Rightarrow> inject_end + u64 \<times> trc_writer" where
  "inject_step eec1 p s =
     (case inject_before eec1 (fst p) s of
        Inl e \<Rightarrow> Inl e
      | Inr (eec1TimeStamp, w) \<Rightarrow>
          (case trc_write (snd p) (inject_time (fst p)) w of
             Inl e \<Rightarrow> Inl WriteFailed | Inr w' \<Rightarrow> Inr (eec1TimeStamp, w')))"

partial_function (option) inject_loop ::
  "jframe \<Rightarrow> trc_reader \<Rightarrow> u64 \<times> trc_writer \<Rightarrow> (inject_end + u64 \<times> trc_writer) option" where
  "inject_loop eec1 r s =
     (case readNextCanFrame r of
        Inl e \<Rightarrow> Some (Inl (Stopped (Killed e)))
      | Inr r' \<Rightarrow>
          (case inject_step eec1 (tr_mLast r') s of
             Inl e \<Rightarrow> Some (Inl e)
           | Inr s' \<Rightarrow>
               if tr_mCurrentPos r' < tr_mTotalFrames r' - 1 then inject_loop eec1 r' s' else Some (Inr s')))"

text \<open>The text of the file written. \<open>opens\<close> is whether it can be created.\<close>

definition inject_main ::
  "bool \<Rightarrow> nat \<Rightarrow> generic frame list option \<Rightarrow> string option \<Rightarrow> bool \<Rightarrow> (inject_end + string option) option" where
  "inject_main ext specs database content opens =
     (case J1939Factory specs of
        Inl e \<Rightarrow> Some (Inl (Stopped (Killed e)))
      | Inr m \<Rightarrow>
          let (ret, m) = registerDatabaseFrames database m
          in if \<not> ret then Some (Inl (Stopped (quit.Quit (- 2))))
             else case trc_loadFile ''input.trc'' content (TRCReader_new ext) of
                    None \<Rightarrow> None
                  | Some (Inl e) \<Rightarrow> Some (Inl (Stopped (Killed e)))
                  | Some (Inr (ok, r)) \<Rightarrow>
                      if \<not> ok then Some (Inl (Stopped (quit.Quit (- 2))))
                      else if tr_mTotalFrames r = 0 then Some (Inl (Stopped (quit.Quit (- 3))))
                      else let (opened, w) = trc_open opens TRCWriter_new
                           in if \<not> opened then Some (Inl (Stopped (quit.Quit 2)))
                              else case inject_eec1 m of
                                     Inl e \<Rightarrow> Some (Inl (Stopped (Killed e)))
                                   | Inr eec1 \<Rightarrow>
                                       (case inject_loop eec1 r (0, w) of
                                          None \<Rightarrow> None
                                        | Some (Inl e) \<Rightarrow> Some (Inl e)
                                        | Some (Inr (t, w')) \<Rightarrow> Some (Inr (tw_mFileStream w'))))"

end
