(* ===== verification/PlaybackProps.thy ===== *)
theory PlaybackProps
  imports Playback
begin

text \<open>What the programs that go through a trace file make of a recording.\<close>

section \<open>The common loop\<close>

lemma trace_frames_nonempty: "trace_frames r fs \<Longrightarrow> fs \<noteq> []"
  by (erule trace_frames.cases) auto

lemma trace_frames_written:
  assumes "tr_mFileStream q = stream_at pre (trc_lines c fs)" and "list_all trc_sized fs" and "fs \<noteq> []"
    and "tr_mTotalFrames q = unat c + length fs" and "unat c + length fs < 2 ^ 32" and "fits pre (trc_lines c fs)"
  shows "trace_frames q (map (\<lambda>(f, ts). reread_frame f ts) fs)"
  using assms
proof (induction fs arbitrary: q pre c)
  case (Cons p fs)
  obtain f ts where p: "p = (f, ts)" by (cases p)
  have next1: "unat (c + 1) = unat c + 1" using Cons.prems(5) by (intro unat_next) simp
  let ?q = "q\<lparr>tr_mFileStream := stream_at (pre @ trc_write_line (c + 1) f ts) (trc_lines (c + 1) fs),
    tr_mCurrentPos := unat c, tr_mLast := reread_frame f ts\<rparr>"
  have n: "readNextCanFrame q = Inr ?q"
    using readNextLine_written [of q pre "c + 1" f ts "trc_lines (c + 1) fs"] Cons.prems p
    by (simp add: trc_sized_def readNextCanFrame_def fits_def)
  show ?case
  proof (cases "fs = []")
    case True
    with last_frame [OF n] Cons.prems p show ?thesis by simp
  next
    case False
    then have "unat c < tr_mTotalFrames q - 1" using Cons.prems(4) by (cases fs) auto
    with next_frame [OF n] Cons.IH [of ?q "pre @ trc_write_line (c + 1) f ts" "c + 1"] Cons.prems p next1 False
    show ?thesis by simp
  qed
qed simp

lemma trace_frames_start:
  assumes "readNextCanFrame r = readNextCanFrame q" and "trace_frames q fs"
  shows "trace_frames r fs"
  using assms(2,1) by (cases rule: trace_frames.cases) (auto intro: trace_frames.intros)

lemma trace_frames_recording:
  assumes "tr_mFileStream q = stream_open (TRC_FILE_HEADER @ trc_lines 0 fs)" and "list_all trc_sized fs" and "fs \<noteq> []"
    and "tr_mTotalFrames q = length fs" and "length fs \<le> 30000000"
  shows "trace_frames q (map (\<lambda>(f, ts). reread_frame f ts) fs)"
proof (rule trace_frames_start)
  have fits: "fits TRC_FILE_HEADER (trc_lines 0 fs)"
    using assms(2,5) by (intro trc_lines_fit) (auto simp: list_all_iff trc_sized_def)
  let ?q = "q\<lparr>tr_mFileStream := stream_at TRC_FILE_HEADER (trc_lines 0 fs)\<rparr>"
  show "readNextCanFrame q = readNextCanFrame ?q"
    using readNextLine_header [OF assms(1)] by (simp add: readNextCanFrame_def assms(1) stream_open_at)
  show "trace_frames ?q (map (\<lambda>(f, ts). reread_frame f ts) fs)"
    by (rule trace_frames_written [of _ TRC_FILE_HEADER 0]) (use assms fits in simp_all)
qed

text \<open>The converter has the same loop.\<close>

lemma cap_loop_trace_frames:
  "trace_frames r fs \<Longrightarrow> cap_loop r written = Some (Inr (written @ map cap_packet fs))"
  by (induction arbitrary: written rule: trace_frames.induct) (subst cap_loop.simps, simp add: Let_def)+

section \<open>The player\<close>

definition player_ok :: "player \<Rightarrow> bool" where
  "player_ok p \<longleftrightarrow> (\<forall>k < length (pl_vectorFrames p). \<exists>!i. pl_mapFrames p i = Some k)
     \<and> (\<forall>i k. pl_mapFrames p i = Some k \<longrightarrow> k < length (pl_vectorFrames p))
     \<and> (if pl_vectorFrames p = [] then pl_currentSel p = 0 else pl_currentSel p < length (pl_vectorFrames p))"

text \<open>What leaves the lists as they are, up to the entries.\<close>

definition player_like :: "player \<Rightarrow> player \<Rightarrow> bool" where
  "player_like p q \<longleftrightarrow> pl_sent q = pl_sent p \<and> pl_factory q = pl_factory p \<and> (player_ok p \<longrightarrow> player_ok q)"

lemma player_like_refl: "player_like p p"
  by (simp add: player_like_def)

lemma player_like_trans: "player_like p q \<Longrightarrow> player_like q s \<Longrightarrow> player_like p s"
  by (simp add: player_like_def)

lemma player_key_like: "player_like p (player_key k p)"
  by (cases k) (auto simp: player_like_def player_key_def player_ok_def Let_def)

lemma player_wait_returns:
  assumes "\<not> ts_lt (fst (turns k)) t" and "n \<le> k"
  shows "\<exists>n' p'. player_wait turns t n p = Some (n', p') \<and> \<not> ts_lt (fst (turns n')) t \<and> player_like p p'"
  using assms
proof (induction "k - n" arbitrary: n p)
  case 0
  then have "n = k" by simp
  with 0 show ?case by (subst player_wait.simps) (auto simp: player_like_refl)
next
  case (Suc m)
  show ?case
  proof (cases "ts_lt (fst (turns n)) t")
    case True
    from Suc have "m = k - (n + 1)" "n + 1 \<le> k" by simp_all
    with Suc.hyps(1) [of "n + 1" "player_key (snd (turns n)) p"] Suc.prems(1) True show ?thesis
      by (subst player_wait.simps) (auto dest: player_like_trans [OF player_key_like])
  next
    case False
    then show ?thesis by (subst player_wait.simps) (auto simp: player_like_refl)
  qed
qed

definition player_of :: "player_end \<Rightarrow> player" where
  "player_of x = (case x of Inl (e, p) \<Rightarrow> p | Inr p \<Rightarrow> p)"

lemma player_of_simps [simp]: "player_of (Inl (e, p)) = p" "player_of (Inr p) = p"
  by (simp_all add: player_of_def)

lemma player_catch_of [simp]: "player_of (player_catch e p) = p"
  by (cases e) (simp_all add: player_catch_def)

lemma player_catch_Inl: "player_catch e p = Inl (e', q) \<Longrightarrow> \<forall>m. e' \<noteq> J1939DecodeException m"
  by (cases e) (auto simp: player_catch_def)

lemma player_entry_like:
  "player_like p (p\<lparr>pl_vectorFrames := (pl_vectorFrames p)[i := e]\<rparr>)"
  by (auto simp: player_like_def player_ok_def)

lemma player_add_like:
  assumes "pl_mapFrames p i = None"
  shows "player_like p (p\<lparr>pl_mapFrames := (pl_mapFrames p)(i \<mapsto> length (pl_vectorFrames p)),
    pl_vectorFrames := pl_vectorFrames p @ [e]\<rparr>)"
proof (unfold player_like_def, intro conjI impI)
  assume ok: "player_ok p"
  let ?n = "length (pl_vectorFrames p)"
  have "\<exists>!j. ((pl_mapFrames p)(i \<mapsto> ?n)) j = Some k" if "k < Suc ?n" for k
  proof (cases "k = ?n")
    case True
    have "pl_mapFrames p j \<noteq> Some ?n" for j using ok by (auto simp: player_ok_def)
    with True show ?thesis by auto
  next
    case False
    with that ok have "\<exists>!j. pl_mapFrames p j = Some k" by (auto simp: player_ok_def)
    moreover have "((pl_mapFrames p)(i \<mapsto> ?n)) j = Some k \<longleftrightarrow> pl_mapFrames p j = Some k" for j
      using False assms by auto
    ultimately show ?thesis by simp
  qed
  moreover have "k < Suc ?n" if "((pl_mapFrames p)(i \<mapsto> ?n)) j = Some k" for j k
    using that ok by (auto simp: player_ok_def less_Suc_eq split: if_splits)
  moreover have "pl_currentSel p < Suc ?n" using ok by (auto simp: player_ok_def split: if_splits)
  ultimately show "player_ok (p\<lparr>pl_mapFrames := (pl_mapFrames p)(i \<mapsto> ?n), pl_vectorFrames := pl_vectorFrames p @ [e]\<rparr>)"
    by (simp add: player_ok_def)
qed simp_all

lemma player_update_like: "player_like p (player_of (player_update f p))"
  by (auto simp: player_update_def Let_def player_entry_like player_add_like split: option.splits sum.splits prod.splits)

lemma player_update_Inl: "player_update f p = Inl (e, q) \<Longrightarrow> \<forall>m. e \<noteq> J1939DecodeException m"
  by (auto simp: player_update_def Let_def split: option.splits sum.splits dest: player_catch_Inl)

lemma player_reassembler_like: "player_like p (p\<lparr>pl_reassembler := r\<rparr>)"
  by (simp add: player_like_def player_ok_def)

lemma player_show_like: "player_like p (player_of (player_show junk frame p))"
  by (auto simp: player_show_def player_like_refl player_reassembler_like player_update_like
      intro: player_like_trans [OF player_reassembler_like player_update_like]
      split: option.splits sum.splits prod.splits bool.splits)

lemma player_show_Inl: "player_show junk frame p = Inl (e, q) \<Longrightarrow> \<forall>m. e \<noteq> J1939DecodeException m"
  by (auto simp: player_show_def split: option.splits sum.splits prod.splits bool.splits if_splits
      dest: player_catch_Inl player_update_Inl)

text \<open>What was sent is a beginning of the trace, each frame when it was due or later.\<close>

definition played :: "TimeStamp \<Rightarrow> (u64 \<times> CanFrame) list \<Rightarrow> (TimeStamp \<times> CanFrame) list \<Rightarrow> bool" where
  "played start fs sent \<longleftrightarrow> length sent \<le> length fs
     \<and> list_all2 (\<lambda>(t, c) (now, c'). c' = c \<and> \<not> ts_lt now (player_due start t)) (take (length sent) fs) sent"

definition clock_reaches :: "(nat \<Rightarrow> TimeStamp \<times> key) \<Rightarrow> TimeStamp \<Rightarrow> bool" where
  "clock_reaches turns t \<longleftrightarrow> (\<forall>n. \<exists>k \<ge> n. \<not> ts_lt (fst (turns k)) t)"

definition player_result :: "TimeStamp \<Rightarrow> (u64 \<times> CanFrame) list \<Rightarrow> player \<Rightarrow> player_end \<Rightarrow> bool" where
  "player_result start fs p x \<longleftrightarrow> (player_ok p \<longrightarrow> player_ok (player_of x))
     \<and> (\<exists>sent. pl_sent (player_of x) = pl_sent p @ sent \<and> played start fs sent
         \<and> (case x of Inr q \<Rightarrow> length sent = length fs | Inl (e, q) \<Rightarrow> sent \<noteq> [] \<and> (\<forall>m. e \<noteq> J1939DecodeException m)))"

lemma played_one: "\<not> ts_lt now (player_due start (fst f)) \<Longrightarrow> played start (f # fs) [(now, snd f)]"
  by (simp add: played_def split_beta)

lemma played_more:
  "\<not> ts_lt now (player_due start (fst f)) \<Longrightarrow> played start fs sent \<Longrightarrow> played start (f # fs) ((now, snd f) # sent)"
  by (simp add: played_def split_beta)

lemma player_turn:
  assumes "readNextCanFrame r = Inr r'" and "clock_reaches turns (player_due start (fst (tr_mLast r')))"
  obtains n' now x where "\<not> ts_lt now (player_due start (fst (tr_mLast r')))"
    "player_loop junk width start turns n r p =
       (case x of Inl e \<Rightarrow> Some (Inl e)
        | Inr p'' \<Rightarrow> if tr_mCurrentPos r' < tr_mTotalFrames r' - 1
                     then player_loop junk width start turns (n' + 1) r' p'' else Some (Inr p''))"
    "pl_sent (player_of x) = pl_sent p @ [(now, snd (tr_mLast r'))]" "player_ok p \<longrightarrow> player_ok (player_of x)"
    "\<forall>e q. x = Inl (e, q) \<longrightarrow> (\<forall>m. e \<noteq> J1939DecodeException m)"
proof -
  from assms(2) obtain k where "k \<ge> n" "\<not> ts_lt (fst (turns k)) (player_due start (fst (tr_mLast r')))"
    by (auto simp: clock_reaches_def)
  then obtain n' p' where w: "player_wait turns (player_due start (fst (tr_mLast r'))) n p = Some (n', p')"
      "\<not> ts_lt (fst (turns n')) (player_due start (fst (tr_mLast r')))" "player_like p p'"
    using player_wait_returns by meson
  let ?p = "p'\<lparr>pl_sent := pl_sent p' @ [(fst (turns n'), snd (tr_mLast r'))],
      pl_progress := of_nat (width * tr_mCurrentPos r' div tr_mTotalFrames r')\<rparr>"
  let ?x = "player_send junk width r' (fst (turns n')) p'"
  have x: "?x = player_show junk (snd (tr_mLast r')) ?p" by (simp add: player_send_def)
  have l: "player_like ?p (player_of ?x)" unfolding x by (rule player_show_like)
  show thesis
  proof (rule that)
    show "\<not> ts_lt (fst (turns n')) (player_due start (fst (tr_mLast r')))" by (rule w(2))
    show "player_loop junk width start turns n r p =
       (case ?x of Inl e \<Rightarrow> Some (Inl e)
        | Inr p'' \<Rightarrow> if tr_mCurrentPos r' < tr_mTotalFrames r' - 1
                     then player_loop junk width start turns (n' + 1) r' p'' else Some (Inr p''))"
      by (subst player_loop.simps) (simp add: assms(1) w(1))
    show "pl_sent (player_of ?x) = pl_sent p @ [(fst (turns n'), snd (tr_mLast r'))]"
      using l w(3) by (simp add: player_like_def)
    have "player_ok p' \<longrightarrow> player_ok ?p" by (simp add: player_ok_def)
    then show "player_ok p \<longrightarrow> player_ok (player_of ?x)" using l w(3) by (simp add: player_like_def)
    show "\<forall>e q. ?x = Inl (e, q) \<longrightarrow> (\<forall>m. e \<noteq> J1939DecodeException m)"
      unfolding x using player_show_Inl by blast
  qed
qed

lemma player_loop_plays:
  "trace_frames r fs \<Longrightarrow> \<forall>f \<in> set fs. clock_reaches turns (player_due start (fst f))
    \<Longrightarrow> \<exists>x. player_loop junk width start turns n r p = Some x \<and> player_result start fs p x"
proof (induction arbitrary: n p rule: trace_frames.induct)
  case (last_frame r r')
  then have c: "clock_reaches turns (player_due start (fst (tr_mLast r')))" by simp
  from player_turn [OF last_frame(1) c, where junk = junk and width = width and n = n and p = p] obtain n' now x where x:
    "\<not> ts_lt now (player_due start (fst (tr_mLast r')))"
    "player_loop junk width start turns n r p =
       (case x of Inl e \<Rightarrow> Some (Inl e)
        | Inr p'' \<Rightarrow> if tr_mCurrentPos r' < tr_mTotalFrames r' - 1
                     then player_loop junk width start turns (n' + 1) r' p'' else Some (Inr p''))"
    "pl_sent (player_of x) = pl_sent p @ [(now, snd (tr_mLast r'))]" "player_ok p \<longrightarrow> player_ok (player_of x)"
    "\<forall>e q. x = Inl (e, q) \<longrightarrow> (\<forall>m. e \<noteq> J1939DecodeException m)" .
  from x(2) last_frame(2) have "player_loop junk width start turns n r p = Some x" by (simp split: sum.splits)
  moreover have "player_result start [tr_mLast r'] p x"
    using x(3-5) played_one [OF x(1), of "[]"] by (auto simp: player_result_def split: sum.splits)
  ultimately show ?case by blast
next
  case (next_frame r r' fs)
  then have c: "clock_reaches turns (player_due start (fst (tr_mLast r')))" by simp
  from player_turn [OF next_frame(1) c, where junk = junk and width = width and n = n and p = p] obtain n' now x where x:
    "\<not> ts_lt now (player_due start (fst (tr_mLast r')))"
    "player_loop junk width start turns n r p =
       (case x of Inl e \<Rightarrow> Some (Inl e)
        | Inr p'' \<Rightarrow> if tr_mCurrentPos r' < tr_mTotalFrames r' - 1
                     then player_loop junk width start turns (n' + 1) r' p'' else Some (Inr p''))"
    "pl_sent (player_of x) = pl_sent p @ [(now, snd (tr_mLast r'))]" "player_ok p \<longrightarrow> player_ok (player_of x)"
    "\<forall>e q. x = Inl (e, q) \<longrightarrow> (\<forall>m. e \<noteq> J1939DecodeException m)" .
  show ?case
  proof (cases x)
    case (Inl e)
    then have "player_result start (tr_mLast r' # fs) p x"
      using x played_one [OF x(1), of fs] by (cases e) (simp add: player_result_def)
    with x(2) Inl show ?thesis by auto
  next
    case (Inr p'')
    obtain y where y: "player_loop junk width start turns (n' + 1) r' p'' = Some y" "player_result start fs p'' y"
      using next_frame.IH next_frame(5) by fastforce
    then obtain sent where sent: "pl_sent (player_of y) = pl_sent p'' @ sent" "played start fs sent"
        "case y of Inr q \<Rightarrow> length sent = length fs | Inl (e, q) \<Rightarrow> sent \<noteq> [] \<and> (\<forall>m. e \<noteq> J1939DecodeException m)"
      by (auto simp: player_result_def)
    have "player_result start (tr_mLast r' # fs) p y"
      unfolding player_result_def
    proof (intro conjI exI)
      show "player_ok p \<longrightarrow> player_ok (player_of y)" using x(4) y(2) by (simp add: Inr player_result_def)
      show "pl_sent (player_of y) = pl_sent p @ (now, snd (tr_mLast r')) # sent" using x(3) sent(1) by (simp add: Inr)
      show "played start (tr_mLast r' # fs) ((now, snd (tr_mLast r')) # sent)" using x(1) sent(2) by (rule played_more)
      show "case y of Inr q \<Rightarrow> length ((now, snd (tr_mLast r')) # sent) = length (tr_mLast r' # fs)
          | Inl (e, q) \<Rightarrow> (now, snd (tr_mLast r')) # sent \<noteq> [] \<and> (\<forall>m. e \<noteq> J1939DecodeException m)"
        using sent(3) by (auto split: sum.splits)
    qed
    moreover have "player_loop junk width start turns n r p = Some y"
      using x(2) Inr y(1) next_frame(2) by simp
    ultimately show ?thesis by blast
  qed
qed

section \<open>The file with the frames of the engine\<close>

text \<open>The lines of the file: before a frame that is later than the next frame of the engine, one of those.\<close>

fun injected :: "CanFrame \<Rightarrow> u64 \<Rightarrow> (u64 \<times> CanFrame) list \<Rightarrow> (CanFrame \<times> TimeStamp) list" where
  "injected c k [] = []"
| "injected c k ((t, f) # fs) =
     (if k < t then (c, inject_time k) # (f, inject_time t) # injected c (k + 100000) fs
      else (f, inject_time t) # injected c k fs)"

lemma trc_write_open:
  "tw_mFileStream w = Some old \<Longrightarrow> trc_write f ts w = Inr (w\<lparr>tw_mCounter := tw_mCounter w + 1,
     tw_mFileStream := Some (old @ trc_write_line (tw_mCounter w + 1) f ts)\<rparr>)"
  by (simp add: trc_write_def Let_def)

lemma inject_step_writes:
  assumes "jframe_encode eec1 (jframe_getDataLength eec1) = Inr (ident, buff, len)" and "tw_mFileStream w = Some old"
  defines "c \<equiv> CanFrame_of True ident (take len buff)"
  shows "\<exists>k' w' new. inject_step eec1 (t, f) (k, w) = Inr (k', w') \<and> tw_mFileStream w' = Some (old @ new)
    \<and> (\<forall>fs. new @ trc_lines (tw_mCounter w') (injected c k' fs) = trc_lines (tw_mCounter w) (injected c k ((t, f) # fs)))"
proof (cases "k < t")
  case True
  then show ?thesis
    by (simp add: inject_step_def inject_before_def trc_write_open assms)
next
  case False
  then show ?thesis
    by (simp add: inject_step_def inject_before_def trc_write_open assms)
qed

lemma inject_loop_writes:
  assumes "jframe_encode eec1 (jframe_getDataLength eec1) = Inr (ident, buff, len)"
  shows "trace_frames r fs \<Longrightarrow> tw_mFileStream w = Some old \<Longrightarrow>
    \<exists>k' w'. inject_loop eec1 r (k, w) = Some (Inr (k', w')) \<and> tw_mFileStream w' = Some (old @
      trc_lines (tw_mCounter w) (injected (CanFrame_of True ident (take len buff)) k fs))"
proof (induction arbitrary: k w old rule: trace_frames.induct)
  case (last_frame r r')
  obtain t f where f: "tr_mLast r' = (t, f)" by (cases "tr_mLast r'")
  show ?case
    using last_frame f assms
    by (subst inject_loop.simps) (auto simp: inject_step_def inject_before_def trc_write_open)
next
  case (next_frame r r' fs)
  obtain t f where f: "tr_mLast r' = (t, f)" by (cases "tr_mLast r'")
  let ?c = "CanFrame_of True ident (take len buff)"
  obtain k1 w1 new where s: "inject_step eec1 (t, f) (k, w) = Inr (k1, w1)" "tw_mFileStream w1 = Some (old @ new)"
    "new @ trc_lines (tw_mCounter w1) (injected ?c k1 fs) = trc_lines (tw_mCounter w) (injected ?c k ((t, f) # fs))"
    using inject_step_writes [OF assms next_frame.prems] by blast
  with next_frame.IH [OF s(2), of k1] show ?case
    using next_frame(1,2) f by (subst inject_loop.simps) (auto simp del: injected.simps)
qed

text \<open>The time of the frame of the engine with the number \<open>i\<close>, from 0.\<close>

definition engine_time :: "nat \<Rightarrow> u64" where
  "engine_time i = of_nat (100000 * i)"

lemma engine_time_0: "engine_time 0 = 0"
  by (simp add: engine_time_def)

lemma engine_time_Suc: "engine_time i + 100000 = engine_time (Suc i)"
  by (simp add: engine_time_def)

lemma unat_engine_time: "n = 100000 * i \<Longrightarrow> n < 2 ^ 64 \<Longrightarrow> unat (engine_time i) = n"
proof -
  assume n: "n = 100000 * i" "n < 2 ^ 64"
  have "engine_time i = of_nat n" by (simp only: engine_time_def n(1))
  then show ?thesis using n(2) by (simp add: unsigned_of_nat take_bit_nat_eq_self)
qed

text \<open>When all frames are late, there is one of them before each, at times that do not know of the gaps.\<close>

lemma injected_lags:
  assumes "100000 * (j + length fs) < 2 ^ 64" and "\<forall>(t, f) \<in> set fs. 100000 * (j + length fs) < unat t"
  shows "injected c (engine_time j) fs = concat (map (\<lambda>i. [(c, inject_time (engine_time (j + i))),
    (snd (fs ! i), inject_time (fst (fs ! i)))]) [0 ..< length fs])"
  using assms
proof (induction fs arbitrary: j)
  case (Cons p fs)
  obtain t f where p: "p = (t, f)" by (cases p)
  have "unat (engine_time j) = 100000 * j" using Cons.prems(1) by (intro unat_engine_time) auto
  moreover have "100000 * (j + length (p # fs)) < unat t" using Cons.prems(2) p by simp
  ultimately have l: "engine_time j < t" by (simp add: word_less_nat_alt)
  have IH: "injected c (engine_time (Suc j)) fs = concat (map (\<lambda>i. [(c, inject_time (engine_time (Suc j + i))),
      (snd (fs ! i), inject_time (fst (fs ! i)))]) [0 ..< length fs])"
    using Cons.prems by (intro Cons.IH) auto
  have up: "[0 ..< Suc (length fs)] = 0 # map Suc [0 ..< length fs]"
    by (metis upt_conv_Cons map_Suc_upt zero_less_Suc)
  show ?case by (simp add: p l engine_time_Suc IH up o_def del: upt_Suc)
qed simp

section \<open>Properties\<close>

text \<open>C34: The player plays a recording: for up to 30 million frames of 1 to 8 data bytes recorded by TRCDumper, if the
  clock always goes on to the time of every frame, it ends, having sent those frames in order, each when it was due or
  later, unless an exception other than a decoding error ends it earlier, after a beginning of them; and its list of
  frames and its map of identifiers agree, with the selection inside the list.\<close>

theorem trace_played:
  assumes "list_all trc_sized fs" and "fs \<noteq> []" and "length fs \<le> 30000000" and "path \<noteq> []" and "database \<noteq> None"
  defines "played_trace \<equiv> map (\<lambda>(f, ts). (trc_reread (ts_minus ts (snd (hd fs))), f\<lparr>cf_mExtendedFormat := True\<rparr>)) fs"
  assumes "\<forall>(t, f) \<in> set played_trace. clock_reaches turns (player_due (fst (turns 0)) t)"
  shows "\<exists>d x. dumper_run fs dumper_start = Inr d
    \<and> player_main ext True path (tw_mFileStream (du_writer d)) specs database junk width turns = Some (Inr x)
    \<and> player_ok (player_of x) \<and> played (fst (turns 0)) played_trace (pl_sent (player_of x))
    \<and> (case x of Inr p \<Rightarrow> map snd (pl_sent p) = map snd played_trace
       | Inl (e, p) \<Rightarrow> pl_sent p \<noteq> [] \<and> (\<forall>m. e \<noteq> J1939DecodeException m))"
proof -
  let ?fs = "relative_times fs"
  obtain d where d: "dumper_run fs dumper_start = Inr d"
    "tw_mFileStream (du_writer d) = Some (TRC_FILE_HEADER @ trc_lines 0 ?fs)"
    using dumper_records by blast
  have fs: "list_all trc_sized ?fs" "?fs \<noteq> []" "length ?fs = length fs"
    using assms(1,2) by (auto simp: relative_times_def list_all_iff trc_sized_def)
  obtain r where r: "trc_loadFile path (Some (TRC_FILE_HEADER @ trc_lines 0 ?fs)) (TRCReader_new ext) = Some (Inr (True, r))"
    "tr_mFileStream r = stream_open (TRC_FILE_HEADER @ trc_lines 0 ?fs)" "tr_mTotalFrames r = length fs"
    using trc_loadFile_recording [OF fs(1,2) _ assms(4)] assms(3) fs(3) by auto
  have "map (\<lambda>(f, ts). reread_frame f ts) ?fs = played_trace"
    by (simp add: relative_times_def played_trace_def reread_frame_def o_def split_beta)
  with trace_frames_recording [OF r(2) fs(1,2)] r(3) fs(3) assms(3) have t: "trace_frames r played_trace" by simp
  obtain m0 where m0: "J1939Factory specs = Inr m0" using J1939Factory_ok by blast
  obtain m where m: "registerDatabaseFrames database m0 = (True, m)"
    using assms(5) by (auto simp: registerDatabaseFrames_def)
  let ?p = "\<lparr>pl_factory = m, pl_reassembler = BamReassembler, pl_vectorFrames = [], pl_mapFrames = (\<lambda>i. None),
    pl_currentSel = 0, pl_progress = 0, pl_sent = []\<rparr>"
  obtain x where x: "player_loop junk width (fst (turns 0)) turns 1 r ?p = Some x" "player_result (fst (turns 0)) played_trace ?p x"
    using player_loop_plays [OF t] assms(7) by (fastforce simp: split_beta)
  have main: "player_main ext True path (tw_mFileStream (du_writer d)) specs database junk width turns = Some (Inr x)"
    using r(1,3) assms(2) m0 m x(1) by (simp add: player_main_def d(2))
  from x(2) have s: "player_ok (player_of x)" "played (fst (turns 0)) played_trace (pl_sent (player_of x))"
    "case x of Inr q \<Rightarrow> length (pl_sent q) = length played_trace
     | Inl (e, q) \<Rightarrow> pl_sent q \<noteq> [] \<and> (\<forall>m. e \<noteq> J1939DecodeException m)"
    by (auto simp: player_result_def player_ok_def split: sum.splits)
  have "map snd (pl_sent p) = map snd played_trace" if "x = Inr p" for p
    using s(2,3) that by (auto simp: played_def list_all2_conv_all_nth split_beta intro: nth_equalityI)
  with s main d(1) show ?thesis by (auto split: sum.splits)
qed

theorem trace_played_witness:
  "\<exists>d x. dumper_run [(\<lparr>cf_mExtendedFormat = False, cf_mId = 0x18FEF100, cf_mData = [1, 0xAB]\<rparr>, TimeStamp 7 250000)] dumper_start = Inr d
    \<and> player_main False True ''a.trc'' (tw_mFileStream (du_writer d)) 0 (Some []) (\<lambda>i. 0) 80 (\<lambda>n. (TimeStamp (- 1) (- 1), KEY_NONE))
        = Some (Inr x) \<and> pl_sent (player_of x) \<noteq> []"
proof -
  have late: "\<not> ts_lt (TimeStamp (- 1) (- 1)) t" for t
    by (simp add: ts_lt_def word_order.not_eq_extremum [symmetric] not_less)
  from trace_played [of "[(\<lparr>cf_mExtendedFormat = False, cf_mId = 0x18FEF100, cf_mData = [1, 0xAB]\<rparr>, TimeStamp 7 250000)]"
      "''a.trc''" "Some []" "\<lambda>n. (TimeStamp (- 1) (- 1), KEY_NONE)" False 0 "\<lambda>i. 0" 80]
  show ?thesis by (fastforce simp: trc_sized_def clock_reaches_def late split: sum.splits)
qed

text \<open>However long the gaps of a recording are, only one frame of the engine is written before each of its frames:
  when all of these are late, the frames of the engine have the times 0, 100, 200 milliseconds and so on,
  in between frames of any later times, so that the times in the file go back.\<close>

theorem injection_lags:
  assumes "J1939Factory specs = Inr m0" and "registerDatabaseFrames database m0 = (True, m)" and "inject_eec1 m = Inr eec1"
    and "jframe_encode eec1 (jframe_getDataLength eec1) = Inr (ident, buff, len)"
    and "list_all trc_sized fs" and "fs \<noteq> []" and "length fs \<le> 30000000"
    and "\<forall>(f, ts) \<in> set fs. 100000 * length fs < unat (trc_reread ts)"
  shows "inject_main ext specs database (Some (TRC_FILE_HEADER @ trc_lines 0 fs)) True = Some (Inr (Some (TRC_FILE_HEADER @
    trc_lines 0 (concat (map (\<lambda>i. [(CanFrame_of True ident (take len buff), inject_time (engine_time i)),
      ((fst (fs ! i))\<lparr>cf_mExtendedFormat := True\<rparr>, inject_time (trc_reread (snd (fs ! i))))]) [0 ..< length fs])))))"
proof -
  let ?c = "CanFrame_of True ident (take len buff)"
  let ?tr = "map (\<lambda>(f, ts). reread_frame f ts) fs"
  obtain r where r: "trc_loadFile ''input.trc'' (Some (TRC_FILE_HEADER @ trc_lines 0 fs)) (TRCReader_new ext) = Some (Inr (True, r))"
    "tr_mFileStream r = stream_open (TRC_FILE_HEADER @ trc_lines 0 fs)" "tr_mTotalFrames r = length fs"
    using trc_loadFile_recording [OF assms(5-7), of "''input.trc''"] by auto
  have t: "trace_frames r ?tr" using trace_frames_recording [OF r(2) assms(5,6)] r(3) assms(7) by simp
  have w: "tw_mFileStream (snd (trc_open True TRCWriter_new)) = Some TRC_FILE_HEADER"
      "tw_mCounter (snd (trc_open True TRCWriter_new)) = 0" "fst (trc_open True TRCWriter_new)"
    by (simp_all add: trc_open_def trc_close_def TRCWriter_new_def)
  obtain k' w' where l: "inject_loop eec1 r (0, snd (trc_open True TRCWriter_new)) = Some (Inr (k', w'))"
    "tw_mFileStream w' = Some (TRC_FILE_HEADER @ trc_lines 0 (injected ?c (engine_time 0) ?tr))"
    using inject_loop_writes [OF assms(4) t w(1), of 0] w(2) by (auto simp: engine_time_0)
  have "injected ?c (engine_time 0) ?tr = concat (map (\<lambda>i. [(?c, inject_time (engine_time (0 + i))),
      (snd (?tr ! i), inject_time (fst (?tr ! i)))]) [0 ..< length ?tr])"
    by (rule injected_lags) (use assms(7,8) in \<open>auto simp: reread_frame_def\<close>)
  also have "\<dots> = concat (map (\<lambda>i. [(?c, inject_time (engine_time i)),
      ((fst (fs ! i))\<lparr>cf_mExtendedFormat := True\<rparr>, inject_time (trc_reread (snd (fs ! i))))]) [0 ..< length fs])"
    by (intro arg_cong [where f = concat] map_cong) (auto simp: reread_frame_def split_beta)
  finally show ?thesis
    using l w(3) r(1,3) assms(1-3,6) by (simp add: inject_main_def split_beta)
qed

definition rpm_spn :: SPN where
  "rpm_spn = \<lparr>mSpecId = 9, mSpec = \<lparr>mSPNNumber = 190, mSpecName = ''Engine Speed'', mSpecOffset = 3\<rparr>,
     mSpnData = SpnNumeric \<lparr>mFormatGain = Fin 1, mFormatOffset = Fin 0, mByteSize = 2, mUnits = ''rpm''\<rparr> 0\<rparr>"

definition eec1_database :: "generic frame list" where
  "eec1_database = [\<lparr>mPriority = 3, mSrcAddr = 0, mPgn = 0xF004, mDstAddr = 0xFF, mName = ''EEC1'',
     mBody = \<lparr>mLength = 8, mSPNs = [(190, rpm_spn)]\<rparr>\<rparr>]"

definition eec1_sent :: jframe where
  "eec1_sent = (as_frame Generic (hd eec1_database))\<lparr>mPriority := 4, mSrcAddr := 0x15,
     mBody := Generic \<lparr>mLength = 8, mSPNs = [(190, rpm_spn\<lparr>mSpnData := SpnNumeric
       \<lparr>mFormatGain = Fin 1, mFormatOffset = Fin 0, mByteSize = 2, mUnits = ''rpm''\<rparr> 310\<rparr>)]\<rparr>\<rparr>"

lemma eec1_encoded:
  "jframe_encode eec1_sent (jframe_getDataLength eec1_sent) = Inr (0x10F00415, [0xFF, 0xFF, 0xFF, 0x36, 0x01, 0xFF, 0xFF, 0xFF], 8)"
  by code_simp

lemma eec1_found:
  "\<exists>m0 m. J1939Factory 0 = Inr m0 \<and> registerDatabaseFrames (Some eec1_database) m0 = (True, m) \<and> inject_eec1 m = Inr eec1_sent"
proof -
  have "case J1939Factory 0 of Inl e \<Rightarrow> False | Inr m0 \<Rightarrow>
      getJ1939Frame_name (snd (registerDatabaseFrames (Some eec1_database) m0)) ''EEC1'' = Some (as_frame Generic (hd eec1_database))"
    by code_simp
  then obtain m0 m where m: "J1939Factory 0 = Inr m0" "registerDatabaseFrames (Some eec1_database) m0 = (True, m)"
    "getJ1939Frame_name m ''EEC1'' = Some (as_frame Generic (hd eec1_database))"
    by (auto simp: registerDatabaseFrames_def split: sum.splits)
  have "setFormattedValue \<lparr>mFormatGain = Fin 1, mFormatOffset = Fin 0, mByteSize = 2, mUnits = ''rpm''\<rparr> 0 (d_of_nat 310) = (True, 310)"
    using d_of_nat_exact [of 310]
      setFormattedValue_int [of "\<lparr>mFormatGain = Fin 1, mFormatOffset = Fin 0, mByteSize = 2, mUnits = ''rpm''\<rparr>" 1 0 310 0] by simp
  then have "inject_eec1 m = Inr eec1_sent"
    by (simp add: inject_eec1_def m(3) eec1_database_def eec1_sent_def as_frame_def setSrcAddr_def setPriority_def
        getSPN_def smap_find_def put_spn_data_def rpm_spn_def)
  with m show ?thesis by blast
qed

theorem injection_lags_witness:
  "\<exists>text. inject_main False 0 (Some eec1_database)
     (Some (TRC_FILE_HEADER @ trc_lines 0 [(\<lparr>cf_mExtendedFormat = True, cf_mId = 0x18FEF100, cf_mData = [1]\<rparr>, TimeStamp 7 0)])) True
       = Some (Inr (Some text))"
proof -
  obtain m0 m where m: "J1939Factory 0 = Inr m0" "registerDatabaseFrames (Some eec1_database) m0 = (True, m)"
    "inject_eec1 m = Inr eec1_sent" using eec1_found by blast
  have "trc_micros (TimeStamp 7 0) - 51 \<le> uint (trc_reread (TimeStamp 7 0))" using trc_reread_near by metis
  then have "100000 < uint (trc_reread (TimeStamp 7 0))" by (simp add: trc_micros_def)
  then have late: "100000 < unat (trc_reread (TimeStamp 7 0))" by (simp only: uint_nat)
  from injection_lags [OF m eec1_encoded, of "[(\<lparr>cf_mExtendedFormat = True, cf_mId = 0x18FEF100, cf_mData = [1]\<rparr>, TimeStamp 7 0)]"]
  show ?thesis using late by (simp add: trc_sized_def)
qed

end
