(* ===== verification/CanSend.thy ===== *)
theory CanSend
  imports ToolBase Sniffing CanEasy TraceRoundtrip
begin

text \<open>
  \<open>CAN/CanSend.cpp\<close> sends the frames of a log through the first interface there is. \<open>sent\<close> are the frames sent
  so far; they are kept where the program ends early.
\<close>

section \<open>The program\<close>

type_synonym cansend_state = "(iface \<times> CanFrame) list"
type_synonym cansend_end = "(quit \<times> cansend_state) + cansend_state"

text \<open>Interface, identifier, length and data; the line may be too short, what was read before is kept then.\<close>

definition cansend_parseLine :: "string \<Rightarrow> string \<Rightarrow> string \<Rightarrow> int \<times> string \<times> string" where
  "cansend_parseLine line ident data =
     (if line = [] then (0, ident, data)
      else let tokens = split_spaces line
           in if length tokens < 4 then (- EINVAL, ident, data)
              else (0, tokens ! 1, data @ concat (drop 3 tokens)))"

text \<open>Two characters at a time.\<close>

fun cansend_bytes :: "string \<Rightarrow> bytes tool" where
  "cansend_bytes [] = Inr []"
| "cansend_bytes [c] = tool_bind (tool_std (stoul 16 [c])) (\<lambda>v. Inr [ucast v])"
| "cansend_bytes (c # d # r) =
     tool_bind (tool_std (stoul 16 [c, d])) (\<lambda>v. tool_bind (cansend_bytes r) (\<lambda>bs. Inr (ucast v # bs)))"

text \<open>
  \<open>ext\<close> is the format that the default constructor leaves. The interface may have no sender. Every frame is a new one:
  \<open>flags\<close> gives, for the number of frames sent before, what its format reads as, \<open>None\<close> if reading it is undefined.
\<close>

definition cansend_frame :: "bool \<Rightarrow> string \<Rightarrow> string \<Rightarrow> CanFrame tool" where
  "cansend_frame ext ident data =
     tool_bind (tool_std (stoi 16 ident)) (\<lambda>i.
     tool_bind (cansend_bytes data) (\<lambda>bs.
       Inr (snd (cf_setData bs ((CanFrame_default ext)\<lparr>cf_mId := word_of_int i\<rparr>)))))"

definition cansend_send ::
  "(backend \<Rightarrow> iface list) \<Rightarrow> can_easy \<Rightarrow> (nat \<Rightarrow> bool option) \<Rightarrow> string \<Rightarrow> string \<Rightarrow> cansend_state \<Rightarrow> cansend_end" where
  "cansend_send ifaces easy flags ident data sent =
     (case getInterfaces ifaces of
        [] \<Rightarrow> Inl (Killed UndefinedBehaviour, sent)
      | interface # rest \<Rightarrow>
          let sender = getSender interface easy
          in (case cansend_frame (flags (length sent) = Some True) ident data of
                Inl q \<Rightarrow> Inl (q, sent)
              | Inr canFrame \<Rightarrow>
                  (case sender of
                     None \<Rightarrow> Inl (Killed UndefinedBehaviour, sent)
                   | Some b \<Rightarrow>
                       if flags (length sent) = None then Inl (Killed UndefinedBehaviour, sent)
                       else Inr (sent @ [(interface, canFrame)]))))"

text \<open>What \<open>std::getline\<close> gives until the end.\<close>

function stream_lines :: "string \<Rightarrow> string list" where
  "stream_lines str =
     (if str = [] then []
      else takeWhile (\<lambda>c. c \<noteq> CHR 0x0A) str
           # (case dropWhile (\<lambda>c. c \<noteq> CHR 0x0A) str of [] \<Rightarrow> [] | c # r \<Rightarrow> stream_lines r))"
  by pat_completeness auto

termination
proof (relation "measure length")
  fix str c r
  assume "dropWhile (\<lambda>c. c \<noteq> CHR 0x0A) str = c # r"
  then have "length (c # r) \<le> length str" by (metis length_dropWhile_le)
  then show "(r, str) \<in> measure length" by simp
qed simp

declare stream_lines.simps [simp del]

text \<open>The result of \<open>parseLine\<close> is not looked at.\<close>

fun cansend_lines ::
  "(backend \<Rightarrow> iface list) \<Rightarrow> can_easy \<Rightarrow> (nat \<Rightarrow> bool option) \<Rightarrow> string list \<Rightarrow> cansend_state \<Rightarrow> cansend_end" where
  "cansend_lines ifaces easy flags [] sent = Inr sent"
| "cansend_lines ifaces easy flags (line # ls) sent =
     (let (ret, ident, data) = cansend_parseLine line [] []
      in case cansend_send ifaces easy flags ident data sent of
           Inl q \<Rightarrow> Inl q
         | Inr sent \<Rightarrow> cansend_lines ifaces easy flags ls sent)"

text \<open>Every bit rate given is converted; \<open>content\<close> is the file named, if it opens, \<open>stdin\<close> the standard input.\<close>

fun cansend_options :: "(char \<times> string) list \<Rightarrow> string \<Rightarrow> u32 \<Rightarrow> (string \<times> u32) tool" where
  "cansend_options [] path baud = Inr (path, baud)"
| "cansend_options ((c, optarg) # opts) path baud =
     (if c = CHR ''f'' then cansend_options opts optarg baud
      else if c = CHR ''b'' then tool_bind (tool_std (stoul 10 optarg)) (\<lambda>n. cansend_options opts path (ucast n))
      else cansend_options opts path baud)"

definition cansend_main ::
  "(backend \<Rightarrow> iface list) \<Rightarrow> (u32 \<Rightarrow> backend \<Rightarrow> iface \<Rightarrow> bool) \<Rightarrow> (nat \<Rightarrow> bool option) \<Rightarrow> (char \<times> string) list
   \<Rightarrow> (string \<Rightarrow> string option) \<Rightarrow> string \<Rightarrow> cansend_end" where
  "cansend_main ifaces init flags opts files stdin =
     (case cansend_options opts [] 250000 of
        Inl q \<Rightarrow> Inl (q, [])
      | Inr (path, baud) \<Rightarrow>
          let easy = easy_initialize ifaces (init baud)
                \<lparr>ez_mSenders = [], ez_mReceivers = [], ez_mInitializedIfaces = [], ez_mHelpers = []\<rparr>
          in if path = [] then cansend_lines ifaces easy flags (stream_lines stdin) []
             else (case files path of
                     None \<Rightarrow> Inl (Quit (- EIO), [])
                   | Some text \<Rightarrow> cansend_lines ifaces easy flags (stream_lines text) []))"

section \<open>Hexadecimal text\<close>

lemma scan_hex:
  assumes "ds \<noteq> []" and "\<And>c. c \<in> set ds \<Longrightarrow> is_digit 16 c"
  shows "scan_integer 16 ds = Some (False, digits_value 16 ds)"
proof -
  obtain c cs where ds: "ds = c # cs" using assms(1) by (cases ds) auto
  have "\<not> is_space c \<and> c \<noteq> CHR ''-'' \<and> c \<noteq> CHR ''+''"
    using assms(2) [of c] digit_not_space by (simp add: ds)
  then have s: "scan_sign ds = (False, ds)" by (simp add: scan_sign_def ds)
  have "\<not> hex_prefixed ds"
  proof
    assume "hex_prefixed ds"
    then have "CHR ''x'' \<in> set ds \<or> CHR ''X'' \<in> set ds" by (cases ds rule: hex_prefixed.cases) auto
    then have "is_digit 16 (CHR ''x'') \<or> is_digit 16 (CHR ''X'')" using assms(2) by blast
    then show False by (simp add: is_digit_def digit_value_def)
  qed
  then have b: "scan_base 16 ds = (16, ds)" by (simp add: scan_base_def)
  have t: "takeWhile (is_digit 16) ds = ds" using assms(2) by (simp add: takeWhile_eq_all_conv)
  show ?thesis unfolding scan_integer_def s b Let_def prod.case t using assms(1) by simp
qed

lemma stoi_hex: "n < 0x80000000 \<Longrightarrow> stoi 16 (show_hex_upper w n) = Inr (int n)"
  using scan_hex [OF hex_upper_digits(3) hex_upper_digits(1)] by (simp add: stoi_def hex_upper_digits(2) Let_def)

lemma stoul_hex: "n < 256 \<Longrightarrow> stoul 16 (show_hex_upper w n) = Inr (of_nat n)"
  using scan_hex [OF hex_upper_digits(3) hex_upper_digits(1)] by (simp add: stoul_def hex_upper_digits(2))

lemma cansend_bytes_hex:
  "cansend_bytes (concat (map (\<lambda>b. show_hex_upper 2 (unat b)) bs)) = Inr bs"
proof (induction bs)
  case (Cons b bs)
  obtain c d where cd: "show_hex_upper 2 (unat b) = [c, d]"
    using hex_octet_length [of b] by (auto simp: numeral_2_eq_2 length_Suc_conv)
  have b: "unat b < 256" using unsigned_less [of b] by simp
  have "(ucast (ucast b :: u64) :: u8) = b"
    by (rule ucast_up_ucast_id) (simp add: is_up_def source_size_def target_size_def word_size)
  with stoul_hex [OF b, of 2] cd Cons show ?case by simp
qed simp

section \<open>Scripts\<close>

text \<open>A line with a frame, however it is spaced; a line that has none.\<close>

definition line_says :: "string \<Rightarrow> u32 \<times> bytes \<Rightarrow> bool" where
  "line_says line p \<longleftrightarrow> line \<noteq> [] \<and> fst p < 0x80000000 \<and>
     (\<exists>i n ws. split_spaces line = i # show_hex_upper 8 (unat (fst p)) # n # ws \<and> ws \<noteq> []
        \<and> concat ws = concat (map (\<lambda>b. show_hex_upper 2 (unat b)) (snd p)))"

definition line_short :: "string \<Rightarrow> bool" where
  "line_short line \<longleftrightarrow> line = [] \<or> length (split_spaces line) < 4"

text \<open>More than eight bytes are refused by \<open>setData\<close>, and the frame goes out empty.\<close>

definition line_frame :: "bool \<Rightarrow> u32 \<times> bytes \<Rightarrow> CanFrame" where
  "line_frame ext p = \<lparr>cf_mExtendedFormat = ext, cf_mId = fst p, cf_mData = (if length (snd p) > 8 then [] else snd p)\<rparr>"

lemma line_says_frame:
  assumes "line_says line p"
  shows "\<exists>ident data. cansend_parseLine line [] [] = (0, ident, data) \<and> cansend_frame ext ident data = Inr (line_frame ext p)"
proof -
  obtain i n ws where l: "line \<noteq> []" "fst p < 0x80000000" "split_spaces line = i # show_hex_upper 8 (unat (fst p)) # n # ws"
    "ws \<noteq> []" "concat ws = concat (map (\<lambda>b. show_hex_upper 2 (unat b)) (snd p))"
    using assms by (auto simp: line_says_def)
  have "unat (fst p) < 0x80000000" using l(2) by (simp add: word_less_nat_alt)
  note id = stoi_hex [OF this, of 8]
  have "cansend_parseLine line [] [] = (0, show_hex_upper 8 (unat (fst p)), concat ws)"
    using l by (cases ws) (simp_all add: cansend_parseLine_def)
  moreover have "cansend_frame ext (show_hex_upper 8 (unat (fst p))) (concat ws) = Inr (line_frame ext p)"
    by (simp add: cansend_frame_def id l(5) cansend_bytes_hex cf_setData_def CanFrame_default_def line_frame_def)
  ultimately show ?thesis by blast
qed

lemma short_line_frame:
  "line_short line \<Longrightarrow> \<exists>ret. cansend_parseLine line [] [] = (ret, [], []) \<and> cansend_frame ext [] [] = Inl (KilledStd InvalidArgument)"
  by (auto simp: line_short_def cansend_parseLine_def cansend_frame_def stoi_def scan_integer_def scan_sign_def
      scan_base_def Let_def)

text \<open>The frames of a script, the first with the number \<open>n\<close>, each with the format its memory had.\<close>

definition script_frames :: "(nat \<Rightarrow> bool) \<Rightarrow> iface \<Rightarrow> nat \<Rightarrow> (u32 \<times> bytes) list \<Rightarrow> (iface \<times> CanFrame) list" where
  "script_frames ext interface n ps = map (\<lambda>(k, p). (interface, line_frame (ext k) p)) (enumerate n ps)"

lemma cansend_lines_frames:
  assumes "getInterfaces ifaces = interface # more_ifaces" and "getSender interface easy \<noteq> None"
    and "list_all2 line_says lines ps"
  shows "cansend_lines ifaces easy (\<lambda>k. Some (ext k)) (lines @ rest) sent =
    cansend_lines ifaces easy (\<lambda>k. Some (ext k)) rest (sent @ script_frames ext interface (length sent) ps)"
  using assms(3)
proof (induction lines ps arbitrary: sent rule: list_all2_induct)
  case Nil
  then show ?case by (simp add: script_frames_def)
next
  case (Cons line lines p ps)
  from line_says_frame [OF Cons(1), of "ext (length sent)"] assms(1,2)
    Cons.IH [of "sent @ [(interface, line_frame (ext (length sent)) p)]"]
  show ?case by (auto simp: cansend_send_def script_frames_def)
qed

section \<open>Properties\<close>

text \<open>C39: \<open>CanSend\<close> sends the frames of a script in order through the first interface, each with its data if these
  are at most eight bytes and empty otherwise, and in whatever format its uninitialised memory happens to say; but the
  first line that is blank or has fewer than four words, as that of a frame without data, ends the program with an
  exception.\<close>

theorem cansend_until_short_line:
  assumes "getInterfaces ifaces = interface # more_ifaces" and "getSender interface easy \<noteq> None"
    and "list_all2 line_says lines ps" and "line_short line"
  shows "cansend_lines ifaces easy (\<lambda>k. Some (ext k)) lines [] = Inr (script_frames ext interface 0 ps)
    \<and> cansend_lines ifaces easy (\<lambda>k. Some (ext k)) (lines @ line # rest) []
      = Inl (KilledStd InvalidArgument, script_frames ext interface 0 ps)"
  using cansend_lines_frames [OF assms(1-3), of ext "[]" "[]"] cansend_lines_frames [OF assms(1-3), of ext "line # rest" "[]"]
    short_line_frame [OF assms(4)] assms(1) by (fastforce simp: cansend_send_def)

theorem cansend_until_short_line_witness:
  "cansend_lines (\<lambda>b. [to_iface ''can0'']) (easy_initialize (\<lambda>b. [to_iface ''can0'']) (\<lambda>b i. True)
      \<lparr>ez_mSenders = [], ez_mReceivers = [], ez_mInitializedIfaces = [], ez_mHelpers = []\<rparr>) (\<lambda>k. Some True)
      [''can0  00000021  [2]  1F 02'', ''can0 18EAFFFE [0]''] []
    = Inl (KilledStd InvalidArgument, [(to_iface ''can0'', CanFrame_of True 0x21 [0x1F, 0x02])])"
proof -
  have i: "getInterfaces (\<lambda>b. [to_iface ''can0'']) = to_iface ''can0'' # []" by code_simp
  have g: "getSender (to_iface ''can0'') (easy_initialize (\<lambda>b. [to_iface ''can0'']) (\<lambda>b i. True)
      \<lparr>ez_mSenders = [], ez_mReceivers = [], ez_mInitializedIfaces = [], ez_mHelpers = []\<rparr>) \<noteq> None"
    by (rule easy_senders [THEN iffD2]) simp_all
  have w: "split_spaces ''can0  00000021  [2]  1F 02'' = [''can0'', ''00000021'', ''[2]'', ''1F'', ''02'']"
    "show_hex_upper 8 0x21 = ''00000021''" "concat (map (\<lambda>b. show_hex_upper 2 (unat b)) [0x1F, 0x02 :: u8]) = ''1F02''"
    "line_short ''can0 18EAFFFE [0]''"
    by code_simp+
  have "list_all2 line_says [''can0  00000021  [2]  1F 02''] [(0x21, [0x1F, 0x02])]"
    using w by (simp add: line_says_def)
  from cansend_until_short_line [OF i g this w(4), of "\<lambda>k. True" "[]", THEN conjunct2]
  show ?thesis by (simp add: line_frame_def script_frames_def CanFrame_of_def cf_setData_def)
qed

end
