(* ===== verification/Dissector.thy ===== *)
theory Dissector
  imports Factory Bam StdString
begin

unbundle bit_operations_syntax

text \<open>
  The Wireshark dissector, \<open>wireshark/dissector/packet-j1939.cpp\<close>: the fields it registers, and what it adds to
  the tree of a packet. The items are values; what Wireshark shows of them is its business. Its tables of
  fields and of fragments are a parameter (\<open>epan\<close>).
\<close>

section \<open>Fields and items\<close>

datatype field_type = FT_UINT8 | FT_DOUBLE | FT_STRING

text \<open>\<open>header_field_info\<close>; \<open>fi_status_names\<close> is whether the values have the names of \<open>tts_status\<close>.\<close>

record field_info =
  fi_name :: string
  fi_abbrev :: string
  fi_type :: field_type
  fi_bitmask :: u64
  fi_status_names :: bool

text \<open>The fields of the protocol, and those registered when the database is known, by the number they got.\<close>

datatype hf = HfFrame | HfSpn | HfDtc | HfFmi | HfOc | HfBlockId | HfRegistered int

datatype extent = AtBytes nat nat | AtBits int nat

datatype item_value = VName string | VUInt u32 | VDouble double string | VBits u32 string | VFromBytes

datatype item = Item hf extent item_value "item list"

text \<open>
  The library: registering a field gives its number, a fragment is added to those of its source (the
  buffer, the sequence number, the length and whether more are to come), and the bytes put together, if
  complete, are a buffer of their own.
\<close>

record ('l, 'h) epan =
  ep_register :: "field_info \<Rightarrow> 'l \<Rightarrow> int \<times> 'l"
  ep_fragment :: "bytes option \<Rightarrow> u32 \<Rightarrow> u32 \<Rightarrow> bool \<Rightarrow> 'l \<Rightarrow> 'h \<times> 'l"
  ep_reassembled :: "bytes \<Rightarrow> 'h \<Rightarrow> 'l \<Rightarrow> bytes option \<times> 'l"

record 'l dissector =
  di_factory :: factory
  di_reassembler :: reassembler
  di_ttsNumToHinfoId :: "(u32, int) smap"
  di_spnNumToHinfoId :: "(u32, int) smap"
  di_pgns :: "u32 list"
  di_lib :: 'l

text \<open>The subscript of a \<open>std::map\<close> of numbers: 0 where there is none.\<close>

definition hinfo :: "u32 \<Rightarrow> (u32, int) smap \<Rightarrow> int" where
  "hinfo n m = (case smap_find m n of None \<Rightarrow> 0 | Some i \<Rightarrow> i)"

section \<open>Registering\<close>

definition tts_field :: "nat \<Rightarrow> field_info" where
  "tts_field tts =
     \<lparr>fi_name = ''TTS '' @ show_digits 10 tts @ '' Status'', fi_abbrev = ''j1939.tts.'' @ show_digits 10 tts,
      fi_type = FT_UINT8, fi_bitmask = (if ((tts - 1) mod TTSS_PER_BLOCK) mod 2 = 0 then push_bit 4 0x7 else 0x7),
      fi_status_names = True\<rparr>"

definition spn_field :: "u32 \<Rightarrow> SPN \<Rightarrow> field_info" where
  "spn_field number spn =
     \<lparr>fi_name = mSpecName (mSpec spn), fi_abbrev = ''j1939.spn.'' @ show_digits 10 (unat number),
      fi_type = (case getType spn of SPN_STATUS \<Rightarrow> FT_UINT8 | SPN_NUMERIC \<Rightarrow> FT_DOUBLE | SPN_STRING \<Rightarrow> FT_STRING),
      fi_bitmask = 0, fi_status_names = False\<rparr>"

definition register_tts :: "('l, 'h) epan \<Rightarrow> nat \<Rightarrow> 'l dissector \<Rightarrow> 'l dissector" where
  "register_tts L tts d =
     (let (i, l) = ep_register L (tts_field tts) (di_lib d)
      in d\<lparr>di_lib := l, di_ttsNumToHinfoId := smap_put (of_nat tts) i (di_ttsNumToHinfoId d)\<rparr>)"

definition register_spn :: "('l, 'h) epan \<Rightarrow> u32 \<times> SPN \<Rightarrow> 'l dissector \<Rightarrow> 'l dissector" where
  "register_spn L e d =
     (let (i, l) = ep_register L (spn_field (fst e) (snd e)) (di_lib d)
      in d\<lparr>di_lib := l, di_spnNumToHinfoId := smap_put (fst e) i (di_spnNumToHinfoId d)\<rparr>)"

text \<open>The SPNs of a DM1 are registered as well, which is a generic frame.\<close>

definition register_pgn :: "('l, 'h) epan \<Rightarrow> u32 \<times> jframe \<Rightarrow> 'l dissector \<Rightarrow> 'l dissector" where
  "register_pgn L e d =
     (let d = d\<lparr>di_pgns := di_pgns d @ [fst e]\<rparr>
      in case payload_generic (mBody (snd e)) of
           None \<Rightarrow> d
         | Some g \<Rightarrow> fold (register_spn L) (mSPNs g) d)"

text \<open>\<open>proto_reg_handoff_j1939\<close>, with the frames of the database, if it can be read.\<close>

definition proto_reg_handoff ::
  "('l, 'h) epan \<Rightarrow> generic frame list option \<Rightarrow> 'l dissector \<Rightarrow> 'l dissector" where
  "proto_reg_handoff L ddbb d =
     (case ddbb of
        None \<Rightarrow> d
      | Some frames \<Rightarrow>
          let d = d\<lparr>di_factory := fold (\<lambda>f m. snd (registerFrame (as_frame Generic f) m)) frames (di_factory d)\<rparr>;
              d = fold (register_tts L) [1 ..< NUMBER_OF_BLOCKS * TTSS_PER_BLOCK + 1] d
          in fold (register_pgn L) (di_factory d) d)"

section \<open>What a frame looks like\<close>

definition dissect_spn :: "(u32, int) smap \<Rightarrow> u32 \<times> SPN \<Rightarrow> item" where
  "dissect_spn ids e =
     (case e of (number, spn) \<Rightarrow>
        let offset = getOffset spn; size = unat (getByteSize spn); field = HfRegistered (hinfo number ids)
        in Item HfSpn (AtBytes offset size) (VUInt number)
             [case mSpnData spn of
                SpnNumeric spec v \<Rightarrow>
                  Item field (AtBytes offset size) (VDouble (getFormattedValue spec v) (mUnits spec)) []
              | SpnStatus spec v \<Rightarrow>
                  Item field
                    (AtBits (int offset * 8 + 8 - int (unat (mBitOffset spec)) - int (unat (mBitSize spec)))
                       (unat (mBitSize spec)))
                    (VBits (ucast v) (getValueDescription spec v)) []
              | SpnString off v \<Rightarrow> Item field (AtBytes offset (length v)) VFromBytes []])"

definition dissect_generic_frame :: "(u32, int) smap \<Rightarrow> generic \<Rightarrow> item list" where
  "dissect_generic_frame ids g = map (dissect_spn ids) (mSPNs g)"

definition dissect_tts :: "(u32, int) smap \<Rightarrow> nat \<Rightarrow> item" where
  "dissect_tts ids tts =
     Item (HfRegistered (hinfo (of_nat tts) ids)) (AtBytes ((((tts - 1) mod TTSS_PER_BLOCK) + 1) div 2) 1) VFromBytes []"

definition dissect_fms1_frame :: "(u32, int) smap \<Rightarrow> fms1 \<Rightarrow> item list" where
  "dissect_fms1_frame ids f =
     (let firstTts = unat (of_nat (TTSS_PER_BLOCK * unat (mBlockID f) + 1) :: u8)
      in Item HfBlockId (AtBytes 0 1) VFromBytes []
         # map (dissect_tts ids) [firstTts ..< firstTts + TTSS_PER_BLOCK])"

definition dissect_dtc :: "nat \<Rightarrow> DTC \<Rightarrow> item" where
  "dissect_dtc offset dtc =
     Item HfDtc (AtBytes offset DTC_SIZE) VFromBytes
       [Item HfSpn (AtBits (int offset * 8) 19) (VBits (mSPN dtc) (show_digits 10 (unat (mSPN dtc)))) [],
        Item HfFmi (AtBits (int offset * 8 + 19) 5) (VBits (ucast (mFMI dtc)) (show_digits 10 (unat (mFMI dtc)))) [],
        Item HfOc (AtBits (int offset * 8 + 19 + 5 + 1) 7) (VBits (ucast (mOC dtc)) (show_digits 10 (unat (mOC dtc)))) []]"

fun dissect_dtcs :: "nat \<Rightarrow> DTC list \<Rightarrow> item list" where
  "dissect_dtcs offset [] = []"
| "dissect_dtcs offset (dtc # dtcs) = dissect_dtc offset dtc # dissect_dtcs (offset + DTC_SIZE) dtcs"

definition dissect_dm1_frame :: "dm1 \<Rightarrow> item list" where
  "dissect_dm1_frame m = dissect_dtcs 2 (mDtcs m)"

section \<open>The dissector\<close>

text \<open>\<open>tvb_get_ntohl\<close> and \<open>phton32\<close>.\<close>

definition get_be32 :: "bytes \<Rightarrow> nat \<Rightarrow> u32" where
  "get_be32 src i =
     push_bit 24 (ucast (src ! i)) OR push_bit 16 (ucast (src ! (i + 1)))
     OR push_bit 8 (ucast (src ! (i + 2))) OR ucast (src ! (i + 3))"

definition put_be32 :: "u32 \<Rightarrow> bytes" where
  "put_be32 n = [ucast (drop_bit 24 n), ucast (drop_bit 16 n), ucast (drop_bit 8 n), ucast n]"

text \<open>The identifier, in the bytes the buffer comes from: captured packets and what was put together differ in length.\<close>

definition dissect_can_id :: "bytes \<Rightarrow> u32 option" where
  "dissect_can_id src =
     (if length src \<ge> 20
      then let leCanId = get_be32 src 0x10
           in Some ((drop_bit 24 leCanId OR (drop_bit 8 leCanId AND 0xFF00) OR (push_bit 8 leCanId AND 0xFF0000)
                     OR (push_bit 24 leCanId AND 0xFF000000)) AND 0x1FFFFFFF)
      else if length src \<ge> 4 then Some (get_be32 src 0 AND 0x1FFFFFFF)
      else None)"

definition dissect_real_id :: "tpcm frame \<Rightarrow> u32" where
  "dissect_real_id conn =
     push_bit 26 (ucast (mPriority conn)) OR push_bit 8 (mDataPgn (mBody conn)) OR ucast (mSrcAddr conn)"

text \<open>The fragment a frame is: buffer, sequence number and length; \<open>None\<close> is the early return.\<close>

definition dissect_fragment :: "bytes \<Rightarrow> jframe \<Rightarrow> nat \<Rightarrow> (bytes option \<times> u32 \<times> u32) option res" where
  "dissect_fragment tvb frame expected_size =
     (if mPgn frame = TP_CM_PGN
      then (case cast_tpcm frame of
              None \<Rightarrow> Inl UndefinedBehaviour
            | Some conn \<Rightarrow> Inr (Some (Some (put_be32 (dissect_real_id conn)), 0, 4)))
      else if mPgn frame = TP_DT_PGN
      then (case cast_tpdt frame of
              None \<Rightarrow> Inl UndefinedBehaviour
            | Some dataFrame \<Rightarrow>
                let sq = ucast (mSQ (mBody dataFrame)) :: u32;
                    trailing_bytes = sint (7 * sq - of_nat expected_size)
                in if trailing_bytes \<ge> 7 then Inr None
                   else Inr (Some (Some (drop 1 tvb), sq,
                     if trailing_bytes > 0 then 7 - word_of_int trailing_bytes else 7)))
      else Inr (Some (None, 0, 0)))"

text \<open>
  A frame of the transport protocol: it goes through the reassembler when it is seen for the first time. What
  comes back is the code to return or, to go on, what was put together. A coding exception returns early, any
  other ends the program.
\<close>

definition dissect_transport ::
  "('l, 'h) epan \<Rightarrow> (nat \<Rightarrow> u8) \<Rightarrow> bool \<Rightarrow> bytes \<Rightarrow> bytes \<Rightarrow> jframe \<Rightarrow> 'l dissector
   \<Rightarrow> ((int + bytes option) \<times> 'l dissector) res" where
  "dissect_transport L junk visited tvb src frame d =
     (if src ! 1 = 1 then Inr (Inl 0, d)
      else
        let first =
          (if visited then Inr (Some (None, 0, 0), d)
           else (case handleFrame (getJ1939Frame (di_factory d)) junk frame (di_reassembler d) of
                   Inl (J1939EncodeException msg, r) \<Rightarrow> Inr (None, d\<lparr>di_reassembler := r\<rparr>)
                 | Inl (e, r) \<Rightarrow> Inl e
                 | Inr (expected_size, r) \<Rightarrow>
                     res_bind (dissect_fragment tvb frame expected_size) (\<lambda>x. Inr (x, d\<lparr>di_reassembler := r\<rparr>))))
        in res_bind first (\<lambda>(fragment, d).
             case fragment of
               None \<Rightarrow> Inr (Inl (- 1), d)
             | Some (def_tvb, sq, frag_data_len) \<Rightarrow>
                 let pending = reassembledFramesPending (di_reassembler d);
                     (head, l) = ep_fragment L def_tvb sq frag_data_len (\<not> pending) (di_lib d)
                 in res_bind (if pending
                              then (case dequeueReassembledFrame (di_reassembler d) of
                                      Inl (e, r) \<Rightarrow> Inl e | Inr (f, r) \<Rightarrow> Inr r)
                              else Inr (di_reassembler d)) (\<lambda>r.
                      let (next_tvb, l) = ep_reassembled L tvb head l
                      in Inr (Inr next_tvb, d\<lparr>di_reassembler := r, di_lib := l\<rparr>))))"

text \<open>
  The code returned, the items added and the state. \<open>tvb\<close> is the payload, \<open>src\<close> what it is part of. What was put
  together is dissected in turn, without its first four bytes; \<open>None\<close> would be no end to that.
\<close>

partial_function (option) dissect_J1939 ::
  "('l, 'h) epan \<Rightarrow> (nat \<Rightarrow> u8) \<Rightarrow> bool \<Rightarrow> bytes \<Rightarrow> bytes \<Rightarrow> 'l dissector
   \<Rightarrow> (int \<times> item list \<times> 'l dissector) res option" where
  "dissect_J1939 L junk visited tvb src d =
     (case dissect_can_id src of
        None \<Rightarrow> Some (Inr (- 1, [], d))
      | Some canId \<Rightarrow>
          (case getJ1939Frame (di_factory d) canId tvb of
             Inl e \<Rightarrow> Some (Inl e)
           | Inr None \<Rightarrow> Some (Inr (- 1, [], d))
           | Inr (Some frame) \<Rightarrow>
               (case (if mPgn frame = 0xFECA
                      then (case mBody frame of DM1P m \<Rightarrow> Inr (dissect_dm1_frame m) | _ \<Rightarrow> Inl UndefinedBehaviour)
                      else Inr []) of
                  Inl e \<Rightarrow> Some (Inl e)
                | Inr dtcs \<Rightarrow>
                    let tree = (\<lambda>items. [Item HfFrame (AtBytes 1 2) (VName (mName frame)) (dtcs @ items)])
                    in case payload_generic (mBody frame) of
                         Some g \<Rightarrow>
                           Some (Inr (int (length tvb), tree (dissect_generic_frame (di_spnNumToHinfoId d) g), d))
                       | None \<Rightarrow>
                           (case toBeHandled frame of
                              Inl e \<Rightarrow> Some (Inl e)
                            | Inr transport \<Rightarrow>
                              if transport
                              then
                                (case dissect_transport L junk visited tvb src frame d of
                                   Inl e \<Rightarrow> Some (Inl e)
                                 | Inr (Inl code, d) \<Rightarrow> Some (Inr (code, tree [], d))
                                 | Inr (Inr None, d) \<Rightarrow> Some (Inr (int (length tvb), tree [], d))
                                 | Inr (Inr (Some next_tvb), d) \<Rightarrow>
                                     Option.bind (dissect_J1939 L junk visited (drop 4 next_tvb) next_tvb d)
                                       (\<lambda>nested. case nested of
                                          Inl e \<Rightarrow> Some (Inl e)
                                        | Inr (code, items, d) \<Rightarrow> Some (Inr (int (length tvb), tree items, d))))
                              else if mPgn frame = FMS1_PGN
                                then (case mBody frame of
                                        FMS1P m \<Rightarrow>
                                          Some (Inr (int (length tvb), tree (dissect_fms1_frame (di_ttsNumToHinfoId d) m), d))
                                      | _ \<Rightarrow> Some (Inl UndefinedBehaviour))
                                else Some (Inr (int (length tvb), tree [], d))))))"

end
