(* ===== verification/DissectorProps.thy ===== *)
theory DissectorProps
  imports Dissector TraceRoundtrip
begin

unbundle bit_operations_syntax

text \<open>Whether the dissector shows what the framework decodes.\<close>

section \<open>Tell tales\<close>

text \<open>What Wireshark shows of a field with a bit mask: the bits it selects, from the lowest.\<close>

definition masked_value :: "u64 \<Rightarrow> u8 \<Rightarrow> u64" where
  "masked_value m b = (ucast b AND m) div (m AND - m)"

lemma masked_low: "masked_value 0x7 b = ucast (b AND 0x7)"
proof -
  have "ucast b AND (0x7 :: u64) = ucast (b AND 0x7)" by (simp add: unsigned_and_eq)
  then show ?thesis by (simp add: masked_value_def)
qed

lemma masked_high: "masked_value (push_bit 4 0x7) b = ucast (drop_bit 4 b AND 0x7)"
proof -
  have "(push_bit 4 0x7 :: u64) AND - push_bit 4 0x7 = 2 ^ 4" by simp
  then have "masked_value (push_bit 4 0x7) b = drop_bit 4 (ucast b AND push_bit 4 (mask 3))"
    by (simp only: masked_value_def drop_bit_eq_div) (simp add: mask_eq_exp_minus_1)
  also have "\<dots> = ucast (drop_bit 4 b AND mask 3)"
    by (rule bit_eqI) (auto simp: bit_drop_bit_eq bit_and_iff bit_ucast_iff bit_push_bit_iff bit_mask_iff dest: bit_imp_le_length)
  also have "\<dots> = ucast (drop_bit 4 b AND 0x7)" by (simp add: mask_eq_exp_minus_1)
  finally show ?thesis .
qed

text \<open>Where the decoder puts the statuses of a block.\<close>

lemma fms1_decoded:
  assumes "fms1_decodeData f data = Inr f'"
  shows "length data = 8" "mBlockID f' = data ! 0 AND 0xF" "unat (mBlockID f') < 4"
    "mTTSs f' = fold (fms1_decode_byte data (mBlockID f')) [1 ..< 8] (smap_put (tts1Number (mBlockID f'))
       (TellTale_of (tts1Number (mBlockID f')) (drop_bit 4 (data ! 0) AND 0x7))
       (if mBlockID f \<noteq> mBlockID f' then [] else mTTSs f))"
  using assms by (auto simp: fms1_decodeData_def Let_def split: if_splits)

lemma upt_1_8: "[1 ..< 8] = [1, 2, 3, 4, 5, 6, 7 :: nat]"
  by code_simp

lemma fms1_status_decoded:
  assumes "fms1_decodeData f data = Inr f'" and "i < 15"
  shows "tt_mStatus (getTTS f' (of_nat (15 * unat (mBlockID f') + 1 + i)))
    = (if i mod 2 = 0 then drop_bit 4 (data ! ((i + 1) div 2)) AND 0x7 else data ! ((i + 1) div 2) AND 0x7)"
proof -
  note d = fms1_decoded [OF assms(1)]
  have i: "i \<in> {0, 1, 2, 3, 4, 5, 6, 7, 8, 9, 10, 11, 12, 13, 14}" using assms(2) unfolding insert_iff empty_iff by presburger
  show ?thesis
    using block_cases [OF d(3)] i d(4) unfolding upt_1_8
    by (elim insertE emptyE) (simp_all add: getTTS_def smap_find_put fms1_decode_byte_def Let_def TellTale_of_def
      tts1Number_def ttsLowPartNumber_def ttsHighPartNumber_def)
qed

section \<open>Bits\<close>

text \<open>The value of \<open>n\<close> bits of a buffer, where bit 0 is the highest of the first byte.\<close>

definition buffer_bit :: "bytes \<Rightarrow> nat \<Rightarrow> nat" where
  "buffer_bit data k = of_bool (bit (data ! (k div 8)) (7 - k mod 8))"

definition buffer_bits :: "bytes \<Rightarrow> nat \<Rightarrow> nat \<Rightarrow> nat" where
  "buffer_bits data start n = foldl (\<lambda>v k. 2 * v + buffer_bit data k) 0 [start ..< start + n]"

lemma buffer_bits_Suc: "buffer_bits data start (Suc n) = 2 * buffer_bits data start n + buffer_bit data (start + n)"
  by (simp add: buffer_bits_def)

text \<open>Bits within the byte \<open>i\<close>.\<close>

lemma take_bit_next: "take_bit (Suc n) (drop_bit j m) = 2 * take_bit n (drop_bit (Suc j) m) + of_bool (bit m j)"
  for m :: nat
proof -
  have "drop_bit j m div 2 = drop_bit (Suc j) m" by (simp add: drop_bit_Suc drop_bit_half)
  moreover have "drop_bit j m mod 2 = of_bool (bit m j)" by (simp add: bit_iff_odd_drop_bit mod_2_eq_odd)
  ultimately show ?thesis by (simp add: take_bit_Suc)
qed

lemma buffer_bits_byte:
  "s + n \<le> 8 \<Longrightarrow> buffer_bits data (8 * i + s) n = take_bit n (drop_bit (8 - (s + n)) (unat (data ! i)))"
proof (induction n)
  case 0
  then show ?case by (simp add: buffer_bits_def)
next
  case (Suc n)
  then have j: "8 - (s + n) = Suc (8 - (s + Suc n))" by simp
  have "s + n < 8" using Suc.prems by simp
  then have "(8 * i + (s + n)) div 8 = i" "(8 * i + (s + n)) mod 8 = s + n" by simp_all
  then have "buffer_bit data (8 * i + s + n) = of_bool (bit (unat (data ! i)) (8 - (s + Suc n)))"
    by (simp add: buffer_bit_def bit_unsigned_iff add.assoc)
  with Suc show ?case by (simp add: buffer_bits_Suc j take_bit_next)
qed

lemma status_bits:
  "unat (drop_bit k (b :: u8) AND drop_bit (8 - n) 0xFF) = take_bit n (drop_bit k (unat b))" if "n \<le> 8"
proof -
  have "(drop_bit (8 - n) 0xFF :: u8) = mask n"
    by (rule bit_eqI) (use that in \<open>simp add: bit_status_mask bit_mask_iff\<close>)
  moreover have "take_bit 8 (unat b) = unat b" using unsigned_less [of b] by (intro take_bit_nat_eq_self) simp
  ultimately show ?thesis
    by (simp add: take_bit_eq_mask [symmetric] unsigned_take_bit_eq unsigned_drop_bit_eq)
qed

lemmas byte_bits = bit_drop_bit_eq bit_and_iff bit_or_iff bit_ucast_iff bit_push_bit_iff bit_mask_iff

text \<open>A word of four bytes, bit by bit.\<close>

lemma bit_be32:
  fixes a b c d :: u8
  shows "bit (push_bit 24 (ucast a) OR push_bit 16 (ucast b) OR push_bit 8 (ucast c) OR ucast d :: u32) k \<longleftrightarrow>
    (if k < 8 then bit d k else if k < 16 then bit c (k - 8) else if k < 24 then bit b (k - 16)
     else k < 32 \<and> bit a (k - 24))"
proof -
  consider "k < 8" | "8 \<le> k" "k < 16" | "16 \<le> k" "k < 24" | "24 \<le> k" by linarith
  then show ?thesis
    by cases (auto simp: byte_bits dest: bit_imp_le_length)
qed

lemma swapped_be32:
  fixes a b c d :: u8
  assumes w: "w = (push_bit 24 (ucast a) OR push_bit 16 (ucast b) OR push_bit 8 (ucast c) OR ucast d :: u32)"
  shows "drop_bit 24 w OR (drop_bit 8 w AND 0xFF00) OR (push_bit 8 w AND 0xFF0000) OR (push_bit 24 w AND 0xFF000000)
     = push_bit 24 (ucast d) OR push_bit 16 (ucast c) OR push_bit 8 (ucast b) OR ucast a"
proof (rule bit_eqI)
  fix k :: nat
  have m: "(0xFF00 :: u32) = push_bit 8 (mask 8)" "(0xFF0000 :: u32) = push_bit 16 (mask 8)"
    "(0xFF000000 :: u32) = push_bit 24 (mask 8)" by (simp_all add: mask_eq_exp_minus_1)
  have bw: "bit w j \<longleftrightarrow> (if j < 8 then bit d j else if j < 16 then bit c (j - 8) else if j < 24 then bit b (j - 16)
     else j < 32 \<and> bit a (j - 24))" for j
    unfolding w by (rule bit_be32)
  consider "k < 8" | "8 \<le> k" "k < 16" | "16 \<le> k" "k < 24" | "24 \<le> k" by linarith
  then show "bit (drop_bit 24 w OR (drop_bit 8 w AND 0xFF00) OR (push_bit 8 w AND 0xFF0000)
      OR (push_bit 24 w AND 0xFF000000)) k
     \<longleftrightarrow> bit (push_bit 24 (ucast d) OR push_bit 16 (ucast c) OR push_bit 8 (ucast b) OR ucast a :: u32) k"
    unfolding m bit_be32
    by cases (auto simp: byte_bits bw dest: bit_imp_le_length)
qed

lemma be32_put: "get_be32 (put_be32 n @ rest) 0 = n"
proof (rule bit_eqI)
  fix k
  have "bit (get_be32 (put_be32 n @ rest) 0) k \<longleftrightarrow> (if k < 8 then bit (ucast n :: u8) k
      else if k < 16 then bit (ucast (drop_bit 8 n) :: u8) (k - 8) else if k < 24 then bit (ucast (drop_bit 16 n) :: u8) (k - 16)
      else k < 32 \<and> bit (ucast (drop_bit 24 n) :: u8) (k - 24))"
    by (simp add: get_be32_def put_be32_def bit_be32)
  also have "\<dots> \<longleftrightarrow> bit n k" by (auto simp: byte_bits dest: bit_imp_le_length)
  finally show "bit (get_be32 (put_be32 n @ rest) 0) k \<longleftrightarrow> bit n k" .
qed

text \<open>The identifier in a packet that TRCToCap writes.\<close>

lemma cap_packet_identified:
  assumes "cf_mId frame < 0x20000000" and "length (cf_mData frame) \<le> 8"
  shows "dissect_can_id (snd (snd (cap_packet (t, frame)))) = Some (cf_mId frame)"
proof -
  define i where "i = cf_mId frame"
  define a :: u8 where "a = ucast (drop_bit 24 i AND 0xFF) OR (if cf_mExtendedFormat frame then 0x80 else 0)"
  define b :: u8 where "b = ucast (drop_bit 16 i AND 0xFF)"
  define c :: u8 where "c = ucast (drop_bit 8 i AND 0xFF)"
  define d :: u8 where "d = ucast (i AND 0xFF)"
  obtain rest where s: "snd (snd (cap_packet (t, frame))) = [a, b, c, d] @ rest" "length rest \<le> 12"
    using assms(2) by (auto simp: cap_packet_def i_def a_def b_def c_def d_def)
  have m: "(0xFF :: u32) = mask 8" "(0x1FFFFFFF :: u32) = mask 29" "(0x80 :: u8) = push_bit 7 (mask 1)"
    by (simp_all add: mask_eq_exp_minus_1)
  have i: "bit i k \<Longrightarrow> k < 29" for k using assms(1) word_bit_bound [of i 29 k] by (simp add: i_def)
  have top: "k < 5 \<Longrightarrow> \<not> bit (0x80 :: u8) k" for k unfolding m(3) bit_push_bit_iff by simp
  have a: "k < 5 \<Longrightarrow> bit a k \<longleftrightarrow> bit i (24 + k)" for k
    unfolding a_def m(1) using top [of k] by (auto simp: byte_bits)
  have b: "bit b k \<longleftrightarrow> k < 8 \<and> bit i (16 + k)" and c: "bit c k \<longleftrightarrow> k < 8 \<and> bit i (8 + k)"
    and d: "bit d k \<longleftrightarrow> k < 8 \<and> bit i k" for k
    unfolding b_def c_def d_def m(1) by (auto simp: byte_bits)
  have "get_be32 (snd (snd (cap_packet (t, frame)))) 0 AND 0x1FFFFFFF = i"
  proof (rule bit_eqI)
    fix k :: nat
    have "bit (get_be32 (snd (snd (cap_packet (t, frame)))) 0 AND 0x1FFFFFFF) k \<longleftrightarrow> k < 29 \<and>
        (if k < 8 then bit d k else if k < 16 then bit c (k - 8) else if k < 24 then bit b (k - 16) else bit a (k - 24))"
      unfolding s(1) get_be32_def m(2) bit_and_iff bit_mask_iff by (auto simp: bit_be32)
    also have "\<dots> \<longleftrightarrow> bit i k" using i [of k] a [of "k - 24"] by (auto simp: b c d)
    finally show "bit (get_be32 (snd (snd (cap_packet (t, frame)))) 0 AND 0x1FFFFFFF) k \<longleftrightarrow> bit i k" .
  qed
  then show ?thesis using s by (simp add: dissect_can_id_def i_def)
qed

text \<open>The payload of a packet, dissected: a generic frame.\<close>

lemma cap_packet_length: "length (snd (snd (cap_packet (t, frame)))) = 8 + length (cf_mData frame)"
  by (simp add: cap_packet_def)

lemma cap_packet_payload: "drop 8 (snd (snd (cap_packet (t, frame)))) = cf_mData frame"
  by (simp add: cap_packet_def)

lemma dissect_generic:
  assumes "dissect_can_id src = Some i" and "getJ1939Frame (di_factory d) i tvb = Inr (Some f)"
    and "payload_generic (mBody f) = Some g" and "mPgn f \<noteq> 0xFECA"
  shows "dissect_J1939 L junk visited tvb src d = Some (Inr (int (length tvb),
    [Item HfFrame (AtBytes 1 2) (VName (mName f)) (dissect_generic_frame (di_spnNumToHinfoId d) g)], d))"
  by (subst dissect_J1939.simps) (simp add: assms Let_def)

section \<open>Properties\<close>

text \<open>C37: The dissector shows the tell tales as the framework decodes them: the item of each is a byte of the frame, and
  the bits that the mask of its field selects in that byte are the status that the decoded frame has for it.\<close>

theorem tell_tales_shown:
  assumes "fms1_decodeData f data = Inr f'" and "i < 15"
  defines "tts \<equiv> 15 * unat (mBlockID f') + 1 + i"
  shows "\<exists>k < length data. dissect_fms1_frame ids f' ! (i + 1) = Item (HfRegistered (hinfo (of_nat tts) ids)) (AtBytes k 1) VFromBytes []
    \<and> masked_value (fi_bitmask (tts_field tts)) (data ! k) = ucast (tt_mStatus (getTTS f' (of_nat tts)))"
proof (intro exI conjI)
  note d = fms1_decoded [OF assms(1)]
  have p: "(tts - 1) mod 15 = i" using assms(2) by (simp add: tts_def)
  show "(i + 1) div 2 < length data" using assms(2) d(1) by simp
  have "15 * unat (mBlockID f') + 1 < 256" using d(3) by simp
  then have first: "unat (of_nat (15 * unat (mBlockID f') + 1) :: u8) = 15 * unat (mBlockID f') + 1"
    by (simp only: unsigned_of_nat) (simp add: take_bit_nat_eq_self)
  have "dissect_fms1_frame ids f' ! (i + 1) = dissect_tts ids tts"
    using assms(2) by (simp only: dissect_fms1_frame_def Let_def first) (simp add: tts_def del: upt_Suc)
  then show "dissect_fms1_frame ids f' ! (i + 1)
      = Item (HfRegistered (hinfo (of_nat tts) ids)) (AtBytes ((i + 1) div 2) 1) VFromBytes []"
    by (simp only: dissect_tts_def p)
  show "masked_value (fi_bitmask (tts_field tts)) (data ! ((i + 1) div 2)) = ucast (tt_mStatus (getTTS f' (of_nat tts)))"
    unfolding tts_def [symmetric] fms1_status_decoded [OF assms(1,2), folded tts_def]
    using p by (simp add: tts_field_def masked_low masked_high [simplified])
qed

theorem tell_tales_shown_witness:
  "\<exists>f' k. fms1_decodeData \<lparr>mBlockID = 4, mTTSs = []\<rparr> [0x91, 0xA9, 0xFF, 0xFF, 0xFF, 0xFF, 0xFF, 0xFF] = Inr f'
     \<and> masked_value (fi_bitmask (tts_field (15 * unat (mBlockID f') + 1 + 1))) ([0x91, 0xA9, 0xFF, 0xFF, 0xFF, 0xFF, 0xFF, 0xFF] ! k)
       = ucast (tt_mStatus (getTTS f' (of_nat (15 * unat (mBlockID f') + 1 + 1))))"
proof -
  have "is_ok (fms1_decodeData \<lparr>mBlockID = 4, mTTSs = []\<rparr> [0x91, 0xA9, 0xFF, 0xFF, 0xFF, 0xFF, 0xFF, 0xFF])" by code_simp
  then obtain f' where f': "fms1_decodeData \<lparr>mBlockID = 4, mTTSs = []\<rparr> [0x91, 0xA9, 0xFF, 0xFF, 0xFF, 0xFF, 0xFF, 0xFF] = Inr f'"
    by (auto simp: is_ok_iff)
  from tell_tales_shown [OF f', of 1 "[]"] f' show ?thesis by auto
qed

text \<open>The bits that the dissector marks for a status are those it has in the frame, read from the highest down, and the
  value it shows is their value.\<close>

theorem status_bits_shown:
  assumes "mSpnData s = SpnStatus spec v0" and "status_decode spec v0 (drop (getOffset s) data) = Inr v"
    and "getOffset s < length data"
  shows "\<exists>field desc start n. dissect_spn ids (number, s\<lparr>mSpnData := SpnStatus spec v\<rparr>)
      = Item HfSpn (AtBytes (getOffset s) 1) (VUInt number) [Item field (AtBits (int start) n) (VBits (ucast v) desc) []]
    \<and> buffer_bits data start n = unat v"
proof -
  let ?o = "unat (mBitOffset spec)" and ?n = "unat (mBitSize spec)"
  have ok: "\<not> status_format_bad spec" and v: "v = drop_bit ?o (data ! getOffset s) AND drop_bit (8 - ?n) 0xFF"
    using assms(2,3) by (auto simp: status_decode_def hd_drop_conv_nth split: if_splits)
  from ok have on: "?o + ?n \<le> 8" by (simp add: status_format_bad_def)
  let ?start = "8 * getOffset s + (8 - (?o + ?n))"
  have "int (8 - (?o + ?n)) = 8 - uint (mBitOffset spec) - uint (mBitSize spec)" using on by (simp add: of_nat_diff)
  moreover have "getOffset (s\<lparr>mSpnData := SpnStatus spec v\<rparr>) = getOffset s" using assms(1) by (simp add: getOffset_def)
  ultimately have "dissect_spn ids (number, s\<lparr>mSpnData := SpnStatus spec v\<rparr>) = Item HfSpn (AtBytes (getOffset s) 1) (VUInt number)
      [Item (HfRegistered (hinfo number ids)) (AtBits (int ?start) ?n) (VBits (ucast v) (getValueDescription spec v)) []]"
    by (simp add: dissect_spn_def getByteSize_def Let_def)
  moreover have "buffer_bits data ?start ?n = unat v"
    using on status_bits [of ?n ?o "data ! getOffset s"] by (subst buffer_bits_byte) (simp_all add: v)
  ultimately show ?thesis by blast
qed

theorem status_bits_shown_witness:
  "\<exists>start n. buffer_bits [0xFF, 0xD7, 0xFF] start n = unat (1 :: u8)"
proof -
  let ?s = "\<lparr>mSpecId = 9, mSpec = \<lparr>mSPNNumber = 1821, mSpecName = ''Door'', mSpecOffset = 1\<rparr>,
     mSpnData = SpnStatus \<lparr>mBitOffset = 4, mBitSize = 2, mValueToDesc = []\<rparr> 0\<rparr>"
  have "status_decode \<lparr>mBitOffset = 4, mBitSize = 2, mValueToDesc = []\<rparr> 0 (drop (getOffset ?s) [0xFF, 0xD7, 0xFF]) = Inr 1"
    by code_simp
  from status_bits_shown [OF _ this, of "[]" 1821] show ?thesis by (auto simp: getOffset_def)
qed

text \<open>C38: For a message put together the dissector reads the identifier back that the announcement stands for, which is the
  one the reassembler decodes it with, only while it has less than sixteen bytes; from there on it takes four
  bytes of the data for the identifier.\<close>

theorem reassembled_identifier:
  assumes "mPriority conn < 8" and "mDataPgn (mBody conn) < 0x40000"
  shows "dissect_can_id (put_be32 (dissect_real_id conn) @ data) = Some
    (if length data < 16 then new_id conn
     else (push_bit 24 (ucast (data ! 15)) OR push_bit 16 (ucast (data ! 14)) OR push_bit 8 (ucast (data ! 13))
           OR ucast (data ! 12)) AND 0x1FFFFFFF)"
proof -
  have p: "(7 :: u8) = mask 3" by (simp add: mask_eq_exp_minus_1)
  have "mPriority conn AND 7 = mPriority conn" unfolding p using assms(1) by (simp add: less_mask_eq)
  moreover have "(0xFF :: u8) = - 1" by simp
  ultimately have same: "dissect_real_id conn = new_id conn"
    by (simp only: dissect_real_id_def new_id_def and.right_neutral)
  have b: "bit (mPriority conn) k \<Longrightarrow> k < 3" "bit (mDataPgn (mBody conn)) k \<Longrightarrow> k < 18" for k
    using assms word_bit_bound [of _ 3] word_bit_bound [of _ 18] by simp_all
  have m: "(0x1FFFFFFF :: u32) = mask 29" by (simp add: mask_eq_exp_minus_1)
  have cut: "new_id conn AND 0x1FFFFFFF = new_id conn"
    unfolding same [symmetric] dissect_real_id_def m
    by (rule bit_eqI) (use b in \<open>fastforce simp: byte_bits dest: bit_imp_le_length\<close>)
  have l: "length (put_be32 n) = 4" for n by (simp add: put_be32_def)
  show ?thesis
  proof (cases "length data < 16")
    case True
    then show ?thesis by (simp add: dissect_can_id_def l same be32_put cut)
  next
    case False
    have n: "(put_be32 n @ data) ! (16 + k) = data ! (12 + k)" for n k by (simp add: nth_append l)
    have g: "get_be32 (put_be32 (new_id conn) @ data) 0x10 = push_bit 24 (ucast (data ! 12)) OR push_bit 16 (ucast (data ! 13))
        OR push_bit 8 (ucast (data ! 14)) OR ucast (data ! 15)"
      using n [of _ 0] n [of _ 1] n [of _ 2] n [of _ 3] by (simp add: get_be32_def)
    show ?thesis using False swapped_be32 [OF g] by (simp add: dissect_can_id_def l same Let_def)
  qed
qed

theorem reassembled_identifier_witness:
  "dissect_can_id (put_be32 (dissect_real_id TPCMFrame) @ replicate 16 1) = Some 0x01010101"
  using reassembled_identifier [of TPCMFrame "replicate 16 1"]
  by (simp add: TPCMFrame_def tpcm_init_def nth_replicate)

text \<open>C36: A frame of the database with at most 8 bytes, other than a DM1, that is sent, recorded with TRCDumper among up to
  30 million frames of 1 to 8 bytes and converted with TRCToCap is shown by the dissector with the name it has in the
  database and with every SPN as it was sent.\<close>

theorem sent_frame_shown:
  assumes "factory_delivers (di_factory d) f f'" and "payload_generic (mBody f) = Some g" and "mPgn f \<noteq> 0xFECA"
    and "jframe_encode f (jframe_getDataLength f) = Inr (i, bs, n)"
    and "list_all trc_sized fs" and "length fs \<le> 30000000" and "input \<noteq> []" and "output \<noteq> []"
    and "k < length fs" and "fst (fs ! k) = CanFrame_of True i (take n bs)" and "n \<le> 8"
  shows "\<exists>r packets. dumper_run fs dumper_start = Inr r
    \<and> trc_to_cap ext input output (tw_mFileStream (du_writer r)) False True = Some (Inr (0, packets)) \<and> length packets = length fs
    \<and> dissect_J1939 L junk visited (drop 8 (snd (snd (packets ! k)))) (snd (snd (packets ! k))) d
      = Some (Inr (int n, [Item HfFrame (AtBytes 1 2) (VName (mName f')) (dissect_generic_frame (di_spnNumToHinfoId d) g)], d))"
proof -
  let ?frame = "CanFrame_of True i (take n bs)"
  let ?time = "trc_reread (ts_minus (snd (fs ! k)) (snd (hd fs)))"
  let ?packets = "map (\<lambda>(f, ts). cap_packet (trc_reread (ts_minus ts (snd (hd fs))), f\<lparr>cf_mExtendedFormat := True\<rparr>)) fs"
  from registry.delivered_encodes [OF assms(1)] assms(4)
  have i: "i = getIdentifier f" and n: "length bs = n" by auto
  have "mPriority f AND 7 = mPriority f" using assms(1) by (simp add: factory_delivers_def hdr_ok_def)
  then have "i < 0x20000000" using getIdentifier_less [of f] by (simp add: i)
  moreover have "cf_mId ?frame = i" "cf_mData ?frame = take n bs" "?frame\<lparr>cf_mExtendedFormat := True\<rparr> = ?frame"
    using assms(11) by (simp_all add: CanFrame_of_def cf_setData_def)
  moreover have "?packets ! k = cap_packet (?time, ?frame\<lparr>cf_mExtendedFormat := True\<rparr>)"
    using assms(9,10) by (simp add: split_beta)
  ultimately have p: "dissect_can_id (snd (snd (?packets ! k))) = Some i" "drop 8 (snd (snd (?packets ! k))) = take n bs"
    using cap_packet_identified [of ?frame ?time] assms(11) by (simp_all add: cap_packet_payload)
  have f': "getJ1939Frame (di_factory d) i (take n bs) = Inr (Some f')"
    using registry.get_encoded [OF assms(1,4)] .
  have "payload_generic (mBody f') = Some g" "mPgn f' \<noteq> 0xFECA"
    using assms(1-3) by (auto simp: factory_delivers_def split: option.splits)
  from dissect_generic [where L = L and junk = junk and visited = visited, OF p(1) f' this]
  have "dissect_J1939 L junk visited (drop 8 (snd (snd (?packets ! k)))) (snd (snd (?packets ! k))) d
      = Some (Inr (int n, [Item HfFrame (AtBytes 1 2) (VName (mName f')) (dissect_generic_frame (di_spnNumToHinfoId d) g)], d))"
    unfolding p(2) by (simp add: n)
  moreover have "fs \<noteq> []" using assms(9) by auto
  ultimately show ?thesis using recorded_packets [OF assms(5) \<open>fs \<noteq> []\<close> assms(6-8), of ext] by fastforce
qed

text \<open>A frame of lamps on a library that does nothing.\<close>

definition lamp_frame :: jframe where
  "lamp_frame = \<lparr>mPriority = 6, mSrcAddr = 0x21, mPgn = 0xFEF1, mDstAddr = 0, mName = ''Lamps'', mBody = Generic sample_lamps\<rparr>"

definition idle_epan :: "(unit, unit) epan" where
  "idle_epan = \<lparr>ep_register = (\<lambda>f l. (0, l)), ep_fragment = (\<lambda>b s n more l. ((), l)), ep_reassembled = (\<lambda>b h l. (None, l))\<rparr>"

definition lamp_dissector :: "unit dissector" where
  "lamp_dissector = \<lparr>di_factory = [(0xFEF1, lamp_frame)], di_reassembler = BamReassembler, di_ttsNumToHinfoId = [],
     di_spnNumToHinfoId = [], di_pgns = [], di_lib = ()\<rparr>"

lemma lamp_frame_delivers: "factory_delivers (di_factory lamp_dissector) lamp_frame lamp_frame"
proof -
  have "generic_takes sample_lamps sample_lamps"
    by (simp add: generic_takes_def)
  moreover have "received lamp_frame lamp_frame (Generic sample_lamps) = lamp_frame"
    by (simp add: lamp_frame_def received_def getPDUFormatGroup_def getPDUFormat_def)
  ultimately show ?thesis
    using sample_lamps_valid(1)
    by (simp add: factory_delivers_def lamp_dissector_def smap_find_def)
      (simp add: lamp_frame_def hdr_ok_def pgn_decodable_def push_bit_eq_mult getPDUFormatGroup_def getPDUFormat_def)
qed

theorem sent_frame_shown_witness:
  "\<exists>bs r packets. jframe_encode lamp_frame 2 = Inr (getIdentifier lamp_frame, bs, 2)
    \<and> dumper_run [(CanFrame_of True (getIdentifier lamp_frame) bs, TimeStamp 7 250000)] dumper_start = Inr r
    \<and> trc_to_cap False ''a.trc'' ''a.cap'' (tw_mFileStream (du_writer r)) False True = Some (Inr (0, packets))
    \<and> dissect_J1939 idle_epan (\<lambda>i. 0) False (drop 8 (snd (snd (hd packets)))) (snd (snd (hd packets))) lamp_dissector
      = Some (Inr (2, [Item HfFrame (AtBytes 1 2) (VName ''Lamps'') (dissect_generic_frame [] sample_lamps)], lamp_dissector))"
proof -
  have l: "jframe_getDataLength lamp_frame = 2" using sample_lamps_valid(2) by (simp add: lamp_frame_def jframe_getDataLength_def)
  from registry.delivered_encodes [OF lamp_frame_delivers] obtain bs where
    e: "jframe_encode lamp_frame (jframe_getDataLength lamp_frame) = Inr (getIdentifier lamp_frame, bs, 2)" and n: "length bs = 2"
    by (auto simp: l)
  let ?fs = "[(CanFrame_of True (getIdentifier lamp_frame) bs, TimeStamp 7 250000)]"
  have g: "payload_generic (mBody lamp_frame) = Some sample_lamps" "mPgn lamp_frame \<noteq> 0xFECA" "mName lamp_frame = ''Lamps''"
    by (simp_all add: lamp_frame_def)
  have "list_all trc_sized ?fs" using n by (simp add: trc_sized_def CanFrame_of_def cf_setData_def)
  from sent_frame_shown [OF lamp_frame_delivers g(1,2) e this, of "''a.trc''" "''a.cap''" 0 False idle_epan "\<lambda>i. 0" False] n
  obtain r packets where "dumper_run ?fs dumper_start = Inr r"
    "trc_to_cap False ''a.trc'' ''a.cap'' (tw_mFileStream (du_writer r)) False True = Some (Inr (0, packets))" "length packets = 1"
    "dissect_J1939 idle_epan (\<lambda>i. 0) False (drop 8 (snd (snd (packets ! 0)))) (snd (snd (packets ! 0))) lamp_dissector
      = Some (Inr (2, [Item HfFrame (AtBytes 1 2) (VName ''Lamps'') (dissect_generic_frame [] sample_lamps)], lamp_dissector))"
    by (auto simp: g(3) lamp_dissector_def)
  with e l show ?thesis by (cases packets) auto
qed

end
