(* ===== verification/Sockets.thy ===== *)
theory Sockets
  imports CanEasy "HOL-Library.State_Monad" "HOL-Library.Sublist" "HOL-Library.Signed_Division"
begin

unbundle bit_operations_syntax

text \<open>
  The socket back end: \<open>CAN/Backends/Sockets/SocketCanHelper.cpp\<close> brings interfaces up and down and opens their
  sockets, \<open>SocketCanReceiver.cpp\<close> takes received messages with their time stamps. The operating system is a
  parameter; what was called and what was answered is kept in order.
\<close>

section \<open>The operating system\<close>

datatype sys_call =
    Popen string
  | RealPath string
  | System string
  | OpenSocket
  | GetIfAddrs
  | SetTimestamping int
  | IfIndex int string
  | BindSocket int int
  | SetRecvOwnMsgs int
  | CloseSocket int

type_synonym calls = "(sys_call \<times> int) list"

text \<open>
  \<open>kn_answer\<close> is the result of a call after those made so far; for \<open>popen\<close> it is negative on failure and the
  number of lines of output otherwise. \<open>kn_realpath\<close> is what the buffer holds afterwards, \<open>kn_index\<close> the index
  left in the request, \<open>kn_ifaddrs\<close> the names of the list of addresses, one for every address.
\<close>

record kernel =
  kn_answer :: "calls \<Rightarrow> sys_call \<Rightarrow> int"
  kn_realpath :: "calls \<Rightarrow> string \<Rightarrow> string"
  kn_index :: "calls \<Rightarrow> string \<Rightarrow> int"
  kn_ifaddrs :: "calls \<Rightarrow> string list"

type_synonym 'a os = "(calls, 'a) state"

definition sys :: "kernel \<Rightarrow> sys_call \<Rightarrow> int os" where
  "sys K c = State (\<lambda>past. (kn_answer K past c, past @ [(c, kn_answer K past c)]))"

text \<open>What \<open>snprintf\<close> leaves in a buffer of 1024 characters; \<open>%s\<close> ends at a NUL.\<close>

definition c_text :: "string \<Rightarrow> string" where
  "c_text s = takeWhile (\<lambda>c. c \<noteq> CHR 0x00) s"

definition command :: "string \<Rightarrow> string" where
  "command s = take 1023 s"

text \<open>\<open>%d\<close>, applied to an unsigned number.\<close>

definition show_signed :: "u32 \<Rightarrow> string" where
  "show_signed n = (if sint n < 0 then ''-'' @ show_digits 10 (nat (- sint n)) else show_digits 10 (nat (sint n)))"

text \<open>The commands to ask about and to set up an interface.\<close>

definition GET_IFACE_STAT_CMD :: "string \<Rightarrow> string" where
  "GET_IFACE_STAT_CMD interface = command (''ip link show '' @ c_text interface @ '' up'')"

definition SET_IFACE_UP_CMD :: "string \<Rightarrow> string" where
  "SET_IFACE_UP_CMD interface = command (''ip link set '' @ c_text interface @ '' up'')"

definition SET_IFACE_DOWN_CMD :: "string \<Rightarrow> string" where
  "SET_IFACE_DOWN_CMD interface = command (''ip link set '' @ c_text interface @ '' down'')"

definition SET_IFACE_BITRATE_CMD :: "string \<Rightarrow> u32 \<Rightarrow> string" where
  "SET_IFACE_BITRATE_CMD interface bitrate =
     command (''ip link set '' @ c_text interface @ '' type can bitrate '' @ show_signed bitrate)"

definition sys_class_path :: "string \<Rightarrow> string" where
  "sys_class_path interface = c_text (''/sys/class/net/'' @ interface)"

section \<open>SocketCanHelper\<close>

record socket_helper =
  sh_mSock :: int
  sh_mTimeStamp :: bool
  sh_mInterface :: string

definition SocketCanHelper :: socket_helper where
  "SocketCanHelper = \<lparr>sh_mSock = - 1, sh_mTimeStamp = True, sh_mInterface = []\<rparr>"

definition isVirtual :: "kernel \<Rightarrow> socket_helper \<Rightarrow> bool os" where
  "isVirtual K h = do {
     let path = sys_class_path (sh_mInterface h);
     realPath \<leftarrow> State (\<lambda>past. (kn_realpath K past path, past @ [(RealPath path, 0)]));
     State_Monad.return (sublist ''virtual'' (c_text realPath))
   }"

text \<open>The pipe is never closed.\<close>

definition isUp :: "kernel \<Rightarrow> socket_helper \<Rightarrow> bool os" where
  "isUp K h = do {
     lines \<leftarrow> sys K (Popen (GET_IFACE_STAT_CMD (sh_mInterface h)));
     State_Monad.return (lines > 0)
   }"

definition bringUp :: "kernel \<Rightarrow> socket_helper \<Rightarrow> bool os" where
  "bringUp K h = do {
     ret \<leftarrow> sys K (System (SET_IFACE_UP_CMD (sh_mInterface h)));
     State_Monad.return (ret = 0)
   }"

definition bringDown :: "kernel \<Rightarrow> socket_helper \<Rightarrow> bool os" where
  "bringDown K h = do {
     ret \<leftarrow> sys K (System (SET_IFACE_DOWN_CMD (sh_mInterface h)));
     State_Monad.return (ret = 0)
   }"

definition setBitrate :: "kernel \<Rightarrow> u32 \<Rightarrow> socket_helper \<Rightarrow> bool os" where
  "setBitrate K bitrate h = do {
     ret \<leftarrow> sys K (System (SET_IFACE_BITRATE_CMD (sh_mInterface h) bitrate));
     State_Monad.return (ret = 0)
   }"

text \<open>Whether the interface is up in the end, as far as is known.\<close>

definition socket_link :: "kernel \<Rightarrow> u32 \<Rightarrow> socket_helper \<Rightarrow> bool os" where
  "socket_link K bitrate h = do {
     up \<leftarrow> isUp K h;
     if up then State_Monad.return True
     else do {
       virtual \<leftarrow> isVirtual K h;
       ready \<leftarrow> (if virtual then State_Monad.return True else setBitrate K bitrate h);
       if \<not> ready then State_Monad.return False else bringUp K h
     }
   }"

text \<open>Closing a socket on the way out.\<close>

definition socket_abandon :: "kernel \<Rightarrow> socket_helper \<Rightarrow> (bool \<times> socket_helper) os" where
  "socket_abandon K h = do {
     _ \<leftarrow> sys K (CloseSocket (sh_mSock h));
     State_Monad.return (False, h\<lparr>sh_mSock := - 1\<rparr>)
   }"

definition socket_open :: "kernel \<Rightarrow> string \<Rightarrow> socket_helper \<Rightarrow> (bool \<times> socket_helper) os" where
  "socket_open K interface h = do {
     sock \<leftarrow> sys K OpenSocket;
     let h = h\<lparr>sh_mSock := sock\<rparr>;
     if sock < 0 then State_Monad.return (False, h)
     else do {
       stamps \<leftarrow> sys K (SetTimestamping sock);
       let h = (if stamps < 0 then h\<lparr>sh_mTimeStamp := False\<rparr> else h);
       let name = take 15 (c_text interface);
       index \<leftarrow> State (\<lambda>past. (kn_index K past name, past));
       found \<leftarrow> sys K (IfIndex sock name);
       if found < 0 then socket_abandon K h
       else do {
         bound \<leftarrow> sys K (BindSocket sock index);
         if bound < 0 then socket_abandon K h
         else do {
           own \<leftarrow> sys K (SetRecvOwnMsgs sock);
           if own < 0 then socket_abandon K h
           else State_Monad.return (True, h\<lparr>sh_mInterface := interface\<rparr>)
         }
       }
     }
   }"

definition socket_initialize ::
  "kernel \<Rightarrow> string \<Rightarrow> u32 \<Rightarrow> socket_helper \<Rightarrow> (bool \<times> socket_helper) os" where
  "socket_initialize K interface bitrate h = do {
     let h = h\<lparr>sh_mInterface := interface\<rparr>;
     ready \<leftarrow> socket_link K bitrate h;
     if \<not> ready then State_Monad.return (False, h) else socket_open K interface h
   }"

definition socket_finalize :: "kernel \<Rightarrow> socket_helper \<Rightarrow> socket_helper os" where
  "socket_finalize K h = do {
     h \<leftarrow> (if sh_mSock h \<noteq> - 1
           then do {
             _ \<leftarrow> sys K (CloseSocket (sh_mSock h));
             State_Monad.return (h\<lparr>sh_mSock := - 1\<rparr>)
           }
           else State_Monad.return h);
     _ \<leftarrow> bringDown K h;
     State_Monad.return h
   }"

definition socket_initialized :: "kernel \<Rightarrow> socket_helper \<Rightarrow> bool os" where
  "socket_initialized K h = isUp K h"

text \<open>
  The names to which a socket can be bound, as a set in order. The answers of \<open>getifaddrs\<close> and of the request
  for the index are not looked at: without addresses the list is not initialised.
\<close>

fun socket_try_names :: "kernel \<Rightarrow> int \<Rightarrow> string list \<Rightarrow> iface list \<Rightarrow> iface list res os" where
  "socket_try_names K sock [] found = State_Monad.return (Inr found)"
| "socket_try_names K sock (name # names) found =
     (if length name \<ge> 16 then State_Monad.return (Inl UndefinedBehaviour)
      else do {
        index \<leftarrow> State (\<lambda>past. (kn_index K past name, past));
        _ \<leftarrow> sys K (IfIndex sock name);
        bound \<leftarrow> sys K (BindSocket sock index);
        socket_try_names K sock names (if bound \<ge> 0 then set_insert (Iface (to_bytes name)) found else found)
      })"

definition socket_getCanIfaces :: "kernel \<Rightarrow> iface list res os" where
  "socket_getCanIfaces K = do {
     sock \<leftarrow> sys K OpenSocket;
     if sock < 0 then State_Monad.return (Inr [])
     else do {
       names \<leftarrow> State (\<lambda>past. (kn_ifaddrs K past, past));
       ret \<leftarrow> sys K GetIfAddrs;
       if ret < 0 then State_Monad.return (Inl UndefinedBehaviour)
       else do {
         found \<leftarrow> socket_try_names K sock names [];
         case found of
           Inl e \<Rightarrow> State_Monad.return (Inl e)
         | Inr is \<Rightarrow> do {
             _ \<leftarrow> sys K (CloseSocket sock);
             State_Monad.return (Inr is)
           }
       }
     }
   }"

section \<open>Received messages\<close>

text \<open>
  The content of a control message: a time, or the three of \<open>SO_TIMESTAMPING\<close>, of which the first is the
  software's. With it comes whether it is of the socket's level; the loop ends at one that is not.
\<close>

datatype control =
    Timeval int int
  | Timespecs "int \<times> int" "int \<times> int" "int \<times> int"
  | OtherControl

fun control_times :: "(bool \<times> control) list \<Rightarrow> TimeStamp \<Rightarrow> TimeStamp" where
  "control_times [] ts = ts"
| "control_times ((level, c) # cs) ts =
     (if \<not> level then ts
      else control_times cs
        (case c of
           Timeval sec usec \<Rightarrow> TimeStamp (word_of_int sec) (word_of_int usec)
         | Timespecs (sec, nsec) _ _ \<Rightarrow> TimeStamp (word_of_int sec) (word_of_int (nsec sdiv 1000))
         | OtherControl \<Rightarrow> ts))"

text \<open>\<open>receive\<close>: a failed call leaves frame and time as they are, and is reported as success.\<close>

definition socket_receive_msg ::
  "bool \<Rightarrow> (can_frame \<times> (bool \<times> control) list) option \<Rightarrow> CanFrame \<Rightarrow> TimeStamp
   \<Rightarrow> (bool \<times> CanFrame \<times> TimeStamp) res" where
  "socket_receive_msg timeStamps message canFrame timestamp =
     (case message of
        None \<Rightarrow> Inr (True, canFrame, timestamp)
      | Some (raw, controls) \<Rightarrow>
          let timestamp = (if timeStamps then control_times controls timestamp else timestamp)
          in res_bind (socket_receive raw canFrame) (\<lambda>f. Inr (True, f, timestamp)))"

section \<open>Which sockets are open\<close>

definition sockets_after :: "sys_call \<times> int \<Rightarrow> int set \<Rightarrow> int set" where
  "sockets_after e S =
     (case e of
        (OpenSocket, n) \<Rightarrow> if n < 0 then S else insert n S
      | (CloseSocket n, _) \<Rightarrow> S - {n}
      | _ \<Rightarrow> S)"

definition open_sockets :: "calls \<Rightarrow> int set" where
  "open_sockets past = fold sockets_after past {}"

lemma open_sockets_Nil [simp]: "open_sockets [] = {}"
  by (simp add: open_sockets_def)

lemma open_sockets_append: "open_sockets (past @ es) = fold sockets_after es (open_sockets past)"
  by (simp add: open_sockets_def)

lemma sockets_after_simps [simp]:
  "sockets_after (OpenSocket, n) S = (if n < 0 then S else insert n S)"
  "sockets_after (CloseSocket n, a) S = S - {n}"
  "sockets_after (Popen cmd, a) S = S"
  "sockets_after (RealPath cmd, a) S = S"
  "sockets_after (System cmd, a) S = S"
  "sockets_after (GetIfAddrs, a) S = S"
  "sockets_after (SetTimestamping n, a) S = S"
  "sockets_after (IfIndex n name, a) S = S"
  "sockets_after (BindSocket n i, a) S = S"
  "sockets_after (SetRecvOwnMsgs n, a) S = S"
  by (simp_all add: sockets_after_def)

lemma open_sockets_nonneg: "n \<in> open_sockets past \<Longrightarrow> 0 \<le> n"
proof (induction past rule: rev_induct)
  case (snoc e past)
  then show ?case
    by (cases e; cases "fst e") (auto simp: open_sockets_append split: if_splits)
qed simp

text \<open>\<open>socket\<close> gives a descriptor that is not open.\<close>

definition fresh_sockets :: "kernel \<Rightarrow> bool" where
  "fresh_sockets K \<longleftrightarrow> (\<forall>past. kn_answer K past OpenSocket \<notin> open_sockets past)"

lemma run_sys [simp]: "run_state (sys K c) past = (kn_answer K past c, past @ [(c, kn_answer K past c)])"
  by (simp add: sys_def)

lemmas socket_defs = isUp_def isVirtual_def Let_def bringUp_def bringDown_def setBitrate_def

lemma socket_link_sockets: "open_sockets (snd (run_state (socket_link K r h) past)) = open_sockets past"
  by (simp add: socket_link_def socket_defs Let_def open_sockets_append)

lemma socket_open_sockets:
  assumes "fresh_sockets K" and "run_state (socket_open K i h) past = ((ok, h'), past')"
  shows "if ok then 0 \<le> sh_mSock h' \<and> sh_mSock h' \<notin> open_sockets past \<and> sh_mInterface h' = i
      \<and> open_sockets past' = insert (sh_mSock h') (open_sockets past)
    else sh_mSock h' < 0 \<and> open_sockets past' = open_sockets past"
proof -
  have "kn_answer K past OpenSocket \<notin> open_sockets past" using assms(1) by (simp add: fresh_sockets_def)
  with assms(2) show ?thesis
    by (auto simp: socket_open_def socket_abandon_def Let_def open_sockets_append split: if_splits)
qed

end
