(* ===== verification/Peak.thy ===== *)
theory Peak
  imports CanEasy
begin

unbundle bit_operations_syntax

text \<open>
  The back end for the adapters of PEAK, \<open>CAN/Backends/PeakCan\<close>: the functions of the vendor's library, which are
  looked up when it is loaded (\<open>PeakCanSymbols\<close>), its channels (\<open>PeakCanChannels\<close>), and helper, sender and receiver
  on them. The library is a parameter, with a state of its own.
\<close>

section \<open>The library and its functions\<close>

text \<open>\<open>TPCANMsg\<close> and \<open>TPCANTimestamp\<close>.\<close>

record pcan_msg =
  pm_ID :: u32
  pm_MSGTYPE :: u8
  pm_LEN :: u8
  pm_DATA :: bytes

record pcan_timestamp =
  pt_millis :: u32
  pt_millis_overflow :: u16
  pt_micros :: u16

text \<open>
  Whether the library loads and has a symbol, and its functions; \<open>CAN_GetValue\<close> gives the value it stores, if any,
  and \<open>CAN_Read\<close> what it leaves in message and time stamp.
\<close>

record 'l pcan =
  pc_dlopen :: "'l \<Rightarrow> bool \<times> 'l"
  pc_dlsym :: "string \<Rightarrow> 'l \<Rightarrow> bool \<times> 'l"
  pc_dlclose :: "'l \<Rightarrow> 'l"
  pc_Initialize :: "u16 \<Rightarrow> u16 \<Rightarrow> 'l \<Rightarrow> u32 \<times> 'l"
  pc_Uninitialize :: "u16 \<Rightarrow> 'l \<Rightarrow> u32 \<times> 'l"
  pc_GetValue :: "u16 \<Rightarrow> u8 \<Rightarrow> 'l \<Rightarrow> (u32 \<times> int option) \<times> 'l"
  pc_Write :: "u16 \<Rightarrow> pcan_msg \<Rightarrow> 'l \<Rightarrow> u32 \<times> 'l"
  pc_Read :: "u16 \<Rightarrow> 'l \<Rightarrow> (u32 \<times> pcan_msg \<times> pcan_timestamp) \<times> 'l"

text \<open>\<open>PeakCanSymbols\<close>: the functions whose pointers can be called, and what is known of the loading.\<close>

record 'l peak =
  pk_pointers :: "string list"
  pk_mSymbolsLoaded :: bool
  pk_mLoadingError :: bool
  pk_lib :: 'l

definition PeakCanSymbols :: "'l \<Rightarrow> 'l peak" where
  "PeakCanSymbols l = \<lparr>pk_pointers = [], pk_mSymbolsLoaded = False, pk_mLoadingError = False, pk_lib = l\<rparr>"

definition peak_functions :: "string list" where
  "peak_functions =
     [''CAN_Initialize'', ''CAN_Uninitialize'', ''CAN_Reset'', ''CAN_Read'', ''CAN_Write'', ''CAN_FilterMessages'',
      ''CAN_GetValue'', ''CAN_SetValue'', ''CAN_GetErrorText'']"

text \<open>After a failure the pointers found so far lead into a library that is closed.\<close>

fun load_symbols :: "'l pcan \<Rightarrow> string list \<Rightarrow> 'l peak \<Rightarrow> bool \<times> 'l peak" where
  "load_symbols L [] s = (True, s\<lparr>pk_mSymbolsLoaded := True, pk_mLoadingError := False\<rparr>)"
| "load_symbols L (name # names) s =
     (let (found, l) = pc_dlsym L name (pk_lib s)
      in if found then load_symbols L names (s\<lparr>pk_lib := l, pk_pointers := List.insert name (pk_pointers s)\<rparr>)
         else (False, s\<lparr>pk_lib := pc_dlclose L l, pk_pointers := [], pk_mSymbolsLoaded := False, pk_mLoadingError := True\<rparr>))"

definition tryLoadSymbols :: "'l pcan \<Rightarrow> 'l peak \<Rightarrow> bool \<times> 'l peak" where
  "tryLoadSymbols L s =
     (let (handle, l) = pc_dlopen L (pk_lib s)
      in if \<not> handle then (False, s\<lparr>pk_lib := l, pk_mLoadingError := True, pk_mSymbolsLoaded := False\<rparr>)
         else load_symbols L peak_functions (s\<lparr>pk_lib := l\<rparr>))"

text \<open>A call through a pointer.\<close>

definition peak_call :: "string \<Rightarrow> ('l \<Rightarrow> 'a \<times> 'l) \<Rightarrow> 'l peak \<Rightarrow> ('a \<times> 'l peak) res" where
  "peak_call name f s =
     (if name \<in> set (pk_pointers s)
      then (let (a, l) = f (pk_lib s) in Inr (a, s\<lparr>pk_lib := l\<rparr>))
      else Inl UndefinedBehaviour)"

section \<open>Channels\<close>

datatype Channel = Channel (ch_mName: iface) (ch_mIndex: u16)

definition usb_channels :: "(string \<times> u16) list" where
  "usb_channels =
     [(''usb0'', 0x51), (''usb1'', 0x52), (''usb2'', 0x53), (''usb3'', 0x54), (''usb4'', 0x55), (''usb5'', 0x56),
      (''usb6'', 0x57), (''usb7'', 0x58), (''usb8'', 0x509), (''usb9'', 0x50A), (''usb10'', 0x50B), (''usb11'', 0x50C),
      (''usb12'', 0x50D), (''usb13'', 0x50E), (''usb14'', 0x50F), (''usb15'', 0x510)]"

definition PeakCanChannels :: "(iface, Channel) smap" where
  "PeakCanChannels = fold (\<lambda>(x, y). smap_put (to_iface x) (Channel (to_iface x) y)) usb_channels []"

definition getChannel :: "iface \<Rightarrow> Channel" where
  "getChannel name = (case smap_find PeakCanChannels name of Some c \<Rightarrow> c | None \<Rightarrow> Channel (Iface []) 0)"

section \<open>PeakCanHelper\<close>

definition bitratetable :: "(u32 \<times> u16) list" where
  "bitratetable =
     [(5000, 0x7F7F), (10000, 0x672F), (20000, 0x532F), (33000, 0x8B2F), (47000, 0x1414), (50000, 0x472F), (83000, 0x852B),
      (95000, 0xC34E), (100000, 0x432F), (125000, 0x031C), (250000, 0x011C), (500000, 0x001C), (800000, 0x0016),
      (1000000, 0x0014)]"

text \<open>The handle is not initialised before an interface is.\<close>

record peak_helper =
  ph_mCurrentHandle :: "u16 option"

definition PeakCanHelper :: "'l pcan \<Rightarrow> 'l peak \<Rightarrow> peak_helper \<times> 'l peak" where
  "PeakCanHelper L s =
     (\<lparr>ph_mCurrentHandle = None\<rparr>, if \<not> pk_mSymbolsLoaded s then snd (tryLoadSymbols L s) else s)"

text \<open>The value of a parameter, which stays 0 if the library stores none, and the status.\<close>

definition peak_GetValue :: "'l pcan \<Rightarrow> u16 \<Rightarrow> u8 \<Rightarrow> int \<Rightarrow> 'l peak \<Rightarrow> ((u32 \<times> int) \<times> 'l peak) res" where
  "peak_GetValue L handle param value s =
     res_bind (peak_call ''CAN_GetValue'' (pc_GetValue L handle param) s) (\<lambda>((status, stored), s).
       Inr ((status, case stored of Some v \<Rightarrow> v | None \<Rightarrow> value), s))"

fun peak_conditions ::
  "'l pcan \<Rightarrow> (iface \<times> Channel) list \<Rightarrow> iface list \<Rightarrow> 'l peak \<Rightarrow> (iface list \<times> 'l peak) res" where
  "peak_conditions L [] found s = Inr (found, s)"
| "peak_conditions L ((name, channel) # cs) found s =
     res_bind (peak_GetValue L (ch_mIndex channel) 0x0D 0 s) (\<lambda>((status, value), s).
       peak_conditions L cs
         (if status = 0 \<and> (word_of_int value :: u32) AND 3 \<noteq> 0 then set_insert (ch_mName channel) found else found) s)"

definition peak_getCanIfaces :: "'l pcan \<Rightarrow> 'l peak \<Rightarrow> (iface list \<times> 'l peak) res" where
  "peak_getCanIfaces L s =
     (if pk_mLoadingError s then Inr ([], s)
      else let (ready, s) = (if pk_mSymbolsLoaded s then (True, s) else tryLoadSymbols L s)
           in if \<not> ready then Inr ([], s) else peak_conditions L PeakCanChannels [] s)"

definition baudrate_code :: "u32 \<Rightarrow> u16" where
  "baudrate_code bitrate = (case map_of bitratetable bitrate of Some code \<Rightarrow> code | None \<Rightarrow> 0)"

definition peak_initialize ::
  "'l pcan \<Rightarrow> iface \<Rightarrow> u32 \<Rightarrow> peak_helper \<Rightarrow> 'l peak \<Rightarrow> ((bool \<times> peak_helper) \<times> 'l peak) res" where
  "peak_initialize L interface bitrate h s =
     (if \<not> pk_mSymbolsLoaded s then Inr ((False, h), s)
      else if pk_mLoadingError s then Inr ((False, h), s)
      else if baudrate_code bitrate = 0 then Inr ((False, h), s)
      else let channel = getChannel interface
           in if ch_mName channel \<noteq> interface then Inr ((False, h), s)
              else res_bind (peak_call ''CAN_Initialize'' (pc_Initialize L (ch_mIndex channel) (baudrate_code bitrate)) s)
                     (\<lambda>(status, s).
                        if status \<noteq> 0 then Inr ((False, h), s)
                        else Inr ((True, h\<lparr>ph_mCurrentHandle := Some (ch_mIndex channel)\<rparr>), s)))"

definition peak_finalize :: "'l pcan \<Rightarrow> peak_helper \<Rightarrow> 'l peak \<Rightarrow> 'l peak res" where
  "peak_finalize L h s =
     (case ph_mCurrentHandle h of
        None \<Rightarrow> Inl UndefinedBehaviour
      | Some handle \<Rightarrow> res_bind (peak_call ''CAN_Uninitialize'' (pc_Uninitialize L handle) s) (\<lambda>(status, s). Inr s))"

definition peak_initialized :: "'l pcan \<Rightarrow> peak_helper \<Rightarrow> 'l peak \<Rightarrow> (bool \<times> 'l peak) res" where
  "peak_initialized L h s =
     (case ph_mCurrentHandle h of
        None \<Rightarrow> Inl UndefinedBehaviour
      | Some handle \<Rightarrow>
          res_bind (peak_GetValue L handle 0x0D 0 s) (\<lambda>((status, value), s).
            Inr (status = 0 \<and> (word_of_int value :: u32) AND 2 \<noteq> 0, s)))"

section \<open>Sender and receiver\<close>

text \<open>\<open>junk\<close> is what the message holds before it is filled.\<close>

definition peak_message :: "bytes \<Rightarrow> CanFrame \<Rightarrow> pcan_msg res" where
  "peak_message junk frame =
     (let len = of_nat (length (cf_mData frame)) :: u8
      in res_bind (poke 0 (take (unat len) (cf_mData frame)) junk) (\<lambda>bytes.
           Inr \<lparr>pm_ID = cf_mId frame, pm_MSGTYPE = (if cf_mExtendedFormat frame then 0x02 else 0x00), pm_LEN = len,
                pm_DATA = bytes\<rparr>))"

definition peak_sendFrame :: "'l pcan \<Rightarrow> u16 \<Rightarrow> bytes \<Rightarrow> CanFrame \<Rightarrow> 'l peak \<Rightarrow> 'l peak res" where
  "peak_sendFrame L handle junk frame s =
     res_bind (peak_message junk frame) (\<lambda>msg.
     res_bind (peak_call ''CAN_Write'' (pc_Write L handle msg) s) (\<lambda>(status, s). Inr s))"

text \<open>The descriptor to wait for.\<close>

definition PeakCanReceiver :: "'l pcan \<Rightarrow> u16 \<Rightarrow> 'l peak \<Rightarrow> (int \<times> 'l peak) res" where
  "PeakCanReceiver L handle s =
     res_bind (peak_GetValue L handle 0x03 (- 1) s) (\<lambda>((status, fd), s). Inr (fd, s))"

definition peak_timestamp :: "pcan_timestamp \<Rightarrow> TimeStamp" where
  "peak_timestamp t = TimeStamp (pt_millis t div 1000) ((pt_millis t mod 1000) * 1000 + ucast (pt_micros t))"

text \<open>What was read: nothing, or a frame and its time. Remote frames and messages on the status are left out.\<close>

definition peak_reception :: "u32 \<times> pcan_msg \<times> pcan_timestamp \<Rightarrow> reception option res" where
  "peak_reception x =
     (case x of (status, message, tmStamp) \<Rightarrow>
        if status \<noteq> 0 \<or> unat (pm_LEN message) > MAX_CAN_DATA_SIZE
           \<or> pm_MSGTYPE message \<noteq> 0x00 \<and> pm_MSGTYPE message \<noteq> 0x02
        then Inr None
        else res_bind (peek 0 (unat (pm_LEN message)) (pm_DATA message)) (\<lambda>data.
               Inr (Some (CanFrame_of (pm_MSGTYPE message = 0x02) (pm_ID message) data, peak_timestamp tmStamp))))"

definition peak_receive :: "'l pcan \<Rightarrow> u16 \<Rightarrow> 'l peak \<Rightarrow> (reception option \<times> 'l peak) res" where
  "peak_receive L handle s =
     res_bind (peak_call ''CAN_Read'' (pc_Read L handle) s) (\<lambda>(x, s).
       res_bind (peak_reception x) (\<lambda>r. Inr (r, s)))"

section \<open>The symbols are loaded when they are used\<close>

definition peak_ok :: "'l peak \<Rightarrow> bool" where
  "peak_ok s \<longleftrightarrow> (pk_mSymbolsLoaded s \<longrightarrow> \<not> pk_mLoadingError s \<and> set peak_functions \<subseteq> set (pk_pointers s))"

lemma peak_ok_start [simp]: "peak_ok (PeakCanSymbols l)"
  by (simp add: peak_ok_def PeakCanSymbols_def)

lemma peak_ok_lib [simp]: "peak_ok (s\<lparr>pk_lib := l\<rparr>) = peak_ok s"
  by (simp add: peak_ok_def)

lemma load_symbols_ok:
  "load_symbols L names s = (ok, s') \<Longrightarrow> pk_mSymbolsLoaded s' = ok \<and> pk_mLoadingError s' = (\<not> ok)
    \<and> (ok \<longrightarrow> set names \<union> set (pk_pointers s) \<subseteq> set (pk_pointers s'))"
proof (induction L names s rule: load_symbols.induct)
  case (2 L name names s)
  obtain found l where d: "pc_dlsym L name (pk_lib s) = (found, l)" by force
  show ?case using 2 by (cases found) (auto simp: d)
qed auto

lemma tryLoadSymbols_ok:
  "tryLoadSymbols L s = (ok, s') \<Longrightarrow> pk_mSymbolsLoaded s' = ok \<and> peak_ok s'"
  using load_symbols_ok [of L peak_functions]
  by (fastforce simp: tryLoadSymbols_def peak_ok_def split: prod.splits if_splits)

lemma peak_call_ok:
  assumes "peak_ok s" and "pk_mSymbolsLoaded s" and "name \<in> set peak_functions"
  obtains a l where "f (pk_lib s) = (a, l)" "peak_call name f s = Inr (a, s\<lparr>pk_lib := l\<rparr>)"
  using assms by (cases "f (pk_lib s)") (auto simp: peak_call_def peak_ok_def)

lemma peak_GetValue_ok:
  assumes "peak_ok s" and "pk_mSymbolsLoaded s"
  obtains status v l where "peak_GetValue L handle param value s = Inr ((status, v), s\<lparr>pk_lib := l\<rparr>)"
proof -
  obtain a l where "peak_call ''CAN_GetValue'' (pc_GetValue L handle param) s = Inr (a, s\<lparr>pk_lib := l\<rparr>)"
    by (rule peak_call_ok [OF assms, of "''CAN_GetValue''" "pc_GetValue L handle param"]) (auto simp: peak_functions_def)
  then show ?thesis using that by (cases a) (auto simp: peak_GetValue_def)
qed

lemma peak_conditions_ok:
  assumes "peak_ok s" and "pk_mSymbolsLoaded s"
  shows "\<exists>is l. peak_conditions L cs found s = Inr (is, s\<lparr>pk_lib := l\<rparr>)
    \<and> (sorted_wrt (<) found \<longrightarrow> sorted_wrt (<) is) \<and> set is \<subseteq> set found \<union> ch_mName ` snd ` set cs"
  using assms
proof (induction cs arbitrary: found s)
  case Nil
  show ?case by (auto intro!: exI [of _ "pk_lib s"])
next
  case (Cons c cs)
  obtain name channel where c: "c = (name, channel)" by force
  obtain status v l where g: "peak_GetValue L (ch_mIndex channel) 0x0D 0 s = Inr ((status, v), s\<lparr>pk_lib := l\<rparr>)"
    using peak_GetValue_ok [OF Cons.prems] .
  let ?found = "if status = 0 \<and> (word_of_int v :: u32) AND 3 \<noteq> 0 then set_insert (ch_mName channel) found else found"
  obtain "is" l' where i: "peak_conditions L cs ?found (s\<lparr>pk_lib := l\<rparr>) = Inr (is, s\<lparr>pk_lib := l'\<rparr>)"
    "sorted_wrt (<) ?found \<longrightarrow> sorted_wrt (<) is" "set is \<subseteq> set ?found \<union> ch_mName ` snd ` set cs"
    using Cons.IH [of "s\<lparr>pk_lib := l\<rparr>" ?found] Cons.prems by auto
  have "sorted_wrt (<) found \<longrightarrow> sorted_wrt (<) is" using i(2) set_insert_sorted [of found "ch_mName channel"] by (auto split: if_splits)
  moreover have "set is \<subseteq> set found \<union> ch_mName ` snd ` set (c # cs)" using i(3) by (auto simp: c set_set_insert split: if_splits)
  ultimately show ?case using i(1) by (auto simp: c g)
qed

lemma channels_named: "list_all (\<lambda>(i, c). ch_mName c = i) PeakCanChannels"
  by code_simp

lemma PeakCanChannels_ok: "smap_ok PeakCanChannels"
proof -
  have "smap_ok (fold (\<lambda>(x, y). smap_put (to_iface x) (Channel (to_iface x) y)) cs m)" if "smap_ok m" for cs m
    using that by (induction cs arbitrary: m) (auto simp: smap_ok_put)
  then show ?thesis by (simp add: PeakCanChannels_def)
qed

lemma peak_getCanIfaces_ok:
  assumes "peak_ok s"
  obtains "is" s' where "peak_getCanIfaces L s = Inr (is, s')" "peak_ok s'" "distinct is"
    "set is \<subseteq> fst ` set PeakCanChannels"
proof -
  obtain ready s1 where r: "(if pk_mSymbolsLoaded s then (True, s) else tryLoadSymbols L s) = (ready, s1)" by force
  then have s1: "peak_ok s1" "ready = pk_mSymbolsLoaded s1" "pk_mSymbolsLoaded s \<Longrightarrow> s1 = s"
    using assms tryLoadSymbols_ok [of L s] by (auto split: if_splits)
  have n: "ch_mName ` snd ` set PeakCanChannels \<subseteq> fst ` set PeakCanChannels"
    using channels_named by (force simp: list_all_iff)
  show ?thesis
  proof (cases "pk_mLoadingError s \<or> \<not> ready")
    case True
    then show ?thesis
      using assms s1 r by (intro that [of "[]" "if pk_mLoadingError s then s else s1"])
        (auto simp: peak_getCanIfaces_def peak_ok_def split: if_splits)
  next
    case False
    then obtain "is" l where c: "peak_conditions L PeakCanChannels [] s1 = Inr (is, s1\<lparr>pk_lib := l\<rparr>)"
      "sorted_wrt (<) is" "set is \<subseteq> ch_mName ` snd ` set PeakCanChannels"
      using peak_conditions_ok [of s1 L PeakCanChannels "[]"] s1 by auto
    then have "distinct is" by (simp add: strict_sorted_iff)
    then show ?thesis
      using c n False s1 r by (intro that [of "is" "s1\<lparr>pk_lib := l\<rparr>"]) (auto simp: peak_getCanIfaces_def)
  qed
qed

lemma PeakCanHelper_ok:
  assumes "peak_ok s" and "PeakCanHelper L s = (h, s')"
  shows "peak_ok s'" "ph_mCurrentHandle h = None" "pk_mSymbolsLoaded s \<Longrightarrow> s' = s"
  using assms tryLoadSymbols_ok [of L s] by (cases "tryLoadSymbols L s", auto simp: PeakCanHelper_def split: if_splits)+

text \<open>What it takes to initialize an interface.\<close>

lemma peak_initialize_ok:
  assumes "peak_ok s"
  obtains ok h' l where "peak_initialize L i rate h s = Inr ((ok, h'), s\<lparr>pk_lib := l\<rparr>)"
    "if ok then pk_mSymbolsLoaded s \<and> rate \<in> fst ` set bitratetable \<and> ch_mName (getChannel i) = i
       \<and> ph_mCurrentHandle h' = Some (ch_mIndex (getChannel i)) else h' = h"
proof (cases "pk_mSymbolsLoaded s \<and> baudrate_code rate \<noteq> 0 \<and> ch_mName (getChannel i) = i")
  case True
  then have e: "\<not> pk_mLoadingError s" using assms by (simp add: peak_ok_def)
  have r: "rate \<in> fst ` set bitratetable" using True by (force simp: baudrate_code_def dest: map_of_SomeD split: option.splits)
  obtain status l where c: "peak_call ''CAN_Initialize'' (pc_Initialize L (ch_mIndex (getChannel i)) (baudrate_code rate)) s
      = Inr (status, s\<lparr>pk_lib := l\<rparr>)"
    by (rule peak_call_ok [OF assms, of "''CAN_Initialize''" "pc_Initialize L (ch_mIndex (getChannel i)) (baudrate_code rate)"])
      (use True in \<open>auto simp: peak_functions_def\<close>)
  show ?thesis
    by (rule that [of "status = 0" "if status = 0 then h\<lparr>ph_mCurrentHandle := Some (ch_mIndex (getChannel i))\<rparr> else h" l])
      (use True e r c in \<open>auto simp: peak_initialize_def Let_def\<close>)
next
  case False
  then show ?thesis
    by (intro that [of False h "pk_lib s"]) (auto simp: peak_initialize_def Let_def)
qed

lemma peak_finalize_ok:
  assumes "peak_ok s" and "pk_mSymbolsLoaded s" and "ph_mCurrentHandle h = Some handle"
  obtains l where "peak_finalize L h s = Inr (s\<lparr>pk_lib := l\<rparr>)"
proof -
  obtain status l where "peak_call ''CAN_Uninitialize'' (pc_Uninitialize L handle) s = Inr (status, s\<lparr>pk_lib := l\<rparr>)"
    by (rule peak_call_ok [OF assms(1,2), of "''CAN_Uninitialize''" "pc_Uninitialize L handle"])
      (auto simp: peak_functions_def)
  then show ?thesis using that assms(3) by (simp add: peak_finalize_def)
qed

text \<open>A frame in the library's message, and back.\<close>

lemma peak_message_reception:
  assumes "length (cf_mData f) \<le> 8" and "length junk = 8"
  shows "\<exists>m. peak_message junk f = Inr m \<and> peak_reception (0, m, t) = Inr (Some (f, peak_timestamp t))"
proof -
  have l: "unat (of_nat (length (cf_mData f)) :: u8) = length (cf_mData f)"
    using assms(1) by (simp add: unat_of_nat)
  show ?thesis
    using assms by (auto simp: peak_message_def Let_def l poke_ok peak_reception_def peek_def CanFrame_of_def
        cf_setData_def)
qed

text \<open>The time is the milliseconds and microseconds of the time stamp, without the number of its overflows.\<close>

lemma peak_timestamp_micros:
  assumes "unat (pt_micros t) < 1000"
  shows "unat (mMicroSec (peak_timestamp t)) < 1000000"
    and "unat (mSeconds (peak_timestamp t)) * 1000000 + unat (mMicroSec (peak_timestamp t))
      = unat (pt_millis t) * 1000 + unat (pt_micros t)"
proof -
  have m: "unat (pt_millis t mod 1000) = unat (pt_millis t) mod 1000" by (simp add: unat_mod)
  have u: "unat (ucast (pt_micros t) :: u32) = unat (pt_micros t)"
    using unsigned_less [of "pt_micros t", where 'a = nat] by (simp add: unsigned_ucast_eq take_bit_nat_eq_self)
  have lt: "unat (pt_millis t) mod 1000 < 1000" by simp
  have "unat ((pt_millis t mod 1000) * 1000 + ucast (pt_micros t) :: u32) = unat (pt_millis t) mod 1000 * 1000 + unat (pt_micros t)"
    using assms lt m u by (simp add: unat_word_ariths)
  then have s: "unat (mMicroSec (peak_timestamp t)) = unat (pt_millis t) mod 1000 * 1000 + unat (pt_micros t)"
    by (simp add: peak_timestamp_def)
  show "unat (mMicroSec (peak_timestamp t)) < 1000000" using s assms lt by linarith
  have "unat (mSeconds (peak_timestamp t)) = unat (pt_millis t) div 1000" by (simp add: peak_timestamp_def unat_div)
  then show "unat (mSeconds (peak_timestamp t)) * 1000000 + unat (mMicroSec (peak_timestamp t))
      = unat (pt_millis t) * 1000 + unat (pt_micros t)"
    using s div_mult_mod_eq [of "unat (pt_millis t)" 1000] by linarith
qed

end
