(* ===== verification/Backends.thy ===== *)
theory Backends
  imports Sockets Peak
begin

text \<open>
  What \<open>ICanHelper\<close> (\<open>CAN/ICanHelper.cpp\<close>) does with the helpers of the two back ends: those whose interface can be
  initialized are kept by name, and all of them are finalized in the end. \<open>CanEasy\<close> describes the registry for any
  back ends; here they are those of \<open>Sockets\<close> and \<open>Peak\<close>.
\<close>

section \<open>The registry\<close>

datatype can_helper = SocketHelper socket_helper | PeakHelper peak_helper

fun helper_backend :: "can_helper \<Rightarrow> backend" where
  "helper_backend (SocketHelper h) = SocketCan"
| "helper_backend (PeakHelper h) = PeakCan"

definition iface_text :: "iface \<Rightarrow> string" where
  "iface_text i = map (\<lambda>b. char_of (unat b)) (iface_name i)"

type_synonym registry = "(iface, can_helper) smap"

text \<open>A helper that cannot be initialized is deleted; its destructor does nothing.\<close>

fun create_socket_helpers :: "kernel \<Rightarrow> u32 \<Rightarrow> iface list \<Rightarrow> registry \<Rightarrow> registry os" where
  "create_socket_helpers K bitrate [] m = State_Monad.return m"
| "create_socket_helpers K bitrate (i # is) m = do {
     (ok, h) \<leftarrow> socket_initialize K (iface_text i) bitrate SocketCanHelper;
     create_socket_helpers K bitrate is (if ok then smap_put i (SocketHelper h) m else m)
   }"

fun create_peak_helpers ::
  "'l pcan \<Rightarrow> u32 \<Rightarrow> iface list \<Rightarrow> registry \<Rightarrow> 'l peak \<Rightarrow> (registry \<times> 'l peak) res" where
  "create_peak_helpers L bitrate [] m s = Inr (m, s)"
| "create_peak_helpers L bitrate (i # is) m s =
     (let (h, s) = PeakCanHelper L s
      in res_bind (peak_initialize L i bitrate h s) (\<lambda>((ok, h), s).
           create_peak_helpers L bitrate is (if ok then smap_put i (PeakHelper h) m else m) s))"

definition create_helpers ::
  "kernel \<Rightarrow> 'l pcan \<Rightarrow> u32 \<Rightarrow> registry \<Rightarrow> calls \<Rightarrow> 'l peak \<Rightarrow> (registry \<times> calls \<times> 'l peak) res" where
  "create_helpers K L bitrate m past s =
     (if m \<noteq> [] then Inr (m, past, s)
      else case run_state (socket_getCanIfaces K) past of
             (Inl e, past) \<Rightarrow> Inl e
           | (Inr is, past) \<Rightarrow>
               let (m, past) = run_state (create_socket_helpers K bitrate is m) past
               in res_bind (peak_getCanIfaces L s) (\<lambda>(is, s).
                  res_bind (create_peak_helpers L bitrate is m s) (\<lambda>(m, s). Inr (m, past, s))))"

fun finalize_helpers :: "kernel \<Rightarrow> 'l pcan \<Rightarrow> registry \<Rightarrow> calls \<Rightarrow> 'l peak \<Rightarrow> (calls \<times> 'l peak) res" where
  "finalize_helpers K L [] past s = Inr (past, s)"
| "finalize_helpers K L ((i, SocketHelper h) # m) past s =
     finalize_helpers K L m (snd (run_state (socket_finalize K h) past)) s"
| "finalize_helpers K L ((i, PeakHelper h) # m) past s =
     res_bind (peak_finalize L h s) (finalize_helpers K L m past)"

definition get_interfaces :: "kernel \<Rightarrow> 'l pcan \<Rightarrow> calls \<Rightarrow> 'l peak \<Rightarrow> (iface list \<times> calls \<times> 'l peak) res" where
  "get_interfaces K L past s =
     (case run_state (socket_getCanIfaces K) past of
        (Inl e, past) \<Rightarrow> Inl e
      | (Inr is, past) \<Rightarrow>
          res_bind (peak_getCanIfaces L s) (\<lambda>(is', s).
            Inr (fold set_insert is' (fold set_insert is []), past, s)))"

section \<open>The socket helpers\<close>

lemma socket_initialize_sockets:
  assumes "fresh_sockets K" and "run_state (socket_initialize K i r h) past = ((ok, h'), past')"
    and "sh_mSock h < 0"
  shows "if ok then 0 \<le> sh_mSock h' \<and> sh_mSock h' \<notin> open_sockets past \<and> sh_mInterface h' = i
      \<and> open_sockets past' = insert (sh_mSock h') (open_sockets past)
    else sh_mSock h' < 0 \<and> open_sockets past' = open_sockets past"
proof -
  let ?h = "h\<lparr>sh_mInterface := i\<rparr>"
  obtain ready p where l: "run_state (socket_link K r ?h) past = (ready, p)" by force
  from socket_link_sockets [of K r ?h past] have p: "open_sockets p = open_sockets past" by (simp add: l)
  show ?thesis
  proof (cases ready)
    case True
    with assms(2) l have "run_state (socket_open K i ?h) p = ((ok, h'), past')"
      by (simp add: socket_initialize_def Let_def)
    from socket_open_sockets [OF assms(1) this] show ?thesis unfolding p .
  next
    case False
    with assms(2,3) l p show ?thesis by (auto simp: socket_initialize_def Let_def)
  qed
qed

lemma socket_finalize_sockets:
  "open_sockets (snd (run_state (socket_finalize K h) past)) = open_sockets past - {sh_mSock h}"
proof -
  have "- 1 \<notin> open_sockets past" using open_sockets_nonneg [of "- 1" past] by auto
  then show ?thesis by (simp add: socket_finalize_def bringDown_def open_sockets_append)
qed

lemma socket_try_names_sockets:
  "open_sockets (snd (run_state (socket_try_names K sock names found) past)) = open_sockets past"
  by (induction K sock names found arbitrary: past rule: socket_try_names.induct)
    (simp_all add: open_sockets_append)

lemma socket_try_names_sorted:
  "sorted_wrt (<) found \<Longrightarrow> fst (run_state (socket_try_names K sock names found) past) = Inr is \<Longrightarrow> sorted_wrt (<) is"
  by (induction K sock names found arbitrary: past rule: socket_try_names.induct)
    (auto simp: Let_def set_insert_sorted split: if_splits)

lemma socket_getCanIfaces_sockets:
  assumes "fresh_sockets K" and "run_state (socket_getCanIfaces K) past = (Inr is, past')"
  shows "open_sockets past' = open_sockets past" and "distinct is"
proof -
  let ?s = "kn_answer K past OpenSocket"
  let ?n = "kn_ifaddrs K (past @ [(OpenSocket, ?s)])"
  let ?p = "past @ [(OpenSocket, ?s), (GetIfAddrs, kn_answer K (past @ [(OpenSocket, ?s)]) GetIfAddrs)]"
  obtain found p where t: "run_state (socket_try_names K ?s ?n []) ?p = (found, p)" by force
  have p: "open_sockets p = open_sockets ?p" using socket_try_names_sockets [of K ?s ?n "[]" ?p] by (simp add: t)
  have f: "?s \<notin> open_sockets past" using assms(1) by (simp add: fresh_sockets_def)
  have s: "sorted_wrt (<) js" if "found = Inr js" for js
    using socket_try_names_sorted [of "[]" K ?s ?n ?p js] by (simp add: t that)
  have run: "run_state (socket_getCanIfaces K) past =
      (if ?s < 0 then (Inr [], past @ [(OpenSocket, ?s)])
       else if snd (last ?p) < 0 then (Inl UndefinedBehaviour, ?p)
       else case found of Inl e \<Rightarrow> (Inl e, p) | Inr js \<Rightarrow> (Inr js, p @ [(CloseSocket ?s, kn_answer K p (CloseSocket ?s))]))"
    using t by (auto simp: socket_getCanIfaces_def split: sum.splits)
  have "open_sockets past' = open_sockets past \<and> distinct is"
  proof (cases "?s < 0")
    case True
    then show ?thesis using assms(2) by (auto simp: run open_sockets_append)
  next
    case False
    with assms(2) have *: "found = Inr is" "past' = p @ [(CloseSocket ?s, kn_answer K p (CloseSocket ?s))]"
      by (auto simp: run split: if_splits sum.splits)
    have "open_sockets past' = insert ?s (open_sockets past) - {?s}"
      using False by (simp add: *(2) open_sockets_append p)
    then show ?thesis using f s [OF *(1)] by (simp add: strict_sorted_iff)
  qed
  then show "open_sockets past' = open_sockets past" "distinct is" by simp_all
qed

text \<open>The sockets that the helpers of a registry hold.\<close>

definition held :: "registry \<Rightarrow> int set" where
  "held m = {sh_mSock h |i h. (i, SocketHelper h) \<in> set m}"

lemma held_Nil [simp]: "held [] = {}"
  by (simp add: held_def)

lemma held_Cons [simp]:
  "held ((i, SocketHelper h) # m) = insert (sh_mSock h) (held m)"
  "held ((i, PeakHelper p) # m) = held m"
  by (auto simp: held_def)

lemma held_put:
  "smap_ok m \<Longrightarrow> i \<notin> fst ` set m \<Longrightarrow> held (smap_put i (SocketHelper h) m) = insert (sh_mSock h) (held m)"
  "smap_ok m \<Longrightarrow> i \<notin> fst ` set m \<Longrightarrow> held (smap_put i (PeakHelper p) m) = held m"
  by (auto simp: held_def set_smap_put_new)

text \<open>A socket helper that is kept has an open socket of its own and the name of its interface.\<close>

fun helper_ready :: "iface \<times> can_helper \<Rightarrow> bool" where
  "helper_ready (i, SocketHelper h) \<longleftrightarrow> 0 \<le> sh_mSock h \<and> sh_mInterface h = iface_text i"
| "helper_ready (i, PeakHelper h) \<longleftrightarrow> ch_mName (getChannel i) = i \<and> ph_mCurrentHandle h = Some (ch_mIndex (getChannel i))"

text \<open>
  What the initialization of each interface, one after the other, comes to: whether it succeeds, and the helper
  as it leaves it.
\<close>

type_synonym outcomes = "(iface \<times> bool \<times> can_helper) list"

fun socket_outcomes :: "kernel \<Rightarrow> u32 \<Rightarrow> iface list \<Rightarrow> calls \<Rightarrow> outcomes" where
  "socket_outcomes K r [] past = []"
| "socket_outcomes K r (i # is) past =
     (case run_state (socket_initialize K (iface_text i) r SocketCanHelper) past of
        ((ok, h), past) \<Rightarrow> (i, ok, SocketHelper h) # socket_outcomes K r is past)"

fun peak_outcomes :: "'l pcan \<Rightarrow> u32 \<Rightarrow> iface list \<Rightarrow> 'l peak \<Rightarrow> outcomes" where
  "peak_outcomes L r [] s = []"
| "peak_outcomes L r (i # is) s =
     (case PeakCanHelper L s of (h, s) \<Rightarrow>
        (case peak_initialize L i r h s of
           Inl e \<Rightarrow> []
         | Inr ((ok, h), s) \<Rightarrow> (i, ok, PeakHelper h) # peak_outcomes L r is s))"

definition initialized :: "outcomes \<Rightarrow> (iface \<times> can_helper) set" where
  "initialized os = {(i, h). (i, True, h) \<in> set os}"

definition came_up :: "outcomes \<Rightarrow> iface \<Rightarrow> bool" where
  "came_up os i \<longleftrightarrow> i \<in> fst ` initialized os"

lemma initialized_simps [simp]:
  "initialized [] = {}"
  "initialized ((i, ok, h) # os) = (if ok then insert (i, h) (initialized os) else initialized os)"
  by (auto simp: initialized_def)

lemma socket_outcomes_ifaces: "fst ` initialized (socket_outcomes K r is past) \<subseteq> set is"
  by (induction "is" arbitrary: past) (auto split: prod.split)

lemma peak_outcomes_ifaces: "fst ` initialized (peak_outcomes L r is s) \<subseteq> set is"
  by (induction "is" arbitrary: s) (auto split: prod.split sum.split)

text \<open>The outcome for one more interface.\<close>

lemma add_helpers_outcome:
  assumes "i \<notin> set is" and "fst ` initialized os \<subseteq> set is"
  shows "add_helpers b (i # is) (\<lambda>b. came_up ((i, ok, h) # os)) m
     = add_helpers b is (\<lambda>b. came_up os) (if ok then smap_put i b m else m)"
proof -
  have "fold (\<lambda>j m. if came_up ((i, ok, h) # os) j then smap_put j b m else m) is m0
      = fold (\<lambda>j m. if came_up os j then smap_put j b m else m) is m0" for m0
    using assms(1) by (intro fold_cong) (auto simp: came_up_def)
  moreover have "came_up ((i, ok, h) # os) i = ok" using assms by (auto simp: came_up_def)
  ultimately show ?thesis by (simp add: add_helpers_def)
qed

lemma create_socket_helpers_sockets:
  assumes "fresh_sockets K" and "distinct is" and "smap_ok m" and "set is \<inter> fst ` set m = {}"
    and "\<forall>e \<in> set m. helper_ready e" and "held m \<inter> S = {}" and "open_sockets past = S \<union> held m"
    and "run_state (create_socket_helpers K r is m) past = (m', past')"
  shows "smap_ok m' \<and> (\<forall>e \<in> set m'. helper_ready e) \<and> held m' \<inter> S = {} \<and> open_sockets past' = S \<union> held m'
    \<and> set m' = set m \<union> initialized (socket_outcomes K r is past)
    \<and> smap_map helper_backend m'
      = add_helpers SocketCan is (\<lambda>b. came_up (socket_outcomes K r is past)) (smap_map helper_backend m)"
  using assms(2-)
proof (induction "is" arbitrary: m past)
  case Nil
  then show ?case by (auto simp: add_helpers_def)
next
  case (Cons i "is")
  obtain ok h p where h: "run_state (socket_initialize K (iface_text i) r SocketCanHelper) past = ((ok, h), p)"
    by (metis prod.exhaust)
  have "sh_mSock SocketCanHelper < 0" by (simp add: SocketCanHelper_def)
  note o = socket_initialize_sockets [OF assms(1) h this]
  let ?m = "if ok then smap_put i (SocketHelper h) m else m"
  have r: "run_state (create_socket_helpers K r is ?m) p = (m', past')" using Cons.prems(7) h by simp
  have i: "i \<notin> fst ` set m" "i \<notin> set is" "distinct is" using Cons.prems(1,3) by auto
  note put = set_smap_put_new [OF Cons.prems(2) i(1)] held_put [OF Cons.prems(2) i(1)]
  have "set is \<inter> fst ` set ?m = {}" using Cons.prems(3) i by (auto simp: put)
  moreover have "\<forall>e \<in> set ?m. helper_ready e" using Cons.prems(4) o by (auto simp: put split: if_splits)
  moreover have "held ?m \<inter> S = {}" "open_sockets p = S \<union> held ?m"
    using Cons.prems(5,6) o by (auto simp: put split: if_splits)
  moreover have "smap_ok ?m" using Cons.prems(2) by (simp add: smap_ok_put)
  ultimately have IH: "smap_ok m' \<and> (\<forall>e \<in> set m'. helper_ready e) \<and> held m' \<inter> S = {} \<and> open_sockets past' = S \<union> held m'
    \<and> set m' = set ?m \<union> initialized (socket_outcomes K r is p)
    \<and> smap_map helper_backend m'
      = add_helpers SocketCan is (\<lambda>b. came_up (socket_outcomes K r is p)) (smap_map helper_backend ?m)"
    using r by (intro Cons.IH [OF i(3)])
  have "socket_outcomes K r (i # is) past = (i, ok, SocketHelper h) # socket_outcomes K r is p"
    by (simp add: h)
  with IH show ?case
    by (simp add: add_helpers_outcome [OF i(2) socket_outcomes_ifaces] smap_map_put put del: socket_outcomes.simps)
qed

section \<open>The registry of both back ends\<close>

lemma create_peak_helpers_ok:
  assumes "distinct is" and "smap_ok m" and "set is \<inter> fst ` set m = {}" and "\<forall>e \<in> set m. helper_ready e"
    and "peak_ok s" and "PeakCan \<in> helper_backend ` snd ` set m \<longrightarrow> pk_mSymbolsLoaded s"
  shows "\<exists>m' s'. create_peak_helpers L r is m s = Inr (m', s') \<and> smap_ok m' \<and> (\<forall>e \<in> set m'. helper_ready e)
    \<and> held m' = held m \<and> peak_ok s' \<and> (PeakCan \<in> helper_backend ` snd ` set m' \<longrightarrow> pk_mSymbolsLoaded s')
    \<and> set m' = set m \<union> initialized (peak_outcomes L r is s)
    \<and> smap_map helper_backend m'
      = add_helpers PeakCan is (\<lambda>b. came_up (peak_outcomes L r is s)) (smap_map helper_backend m)"
  using assms
proof (induction "is" arbitrary: m s)
  case Nil
  then show ?case by (auto simp: add_helpers_def)
next
  case (Cons i "is")
  obtain h s1 where h: "PeakCanHelper L s = (h, s1)" by force
  note s1 = PeakCanHelper_ok [OF Cons.prems(5) h]
  obtain ok h' l where p: "peak_initialize L i r h s1 = Inr ((ok, h'), s1\<lparr>pk_lib := l\<rparr>)"
    "if ok then pk_mSymbolsLoaded s1 \<and> r \<in> fst ` set bitratetable \<and> ch_mName (getChannel i) = i
       \<and> ph_mCurrentHandle h' = Some (ch_mIndex (getChannel i)) else h' = h"
    using peak_initialize_ok [OF s1(1)] .
  let ?m = "if ok then smap_put i (PeakHelper h') m else m"
  have i: "i \<notin> fst ` set m" "i \<notin> set is" "distinct is" using Cons.prems(1,3) by auto
  note put = set_smap_put_new [OF Cons.prems(2) i(1)] held_put [OF Cons.prems(2) i(1)]
  have "set is \<inter> fst ` set ?m = {}" using Cons.prems(3) i by (auto simp: put)
  moreover have "\<forall>e \<in> set ?m. helper_ready e" using Cons.prems(4) p(2) by (auto simp: put split: if_splits)
  moreover have "smap_ok ?m" using Cons.prems(2) by (simp add: smap_ok_put)
  moreover have "PeakCan \<in> helper_backend ` snd ` set ?m \<longrightarrow> pk_mSymbolsLoaded (s1\<lparr>pk_lib := l\<rparr>)"
    using Cons.prems(6) p(2) s1(3) by (auto simp: put split: if_splits)
  ultimately have "\<exists>m' s'. create_peak_helpers L r is ?m (s1\<lparr>pk_lib := l\<rparr>) = Inr (m', s') \<and> smap_ok m'
      \<and> (\<forall>e \<in> set m'. helper_ready e) \<and> held m' = held ?m \<and> peak_ok s'
      \<and> (PeakCan \<in> helper_backend ` snd ` set m' \<longrightarrow> pk_mSymbolsLoaded s')
      \<and> set m' = set ?m \<union> initialized (peak_outcomes L r is (s1\<lparr>pk_lib := l\<rparr>))
      \<and> smap_map helper_backend m'
        = add_helpers PeakCan is (\<lambda>b. came_up (peak_outcomes L r is (s1\<lparr>pk_lib := l\<rparr>))) (smap_map helper_backend ?m)"
    using s1(1) by (intro Cons.IH [OF i(3)]) simp_all
  then obtain m' s' where *: "create_peak_helpers L r is ?m (s1\<lparr>pk_lib := l\<rparr>) = Inr (m', s')" "smap_ok m'"
      "\<forall>e \<in> set m'. helper_ready e" "held m' = held ?m" "peak_ok s'"
      "PeakCan \<in> helper_backend ` snd ` set m' \<longrightarrow> pk_mSymbolsLoaded s'"
      "set m' = set ?m \<union> initialized (peak_outcomes L r is (s1\<lparr>pk_lib := l\<rparr>))"
      "smap_map helper_backend m'
        = add_helpers PeakCan is (\<lambda>b. came_up (peak_outcomes L r is (s1\<lparr>pk_lib := l\<rparr>))) (smap_map helper_backend ?m)"
    by blast
  have os: "peak_outcomes L r (i # is) s = (i, ok, PeakHelper h') # peak_outcomes L r is (s1\<lparr>pk_lib := l\<rparr>)"
    by (simp add: h p(1))
  have "smap_map helper_backend m'
      = add_helpers PeakCan (i # is) (\<lambda>b. came_up (peak_outcomes L r (i # is) s)) (smap_map helper_backend m)"
    unfolding os by (simp add: *(8) add_helpers_outcome [OF i(2) peak_outcomes_ifaces] smap_map_put)
  moreover have "set m' = set m \<union> initialized (peak_outcomes L r (i # is) s)"
    unfolding os by (simp add: *(7) put)
  moreover have "create_peak_helpers L r (i # is) m s = Inr (m', s')" using *(1) by (simp add: h p(1))
  moreover have "held m' = held m" using *(4) by (simp add: put)
  ultimately show ?case using *(2,3,5,6) by blast
qed

lemma finalize_helpers_ok:
  assumes "\<forall>e \<in> set m. helper_ready e" and "peak_ok s" and "PeakCan \<in> helper_backend ` snd ` set m \<longrightarrow> pk_mSymbolsLoaded s"
  shows "\<exists>new s'. finalize_helpers K L m past s = Inr (past @ new, s') \<and> open_sockets (past @ new) = open_sockets past - held m
    \<and> (\<forall>(i, h) \<in> set m. helper_backend h = SocketCan \<longrightarrow> System (SET_IFACE_DOWN_CMD (iface_text i)) \<in> fst ` set new)"
  using assms
proof (induction m arbitrary: past s)
  case Nil
  show ?case by (intro exI [of _ "[]"] exI [of _ s]) simp
next
  case (Cons e m)
  obtain i h where e: "e = (i, h)" by force
  show ?case
  proof (cases h)
    case (SocketHelper sh)
    obtain c where c: "snd (run_state (socket_finalize K sh) past) = past @ c"
      "System (SET_IFACE_DOWN_CMD (iface_text i)) \<in> fst ` set c"
      using Cons.prems(1) by (fastforce simp: e SocketHelper socket_finalize_def bringDown_def)
    obtain new s' where n: "finalize_helpers K L m (past @ c) s = Inr ((past @ c) @ new, s')"
      "open_sockets ((past @ c) @ new) = open_sockets (past @ c) - held m"
      "\<forall>(i, h) \<in> set m. helper_backend h = SocketCan \<longrightarrow> System (SET_IFACE_DOWN_CMD (iface_text i)) \<in> fst ` set new"
      using Cons.IH [of s "past @ c"] Cons.prems by auto
    have "open_sockets (past @ c) = open_sockets past - {sh_mSock sh}"
      using socket_finalize_sockets [of K sh past] by (simp add: c)
    then show ?thesis
      using n c by (intro exI [of _ "c @ new"] exI [of _ s']) (auto simp: e SocketHelper)
  next
    case (PeakHelper ph)
    then obtain handle where "ph_mCurrentHandle ph = Some handle" using Cons.prems(1) by (auto simp: e)
    moreover have "pk_mSymbolsLoaded s" using Cons.prems(3) by (force simp: e PeakHelper)
    ultimately obtain l where f: "peak_finalize L ph s = Inr (s\<lparr>pk_lib := l\<rparr>)"
      using peak_finalize_ok [OF Cons.prems(2)] by blast
    show ?thesis
      using Cons.IH [of "s\<lparr>pk_lib := l\<rparr>" past] Cons.prems by (auto simp: e PeakHelper f)
  qed
qed

text \<open>Creating the helpers, when no interface belongs to both back ends.\<close>

definition registry_ok :: "registry \<Rightarrow> int set \<Rightarrow> calls \<Rightarrow> 'l peak \<Rightarrow> bool" where
  "registry_ok m S past s \<longleftrightarrow> smap_ok m \<and> (\<forall>e \<in> set m. helper_ready e) \<and> held m \<inter> S = {}
     \<and> open_sockets past = S \<union> held m \<and> peak_ok s \<and> (PeakCan \<in> helper_backend ` snd ` set m \<longrightarrow> pk_mSymbolsLoaded s)"

lemma add_helpers_init: "(\<And>i. init b i = init' b i) \<Longrightarrow> add_helpers b is init m = add_helpers b is init' m"
  by (simp add: add_helpers_def)

lemma create_helpers_ok:
  assumes "fresh_sockets K" and "peak_ok s"
    and "run_state (socket_getCanIfaces K) past = (Inr is, past0)" and "set is \<inter> fst ` set PeakCanChannels = {}"
  shows "\<exists>js s1 m past' s'. peak_getCanIfaces L s = Inr (js, s1) \<and> create_helpers K L r [] past s = Inr (m, past', s')
    \<and> registry_ok m (open_sockets past) past' s'
    \<and> set m = initialized (socket_outcomes K r is past0) \<union> initialized (peak_outcomes L r js s1)
    \<and> smap_map helper_backend m = createCanHelpers (\<lambda>b. case b of SocketCan \<Rightarrow> is | PeakCan \<Rightarrow> js)
        (\<lambda>b. came_up (case b of SocketCan \<Rightarrow> socket_outcomes K r is past0 | PeakCan \<Rightarrow> peak_outcomes L r js s1)) []"
proof -
  note g = socket_getCanIfaces_sockets [OF assms(1,3)]
  obtain m1 p1 where c: "run_state (create_socket_helpers K r is []) past0 = (m1, p1)" by force
  from create_socket_helpers_sockets [OF assms(1) g(2) _ _ _ _ _ c, of "open_sockets past"] g(1)
  have "smap_ok m1 \<and> (\<forall>e \<in> set m1. helper_ready e) \<and> held m1 \<inter> open_sockets past = {}
      \<and> open_sockets p1 = open_sockets past \<union> held m1 \<and> set m1 = initialized (socket_outcomes K r is past0)
      \<and> smap_map helper_backend m1 = add_helpers SocketCan is (\<lambda>b. came_up (socket_outcomes K r is past0)) []"
    by simp
  then have m1: "smap_ok m1" "\<forall>e \<in> set m1. helper_ready e" "held m1 \<inter> open_sockets past = {}"
    "open_sockets p1 = open_sockets past \<union> held m1"
    "smap_map helper_backend m1 = add_helpers SocketCan is (\<lambda>b. came_up (socket_outcomes K r is past0)) []"
    "set m1 = initialized (socket_outcomes K r is past0)"
    by simp_all
  obtain js s1 where j: "peak_getCanIfaces L s = Inr (js, s1)" "peak_ok s1" "distinct js" "set js \<subseteq> fst ` set PeakCanChannels"
    by (rule peak_getCanIfaces_ok [OF assms(2)])
  have keys: "fst ` set m1 \<subseteq> set is"
  proof
    fix i
    assume "i \<in> fst ` set m1"
    then obtain h where "(i, h) \<in> set m1" by auto
    then have "smap_find (smap_map helper_backend m1) i \<noteq> None"
      by (simp add: smap_find_map smap_find_Some_iff [OF m1(1), symmetric])
    then show "i \<in> set is" by (simp add: m1(5) add_helpers_find split: if_splits)
  qed
  have sockets: "PeakCan \<notin> helper_backend ` snd ` set m1"
  proof
    assume "PeakCan \<in> helper_backend ` snd ` set m1"
    then obtain i h where "(i, h) \<in> set m1" "helper_backend h = PeakCan" by force
    then have "smap_find (smap_map helper_backend m1) i = Some PeakCan"
      using m1(1) by (auto simp: smap_find_map smap_find_Some_iff [OF m1(1)])
    then show False by (simp add: m1(5) add_helpers_find split: if_splits)
  qed
  have d: "set js \<inter> fst ` set m1 = {}" using keys j(4) assms(4) by blast
  have l: "PeakCan \<in> helper_backend ` snd ` set m1 \<longrightarrow> pk_mSymbolsLoaded s1" using sockets by simp
  let ?init = "\<lambda>b. came_up (case b of SocketCan \<Rightarrow> socket_outcomes K r is past0 | PeakCan \<Rightarrow> peak_outcomes L r js s1)"
  from create_peak_helpers_ok [OF j(3) m1(1) d m1(2) j(2) l, of L r] obtain m s' where
    m: "create_peak_helpers L r js m1 s1 = Inr (m, s')" "smap_ok m" "\<forall>e \<in> set m. helper_ready e"
      "held m = held m1" "peak_ok s'" "PeakCan \<in> helper_backend ` snd ` set m \<longrightarrow> pk_mSymbolsLoaded s'"
      and set_m: "set m = set m1 \<union> initialized (peak_outcomes L r js s1)"
      and map_m: "smap_map helper_backend m
        = add_helpers PeakCan js (\<lambda>b. came_up (peak_outcomes L r js s1)) (smap_map helper_backend m1)"
    by (elim exE conjE)
  have "create_helpers K L r [] past s = Inr (m, p1, s')"
    by (simp add: create_helpers_def assms(3) c j(1) m(1))
  moreover have "registry_ok m (open_sockets past) p1 s'" using m m1 by (simp add: registry_ok_def)
  moreover have "smap_map helper_backend m = createCanHelpers (\<lambda>b. case b of SocketCan \<Rightarrow> is | PeakCan \<Rightarrow> js) ?init []"
    by (simp add: map_m m1(5) createCanHelpers_def
      add_helpers_init [of ?init PeakCan "\<lambda>b. came_up (peak_outcomes L r js s1)"]
      add_helpers_init [of ?init SocketCan "\<lambda>b. came_up (socket_outcomes K r is past0)"])
  ultimately show ?thesis using j(1) set_m m1(6) by blast
qed

end
