(* ===== verification/BackendsProps.thy ===== *)
theory BackendsProps
  imports Backends
begin

text \<open>What the back ends guarantee to the programs above them.\<close>

section \<open>A kernel and a library to try it on\<close>

text \<open>Descriptors are never used twice; \<open>can0\<close> has the index 2 and is the only interface to which a socket can be bound.\<close>

definition next_socket :: "calls \<Rightarrow> int" where
  "next_socket past = fold (\<lambda>e. max (snd e + 1)) past 3"

definition one_can :: kernel where
  "one_can =
     \<lparr>kn_answer = (\<lambda>past c. case c of
        OpenSocket \<Rightarrow> next_socket past
      | BindSocket n i \<Rightarrow> if i = 2 then 0 else - 1
      | _ \<Rightarrow> 0),
      kn_realpath = (\<lambda>past path. ''/sys/devices/platform/can0''),
      kn_index = (\<lambda>past name. if name = ''can0'' then 2 else 1),
      kn_ifaddrs = (\<lambda>past. [''lo'', ''can0'', ''lo''])\<rparr>"

lemma sockets_were_answered: "open_sockets past \<subseteq> snd ` set past"
proof (induction past rule: rev_induct)
  case (snoc e past)
  obtain c n where e: "e = (c, n)" by force
  show ?case using snoc by (cases c) (auto simp: e open_sockets_append split: if_splits)
qed simp

lemma next_socket_fresh: "n \<in> snd ` set past \<Longrightarrow> n < next_socket past"
  by (induction past rule: rev_induct) (auto simp: next_socket_def less_max_iff_disj)

lemma fresh_one_can: "fresh_sockets one_can"
  using sockets_were_answered next_socket_fresh by (fastforce simp: fresh_sockets_def one_can_def)

text \<open>A library that is not installed.\<close>

definition no_pcan :: "unit pcan" where
  "no_pcan =
     \<lparr>pc_dlopen = (\<lambda>l. (False, l)), pc_dlsym = (\<lambda>name l. (False, l)), pc_dlclose = id,
      pc_Initialize = (\<lambda>h b l. (0x1400, l)), pc_Uninitialize = (\<lambda>h l. (0, l)), pc_GetValue = (\<lambda>h p l. ((0, None), l)),
      pc_Write = (\<lambda>h m l. (0, l)),
      pc_Read = (\<lambda>h l. ((0x20, \<lparr>pm_ID = 0, pm_MSGTYPE = 0, pm_LEN = 0, pm_DATA = []\<rparr>,
        \<lparr>pt_millis = 0, pt_millis_overflow = 0, pt_micros = 0\<rparr>), l))\<rparr>"

section \<open>The commands to set up an interface\<close>

lemma socket_link_calls:
  assumes "run_state (socket_link K r h) past = (True, past')"
  defines "i \<equiv> sh_mInterface h"
  defines "up \<equiv> kn_answer K past (Popen (GET_IFACE_STAT_CMD i))"
  defines "path \<equiv> kn_realpath K (past @ [(Popen (GET_IFACE_STAT_CMD i), up)]) (sys_class_path i)"
  shows "past' = past @ (Popen (GET_IFACE_STAT_CMD i), up) # (if up > 0 then [] else (RealPath (sys_class_path i), 0)
    # (if sublist ''virtual'' (c_text path) then [] else [(System (SET_IFACE_BITRATE_CMD i r), 0)])
    @ [(System (SET_IFACE_UP_CMD i), 0)])"
  using assms(1) unfolding up_def path_def i_def
  by (auto simp: socket_link_def socket_defs split: if_splits)

lemma socket_open_calls:
  assumes "run_state (socket_open K i h) past = ((True, h'), past')"
  shows "\<exists>a b c d index. past' = past @ [(OpenSocket, sh_mSock h'), (SetTimestamping (sh_mSock h'), a),
    (IfIndex (sh_mSock h') (take 15 (c_text i)), b), (BindSocket (sh_mSock h') index, c), (SetRecvOwnMsgs (sh_mSock h'), d)]
    \<and> sh_mTimeStamp h' = (sh_mTimeStamp h \<and> 0 \<le> a) \<and> 0 \<le> sh_mSock h' \<and> 0 \<le> b \<and> 0 \<le> c \<and> 0 \<le> d"
  using assms by (auto simp: socket_open_def socket_abandon_def Let_def split: if_splits)

section \<open>Properties\<close>

text \<open>C26: The helpers of the two back ends implement the registry that \<open>CanEasy\<close> is described with. The registry has
  exactly the helpers whose initialization succeeded, as it left them, and all are ready for use; it is the registry
  of the facade for the interfaces found and these outcomes, so that the facade has a sender for exactly these. The
  interfaces of the kernel can be listed, and none has the name of a PEAK channel.\<close>

theorem backends_implement_helpers:
  assumes "fresh_sockets K" and "peak_ok s"
    and "run_state (socket_getCanIfaces K) past = (Inr is, past0)" and "set is \<inter> fst ` set PeakCanChannels = {}"
  shows "\<exists>js s1 m past' s'. peak_getCanIfaces L s = Inr (js, s1) \<and> create_helpers K L r [] past s = Inr (m, past', s')
    \<and> set m = initialized (socket_outcomes K r is past0) \<union> initialized (peak_outcomes L r js s1)
    \<and> (\<forall>e \<in> set m. helper_ready e)
    \<and> (let ifaces = (\<lambda>b. case b of SocketCan \<Rightarrow> is | PeakCan \<Rightarrow> js);
           init = (\<lambda>b. came_up (case b of SocketCan \<Rightarrow> socket_outcomes K r is past0 | PeakCan \<Rightarrow> peak_outcomes L r js s1))
       in smap_map helper_backend m = createCanHelpers ifaces init []
        \<and> (\<forall>i. getSender i (easy_initialize ifaces init
              \<lparr>ez_mSenders = [], ez_mReceivers = [], ez_mInitializedIfaces = [], ez_mHelpers = []\<rparr>) \<noteq> None
            \<longleftrightarrow> i \<in> fst ` set m))"
proof -
  obtain js s1 m past' s' where j: "peak_getCanIfaces L s = Inr (js, s1)"
      and c: "create_helpers K L r [] past s = Inr (m, past', s')" and ok: "registry_ok m (open_sockets past) past' s'"
      and m: "set m = initialized (socket_outcomes K r is past0) \<union> initialized (peak_outcomes L r js s1)"
      and r: "smap_map helper_backend m = createCanHelpers (\<lambda>b. case b of SocketCan \<Rightarrow> is | PeakCan \<Rightarrow> js)
        (\<lambda>b. came_up (case b of SocketCan \<Rightarrow> socket_outcomes K r is past0 | PeakCan \<Rightarrow> peak_outcomes L r js s1)) []"
    using create_helpers_ok [OF assms, of L r] by (elim exE conjE)
  let ?init = "\<lambda>b. came_up (case b of SocketCan \<Rightarrow> socket_outcomes K r is past0 | PeakCan \<Rightarrow> peak_outcomes L r js s1)"
  have "getSender i (easy_initialize (\<lambda>b. case b of SocketCan \<Rightarrow> is | PeakCan \<Rightarrow> js) ?init
      \<lparr>ez_mSenders = [], ez_mReceivers = [], ez_mInitializedIfaces = [], ez_mHelpers = []\<rparr>) \<noteq> None
    \<longleftrightarrow> i \<in> fst ` set m" for i
  proof -
    have "i \<in> fst ` set m \<longleftrightarrow> smap_find (smap_map helper_backend m) i \<noteq> None"
      by (simp add: smap_find_map smap_find_None_iff)
    also have "\<dots> \<longleftrightarrow> i \<in> set is \<and> ?init SocketCan i \<or> i \<in> set js \<and> ?init PeakCan i"
      by (auto simp: r createCanHelpers_def add_helpers_find)
    finally show ?thesis by (subst easy_senders) (simp_all add: ex_backend)
  qed
  moreover have "\<forall>e \<in> set m. helper_ready e" using ok by (simp add: registry_ok_def)
  ultimately show ?thesis
    unfolding Let_def by (intro exI [of _ js] exI [of _ s1] exI [of _ m] exI [of _ past'] exI [of _ s'] conjI allI j c m r)
qed

lemma can0_came_up: "came_up (socket_outcomes one_can 250000 [to_iface ''can0''] past) i \<longleftrightarrow> i = to_iface ''can0''"
proof -
  let ?r = "run_state (socket_initialize one_can ''can0'' 250000 SocketCanHelper) past"
  have c: "take 15 (c_text ''can0'') = ''can0''" "\<not> sublist ''virtual'' (c_text ''/sys/devices/platform/can0'')"
    and t: "iface_text (to_iface ''can0'') = ''can0''"
    by code_simp+
  have "fst (fst ?r)"
    using c by (simp add: socket_initialize_def socket_link_def socket_defs socket_open_def one_can_def
      SocketCanHelper_def next_socket_def)
  then obtain h p where "?r = ((True, h), p)" by (cases ?r; cases "fst ?r") auto
  then show ?thesis by (auto simp: came_up_def t)
qed

theorem backends_implement_helpers_witness:
  "\<exists>m past' s'. create_helpers one_can no_pcan 250000 [] [] (PeakCanSymbols ()) = Inr (m, past', s')
    \<and> (\<forall>e \<in> set m. helper_ready e) \<and> smap_map helper_backend m = [(to_iface ''can0'', SocketCan)]"
proof -
  have i: "fst (run_state (socket_getCanIfaces one_can) []) = Inr [to_iface ''can0'']"
    and d: "set [to_iface ''can0''] \<inter> fst ` set PeakCanChannels = {}"
    and p: "peak_getCanIfaces no_pcan (PeakCanSymbols ()) = Inr ([], snd (tryLoadSymbols no_pcan (PeakCanSymbols ())))"
    by code_simp+
  obtain past0 where k: "run_state (socket_getCanIfaces one_can) [] = (Inr [to_iface ''can0''], past0)"
    using i by (metis prod.collapse)
  have r: "createCanHelpers (\<lambda>b. case b of SocketCan \<Rightarrow> [to_iface ''can0''] | PeakCan \<Rightarrow> [])
      (\<lambda>b. came_up (case b of SocketCan \<Rightarrow> socket_outcomes one_can 250000 [to_iface ''can0''] past0
        | PeakCan \<Rightarrow> os)) [] = [(to_iface ''can0'', SocketCan)]" for os
    by (simp add: createCanHelpers_def add_helpers_def can0_came_up del: socket_outcomes.simps)
  obtain js s1 m past' s' where j: "peak_getCanIfaces no_pcan (PeakCanSymbols ()) = Inr (js, s1)"
    and c: "create_helpers one_can no_pcan 250000 [] [] (PeakCanSymbols ()) = Inr (m, past', s')" "\<forall>e \<in> set m. helper_ready e"
    and m: "smap_map helper_backend m = createCanHelpers (\<lambda>b. case b of SocketCan \<Rightarrow> [to_iface ''can0''] | PeakCan \<Rightarrow> js)
      (\<lambda>b. came_up (case b of SocketCan \<Rightarrow> socket_outcomes one_can 250000 [to_iface ''can0''] past0
        | PeakCan \<Rightarrow> peak_outcomes no_pcan 250000 js s1)) []"
    using backends_implement_helpers [OF fresh_one_can peak_ok_start [of "()"] k d, where L = no_pcan and r = 250000]
    unfolding Let_def by (elim exE conjE)
  have js: "js = []" using j p by simp
  show ?thesis using c m [unfolded js r] by (intro exI [of _ m] exI [of _ past'] exI [of _ s'] conjI)
qed

text \<open>C27: No socket is lost when the interfaces of the kernel can be listed and none has the name of a PEAK channel:
  whatever the kernel answers otherwise, the sockets open after the helpers are created are those of the helpers
  that are kept and those of before; after all are finalized only those of before; and every interface of a
  socket helper is told to go down.\<close>

theorem sockets_all_closed:
  assumes "fresh_sockets K" and "peak_ok s"
    and "run_state (socket_getCanIfaces K) past = (Inr is, past0)" and "set is \<inter> fst ` set PeakCanChannels = {}"
  shows "\<exists>m past' s' new s''. create_helpers K L r [] past s = Inr (m, past', s')
    \<and> held m \<inter> open_sockets past = {} \<and> open_sockets past' = open_sockets past \<union> held m
    \<and> finalize_helpers K L m past' s' = Inr (past' @ new, s'') \<and> open_sockets (past' @ new) = open_sockets past
    \<and> (\<forall>(i, h) \<in> set m. helper_backend h = SocketCan \<longrightarrow> System (SET_IFACE_DOWN_CMD (iface_text i)) \<in> fst ` set new)"
proof -
  obtain js s1 m past' s' where c: "create_helpers K L r [] past s = Inr (m, past', s')"
      "registry_ok m (open_sockets past) past' s'"
    using create_helpers_ok [OF assms, of L r] by (elim exE conjE)
  from c(2) have m: "\<forall>e \<in> set m. helper_ready e" "peak_ok s'"
      "PeakCan \<in> helper_backend ` snd ` set m \<longrightarrow> pk_mSymbolsLoaded s'" "held m \<inter> open_sockets past = {}"
      "open_sockets past' = open_sockets past \<union> held m"
    by (simp_all add: registry_ok_def)
  obtain new s'' where f: "finalize_helpers K L m past' s' = Inr (past' @ new, s'')"
      "open_sockets (past' @ new) = open_sockets past' - held m"
      "\<forall>(i, h) \<in> set m. helper_backend h = SocketCan \<longrightarrow> System (SET_IFACE_DOWN_CMD (iface_text i)) \<in> fst ` set new"
    using finalize_helpers_ok [OF m(1-3), of K L past'] by (elim exE conjE)
  have "open_sockets (past' @ new) = open_sockets past" using f(2) m(4,5) by auto
  with c(1) m(4,5) f(1,3) show ?thesis by blast
qed

theorem sockets_all_closed_witness:
  "\<exists>m past' s' new s''. create_helpers one_can no_pcan 250000 [] [] (PeakCanSymbols ()) = Inr (m, past', s')
    \<and> finalize_helpers one_can no_pcan m past' s' = Inr (past' @ new, s'') \<and> open_sockets (past' @ new) = {}"
proof -
  have i: "fst (run_state (socket_getCanIfaces one_can) []) = Inr [to_iface ''can0'']"
    and d: "set [to_iface ''can0''] \<inter> fst ` set PeakCanChannels = {}"
    by code_simp+
  obtain past0 where "run_state (socket_getCanIfaces one_can) [] = (Inr [to_iface ''can0''], past0)"
    using i by (metis prod.collapse)
  from sockets_all_closed [OF fresh_one_can peak_ok_start this d, where L = no_pcan and r = 250000] show ?thesis by fastforce
qed

text \<open>C28: An interface that is initialized was up already, or was brought up, after its bit rate was set unless it is
  virtual; and its socket was opened and bound only then. The bit rate is not set when the interface is up.\<close>

theorem interface_brought_up:
  assumes "run_state (socket_initialize K interface bitrate h) past = ((True, h'), past')"
  defines "up \<equiv> kn_answer K past (Popen (GET_IFACE_STAT_CMD interface))"
  defines "path \<equiv> kn_realpath K (past @ [(Popen (GET_IFACE_STAT_CMD interface), up)]) (sys_class_path interface)"
  shows "\<exists>a b c d index. past' = past @ (Popen (GET_IFACE_STAT_CMD interface), up)
      # (if up > 0 then []
         else (RealPath (sys_class_path interface), 0)
           # (if sublist ''virtual'' (c_text path) then [] else [(System (SET_IFACE_BITRATE_CMD interface bitrate), 0)])
           @ [(System (SET_IFACE_UP_CMD interface), 0)])
      @ [(OpenSocket, sh_mSock h'), (SetTimestamping (sh_mSock h'), a), (IfIndex (sh_mSock h') (take 15 (c_text interface)), b),
         (BindSocket (sh_mSock h') index, c), (SetRecvOwnMsgs (sh_mSock h'), d)]
    \<and> sh_mTimeStamp h' = (sh_mTimeStamp h \<and> 0 \<le> a) \<and> 0 \<le> sh_mSock h' \<and> 0 \<le> b \<and> 0 \<le> c \<and> 0 \<le> d"
proof -
  let ?h = "h\<lparr>sh_mInterface := interface\<rparr>"
  obtain ready p where l: "run_state (socket_link K bitrate ?h) past = (ready, p)" by force
  with assms(1) have ready: "ready" and o: "run_state (socket_open K interface ?h) p = ((True, h'), past')"
    by (auto simp: socket_initialize_def Let_def split: if_splits)
  from socket_open_calls [OF o] socket_link_calls [OF l [unfolded eqTrueI [OF ready]]]
  show ?thesis unfolding up_def path_def by auto
qed

theorem interface_brought_up_witness:
  "\<exists>h' a b c d index. run_state (socket_initialize one_can ''can0'' 500000 SocketCanHelper) []
    = ((True, h'), [(Popen ''ip link show can0 up'', 0), (RealPath ''/sys/class/net/can0'', 0),
        (System ''ip link set can0 type can bitrate 500000'', 0), (System ''ip link set can0 up'', 0),
        (OpenSocket, 3), (SetTimestamping 3, a), (IfIndex 3 ''can0'', b), (BindSocket 3 index, c), (SetRecvOwnMsgs 3, d)])"
proof -
  let ?r = "run_state (socket_initialize one_can ''can0'' 500000 SocketCanHelper) []"
  have c: "take 15 (c_text ''can0'') = ''can0''" "\<not> sublist ''virtual'' (c_text ''/sys/devices/platform/can0'')"
    "GET_IFACE_STAT_CMD ''can0'' = ''ip link show can0 up''" "sys_class_path ''can0'' = ''/sys/class/net/can0''"
    "SET_IFACE_UP_CMD ''can0'' = ''ip link set can0 up''"
    by code_simp+
  have ok: "fst (fst ?r)" "sh_mSock (snd (fst ?r)) = 3"
    using c(1,2) by (simp_all add: socket_initialize_def socket_link_def socket_defs socket_open_def one_can_def
      SocketCanHelper_def next_socket_def)
  obtain h' p where r: "?r = ((True, h'), p)"
    using ok(1) by (cases ?r; cases "fst ?r") auto
  with ok(2) have s: "sh_mSock h' = 3" by (simp only: fst_conv snd_conv)
  have k: "kn_answer one_can [] (Popen cmd) = 0" "kn_realpath one_can q path = ''/sys/devices/platform/can0''" for cmd q path
    by (simp_all add: one_can_def)
  have d: "char_of (53 :: nat) = CHR ''5''" "char_of (48 :: nat) = CHR ''0''" by code_simp+
  have "show_digits 10 500000 = ''500000''" by (simp add: show_digits.simps digit_char_def d)
  then have b: "SET_IFACE_BITRATE_CMD ''can0'' 500000 = ''ip link set can0 type can bitrate 500000''"
    by (simp add: SET_IFACE_BITRATE_CMD_def command_def c_text_def show_signed_def)
  from interface_brought_up [OF r] show ?thesis unfolding r s k b c
    by (simp only: c(2) if_False if_True less_irrefl not_False_eq_True) auto
qed

text \<open>A frame that is sent with a PEAK adapter is what a receiver gets when the message arrives, whatever was in the
  memory of the message, and its time is the total of the library's, as long as the milliseconds have not
  overflowed.\<close>

theorem peak_frames_unchanged:
  assumes "length (cf_mData f) \<le> 8" and "length junk = 8" and "unat (pt_micros t) < 1000" and "pt_millis_overflow t = 0"
  shows "\<exists>m ts. peak_message junk f = Inr m \<and> peak_reception (0, m, t) = Inr (Some (f, ts))
    \<and> unat (mMicroSec ts) < 1000000
    \<and> unat (mSeconds ts) * 1000000 + unat (mMicroSec ts)
      = unat (pt_micros t) + 1000 * unat (pt_millis t) + 0xFFFFFFFF * 1000 * unat (pt_millis_overflow t)"
  using peak_message_reception [OF assms(1,2), of t] peak_timestamp_micros [OF assms(3)] assms(4) by auto

theorem peak_frames_unchanged_witness:
  "\<exists>m ts. peak_message (replicate 8 0x55) \<lparr>cf_mExtendedFormat = True, cf_mId = 0x18FEF100, cf_mData = [1, 2, 3]\<rparr> = Inr m
    \<and> peak_reception (0, m, \<lparr>pt_millis = 61500, pt_millis_overflow = 0, pt_micros = 250\<rparr>)
      = Inr (Some (\<lparr>cf_mExtendedFormat = True, cf_mId = 0x18FEF100, cf_mData = [1, 2, 3]\<rparr>, ts))
    \<and> unat (mSeconds ts) * 1000000 + unat (mMicroSec ts) = 61500250"
  using peak_frames_unchanged [of "\<lparr>cf_mExtendedFormat = True, cf_mId = 0x18FEF100, cf_mData = [1, 2, 3]\<rparr>" "replicate 8 0x55"
    "\<lparr>pt_millis = 61500, pt_millis_overflow = 0, pt_micros = 250\<rparr>"] by auto

text \<open>When \<open>recvmsg\<close> fails, what the sniffer calls back with is a frame with the identifier 0, at the time 0.\<close>

theorem failed_reception_delivered:
  "\<exists>f. socket_receive_msg stamps None (CanFrame_default ext) ts_zero = Inr (True, f, ts_zero)
    \<and> (rc_mFilters recv = [] \<longrightarrow> notify_recv recv (Some (f, ts_zero)) = [(\<lparr>cf_mExtendedFormat = ext, cf_mId = 0, cf_mData = []\<rparr>, ts_zero, rc_mInterface recv)])"
  by (simp add: socket_receive_msg_def CanFrame_default_def notify_recv_def rc_filter_def)

end
