(* ===== verification/ClaimProgram.thy ===== *)
theory ClaimProgram
  imports AddressNetwork CanEasy JsonLib ToolBase
begin

unbundle bit_operations_syntax

text \<open>
  How \<open>BinUtils/j1939AddrClaim/j1939AddrClaim.cpp\<close> starts: its options, the addresses given as a JSON list, and
  the claimer made of them. What it does then is in \<open>AddressNetwork\<close>.
\<close>

section \<open>The program\<close>

text \<open>\<open>main\<close> ends, is ended by \<open>Json::LogicError\<close>, or has a claimer running.\<close>

datatype claim_end = Ended quit | LogicErrorThrown | Started claimer

text \<open>Interface, preferred addresses and identity number; of several the last one counts.\<close>

fun claim_options :: "(char \<times> string) list \<Rightarrow> string \<times> string \<times> string \<Rightarrow> string \<times> string \<times> string" where
  "claim_options [] r = r"
| "claim_options ((c, optarg) # opts) (interface, preferredAddr, idNumberStr) =
     claim_options opts
       (if c = CHR ''i'' then (optarg, preferredAddr, idNumberStr)
        else if c = CHR ''p'' then (interface, optarg, idNumberStr)
        else if c = CHR ''n'' then (interface, preferredAddr, optarg)
        else (interface, preferredAddr, idNumberStr))"

text \<open>The items that are addresses; the others are left out.\<close>

fun claim_addresses :: "'v json_lib \<Rightarrow> 'v \<Rightarrow> nat list \<Rightarrow> u8 list option" where
  "claim_addresses J addresses [] = Some []"
| "claim_addresses J addresses (i # is) =
     Option.bind (js_at J addresses i) (\<lambda>a.
     Option.bind (if js_isUInt J a
                  then map_option (\<lambda>n. if n = n AND 0xFF then [ucast n] else []) (js_asUInt J a)
                  else Some []) (\<lambda>p.
     map_option (\<lambda>ps. p @ ps) (claim_addresses J addresses is)))"

text \<open>
  \<open>parse\<close> is the reader of the library. Whether the list is empty is asked of the JSON value, not of the addresses
  taken from it: without any of these the constructor's assertion ends the program.
\<close>

definition claim_main ::
  "'v json_lib \<Rightarrow> (string \<Rightarrow> 'v option) \<Rightarrow> (backend \<Rightarrow> iface list) \<Rightarrow> (backend \<Rightarrow> iface \<Rightarrow> bool) \<Rightarrow> can_easy
   \<Rightarrow> (char \<times> string) list \<Rightarrow> claim_end \<times> can_easy" where
  "claim_main J parse ifaces init easy opts =
     (let (interface, preferredAddr, idNumberStr) = claim_options opts ([], [], [])
      in case number_param 10 idNumberStr of
           Inl q \<Rightarrow> (Ended q, easy)
         | Inr None \<Rightarrow> (Ended (Quit (- 1)), easy)
         | Inr (Some idNumber) \<Rightarrow>
             let easy = easy_initialize_recv ifaces init easy
             in (if to_iface interface \<notin> set (getInterfaces ifaces) then Ended (Quit (- 2))
                 else if getSender (to_iface interface) easy = None then Ended (Quit (- 3))
                 else case parse preferredAddr of
                        None \<Rightarrow> Ended (Quit (- 4))
                      | Some addresses \<Rightarrow>
                          if \<not> js_isArray J addresses then Ended (Quit (- 5))
                          else case claim_addresses J addresses [0 ..< js_size J addresses] of
                                 None \<Rightarrow> LogicErrorThrown
                               | Some preferred \<Rightarrow>
                                   if js_size J addresses = 0 then Ended (Quit (- 6))
                                   else case AddressClaimer (EcuName_init\<lparr>mIdNumber := idNumber\<rparr>) preferred of
                                          Inl e \<Rightarrow> Ended (Killed e)
                                        | Inr c \<Rightarrow> Started c, easy))"

section \<open>The addresses\<close>

text \<open>What an item of the list stands for.\<close>

definition address_of :: "'v json_lib \<Rightarrow> 'v \<Rightarrow> u8 option" where
  "address_of J a =
     (if js_isUInt J a
      then (case js_asUInt J a of Some n \<Rightarrow> if n = n AND 0xFF then Some (ucast n) else None | None \<Rightarrow> None)
      else None)"

context json_values
begin

text \<open>For any library with the documented laws, as long as an unsigned number can be read as one.\<close>

lemma claim_addresses_items:
  assumes "items v = Some xs" and "\<forall>x \<in> set xs. js_isUInt J x \<longrightarrow> js_asUInt J x \<noteq> None" and "set is \<subseteq> {..< length xs}"
  shows "claim_addresses J v is = Some (List.map_filter (address_of J) (map (nth xs) is))"
  using assms(3)
proof (induction "is")
  case Nil
  show ?case by (simp add: map_filter_simps)
next
  case (Cons i "is")
  then have i: "i < length xs" "xs ! i \<in> set xs" by auto
  have "js_at J v i = Some (xs ! i)" using at [OF assms(1)] i(1) by simp
  with Cons i(2) assms(2) show ?case
    by (auto simp: map_filter_simps address_of_def split: option.splits)
qed

lemma claim_addresses_all:
  assumes "items v = Some xs" and "\<forall>x \<in> set xs. js_isUInt J x \<longrightarrow> js_asUInt J x \<noteq> None"
  shows "claim_addresses J v [0 ..< js_size J v] = Some (List.map_filter (address_of J) xs)"
proof -
  have "map (nth xs) [0 ..< length xs] = xs" by (rule map_nth)
  then show ?thesis
    using claim_addresses_items [OF assms, of "[0 ..< length xs]"] size [OF assms(1)] by (simp add: atLeast0LessThan)
qed

end

lemma tree_uint_defined: "js_isUInt tree_json x \<longrightarrow> js_asUInt tree_json x \<noteq> None"
  by (simp add: tree_json_def)

section \<open>Properties\<close>

text \<open>Started with an interface that can send, a number and a list, the program runs a claimer with that number as
  its identity and with the addresses of the list in their order; a list without any, even if it is not empty,
  ends it, with an assertion where it should be an error message.\<close>

theorem claim_program_starts:
  assumes "stoul 10 number = Inr n" and "to_iface interface \<in> set (getInterfaces ifaces)"
    and "getSender (to_iface interface) (easy_initialize_recv ifaces init easy) \<noteq> None"
    and "parse preferred = Some (JArray xs)"
  defines "ps \<equiv> List.map_filter (address_of tree_json) xs"
  shows "fst (claim_main tree_json parse ifaces init easy [(CHR ''i'', interface), (CHR ''n'', number), (CHR ''p'', preferred)])
    = (if xs = [] then Ended (Quit (- 6))
       else if ps = [] then Ended (Killed AssertExit)
       else Started (fresh_claimer (ucast n) ps))"
proof -
  have "claim_addresses tree_json (JArray xs) [0 ..< js_size tree_json (JArray xs)] = Some ps"
    unfolding ps_def by (rule tree.claim_addresses_all) (simp_all add: tree_uint_defined)
  moreover have "js_isArray tree_json (JArray xs)" "js_size tree_json (JArray xs) = length xs"
    by (simp_all add: tree_json_def)
  ultimately show ?thesis
    using assms(1-4) by (auto simp: claim_main_def number_param_def AddressClaimer_def fresh_claimer_def plain_name_def)
qed

theorem claim_program_starts_witness:
  "fst (claim_main tree_json (\<lambda>t. Some (JArray [JNumber 128, JNumber 300, JNumber 129])) (\<lambda>b. if b = SocketCan then [to_iface ''can0''] else [])
      (\<lambda>b i. True) \<lparr>ez_mSenders = [], ez_mReceivers = [], ez_mInitializedIfaces = [], ez_mHelpers = []\<rparr>
      [(CHR ''i'', ''can0''), (CHR ''n'', ''9''), (CHR ''p'', ''[128, 300, 129]'')])
    = Started (fresh_claimer 9 [128, 129])"
proof -
  let ?ifaces = "\<lambda>b. if b = SocketCan then [to_iface ''can0''] else []"
  have "stoul 10 ''9'' = Inr 9" by code_simp
  moreover have "to_iface ''can0'' \<in> set (getInterfaces ?ifaces)" by (simp add: getInterfaces_def)
  moreover have "getSender (to_iface ''can0'') (easy_initialize_recv ?ifaces (\<lambda>b i. True)
      \<lparr>ez_mSenders = [], ez_mReceivers = [], ez_mInitializedIfaces = [], ez_mHelpers = []\<rparr>) \<noteq> None"
    by (simp add: easy_initialize_recv_def createCanHelpers_def add_helpers_def easy_add_sender_def getSender_def smap_find_def Let_def)
  moreover have "List.map_filter (address_of tree_json) [JNumber 128, JNumber 300, JNumber 129] = [128, 129]"
    by code_simp
  ultimately show ?thesis
    using claim_program_starts [of "''9''" 9 "''can0''" ?ifaces "\<lambda>b i. True"
      "\<lparr>ez_mSenders = [], ez_mReceivers = [], ez_mInitializedIfaces = [], ez_mHelpers = []\<rparr>"
      "\<lambda>t. Some (JArray [JNumber 128, JNumber 300, JNumber 129])" "''[128, 300, 129]''"] by simp
qed

text \<open>Any number of these programs on a bus, with identities of at most 21 bits: what the claimers of the bus
  guarantee holds of the programs, whatever options they are given.\<close>

theorem programs_exclusive:
  assumes "\<forall>c \<in> set cs. \<exists>parse ifaces init easy opts. fst (claim_main J parse ifaces init easy opts) = Started c
      \<and> mIdNumber (mEcuName c) < 2 ^ 21"
    and "net_reach (getJ1939Frame (default_factory ref)) (net_init cs) s" and "quiet s"
    and "i < length (nt_nodes s)" and "j < length (nt_nodes s)" and "i \<noteq> j" and "holds a (nt_nodes s ! i)"
  shows "\<not> holds a (nt_nodes s ! j)"
proof -
  have made: "\<exists>name preferred. ecu_valid name \<and> AddressClaimer name preferred = Inr c" if c: "c \<in> set cs" for c
  proof -
    from assms(1) c obtain parse ifaces init easy opts where
      m: "fst (claim_main J parse ifaces init easy opts) = Started c" "mIdNumber (mEcuName c) < 2 ^ 21" by blast
    then obtain n preferred where a: "AddressClaimer (EcuName_init\<lparr>mIdNumber := n\<rparr>) preferred = Inr c"
      by (auto simp: claim_main_def Let_def split: prod.splits sum.splits option.splits if_splits)
    then have "mEcuName c = EcuName_init\<lparr>mIdNumber := n\<rparr>" by (auto simp: AddressClaimer_def split: if_splits)
    then have "ecu_valid (EcuName_init\<lparr>mIdNumber := n\<rparr>)" using m(2) by (simp add: ecu_valid_def EcuName_init_def)
    with a show ?thesis by blast
  qed
  show ?thesis
    using default_bus.exclusive [OF assms(2) made assms(3-7)] by blast
qed

end
