(* ===== verification/Printing.thy ===== *)
theory Printing
  imports Factory TraceRoundtrip
begin

text \<open>
  What frames and their parts are printed as: \<open>getHeader\<close> and the methods \<open>toString\<close>, as the programs put them on
  the screen.
\<close>

section \<open>Streams\<close>

definition endl :: string where "endl = [CHR 0x0A]"

definition tab :: string where "tab = [CHR 0x09]"

text \<open>A double with \<open>std::fixed\<close> has six decimals, rounded to the nearest and of two to the even; the sign of a NaN is not kept.\<close>

definition show_fixed :: "double \<Rightarrow> string" where
  "show_fixed d =
     (case d of
        Fin q \<Rightarrow>
          let n = nat (rint_even (\<bar>q\<bar> * 10 ^ 6))
          in (if q < 0 then ''-'' else []) @ show_digits 10 (n div 10 ^ 6) @ ''.''
             @ pad_left (CHR ''0'') 6 (show_digits 10 (n mod 10 ^ 6))
      | NZero \<Rightarrow> ''-0.000000''
      | Inf negative \<Rightarrow> if negative then ''-inf'' else ''inf''
      | NaN \<Rightarrow> ''nan'')"

section \<open>Parts of frames\<close>

definition TellTale_toString :: "TellTale \<Rightarrow> string" where
  "TellTale_toString t =
     ''TTS '' @ show_digits 10 (unat (tt_mNumber t)) @ '': '' @ getNameForTTSNumber (tt_mNumber t) @ '' -> Status: ''
     @ getSatusname (tt_mStatus t) @ '' ('' @ show_digits 10 (unat (tt_mStatus t)) @ '')'' @ endl"

definition DTC_toString :: "DTC \<Rightarrow> string" where
  "DTC_toString d =
     ''Diagnosis Trouble Code -> Spn: '' @ show_digits 10 (unat (mSPN d)) @ '' Failure Mode Identifier: ''
     @ show_digits 10 (unat (mFMI d)) @ ''Occurrence Count: '' @ show_digits 10 (unat (mOC d)) @ endl"

definition SPNNumeric_toString :: "SPNNumericSpec \<Rightarrow> u32 \<Rightarrow> string" where
  "SPNNumeric_toString spec v = '' -> Value: '' @ show_fixed (getFormattedValue spec v) @ '' '' @ mUnits spec @ endl"

definition SPNStatus_toString :: "SPNStatusSpec \<Rightarrow> u8 \<Rightarrow> string" where
  "SPNStatus_toString spec v =
     '' -> Status: '' @ getValueDescription spec v @ '' ('' @ show_digits 10 (unat v) @ '')'' @ endl"

definition SPNString_toString :: "bytes \<Rightarrow> string" where
  "SPNString_toString v = '' -> Value: '' @ map (\<lambda>b. char_of (unat b)) v @ endl"

definition SPN_toString :: "SPN \<Rightarrow> string" where
  "SPN_toString s =
     ''SPN '' @ show_digits 10 (unat (mSPNNumber (mSpec s))) @ '': '' @ mSpecName (mSpec s)
     @ (case mSpnData s of
          SpnNumeric spec v \<Rightarrow> SPNNumeric_toString spec v
        | SpnStatus spec v \<Rightarrow> SPNStatus_toString spec v
        | SpnString off v \<Rightarrow> SPNString_toString v)"

definition EcuName_toString :: "EcuName \<Rightarrow> string" where
  "EcuName_toString n =
     ''Id Number: '' @ show_digits 10 (unat (mIdNumber n)) @ endl
     @ ''Manufacturer Code: '' @ show_digits 10 (unat (mManufacturerCode n)) @ endl
     @ ''ECU Intance: '' @ show_digits 10 (unat (mEcuInstance n)) @ endl
     @ ''Function Instance: '' @ show_digits 10 (unat (mFunctionInstance n)) @ endl
     @ ''Function: '' @ show_digits 10 (unat (mFunction n)) @ endl
     @ ''Vehicle System: '' @ show_digits 10 (unat (mVehicleSystem n)) @ endl
     @ ''Vehicle System Instance: '' @ show_digits 10 (unat (mVehicleSystemInstance n)) @ endl
     @ ''Industry Group: '' @ show_digits 10 (unat (mIndustryGroup n)) @ endl
     @ ''Address Capable: '' @ (if mArbitraryAddressCapable n then ''yes'' else ''no'') @ endl"

section \<open>Frames\<close>

definition getHeader :: "'p frame \<Rightarrow> string" where
  "getHeader f =
     (let group1 = getPDUFormatGroup (mPgn f) = PDU_FORMAT_1
      in ''Name'' @ tab @ ''PGN'' @ tab @ ''Source Address'' @ tab @ ''PDU format'' @ tab
         @ (if group1 then ''Dest Address'' @ tab else []) @ ''Priority'' @ tab @ endl
         @ mName f @ tab @ show_hex_upper 0 (unat (mPgn f)) @ tab @ show_hex_upper 0 (unat (mSrcAddr f)) @ tab @ tab
         @ (if group1 then ''1'' else ''2'') @ tab @ tab @ (if group1 then show_hex_upper 0 (unat (mDstAddr f)) @ tab else [])
         @ show_hex_upper 0 (unat (mPriority f)) @ tab @ endl)"

text \<open>The name of the frame asked for, if the factory knows it. The transport frames print their header only.\<close>

definition Request_toString :: "factory \<Rightarrow> request \<Rightarrow> string" where
  "Request_toString m r =
     ''Request PGN: '' @ show_digits 16 (unat (mRequestPGN r)) @ '' ''
     @ (case getJ1939Frame_pgn m (mRequestPGN r) of None \<Rightarrow> [] | Some f \<Rightarrow> mName f) @ endl"

definition GenericFrame_toString :: "generic \<Rightarrow> string" where
  "GenericFrame_toString g = concat (map (\<lambda>(k, s). SPN_toString s) (mSPNs g))"

definition DM1_toString :: "dm1 \<Rightarrow> string" where
  "DM1_toString m = GenericFrame_toString (mGeneric m) @ concat (map DTC_toString (mDtcs m))"

definition FMS1Frame_toString :: "fms1 \<Rightarrow> string" where
  "FMS1Frame_toString m =
     ''Block ID: '' @ show_digits 10 (unat (mBlockID m)) @ endl @ concat (map (\<lambda>(k, t). TellTale_toString t) (mTTSs m))"

fun payload_toString :: "factory \<Rightarrow> payload \<Rightarrow> string" where
  "payload_toString m (TPCM c) = []"
| "payload_toString m (TPDT d) = []"
| "payload_toString m (FMS1P f) = FMS1Frame_toString f"
| "payload_toString m (DM1P d) = DM1_toString d"
| "payload_toString m (AddrClaim n) = EcuName_toString n"
| "payload_toString m (Request r) = Request_toString m r"
| "payload_toString m (Generic g) = GenericFrame_toString g"

definition jframe_toString :: "factory \<Rightarrow> jframe \<Rightarrow> string" where
  "jframe_toString m f = getHeader f @ payload_toString m (mBody f)"

section \<open>Reading it again\<close>

lemma separated:
  assumes "x @ c # r = y @ c # s" and "c \<notin> set x" and "c \<notin> set y"
  shows "x = y \<and> r = s"
  using assms
proof (induction x arbitrary: y)
  case Nil
  then show ?case by (cases y) auto
next
  case (Cons a x)
  then show ?case by (cases y) auto
qed

lemma hex_no_tab: "CHR 0x09 \<notin> set (show_hex_upper w n)"
proof
  assume "CHR 0x09 \<in> set (show_hex_upper w n)"
  then have "is_digit 16 (CHR 0x09)" using hex_upper_digits(1) by blast
  then show False by (simp add: is_digit_def digit_value_def)
qed

lemma hex_inj: "show_hex_upper w m = show_hex_upper w n \<Longrightarrow> m = n"
  by (metis hex_upper_digits(2) of_nat_eq_iff)

lemma hex_word_inj: "show_hex_upper w (unat a) = show_hex_upper w (unat b) \<Longrightarrow> a = b"
  using hex_inj word_unat_eq_iff by blast

text \<open>The fields after the name, up to the end of the line.\<close>

definition header_fields :: "'p frame \<Rightarrow> string" where
  "header_fields f =
     show_hex_upper 0 (unat (mPgn f)) @ tab @ show_hex_upper 0 (unat (mSrcAddr f)) @ tab @ tab
     @ (if getPDUFormatGroup (mPgn f) = PDU_FORMAT_1 then ''1'' else ''2'') @ tab @ tab
     @ (if getPDUFormatGroup (mPgn f) = PDU_FORMAT_1 then show_hex_upper 0 (unat (mDstAddr f)) @ tab else [])
     @ show_hex_upper 0 (unat (mPriority f)) @ tab @ endl"

lemma header_fields_inj:
  assumes "header_fields f = header_fields g"
  shows "mPgn f = mPgn g \<and> mSrcAddr f = mSrcAddr g \<and> mPriority f = mPriority g
    \<and> (getPDUFormatGroup (mPgn f) = PDU_FORMAT_1 \<longrightarrow> mDstAddr f = mDstAddr g)"
proof -
  let ?rest = "\<lambda>f. tab @ (if getPDUFormatGroup (mPgn f) = PDU_FORMAT_1 then ''1'' else ''2'') @ tab @ tab
     @ (if getPDUFormatGroup (mPgn f) = PDU_FORMAT_1 then show_hex_upper 0 (unat (mDstAddr f)) @ tab else [])
     @ show_hex_upper 0 (unat (mPriority f)) @ tab @ endl"
  have e: "show_hex_upper 0 (unat (mPgn f)) @ CHR 0x09 # (show_hex_upper 0 (unat (mSrcAddr f)) @ CHR 0x09 # ?rest f)
      = show_hex_upper 0 (unat (mPgn g)) @ CHR 0x09 # (show_hex_upper 0 (unat (mSrcAddr g)) @ CHR 0x09 # ?rest g)"
    using assms by (simp add: header_fields_def tab_def)
  from separated [OF e hex_no_tab hex_no_tab] have p: "mPgn f = mPgn g"
    and s: "show_hex_upper 0 (unat (mSrcAddr f)) @ CHR 0x09 # ?rest f = show_hex_upper 0 (unat (mSrcAddr g)) @ CHR 0x09 # ?rest g"
    using hex_word_inj by blast+
  from separated [OF s hex_no_tab hex_no_tab] have sr: "mSrcAddr f = mSrcAddr g" "?rest f = ?rest g"
    using hex_word_inj by blast+
  have last: "mPriority f = mPriority g"
    if "show_hex_upper 0 (unat (mPriority f)) @ CHR 0x09 # endl = show_hex_upper 0 (unat (mPriority g)) @ CHR 0x09 # endl"
    using separated [OF that hex_no_tab hex_no_tab] hex_word_inj by blast
  show ?thesis
  proof (cases "getPDUFormatGroup (mPgn f) = PDU_FORMAT_1")
    case True
    with sr(2) p have "show_hex_upper 0 (unat (mDstAddr f)) @ CHR 0x09 # (show_hex_upper 0 (unat (mPriority f)) @ CHR 0x09 # endl)
        = show_hex_upper 0 (unat (mDstAddr g)) @ CHR 0x09 # (show_hex_upper 0 (unat (mPriority g)) @ CHR 0x09 # endl)"
      by (simp add: tab_def)
    from separated [OF this hex_no_tab hex_no_tab] have "mDstAddr f = mDstAddr g" "mPriority f = mPriority g"
      using hex_word_inj last by blast+
    with p sr(1) show ?thesis by simp
  next
    case False
    with sr(2) p last have "mPriority f = mPriority g" by (simp add: tab_def)
    with False p sr(1) show ?thesis by simp
  qed
qed

text \<open>Numbers.\<close>

lemma int_split: "int (n div k) * int k + int (n mod k) = int n"
  by (simp flip: of_nat_mult of_nat_add)

lemma digits_value_padded: "digits_value 10 (pad_left (CHR ''0'') k ds) = digits_value 10 ds"
  by (simp add: pad_left_def)

section \<open>Properties\<close>

text \<open>Two frames whose headers are printed alike have the same name and the same identifier, if their names have no
  tabulator.\<close>

theorem header_tells_identifier:
  assumes "getHeader f = getHeader g" and "CHR 0x09 \<notin> set (mName f)" and "CHR 0x09 \<notin> set (mName g)"
  shows "mName f = mName g \<and> mPgn f = mPgn g \<and> getIdentifier f = getIdentifier g"
proof -
  have h: "\<exists>t. getHeader f = ''Name'' @ tab @ ''PGN'' @ tab @ ''Source Address'' @ tab @ ''PDU format'' @ tab @ t
      \<and> t = (if getPDUFormatGroup (mPgn f) = PDU_FORMAT_1 then ''Dest Address'' @ tab else []) @ ''Priority'' @ tab @ endl
        @ mName f @ CHR 0x09 # header_fields f" for f :: "'p frame"
    by (simp add: getHeader_def header_fields_def tab_def Let_def)
  from assms(1) h [of f] h [of g] have
    "(if getPDUFormatGroup (mPgn f) = PDU_FORMAT_1 then ''Dest Address'' @ tab else []) @ ''Priority'' @ tab @ endl @ mName f @ CHR 0x09 # header_fields f
     = (if getPDUFormatGroup (mPgn g) = PDU_FORMAT_1 then ''Dest Address'' @ tab else []) @ ''Priority'' @ tab @ endl @ mName g @ CHR 0x09 # header_fields g"
    by auto
  then have "mName f @ CHR 0x09 # header_fields f = mName g @ CHR 0x09 # header_fields g"
    by (auto simp: tab_def split: if_splits)
  from separated [OF this assms(2,3)] header_fields_inj [of f g] show ?thesis
    by (auto simp: getIdentifier_def wire_pgn_def)
qed

theorem header_tells_identifier_witness:
  "getHeader (sample_frame 0xEA00) = getHeader (sample_frame 0xEA00) \<and> getIdentifier (sample_frame 0xEA00) = getIdentifier (sample_frame 0xEA00)"
  using header_tells_identifier [OF refl, of "sample_frame 0xEA00"] by (simp add: sample_frame_def)

text \<open>The digits printed of a number are those of the nearest multiple of a millionth.\<close>

theorem printed_value_near:
  "\<exists>a b. show_fixed (Fin q) = (if q < 0 then ''-'' else []) @ a @ ''.'' @ b \<and> length b = 6
    \<and> \<bar>of_int (digits_value 10 a * 10 ^ 6 + digits_value 10 b) - \<bar>q\<bar> * 10 ^ 6\<bar> \<le> 1 / 2"
proof -
  have "0 \<le> rint_even (\<bar>q\<bar> * 10 ^ 6)" by (rule rint_even_nonneg) simp
  then obtain k where k: "rint_even (\<bar>q\<bar> * 10 ^ 6) = int k" by (rule nonneg_int_cases)
  let ?a = "show_digits 10 (k div 10 ^ 6)" and ?b = "pad_left (CHR ''0'') 6 (show_digits 10 (k mod 10 ^ 6))"
  have "show_fixed (Fin q) = (if q < 0 then ''-'' else []) @ ?a @ ''.'' @ ?b"
    by (simp only: show_fixed_def double.case k nat_int Let_def)
  moreover have "length (show_digits 10 (k mod 10 ^ 6)) \<le> 6" by (rule show_digits_length) simp_all
  then have "length ?b = 6" by (simp add: pad_left_def)
  moreover have "digits_value 10 ?a * 10 ^ 6 + digits_value 10 ?b = rint_even (\<bar>q\<bar> * 10 ^ 6)"
    using int_split [of k "10 ^ 6"] unfolding k by (simp add: digits_value_padded show_digits_value)
  ultimately show ?thesis using rint_even_near [of "\<bar>q\<bar> * 10 ^ 6"] by metis
qed

end
