(* ===== verification/Spec2Isabelle.thy ===== *)
theory Spec2Isabelle
  imports TimeUtils Bam History AddressNetwork CanSender CanEasy SenderWire DatabaseRoundtrip
    TraceRoundtrip GuiSafety GuiGraph ServerSafety SniffingProps DecoderProps PlaybackProps CanSend
    DissectorProps BackendsProps ClaimProgram Printing
begin

text \<open>
  A verification library for the J1939 framework: the frames of SAE J1939, their coding on a CAN bus,
  the broadcast transport protocol, address claiming, and the CAN layer below.

  \<^bold>\<open>The program.\<close> \<open>J1939/\<close> holds the frame classes. A \<open>J1939Frame\<close> has a header (priority, source,
  destination, PGN), coded in the 29-bit CAN identifier, and a body that its derived class codes in the
  data bytes. \<open>J1939Factory\<close> keeps a prototype of every known frame and turns identifier and data
  into a frame. Messages longer than eight bytes travel in pieces (\<open>Transport/BAM\<close>).
  \<open>j1939AddressClaimer/\<close> is the thread that obtains the address a controller sends from. \<open>CAN/\<close> is
  what frames are sent and received with. Programs under \<open>BinUtils/\<close> and the web back ends use these.

  \<^bold>\<open>The theories\<close>, in the order they build on each other:
  \<^item> \<open>Prelude\<close>: integer types, exceptions as values (\<open>res\<close>, and \<open>outcome\<close> where an object is left
    half changed), raw buffers with bounds, bit lemmas. \<open>OrderedMap\<close>: \<open>std::map\<close> as a sorted list, with
    its contract as the locale \<open>ordered_map\<close>.
  \<^item> \<open>TimeUtils\<close> (\<open>Common/Utils.cpp\<close>): time stamps at 32 bits and \<open>timespec\<close> arithmetic.
  \<^item> \<open>J1939Frame\<close> (\<open>J1939/J1939Frame.cpp\<close>): the header and its identifier, for any body; the locale
    \<open>frame_codec\<close> is what a derived class promises. \<open>TransportFrames\<close>, \<open>AddressClaim\<close>,
    \<open>RequestFrame\<close>, \<open>FMS1\<close>, \<open>GenericFrame\<close> (on \<open>Spn\<close>, whose conversions run on the binary64
    arithmetic of \<open>Double\<close>) and \<open>Diagnosis\<close> are the derived classes, each an interpretation of it.
    \<open>Frames\<close> is their sum, with the virtual calls as functions by cases.
  \<^item> \<open>Factory\<close> (\<open>J1939/J1939Factory.cpp\<close>): the registry; the locale \<open>frame_provider\<close> is what its
    clients rely on. \<open>Bam\<close> (\<open>J1939/Transport/BAM\<close>): fragmenter and reassembler, proved for any
    provider and used with the factory.
  \<^item> \<open>Printing\<close>: what frames and their parts are printed as (\<open>getHeader\<close>, \<open>toString\<close>).
  \<^item> \<open>History\<close> (\<open>J1939/SPN/SPNHistory.cpp\<close>): recorded SPN values and windows over them.
  \<^item> \<open>AddressClaimer\<close> (\<open>j1939AddressClaimer/AddressClaimer.cpp\<close>): the thread as a function from one of
    its waits to the next, and \<open>receive\<close>, called by others, in between (\<open>claimer_step\<close>,
    \<open>claimer_run\<close>). \<open>AddressNetwork\<close> (\<open>BinUtils/j1939AddrClaim\<close>): any number of claimers on a bus
    (\<open>net_step\<close>, \<open>net_reach\<close>); the locale \<open>claim_bus\<close> extends \<open>frame_provider\<close>. \<open>ClaimProgram\<close>: how such a
    program starts.
  \<^item> \<open>Can\<close> (\<open>CAN/CanFrame.cpp\<close>, \<open>CAN/include/CanFilter.h\<close>, \<open>CAN/CommonCanReceiver.cpp\<close>, the socket
    back end's translations), \<open>CanSender\<close> (\<open>CAN/CommonCanSender.cpp\<close>; locale \<open>periodic_sender\<close>) and
    \<open>CanEasy\<close> (\<open>CAN/CanSniffer.cpp\<close>, \<open>CAN/ICanHelper.cpp\<close>, \<open>CAN/CanEasy.cpp\<close>).
  \<^item> \<open>Sockets\<close> (\<open>CAN/Backends/Sockets\<close>) and \<open>Peak\<close> (\<open>CAN/Backends/PeakCan\<close>): the two back ends, on the
    operating system and the vendor's library as parameters; what was called and answered is kept in order
    (\<open>calls\<close>), with the state monad of the library. \<open>Backends\<close>: their helpers in the registry of
    \<open>CAN/ICanHelper.cpp\<close>, \<open>BackendsProps\<close>: that it is the registry \<open>CanEasy\<close> assumes, and which sockets stay open.
  \<^item> \<open>JsonLib\<close>: what is used of the JSON library, a parameter with its laws as the locale
    \<open>json_values\<close>, and its texts, a second parameter with \<open>json_files\<close>: what is printed and parsed again answers
    alike, if it is made of ASCII texts and finite numbers. \<open>Database\<close> (\<open>J1939/J1939DataBase.cpp\<close>): reading and writing the database of frames;
    \<open>DatabaseCodec\<close>: what is read is well formed; \<open>DatabaseRoundtrip\<close>: what is written is read again.
  \<^item> \<open>StdString\<close>: the conversions of the standard library from text to numbers. \<open>EncodeSafe\<close>: no frame
    is encoded past its buffer. \<open>Sender\<close> and \<open>SenderShell\<close> (\<open>BinUtils/j1939Sender\<close>): the globals of the
    program as the record \<open>shell\<close>, one function per command, the command tree and scripts.
    The command is looked up through a reference into a copy that is destroyed: \<open>intact\<close> says whether that memory
    still reads the same. \<open>SenderSafety\<close>: its invariant under every line and every pass of the sending threads
    (\<open>sender_step\<close>). \<open>SenderWire\<close>: what the commands do to the rings and what a receiver sees.

  \<^item> \<open>StdStream\<close>: what is used of \<open>std::ifstream\<close>. \<open>Trace\<close> (\<open>CAN/TRCReader.cpp\<close>, \<open>CAN/TRCWriter.cpp\<close>,
    \<open>BinUtils/TRCDumper\<close>, \<open>BinUtils/TRCToCap\<close>): trace files, read by a state machine character by
    character (\<open>line_step\<close>, \<open>read_loop\<close>), and why it comes to an end. \<open>DoubleError\<close>: error bounds
    for \<open>Double\<close>. \<open>TraceRoundtrip\<close>: what is recorded is converted, and how exact the times are. The reader keeps
    positions in an \<open>int\<close> (\<open>previous_pos\<close>), so that these hold for files of less than 2 GB, which 30 million
    recorded frames stay below (\<open>trc_lines_fit\<close>).

  \<^item> \<open>WebJson\<close>: what the web back ends share. \<open>Gui\<close> (\<open>GUI_WEB/backend/src/J1939GUI.cpp\<close>): the globals as the
    record \<open>gui\<close>, one function per request, the callback of the websocket and the reception of a frame.
    \<open>GuiSafety\<close>: its invariant under every event (\<open>gui_step\<close>). \<open>GuiGraph\<close> (\<open>graph.cpp\<close>): the graph of an SPN
    from its history. \<open>WebServer\<close> (\<open>web/backend/server.cpp\<close>): the handlers of the second back end,
    on a \<open>machine\<close> that says what a format that was never initialised reads as, if it can be read, and whether a
    missing \<open>va_end\<close> does harm; \<open>ServerSafety\<close>: its invariant (\<open>server_step\<close>), what it sends and when it goes wrong.

  \<^item> \<open>ToolBase\<close>: how the command line tools end, and the text they read. \<open>Sniffing\<close>
    (\<open>BinUtils/j1939Sniffer\<close>, \<open>BinUtils/j1939AddressMapper\<close>) and \<open>Decoder\<close> (\<open>BinUtils/j1939Decoder\<close>), with
    their properties in \<open>SniffingProps\<close> and \<open>DecoderProps\<close>. \<open>Playback\<close> (\<open>BinUtils/TRCPlayer\<close>,
    \<open>BinTest/FrameInject\<close>) reads trace files and sends or rewrites them, \<open>PlaybackProps\<close> says what comes of
    a recording. \<open>CanSend\<close> (\<open>CAN/CanSend.cpp\<close>): the frames of a log, each with what its
    uninitialised format reads as.

  \<^item> \<open>Dissector\<close> (\<open>wireshark/dissector/packet-j1939.cpp\<close>): the fields registered and the items added for a
    packet. \<open>DissectorProps\<close>: what is shown is what the framework decodes.

  \<^bold>\<open>How code becomes definitions.\<close> A definition has the name of the method it models, sometimes with a
  prefix for its class; the state of an object is a record with its fields. A mutating method is a
  function on the record. What throws, asserts or is undefined in C++ is a value of \<open>exc\<close>, so that
  "never undefined" can be proved. Integers keep their width; sizes are natural numbers where they
  cannot wrap. Shared specifications are numbers. Strings that hold data are lists of bytes. A clock
  reading, the content of fresh memory, the answer of a system call or a third-party parser's result
  is an argument. Reading memory that was never written is undefined behaviour where the code goes on with it
  unseen, or an argument that may say so. Loops are structural recursions or functions with a measure; the window loop of the
  history and the scripts of the sender, which need not end, those over the lines of a trace file, which do, the turns of the player and the nesting of the dissector are partial functions into \<open>option\<close>. No definition uses fuel.

  \<^bold>\<open>What is shown.\<close> Round trips: header, every frame class, SPNs, trouble codes, NAMEs and whole
  messages through fragmenter, bus, reassembler and factory. Invariants: of the registry, of generic
  frames and their string offsets, of the claimer, of the sender's rings, of the history. Safety: frames
  of one source never disturb the fragments of another; an address is announced only after it was
  claimed; once the bus is quiet no two claimers serve one address; which commands and requests are undefined
  behaviour. Refinement and equivalence: the
  sender's list of rings is a map, a history window is sample and hold, kernel filters are the user
  filters. Errors: what happens beyond the limits, where the code misbehaves.

  \<^bold>\<open>Not modelled.\<close> Standard output and the options of
  \<open>j1939Sender\<close>; option parsing, terminal and browser front ends; the library of
  Wireshark, a parameter, with the static tables given to it and \<open>plugin.c\<close>; \<open>accelCCVS.cpp\<close>, an endless
  simulation on doubles; \<open>pcapio.c\<close>, which is vendored; the RTS/CTS manager,
  an empty class. Threads are modelled by the interleaving of whole critical sections; memory
  exhaustion is not modelled.
\<close>

end
